(* ===== verification/Prelude.thy ===== *)
theory Prelude
  imports Complex_Main "HOL-Library.Word" "HOL-Library.Signed_Division"
begin

text \<open>
  Shared types, lemma collections and generic lemmas.

  The fixed-width integers of the C++ code are machine words: a signed and an
  unsigned type of the same width are the same word type, read with \<open>sint\<close>
  and \<open>uint\<close>.  Conversions between widths are \<open>scast\<close> (from a signed
  type) and \<open>ucast\<close> (from an unsigned type); they keep the low bits, as
  the C++ conversions do.  \<open>float\<close> and \<open>double\<close> are read as real numbers:
  rounding is not modelled.
\<close>

unbundle bit_operations_syntax

type_synonym u8 = "8 word"
type_synonym i32 = "32 word"
type_synonym u32 = "32 word"
type_synonym i64 = "64 word"
type_synonym u64 = "64 word"
type_synonym scalar = real

named_theorems vec_defs \<open>unfolding rules of the small vectors\<close>
named_theorems idx_simps \<open>facts about linear indices used by the array clients\<close>
named_theorems word_bounds \<open>the ranges of the machine integers\<close>

subsection \<open>Ranges of the machine integers\<close>

lemma uint32_lt [word_bounds]: "uint (r :: 32 word) < 2 ^ 32"
  using unsigned_less[of r, where ?'a = int] by simp

lemma uint64_lt [word_bounds]: "uint (r :: 64 word) < 2 ^ 64"
  using unsigned_less[of r, where ?'a = int] by simp

lemma sint32_ge [word_bounds]: "- (2 ^ 31) \<le> sint (r :: 32 word)"
  using sint_ge[of r] by simp

lemma sint32_lt [word_bounds]: "sint (r :: 32 word) < 2 ^ 31"
  using sint_lt[of r] by simp

lemma sint64_ge [word_bounds]: "- (2 ^ 63) \<le> sint (r :: 64 word)"
  using sint_ge[of r] by simp

lemma sint64_lt [word_bounds]: "sint (r :: 64 word) < 2 ^ 63"
  using sint_lt[of r] by simp

lemma sint_of_int32: "- (2 ^ 31) \<le> k \<Longrightarrow> k < 2 ^ 31 \<Longrightarrow> sint (word_of_int k :: 32 word) = k"
  by (simp add: signed_take_bit_int_eq_self sint_sbintrunc')

lemma sint_of_int64: "- (2 ^ 63) \<le> k \<Longrightarrow> k < 2 ^ 63 \<Longrightarrow> sint (word_of_int k :: 64 word) = k"
  by (simp add: signed_take_bit_int_eq_self sint_sbintrunc')

lemma uint_of_int32: "0 \<le> k \<Longrightarrow> k < 2 ^ 32 \<Longrightarrow> uint (word_of_int k :: 32 word) = k"
  by (simp add: take_bit_int_eq_self uint_word_of_int_eq)

lemma uint_of_int64: "0 \<le> k \<Longrightarrow> k < 2 ^ 64 \<Longrightarrow> uint (word_of_int k :: 64 word) = k"
  by (simp add: take_bit_int_eq_self uint_word_of_int_eq)

subsection \<open>Conversions between widths\<close>

lemma scast_down_eq: "scast (w :: 64 word) = (ucast w :: 32 word)"
  by (rule bit_word_eqI) (simp add: bit_simps)

lemma ucast_down_add: "ucast (a + b :: 64 word) = (ucast a + ucast b :: 32 word)"
proof transfer
  fix a b :: int
  have "take_bit 32 (take_bit 64 a + take_bit 64 b)
      = take_bit 32 (take_bit 32 (take_bit 64 a) + take_bit 32 (take_bit 64 b))"
    by (simp only: take_bit_add)
  then show "take_bit LENGTH(32) (take_bit LENGTH(64) (a + b))
      = take_bit LENGTH(32) (take_bit LENGTH(64) a + take_bit LENGTH(64) b)"
    by (simp add: take_bit_add)
qed

lemma ucast_down_mult: "ucast (a * b :: 64 word) = (ucast a * ucast b :: 32 word)"
proof transfer
  fix a b :: int
  have "take_bit 32 (take_bit 64 a * take_bit 64 b)
      = take_bit 32 (take_bit 32 (take_bit 64 a) * take_bit 32 (take_bit 64 b))"
    by (simp only: take_bit_mult)
  then show "take_bit LENGTH(32) (take_bit LENGTH(64) (a * b))
      = take_bit LENGTH(32) (take_bit LENGTH(64) a * take_bit LENGTH(64) b)"
    by (simp add: take_bit_mult)
qed

lemma scast_up_down [simp]: "scast (scast (r :: 32 word) :: 64 word) = r"
  by (rule bit_word_eqI) (auto simp add: bit_simps)

lemma ucast_scast_up [simp]: "ucast (scast (r :: 32 word) :: 64 word) = r"
  by (rule bit_word_eqI) (auto simp add: bit_simps)

lemma ucast_up_down [simp]: "ucast (ucast (r :: 32 word) :: 64 word) = r"
  by (rule bit_word_eqI) (auto simp add: bit_simps)

lemma sint_scast_up [simp]: "sint (scast (r :: 32 word) :: 64 word) = sint r"
  by (simp add: sint_up_scast is_up)

lemma uint_ucast_up [simp]: "uint (ucast (r :: 32 word) :: 64 word) = uint r"
  by (simp add: uint_up_ucast is_up)

lemma sint_ucast_up [simp]: "sint (ucast (r :: 32 word) :: 64 word) = uint r"
proof -
  have "- (2 ^ 63) \<le> uint r" by (rule order.trans[OF _ uint_ge_0]) simp
  moreover have "uint r < 2 ^ 63" by (rule less_trans[OF uint32_lt]) simp
  ultimately have "sint (word_of_int (uint r) :: 64 word) = uint r"
    by (rule sint_of_int64)
  then show ?thesis by simp
qed

lemma word_of_sint [simp]: "word_of_int (sint (w :: 'a::len word)) = w"
  by simp

lemma sint_eq_uint32: "uint (w :: 32 word) < 2 ^ 31 \<Longrightarrow> sint w = uint w"
  using sint_of_int32[of "uint w"] order.trans[OF _ uint_ge_0[of w], of "- (2 ^ 31)"] by simp

lemma sint_eq_uint64: "uint (w :: 64 word) < 2 ^ 63 \<Longrightarrow> sint w = uint w"
  using sint_of_int64[of "uint w"] order.trans[OF _ uint_ge_0[of w], of "- (2 ^ 63)"] by simp

lemma uint_eq_sint32: "0 \<le> sint (w :: 32 word) \<Longrightarrow> uint w = sint w"
  using uint_of_int32[of "sint w"] less_trans[OF sint32_lt[of w], of "2 ^ 32"] by simp

lemma uint_eq_sint64: "0 \<le> sint (w :: 64 word) \<Longrightarrow> uint w = sint w"
  using uint_of_int64[of "sint w"] less_trans[OF sint64_lt[of w], of "2 ^ 64"] by simp

subsection \<open>Signed division of C++\<close>

text \<open>
  \<open>/\<close> and \<open>%\<close> on \<open>int64_t\<close>, truncating towards zero.  Division by zero is
  undefined behaviour in C++; the theorems that divide by an extent assume it
  is not zero.
\<close>

definition c_div :: "i64 \<Rightarrow> i64 \<Rightarrow> i64" where
  "c_div a b = word_of_int (sint a sdiv sint b)"

definition c_rem :: "i64 \<Rightarrow> i64 \<Rightarrow> i64" where
  "c_rem a b = word_of_int (sint a smod sint b)"

lemma sdiv_nonneg: "0 \<le> (a::int) \<Longrightarrow> 0 < b \<Longrightarrow> a sdiv b = a div b"
  by (simp add: signed_divide_int_def sgn_if)

lemma smod_nonneg: "0 \<le> (a::int) \<Longrightarrow> 0 < b \<Longrightarrow> a smod b = a mod b"
  by (simp add: signed_modulo_int_def sgn_if)

lemma sint_c_div:
  assumes "0 \<le> sint a" "0 < sint b"
  shows "sint (c_div a b) = sint a div sint b"
proof -
  have "0 \<le> sint a div sint b"
    using pos_imp_zdiv_nonneg_iff[OF assms(2)] assms(1) by blast
  then have lo: "- (2 ^ 63) \<le> sint a div sint b"
    by (rule order.trans[rotated]) simp
  have "sint a div sint b \<le> sint a div 1"
    by (rule zdiv_mono2) (use assms in linarith)+
  then have hi: "sint a div sint b < 2 ^ 63"
    using sint64_lt[of a] by simp
  show ?thesis
    by (simp only: c_div_def sdiv_nonneg[OF assms] sint_of_int64[OF lo hi])
qed

lemma sint_c_rem:
  assumes "0 \<le> sint a" "0 < sint b"
  shows "sint (c_rem a b) = sint a mod sint b"
proof -
  have lo: "- (2 ^ 63) \<le> sint a mod sint b"
    by (rule order.trans[OF _ pos_mod_sign[OF assms(2)]]) simp
  have hi: "sint a mod sint b < 2 ^ 63"
    by (rule less_trans[OF pos_mod_bound[OF assms(2)] sint64_lt])
  show ?thesis
    by (simp only: c_rem_def smod_nonneg[OF assms] sint_of_int64[OF lo hi])
qed

end
