(* ===== verification/Params.thy ===== *)
theory Params
  imports Prelude
begin

text \<open>
  The parameter store: \<open>src/framework/params_store.cpp\<close> and \<open>params_store.h\<close>.  A
  store is the list of its entries in the iteration order of the hash table.  The
  TOML tree that the library cpptoml produces and prints is a datatype; a table is
  the list of its entries in iteration order.  Reading and printing TOML text is
  cpptoml's: it enters as the parameter \<open>parse_file\<close> of \<open>params_parse\<close>.
\<close>

subsection \<open>Parameters and TOML trees\<close>

datatype param_type =
    P_bool bool
  | P_int i64
  | P_double real
  | P_string string
  | P_bools "bool list"
  | P_ints "i64 list"
  | P_doubles "real list"
  | P_strings "string list"

text \<open>\<open>std::variant::index\<close>; \<open>std::get\<close> of another alternative throws.\<close>

primrec param_index :: "param_type \<Rightarrow> nat" where
  "param_index (P_bool _) = 0"
| "param_index (P_int _) = 1"
| "param_index (P_double _) = 2"
| "param_index (P_string _) = 3"
| "param_index (P_bools _) = 4"
| "param_index (P_ints _) = 5"
| "param_index (P_doubles _) = 6"
| "param_index (P_strings _) = 7"

definition same_alternative :: "param_type \<Rightarrow> param_type \<Rightarrow> bool" where
  "same_alternative v w = (param_index v = param_index w)"

datatype toml =
    T_bool bool
  | T_int i64
  | T_double real
  | T_string string
  | T_date
  | T_array "toml list"
  | T_table "(string \<times> toml) list"
  | T_table_array "(string \<times> toml) list list"

type_synonym params = "(string \<times> param_type) list"

subsection \<open>Lookup, insertion, update\<close>

definition params_has :: "string \<Rightarrow> params \<Rightarrow> bool" where
  "params_has name m = (map_of m name \<noteq> None)"

text \<open>\<open>unordered_map::insert\<close> keeps an entry that is already there.\<close>

definition params_insert :: "string \<Rightarrow> param_type \<Rightarrow> params \<Rightarrow> params" where
  "params_insert name v m = (if map_of m name = None then m @ [(name, v)] else m)"

datatype get_report = Found | Wrong_type | Not_found

definition params_get :: "string \<Rightarrow> param_type \<Rightarrow> params \<Rightarrow> param_type \<times> get_report \<times> params" where
  "params_get name default_value m =
     (case map_of m name of
        Some v \<Rightarrow> if same_alternative v default_value then (v, Found, m) else (default_value, Wrong_type, m)
      | None \<Rightarrow> (default_value, Not_found, params_insert name default_value m))"

definition params_add :: "string \<Rightarrow> param_type \<Rightarrow> params \<Rightarrow> params" where
  "params_add name v m =
     (if map_of m name \<noteq> None then map (\<lambda>(k, x). if k = name then (k, v) else (k, x)) m
      else params_insert name v m)"

definition params_clear :: "params \<Rightarrow> params" where
  "params_clear m = []"

text \<open>\<open>add\<close> of an \<open>int\<close> and of a \<open>float\<close> widen the value.\<close>

definition params_add_int :: "string \<Rightarrow> i32 \<Rightarrow> params \<Rightarrow> params" where
  "params_add_int name v m = params_add name (P_int (scast v)) m"

definition params_add_float :: "string \<Rightarrow> real \<Rightarrow> params \<Rightarrow> params" where
  "params_add_float name v m = params_add name (P_double v) m"

subsection \<open>Reading a TOML tree\<close>

text \<open>
  \<open>array::get_array_of\<close> of cpptoml: all the elements, when they all have the type.  An
  integer can be had as a double.
\<close>

fun get_array_of :: "(toml \<Rightarrow> 'a option) \<Rightarrow> toml list \<Rightarrow> 'a list option" where
  "get_array_of as [] = Some []"
| "get_array_of as (x # xs) =
     (case as x of None \<Rightarrow> None
      | Some v \<Rightarrow> map_option (\<lambda>vs. v # vs) (get_array_of as xs))"

definition as_bool :: "toml \<Rightarrow> bool option" where
  "as_bool x = (case x of T_bool b \<Rightarrow> Some b | _ \<Rightarrow> None)"

definition as_int :: "toml \<Rightarrow> i64 option" where
  "as_int x = (case x of T_int i \<Rightarrow> Some i | _ \<Rightarrow> None)"

definition as_double :: "toml \<Rightarrow> real option" where
  "as_double x = (case x of T_double d \<Rightarrow> Some d | T_int i \<Rightarrow> Some (of_int (sint i)) | _ \<Rightarrow> None)"

definition as_string :: "toml \<Rightarrow> string option" where
  "as_string x = (case x of T_string s \<Rightarrow> Some s | _ \<Rightarrow> None)"

definition read_array :: "string \<Rightarrow> toml list \<Rightarrow> params \<Rightarrow> params" where
  "read_array name a params =
     (case get_array_of as_bool a of
        Some v \<Rightarrow> params_insert name (P_bools v) params
      | None \<Rightarrow> (case get_array_of as_int a of
        Some v \<Rightarrow> params_insert name (P_ints v) params
      | None \<Rightarrow> (case get_array_of as_double a of
        Some v \<Rightarrow> params_insert name (P_doubles v) params
      | None \<Rightarrow> (case get_array_of as_string a of
        Some v \<Rightarrow> params_insert name (P_strings v) params
      | None \<Rightarrow> params))))"

fun read_node :: "string \<Rightarrow> toml \<Rightarrow> params \<Rightarrow> params"
  and read_table :: "(string \<times> toml) list \<Rightarrow> params \<Rightarrow> params"
  and read_table_array :: "(string \<times> toml) list list \<Rightarrow> params \<Rightarrow> params" where
  "read_node name (T_table_array ts) params = read_table_array ts params"
| "read_node name (T_table t) params = read_table t params"
| "read_node name (T_array a) params = read_array name a params"
| "read_node name (T_bool b) params = params_insert name (P_bool b) params"
| "read_node name (T_int i) params = params_insert name (P_int i) params"
| "read_node name (T_double d) params = params_insert name (P_double d) params"
| "read_node name (T_string s) params = params_insert name (P_string s) params"
| "read_node name T_date params = params"
| "read_table [] params = params"
| "read_table ((name, x) # t) params = read_table t (read_node name x params)"
| "read_table_array [] params = params"
| "read_table_array (t # ts) params = read_table_array ts (read_table t params)"

text \<open>A file that does not exist leaves the store as it is; a parse error propagates.\<close>

definition params_parse ::
  "(string \<Rightarrow> bool) \<Rightarrow> (string \<Rightarrow> 'err + (string \<times> toml) list) \<Rightarrow> string \<Rightarrow> params \<Rightarrow> 'err + params" where
  "params_parse file_exists parse_file filename m =
     (if \<not> file_exists filename then Inr m
      else case parse_file filename of Inl e \<Rightarrow> Inl e | Inr t \<Rightarrow> Inr (read_table t m))"

subsection \<open>Writing\<close>

fun write_value :: "param_type \<Rightarrow> toml" where
  "write_value (P_bool b) = T_bool b"
| "write_value (P_int i) = T_int i"
| "write_value (P_double d) = T_double d"
| "write_value (P_string s) = T_string s"
| "write_value (P_bools v) = T_array (map T_bool v)"
| "write_value (P_ints v) = T_array (map T_int v)"
| "write_value (P_doubles v) = T_array (map T_double v)"
| "write_value (P_strings v) = T_array (map T_string v)"

definition params_write :: "params \<Rightarrow> (string \<times> toml) list" where
  "params_write m = map (\<lambda>(name, v). (name, write_value v)) m"

subsection \<open>Filling a struct\<close>

text \<open>The members a parameter struct can have, one for each overload of \<open>visit_param\<close>.\<close>

datatype param_field =
    F_float real
  | F_double real
  | F_bool bool
  | F_int i32
  | F_long i64
  | F_uint32 u32
  | F_uint64 u64
  | F_string string
  | F_floats "real list"
  | F_doubles "real list"
  | F_ints "i32 list"
  | F_uint32s "u32 list"
  | F_uint64s "u64 list"
  | F_bools "bool list"
  | F_strings "string list"
  | F_vec_int "i32 list"
  | F_vec_uint32 "u32 list"
  | F_vec_float "real list"
  | F_vec_double "real list"

text \<open>\<open>for (i = 0; i < min(N, v.size()); i++) x[i] = v[i]\<close>\<close>

definition copy_prefix :: "('a \<Rightarrow> 'b) \<Rightarrow> 'a list \<Rightarrow> 'b list \<Rightarrow> 'b list" where
  "copy_prefix f v x = foldl (\<lambda>x i. x[i := f (v ! i)]) x [0..<min (length x) (length v)]"

definition get_bools :: "param_type \<Rightarrow> bool list" where "get_bools x = (case x of P_bools v \<Rightarrow> v | _ \<Rightarrow> [])"
definition get_ints :: "param_type \<Rightarrow> i64 list" where "get_ints x = (case x of P_ints v \<Rightarrow> v | _ \<Rightarrow> [])"
definition get_doubles :: "param_type \<Rightarrow> real list" where "get_doubles x = (case x of P_doubles v \<Rightarrow> v | _ \<Rightarrow> [])"
definition get_strings :: "param_type \<Rightarrow> string list" where "get_strings x = (case x of P_strings v \<Rightarrow> v | _ \<Rightarrow> [])"
definition get_bool :: "param_type \<Rightarrow> bool" where "get_bool x = (case x of P_bool v \<Rightarrow> v | _ \<Rightarrow> False)"
definition get_int :: "param_type \<Rightarrow> i64" where "get_int x = (case x of P_int v \<Rightarrow> v | _ \<Rightarrow> 0)"
definition get_double :: "param_type \<Rightarrow> real" where "get_double x = (case x of P_double v \<Rightarrow> v | _ \<Rightarrow> 0)"
definition get_string :: "param_type \<Rightarrow> string" where "get_string x = (case x of P_string v \<Rightarrow> v | _ \<Rightarrow> '''')"

text \<open>The argument of \<open>get_as\<close> for a member, and the assignment of its result.\<close>

fun field_default :: "param_field \<Rightarrow> param_type" where
  "field_default (F_float x) = P_double x"
| "field_default (F_double x) = P_double x"
| "field_default (F_bool x) = P_bool x"
| "field_default (F_int x) = P_int (scast x)"
| "field_default (F_long x) = P_int x"
| "field_default (F_uint32 x) = P_int (ucast x)"
| "field_default (F_uint64 x) = P_int x"
| "field_default (F_string x) = P_string x"
| "field_default (F_floats x) = P_doubles []"
| "field_default (F_doubles x) = P_doubles []"
| "field_default (F_ints x) = P_ints []"
| "field_default (F_uint32s x) = P_ints []"
| "field_default (F_uint64s x) = P_ints []"
| "field_default (F_bools x) = P_bools []"
| "field_default (F_strings x) = P_strings []"
| "field_default (F_vec_int x) = P_ints []"
| "field_default (F_vec_uint32 x) = P_ints []"
| "field_default (F_vec_float x) = P_doubles []"
| "field_default (F_vec_double x) = P_doubles []"

fun field_assign :: "param_field \<Rightarrow> param_type \<Rightarrow> param_field" where
  "field_assign (F_float x) v = F_float (get_double v)"
| "field_assign (F_double x) v = F_double (get_double v)"
| "field_assign (F_bool x) v = F_bool (get_bool v)"
| "field_assign (F_int x) v = F_int (scast (get_int v))"
| "field_assign (F_long x) v = F_long (get_int v)"
| "field_assign (F_uint32 x) v = F_uint32 (ucast (get_int v))"
| "field_assign (F_uint64 x) v = F_uint64 (get_int v)"
| "field_assign (F_string x) v = F_string (get_string v)"
| "field_assign (F_floats x) v = F_floats (copy_prefix id (get_doubles v) x)"
| "field_assign (F_doubles x) v = F_doubles (copy_prefix id (get_doubles v) x)"
| "field_assign (F_ints x) v = F_ints (copy_prefix scast (get_ints v) x)"
| "field_assign (F_uint32s x) v = F_uint32s (copy_prefix ucast (get_ints v) x)"
| "field_assign (F_uint64s x) v = F_uint64s (copy_prefix id (get_ints v) x)"
| "field_assign (F_bools x) v = F_bools (copy_prefix id (get_bools v) x)"
| "field_assign (F_strings x) v = F_strings (copy_prefix id (get_strings v) x)"
| "field_assign (F_vec_int x) v = F_vec_int (copy_prefix scast (get_ints v) x)"
| "field_assign (F_vec_uint32 x) v = F_vec_uint32 (copy_prefix ucast (get_ints v) x)"
| "field_assign (F_vec_float x) v = F_vec_float (copy_prefix id (get_doubles v) x)"
| "field_assign (F_vec_double x) v = F_vec_double (copy_prefix id (get_doubles v) x)"

definition visit_param :: "string \<Rightarrow> param_field \<Rightarrow> params \<Rightarrow> param_field \<times> params" where
  "visit_param name x m =
     (let (v, report, m) = params_get name (field_default x) m in (field_assign x v, m))"

fun parse_struct :: "(string \<times> param_field) list \<Rightarrow> params \<Rightarrow> (string \<times> param_field) list \<times> params" where
  "parse_struct [] m = ([], m)"
| "parse_struct ((name, x) # fs) m =
     (let (x, m) = visit_param name x m; (fs, m) = parse_struct fs m in ((name, x) # fs, m))"


subsection \<open>Lookups after an operation\<close>

lemma map_of_params_insert:
  "map_of (params_insert k v m) name = (case map_of m name of Some w \<Rightarrow> Some w | None \<Rightarrow> if name = k then Some v else None)"
  by (auto simp: params_insert_def map_add_def split: option.splits)

lemma map_of_params_add:
  "map_of (params_add k v m) name = (if name = k then Some v else map_of m name)"
proof (cases "map_of m k")
  case None
  then show ?thesis by (auto simp: params_add_def map_of_params_insert split: option.splits)
next
  case (Some w)
  have "map_of (map (\<lambda>(j, x). if j = k then (j, v) else (j, x)) m) name
      = (if name = k then map_option (\<lambda>_. v) (map_of m name) else map_of m name)"
    by (induction m) auto
  with Some show ?thesis by (simp add: params_add_def)
qed

text \<open>No entry is ever overwritten by a read: stores only grow.\<close>

definition grows :: "params \<Rightarrow> params \<Rightarrow> bool" where
  "grows m m' = (map_of m \<subseteq>\<^sub>m map_of m')"

lemma grows_refl [simp]: "grows m m" by (simp add: grows_def)

lemma grows_trans: "grows a b \<Longrightarrow> grows b c \<Longrightarrow> grows a c"
  unfolding grows_def by (rule map_le_trans)

lemma growsD: "grows m m' \<Longrightarrow> map_of m name = Some v \<Longrightarrow> map_of m' name = Some v"
  unfolding grows_def map_le_def by (metis domI)

lemma grows_insert: "grows m (params_insert k v m)"
  by (auto simp: grows_def map_le_def map_of_params_insert)

subsection \<open>Reading a tree\<close>

text \<open>The entries a tree contributes, in the order they are met.\<close>

definition array_entry :: "string \<Rightarrow> toml list \<Rightarrow> params" where
  "array_entry name a = read_array name a []"

fun node_entries :: "string \<Rightarrow> toml \<Rightarrow> params"
  and table_entries :: "(string \<times> toml) list \<Rightarrow> params"
  and table_array_entries :: "(string \<times> toml) list list \<Rightarrow> params" where
  "node_entries name (T_table_array ts) = table_array_entries ts"
| "node_entries name (T_table t) = table_entries t"
| "node_entries name (T_array a) = array_entry name a"
| "node_entries name (T_bool b) = [(name, P_bool b)]"
| "node_entries name (T_int i) = [(name, P_int i)]"
| "node_entries name (T_double d) = [(name, P_double d)]"
| "node_entries name (T_string s) = [(name, P_string s)]"
| "node_entries name T_date = []"
| "table_entries [] = []"
| "table_entries ((name, x) # t) = node_entries name x @ table_entries t"
| "table_array_entries [] = []"
| "table_array_entries (t # ts) = table_entries t @ table_array_entries ts"

definition insert_all :: "params \<Rightarrow> params \<Rightarrow> params" where
  "insert_all es m = foldl (\<lambda>m (k, v). params_insert k v m) m es"

lemma insert_all_simps [simp]:
  "insert_all [] m = m" "insert_all ((k, v) # es) m = insert_all es (params_insert k v m)"
  "insert_all (es @ fs) m = insert_all fs (insert_all es m)"
  by (simp_all add: insert_all_def)

lemma map_of_insert_all: "map_of (insert_all es m) = map_of es ++ map_of m"
proof (induction es arbitrary: m)
  case (Cons e es)
  then show ?case by (cases e) (auto simp: fun_eq_iff map_add_def map_of_params_insert split: option.splits)
qed simp

lemma read_array_insert: "read_array name a m = insert_all (array_entry name a) m"
  by (auto simp: read_array_def array_entry_def params_insert_def[of _ _ "[]"] split: option.splits)

lemma read_insert_all:
  "read_node name x m = insert_all (node_entries name x) m"
  "read_table t m = insert_all (table_entries t) m"
  "read_table_array ts m = insert_all (table_array_entries ts) m"
  by (induction name x m and t m and ts m rule: read_node_read_table_read_table_array.induct)
     (simp_all add: read_array_insert)


subsection \<open>Writing and reading back\<close>

lemma get_array_of_map:
  "(\<And>v. as (c v) = Some (d v)) \<Longrightarrow> get_array_of as (map c vs) = Some (map d vs)"
  by (induction vs) simp_all

lemma get_array_of_other:
  "(\<And>v. as (c v) = None) \<Longrightarrow> get_array_of as (map c vs) = (if vs = [] then Some [] else None)"
  by (cases vs) simp_all

text \<open>cpptoml reads every empty array as an array of \<open>bool\<close>.\<close>

fun canon :: "param_type \<Rightarrow> param_type" where
  "canon (P_ints []) = P_bools []"
| "canon (P_doubles []) = P_bools []"
| "canon (P_strings []) = P_bools []"
| "canon v = v"

lemma canon_nonempty:
  "is \<noteq> [] \<Longrightarrow> canon (P_ints is) = P_ints is" "ds \<noteq> [] \<Longrightarrow> canon (P_doubles ds) = P_doubles ds"
  "ss \<noteq> [] \<Longrightarrow> canon (P_strings ss) = P_strings ss"
  by (auto simp: neq_Nil_conv)

lemmas as_defs = as_bool_def as_int_def as_double_def as_string_def

lemma array_entry_write:
  "array_entry name (map T_bool bs) = [(name, P_bools bs)]"
  "array_entry name (map T_int is) = [(name, canon (P_ints is))]"
  "array_entry name (map T_double ds) = [(name, canon (P_doubles ds))]"
  "array_entry name (map T_string ss) = [(name, canon (P_strings ss))]"
proof -
  have none: "get_array_of as_bool (map T_int is) = (if is = [] then Some [] else None)"
    "get_array_of as_bool (map T_double ds) = (if ds = [] then Some [] else None)"
    "get_array_of as_int (map T_double ds) = (if ds = [] then Some [] else None)"
    "get_array_of as_bool (map T_string ss) = (if ss = [] then Some [] else None)"
    "get_array_of as_int (map T_string ss) = (if ss = [] then Some [] else None)"
    "get_array_of as_double (map T_string ss) = (if ss = [] then Some [] else None)"
    by (rule get_array_of_other, simp add: as_defs)+
  have some: "get_array_of as_bool (map T_bool bs) = Some (map id bs)"
    "get_array_of as_int (map T_int is) = Some (map id is)"
    "get_array_of as_double (map T_double ds) = Some (map id ds)"
    "get_array_of as_string (map T_string ss) = Some (map id ss)"
    by (rule get_array_of_map, simp add: as_defs)+
  note d = array_entry_def read_array_def params_insert_def none some list.map_id
  show "array_entry name (map T_bool bs) = [(name, P_bools bs)]"
    by (simp add: d)
  show "array_entry name (map T_int is) = [(name, canon (P_ints is))]"
    by (cases "is = []", simp add: d) (simp add: d canon_nonempty)
  show "array_entry name (map T_double ds) = [(name, canon (P_doubles ds))]"
    by (cases "ds = []", simp add: d) (simp add: d canon_nonempty)
  show "array_entry name (map T_string ss) = [(name, canon (P_strings ss))]"
    by (cases "ss = []", simp add: d) (simp add: d canon_nonempty)
qed

lemma write_value_entry: "node_entries name (write_value v) = [(name, canon v)]"
  by (cases v) (simp_all add: array_entry_write)

lemma table_entries_write: "table_entries (params_write m) = map (\<lambda>(k, v). (k, canon v)) m"
  by (induction m) (auto simp: params_write_def write_value_entry)

subsection \<open>Filling a struct\<close>

lemma copy_prefix_take_drop: "copy_prefix f v x = map f (take (length x) v) @ drop (length v) x"
proof -
  have "foldl (\<lambda>x i. x[i := f (v ! i)]) x [0..<n] = map f (take n v) @ drop n x"
    if "n \<le> length x" "n \<le> length v" for n
    using that
  proof (induction n)
    case (Suc n)
    have "(map f (take n v) @ drop n x)[n := f (v ! n)] = map f (take n v) @ (f (v ! n) # drop (Suc n) x)"
      using Suc.prems by (simp add: list_update_append Cons_nth_drop_Suc[symmetric])
    with Suc show ?case by (simp add: take_Suc_conv_app_nth)
  qed simp
  from this[of "min (length x) (length v)"] show ?thesis
    by (cases "length x \<le> length v") (simp_all add: copy_prefix_def min_def)
qed

lemma copy_prefix_nil [simp]: "copy_prefix f [] x = x"
  by (simp add: copy_prefix_take_drop)

lemma copy_prefix_twice [simp]: "copy_prefix f v (copy_prefix f v x) = copy_prefix f v x"
  by (simp add: copy_prefix_take_drop min_def)

lemmas get_defs = get_bool_def get_int_def get_double_def get_string_def
  get_bools_def get_ints_def get_doubles_def get_strings_def

lemma field_assign_default [simp]: "field_assign x (field_default x) = x"
  by (cases x) (simp_all add: get_defs)

lemma field_assign_twice [simp]: "field_assign (field_assign x v) v = field_assign x v"
  by (cases x) simp_all

lemma field_index [simp]: "param_index (field_default (field_assign x v)) = param_index (field_default x)"
  by (cases x) simp_all

text \<open>The value a member gets from a store.\<close>

definition field_from :: "params \<Rightarrow> string \<Rightarrow> param_field \<Rightarrow> param_field" where
  "field_from m name x = (case map_of m name of
     Some v \<Rightarrow> if same_alternative v (field_default x) then field_assign x v else x
   | None \<Rightarrow> x)"

lemma visit_param_eq:
  "visit_param name x m = (field_from m name x, params_insert name (field_default x) m)"
  by (auto simp: visit_param_def params_get_def field_from_def params_insert_def split: option.splits)

lemma map_of_insert_None: "map_of m name = None \<Longrightarrow> map_of (params_insert name v m) name = Some v"
  by (simp add: map_of_params_insert)

text \<open>Visiting a member again, in any store that has grown since, changes nothing.\<close>

lemma visit_again:
  assumes "visit_param name x m = (x', m1)" "grows m1 m2"
  shows "visit_param name x' m2 = (x', m2)"
proof (cases "map_of m name")
  case None
  then have "map_of m2 name = Some (field_default x)" "x' = x"
    using assms growsD[OF assms(2)] by (auto simp: visit_param_eq field_from_def map_of_insert_None)
  then show ?thesis
    by (simp add: visit_param_eq field_from_def params_insert_def)
next
  case (Some v)
  then have "map_of m2 name = Some v"
    using assms growsD[OF assms(2)] by (auto simp: visit_param_eq params_insert_def)
  then show ?thesis
    using assms(1) Some by (auto simp: visit_param_eq field_from_def params_insert_def same_alternative_def)
qed

lemma parse_struct_grows: "grows m (snd (parse_struct fs m))"
proof (induction fs m rule: parse_struct.induct)
  case (2 name x fs m)
  then show ?case
    using grows_trans[OF grows_insert]
    by (fastforce simp: visit_param_eq case_prod_beta)
qed simp


lemma parse_struct_again:
  "parse_struct fs m = (fs', m1) \<Longrightarrow> grows m1 m2 \<Longrightarrow> parse_struct fs' m2 = (fs', m2)"
proof (induction fs m arbitrary: fs' m1 m2 rule: parse_struct.induct)
  case (2 name x fs m)
  obtain x' n where v: "visit_param name x m = (x', n)" by (cases "visit_param name x m")
  obtain gs n' where p: "parse_struct fs n = (gs, n')" by (cases "parse_struct fs n")
  have e: "fs' = (name, x') # gs" "m1 = n'"
    using 2(2) by (simp_all add: v p)
  have "grows n m2"
    using parse_struct_grows[of n fs] 2(3) grows_trans by (simp add: p e(2))
  then have "visit_param name x' m2 = (x', m2)" by (rule visit_again[OF v])
  moreover have "parse_struct gs m2 = (gs, m2)"
    using 2(1)[OF v[symmetric] refl p] 2(3) e(2) by simp
  ultimately show ?case by (simp add: e(1))
qed simp

lemma parse_struct_members:
  assumes "distinct (map fst fs)"
  shows "fst (parse_struct fs m) = map (\<lambda>(name, x). (name, field_from m name x)) fs
    \<and> map_of (snd (parse_struct fs m)) = map_of (map (\<lambda>(name, x). (name, field_default x)) fs) ++ map_of m"
  using assms
proof (induction fs arbitrary: m)
  case (Cons f fs)
  obtain name x where f: "f = (name, x)" by (cases f)
  let ?m = "params_insert name (field_default x) m"
  have ff: "field_from ?m n y = field_from m n y" if "n \<noteq> name" for n y
    using that by (simp add: field_from_def map_of_params_insert split: option.splits)
  have nn: "n \<noteq> name" if "(n, y) \<in> set fs" for n y
    using Cons.prems that by (auto simp: f rev_image_eqI)
  have mm: "map (\<lambda>(n, y). (n, field_from ?m n y)) fs = map (\<lambda>(n, y). (n, field_from m n y)) fs"
    by (rule map_cong[OF refl]) (use nn in \<open>force simp: ff\<close>)
  have dd: "map_of (map (\<lambda>(n, y). (n, field_default y)) fs) ++ map_of ?m
      = map_of (map (\<lambda>(n, y). (n, field_default y)) (f # fs)) ++ map_of m"
  proof (rule ext)
    fix n show "(map_of (map (\<lambda>(n, y). (n, field_default y)) fs) ++ map_of ?m) n
        = (map_of (map (\<lambda>(n, y). (n, field_default y)) (f # fs)) ++ map_of m) n"
      by (cases "n = name"; cases "map_of m n") (simp_all add: map_add_def map_of_params_insert f)
  qed
  have "parse_struct (f # fs) m = ((name, field_from m name x) # fst (parse_struct fs ?m), snd (parse_struct fs ?m))"
    by (simp add: f visit_param_eq case_prod_beta)
  moreover have "distinct (map fst fs)" using Cons.prems by simp
  ultimately show ?case
    using Cons.IH[of ?m] by (simp only: mm dd fst_conv snd_conv) (simp add: f fun_upd_def)
qed simp

subsection \<open>Properties\<close>

text \<open>
  Reading a TOML tree adds the values of all its tables under their bare names, in
  the order they are met; an entry the store already has wins, and of two values with
  the same name the first one met wins.
\<close>

theorem read_table_first_wins:
  "map_of (read_table t m) name
     = (case map_of m name of Some v \<Rightarrow> Some v | None \<Rightarrow> map_of (table_entries t) name)"
  by (simp add: read_insert_all map_of_insert_all map_add_def)

text \<open>
  C18.  A written store read back into an empty one gives every parameter its value, except
  that empty arrays of integers, doubles and strings come back as empty arrays of \<open>bool\<close>.
\<close>

theorem write_read_roundtrip:
  "map_of (read_table (params_write m) []) name = map_option canon (map_of m name)"
proof -
  have "map_of (map (\<lambda>(k, v). (k, canon v)) m) name = map_option canon (map_of m name)"
    by (induction m) auto
  then show ?thesis
    by (simp add: read_insert_all map_of_insert_all table_entries_write)
qed

text \<open>
  C26.  Filling a struct with distinct member names: a member whose parameter has the type
  asked for takes its value, a member whose parameter is missing or has another type
  keeps its own.  The missing ones enter the store with their defaults, no entry is
  overwritten, and filling the result again changes neither struct nor store.
\<close>

theorem parse_struct_effect:
  assumes "distinct (map fst fs)"
  shows "case parse_struct fs m of (fs', m') \<Rightarrow>
    fs' = map (\<lambda>(name, x). (name,
            case map_of m name of
              Some v \<Rightarrow> if same_alternative v (field_default x) then field_assign x v else x
            | None \<Rightarrow> x)) fs
    \<and> (\<forall>name. map_of m' name = (case map_of m name of Some v \<Rightarrow> Some v
                                  | None \<Rightarrow> map_option field_default (map_of fs name)))
    \<and> parse_struct fs' m' = (fs', m')"
proof -
  obtain fs' m' where p: "parse_struct fs m = (fs', m')" by (cases "parse_struct fs m")
  have "map_of (map (\<lambda>(name, x). (name, field_default x)) fs) name = map_option field_default (map_of fs name)" for name
    by (induction fs) auto
  then show ?thesis
    using parse_struct_members[OF assms, of m] parse_struct_again[OF p grows_refl]
    by (auto simp: p field_from_def map_add_def split: option.splits)
qed

theorem parse_struct_effect_witness:
  "parse_struct [(''N'', F_vec_int [1, 2, 3]), (''dt'', F_float 1)] [(''dt'', P_int 5), (''N'', P_ints [7, 8])]
    = ([(''N'', F_vec_int [7, 8, 3]), (''dt'', F_float 1)], [(''dt'', P_int 5), (''N'', P_ints [7, 8])])
   \<and> parse_struct [(''N'', F_vec_int [7, 8, 3]), (''dt'', F_float 1)] [(''dt'', P_int 5), (''N'', P_ints [7, 8])]
    = ([(''N'', F_vec_int [7, 8, 3]), (''dt'', F_float 1)], [(''dt'', P_int 5), (''N'', P_ints [7, 8])])"
proof -
  have c: "parse_struct [(''N'', F_vec_int [1, 2, 3]), (''dt'', F_float 1)] [(''dt'', P_int 5), (''N'', P_ints [7, 8])]
    = ([(''N'', F_vec_int [7, 8, 3]), (''dt'', F_float 1)], [(''dt'', P_int 5), (''N'', P_ints [7, 8])])"
    by (simp add: visit_param_eq field_from_def same_alternative_def copy_prefix_take_drop get_defs params_insert_def)
  have d: "distinct (map fst [(''N'', F_vec_int [1, 2, 3]), (''dt'', F_float 1)])" by simp
  show ?thesis
    by (rule conjI[OF c parse_struct_effect[OF d, of "[(''dt'', P_int 5), (''N'', P_ints [7, 8])]",
          unfolded c prod.case, THEN conjunct2, THEN conjunct2]])
qed

end
