(* ===== verification/Env.thy ===== *)
theory Env
  imports Params
begin

text \<open>
  The simulation environment: \<open>src/framework/environment.cpp\<close>, \<open>environment.h\<close>,
  \<open>system.h\<close> and \<open>data.h\<close>.  The environment is a singleton that every system can reach,
  so what a system does when it is constructed, initialised or updated is a function
  on the environment, a parameter of the definitions.  The rest of the program's state
  is the field \<open>e_world\<close>.  Log messages are left out.
\<close>

subsection \<open>State\<close>

record data_flags =
  d_skip_output :: bool
  d_in_snapshot :: bool
  d_reset_after_output :: bool
  d_special_output_interval :: i32
  d_special_output_num :: i32

definition data_new :: data_flags where
  "data_new = \<lparr>d_skip_output = False, d_in_snapshot = False, d_reset_after_output = False,
     d_special_output_interval = 0, d_special_output_num = 0\<rparr>"

record ('s, 'd, 'w) env =
  e_system_map :: "string \<rightharpoonup> 's"
  e_data_map :: "string \<rightharpoonup> 'd"
  e_system_order :: "string list"
  e_data_order :: "string list"
  e_system_time :: "string \<rightharpoonup> real"
  e_params :: params
  e_dry_run :: bool
  e_dt :: real
  e_time :: real
  e_step_time :: real
  e_rank :: i32
  e_step :: u32
  e_max_steps :: u32
  e_perf_interval :: u32
  e_is_restart :: bool
  e_restart_file :: string
  e_world :: 'w

subsection \<open>Registration\<close>

text \<open>
  \<open>mk_sys\<close> makes the system and runs its \<open>register_data_components\<close>, which may register
  further systems and data.  A pointer is an option: \<open>dynamic_cast\<close> gives \<open>None\<close> for an
  object of another type.
\<close>

definition dyn_cast :: "('x \<Rightarrow> bool) \<Rightarrow> 'x \<Rightarrow> 'x option" where
  "dyn_cast is_type x = (if is_type x then Some x else None)"

definition register_system ::
  "('s \<Rightarrow> bool) \<Rightarrow> (('s, 'd, 'w) env \<Rightarrow> 's \<times> ('s, 'd, 'w) env) \<Rightarrow> string \<Rightarrow> ('s, 'd, 'w) env
     \<Rightarrow> 's option \<times> ('s, 'd, 'w) env" where
  "register_system is_type mk_sys name e =
     (case e_system_map e name of
        Some s \<Rightarrow> (dyn_cast is_type s, e)
      | None \<Rightarrow>
         (let (s, e) = mk_sys e;
              e = (if e_system_map e name = None then e\<lparr>e_system_map := (e_system_map e)(name \<mapsto> s)\<rparr> else e);
              e = e\<lparr>e_system_order := e_system_order e @ [name]\<rparr>
          in (dyn_cast is_type (the (e_system_map e name)), e)))"

definition register_data ::
  "('d \<Rightarrow> bool) \<Rightarrow> 'd \<Rightarrow> string \<Rightarrow> ('s, 'd, 'w) env \<Rightarrow> 'd option \<times> ('s, 'd, 'w) env" where
  "register_data is_type d name e =
     (case e_data_map e name of
        Some d0 \<Rightarrow> (dyn_cast is_type d0, e)
      | None \<Rightarrow>
         (let e = e\<lparr>e_data_map := (e_data_map e)(name \<mapsto> d), e_data_order := e_data_order e @ [name]\<rparr>
          in (dyn_cast is_type (the (e_data_map e name)), e)))"

definition get_system :: "string \<Rightarrow> ('s, 'd, 'w) env \<Rightarrow> 's option" where
  "get_system name e = e_system_map e name"

definition get_data_optional :: "string \<Rightarrow> ('s, 'd, 'w) env \<Rightarrow> 'd option" where
  "get_data_optional name e = e_data_map e name"

text \<open>\<open>get_data\<close> throws \<open>runtime_error\<close> with the name.\<close>

datatype env_error = Data_not_found string | Exit nat | Parse_error

definition get_data :: "string \<Rightarrow> ('s, 'd, 'w) env \<Rightarrow> env_error + 'd" where
  "get_data name e = (case e_data_map e name of Some d \<Rightarrow> Inr d | None \<Rightarrow> Inl (Data_not_found name))"

definition get_data_ptr :: "('d \<Rightarrow> bool) \<Rightarrow> string \<Rightarrow> ('s, 'd, 'w) env \<Rightarrow> env_error + 'd option" where
  "get_data_ptr is_type name e =
     (case e_data_map e name of Some d \<Rightarrow> Inr (dyn_cast is_type d) | None \<Rightarrow> Inl (Data_not_found name))"

definition get_data_optional_ptr :: "('d \<Rightarrow> bool) \<Rightarrow> string \<Rightarrow> ('s, 'd, 'w) env \<Rightarrow> 'd option" where
  "get_data_optional_ptr is_type name e =
     (case e_data_map e name of Some d \<Rightarrow> dyn_cast is_type d | None \<Rightarrow> None)"

subsection \<open>Start\<close>

text \<open>What cxxopts finds on the command line; \<open>None\<close> when it throws.\<close>

record cli_result =
  cli_help :: bool
  cli_dry_run :: bool
  cli_config :: string
  cli_restart :: string

definition parse_options ::
  "(string list \<Rightarrow> cli_result option) \<Rightarrow> string list \<Rightarrow> ('s, 'd, 'w) env \<Rightarrow> env_error + ('s, 'd, 'w) env" where
  "parse_options parse_cli argv e =
     (case parse_cli argv of
        None \<Rightarrow> Inl (Exit 1)
      | Some r \<Rightarrow>
         if cli_help r then Inl (Exit 0)
         else (let e = (if cli_dry_run r then e\<lparr>e_dry_run := True\<rparr> else e);
                   e = e\<lparr>e_params := params_add ''config_file'' (P_string (cli_config r)) (e_params e)\<rparr>;
                   e = e\<lparr>e_restart_file := cli_restart r\<rparr>
               in Inr (if cli_restart r \<noteq> '''' then e\<lparr>e_is_restart := True\<rparr> else e)))"

definition env_reset ::
  "(string list \<Rightarrow> cli_result option) \<Rightarrow> (string \<Rightarrow> bool) \<Rightarrow> (string \<Rightarrow> unit + (string \<times> toml) list)
     \<Rightarrow> string list option \<Rightarrow> ('s, 'd, 'w) env \<Rightarrow> env_error + ('s, 'd, 'w) env" where
  "env_reset parse_cli file_exists parse_file argv e =
     (let e = e\<lparr>e_system_map := Map.empty, e_system_order := [], e_data_map := Map.empty, e_data_order := [],
                e_params := params_clear (e_params e)\<rparr>
      in case (case argv of Some a \<Rightarrow> parse_options parse_cli a e | None \<Rightarrow> Inr e) of
           Inl err \<Rightarrow> Inl err
         | Inr e \<Rightarrow>
            (let (conf, report, m) = params_get ''config_file'' (P_string ''config.toml'') (e_params e)
             in case params_parse file_exists parse_file (get_string conf) m of
                  Inl err \<Rightarrow> Inl Parse_error
                | Inr m \<Rightarrow> Inr (e\<lparr>e_params := m\<rparr>)))"

subsection \<open>Initialisation\<close>

definition init_system ::
  "(string \<Rightarrow> ('s, 'd, 'w) env \<Rightarrow> ('s, 'd, 'w) env) \<Rightarrow> ('s, 'd, 'w) env \<Rightarrow> string \<Rightarrow> ('s, 'd, 'w) env" where
  "init_system sys_init e name =
     (let e = sys_init name e
      in if e_system_time e name = None then e\<lparr>e_system_time := (e_system_time e)(name \<mapsto> 0)\<rparr> else e)"

definition env_init ::
  "(string \<Rightarrow> ('s, 'd, 'w) env \<Rightarrow> ('s, 'd, 'w) env) \<Rightarrow> (string \<Rightarrow> ('s, 'd, 'w) env \<Rightarrow> ('s, 'd, 'w) env)
     \<Rightarrow> ('s, 'd, 'w) env \<Rightarrow> ('s, 'd, 'w) env" where
  "env_init sys_init data_init e =
     (let (_, m) = visit_param ''log_level'' (F_int 0) (e_params e);
          (ms, _, m) = params_get ''max_steps'' (P_int 1) m;
          (dt, _, m) = params_get ''dt'' (P_double (1 / 100)) m;
          (iv, _, m) = params_get ''perf_interval'' (P_int 10) m;
          e = e\<lparr>e_params := m, e_step := 0, e_time := 0, e_max_steps := ucast (get_int ms),
                e_dt := get_double dt, e_perf_interval := ucast (get_int iv)\<rparr>;
          e = foldl (init_system sys_init) e (e_system_order e)
      in foldl (\<lambda>e name. data_init name e) e (e_data_order e))"

subsection \<open>The loop\<close>

text \<open>
  \<open>paused\<close> is \<open>is_paused()\<close> of a system, \<open>upd\<close> its \<open>update(dt, step)\<close> and \<open>spent\<close> the time
  the timer measures for it.  The division by \<open>perf_interval\<close> fails when it is 0.
\<close>

definition update_system ::
  "(('s, 'd, 'w) env \<Rightarrow> string \<Rightarrow> bool) \<Rightarrow> (string \<Rightarrow> real \<Rightarrow> u32 \<Rightarrow> ('s, 'd, 'w) env \<Rightarrow> ('s, 'd, 'w) env)
     \<Rightarrow> (('s, 'd, 'w) env \<Rightarrow> string \<Rightarrow> real) \<Rightarrow> ('s, 'd, 'w) env \<Rightarrow> string \<Rightarrow> ('s, 'd, 'w) env" where
  "update_system paused upd spent e name =
     (if paused e name then e
      else (let e = upd name (e_dt e) (e_step e) e;
                t = (case e_system_time e name of Some t \<Rightarrow> t | None \<Rightarrow> 0) + spent e name;
                t = (if e_step e mod e_perf_interval e = 0 \<and> t / of_int (uint (e_perf_interval e)) > 10 then 0 else t)
            in e\<lparr>e_system_time := (e_system_time e)(name \<mapsto> t)\<rparr>))"

definition env_update ::
  "(('s, 'd, 'w) env \<Rightarrow> string \<Rightarrow> bool) \<Rightarrow> (string \<Rightarrow> real \<Rightarrow> u32 \<Rightarrow> ('s, 'd, 'w) env \<Rightarrow> ('s, 'd, 'w) env)
     \<Rightarrow> (('s, 'd, 'w) env \<Rightarrow> string \<Rightarrow> real) \<Rightarrow> (('s, 'd, 'w) env \<Rightarrow> real) \<Rightarrow> ('s, 'd, 'w) env
     \<Rightarrow> ('s, 'd, 'w) env option" where
  "env_update paused upd spent step_spent e =
     (if e_perf_interval e = 0 then None
      else (let e = foldl (update_system paused upd spent) e (e_system_order e);
                e = e\<lparr>e_step_time := e_step_time e + step_spent e\<rparr>;
                e = (if e_step e mod e_perf_interval e = 0 \<and> e_step e > 0 then e\<lparr>e_step_time := 0\<rparr> else e)
            in Some (e\<lparr>e_time := e_time e + e_dt e, e_step := e_step e + 1\<rparr>)))"

partial_function (option) run_loop ::
  "(('s, 'd, 'w) env \<Rightarrow> ('s, 'd, 'w) env option) \<Rightarrow> ('s, 'd, 'w) env \<Rightarrow> ('s, 'd, 'w) env option" where
  "run_loop update e =
     (if e_step e \<le> e_max_steps e
      then (case update e of None \<Rightarrow> None | Some e \<Rightarrow> run_loop update e)
      else Some e)"

definition env_run ::
  "(('s, 'd, 'w) env \<Rightarrow> ('s, 'd, 'w) env option) \<Rightarrow> ('s, 'd, 'w) env \<Rightarrow> ('s, 'd, 'w) env option" where
  "env_run update e = (if e_dry_run e then Some e else run_loop update e)"


subsection \<open>Steps of the loop\<close>

text \<open>Systems may change anything but the fields that drive the loop.\<close>

definition same_loop :: "('s, 'd, 'w) env \<Rightarrow> ('s, 'd, 'w) env \<Rightarrow> bool" where
  "same_loop e e' = (e_step e' = e_step e \<and> e_max_steps e' = e_max_steps e \<and> e_perf_interval e' = e_perf_interval e
     \<and> e_dt e' = e_dt e \<and> e_time e' = e_time e)"

definition keeps_loop :: "(string \<Rightarrow> real \<Rightarrow> u32 \<Rightarrow> ('s, 'd, 'w) env \<Rightarrow> ('s, 'd, 'w) env) \<Rightarrow> bool" where
  "keeps_loop upd = (\<forall>name dt s e. same_loop e (upd name dt s e))"

lemma same_loop_refl [simp]: "same_loop e e" by (simp add: same_loop_def)

lemma same_loop_trans: "same_loop a b \<Longrightarrow> same_loop b c \<Longrightarrow> same_loop a c"
  by (simp add: same_loop_def)

lemma update_system_same: "keeps_loop upd \<Longrightarrow> same_loop e (update_system paused upd spent e name)"
  unfolding keeps_loop_def update_system_def Let_def same_loop_def by simp

lemma update_systems_same:
  "keeps_loop upd \<Longrightarrow> same_loop e (foldl (update_system paused upd spent) e names)"
proof (induction names arbitrary: e)
  case (Cons n ns)
  show ?case
    using same_loop_trans[OF update_system_same[OF Cons.prems] Cons.IH[OF Cons.prems]] by simp
qed simp

lemma env_update_Some:
  assumes "keeps_loop upd" "e_perf_interval e \<noteq> 0"
  shows "\<exists>e'. env_update paused upd spent step_spent e = Some e' \<and> e_step e' = e_step e + 1
     \<and> e_max_steps e' = e_max_steps e \<and> e_perf_interval e' = e_perf_interval e \<and> e_dt e' = e_dt e
     \<and> e_time e' = e_time e + e_dt e"
  using update_systems_same[OF assms(1), of e paused spent "e_system_order e"] assms(2)
  by (simp add: env_update_def Let_def same_loop_def)

fun iterate :: "nat \<Rightarrow> ('x \<Rightarrow> 'x option) \<Rightarrow> 'x \<Rightarrow> 'x option" where
  "iterate 0 f x = Some x"
| "iterate (Suc n) f x = (case f x of None \<Rightarrow> None | Some y \<Rightarrow> iterate n f y)"

lemma run_loop_iterate:
  assumes k: "keeps_loop upd" and "e_perf_interval e \<noteq> 0" "e_max_steps e \<noteq> - 1"
    and "unat (e_max_steps e) + 1 - unat (e_step e) = n" "unat (e_step e) \<le> unat (e_max_steps e) + 1"
  shows "\<exists>e'. run_loop (env_update paused upd spent step_spent) e = Some e'
     \<and> iterate n (env_update paused upd spent step_spent) e = Some e'
     \<and> e_step e' = e_max_steps e + 1 \<and> e_max_steps e' = e_max_steps e \<and> e_time e' = e_time e + of_nat n * e_dt e"
  using assms(2-)
proof (induction n arbitrary: e)
  case 0
  have m: "unat (e_max_steps e + 1) = unat (e_max_steps e) + 1"
    using 0(2) by (metis unatSuc add.commute add_eq_0_iff Suc_eq_plus1)
  then have "unat (e_step e) = unat (e_max_steps e + 1)" using 0 by simp
  then have "e_step e = e_max_steps e + 1" by (simp only: unat_eq_nat_uint[symmetric] word_unat_eq_iff)
  moreover have "\<not> e_step e \<le> e_max_steps e"
    using 0 m by (simp add: word_le_nat_alt)
  ultimately show ?case by (subst run_loop.simps) simp
next
  case (Suc n)
  obtain e1 where e1: "env_update paused upd spent step_spent e = Some e1" "e_step e1 = e_step e + 1"
     "e_max_steps e1 = e_max_steps e" "e_perf_interval e1 = e_perf_interval e" "e_dt e1 = e_dt e" "e_time e1 = e_time e + e_dt e"
    using env_update_Some[OF k Suc.prems(1)] by blast
  have le: "e_step e \<le> e_max_steps e" using Suc.prems by (simp add: word_le_nat_alt)
  then have "e_step e \<noteq> - 1" using Suc.prems(2) by (auto simp: word_order.extremum_unique)
  then have st: "unat (e_step e + 1) = unat (e_step e) + 1"
    by (metis unatSuc add.commute add_eq_0_iff Suc_eq_plus1)
  have "\<exists>e'. run_loop (env_update paused upd spent step_spent) e1 = Some e'
     \<and> iterate n (env_update paused upd spent step_spent) e1 = Some e'
     \<and> e_step e' = e_max_steps e1 + 1 \<and> e_max_steps e' = e_max_steps e1 \<and> e_time e' = e_time e1 + of_nat n * e_dt e1"
    using Suc.prems le by (intro Suc.IH) (simp_all add: e1 st word_le_nat_alt)
  then show ?case
    by (subst run_loop.simps) (auto simp: le e1 algebra_simps)
qed

lemma run_loop_forever:
  assumes "run_loop U e = Some r" "\<And>e e'. U e = Some e' \<Longrightarrow> e_max_steps e' = e_max_steps e" "e_max_steps e = - 1"
  shows False
proof -
  have "(\<forall>e e'. U e = Some e' \<longrightarrow> e_max_steps e' = e_max_steps e) \<longrightarrow> e_max_steps e = - 1 \<longrightarrow> False"
  proof (rule run_loop.raw_induct[where P = "\<lambda>U e r. (\<forall>e e'. U e = Some e' \<longrightarrow> e_max_steps e' = e_max_steps e)
        \<longrightarrow> e_max_steps e = - 1 \<longrightarrow> False", OF _ assms(1)], goal_cases)
    case (1 loop U e r)
    note ih = 1(1) and r = 1(2)
    show ?case
    proof (intro impI)
      assume k: "\<forall>e e'. U e = Some e' \<longrightarrow> e_max_steps e' = e_max_steps e" and m: "e_max_steps e = - 1"
      obtain e1 where e1: "U e = Some e1" "loop U e1 = Some r"
        using r m by (auto split: option.splits)
      have "e_max_steps e1 = - 1" using k e1(1) m by simp
      then show False using ih[OF e1(2)] k by blast
    qed
  qed
  then show ?thesis using assms(2,3) by blast
qed

subsection \<open>Registration\<close>

definition registered :: "('s, 'd, 'w) env \<Rightarrow> bool" where
  "registered e = (distinct (e_system_order e) \<and> set (e_system_order e) = dom (e_system_map e)
     \<and> distinct (e_data_order e) \<and> set (e_data_order e) = dom (e_data_map e))"


lemma registered_data:
  "registered e \<Longrightarrow> registered (snd (register_data is_type d name e))"
  by (auto simp: registered_def register_data_def Let_def domIff split: option.splits)

lemma registered_system:
  assumes "registered e" "registered (snd (mk_sys e))" "e_system_map (snd (mk_sys e)) name = None"
  shows "registered (snd (register_system is_type mk_sys name e))"
  using assms by (auto simp: registered_def register_system_def Let_def case_prod_beta domIff split: option.splits)

subsection \<open>Properties\<close>

text \<open>
  C16.  The simulation loop ends unless \<open>max_steps\<close> is the largest \<open>uint32_t\<close>: started at
  step \<open>s\<close> it calls \<open>update\<close> exactly \<open>max_steps + 1 - s\<close> times, one more than the number of
  steps from a fresh start, and leaves the step at \<open>max_steps + 1\<close> and the time advanced
  by \<open>dt\<close> per update.  With the largest value the counter wraps and the loop runs for
  ever.  Systems may change anything but the loop's own fields.
\<close>

theorem env_run_returns:
  assumes "keeps_loop upd" "e_perf_interval e \<noteq> 0" "\<not> e_dry_run e"
  shows "(e_max_steps e \<noteq> - 1 \<and> unat (e_step e) \<le> unat (e_max_steps e) + 1 \<longrightarrow>
      (\<exists>e'. env_run (env_update paused upd spent step_spent) e = Some e'
         \<and> iterate (unat (e_max_steps e) + 1 - unat (e_step e)) (env_update paused upd spent step_spent) e = Some e'
         \<and> e_step e' = e_max_steps e + 1
         \<and> e_time e' = e_time e + of_nat (unat (e_max_steps e) + 1 - unat (e_step e)) * e_dt e))
    \<and> (e_max_steps e = - 1 \<longrightarrow> env_run (env_update paused upd spent step_spent) e = None)"
proof -
  have "env_run (env_update paused upd spent step_spent) e = None" if "e_max_steps e = - 1"
  proof (rule ccontr)
    assume "env_run (env_update paused upd spent step_spent) e \<noteq> None"
    then obtain r where "run_loop (env_update paused upd spent step_spent) e = Some r"
      using assms(3) by (auto simp: env_run_def)
    moreover have "e_max_steps e2 = e_max_steps e1"
      if "env_update paused upd spent step_spent e1 = Some e2" for e1 e2
      using that env_update_Some[OF assms(1), of e1 paused spent step_spent]
      by (cases "e_perf_interval e1 = 0") (auto simp: env_update_def[of _ _ _ _ e1])
    ultimately show False using run_loop_forever that by blast
  qed
  then show ?thesis
    using run_loop_iterate[OF assms(1,2) _ refl, of paused spent step_spent] assms(3)
    by (auto simp: env_run_def)
qed

definition example_env :: "(string, string, nat) env" where
  "example_env = \<lparr>e_system_map = [''s'' \<mapsto> ''s''], e_data_map = Map.empty, e_system_order = [''s''], e_data_order = [],
     e_system_time = Map.empty, e_params = [], e_dry_run = False, e_dt = 1 / 2, e_time = 0, e_step_time = 0, e_rank = 0,
     e_step = 0, e_max_steps = 1, e_perf_interval = 10, e_is_restart = False, e_restart_file = '''', e_world = 0\<rparr>"

definition count_update :: "string \<Rightarrow> real \<Rightarrow> u32 \<Rightarrow> (string, string, nat) env \<Rightarrow> (string, string, nat) env" where
  "count_update name dt step e = e\<lparr>e_world := e_world e + 1\<rparr>"

theorem env_run_returns_witness:
  "\<exists>e'. env_run (env_update (\<lambda>_ _. False) count_update (\<lambda>_ _. 0) (\<lambda>_. 0)) example_env = Some e'
     \<and> e_step e' = 2 \<and> e_time e' = 1"
proof -
  have "keeps_loop count_update" by (simp add: keeps_loop_def count_update_def same_loop_def)
  moreover have "e_perf_interval example_env \<noteq> 0" "\<not> e_dry_run example_env" by (simp_all add: example_env_def)
  ultimately show ?thesis
    using env_run_returns[of count_update example_env "\<lambda>_ _. False" "\<lambda>_ _. 0" "\<lambda>_. 0"]
    by (auto simp: example_env_def)
qed

text \<open>
  C38.  The registry lists every system and every data component exactly once, in the order
  of registration, when constructors keep it so and do not register the system being
  made.  Registering a second time under a name returns the object of the first time, or
  a null pointer when its type differs, and changes nothing; \<open>get_data\<close> returns the
  registered object and throws exactly for names that were never registered.
\<close>

theorem registry:
  assumes "registered e" "registered (snd (mk_sys e))" "e_system_map (snd (mk_sys e)) name = None"
  shows "registered (snd (register_system is_type mk_sys name e)) \<and> registered (snd (register_data is_d d dname e))
    \<and> (let (p, e1) = register_system is_type mk_sys name e in register_system is_type mk_sys' name e1 = (p, e1))
    \<and> (let (p, e1) = register_data is_d d dname e in register_data is_d d' dname e1 = (p, e1)
         \<and> get_data_ptr is_d dname e1 = Inr p
         \<and> (\<forall>n. (get_data n e1 = Inl (Data_not_found n)) = (n \<notin> set (e_data_order e1))))"
proof -
  have "let (p, e1) = register_system is_type mk_sys name e in register_system is_type mk_sys' name e1 = (p, e1)"
    using assms(3) by (auto simp: register_system_def Let_def case_prod_beta split: option.splits)
  moreover have "let (p, e1) = register_data is_d d dname e in register_data is_d d' dname e1 = (p, e1)
      \<and> get_data_ptr is_d dname e1 = Inr p"
    by (auto simp: register_data_def get_data_ptr_def Let_def split: option.splits)
  moreover have "(get_data n e1 = Inl (Data_not_found n)) = (n \<notin> set (e_data_order e1))" if "registered e1" for n and e1 :: "('a, 'b, 'c) env"
    using that by (auto simp: registered_def get_data_def domIff split: option.splits)
  ultimately show ?thesis
    using registered_system[where mk_sys = mk_sys, OF assms] registered_data[OF assms(1)]
    by (auto simp: Let_def case_prod_beta)
qed

theorem registry_witness:
  "registered (snd (register_system (\<lambda>_. True) (\<lambda>e. (''t'', e)) ''t'' example_env))
    \<and> registered (snd (register_data (\<lambda>_. True) ''d'' ''rho'' example_env))"
proof -
  have "registered example_env" by (simp add: registered_def example_env_def)
  then show ?thesis
    using registry[of example_env "\<lambda>e. (''t'', e)" "''t''"] by (simp add: example_env_def)
qed

end
