(* ===== verification/Vec.thy ===== *)
theory Vec
  imports Prelude
begin

text \<open>
  The static vectors of \<open>src/utils/vec.hpp\<close>.  A \<open>vec_t<T, Rank>\<close> is a list
  of length \<open>Rank\<close>; the loops over \<open>Rank\<close> are recursions over the list.
  \<open>extent_t\<close> holds \<open>uint32_t\<close> and \<open>index_t\<close> holds \<open>int32_t\<close>.
\<close>

type_synonym extent_t = "u32 list"
type_synonym index_t = "i32 list"

subsection \<open>\<open>vec_t\<close>\<close>

text \<open>The comparison loops return \<open>false\<close> at the first component that fails.\<close>

fun vec_less :: "'a::linorder list \<Rightarrow> 'a list \<Rightarrow> bool" where
  "vec_less (x # xs) (y # ys) = (if x \<ge> y then False else vec_less xs ys)"
| "vec_less _ _ = True"

fun vec_le :: "'a::linorder list \<Rightarrow> 'a list \<Rightarrow> bool" where
  "vec_le (x # xs) (y # ys) = (if x > y then False else vec_le xs ys)"
| "vec_le _ _ = True"

fun vec_eq :: "'a list \<Rightarrow> 'a list \<Rightarrow> bool" where
  "vec_eq (x # xs) (y # ys) = (if x \<noteq> y then False else vec_eq xs ys)"
| "vec_eq _ _ = True"

definition vec_neq :: "'a list \<Rightarrow> 'a list \<Rightarrow> bool" where
  "vec_neq xs ys = (\<not> vec_eq xs ys)"

definition vec_add :: "'a::plus list \<Rightarrow> 'a list \<Rightarrow> 'a list" where
  "vec_add xs ys = map2 (\<lambda>x y. x + y) xs ys"

definition vec_sub :: "'a::minus list \<Rightarrow> 'a list \<Rightarrow> 'a list" where
  "vec_sub xs ys = map2 (\<lambda>x y. x - y) xs ys"

definition vec_mul :: "'a::times list \<Rightarrow> 'a list \<Rightarrow> 'a list" where
  "vec_mul xs ys = map2 (\<lambda>x y. x * y) xs ys"

definition vec_scale :: "'a::times list \<Rightarrow> 'a \<Rightarrow> 'a list" where
  "vec_scale xs v = map (\<lambda>x. x * v) xs"

definition vec_div :: "'a::divide list \<Rightarrow> 'a list \<Rightarrow> 'a list" where
  "vec_div xs ys = map2 (\<lambda>x y. x div y) xs ys"

definition vec_div_scalar :: "'a::divide list \<Rightarrow> 'a \<Rightarrow> 'a list" where
  "vec_div_scalar xs v = map (\<lambda>x. x div v) xs"

definition vec_set :: "'a list \<Rightarrow> 'a \<Rightarrow> 'a list" where
  "vec_set xs v = map (\<lambda>_. v) xs"

text \<open>\<open>subset<A, B>()\<close>: the components \<open>A, \<dots>, B - 1\<close>.\<close>

definition vec_subset :: "nat \<Rightarrow> nat \<Rightarrow> 'a list \<Rightarrow> 'a list" where
  "vec_subset a b xs = map (\<lambda>i. xs ! i) [a..<b]"

definition vec_dot :: "'a::{zero,plus,times} list \<Rightarrow> 'a list \<Rightarrow> 'a" where
  "vec_dot xs ys = foldl (\<lambda>r (x, y). r + x * y) 0 (zip xs ys)"

fun vec_product :: "'a::{one,times} list \<Rightarrow> 'a" where
  "vec_product [] = 1"
| "vec_product (x # xs) = foldl (\<lambda>r y. r * y) x xs"

definition vec_norm :: "scalar list \<Rightarrow> scalar" where
  "vec_norm xs = sqrt (vec_dot xs xs)"

definition cross :: "'a::{minus,times} list \<Rightarrow> 'a list \<Rightarrow> 'a list" where
  "cross u v = [u ! 1 * v ! 2 - u ! 2 * v ! 1, u ! 2 * v ! 0 - u ! 0 * v ! 2,
                u ! 0 * v ! 1 - u ! 1 * v ! 0]"

lemmas vec_arith_defs [vec_defs] =
  vec_add_def vec_sub_def vec_mul_def vec_scale_def vec_div_def vec_div_scalar_def
  vec_set_def vec_subset_def vec_dot_def vec_norm_def cross_def vec_neq_def

subsection \<open>\<open>extent_t\<close>\<close>

text \<open>
  \<open>get_strides\<close>: \<open>m_strides[0] = 1\<close> and
  \<open>m_strides[i] = m_strides[i - 1] * memory[i - 1]\<close>, in \<open>int64_t\<close>.
  \<open>size()\<close> multiplies in \<open>uint32_t\<close>.
\<close>

fun strides_from :: "i64 \<Rightarrow> extent_t \<Rightarrow> i64 list" where
  "strides_from s [] = []"
| "strides_from s (e # es) = s # strides_from (s * ucast e) es"

definition strides :: "extent_t \<Rightarrow> i64 list" where
  "strides ext = strides_from 1 ext"

definition extent_size :: "extent_t \<Rightarrow> u32" where
  "extent_size ext = vec_product ext"

text \<open>The number of cells, as a mathematical integer.\<close>

definition volume :: "extent_t \<Rightarrow> int" where
  "volume ext = prod_list (map uint ext)"

subsection \<open>\<open>index_t\<close>\<close>

definition index_inc :: "nat \<Rightarrow> index_t \<Rightarrow> i32 \<Rightarrow> index_t" where
  "index_inc d pos n = pos[d := pos ! d + n]"

definition index_dec :: "nat \<Rightarrow> index_t \<Rightarrow> i32 \<Rightarrow> index_t" where
  "index_dec d pos n = pos[d := pos ! d - n]"

subsection \<open>Powers of two\<close>

definition not_power_of_two :: "u32 \<Rightarrow> bool" where
  "not_power_of_two num = (num \<noteq> 1 \<and> (num AND (num - 1)) \<noteq> 0)"

definition is_power_of_two :: "u32 \<Rightarrow> bool" where
  "is_power_of_two num = (\<not> not_power_of_two num)"

fun not_power_of_two_ext :: "extent_t \<Rightarrow> bool" where
  "not_power_of_two_ext [] = False"
| "not_power_of_two_ext (e # es) =
     (if not_power_of_two e then True else not_power_of_two_ext es)"

subsection \<open>Componentwise reading of the comparisons\<close>

lemma vec_less_iff:
  "length xs = length ys \<Longrightarrow> vec_less xs ys \<longleftrightarrow> (\<forall>i < length xs. xs ! i < ys ! i)"
  by (induction xs ys rule: list_induct2) (auto simp: less_Suc_eq_0_disj all_conj_distrib)

lemma vec_le_iff:
  "length xs = length ys \<Longrightarrow> vec_le xs ys \<longleftrightarrow> (\<forall>i < length xs. xs ! i \<le> ys ! i)"
  by (induction xs ys rule: list_induct2) (auto simp: less_Suc_eq_0_disj all_conj_distrib)

lemma vec_eq_iff: "length xs = length ys \<Longrightarrow> vec_eq xs ys \<longleftrightarrow> xs = ys"
  by (induction xs ys rule: list_induct2) auto

lemma foldl_dot_add:
  "foldl (\<lambda>r (x, y). r + x * y) r zs
     = r + foldl (\<lambda>r (x, y). r + x * y) (0::'a::comm_ring_1) zs"
proof (induction zs arbitrary: r)
  case (Cons z zs)
  obtain x y where z: "z = (x, y)" by fastforce
  show ?case
    using Cons.IH[of "r + x * y"] Cons.IH[of "x * y"] by (simp add: z)
qed simp

lemma vec_dot_Cons [simp]:
  "vec_dot (x # xs) (y # ys) = (x * y + vec_dot xs ys :: 'a::comm_ring_1)"
  by (simp add: vec_dot_def foldl_dot_add[of "x * y"])

lemma vec_dot_Nil [simp]: "vec_dot [] ys = 0" "vec_dot xs [] = 0"
  by (simp_all add: vec_dot_def)

lemma foldl_times: "foldl (\<lambda>r y. r * y) x xs = (x * prod_list xs :: 'a::comm_monoid_mult)"
  by (induction xs arbitrary: x) (simp_all add: mult.assoc)

lemma vec_product_eq: "vec_product xs = (prod_list xs :: 'a::comm_monoid_mult)"
  by (cases xs) (simp_all add: foldl_times)

subsection \<open>Sizes\<close>

lemma volume_simps [simp]: "volume [] = 1" "volume (e # es) = uint e * volume es"
  by (simp_all add: volume_def)

lemma volume_nonneg [simp]: "0 \<le> volume ext"
  by (induction ext) simp_all

lemma volume_pos_iff: "0 < volume ext \<longleftrightarrow> 0 \<notin> set ext"
  by (induction ext) (auto simp: zero_less_mult_iff order.strict_iff_order uint_0_iff)

lemma extent_size_eq: "extent_size ext = word_of_int (volume ext)"
proof -
  have "prod_list ext = word_of_int (volume ext)"
    by (induction ext) simp_all
  then show ?thesis by (simp add: extent_size_def vec_product_eq)
qed

lemma uint_extent_size: "volume ext < 2 ^ 32 \<Longrightarrow> uint (extent_size ext) = volume ext"
  by (simp only: extent_size_eq uint_of_int32 volume_nonneg)

lemma strides_length [simp]: "length (strides_from s ext) = length ext"
  by (induction ext arbitrary: s) simp_all

lemma strides_from_nth:
  "i < length ext \<Longrightarrow> strides_from s ext ! i = s * word_of_int (volume (take i ext))"
proof (induction ext arbitrary: s i)
  case (Cons e es)
  then show ?case by (cases i) (simp_all add: mult.assoc)
qed simp

lemma strides_nth:
  "i < length ext \<Longrightarrow> strides ext ! i = word_of_int (volume (take i ext))"
  by (simp add: strides_def strides_from_nth)

end
