(* ===== verification/Util.thy ===== *)
theory Util
  imports Vec
begin

text \<open>
  Small helpers of the framework: the stagger of a field
  (\<open>src/utils/stagger.h\<close>), particle flags and types
  (\<open>src/utils/util_functions.h\<close>, \<open>src/core/enum_types.h\<close>), the loop of
  \<open>next_power_of_two\<close>, the binary searches of \<open>src/utils/binary_search.h\<close> and the
  stepped ranges of \<open>src/utils/range.hpp\<close>.
\<close>

subsection \<open>Stagger\<close>

text \<open>A stagger is an \<open>unsigned char\<close>; bit \<open>i\<close> is the stagger in direction \<open>i\<close>.\<close>

type_synonym stagger_t = u8

definition stagger_at :: "stagger_t \<Rightarrow> nat \<Rightarrow> int" where
  "stagger_at s i = uint (drop_bit i s AND 1)"

text \<open>\<open>unsigned long x = !!i; stagger ^= (-x ^ stagger) & (1UL << bit)\<close>\<close>

definition stagger_set_bit :: "stagger_t \<Rightarrow> nat \<Rightarrow> bool \<Rightarrow> stagger_t" where
  "stagger_set_bit s b i =
     (let x = (if i then 1 else 0 :: u64)
      in ucast (ucast s XOR ((- x XOR ucast s) AND push_bit b 1)))"

definition stagger_flip :: "stagger_t \<Rightarrow> nat \<Rightarrow> stagger_t" where
  "stagger_flip s n = ucast (ucast s XOR push_bit n (1 :: u64))"

definition stagger_complement :: "stagger_t \<Rightarrow> stagger_t" where
  "stagger_complement s = NOT s"

lemma stagger_at_bit: "stagger_at s i = of_bool (bit s i)"
proof -
  have "drop_bit i s AND 1 = (of_bool (bit s i) :: u8)"
    by (simp add: and_one_eq bit_iff_odd_drop_bit mod_2_eq_odd)
  then show ?thesis by (simp add: stagger_at_def)
qed

lemma bit_stagger_set_bit:
  "i < 8 \<Longrightarrow> bit (stagger_set_bit s b v) i = (if i = b then v else bit s i)"
  by (auto simp: stagger_set_bit_def bit_simps)

lemma bit_stagger_flip: "i < 8 \<Longrightarrow> bit (stagger_flip s n) i = (if i = n then \<not> bit s i else bit s i)"
  by (auto simp: stagger_flip_def bit_simps)

subsection \<open>Particle types and flags\<close>

datatype PtcType = electron | positron | ion

fun PtcType_code :: "PtcType \<Rightarrow> u32" where
  "PtcType_code electron = 0"
| "PtcType_code positron = 1"
| "PtcType_code ion = 2"

definition max_ptc_type_bits :: nat where "max_ptc_type_bits = 4"

definition max_ptc_types :: nat where "max_ptc_types = 2 ^ max_ptc_type_bits"

definition ptc_type_name :: "int \<Rightarrow> string" where
  "ptc_type_name t =
     (if t = uint (PtcType_code electron) then ''e''
      else if t = uint (PtcType_code positron) then ''p''
      else if t = uint (PtcType_code ion) then ''i''
      else if t = uint (PtcType_code ion) + 1 then ''ph''
      else ''unknown'')"

datatype PtcFlag = nothing | tracked | ignore_force | ignore_current | ignore_EM
  | ignore_radiation | ignore_tracking | exclude_from_spectrum | primary | secondary
  | test_particle | initial

fun PtcFlag_code :: "PtcFlag \<Rightarrow> nat" where
  "PtcFlag_code nothing = 0"
| "PtcFlag_code tracked = 1"
| "PtcFlag_code ignore_force = 2"
| "PtcFlag_code ignore_current = 3"
| "PtcFlag_code ignore_EM = 4"
| "PtcFlag_code ignore_radiation = 5"
| "PtcFlag_code ignore_tracking = 6"
| "PtcFlag_code exclude_from_spectrum = 7"
| "PtcFlag_code primary = 8"
| "PtcFlag_code secondary = 9"
| "PtcFlag_code test_particle = 10"
| "PtcFlag_code initial = 11"

text \<open>The flag functions take the number of the bit.\<close>

definition check_flag :: "u32 \<Rightarrow> nat \<Rightarrow> bool" where
  "check_flag flag b = ((flag AND push_bit b 1) \<noteq> 0)"

fun flag_or :: "nat list \<Rightarrow> u32" where
  "flag_or [] = 0"
| "flag_or [b] = push_bit b 1"
| "flag_or (b # bs) = push_bit b 1 OR flag_or bs"

definition set_flag :: "u32 \<Rightarrow> nat list \<Rightarrow> u32" where
  "set_flag flag bs = flag OR flag_or bs"

definition clear_flag :: "u32 \<Rightarrow> nat list \<Rightarrow> u32" where
  "clear_flag flag bs = flag AND NOT (flag_or bs)"

definition toggle_flag :: "u32 \<Rightarrow> nat list \<Rightarrow> u32" where
  "toggle_flag flag bs = flag XOR flag_or bs"

definition get_ptc_type :: "u32 \<Rightarrow> u32" where
  "get_ptc_type flag = drop_bit (32 - max_ptc_type_bits) flag"

definition gen_ptc_type_flag :: "PtcType \<Rightarrow> u32" where
  "gen_ptc_type_flag t = push_bit (32 - max_ptc_type_bits) (PtcType_code t)"

definition set_ptc_type_flag :: "u32 \<Rightarrow> PtcType \<Rightarrow> u32" where
  "set_ptc_type_flag flag t = (flag AND drop_bit max_ptc_type_bits (- 1)) OR gen_ptc_type_flag t"

lemma check_flag_bit: "check_flag flag b = bit flag b"
proof
  assume "check_flag flag b"
  then obtain n where "bit (flag AND push_bit b 1) n"
    unfolding check_flag_def using bit_eq_iff by (metis bit_0_eq bot_apply bot_bool_def)
  then show "bit flag b" by (auto simp: bit_simps)
next
  assume "bit flag b"
  then have "bit (flag AND push_bit b 1) b"
    using bit_imp_le_length[of flag b] by (auto simp: bit_simps)
  then show "check_flag flag b" unfolding check_flag_def by (metis bit_0_eq bot_apply bot_bool_def)
qed

lemma bit_flag_or: "bit (flag_or bs) n = (n \<in> set bs \<and> n < 32)"
  by (induction bs rule: flag_or.induct) (auto simp: bit_simps)

lemma check_set_flag: "b < 32 \<Longrightarrow> check_flag (set_flag flag bs) b = (b \<in> set bs \<or> check_flag flag b)"
  by (auto simp: check_flag_bit set_flag_def bit_simps bit_flag_or)

lemma check_clear_flag: "check_flag (clear_flag flag bs) b = (b \<notin> set bs \<and> check_flag flag b)"
  using bit_imp_le_length[of flag b]
  by (auto simp: check_flag_bit clear_flag_def bit_simps bit_flag_or)

lemma check_toggle_flag:
  "b < 32 \<Longrightarrow> check_flag (toggle_flag flag bs) b = (check_flag flag b \<noteq> (b \<in> set bs))"
  by (auto simp: check_flag_bit toggle_flag_def bit_simps bit_flag_or)

lemma bit_PtcType_code: "bit (PtcType_code t) n \<Longrightarrow> n < 2"
  by (cases t) (auto simp: bit_numeral_rec bit_1_iff split: nat.splits)

lemma get_set_ptc_type: "get_ptc_type (set_ptc_type_flag flag t) = PtcType_code t"
  by (rule bit_word_eqI)
     (auto simp: get_ptc_type_def set_ptc_type_flag_def gen_ptc_type_flag_def
        max_ptc_type_bits_def bit_simps dest: bit_PtcType_code)

lemma check_set_ptc_type:
  "b < 28 \<Longrightarrow> check_flag (set_ptc_type_flag flag t) b = check_flag flag b"
  by (auto simp: check_flag_bit set_ptc_type_flag_def gen_ptc_type_flag_def
        max_ptc_type_bits_def bit_simps)

lemma get_ptc_type_flags:
  assumes "\<forall>b \<in> set bs. b < 28"
  shows "get_ptc_type (set_flag flag bs) = get_ptc_type flag"
    "get_ptc_type (clear_flag flag bs) = get_ptc_type flag"
    "get_ptc_type (toggle_flag flag bs) = get_ptc_type flag"
proof -
  have n: "28 + n \<notin> set bs" for n using assms by fastforce
  have lt: "n < 4" if "bit flag (28 + n)" for n using bit_imp_le_length[OF that] by simp
  show "get_ptc_type (set_flag flag bs) = get_ptc_type flag"
    "get_ptc_type (clear_flag flag bs) = get_ptc_type flag"
    "get_ptc_type (toggle_flag flag bs) = get_ptc_type flag"
    by (rule bit_word_eqI; use n lt in
        \<open>auto simp: get_ptc_type_def set_flag_def clear_flag_def toggle_flag_def
          max_ptc_type_bits_def bit_simps bit_flag_or\<close>)+
qed

subsection \<open>Numeric helpers\<close>

definition swap_values :: "'a \<Rightarrow> 'a \<Rightarrow> 'a \<times> 'a" where
  "swap_values a b = (let tmp = a; a = b; b = tmp in (a, b))"

text \<open>\<open>sgn\<close> returns 1 at zero.\<close>

definition c_sgn :: "scalar \<Rightarrow> int" where
  "c_sgn v = of_bool (0 \<le> v) - of_bool (v < 0)"

definition c_clamp :: "'a::linorder \<Rightarrow> 'a \<Rightarrow> 'a \<Rightarrow> 'a" where
  "c_clamp v a b = max a (min b v)"

lemma c_clamp_range: "a \<le> b \<Longrightarrow> a \<le> c_clamp v a b \<and> c_clamp v a b \<le> b"
  by (simp add: c_clamp_def)

text \<open>
  \<open>next_power_of_two\<close> at \<open>uint32_t\<close>.  The loop shifts a 32-bit value, so it need not
  return: \<open>None\<close> is the value of a call that never does.
\<close>

partial_function (option) next_pow2_loop :: "u32 \<Rightarrow> u32 \<Rightarrow> u32 option" where
  [code]: "next_pow2_loop num p = (if p < num then next_pow2_loop num (push_bit 1 p) else Some p)"

definition next_power_of_two :: "u32 \<Rightarrow> u32 option" where
  "next_power_of_two num = next_pow2_loop num 1"

lemma uint_pow2: "k < 32 \<Longrightarrow> uint (2 ^ k :: u32) = 2 ^ k"
proof -
  assume "k < 32"
  then have "(2 :: int) ^ k < 2 ^ 32" by (intro power_strict_increasing) simp_all
  then have "uint (word_of_int (2 ^ k) :: u32) = 2 ^ k" by (intro uint_of_int32) simp_all
  then show ?thesis by simp
qed

lemma next_pow2_loop_from:
  assumes "uint num \<le> 2 ^ 31" "k \<le> 31" "k > 0 \<longrightarrow> 2 ^ (k - 1) < uint num"
  shows "\<exists>j. k \<le> j \<and> j \<le> 31 \<and> next_pow2_loop num (2 ^ k) = Some (2 ^ j)
    \<and> uint num \<le> 2 ^ j \<and> (j > 0 \<longrightarrow> 2 ^ (j - 1) < uint num)"
  using assms(2,3)
proof (induction "31 - k" arbitrary: k)
  case 0
  then have k: "k = 31" by simp
  then have "\<not> 2 ^ k < num"
    using assms(1) by (simp add: word_less_def uint_pow2)
  then show ?case
    using 0 k assms(1) by (intro exI[of _ k]) (simp add: next_pow2_loop.simps)
next
  case (Suc n)
  show ?case
  proof (cases "2 ^ k < num")
    case True
    have lt: "2 ^ k < uint num" using True Suc(2) by (simp add: word_less_def uint_pow2)
    have "push_bit 1 (2 ^ k :: u32) = 2 ^ Suc k" by (simp add: push_bit_eq_mult mult.commute)
    then have "next_pow2_loop num (2 ^ k) = next_pow2_loop num (2 ^ Suc k)"
      using True by (subst next_pow2_loop.simps) (simp only: if_True)
    moreover have "n = 31 - Suc k" "Suc k \<le> 31" using Suc(2) by simp_all
    ultimately obtain j where "Suc k \<le> j" "j \<le> 31" "next_pow2_loop num (2 ^ k) = Some (2 ^ j)"
      "uint num \<le> 2 ^ j" "j > 0 \<longrightarrow> 2 ^ (j - 1) < uint num"
      using Suc(1)[of "Suc k"] lt by auto
    then show ?thesis by (intro exI[of _ j]) simp
  next
    case False
    have "uint num \<le> 2 ^ k"
      using False Suc(2) Suc(3) by (simp add: word_less_def uint_pow2 not_less)
    then show ?thesis
      using False Suc by (intro exI[of _ k]) (simp add: next_pow2_loop.simps)
  qed
qed

text \<open>Above \<open>2 ^ 31\<close> the shifted value reaches 0 and stays there.\<close>

lemma next_pow2_loop_returns:
  assumes "next_pow2_loop num p = Some r"
  shows "num \<le> r \<and> (\<exists>k. r = push_bit k p)"
proof (rule next_pow2_loop.raw_induct[of "\<lambda>num p r. num \<le> r \<and> (\<exists>k. r = push_bit k p)", OF _ assms])
  fix f and num p r :: u32
  assume 1: "\<And>num p r. f num p = Some r \<Longrightarrow> num \<le> r \<and> (\<exists>k. r = push_bit k p)"
    "(if p < num then f num (push_bit 1 p) else Some p) = Some r"
  show "num \<le> r \<and> (\<exists>k. r = push_bit k p)"
  proof (cases "p < num")
    case True
    then have "f num (push_bit 1 p) = Some r" using 1(2) by simp
    from 1(1)[OF this] obtain k where "num \<le> r" "r = push_bit k (push_bit 1 p)" by blast
    then show ?thesis by (auto intro: exI[of _ "k + 1"] simp: push_bit_push_bit)
  next
    case False
    then show ?thesis using 1(2) by (auto intro: exI[of _ 0])
  qed
qed

lemma uint_push_le: "uint (push_bit k 1 :: u32) \<le> 2 ^ 31"
proof (cases "k < 32")
  case True
  then have "(2 :: int) ^ k \<le> 2 ^ 31" by (intro power_increasing) simp_all
  then show ?thesis using True by (simp add: uint_pow2)
next
  case False
  then have "push_bit k (1 :: u32) = 0" by (intro bit_word_eqI) (simp add: bit_simps del: push_bit_of_1)
  then show ?thesis by (simp del: push_bit_of_1)
qed

lemma next_power_of_two_diverges: "2 ^ 31 < uint num \<Longrightarrow> next_power_of_two num = None"
proof (rule ccontr)
  assume lt: "2 ^ 31 < uint num" and "next_power_of_two num \<noteq> None"
  then obtain r where "next_pow2_loop num 1 = Some r" by (auto simp: next_power_of_two_def)
  then obtain k where "num \<le> r" "r = push_bit k 1" using next_pow2_loop_returns by blast
  then show False using uint_push_le[of k] lt by (simp add: word_le_def)
qed

subsection \<open>Binary search\<close>

text \<open>
  \<open>int\<close> indices; \<open>low + (high - low) / 2\<close> stays between \<open>low\<close> and \<open>high\<close>, so no
  value leaves the range of the type.
\<close>

function lower_bound_loop :: "'a::linorder \<Rightarrow> 'a list \<Rightarrow> int \<Rightarrow> int \<Rightarrow> int" where
  "lower_bound_loop x array low high =
     (if low < high then
        let mid = low + (high - low) div 2
        in if x \<le> array ! nat mid then lower_bound_loop x array low mid
           else lower_bound_loop x array (mid + 1) high
      else low)"
  by pat_completeness auto
termination by (relation "measure (\<lambda>(x, a, low, high). nat (high - low))") auto

definition lower_bound :: "'a::linorder \<Rightarrow> 'a list \<Rightarrow> int \<Rightarrow> int" where
  "lower_bound x array n = lower_bound_loop x array 0 n"

function upper_bound_loop :: "'a::linorder \<Rightarrow> 'a list \<Rightarrow> int \<Rightarrow> int \<Rightarrow> int" where
  "upper_bound_loop x array low high =
     (if low < high then
        let mid = low + (high - low) div 2
        in if array ! nat mid \<le> x then upper_bound_loop x array (mid + 1) high
           else upper_bound_loop x array low mid
      else low)"
  by pat_completeness auto
termination by (relation "measure (\<lambda>(x, a, low, high). nat (high - low))") auto

definition upper_bound :: "'a::linorder \<Rightarrow> 'a list \<Rightarrow> int \<Rightarrow> int" where
  "upper_bound x array n = upper_bound_loop x array 0 n"

declare lower_bound_loop.simps [simp del] upper_bound_loop.simps [simp del]

text \<open>Both are a binary search for the first index at which a monotone predicate holds.\<close>

lemma lower_bound_loop_cases:
  "\<not> low < high \<Longrightarrow> lower_bound_loop x array low high = low"
  "low < high \<Longrightarrow> x \<le> array ! nat (low + (high - low) div 2) \<Longrightarrow>
    lower_bound_loop x array low high = lower_bound_loop x array low (low + (high - low) div 2)"
  "low < high \<Longrightarrow> \<not> x \<le> array ! nat (low + (high - low) div 2) \<Longrightarrow>
    lower_bound_loop x array low high = lower_bound_loop x array (low + (high - low) div 2 + 1) high"
  by (simp_all add: lower_bound_loop.simps[of x array low high] Let_def)

lemma upper_bound_loop_cases:
  "\<not> low < high \<Longrightarrow> upper_bound_loop x array low high = low"
  "low < high \<Longrightarrow> array ! nat (low + (high - low) div 2) \<le> x \<Longrightarrow>
    upper_bound_loop x array low high = upper_bound_loop x array (low + (high - low) div 2 + 1) high"
  "low < high \<Longrightarrow> \<not> array ! nat (low + (high - low) div 2) \<le> x \<Longrightarrow>
    upper_bound_loop x array low high = upper_bound_loop x array low (low + (high - low) div 2)"
  by (simp_all add: upper_bound_loop.simps[of x array low high] Let_def)

lemma sorted_split:
  assumes "sorted array" "0 \<le> m" "m < int (length array)"
  shows "0 \<le> i \<Longrightarrow> i < m + 1 \<Longrightarrow> array ! nat i \<le> array ! nat m"
    "m \<le> i \<Longrightarrow> i < int (length array) \<Longrightarrow> array ! nat m \<le> array ! nat i"
  using assms by (auto intro!: sorted_nth_mono)

lemma lower_bound_loop_inv:
  assumes "sorted array" "0 \<le> low" "low \<le> high" "high \<le> int (length array)"
    "\<forall>i. 0 \<le> i \<and> i < low \<longrightarrow> array ! nat i < x"
    "\<forall>i. high \<le> i \<and> i < int (length array) \<longrightarrow> x \<le> array ! nat i"
  shows "low \<le> lower_bound_loop x array low high \<and> lower_bound_loop x array low high \<le> high
    \<and> (\<forall>i. 0 \<le> i \<and> i < lower_bound_loop x array low high \<longrightarrow> array ! nat i < x)
    \<and> (\<forall>i. lower_bound_loop x array low high \<le> i \<and> i < int (length array) \<longrightarrow> x \<le> array ! nat i)"
  using assms
proof (induction x array low high rule: lower_bound_loop.induct)
  case (1 x array low high)
  let ?mid = "low + (high - low) div 2"
  show ?case
  proof (cases "low < high")
    case False
    then show ?thesis using 1(3-) by (simp add: lower_bound_loop_cases)
  next
    case low: True
    then have m: "low \<le> ?mid" "?mid < high" "0 \<le> ?mid" "?mid < int (length array)"
      using 1(4,6) by auto
    note sp = sorted_split[OF 1(3) m(3,4)]
    show ?thesis
    proof (cases "x \<le> array ! nat ?mid")
      case t: True
      have ind: "\<forall>i. ?mid \<le> i \<and> i < int (length array) \<longrightarrow> x \<le> array ! nat i"
        using sp(2) t by fastforce
      let ?r = "lower_bound_loop x array low ?mid"
      note ih = 1(1)[OF low refl t 1(3,4) m(1) less_imp_le[OF m(4)] 1(7) ind]
      from ih have "?r \<le> high" using m(2) by linarith
      with ih show ?thesis
        unfolding lower_bound_loop_cases(2)[OF low t] by blast
    next
      case f: False
      have ind: "\<forall>i. 0 \<le> i \<and> i < ?mid + 1 \<longrightarrow> array ! nat i < x"
        using sp(1) f by fastforce
      let ?r = "lower_bound_loop x array (?mid + 1) high"
      have "0 \<le> ?mid + 1" "?mid + 1 \<le> high" using m by simp_all
      note ih = 1(2)[OF low refl f 1(3) this 1(6) ind 1(8)]
      from ih have "low \<le> ?r" using m(1) by linarith
      with ih show ?thesis
        unfolding lower_bound_loop_cases(3)[OF low f] by blast
    qed
  qed
qed

lemma upper_bound_loop_inv:
  assumes "sorted array" "0 \<le> low" "low \<le> high" "high \<le> int (length array)"
    "\<forall>i. 0 \<le> i \<and> i < low \<longrightarrow> array ! nat i \<le> x"
    "\<forall>i. high \<le> i \<and> i < int (length array) \<longrightarrow> x < array ! nat i"
  shows "low \<le> upper_bound_loop x array low high \<and> upper_bound_loop x array low high \<le> high
    \<and> (\<forall>i. 0 \<le> i \<and> i < upper_bound_loop x array low high \<longrightarrow> array ! nat i \<le> x)
    \<and> (\<forall>i. upper_bound_loop x array low high \<le> i \<and> i < int (length array) \<longrightarrow> x < array ! nat i)"
  using assms
proof (induction x array low high rule: upper_bound_loop.induct)
  case (1 x array low high)
  let ?mid = "low + (high - low) div 2"
  show ?case
  proof (cases "low < high")
    case False
    then show ?thesis using 1(3-) by (simp add: upper_bound_loop_cases)
  next
    case low: True
    then have m: "low \<le> ?mid" "?mid < high" "0 \<le> ?mid" "?mid < int (length array)"
      using 1(4,6) by auto
    note sp = sorted_split[OF 1(3) m(3,4)]
    show ?thesis
    proof (cases "array ! nat ?mid \<le> x")
      case t: True
      have ind: "\<forall>i. 0 \<le> i \<and> i < ?mid + 1 \<longrightarrow> array ! nat i \<le> x"
        using sp(1) t by fastforce
      let ?r = "upper_bound_loop x array (?mid + 1) high"
      have "0 \<le> ?mid + 1" "?mid + 1 \<le> high" using m by simp_all
      note ih = 1(1)[OF low refl t 1(3) this 1(6) ind 1(8)]
      from ih have "low \<le> ?r" using m(1) by linarith
      with ih show ?thesis
        unfolding upper_bound_loop_cases(2)[OF low t] by blast
    next
      case f: False
      have ind: "\<forall>i. ?mid \<le> i \<and> i < int (length array) \<longrightarrow> x < array ! nat i"
        using sp(2) f by fastforce
      let ?r = "upper_bound_loop x array low ?mid"
      note ih = 1(2)[OF low refl f 1(3,4) m(1) less_imp_le[OF m(4)] 1(7) ind]
      from ih have "?r \<le> high" using m(2) by linarith
      with ih show ?thesis
        unfolding upper_bound_loop_cases(3)[OF low f] by blast
    qed
  qed
qed

subsection \<open>Stepped ranges\<close>

text \<open>
  The loop \<open>for (auto n : range(b, e).step(s))\<close> over a \<open>size_t\<close>: the list of the
  values it visits, or \<open>None\<close> when it never ends.
\<close>

definition step_iter_eq :: "u64 \<Rightarrow> u64 \<Rightarrow> i32 \<Rightarrow> bool" where
  "step_iter_eq current other step = (if sint step > 0 then current \<ge> other else current < other)"

definition step_iter_inc :: "u64 \<Rightarrow> i32 \<Rightarrow> u64" where
  "step_iter_inc current step = current + scast step"

partial_function (option) step_range :: "u64 \<Rightarrow> u64 \<Rightarrow> i32 \<Rightarrow> u64 list option" where
  [code]: "step_range current e step =
     (if step_iter_eq current e step then Some []
      else Option.bind (step_range (step_iter_inc current step) e step) (\<lambda>l. Some (current # l)))"

text \<open>The range of one thread of a CUDA grid of \<open>gridDim * blockDim\<close> threads.\<close>

definition grid_stride_range :: "u64 \<Rightarrow> u64 \<Rightarrow> u32 \<Rightarrow> u32 \<Rightarrow> u32 \<Rightarrow> u32 \<Rightarrow> u64 list option" where
  "grid_stride_range b e gridDim blockDim blockIdx threadIdx =
     step_range (b + ucast (blockDim * blockIdx + threadIdx)) e (gridDim * blockDim)"

lemma step_members:
  assumes "0 < s" "a < e"
  shows "(a \<le> x \<and> x < e \<and> (x - a) mod s = 0)
    = (x = a \<or> (a + s \<le> x \<and> x < e \<and> (x - (a + s)) mod s = (0 :: int)))"
proof -
  have m: "(x - (a + s)) mod s = (x - a) mod s"
    using minus_mod_self2[of "x - a" s] by (simp add: diff_diff_eq)
  have "a + s \<le> x" if "a < x" "(x - a) mod s = 0"
  proof -
    have "s dvd x - a" using that(2) by (rule mod_0_imp_dvd)
    then have "s \<le> x - a" using that(1) by (intro zdvd_imp_le) simp_all
    then show ?thesis by linarith
  qed
  then show ?thesis unfolding m using assms by (cases "x = a") auto
qed

lemma word_of_int_add_ucast: "(word_of_int (uint b + uint (w :: u32)) :: u64) = b + ucast w"
  by simp

lemma word_of_int_add_scast: "(word_of_int (uint b + sint (w :: i32)) :: u64) = b + scast w"
  by simp

definition step_set :: "int \<Rightarrow> int \<Rightarrow> int \<Rightarrow> u64 set" where
  "step_set a e s = {i. a \<le> uint i \<and> uint i < e \<and> (uint i - a) mod s = 0}"

lemma step_set_insert:
  assumes "0 < s" "uint c < e"
  shows "step_set (uint c) e s = insert c (step_set (uint c + s) e s)"
proof (rule set_eqI)
  fix i :: u64
  have "(i = c) = (uint i = uint c)" by (rule word_uint_eq_iff)
  then show "(i \<in> step_set (uint c) e s) = (i \<in> insert c (step_set (uint c + s) e s))"
    using step_members[OF assms, of "uint i"]
    by (simp only: step_set_def mem_Collect_eq insert_iff)
qed

lemma step_set_empty: "e \<le> a \<Longrightarrow> step_set a e s = {}"
  unfolding step_set_def using order.trans not_less by blast

lemma step_set_ge: "uint c < a \<Longrightarrow> c \<notin> step_set a e s"
  unfolding step_set_def using not_less by blast

lemma step_range_visits:
  assumes "0 < sint step" "uint e + sint step < 2 ^ 64"
  shows "\<exists>l. step_range cur e step = Some l \<and> distinct l
    \<and> set l = step_set (uint cur) (uint e) (sint step)"
proof (induction "nat (uint e - uint cur)" arbitrary: cur rule: less_induct)
  case less
  show ?case
  proof (cases "uint e \<le> uint cur")
    case True
    then have "step_range cur e step = Some []"
      using assms(1) by (simp add: step_range.simps step_iter_eq_def word_le_def)
    then show ?thesis using step_set_empty[OF True] by simp
  next
    case False
    let ?n = "step_iter_inc cur step"
    have lt: "uint cur < uint e" using False by simp
    have "uint (word_of_int (uint cur + sint step) :: u64) = uint cur + sint step"
    proof (rule uint_of_int64)
      show "0 \<le> uint cur + sint step" using assms(1) by (intro add_nonneg_nonneg) simp_all
      show "uint cur + sint step < 2 ^ 64"
        using add_strict_right_mono[OF lt] assms(2) by (rule less_trans)
    qed
    then have n: "uint ?n = uint cur + sint step"
      unfolding step_iter_inc_def word_of_int_add_scast .
    have "nat (uint e - uint ?n) < nat (uint e - uint cur)" unfolding n using lt assms(1) by linarith
    from less[OF this] obtain l where l: "step_range ?n e step = Some l" "distinct l"
      "set l = step_set (uint cur + sint step) (uint e) (sint step)"
      unfolding n by blast
    have "\<not> step_iter_eq cur e step" using lt assms(1) by (simp add: step_iter_eq_def word_le_def)
    then have "step_range cur e step = Some (cur # l)"
      using l(1) by (simp add: step_range.simps[of cur])
    moreover have "cur \<notin> set l"
      unfolding l(3) using assms(1) by (intro step_set_ge) linarith
    ultimately show ?thesis
      using l(2) step_set_insert[OF assms(1) lt] l(3) by auto
  qed
qed

lemma residue_class:
  assumes "0 \<le> d" "d < T"
  shows "(d \<le> x \<and> (x - d) mod T = 0) = (0 \<le> x \<and> (x :: int) mod T = d)"
proof
  assume a: "d \<le> x \<and> (x - d) mod T = 0"
  then have "x mod T = d mod T" by (simp add: mod_eq_dvd_iff dvd_eq_mod_eq_0)
  then show "0 \<le> x \<and> x mod T = d" using a assms by simp
next
  assume a: "0 \<le> x \<and> x mod T = d"
  then have "x - d = T * (x div T)" using mult_div_mod_eq[of T x] by linarith
  moreover have "0 \<le> T * (x div T)"
    using a assms by (intro mult_nonneg_nonneg) (auto simp: pos_imp_zdiv_nonneg_iff)
  ultimately show "d \<le> x \<and> (x - d) mod T = 0" by simp
qed

lemma grid_thread_id:
  assumes "uint (g :: u32) * uint (k :: u32) < 2 ^ 31" "uint (bi :: u32) < uint g" "uint (ti :: u32) < uint k"
  shows "uint (k * bi + ti) = uint k * uint bi + uint ti"
    "uint k * uint bi + uint ti < uint g * uint k" "sint (g * k) = uint g * uint k"
proof -
  have "uint k * uint bi + uint ti < uint k * (uint bi + 1)" using assms(3) by (simp add: distrib_left)
  also have "\<dots> \<le> uint k * uint g" using assms(2) by (intro mult_left_mono) simp_all
  finally show lt: "uint k * uint bi + uint ti < uint g * uint k" by (simp add: mult.commute)
  then have "uint (word_of_int (uint k * uint bi + uint ti) :: u32) = uint k * uint bi + uint ti"
    using assms(1) by (intro uint_of_int32) simp_all
  then show "uint (k * bi + ti) = uint k * uint bi + uint ti" by simp
  have "- (2 ^ 31) \<le> uint g * uint k" by (rule order.trans[of _ 0]) simp_all
  then have "sint (word_of_int (uint g * uint k) :: u32) = uint g * uint k"
    using assms(1) by (rule sint_of_int32)
  then show "sint (g * k) = uint g * uint k" by simp
qed

lemma thread_nonneg: "0 \<le> uint (k :: u32) * uint (bi :: u32) + uint (ti :: u32)"
  by simp

lemma grid_start:
  assumes "uint g * uint k < 2 ^ 31" "uint e < 2 ^ 63" "uint b \<le> uint e"
    "uint (bi :: u32) < uint (g :: u32)" "uint (ti :: u32) < uint k"
  shows "uint ((b :: u64) + ucast (k * bi + ti)) = uint b + (uint k * uint bi + uint ti)"
proof -
  let ?d = "uint k * uint bi + uint ti"
  note id = grid_thread_id[OF assms(1,4,5)]
  have "uint b < 2 ^ 63" by (rule le_less_trans[OF assms(3,2)])
  moreover have "?d < 2 ^ 31" by (rule less_trans[OF id(2) assms(1)])
  ultimately have "uint b + ?d < 2 ^ 63 + 2 ^ 31" by (rule add_strict_mono)
  then have "uint b + ?d < 2 ^ 64" by (rule less_trans) simp
  moreover have "0 \<le> uint b + ?d" by simp
  ultimately have "uint (word_of_int (uint b + ?d) :: u64) = uint b + ?d"
    by (intro uint_of_int64)
  then show ?thesis unfolding id(1)[symmetric] word_of_int_add_ucast .
qed

lemma step_set_residue:
  assumes "0 \<le> d" "d < T"
  shows "step_set (b + d) e T = {i. b \<le> uint i \<and> uint i < e \<and> (uint i - b) mod T = d}"
  unfolding step_set_def
proof (rule Collect_cong)
  fix i :: u64
  have "(d \<le> uint i - b) = (b + d \<le> uint i)" "(0 \<le> uint i - b) = (b \<le> uint i)"
    "uint i - b - d = uint i - (b + d)"
    by linarith+
  then show "(b + d \<le> uint i \<and> uint i < e \<and> (uint i - (b + d)) mod T = 0)
      = (b \<le> uint i \<and> uint i < e \<and> (uint i - b) mod T = d)"
    using residue_class[OF assms, of "uint i - b"] by argo
qed

subsection \<open>Properties\<close>

text \<open>
  The direction bits of a stagger are independent: setting or flipping one
  direction is read back there and changes no other direction, and the
  complement turns every 0 into 1.
\<close>

theorem stagger_bits:
  assumes "i < 8"
  shows "stagger_at (stagger_set_bit s b v) i = (if i = b then of_bool v else stagger_at s i)
    \<and> stagger_at (stagger_flip s b) i = (if i = b then 1 - stagger_at s i else stagger_at s i)
    \<and> stagger_at (stagger_complement s) i = 1 - stagger_at s i"
  using assms
  by (simp add: stagger_at_bit bit_stagger_set_bit bit_stagger_flip stagger_complement_def bit_simps)

theorem stagger_bits_witness: "stagger_at (stagger_set_bit 5 1 True) 1 = 1"
  using stagger_bits[of 1 5 1 True] by simp

text \<open>
  The type field and the flag bits of a particle do not disturb each other:
  \<open>get_ptc_type\<close> returns the type that was set, setting it keeps every flag
  bit, and setting, clearing or toggling flag bits changes exactly these bits
  and keeps the type.
\<close>

theorem ptc_flags_independent:
  assumes "b < 28" "\<forall>f \<in> set bs. f < 28"
  shows "get_ptc_type (set_ptc_type_flag flag t) = PtcType_code t
    \<and> check_flag (set_ptc_type_flag flag t) b = check_flag flag b
    \<and> get_ptc_type (set_flag flag bs) = get_ptc_type flag
    \<and> get_ptc_type (clear_flag flag bs) = get_ptc_type flag
    \<and> get_ptc_type (toggle_flag flag bs) = get_ptc_type flag
    \<and> check_flag (set_flag flag bs) b = (b \<in> set bs \<or> check_flag flag b)
    \<and> check_flag (clear_flag flag bs) b = (b \<notin> set bs \<and> check_flag flag b)
    \<and> check_flag (toggle_flag flag bs) b = (check_flag flag b \<noteq> (b \<in> set bs))"
  using assms
  by (simp add: get_set_ptc_type check_set_ptc_type get_ptc_type_flags check_set_flag
      check_clear_flag check_toggle_flag)

theorem ptc_flags_independent_witness:
  "get_ptc_type (set_ptc_type_flag (set_flag 0 [PtcFlag_code primary, PtcFlag_code tracked]) ion) = 2"
  using ptc_flags_independent[of 1 "[8, 1]" "set_flag 0 [8, 1]" ion] by simp

text \<open>
  C30.  \<open>next_power_of_two\<close> returns for every argument up to \<open>2\<^sup>3\<^sup>1\<close>, with the
  least power of two that is not below it; above, the shift overflows and the
  call never returns.
\<close>

theorem next_power_of_two_returns:
  "(uint num \<le> 2 ^ 31 \<longrightarrow>
      (\<exists>k r. next_power_of_two num = Some r \<and> uint r = 2 ^ k \<and> uint num \<le> 2 ^ k
         \<and> (\<forall>j. uint num \<le> 2 ^ j \<longrightarrow> k \<le> j)))
   \<and> (2 ^ 31 < uint num \<longrightarrow> next_power_of_two num = None)"
proof (intro conjI impI)
  assume "uint num \<le> 2 ^ 31"
  from next_pow2_loop_from[OF this, of 0] obtain k where
    k: "k \<le> 31" "next_power_of_two num = Some (2 ^ k)" "uint num \<le> 2 ^ k"
    "k > 0 \<longrightarrow> 2 ^ (k - 1) < uint num"
    by (auto simp: next_power_of_two_def)
  have "k \<le> j" if "uint num \<le> 2 ^ j" for j
  proof (rule ccontr)
    assume "\<not> k \<le> j"
    then have "(2::int) ^ j \<le> 2 ^ (k - 1)" by (intro power_increasing) simp_all
    then have "uint num \<le> 2 ^ (k - 1)" using that by (rule order.trans[rotated])
    then show False using k(4) \<open>\<not> k \<le> j\<close> by linarith
  qed
  then show "\<exists>k r. next_power_of_two num = Some r \<and> uint r = 2 ^ k \<and> uint num \<le> 2 ^ k
         \<and> (\<forall>j. uint num \<le> 2 ^ j \<longrightarrow> k \<le> j)"
    using k by (intro exI[of _ k] exI[of _ "2 ^ k"]) (simp add: uint_pow2)
qed (rule next_power_of_two_diverges)

theorem next_power_of_two_returns_witness: "next_power_of_two 3000000000 = None"
  using next_power_of_two_returns[of 3000000000] by simp

text \<open>
  On a sorted array both binary searches return a position between 0 and the
  size that splits the array: for \<open>lower_bound\<close> the elements before it are less
  than \<open>x\<close> and the others are not; for \<open>upper_bound\<close> the elements before it are at most
  \<open>x\<close> and the others greater.
\<close>

theorem bounds_split_sorted:
  assumes "sorted array" "n = int (length array)"
  shows "0 \<le> lower_bound x array n \<and> lower_bound x array n \<le> n
    \<and> (\<forall>i. 0 \<le> i \<and> i < lower_bound x array n \<longrightarrow> array ! nat i < x)
    \<and> (\<forall>i. lower_bound x array n \<le> i \<and> i < n \<longrightarrow> x \<le> array ! nat i)
    \<and> 0 \<le> upper_bound x array n \<and> upper_bound x array n \<le> n
    \<and> (\<forall>i. 0 \<le> i \<and> i < upper_bound x array n \<longrightarrow> array ! nat i \<le> x)
    \<and> (\<forall>i. upper_bound x array n \<le> i \<and> i < n \<longrightarrow> x < array ! nat i)"
proof -
  have r: "0 \<le> n" "n \<le> int (length array)" using assms(2) by simp_all
  have lo: "\<forall>i. 0 \<le> i \<and> i < 0 \<longrightarrow> P (i :: int)" and hi: "\<forall>i. n \<le> i \<and> i < int (length array) \<longrightarrow> P (i :: int)" for P
    using assms(2) by auto
  show ?thesis
    using lower_bound_loop_inv[OF assms(1) order_refl r lo hi]
      upper_bound_loop_inv[OF assms(1) order_refl r lo hi]
    unfolding lower_bound_def upper_bound_def assms(2) by blast
qed

theorem bounds_split_sorted_witness:
  "upper_bound (3::int) [1, 3, 3, 7] 4 \<le> 4 \<and> lower_bound (3::int) [1, 3, 3, 7] 4 \<le> 4"
  using bounds_split_sorted[of "[1, 3, 3, 7::int]" 4 3] by simp

text \<open>
  The grid-stride loops of all threads of a grid together visit every index
  of \<open>[b, e)\<close> exactly once: the loop of each thread ends, repeats no index and
  visits the indices that are congruent to its thread number.
\<close>

theorem grid_stride_partition:
  assumes "uint gridDim * uint blockDim < 2 ^ 31" "uint e < 2 ^ 63" "uint b \<le> uint e"
    "uint blockIdx < uint gridDim" "uint threadIdx < uint blockDim"
  shows "\<exists>l. grid_stride_range b e gridDim blockDim blockIdx threadIdx = Some l \<and> distinct l
    \<and> set l = {i. uint b \<le> uint i \<and> uint i < uint e
        \<and> (uint i - uint b) mod (uint gridDim * uint blockDim)
          = uint blockDim * uint blockIdx + uint threadIdx}"
proof -
  let ?c = "b + ucast (blockDim * blockIdx + threadIdx)"
  note id = grid_thread_id[OF assms(1,4,5)]
  have c: "uint ?c = uint b + (uint blockDim * uint blockIdx + uint threadIdx)"
    by (rule grid_start[OF assms])
  have "0 < sint (gridDim * blockDim)" unfolding id(3) using id(2) thread_nonneg by (rule le_less_trans[rotated])
  moreover have "uint e + sint (gridDim * blockDim) < 2 ^ 64"
    unfolding id(3) using add_strict_mono[OF assms(2,1)] by (rule less_trans) simp
  ultimately obtain l where l: "step_range ?c e (gridDim * blockDim) = Some l" "distinct l"
    "set l = step_set (uint ?c) (uint e) (sint (gridDim * blockDim))"
    using step_range_visits by blast
  then show ?thesis
    unfolding grid_stride_range_def c id(3) step_set_residue[OF thread_nonneg id(2)] by blast
qed

theorem grid_stride_partition_witness:
  "\<exists>l. grid_stride_range 2 100 4 8 1 3 = Some l \<and> set l =
     {i. 2 \<le> uint i \<and> uint i < 100 \<and> (uint i - 2) mod 32 = 11}"
  using grid_stride_partition[of 4 8 100 2 1 3] by auto

end
