(* ===== verification/Rng.thy ===== *)
theory Rng
  imports Util
begin

unbundle bit_operations_syntax

text \<open>
  Random numbers: \<open>src/core/random.h\<close> and \<open>src/data/rng_states.cpp\<close>.  The
  generator works on four \<open>uint64_t\<close>; the distributions are functions on real
  numbers, with the loops that draw until a condition holds as partial functions:
  \<open>None\<close> is a loop that does not end.
\<close>

subsection \<open>The generator\<close>

definition rotl :: "u64 \<Rightarrow> nat \<Rightarrow> u64" where
  "rotl x k = push_bit k x OR drop_bit (64 - k) x"

definition split_mix_64 :: "u64 \<Rightarrow> u64" where
  "split_mix_64 x =
     (let x = x + 0x9e3779b97f4a7c15;
          z = (x XOR drop_bit 30 x) * 0xbf58476d1ce4e5b9;
          z = (z XOR drop_bit 27 z) * 0x94d049bb133111eb
      in z XOR drop_bit 31 z)"

record rand_state =
  rs0 :: u64
  rs1 :: u64
  rs2 :: u64
  rs3 :: u64

definition rand_state_zero :: rand_state where
  "rand_state_zero = \<lparr>rs0 = 0, rs1 = 0, rs2 = 0, rs3 = 0\<rparr>"

definition rand_state_of :: "u64 list \<Rightarrow> rand_state" where
  "rand_state_of seed = \<lparr>rs0 = seed ! 0, rs1 = seed ! 1, rs2 = seed ! 2, rs3 = seed ! 3\<rparr>"

definition rand_init :: "u64 \<Rightarrow> rand_state" where
  "rand_init seed =
     (let a = split_mix_64 seed; b = split_mix_64 a; c = split_mix_64 b; d = split_mix_64 c
      in \<lparr>rs0 = a, rs1 = b, rs2 = c, rs3 = d\<rparr>)"

definition rng_next :: "rand_state \<Rightarrow> u64 \<times> rand_state" where
  "rng_next s =
     (let result = rs0 s + rs3 s;
          t = push_bit 17 (rs1 s);
          s = s\<lparr>rs2 := rs2 s XOR rs0 s\<rparr>;
          s = s\<lparr>rs3 := rs3 s XOR rs1 s\<rparr>;
          s = s\<lparr>rs1 := rs1 s XOR rs2 s\<rparr>;
          s = s\<lparr>rs0 := rs0 s XOR rs3 s\<rparr>;
          s = s\<lparr>rs2 := rs2 s XOR t\<rparr>;
          s = s\<lparr>rs3 := rotl (rs3 s) 45\<rparr>
      in (result, s))"

definition JUMP :: "u64 list" where
  "JUMP = [0x180ec6d33cfd0aba, 0xd5a61266f0c9392c, 0xa9582618e03fc9aa, 0x39abdc4529b1661c]"

definition LONG_JUMP :: "u64 list" where
  "LONG_JUMP = [0x76e15d3efefdcbbf, 0xc5004e441c522fb3, 0x77710069854ee241, 0x39109bb02acbe635]"

definition xor_state :: "rand_state \<Rightarrow> rand_state \<Rightarrow> rand_state" where
  "xor_state a s = \<lparr>rs0 = rs0 a XOR rs0 s, rs1 = rs1 a XOR rs1 s, rs2 = rs2 a XOR rs2 s, rs3 = rs3 a XOR rs3 s\<rparr>"

definition jump_bit :: "u64 \<Rightarrow> rand_state \<times> rand_state \<Rightarrow> nat \<Rightarrow> rand_state \<times> rand_state" where
  "jump_bit w = (\<lambda>(acc, s) b. (if w AND push_bit b 1 \<noteq> 0 then xor_state acc s else acc, snd (rng_next s)))"

definition jump_with :: "u64 list \<Rightarrow> rand_state \<Rightarrow> rand_state" where
  "jump_with table s =
     fst (foldl (\<lambda>st w. foldl (jump_bit w) st [0..<64]) (rand_state_zero, s) table)"

definition jump :: "rand_state \<Rightarrow> rand_state" where
  "jump = jump_with JUMP"

definition long_jump :: "rand_state \<Rightarrow> rand_state" where
  "long_jump = jump_with LONG_JUMP"

text \<open>\<open>rng_states_t<host>\<close> holds one state, advanced by one jump per rank.\<close>

definition rng_states_init :: "u64 \<Rightarrow> nat \<Rightarrow> rand_state" where
  "rng_states_init seed rank = foldl (\<lambda>s _. jump s) (rand_init seed) [0..<rank]"

definition default_random_seed :: u64 where
  "default_random_seed = 0x3141592653589793"

subsection \<open>Distributions\<close>

text \<open>The divisor \<open>static_cast<double>(UINT64_MAX)\<close> is \<open>2^64\<close>, the nearest double.\<close>

definition rng_uniform :: "rand_state \<Rightarrow> real \<times> rand_state" where
  "rng_uniform s = (let (n, s) = rng_next s in (of_int (uint n) / 2 ^ 64, s))"

definition rng_gaussian :: "rand_state \<Rightarrow> real \<Rightarrow> real \<times> rand_state" where
  "rng_gaussian s sigma =
     (let (u1, s) = rng_uniform s; (u2, s) = rng_uniform s
      in (sqrt (- 2 * ln u1) * cos (2 * pi * u2) * sigma, s))"

text \<open>
  \<open>rng_poisson<Float>\<close> multiplies until the product reaches a threshold, so its rounding
  matters: \<open>fl\<close> rounds to \<open>Float\<close>, \<open>dbl\<close> a \<open>uint64_t\<close> to \<open>double\<close>, and \<open>exp_fl\<close> is \<open>math::exp\<close> on
  \<open>Float\<close>.  The product may become zero, as may the threshold.  \<open>int k\<close> past its range is
  undefined.
\<close>

definition rng_uniform_fl :: "(real \<Rightarrow> real) \<Rightarrow> (real \<Rightarrow> real) \<Rightarrow> rand_state \<Rightarrow> real \<times> rand_state" where
  "rng_uniform_fl fl dbl s = (let (n, s) = rng_next s in (fl (dbl (of_int (uint n)) / 2 ^ 64), s))"

partial_function (option) poisson_loop ::
  "(real \<Rightarrow> real) \<Rightarrow> (real \<Rightarrow> real) \<Rightarrow> real \<Rightarrow> real \<Rightarrow> i32 \<Rightarrow> rand_state \<Rightarrow> (i32 \<times> rand_state) option" where
  "poisson_loop fl dbl L p k s =
     (if \<not> sint k < 2 ^ 31 - 1 then None
      else let k = k + 1; us = rng_uniform_fl fl dbl s; p = fl (p * fst us); s = snd us
           in if p > L then poisson_loop fl dbl L p k s else Some (k - 1, s))"

definition rng_poisson ::
  "(real \<Rightarrow> real) \<Rightarrow> (real \<Rightarrow> real) \<Rightarrow> (real \<Rightarrow> real) \<Rightarrow> rand_state \<Rightarrow> real \<Rightarrow> (i32 \<times> rand_state) option" where
  "rng_poisson fl dbl exp_fl s lambda = poisson_loop fl dbl (exp_fl (- lambda)) 1 0 s"

partial_function (option) sobol_loop :: "real \<Rightarrow> rand_state \<Rightarrow> (real \<times> rand_state) option" where
  "sobol_loop theta s =
     (let x1 = rng_uniform s; x2 = rng_uniform (snd x1); x3 = rng_uniform (snd x2); x4 = rng_uniform (snd x3);
          u = - theta * ln (fst x1 * fst x2 * fst x3);
          eta = - theta * ln (fst x1 * fst x2 * fst x3 * fst x4)
      in if eta * eta - u * u > 1 then Some (u, snd x4) else sobol_loop theta (snd x4))"

definition rng_maxwell_juttner :: "rand_state \<Rightarrow> real \<Rightarrow> (real \<times> rand_state) option" where
  "rng_maxwell_juttner s theta =
     (if theta > 1 / 10 then sobol_loop theta s
      else (let (ux, s) = rng_gaussian s (sqrt theta);
                (uy, s) = rng_gaussian s (sqrt theta);
                (uz, s) = rng_gaussian s (sqrt theta);
                u = sqrt (ux * ux + uy * uy + uz * uz)
            in Some (u * (1 / sqrt (1 - u * u)), s)))"

definition rng_maxwell_juttner_3d :: "rand_state \<Rightarrow> real \<Rightarrow> (real list \<times> rand_state) option" where
  "rng_maxwell_juttner_3d s theta =
     (case rng_maxwell_juttner s theta of None \<Rightarrow> None
      | Some (u, s) \<Rightarrow>
         (let (x1, s) = rng_uniform s; (x2, s) = rng_uniform s
          in Some ([u * (2 * x1 - 1),
                    2 * u * sqrt (x1 * (1 - x1)) * cos (2 * pi * x2),
                    2 * u * sqrt (x1 * (1 - x1)) * sin (2 * pi * x2)], s)))"

definition rng_maxwell_juttner_drifting ::
  "rand_state \<Rightarrow> real \<Rightarrow> real \<Rightarrow> nat \<Rightarrow> (real list \<times> rand_state) option" where
  "rng_maxwell_juttner_drifting s theta beta dir =
     (case rng_maxwell_juttner_3d s theta of None \<Rightarrow> None
      | Some (u, s) \<Rightarrow>
         (let G = 1 / sqrt (1 - beta * beta);
              u0 = sqrt (1 + vec_dot u u);
              (x1, s) = rng_uniform s;
              u = (if - beta * (u ! dir) / u0 > x1 then u[dir := - (u ! dir)] else u)
          in Some (u[dir := G * (u ! dir + beta * u0)], s)))"

subsection \<open>The generator is linear and invertible\<close>

lemma rotl_bit: "k < 64 \<Longrightarrow> n < 64 \<Longrightarrow> bit (rotl x k) n = (if k \<le> n then bit x (n - k) else bit x (64 + n - k))"
  by (auto simp: rotl_def bit_simps dest: bit_imp_le_length intro: arg_cong2[where f = bit])

lemma rotl_xor: "k < 64 \<Longrightarrow> rotl (x XOR y) k = rotl x k XOR rotl y k"
  by (rule bit_word_eqI) (simp add: rotl_bit bit_simps)

lemma rotl_back: "0 < k \<Longrightarrow> k < 64 \<Longrightarrow> rotl (rotl x k) (64 - k) = x"
  by (rule bit_word_eqI) (auto simp: rotl_bit)

abbreviation "next_state s \<equiv> snd (rng_next s)"

lemma next_state_fields:
  "rs0 (next_state s) = rs0 s XOR (rs3 s XOR rs1 s)"
  "rs1 (next_state s) = rs1 s XOR (rs2 s XOR rs0 s)"
  "rs2 (next_state s) = (rs2 s XOR rs0 s) XOR push_bit 17 (rs1 s)"
  "rs3 (next_state s) = rotl (rs3 s XOR rs1 s) 45"
  by (simp_all add: rng_next_def Let_def)


text \<open>The state before a step.\<close>

definition prev_state :: "rand_state \<Rightarrow> rand_state" where
  "prev_state s =
     (let r = rotl (rs3 s) 19; a = rs0 s XOR r; y = rs2 s XOR rs1 s;
          b = y XOR push_bit 17 y XOR push_bit 34 y XOR push_bit 51 y
      in \<lparr>rs0 = a, rs1 = b, rs2 = rs1 s XOR b XOR a, rs3 = r XOR b\<rparr>)"

lemma unshift:
  fixes x :: u64
  assumes "y = x XOR push_bit 17 x"
  shows "y XOR push_bit 17 y XOR push_bit 34 y XOR push_bit 51 y = x"
    and "x = z XOR push_bit 17 z XOR push_bit 34 z XOR push_bit 51 z \<Longrightarrow> y = z"
proof -
  have z: "push_bit 68 w = 0" for w :: u64
    by (rule bit_word_eqI) (simp add: bit_simps)
  show "y XOR push_bit 17 y XOR push_bit 34 y XOR push_bit 51 y = x"
    unfolding assms by (simp add: z xor.assoc xor.left_commute xor.commute)
  show "x = z XOR push_bit 17 z XOR push_bit 34 z XOR push_bit 51 z \<Longrightarrow> y = z"
    unfolding assms by (simp add: z xor.assoc xor.left_commute xor.commute)
qed


lemma prev_next: "prev_state (next_state s) = s"
proof -
  let ?n = "next_state s"
  have r: "rotl (rs3 ?n) 19 = rs3 s XOR rs1 s"
    using rotl_back[of 45 "rs3 s XOR rs1 s"] by (simp add: next_state_fields)
  then have a: "rs0 ?n XOR rotl (rs3 ?n) 19 = rs0 s"
    by (simp add: next_state_fields xor.assoc)
  have e: "rs2 ?n XOR rs1 ?n = rs1 s XOR push_bit 17 (rs1 s)"
    by (simp add: next_state_fields xor.assoc xor.left_commute xor.commute)
  have b: "(rs2 ?n XOR rs1 ?n) XOR push_bit 17 (rs2 ?n XOR rs1 ?n) XOR push_bit 34 (rs2 ?n XOR rs1 ?n)
      XOR push_bit 51 (rs2 ?n XOR rs1 ?n) = rs1 s"
    by (rule unshift(1)[OF e])
  show ?thesis
    unfolding prev_state_def Let_def a b r
    by (simp add: next_state_fields xor.assoc xor.left_commute xor.commute)
qed

lemma next_prev: "next_state (prev_state s) = s"
proof -
  define r where "r = rotl (rs3 s) 19"
  define y where "y = rs2 s XOR rs1 s"
  define b where "b = y XOR push_bit 17 y XOR push_bit 34 y XOR push_bit 51 y"
  have p: "prev_state s = \<lparr>rs0 = rs0 s XOR r, rs1 = b, rs2 = rs1 s XOR b XOR (rs0 s XOR r), rs3 = r XOR b\<rparr>"
    by (simp add: prev_state_def Let_def r_def y_def b_def)
  have bb: "b XOR push_bit 17 b = y"
    using unshift(2)[OF refl b_def] by simp
  have "rotl r 45 = rs3 s"
    using rotl_back[of 19 "rs3 s"] by (simp add: r_def)
  moreover have "rs1 s XOR (b XOR push_bit 17 b) = rs2 s"
    unfolding bb y_def by (simp add: xor.commute xor.left_commute)
  ultimately have "rs0 (next_state (prev_state s)) = rs0 s \<and> rs1 (next_state (prev_state s)) = rs1 s
      \<and> rs2 (next_state (prev_state s)) = rs2 s \<and> rs3 (next_state (prev_state s)) = rs3 s"
    unfolding next_state_fields p by (simp add: xor.assoc xor.left_commute xor.commute)
  then show ?thesis by (simp add: rand_state.equality)
qed

lemma next_xor: "next_state (xor_state a s) = xor_state (next_state a) (next_state s)"
proof -
  have "rs3 (next_state (xor_state a s)) = rs3 (xor_state (next_state a) (next_state s))"
    unfolding next_state_fields by (simp add: xor_state_def next_state_fields rotl_xor[symmetric] xor.assoc xor.left_commute xor.commute)
  then show ?thesis
    by (intro rand_state.equality) (simp_all add: next_state_fields xor_state_def xor.assoc xor.left_commute xor.commute)
qed

lemma next_zero: "next_state rand_state_zero = rand_state_zero"
  by (intro rand_state.equality) (simp_all add: next_state_fields rand_state_zero_def rotl_def)

lemma next_nonzero: "s \<noteq> rand_state_zero \<Longrightarrow> next_state s \<noteq> rand_state_zero"
  using prev_next[of s] next_zero prev_next[of rand_state_zero] by metis

subsection \<open>Jumps\<close>

lemma jump_bit_next:
  "jump_bit w (map_prod next_state next_state st) b = map_prod next_state next_state (jump_bit w st b)"
  by (cases st) (simp add: jump_bit_def next_xor)

lemma jump_bits_next:
  "foldl (jump_bit w) (map_prod next_state next_state st) bs = map_prod next_state next_state (foldl (jump_bit w) st bs)"
  by (induction bs arbitrary: st) (simp_all add: jump_bit_next)

lemma jump_words_next:
  "foldl (\<lambda>st w. foldl (jump_bit w) st bs) (map_prod next_state next_state st) ws
    = map_prod next_state next_state (foldl (\<lambda>st w. foldl (jump_bit w) st bs) st ws)"
  by (induction ws arbitrary: st) (simp_all add: jump_bits_next)

lemma jump_with_next: "jump_with table (next_state s) = next_state (jump_with table s)"
proof -
  have "(rand_state_zero, next_state s) = map_prod next_state next_state (rand_state_zero, s)"
    by (simp add: next_zero)
  then show ?thesis
    unfolding jump_with_def by (simp only: jump_words_next) (simp)
qed

lemma jump_with_steps: "jump_with table ((next_state ^^ n) s) = (next_state ^^ n) (jump_with table s)"
  by (induction n) (simp_all add: jump_with_next)

lemma rng_states_init_Suc: "rng_states_init seed (Suc rank) = jump (rng_states_init seed rank)"
  by (simp add: rng_states_init_def)

subsection \<open>Properties\<close>

text \<open>
  C17.  The generator is a permutation of its states: \<open>prev_state\<close> undoes a step, so a state
  that is not zero never becomes zero.  Both jumps commute with steps; the stream of rank
  \<open>r + 1\<close> is therefore at every point the jump of the stream of rank \<open>r\<close>.
\<close>

theorem rng_streams:
  "prev_state (snd (rng_next s)) = s \<and> snd (rng_next (prev_state s)) = s
   \<and> (snd (rng_next s) = rand_state_zero) = (s = rand_state_zero)
   \<and> jump (snd (rng_next s)) = snd (rng_next (jump s)) \<and> long_jump (snd (rng_next s)) = snd (rng_next (long_jump s))
   \<and> ((\<lambda>s. snd (rng_next s)) ^^ n) (rng_states_init seed (Suc r)) = jump (((\<lambda>s. snd (rng_next s)) ^^ n) (rng_states_init seed r))"
proof -
  have "(snd (rng_next s) = rand_state_zero) = (s = rand_state_zero)"
    using next_nonzero[of s] next_zero by auto
  then show ?thesis
    by (simp add: prev_next next_prev jump_def long_jump_def jump_with_next jump_with_steps[symmetric]
          rng_states_init_Suc[unfolded jump_def])
qed

text \<open>The uniform draws of a state, and their rounded products.\<close>

definition draw :: "(real \<Rightarrow> real) \<Rightarrow> (real \<Rightarrow> real) \<Rightarrow> nat \<Rightarrow> rand_state \<Rightarrow> real" where
  "draw fl dbl i s = fst (rng_uniform_fl fl dbl ((next_state ^^ i) s))"

primrec draw_product :: "(real \<Rightarrow> real) \<Rightarrow> (real \<Rightarrow> real) \<Rightarrow> nat \<Rightarrow> rand_state \<Rightarrow> real" where
  "draw_product fl dbl 0 s = 1"
| "draw_product fl dbl (Suc n) s = fl (draw_product fl dbl n s * draw fl dbl n s)"

lemma poisson_loop_step:
  assumes "n + 1 < 2 ^ 31"
  shows "poisson_loop fl dbl L (draw_product fl dbl n s) (word_of_nat n) ((next_state ^^ n) s) =
    (if draw_product fl dbl (Suc n) s > L
     then poisson_loop fl dbl L (draw_product fl dbl (Suc n) s) (word_of_nat (Suc n)) ((next_state ^^ Suc n) s)
     else Some (word_of_nat n, (next_state ^^ Suc n) s))"
proof -
  have "int n < 2 ^ 31 - 1" using assms by simp
  then have k: "sint (word_of_nat n :: i32) < 2 ^ 31 - 1" using sint_of_int32[of "int n"] by simp
  have d: "snd (rng_uniform_fl fl dbl ((next_state ^^ n) s)) = (next_state ^^ Suc n) s"
    by (simp add: rng_uniform_fl_def case_prod_beta)
  show ?thesis
    unfolding poisson_loop.simps[of fl dbl L "draw_product fl dbl n s"] using k
    by (simp add: Let_def d draw_def add.commute del: funpow.simps)
qed

text \<open>Up to the first product not above the threshold the loop goes on.\<close>

lemma poisson_loop_runs:
  assumes "n < 2 ^ 31" "\<forall>j < n. draw_product fl dbl (Suc j) s > L"
  shows "poisson_loop fl dbl L 1 0 s = poisson_loop fl dbl L (draw_product fl dbl n s) (word_of_nat n) ((next_state ^^ n) s)"
  using assms
proof (induction n)
  case (Suc n)
  then show ?case using poisson_loop_step[of n fl dbl L s] by simp
qed simp

lemma poisson_loop_overflow:
  "poisson_loop fl dbl L p (word_of_nat (2 ^ 31 - 1)) s = None"
proof -
  have "sint (word_of_int (2 ^ 31 - 1) :: i32) = 2 ^ 31 - 1" by (rule sint_of_int32) simp_all
  then show ?thesis by (subst poisson_loop.simps) simp
qed

text \<open>
  C37.  Whatever the rounding of the products and of the exponential (so also when they
  underflow), the Poisson loop returns \<open>m\<close> exactly when \<open>m\<close> is the first index at which the
  rounded product of the uniform draws is not above the threshold; the result fits an
  \<open>int\<close> and the state has moved one step per draw.  When none of the first \<open>2\<^sup>3\<^sup>1 - 1\<close>
  products is, the counter overflows and nothing is returned.
\<close>

theorem rng_poisson_returns:
  "(rng_poisson fl dbl exp_fl s lambda = None)
      = (\<forall>m < 2 ^ 31 - 1. draw_product fl dbl (Suc m) s > exp_fl (- lambda))
   \<and> (\<forall>m < 2 ^ 31 - 1. draw_product fl dbl (Suc m) s \<le> exp_fl (- lambda)
          \<and> (\<forall>j < m. draw_product fl dbl (Suc j) s > exp_fl (- lambda))
        \<longrightarrow> rng_poisson fl dbl exp_fl s lambda = Some (word_of_nat m, ((\<lambda>s. snd (rng_next s)) ^^ Suc m) s)
          \<and> sint (word_of_nat m :: i32) = int m)"
proof -
  define N :: nat where "N = 2 ^ 31 - 1"
  have N: "N < 2 ^ 31" "n + 1 < 2 ^ 31" if "n < N" for n using that by (simp_all add: N_def)
  let ?L = "exp_fl (- lambda)"
  let ?P = "\<lambda>m. draw_product fl dbl (Suc m) s \<le> ?L"
  have ends: "rng_poisson fl dbl exp_fl s lambda = Some (word_of_nat m, (next_state ^^ Suc m) s)"
    if "m < N" "?P m" "\<forall>j < m. draw_product fl dbl (Suc j) s > ?L" for m
  proof -
    have "m < 2 ^ 31" using N(2)[OF that(1)] by simp
    then have "rng_poisson fl dbl exp_fl s lambda = poisson_loop fl dbl ?L (draw_product fl dbl m s) (word_of_nat m) ((next_state ^^ m) s)"
      unfolding rng_poisson_def by (rule poisson_loop_runs[OF _ that(3)])
    also have "\<dots> = Some (word_of_nat m, (next_state ^^ Suc m) s)"
      unfolding poisson_loop_step[OF N(2)[OF that(1)]] using that(2) by (simp only: not_less[symmetric] if_False)
    finally show ?thesis .
  qed
  have none: "rng_poisson fl dbl exp_fl s lambda = None" if all: "\<forall>m < N. draw_product fl dbl (Suc m) s > ?L"
  proof -
    have "N < 2 ^ 31" by (simp add: N_def)
    from poisson_loop_runs[OF this all] show ?thesis
      unfolding rng_poisson_def unfolding N_def poisson_loop_overflow .
  qed
  have some: "rng_poisson fl dbl exp_fl s lambda \<noteq> None" if n: "n < N" "?P n" for n
  proof -
    define m where "m = (LEAST n. ?P n)"
    have "?P m" unfolding m_def by (rule LeastI) (rule n(2))
    moreover have "m \<le> n" unfolding m_def by (rule Least_le) (rule n(2))
    moreover have "\<forall>j < m. draw_product fl dbl (Suc j) s > ?L"
      unfolding m_def using not_less_Least[of _ ?P] by (simp only: not_le[symmetric]) blast
    ultimately show ?thesis using ends[of m] n(1) by simp
  qed
  have iff: "(rng_poisson fl dbl exp_fl s lambda = None) = (\<forall>m < N. draw_product fl dbl (Suc m) s > ?L)"
    using none some by (meson not_le)
  have fit: "sint (word_of_nat m :: i32) = int m" if "m < N" for m
  proof -
    have "int m < 2 ^ 31" using N(2)[OF that] by simp
    then show ?thesis using sint_of_int32[of "int m"] by simp
  qed
  show ?thesis
    unfolding N_def[symmetric] using iff ends fit by blast
qed

theorem rng_poisson_returns_witness:
  "rng_poisson (\<lambda>x. if \<bar>x\<bar> < 1 / 2 ^ 149 then 0 else x) (\<lambda>x. x) exp rand_state_zero 2
     = Some (word_of_nat 0, ((\<lambda>s. snd (rng_next s)) ^^ Suc 0) rand_state_zero)"
proof -
  have "draw_product (\<lambda>x. if \<bar>x\<bar> < 1 / 2 ^ 149 then 0 else x) (\<lambda>x. x) (Suc 0) rand_state_zero = 0"
    by (simp add: draw_def rng_uniform_fl_def rng_next_def rand_state_zero_def Let_def)
  then have "draw_product (\<lambda>x. if \<bar>x\<bar> < 1 / 2 ^ 149 then 0 else x) (\<lambda>x. x) (Suc 0) rand_state_zero \<le> exp (- 2)"
    by simp
  then show ?thesis
    using rng_poisson_returns[of "\<lambda>x. if \<bar>x\<bar> < 1 / 2 ^ 149 then 0 else x" "\<lambda>x. x" exp rand_state_zero 2,
        THEN conjunct2, rule_format, of 0] by simp
qed

end
