(* ===== verification/Index.thy ===== *)
theory Index
  imports Vec
begin

text \<open>
  The linear indices of \<open>src/utils/index.hpp\<close>: \<open>idx_base_t\<close>, the column-major
  \<open>idx_col_major_t\<close> (the default) and the row-major \<open>idx_row_major_t\<close>, with
  the free functions \<open>inc_x\<close>, \<open>dec_x\<close>, \<open>get_pos\<close> that the kernels use.  An
  index object is its \<open>linear\<close> member, an \<open>int64_t\<close>; the extent it refers to is
  an argument.  The locale \<open>index_scheme\<close> is the contract that the array and
  particle code relies on; both schemes are interpretations of it.
\<close>

subsection \<open>\<open>idx_base_t\<close>\<close>

definition idx_inc :: "i64 \<Rightarrow> i64" where
  "idx_inc lin = lin + 1"

definition idx_plus :: "i64 \<Rightarrow> i64 \<Rightarrow> i64" where
  "idx_plus lin x = lin + x"

definition idx_minus :: "i64 \<Rightarrow> i64 \<Rightarrow> i64" where
  "idx_minus lin x = lin - x"

text \<open>The difference of two indices is returned as an \<open>int\<close>.\<close>

definition idx_diff :: "i64 \<Rightarrow> i64 \<Rightarrow> i32" where
  "idx_diff lin x = scast (lin - x)"

definition idx_plus_u32 :: "i64 \<Rightarrow> u32 \<Rightarrow> i64" where
  "idx_plus_u32 lin x = lin + ucast x"

definition idx_eq :: "i64 \<Rightarrow> i64 \<Rightarrow> bool" where
  "idx_eq lin x = (lin = x)"

definition idx_ge :: "i64 \<Rightarrow> i64 \<Rightarrow> bool" where
  "idx_ge lin x = (sint lin \<ge> sint x)"

definition idx_less :: "i64 \<Rightarrow> i64 \<Rightarrow> bool" where
  "idx_less lin x = (sint lin < sint x)"

subsection \<open>Column-major\<close>

text \<open>
  \<open>pos.dot(ext.strides())\<close> on an \<open>index_t\<close>: the products are \<open>int64_t\<close>, but the
  accumulator has the element type \<open>int32_t\<close>.
\<close>

definition index_dot :: "index_t \<Rightarrow> i64 list \<Rightarrow> i32" where
  "index_dot pos st =
     foldl (\<lambda>result (p, s). scast ((scast result :: i64) + scast p * s)) 0 (zip pos st)"

definition col_to_linear :: "extent_t \<Rightarrow> index_t \<Rightarrow> i64" where
  "col_to_linear ext pos = scast (index_dot pos (strides ext))"

fun col_pos :: "extent_t \<Rightarrow> i64 \<Rightarrow> index_t" where
  "col_pos [] n = []"
| "col_pos (e # es) n = scast (c_rem n (ucast e)) # col_pos es (c_div n (ucast e))"

definition col_inc :: "extent_t \<Rightarrow> nat \<Rightarrow> i64 \<Rightarrow> i32 \<Rightarrow> i64" where
  "col_inc ext dir lin n = lin + scast n * (strides ext ! dir)"

definition col_dec :: "extent_t \<Rightarrow> nat \<Rightarrow> i64 \<Rightarrow> i32 \<Rightarrow> i64" where
  "col_dec ext dir lin n = lin - scast n * (strides ext ! dir)"

definition col_plus_pos :: "extent_t \<Rightarrow> i64 \<Rightarrow> index_t \<Rightarrow> i64" where
  "col_plus_pos ext lin pos = lin + scast (index_dot pos (strides ext))"

definition col_minus_pos :: "extent_t \<Rightarrow> i64 \<Rightarrow> index_t \<Rightarrow> i64" where
  "col_minus_pos ext lin pos = lin - scast (index_dot pos (strides ext))"

text \<open>
  The free functions used by the kernels.  In \<open>inc_z\<close> and \<open>dec_z\<close> the product
  \<open>ext[0] * ext[1]\<close> is taken in \<open>uint32_t\<close> before the conversion.
\<close>

definition inc_x :: "extent_t \<Rightarrow> i64 \<Rightarrow> i32 \<Rightarrow> i64" where
  "inc_x ext idx n = idx_plus idx (scast n)"

definition dec_x :: "extent_t \<Rightarrow> i64 \<Rightarrow> i32 \<Rightarrow> i64" where
  "dec_x ext idx n = idx_minus idx (scast n)"

definition inc_y :: "extent_t \<Rightarrow> i64 \<Rightarrow> i32 \<Rightarrow> i64" where
  "inc_y ext idx n = idx_plus idx (scast n * ucast (ext ! 0))"

definition dec_y :: "extent_t \<Rightarrow> i64 \<Rightarrow> i32 \<Rightarrow> i64" where
  "dec_y ext idx n = idx_minus idx (scast n * ucast (ext ! 0))"

definition inc_z :: "extent_t \<Rightarrow> i64 \<Rightarrow> i32 \<Rightarrow> i64" where
  "inc_z ext idx n = idx_plus idx (scast n * ucast (ext ! 0 * ext ! 1))"

definition dec_z :: "extent_t \<Rightarrow> i64 \<Rightarrow> i32 \<Rightarrow> i64" where
  "dec_z ext idx n = idx_minus idx (scast n * ucast (ext ! 0 * ext ! 1))"

text \<open>The specialisations of \<open>get_pos\<close> for rank 1 to 4.\<close>

definition col_get_pos1 :: "extent_t \<Rightarrow> i64 \<Rightarrow> index_t" where
  "col_get_pos1 ext lin = [scast lin]"

definition col_get_pos2 :: "extent_t \<Rightarrow> i64 \<Rightarrow> index_t" where
  "col_get_pos2 ext lin =
     (let tmp = c_div lin (ucast (ext ! 0))
      in [scast (lin - tmp * ucast (ext ! 0)), scast tmp])"

definition col_get_pos3 :: "extent_t \<Rightarrow> i64 \<Rightarrow> index_t" where
  "col_get_pos3 ext lin =
     (let tmp = c_div lin (ucast (ext ! 0));
          tmp2 = c_div tmp (ucast (ext ! 1))
      in [scast (lin - tmp * ucast (ext ! 0)), scast (tmp - tmp2 * ucast (ext ! 1)),
          scast tmp2])"

definition col_get_pos4 :: "extent_t \<Rightarrow> i64 \<Rightarrow> index_t" where
  "col_get_pos4 ext lin =
     (let tmp = c_div lin (ucast (ext ! 0));
          tmp2 = c_div tmp (ucast (ext ! 1));
          tmp3 = c_div tmp2 (ucast (ext ! 2))
      in [scast (lin - tmp * ucast (ext ! 0)), scast (tmp - tmp2 * ucast (ext ! 1)),
          scast (tmp2 - tmp3 * ucast (ext ! 2)), scast tmp3])"

text \<open>\<open>get_pos\<close> by rank: the generic template calls the member function.\<close>

definition get_pos :: "extent_t \<Rightarrow> i64 \<Rightarrow> index_t" where
  "get_pos ext lin =
     (if length ext = 1 then col_get_pos1 ext lin
      else if length ext = 2 then col_get_pos2 ext lin
      else if length ext = 3 then col_get_pos3 ext lin
      else if length ext = 4 then col_get_pos4 ext lin
      else col_pos ext lin)"

subsection \<open>Row-major\<close>

text \<open>Here the accumulator and the stride are both \<open>int64_t\<close>.\<close>

fun row_loop :: "i64 \<Rightarrow> i64 \<Rightarrow> extent_t \<Rightarrow> index_t \<Rightarrow> i64" where
  "row_loop result stride (e # es) (p # ps) =
     row_loop (result + scast p * stride) (stride * ucast e) es ps"
| "row_loop result stride _ _ = result"

text \<open>The loops run from the last component to the first, so over the reversed lists.\<close>

definition row_to_linear :: "extent_t \<Rightarrow> index_t \<Rightarrow> i64" where
  "row_to_linear ext pos =
     (case (rev ext, rev pos) of
        (e # es, p # ps) \<Rightarrow> row_loop (scast p) (ucast e) es ps
      | _ \<Rightarrow> 0)"

definition row_pos :: "extent_t \<Rightarrow> i64 \<Rightarrow> index_t" where
  "row_pos ext lin = rev (col_pos (rev ext) lin)"

definition row_stride :: "extent_t \<Rightarrow> nat \<Rightarrow> i64" where
  "row_stride ext dir = foldl (\<lambda>stride e. stride * ucast e) 1 (rev (drop (Suc dir) ext))"

definition row_inc :: "extent_t \<Rightarrow> nat \<Rightarrow> i64 \<Rightarrow> i32 \<Rightarrow> i64" where
  "row_inc ext dir lin n = lin + scast n * row_stride ext dir"

definition row_dec :: "extent_t \<Rightarrow> nat \<Rightarrow> i64 \<Rightarrow> i32 \<Rightarrow> i64" where
  "row_dec ext dir lin n = lin - scast n * row_stride ext dir"

definition row_get_pos1 :: "extent_t \<Rightarrow> i64 \<Rightarrow> index_t" where
  "row_get_pos1 ext lin = [scast lin]"

definition row_get_pos2 :: "extent_t \<Rightarrow> i64 \<Rightarrow> index_t" where
  "row_get_pos2 ext lin =
     [scast (c_div lin (ucast (ext ! 0))), scast (c_rem lin (ucast (ext ! 0)))]"

definition row_get_pos3 :: "extent_t \<Rightarrow> i64 \<Rightarrow> index_t" where
  "row_get_pos3 ext lin =
     [scast (c_div lin (ucast (ext ! 0 * ext ! 1))),
      scast (c_rem (c_div lin (ucast (ext ! 0))) (ucast (ext ! 1))),
      scast (c_rem lin (ucast (ext ! 0)))]"

definition row_get_pos4 :: "extent_t \<Rightarrow> i64 \<Rightarrow> index_t" where
  "row_get_pos4 ext lin =
     [scast (c_div lin (ucast (ext ! 0 * ext ! 1 * ext ! 2))),
      scast (c_rem (c_div lin (ucast (ext ! 0 * ext ! 1))) (ucast (ext ! 2))),
      scast (c_rem (c_div lin (ucast (ext ! 0))) (ucast (ext ! 1))),
      scast (c_rem lin (ucast (ext ! 0)))]"


subsection \<open>The mathematical offset\<close>

fun offset :: "extent_t \<Rightarrow> index_t \<Rightarrow> int" where
  "offset (e # es) (p # ps) = sint p + uint e * offset es ps"
| "offset _ _ = 0"

text \<open>A position inside an extent.\<close>

fun in_extent :: "extent_t \<Rightarrow> index_t \<Rightarrow> bool" where
  "in_extent [] [] = True"
| "in_extent (e # es) (p # ps) = (0 \<le> sint p \<and> sint p < uint e \<and> in_extent es ps)"
| "in_extent _ _ = False"

lemma in_extent_length: "in_extent ext pos \<Longrightarrow> length pos = length ext"
  by (induction ext pos rule: in_extent.induct) auto

lemma in_extent_volume: "in_extent ext pos \<Longrightarrow> 0 < volume ext"
proof (induction ext pos rule: in_extent.induct)
  case (2 e es p ps)
  then have "0 < uint e" "0 < volume es" by auto
  then show ?case by simp
qed simp_all

lemma offset_bounds:
  "in_extent ext pos \<Longrightarrow> 0 \<le> offset ext pos \<and> offset ext pos < volume ext"
proof (induction ext pos rule: in_extent.induct)
  case (2 e es p ps)
  then have IH: "0 \<le> offset es ps" "offset es ps + 1 \<le> volume es"
    and p: "0 \<le> sint p" "sint p < uint e" by auto
  have "uint e * (offset es ps + 1) \<le> uint e * volume es"
    using IH(2) by (intro mult_left_mono) simp_all
  then have "sint p + uint e * offset es ps < uint e * volume es"
    using p by (simp add: algebra_simps)
  with IH p show ?case by simp
qed simp_all

lemma offset_nonneg: "in_extent ext pos \<Longrightarrow> 0 \<le> offset ext pos"
  by (simp add: offset_bounds)

lemma offset_less: "in_extent ext pos \<Longrightarrow> offset ext pos < volume ext"
  by (simp add: offset_bounds)

subsection \<open>Column-major indices compute the offset\<close>

lemma index_dot_from:
  "length pos = length ext \<Longrightarrow>
   foldl (\<lambda>result (p, s). scast ((scast result :: i64) + scast p * s)) (r :: i32) (zip pos (strides_from s ext))
     = r + ucast s * word_of_int (offset ext pos)"
proof (induction pos ext arbitrary: r s rule: list_induct2)
  case (Cons p ps e es)
  let ?f = "\<lambda>result (p, s). scast ((scast result :: i64) + scast p * s) :: i32"
  have "scast ((scast r :: i64) + scast p * s) = (r + p * ucast s :: i32)"
    by (simp add: scast_down_eq ucast_down_add ucast_down_mult)
  then have "foldl ?f r (zip (p # ps) (strides_from s (e # es)))
      = foldl ?f (r + p * ucast s) (zip ps (strides_from (s * ucast e) es))"
    by simp
  also have "\<dots> = r + p * ucast s + ucast (s * ucast e) * word_of_int (offset es ps)"
    by (rule Cons.IH)
  also have "\<dots> = r + ucast s * word_of_int (offset (e # es) (p # ps))"
    by (simp add: ucast_down_mult algebra_simps)
  finally show ?case .
qed simp

lemma index_dot_eq:
  "length pos = length ext \<Longrightarrow> index_dot pos (strides ext) = word_of_int (offset ext pos)"
  by (simp add: index_dot_def strides_def index_dot_from)

lemma col_to_linear_offset:
  assumes "in_extent ext pos" "volume ext \<le> 2 ^ 31"
  shows "sint (col_to_linear ext pos) = offset ext pos"
proof -
  have "- (2 ^ 31) \<le> offset ext pos"
    by (rule order.trans[OF _ offset_nonneg[OF assms(1)]]) simp
  moreover have "offset ext pos < 2 ^ 31"
    using offset_less[OF assms(1)] assms(2) by linarith
  ultimately have "sint (word_of_int (offset ext pos) :: i32) = offset ext pos"
    by (rule sint_of_int32)
  then show ?thesis
    by (simp add: col_to_linear_def index_dot_eq in_extent_length[OF assms(1)])
qed


lemma sint_scast_down:
  assumes "0 \<le> sint (w :: i64)" "sint w < 2 ^ 31"
  shows "sint (scast w :: i32) = sint w"
proof -
  have "scast w = (word_of_int (sint w) :: i32)" by simp
  moreover have "- (2 ^ 31) \<le> sint w" by (rule order.trans[OF _ assms(1)]) simp
  ultimately show ?thesis using sint_of_int32 assms(2) by metis
qed

lemma sint_c_rem_ucast:
  "0 \<le> sint n \<Longrightarrow> 0 < uint e \<Longrightarrow> sint (c_rem n (ucast (e :: u32))) = sint n mod uint e"
  by (subst sint_c_rem) simp_all

lemma sint_c_div_ucast:
  "0 \<le> sint n \<Longrightarrow> 0 < uint e \<Longrightarrow> sint (c_div n (ucast (e :: u32))) = sint n div uint e"
  by (subst sint_c_div) simp_all

lemma div_volume_bounds:
  assumes "0 \<le> k" "k < e * v" "0 < e"
  shows "0 \<le> k div e" "k div e < (v::int)"
proof -
  show "0 \<le> k div e" using pos_imp_zdiv_nonneg_iff[OF assms(3)] assms(1) by blast
  show "k div e < v"
  proof (rule ccontr)
    assume "\<not> k div e < v"
    then have "e * v \<le> e * (k div e)" using assms(3) by (intro mult_left_mono) simp_all
    also have "\<dots> \<le> k" using pos_mod_sign[OF assms(3), of k] mult_div_mod_eq[of e k] by linarith
    finally show False using assms(2) by simp
  qed
qed

lemma col_pos_in_extent:
  "0 \<le> sint n \<Longrightarrow> sint n < volume ext \<Longrightarrow> \<forall>e \<in> set ext. uint e \<le> 2 ^ 31 \<Longrightarrow>
   in_extent ext (col_pos ext n) \<and> offset ext (col_pos ext n) = sint n"
proof (induction ext arbitrary: n)
  case (Cons e es)
  from Cons.prems have "0 < uint e * volume es" by simp
  then have e: "0 < uint e" using volume_nonneg[of es] uint_ge_0[of e] 
    by (metis less_le mult_zero_left)
  have rem: "sint (c_rem n (ucast e)) = sint n mod uint e"
    and quo: "sint (c_div n (ucast e)) = sint n div uint e"
    using sint_c_rem_ucast sint_c_div_ucast Cons.prems(1) e by blast+
  have b: "0 \<le> sint n mod uint e" "sint n mod uint e < uint e" using e by simp_all
  have "sint (scast (c_rem n (ucast e)) :: i32) = sint n mod uint e"
    using sint_scast_down[of "c_rem n (ucast e)"] b Cons.prems(3) rem by force
  moreover have "in_extent es (col_pos es (c_div n (ucast e)))
      \<and> offset es (col_pos es (c_div n (ucast e))) = sint n div uint e"
    using Cons.IH[of "c_div n (ucast e)"] div_volume_bounds[of "sint n" "uint e" "volume es"]
      Cons.prems quo e by simp
  ultimately show ?case using b by simp
qed simp

lemma offset_inj:
  "in_extent ext p \<Longrightarrow> in_extent ext q \<Longrightarrow> offset ext p = offset ext q \<Longrightarrow> p = q"
proof (induction ext p arbitrary: q rule: in_extent.induct)
  case (2 e es p ps)
  then obtain q' qs where q: "q = q' # qs" by (cases q) auto
  have "(sint p + uint e * offset es ps) mod uint e = (sint q' + uint e * offset es qs) mod uint e"
    using "2.prems"(3) by (simp add: q)
  then have "sint p = sint q'" using "2.prems"(1,2) by (simp add: q)
  moreover then have "offset es ps = offset es qs" using "2.prems" by (auto simp: q)
  moreover have "p = q'" by (metis word_of_sint \<open>sint p = sint q'\<close>)
  ultimately show ?case using "2.IH"[of qs] "2.prems" by (simp add: q)
next
  case 1 then show ?case by (cases q) simp_all
qed simp_all


text \<open>
  Extents whose positions fit an \<open>int32_t\<close> index and whose offsets fit the
  \<open>int32_t\<close> accumulator of the column-major scheme.
\<close>

definition good_extent :: "extent_t \<Rightarrow> bool" where
  "good_extent ext = (0 < volume ext \<and> volume ext \<le> 2 ^ 31)"

lemma component_le_volume: "0 < volume ext \<Longrightarrow> e \<in> set ext \<Longrightarrow> uint e \<le> volume ext"
proof (induction ext)
  case (Cons a es)
  have a: "1 \<le> uint a" and es: "1 \<le> volume es"
    using Cons.prems(1) volume_nonneg[of es] uint_ge_0[of a]
    by (auto simp: zero_less_mult_iff)
  show ?case
  proof (cases "e = a")
    case True
    then show ?thesis using mult_left_mono[OF es, of "uint a"] by simp
  next
    case False
    then have "uint e \<le> volume es" using Cons es by simp
    also have "\<dots> \<le> uint a * volume es" using mult_right_mono[OF a, of "volume es"] by simp
    finally show ?thesis by simp
  qed
qed simp

lemma good_extent_components: "good_extent ext \<Longrightarrow> \<forall>e \<in> set ext. uint e \<le> 2 ^ 31"
  using component_le_volume[of ext] by (force simp: good_extent_def)

subsection \<open>The contract of an indexing scheme\<close>

text \<open>
  What the arrays, the grid and the particle code rely on: inside a good extent
  a scheme numbers the positions \<open>0, \<dots>, volume - 1\<close> without collision, and the
  position can be recovered from the number.
\<close>

locale index_scheme =
  fixes to_lin :: "extent_t \<Rightarrow> index_t \<Rightarrow> i64"
    and pos_of :: "extent_t \<Rightarrow> i64 \<Rightarrow> index_t"
    and good :: "extent_t \<Rightarrow> bool"
  assumes lin_bounds: "good ext \<Longrightarrow> in_extent ext p \<Longrightarrow>
      0 \<le> sint (to_lin ext p) \<and> sint (to_lin ext p) < volume ext"
    and pos_lin: "good ext \<Longrightarrow> in_extent ext p \<Longrightarrow> pos_of ext (to_lin ext p) = p"
    and lin_pos: "good ext \<Longrightarrow> 0 \<le> sint n \<Longrightarrow> sint n < volume ext \<Longrightarrow>
      in_extent ext (pos_of ext n) \<and> to_lin ext (pos_of ext n) = n"
begin

lemma lin_inj:
  "good ext \<Longrightarrow> in_extent ext p \<Longrightarrow> in_extent ext q \<Longrightarrow> to_lin ext p = to_lin ext q \<Longrightarrow> p = q"
  using pos_lin by metis

lemma lin_eq_iff:
  "good ext \<Longrightarrow> in_extent ext p \<Longrightarrow> in_extent ext q \<Longrightarrow> to_lin ext p = to_lin ext q \<longleftrightarrow> p = q"
  using lin_inj by blast

lemma cell_less: "good ext \<Longrightarrow> in_extent ext p \<Longrightarrow> nat (sint (to_lin ext p)) < nat (volume ext)"
  using lin_bounds by fastforce

lemma cell_eq_iff:
  assumes "good ext" "in_extent ext p" "in_extent ext q"
  shows "nat (sint (to_lin ext p)) = nat (sint (to_lin ext q)) \<longleftrightarrow> p = q"
proof
  assume "nat (sint (to_lin ext p)) = nat (sint (to_lin ext q))"
  then have "sint (to_lin ext p) = sint (to_lin ext q)"
    using lin_bounds assms by (simp add: eq_nat_nat_iff)
  then have "to_lin ext p = to_lin ext q" by (metis word_of_sint)
  then show "p = q" using lin_inj assms by blast
qed simp

lemma lin_surj:
  assumes "good ext" "k < nat (volume ext)" "volume ext \<le> 2 ^ 63"
  shows "\<exists>p. in_extent ext p \<and> nat (sint (to_lin ext p)) = k"
proof -
  have k: "sint (word_of_int (int k) :: i64) = int k"
    using assms by (intro sint_of_int64) auto
  then show ?thesis using lin_pos[OF assms(1), of "word_of_int (int k)"] assms(2)
    by (metis nat_int of_nat_0_le_iff zless_nat_eq_int_zless)
qed

lemma bij_cells:
  assumes "good ext" "volume ext \<le> 2 ^ 63"
  shows "bij_betw (\<lambda>p. nat (sint (to_lin ext p))) {p. in_extent ext p} {..<nat (volume ext)}"
proof (rule bij_betw_imageI)
  show "inj_on (\<lambda>p. nat (sint (to_lin ext p))) {p. in_extent ext p}"
    using cell_eq_iff[OF assms(1)] by (auto simp: inj_on_def)
  show "(\<lambda>p. nat (sint (to_lin ext p))) ` {p. in_extent ext p} = {..<nat (volume ext)}"
    using cell_less[OF assms(1)] lin_surj[OF assms(1) _ assms(2)] by (fastforce simp: image_iff)
qed

end

subsection \<open>The column-major scheme\<close>

lemma col_lin_pos:
  assumes "good_extent ext" "0 \<le> sint n" "sint n < volume ext"
  shows "in_extent ext (col_pos ext n) \<and> col_to_linear ext (col_pos ext n) = n"
proof -
  have p: "in_extent ext (col_pos ext n)" "offset ext (col_pos ext n) = sint n"
    using col_pos_in_extent[of n ext] assms good_extent_components by simp_all
  then have "sint (col_to_linear ext (col_pos ext n)) = sint n"
    using col_to_linear_offset assms(1) by (simp add: good_extent_def)
  then show ?thesis using p(1) by (metis word_of_sint)
qed

lemma col_bounds:
  "good_extent ext \<Longrightarrow> in_extent ext p \<Longrightarrow>
   0 \<le> sint (col_to_linear ext p) \<and> sint (col_to_linear ext p) < volume ext"
  using col_to_linear_offset[of ext p] offset_bounds[of ext p] by (simp add: good_extent_def)

lemma col_pos_lin:
  assumes "good_extent ext" "in_extent ext p"
  shows "col_pos ext (col_to_linear ext p) = p"
proof -
  have "sint (col_to_linear ext p) = offset ext p"
    using col_to_linear_offset assms by (simp add: good_extent_def)
  then show ?thesis
    using col_pos_in_extent[of "col_to_linear ext p" ext] col_bounds[OF assms]
      good_extent_components[OF assms(1)] offset_inj assms(2) by metis
qed

interpretation col: index_scheme col_to_linear col_pos good_extent
  by unfold_locales (use col_bounds col_pos_lin col_lin_pos in blast)+


subsection \<open>The specialised \<open>get_pos\<close>\<close>

lemma c_rem_eq: "c_rem a b = a - c_div a b * b"
proof -
  have "c_div a b * b = word_of_int ((sint a sdiv sint b) * sint b)"
    by (simp add: c_div_def)
  then have "a - c_div a b * b = word_of_int (sint a - (sint a sdiv sint b) * sint b)"
    by simp
  then show ?thesis by (simp add: c_rem_def minus_sdiv_mult_eq_smod)
qed

lemma c_rem_self:
  assumes "0 \<le> sint n" "sint n < uint (e :: u32)"
  shows "c_rem n (ucast e) = n"
proof -
  have "0 < uint e" using assms by linarith
  then have "sint (c_rem n (ucast e)) = sint n"
    using sint_c_rem_ucast assms by simp
  then show ?thesis by (metis word_of_sint)
qed

lemma c_div_range:
  assumes "0 \<le> sint n" "sint n < uint e * v" "0 \<le> v"
  shows "0 \<le> sint (c_div n (ucast (e :: u32)))" "sint (c_div n (ucast e)) < v"
proof -
  have "0 < uint e" using assms uint_ge_0[of e] by (metis less_le mult_zero_left not_le)
  then show "0 \<le> sint (c_div n (ucast e))" "sint (c_div n (ucast e)) < v"
    using sint_c_div_ucast div_volume_bounds assms by simp_all
qed

lemma length_cases4:
  "length ext = 1 \<Longrightarrow> \<exists>a. ext = [a]"
  "length ext = 2 \<Longrightarrow> \<exists>a b. ext = [a, b]"
  "length ext = 3 \<Longrightarrow> \<exists>a b c. ext = [a, b, c]"
  "length ext = 4 \<Longrightarrow> \<exists>a b c d. ext = [a, b, c, d]"
  by (auto simp: length_Suc_conv numeral_eq_Suc)

lemma get_pos_col_pos:
  assumes "0 \<le> sint n" "sint n < volume ext"
  shows "get_pos ext n = col_pos ext n"
proof -
  note fold_rem = c_rem_eq[symmetric]
  consider a where "ext = [a]" | a b where "ext = [a, b]" | a b c where "ext = [a, b, c]"
    | a b c d where "ext = [a, b, c, d]"
    | "length ext \<noteq> 1" "length ext \<noteq> 2" "length ext \<noteq> 3" "length ext \<noteq> 4"
    using length_cases4[of ext] by metis
  then show ?thesis
  proof cases
    case (1 a)
    then show ?thesis using assms by (simp add: get_pos_def col_get_pos1_def c_rem_self)
  next
    case (2 a b)
    then show ?thesis
      using assms c_div_range[of n a "uint b"]
      by (simp add: get_pos_def col_get_pos2_def Let_def fold_rem c_rem_self)
  next
    case (3 a b c)
    then show ?thesis
      using assms c_div_range[of n a "uint b * uint c"]
        c_div_range[of "c_div n (ucast a)" b "uint c"]
      by (simp add: get_pos_def col_get_pos3_def Let_def fold_rem c_rem_self)
  next
    case (4 a b c d)
    then show ?thesis
      using assms c_div_range[of n a "uint b * (uint c * uint d)"]
        c_div_range[of "c_div n (ucast a)" b "uint c * uint d"]
        c_div_range[of "c_div (c_div n (ucast a)) (ucast b)" c "uint d"]
      by (simp add: get_pos_def col_get_pos4_def Let_def fold_rem c_rem_self)
  next
    case 5
    then show ?thesis by (simp add: get_pos_def)
  qed
qed

interpretation colg: index_scheme col_to_linear get_pos good_extent
proof unfold_locales
  fix ext p
  assume "good_extent ext" "in_extent ext p"
  then show "0 \<le> sint (col_to_linear ext p) \<and> sint (col_to_linear ext p) < volume ext"
    and "get_pos ext (col_to_linear ext p) = p"
    using col_bounds col_pos_lin get_pos_col_pos by simp_all
next
  fix ext and n :: i64
  assume "good_extent ext" "0 \<le> sint n" "sint n < volume ext"
  then show "in_extent ext (get_pos ext n) \<and> col_to_linear ext (get_pos ext n) = n"
    using col_lin_pos get_pos_col_pos by simp
qed

subsection \<open>Moving an index\<close>

lemma offset_update:
  "length pos = length ext \<Longrightarrow> d < length ext \<Longrightarrow>
   offset ext (pos[d := q]) = offset ext pos + (sint q - sint (pos ! d)) * volume (take d ext)"
proof (induction pos ext arbitrary: d rule: list_induct2)
  case (Cons p ps e es)
  show ?case
  proof (cases d)
    case 0
    then show ?thesis by simp
  next
    case (Suc k)
    then have "offset es (ps[k := q]) = offset es ps + (sint q - sint (ps ! k)) * volume (take k es)"
      using Cons by simp
    then show ?thesis by (simp add: Suc distrib_left)
  qed
qed simp

lemma sint_add_nonneg:
  assumes "0 \<le> sint (a :: i32)" "0 \<le> sint (a + n)"
  shows "sint (a + n) = sint a + sint n"
proof -
  have eq: "a + n = word_of_int (sint a + sint n)" by simp
  have b: "- (2 ^ 31) \<le> sint a + sint n" using assms(1) sint32_ge[of n] by linarith
  show ?thesis
  proof (cases "sint a + sint n < 2 ^ 31")
    case True
    then show ?thesis using sint_of_int32[OF b True] eq by metis
  next
    case False
    then have "sint (word_of_int (sint a + sint n - 2 ^ 32) :: i32) = sint a + sint n - 2 ^ 32"
      using sint32_lt[of a] sint32_lt[of n] by (intro sint_of_int32) auto
    moreover have "word_of_int (sint a + sint n - 2 ^ 32) = a + n"
      by (simp add: word_of_int_eq_0_iff)
    ultimately have "sint (a + n) = sint a + sint n - 2 ^ 32" by metis
    then show ?thesis using assms sint32_lt[of a] sint32_lt[of n] by auto
  qed
qed

lemma in_extent_nth:
  "in_extent ext pos \<Longrightarrow> d < length ext \<Longrightarrow> 0 \<le> sint (pos ! d) \<and> sint (pos ! d) < uint (ext ! d)"
proof (induction ext pos arbitrary: d rule: in_extent.induct)
  case (2 e es p ps)
  then show ?case by (cases d) simp_all
qed simp_all

lemma col_to_linear_woi:
  assumes "good_extent ext" "in_extent ext p"
  shows "col_to_linear ext p = word_of_int (offset ext p)"
proof -
  have "sint (col_to_linear ext p) = offset ext p"
    using col_to_linear_offset assms by (simp add: good_extent_def)
  then show ?thesis by (metis word_of_sint)
qed

lemma col_inc_moves:
  assumes "good_extent ext" "d < length ext" "in_extent ext p" "in_extent ext (index_inc d p n)"
  shows "col_inc ext d (col_to_linear ext p) n = col_to_linear ext (index_inc d p n)"
proof -
  have len: "length p = length ext" by (rule in_extent_length[OF assms(3)])
  have nn: "0 \<le> sint (p ! d)" "0 \<le> sint (p ! d + n)"
    using in_extent_nth[OF assms(3,2)] in_extent_nth[OF assms(4,2)] len assms(2)
    by (simp_all add: index_inc_def)
  have "offset ext (index_inc d p n) = offset ext p + sint n * volume (take d ext)"
    using offset_update[OF len assms(2)] sint_add_nonneg[OF nn] by (simp add: index_inc_def)
  then show ?thesis
    using assms by (simp add: col_to_linear_woi col_inc_def strides_nth)
qed


lemma good_extent_length_pos: "ext ! 0 \<in> set ext" if "ext \<noteq> []"
  using that by (cases ext) simp_all

lemma col_dec_inc: "col_dec ext d n k = col_inc ext d n (- k)" if "k \<noteq> - (2 ^ 31)"
proof -
  have "scast (- k) = - (scast k :: i64)"
  proof -
    have "sint k \<noteq> - (2 ^ 31)"
      using that by (metis word_of_sint of_int_minus of_int_numeral of_int_power)
    then have "- (2 ^ 31) \<le> - sint k" "- sint k < 2 ^ 31"
      using sint32_ge[of k] sint32_lt[of k] by auto
    then have "sint (word_of_int (- sint k) :: i32) = - sint k" by (rule sint_of_int32)
    then have "sint (- k) = - sint k" by simp
    then show ?thesis by (metis of_int_minus of_int_sint)
  qed
  then show ?thesis by (simp add: col_dec_def col_inc_def)
qed

text \<open>
  The free functions agree with the members.  For \<open>inc_z\<close> this needs the
  \<open>uint32_t\<close> product \<open>ext[0] * ext[1]\<close> not to wrap.
\<close>

lemma inc_x_col: "ext \<noteq> [] \<Longrightarrow> inc_x ext n k = col_inc ext 0 n k"
  by (simp add: inc_x_def col_inc_def idx_plus_def strides_nth)

lemma inc_y_col: "2 \<le> length ext \<Longrightarrow> inc_y ext n k = col_inc ext 1 n k"
proof -
  assume "2 \<le> length ext"
  then obtain a b es where "ext = a # b # es"
    by (metis Suc_le_length_iff numeral_2_eq_2)
  then show ?thesis
    by (simp add: inc_y_def col_inc_def idx_plus_def strides_nth)
qed

lemma ucast_mult_up:
  assumes "uint (a :: u32) * uint b < 2 ^ 32"
  shows "(ucast (a * b) :: i64) = ucast a * ucast b"
proof -
  have "uint (word_of_int (uint a * uint b) :: u32) = uint a * uint b"
    using assms by (intro uint_of_int32) simp_all
  then have "uint (a * b) = uint a * uint b" by simp
  then have "(word_of_int (uint (a * b)) :: i64) = word_of_int (uint a * uint b)" by (rule arg_cong)
  then show ?thesis by simp
qed

lemma inc_z_col:
  assumes "3 \<le> length ext" "uint (ext ! 0) * uint (ext ! 1) < 2 ^ 32"
  shows "inc_z ext n k = col_inc ext 2 n k"
proof -
  obtain a b c es where ext: "ext = a # b # c # es"
    using assms(1) by (metis Suc_le_length_iff numeral_3_eq_3)
  have "strides ext ! 2 = ucast a * ucast b"
    by (subst strides_nth) (simp_all add: ext numeral_2_eq_2)
  with assms(2) show ?thesis
    by (simp add: inc_z_def col_inc_def idx_plus_def ucast_mult_up) (simp add: ext)
qed

lemma good_extent_xy:
  assumes "good_extent ext" "3 \<le> length ext"
  shows "uint (ext ! 0) * uint (ext ! 1) < 2 ^ 32"
proof -
  obtain a b c es where ext: "ext = a # b # c # es"
    using assms(2) by (metis Suc_le_length_iff numeral_3_eq_3)
  let ?w = "uint c * volume es"
  have "0 \<le> ?w" by simp
  moreover have "?w \<noteq> 0" using assms(1) by (auto simp: good_extent_def ext)
  ultimately have "1 \<le> ?w" by linarith
  then have "uint a * uint b * 1 \<le> uint a * uint b * ?w" by (intro mult_left_mono) simp_all
  then show ?thesis using assms(1) by (simp add: good_extent_def ext mult.assoc)
qed

subsection \<open>The row-major scheme\<close>

lemma row_loop_eq:
  "length pos = length ext \<Longrightarrow> row_loop r s ext pos = r + s * word_of_int (offset ext pos)"
  by (induction pos ext arbitrary: r s rule: list_induct2)
     (simp_all add: algebra_simps)

lemma row_to_linear_eq:
  assumes "length pos = length ext"
  shows "row_to_linear ext pos = word_of_int (offset (rev ext) (rev pos))"
proof -
  have len: "length (rev pos) = length (rev ext)" using assms by simp
  show ?thesis
  proof (cases "rev ext")
    case Nil
    then show ?thesis using len by (simp add: row_to_linear_def)
  next
    case (Cons e es)
    then obtain p ps where "rev pos = p # ps" using len by (cases "rev pos") auto
    then show ?thesis using Cons len by (simp add: row_to_linear_def row_loop_eq)
  qed
qed

lemma in_extent_append:
  "length xs = length ps \<Longrightarrow>
   in_extent (xs @ ys) (ps @ qs) = (in_extent xs ps \<and> in_extent ys qs)"
  by (induction xs ps rule: list_induct2) auto

lemma in_extent_rev: "in_extent ext pos \<Longrightarrow> in_extent (rev ext) (rev pos)"
  by (induction ext pos rule: in_extent.induct) (auto simp: in_extent_append in_extent_length)

lemma volume_rev [simp]: "volume (rev ext) = volume ext"
  by (simp add: volume_def rev_map[symmetric])

text \<open>Here the offset only has to fit an \<open>int64_t\<close>.\<close>

definition row_extent :: "extent_t \<Rightarrow> bool" where
  "row_extent ext = (volume ext < 2 ^ 63 \<and> (\<forall>e \<in> set ext. uint e \<le> 2 ^ 31))"

lemma sint_row_to_linear:
  assumes "row_extent ext" "in_extent ext pos"
  shows "sint (row_to_linear ext pos) = offset (rev ext) (rev pos)"
proof -
  note b = offset_bounds[OF in_extent_rev[OF assms(2)]]
  have "- (2 ^ 63) \<le> offset (rev ext) (rev pos)"
    by (rule order.trans[OF _ conjunct1[OF b]]) simp
  moreover have "offset (rev ext) (rev pos) < 2 ^ 63"
    using b assms(1) by (auto simp: row_extent_def)
  ultimately show ?thesis
    using sint_of_int64 by (simp only: row_to_linear_eq[OF in_extent_length[OF assms(2)]])
qed

lemma row_pos_offset:
  assumes "row_extent ext" "0 \<le> sint n" "sint n < volume ext"
  shows "in_extent ext (row_pos ext n)" "offset (rev ext) (rev (row_pos ext n)) = sint n"
proof -
  have "in_extent (rev ext) (col_pos (rev ext) n)" "offset (rev ext) (col_pos (rev ext) n) = sint n"
    using col_pos_in_extent[of n "rev ext"] assms by (simp_all add: row_extent_def)
  then show "in_extent ext (row_pos ext n)" "offset (rev ext) (rev (row_pos ext n)) = sint n"
    using in_extent_rev[of "rev ext"] by (simp_all add: row_pos_def)
qed

interpretation row: index_scheme row_to_linear row_pos row_extent
proof unfold_locales
  fix ext p
  assume a: "row_extent ext" "in_extent ext p"
  have eq: "sint (row_to_linear ext p) = offset (rev ext) (rev p)"
    using sint_row_to_linear a by blast
  show b: "0 \<le> sint (row_to_linear ext p) \<and> sint (row_to_linear ext p) < volume ext"
    using offset_bounds[OF in_extent_rev[OF a(2)]] eq by simp
  have "in_extent ext (row_pos ext (row_to_linear ext p))"
    and "offset (rev ext) (rev (row_pos ext (row_to_linear ext p))) = offset (rev ext) (rev p)"
    using row_pos_offset[OF a(1), of "row_to_linear ext p"] b eq by auto
  then have "rev (row_pos ext (row_to_linear ext p)) = rev p"
    using offset_inj in_extent_rev a(2) by blast
  then show "row_pos ext (row_to_linear ext p) = p" by simp
next
  fix ext and n :: i64
  assume a: "row_extent ext" "0 \<le> sint n" "sint n < volume ext"
  have "sint (row_to_linear ext (row_pos ext n)) = sint n"
    using sint_row_to_linear[OF a(1)] row_pos_offset[OF a] by simp
  then show "in_extent ext (row_pos ext n) \<and> row_to_linear ext (row_pos ext n) = n"
    using row_pos_offset(1)[OF a] by (metis word_of_sint)
qed


lemma row_get_pos2_swapped:
  assumes "0 \<le> sint n" "sint n < uint a * uint b"
  shows "row_get_pos2 [a, b] n = row_pos [b, a] n"
proof -
  have "0 \<le> sint (c_div n (ucast a))" "sint (c_div n (ucast a)) < uint b"
    using c_div_range[of n a "uint b"] assms by simp_all
  then show ?thesis by (simp add: row_get_pos2_def row_pos_def c_rem_self)
qed

subsection \<open>Properties\<close>

text \<open>
  C27.  Inside a good extent the column-major index of a position is decoded by
  the specialised \<open>get_pos\<close> back to that position, and the index lies
  between 0 and the number of cells.
\<close>

theorem col_roundtrip:
  assumes "good_extent ext" "in_extent ext p"
  shows "get_pos ext (col_to_linear ext p) = p
    \<and> 0 \<le> sint (col_to_linear ext p) \<and> sint (col_to_linear ext p) < volume ext"
  using colg.pos_lin[OF assms] colg.lin_bounds[OF assms] by simp

theorem col_roundtrip_witness:
  "get_pos [4, 3, 5] (col_to_linear [4, 3, 5] [3, 2, 4]) = [3, 2, 4]"
  using col_roundtrip[of "[4, 3, 5]" "[3, 2, 4]"] by (simp add: good_extent_def)

text \<open>
  C29.  The column-major scheme numbers the cells of a good extent without gaps
  or collisions: it is a bijection from the positions onto \<open>0, \<dots>, volume - 1\<close>.
\<close>

theorem col_numbers_cells:
  assumes "good_extent ext"
  shows "bij_betw (\<lambda>p. nat (sint (col_to_linear ext p))) {p. in_extent ext p} {..<nat (volume ext)}"
proof -
  have "volume ext \<le> 2 ^ 63" using assms by (simp add: good_extent_def)
  then show ?thesis by (rule colg.bij_cells[OF assms])
qed

theorem col_numbers_cells_witness:
  "bij_betw (\<lambda>p. nat (sint (col_to_linear [4, 3] p))) {p. in_extent [4, 3] p} {..<12}"
  using col_numbers_cells[of "[4, 3]"] by (simp add: good_extent_def)

text \<open>
  The division-only \<open>get_pos\<close> of ranks 1 to 4 computes the same position as
  the generic \<open>pos\<close> loop for every index inside the array.
\<close>

theorem get_pos_agrees:
  assumes "0 \<le> sint n" "sint n < volume ext"
  shows "get_pos ext n = col_pos ext n"
  using get_pos_col_pos[OF assms] .

theorem get_pos_agrees_witness: "get_pos [4, 3, 5] 57 = col_pos [4, 3, 5] 57"
  using get_pos_agrees[of 57 "[4, 3, 5]"] by simp

text \<open>
  Moving an index by \<open>n\<close> cells along axis \<open>d\<close> with \<open>inc<d>\<close> is the index of the
  position moved by \<open>n\<close>; in three dimensions the free \<open>inc_z\<close> does the same.
\<close>

theorem inc_moves:
  assumes "good_extent ext" "d < length ext" "in_extent ext p" "in_extent ext (index_inc d p n)"
  shows "col_inc ext d (col_to_linear ext p) n = col_to_linear ext (index_inc d p n)
    \<and> (d = 2 \<longrightarrow> inc_z ext (col_to_linear ext p) n = col_to_linear ext (index_inc d p n))"
proof -
  have "inc_z ext m n = col_inc ext d m n" if "d = 2" for m
    using inc_z_col[of ext] good_extent_xy[OF assms(1)] assms(2) that by simp
  then show ?thesis using col_inc_moves[OF assms] by auto
qed

theorem inc_moves_witness:
  "inc_z [4, 3, 5] (col_to_linear [4, 3, 5] [1, 2, 1]) 3 = col_to_linear [4, 3, 5] [1, 2, 4]"
  using inc_moves[of "[4, 3, 5]" 2 "[1, 2, 1]" 3] by (simp add: good_extent_def index_inc_def)

text \<open>
  The accumulator of \<open>dot\<close> is an \<open>int32_t\<close>: in a 65536 x 65536 array, whose size
  still fits the \<open>int64_t linear\<close>, the column-major index of cell (0, 32768) is negative,
  while the row-major index of the same position is not.
\<close>

theorem col_to_linear_wraps:
  "sint (col_to_linear [65536, 65536] [0, 32768]) = - (2 ^ 31)
   \<and> sint (row_to_linear [65536, 65536] [0, 32768]) = 32768
   \<and> in_extent [65536, 65536] [0, 32768]"
  by (simp add: col_to_linear_def index_dot_def strides_def row_to_linear_def)

text \<open>
  The row-major scheme is a bijection from the positions onto \<open>0, \<dots>, volume - 1\<close>
  for every array below \<open>2\<^sup>6\<^sup>3\<close> cells, and \<open>pos\<close> inverts it.
\<close>

theorem row_numbers_cells:
  assumes "row_extent ext"
  shows "bij_betw (\<lambda>p. nat (sint (row_to_linear ext p))) {p. in_extent ext p} {..<nat (volume ext)}
    \<and> (\<forall>p. in_extent ext p \<longrightarrow> row_pos ext (row_to_linear ext p) = p)"
proof -
  have "volume ext \<le> 2 ^ 63" using assms by (simp add: row_extent_def)
  then show ?thesis using row.bij_cells[OF assms] row.pos_lin[OF assms] by blast
qed

theorem row_numbers_cells_witness:
  "row_pos [65536, 65536, 3] (row_to_linear [65536, 65536, 3] [65535, 65535, 2]) = [65535, 65535, 2]"
  using row_numbers_cells[of "[65536, 65536, 3]"] by (simp add: row_extent_def)

text \<open>
  The specialisation of \<open>get_pos\<close> for row-major rank 2 divides by \<open>ext[0]\<close>: it
  decodes an index as if the two extents were exchanged, so it inverts the
  row-major index exactly on square extents and disagrees on 2 x 3.
\<close>

theorem row_get_pos2_exchanges_extents:
  assumes "0 \<le> sint n" "sint n < uint a * uint b"
  shows "row_get_pos2 [a, b] n = row_pos [b, a] n
    \<and> (a = b \<longrightarrow> row_get_pos2 [a, b] n = row_pos [a, b] n)
    \<and> row_get_pos2 [2, 3] 2 \<noteq> row_pos [2, 3] 2"
proof -
  have "row_get_pos2 [2, 3] 2 \<noteq> row_pos [2, 3] 2"
    by (simp add: row_get_pos2_def row_pos_def c_div_def c_rem_def)
  then show ?thesis using row_get_pos2_swapped[OF assms] by auto
qed

theorem row_get_pos2_exchanges_extents_witness: "row_get_pos2 [2, 3] 4 = row_pos [3, 2] 4"
  using row_get_pos2_exchanges_extents[of 4 2 3] by simp

end
