(* ===== verification/Store.thy ===== *)
theory Store
  imports Prelude
begin

text \<open>
  The contract of an indexed store: reads and writes below a fixed size succeed,
  a write changes exactly its cell, and the invariant of the store survives.
  The buffers and the multi-dimensional arrays provide it; the loops that fill
  or copy them are proved once here.
\<close>

locale array_store =
  fixes inv :: "'s \<Rightarrow> bool"
    and get :: "'s \<Rightarrow> nat \<Rightarrow> 'a option"
    and put :: "'s \<Rightarrow> nat \<Rightarrow> 'a \<Rightarrow> 's option"
    and n :: nat
  assumes get_defined: "inv s \<Longrightarrow> (get s i \<noteq> None) = (i < n)"
    and put_defined: "inv s \<Longrightarrow> i < n \<Longrightarrow> \<exists>s'. put s i v = Some s' \<and> inv s' \<and>
      (\<forall>j. get s' j = (if j = i then Some v else get s j))"
    and put_undefined: "inv s \<Longrightarrow> n \<le> i \<Longrightarrow> put s i v = None"
begin

fun put_list :: "'s \<Rightarrow> nat \<Rightarrow> 'a list \<Rightarrow> 's option" where
  "put_list s pos [] = Some s"
| "put_list s pos (t # ts) = Option.bind (put s pos t) (\<lambda>s'. put_list s' (pos + 1) ts)"

lemma put_list_stores:
  assumes "inv s" "pos + length ts \<le> n"
  shows "\<exists>s'. put_list s pos ts = Some s' \<and> inv s'
    \<and> (\<forall>j. get s' j = (if pos \<le> j \<and> j < pos + length ts then Some (ts ! (j - pos)) else get s j))"
  using assms
proof (induction ts arbitrary: s pos)
  case (Cons t ts)
  then obtain s' where s': "put s pos t = Some s'" "inv s'"
    "\<And>j. get s' j = (if j = pos then Some t else get s j)"
    using put_defined[of s pos t] by auto
  from Cons.IH[OF s'(2), of "pos + 1"] Cons.prems(2) obtain s'' where
    s'': "put_list s' (pos + 1) ts = Some s''" "inv s''"
    "\<And>j. get s'' j = (if pos + 1 \<le> j \<and> j < pos + 1 + length ts then Some (ts ! (j - (pos + 1))) else get s' j)"
    by auto
  have "get s'' j = (if pos \<le> j \<and> j < pos + length (t # ts) then Some ((t # ts) ! (j - pos)) else get s j)" for j
    unfolding s''(3) s'(3) by (auto simp: nth_Cons')
  then show ?case using s'(1) s'' by auto
qed auto

lemma put_list_outside:
  assumes "inv s" "pos \<le> n" "n < pos + length ts"
  shows "put_list s pos ts = None"
  using assms
proof (induction ts arbitrary: s pos)
  case (Cons t ts)
  show ?case
  proof (cases "pos < n")
    case True
    then obtain s' where "put s pos t = Some s'" "inv s'" using put_defined Cons.prems(1) by blast
    then show ?thesis using Cons.IH[of s' "pos + 1"] Cons.prems True by simp
  next
    case False
    then show ?thesis using put_undefined[OF Cons.prems(1), of pos] by simp
  qed
qed simp

end

end
