(* ===== verification/Buffer.thy ===== *)
theory Buffer
  imports Util Store
begin

text \<open>
  \<open>buffer<T>\<close> of \<open>src/core/buffer.hpp\<close> and \<open>src/core/buffer_impl.cpp\<close> in a build
  without CUDA or HIP: the device branches are compiled out.  Host memory is a
  heap of blocks, so that allocation, deletion and the sharing of pointers are
  visible; an access outside a live block is undefined behaviour and the value
  \<open>None\<close>.  The values found in fresh memory are a parameter \<open>junk\<close>.
\<close>

subsection \<open>Host memory\<close>

datatype MemType = host_only | host_device | device_managed | device_only

record 'a heap =
  blocks :: "nat \<rightharpoonup> 'a list"
  fresh :: nat

definition heap_ok :: "'a heap \<Rightarrow> bool" where
  "heap_ok h = (\<forall>p l. blocks h p = Some l \<longrightarrow> p < fresh h)"

definition heap_new :: "(nat \<Rightarrow> 'a) \<Rightarrow> nat \<Rightarrow> 'a heap \<Rightarrow> nat \<times> 'a heap" where
  "heap_new junk n h =
     (fresh h, h\<lparr>blocks := (blocks h)(fresh h \<mapsto> map junk [0..<n]), fresh := Suc (fresh h)\<rparr>)"

text \<open>\<open>delete[]\<close>: deleting a null pointer does nothing.\<close>

definition heap_delete :: "nat option \<Rightarrow> 'a heap \<Rightarrow> 'a heap option" where
  "heap_delete ptr h =
     (case ptr of None \<Rightarrow> Some h
      | Some p \<Rightarrow> if blocks h p = None then None else Some (h\<lparr>blocks := (blocks h)(p := None)\<rparr>))"

definition heap_get :: "'a heap \<Rightarrow> nat option \<Rightarrow> 'a list option" where
  "heap_get h ptr = Option.bind ptr (blocks h)"

definition heap_put :: "'a heap \<Rightarrow> nat option \<Rightarrow> 'a list \<Rightarrow> 'a heap" where
  "heap_put h ptr l = (case ptr of None \<Rightarrow> h | Some p \<Rightarrow> h\<lparr>blocks := (blocks h)(p \<mapsto> l)\<rparr>)"

definition ptr_assign :: "'a heap \<Rightarrow> nat option \<Rightarrow> nat \<Rightarrow> nat \<Rightarrow> 'a \<Rightarrow> 'a heap option" where
  "ptr_assign h array st en v =
     (case heap_get h array of
        None \<Rightarrow> None
      | Some l \<Rightarrow>
          if st \<le> en \<and> en \<le> length l
          then Some (heap_put h array (take st l @ replicate (en - st) v @ drop en l))
          else None)"

text \<open>\<open>std::copy\<close> requires that the target does not begin inside the source range.\<close>

definition ptr_copy ::
  "'a heap \<Rightarrow> nat option \<Rightarrow> nat option \<Rightarrow> nat \<Rightarrow> nat \<Rightarrow> nat \<Rightarrow> 'a heap option" where
  "ptr_copy h src dst num src_pos dst_pos =
     (case (heap_get h src, heap_get h dst) of
        (Some s, Some d) \<Rightarrow>
          if src_pos + num \<le> length s \<and> dst_pos + num \<le> length d
             \<and> \<not> (src = dst \<and> src_pos \<le> dst_pos \<and> dst_pos < src_pos + num)
          then Some (heap_put h dst
                 (take dst_pos d @ take num (drop src_pos s) @ drop (dst_pos + num) d))
          else None
      | _ \<Rightarrow> None)"

subsection \<open>The class\<close>

record buffer =
  m_size :: nat
  m_data_h :: "nat option"
  m_data_d :: "nat option"
  m_host_allocated :: bool
  m_dev_allocated :: bool
  m_type :: MemType

definition default_mem_type :: MemType where "default_mem_type = host_only"

definition buffer_default :: "MemType \<Rightarrow> buffer" where
  "buffer_default type = \<lparr>m_size = 0, m_data_h = None, m_data_d = None,
     m_host_allocated = False, m_dev_allocated = False, m_type = type\<rparr>"

definition alloc_mem :: "(nat \<Rightarrow> 'a) \<Rightarrow> nat \<Rightarrow> 'a heap \<Rightarrow> buffer \<Rightarrow> 'a heap \<times> buffer" where
  "alloc_mem junk n h b =
     (if m_type b = host_only \<or> m_type b = host_device then
        let (p, h') = heap_new junk n h
        in (h', b\<lparr>m_data_h := Some p, m_host_allocated := True, m_size := n\<rparr>)
      else (h, b\<lparr>m_size := n\<rparr>))"

definition free_mem :: "'a heap \<Rightarrow> buffer \<Rightarrow> ('a heap \<times> buffer) option" where
  "free_mem h b =
     (if m_host_allocated b then
        Option.bind (heap_delete (m_data_h b) h)
          (\<lambda>h'. Some (h', b\<lparr>m_data_h := None, m_host_allocated := False\<rparr>))
      else Some (h, b))"

definition buffer_new :: "(nat \<Rightarrow> 'a) \<Rightarrow> nat \<Rightarrow> MemType \<Rightarrow> 'a heap \<Rightarrow> 'a heap \<times> buffer" where
  "buffer_new junk n type h = alloc_mem junk n h (buffer_default type)"

text \<open>Move assignment: the new contents of the target and of the source.\<close>

definition buffer_move :: "buffer \<Rightarrow> buffer \<Rightarrow> buffer \<times> buffer" where
  "buffer_move this other =
     (other, other\<lparr>m_size := 0, m_host_allocated := False, m_dev_allocated := False,
                  m_data_h := None, m_data_d := None\<rparr>)"

definition buffer_get :: "'a heap \<Rightarrow> buffer \<Rightarrow> nat \<Rightarrow> 'a option" where
  "buffer_get h b n =
     Option.bind (heap_get h (m_data_h b)) (\<lambda>l. if n < length l then Some (l ! n) else None)"

definition buffer_put :: "buffer \<Rightarrow> 'a heap \<Rightarrow> nat \<Rightarrow> 'a \<Rightarrow> 'a heap option" where
  "buffer_put b h n v =
     Option.bind (heap_get h (m_data_h b))
       (\<lambda>l. if n < length l then Some (heap_put h (m_data_h b) (l[n := v])) else None)"

definition set_memtype :: "MemType \<Rightarrow> buffer \<Rightarrow> buffer" where
  "set_memtype type b = b\<lparr>m_type := type\<rparr>"

definition resize :: "(nat \<Rightarrow> 'a) \<Rightarrow> nat \<Rightarrow> 'a heap \<Rightarrow> buffer \<Rightarrow> ('a heap \<times> buffer) option" where
  "resize junk n h b =
     Option.bind (if m_host_allocated b \<or> m_dev_allocated b then free_mem h b else Some (h, b))
       (\<lambda>(h', b'). Some (if n > 0 then alloc_mem junk n h' b' else (h', b')))"

definition assign_host :: "'a heap \<Rightarrow> buffer \<Rightarrow> nat \<Rightarrow> nat \<Rightarrow> 'a \<Rightarrow> 'a heap option" where
  "assign_host h b st en v =
     (let en = min (m_size b) en; st = min st en
      in if m_host_allocated b then ptr_assign h (m_data_h b) st en v else Some h)"

text \<open>Without a GPU the device version changes nothing.\<close>

definition assign_dev :: "'a heap \<Rightarrow> buffer \<Rightarrow> nat \<Rightarrow> nat \<Rightarrow> 'a \<Rightarrow> 'a heap option" where
  "assign_dev h b st en v = Some h"

definition assign :: "'a heap \<Rightarrow> buffer \<Rightarrow> nat \<Rightarrow> nat \<Rightarrow> 'a \<Rightarrow> 'a heap option" where
  "assign h b st en v =
     (if m_type b = host_only then assign_host h b st en v else assign_dev h b st en v)"

definition assign_all :: "'a heap \<Rightarrow> buffer \<Rightarrow> 'a \<Rightarrow> 'a heap option" where
  "assign_all h b v = assign h b 0 (m_size b) v"

text \<open>The two clamps of a copy, in \<open>size_t\<close>: the subtractions can wrap.\<close>

definition size_add :: "nat \<Rightarrow> nat \<Rightarrow> nat" where "size_add a b = (a + b) mod 2 ^ 64"

definition size_sub :: "nat \<Rightarrow> nat \<Rightarrow> nat" where "size_sub a b = (a + (2 ^ 64 - b)) mod 2 ^ 64"

definition copy_num :: "nat \<Rightarrow> nat \<Rightarrow> nat \<Rightarrow> nat \<Rightarrow> nat \<Rightarrow> nat" where
  "copy_num this_size other_size num src_pos dst_pos =
     (let num = (if size_add dst_pos num > this_size then size_sub this_size dst_pos else num)
      in if size_add src_pos num > other_size then size_sub other_size src_pos else num)"

definition host_copy_from ::
  "'a heap \<Rightarrow> buffer \<Rightarrow> buffer \<Rightarrow> nat \<Rightarrow> nat \<Rightarrow> nat \<Rightarrow> 'a heap option" where
  "host_copy_from h this other num src_pos dst_pos =
     (let num = copy_num (m_size this) (m_size other) num src_pos dst_pos
      in if m_host_allocated this \<and> m_host_allocated other
         then ptr_copy h (m_data_h other) (m_data_h this) num src_pos dst_pos else Some h)"

definition dev_copy_from ::
  "'a heap \<Rightarrow> buffer \<Rightarrow> buffer \<Rightarrow> nat \<Rightarrow> nat \<Rightarrow> nat \<Rightarrow> 'a heap option" where
  "dev_copy_from h this other num src_pos dst_pos = Some h"

definition copy_from ::
  "'a heap \<Rightarrow> buffer \<Rightarrow> buffer \<Rightarrow> nat \<Rightarrow> nat \<Rightarrow> nat \<Rightarrow> 'a heap option" where
  "copy_from h this other num src_pos dst_pos =
     (if m_type other = host_only \<or> m_type this = host_only
      then host_copy_from h this other num src_pos dst_pos
      else dev_copy_from h this other num src_pos dst_pos)"

definition copy_from_all :: "'a heap \<Rightarrow> buffer \<Rightarrow> buffer \<Rightarrow> 'a heap option" where
  "copy_from_all h this other = copy_from h this other (m_size other) 0 0"

fun emplace_loop :: "buffer \<Rightarrow> 'a heap \<Rightarrow> nat \<Rightarrow> 'a list \<Rightarrow> 'a heap option" where
  "emplace_loop b h pos [] = Some h"
| "emplace_loop b h pos (t # ts) =
     (if pos \<ge> m_size b then Some h
      else Option.bind (buffer_put b h pos t) (\<lambda>h'. emplace_loop b h' (pos + 1) ts))"

definition emplace :: "buffer \<Rightarrow> 'a heap \<Rightarrow> nat \<Rightarrow> 'a list \<Rightarrow> 'a heap option" where
  "emplace b h pos l = (if m_type b = device_only then Some h else emplace_loop b h pos l)"

definition buffer_data :: "buffer \<Rightarrow> nat option" where
  "buffer_data b = (if m_type b = host_only \<or> m_type b = host_device then m_data_h b else m_data_d b)"

subsection \<open>The invariant\<close>

definition buf_ok :: "'a heap \<Rightarrow> buffer \<Rightarrow> bool" where
  "buf_ok h b = (m_data_d b = None \<and> \<not> m_dev_allocated b \<and>
     (if m_host_allocated b
      then (\<exists>l. heap_get h (m_data_h b) = Some l \<and> length l = m_size b) else m_data_h b = None))"

definition contents :: "'a heap \<Rightarrow> buffer \<Rightarrow> 'a list" where
  "contents h b = the (heap_get h (m_data_h b))"

lemma heap_get_put:
  "heap_get (heap_put h p l) q = (if p = q \<and> p \<noteq> None then Some l else heap_get h q)"
  by (cases p; cases q) (auto simp: heap_get_def heap_put_def)

lemma buf_ok_allocated:
  assumes "buf_ok h b" "m_host_allocated b"
  shows "heap_get h (m_data_h b) = Some (contents h b)" "length (contents h b) = m_size b"
    "m_data_h b \<noteq> None"
proof -
  obtain l where "heap_get h (m_data_h b) = Some l" "length l = m_size b"
    using assms by (auto simp: buf_ok_def)
  then show "heap_get h (m_data_h b) = Some (contents h b)" "length (contents h b) = m_size b"
    "m_data_h b \<noteq> None"
    by (cases "m_data_h b"; auto simp: contents_def heap_get_def)+
qed

lemma buf_ok_put:
  assumes "buf_ok h b" "m_host_allocated b" "length l = m_size b"
  shows "buf_ok (heap_put h (m_data_h b) l) b" "contents (heap_put h (m_data_h b) l) b = l"
  using assms buf_ok_allocated(3)[OF assms(1,2)]
  by (auto simp: buf_ok_def contents_def heap_get_put)

interpretation buf: array_store
  "\<lambda>h :: 'a heap. buf_ok h b \<and> m_host_allocated b" "\<lambda>h. buffer_get h b" "buffer_put b" "m_size b" for b
proof
  fix s :: "'a heap" and i assume "buf_ok s b \<and> m_host_allocated b"
  then show "(buffer_get s b i \<noteq> None) = (i < m_size b)"
    using buf_ok_allocated[of s b] by (simp add: buffer_get_def)
next
  fix s :: "'a heap" and i v assume a: "buf_ok s b \<and> m_host_allocated b" "i < m_size b"
  then have "buffer_put b s i v = Some (heap_put s (m_data_h b) ((contents s b)[i := v]))"
    using buf_ok_allocated[of s b] by (simp add: buffer_put_def)
  then show "\<exists>s'. buffer_put b s i v = Some s' \<and> (buf_ok s' b \<and> m_host_allocated b) \<and>
      (\<forall>j. buffer_get s' b j = (if j = i then Some v else buffer_get s b j))"
    using a buf_ok_allocated[of s b] buf_ok_put[of s b "(contents s b)[i := v]"]
    by (auto simp: buffer_get_def heap_get_put)
next
  fix s :: "'a heap" and i v assume "buf_ok s b \<and> m_host_allocated b" "m_size b \<le> i"
  then show "buffer_put b s i v = None"
    using buf_ok_allocated[of s b] by (simp add: buffer_put_def)
qed

subsection \<open>Allocation\<close>

lemma heap_new_ok:
  assumes "heap_ok h" "heap_new junk n h = (p, h')"
  shows "heap_ok h' \<and> heap_get h' (Some p) = Some (map junk [0..<n]) \<and> blocks h p = None
    \<and> (\<forall>q. q \<noteq> p \<longrightarrow> blocks h' q = blocks h q)"
proof -
  have "blocks h (fresh h) = None"
  proof (rule ccontr)
    assume "blocks h (fresh h) \<noteq> None"
    then show False using assms(1) by (auto simp: heap_ok_def)
  qed
  moreover have "q < Suc (fresh h)" if "blocks h q = Some l" for q l
    using assms(1) that by (auto simp: heap_ok_def intro: less_SucI)
  ultimately show ?thesis
    using assms by (auto simp: heap_new_def heap_ok_def heap_get_def split: if_splits)
qed

lemma alloc_mem_ok:
  assumes "heap_ok h" "buf_ok h b" "\<not> m_host_allocated b" "alloc_mem junk n h b = (h', b')"
  shows "heap_ok h' \<and> buf_ok h' b' \<and> m_size b' = n
    \<and> m_host_allocated b' = (m_type b = host_only \<or> m_type b = host_device)
    \<and> (\<forall>p. blocks h p \<noteq> None \<longrightarrow> blocks h' p = blocks h p \<and> m_data_h b' \<noteq> Some p)"
proof (cases "m_type b = host_only \<or> m_type b = host_device")
  case True
  obtain p h1 where n: "heap_new junk n h = (p, h1)" by (cases "heap_new junk n h")
  then have "h' = h1" "b' = b\<lparr>m_data_h := Some p, m_host_allocated := True, m_size := n\<rparr>"
    using assms(4) True by (auto simp: alloc_mem_def)
  moreover have "q \<noteq> p" if "blocks h q \<noteq> None" for q
    using heap_new_ok[OF assms(1) n] that by auto
  ultimately show ?thesis using heap_new_ok[OF assms(1) n] True assms(2) by (auto simp: buf_ok_def)
next
  case False
  then show ?thesis using assms by (auto simp: alloc_mem_def buf_ok_def)
qed

lemma free_mem_ok:
  assumes "heap_ok h" "buf_ok h b"
  shows "\<exists>h' b'. free_mem h b = Some (h', b') \<and> heap_ok h' \<and> buf_ok h' b' \<and> \<not> m_host_allocated b'
    \<and> m_size b' = m_size b \<and> m_type b' = m_type b
    \<and> (\<forall>p. blocks h' p = (if m_data_h b = Some p then None else blocks h p)) \<and> fresh h' = fresh h"
proof (cases "m_host_allocated b")
  case True
  then obtain p l where "m_data_h b = Some p" "blocks h p = Some l"
    using buf_ok_allocated[OF assms(2)] by (cases "m_data_h b") (auto simp: heap_get_def)
  then show ?thesis
    using True assms by (auto simp: free_mem_def heap_delete_def heap_ok_def buf_ok_def split: if_splits)
next
  case False
  then show ?thesis using assms by (auto simp: free_mem_def buf_ok_def)
qed

lemma resize_ok:
  assumes "heap_ok h" "buf_ok h b"
  shows "\<exists>h' b'. resize junk n h b = Some (h', b') \<and> heap_ok h' \<and> buf_ok h' b'
    \<and> m_size b' = (if n = 0 then m_size b else n)
    \<and> m_host_allocated b' = (n > 0 \<and> (m_type b = host_only \<or> m_type b = host_device))
    \<and> (\<forall>p. m_data_h b = Some p \<longrightarrow> blocks h' p = None \<and> m_data_h b' \<noteq> Some p)
    \<and> (\<forall>p. blocks h p \<noteq> None \<and> m_data_h b \<noteq> Some p \<longrightarrow> blocks h' p = blocks h p)"
proof -
  obtain h1 b1 where f: "free_mem h b = Some (h1, b1)" "heap_ok h1" "buf_ok h1 b1" "\<not> m_host_allocated b1"
    "m_size b1 = m_size b" "m_type b1 = m_type b"
    "\<And>p. blocks h1 p = (if m_data_h b = Some p then None else blocks h p)" "fresh h1 = fresh h"
    using free_mem_ok[OF assms] by blast
  have pre: "(if m_host_allocated b \<or> m_dev_allocated b then free_mem h b else Some (h, b)) = Some (h1, b1)"
    using f(1) assms(2) by (auto simp: free_mem_def buf_ok_def)
  have old: "p < fresh h" if "m_data_h b = Some p" for p
    using assms that by (cases "m_host_allocated b") (auto simp: buf_ok_def heap_ok_def heap_get_def)
  show ?thesis
  proof (cases "n = 0")
    case True
    then show ?thesis using pre f by (auto simp: resize_def buf_ok_def)
  next
    case False
    obtain h' b' where a: "alloc_mem junk n h1 b1 = (h', b')" by (cases "alloc_mem junk n h1 b1")
    have "blocks h' p = None \<and> m_data_h b' \<noteq> Some p" if "m_data_h b = Some p" for p
      using a f(3,4) f(7)[of p] f(8) old[OF that] that
      by (auto simp: alloc_mem_def heap_new_def buf_ok_def split: if_splits)
    then show ?thesis
      using alloc_mem_ok[OF f(2,3,4) a] pre a f(6,7) False by (auto simp: resize_def)
  qed
qed

subsection \<open>Copies\<close>

lemma copy_num_min:
  assumes "dst_pos \<le> this_size" "src_pos \<le> other_size" "this_size < 2 ^ 63" "other_size < 2 ^ 63"
    "num < 2 ^ 63"
  shows "copy_num this_size other_size num src_pos dst_pos
    = min num (min (this_size - dst_pos) (other_size - src_pos))"
proof -
  have add: "size_add a b = a + b" if "a < 2 ^ 63" "b < 2 ^ 63" for a b :: nat
    using that by (simp add: size_add_def)
  have sub: "size_sub a b = a - b" if "b \<le> a" "a < 2 ^ 63" for a b :: nat
  proof -
    have "a + (2 ^ 64 - b) = (a - b) + 2 ^ 64" using that by simp
    then have "size_sub a b = (a - b) mod 2 ^ 64" unfolding size_sub_def by (simp only: mod_add_self2)
    then show ?thesis using that by simp
  qed
  have "dst_pos < 2 ^ 63" "src_pos < 2 ^ 63" using assms by simp_all
  moreover have "this_size - dst_pos < 2 ^ 63" using assms by simp
  ultimately show ?thesis
    using assms by (auto simp: copy_num_def Let_def add sub min_def)
qed

lemma ptr_copy_contents:
  assumes "heap_get h src = Some s" "heap_get h dst = Some d" "src \<noteq> dst"
    "src_pos + num \<le> length s" "dst_pos + num \<le> length d"
  shows "\<exists>l. ptr_copy h src dst num src_pos dst_pos = Some (heap_put h dst l) \<and> length l = length d
    \<and> (\<forall>i < length d. l ! i = (if dst_pos \<le> i \<and> i < dst_pos + num then s ! (src_pos + (i - dst_pos)) else d ! i))"
proof (intro exI conjI allI impI)
  let ?l = "take dst_pos d @ take num (drop src_pos s) @ drop (dst_pos + num) d"
  show "ptr_copy h src dst num src_pos dst_pos = Some (heap_put h dst ?l)"
    using assms by (simp add: ptr_copy_def)
  show "length ?l = length d" using assms(4,5) by simp
  fix i assume "i < length d"
  then show "?l ! i = (if dst_pos \<le> i \<and> i < dst_pos + num then s ! (src_pos + (i - dst_pos)) else d ! i)"
    using assms(4,5) by (cases "i < dst_pos"; cases "i < dst_pos + num") (simp_all add: nth_append less_diff_conv2)
qed

lemma copy_from_contents:
  assumes "buf_ok h this" "buf_ok h other" "m_host_allocated this" "m_host_allocated other"
    "m_data_h this \<noteq> m_data_h other" "m_type this = host_only \<or> m_type other = host_only"
    "dst_pos \<le> m_size this" "src_pos \<le> m_size other" "m_size this < 2 ^ 63" "m_size other < 2 ^ 63"
    "num < 2 ^ 63" "k = min num (min (m_size this - dst_pos) (m_size other - src_pos))"
  shows "\<exists>h'. copy_from h this other num src_pos dst_pos = Some h' \<and> buf_ok h' this
    \<and> contents h' other = contents h other
    \<and> (\<forall>i < m_size this. contents h' this ! i =
         (if dst_pos \<le> i \<and> i < dst_pos + k then contents h other ! (src_pos + (i - dst_pos))
          else contents h this ! i))"
proof -
  note t = buf_ok_allocated[OF assms(1,3)] and o = buf_ok_allocated[OF assms(2,4)]
  have k: "copy_num (m_size this) (m_size other) num src_pos dst_pos = k"
    using copy_num_min assms(7-12) by simp
  obtain l where l: "ptr_copy h (m_data_h other) (m_data_h this) k src_pos dst_pos
      = Some (heap_put h (m_data_h this) l)" "length l = m_size this"
    "\<forall>i < m_size this. l ! i = (if dst_pos \<le> i \<and> i < dst_pos + k
       then contents h other ! (src_pos + (i - dst_pos)) else contents h this ! i)"
    using ptr_copy_contents[OF o(1) t(1), of src_pos k dst_pos] assms(5,7,8,12) t(2) o(2) by fastforce
  have "copy_from h this other num src_pos dst_pos = Some (heap_put h (m_data_h this) l)"
    using assms(3,4,6) l(1) k by (auto simp: copy_from_def host_copy_from_def)
  moreover have "contents (heap_put h (m_data_h this) l) other = contents h other"
    using assms(5) by (simp add: contents_def heap_get_put)
  ultimately show ?thesis using buf_ok_put[OF assms(1,3) l(2)] l(3) by auto
qed

lemma assign_contents:
  assumes "buf_ok h b" "m_host_allocated b" "m_type b = host_only"
  shows "\<exists>h'. assign h b st en v = Some h' \<and> buf_ok h' b
    \<and> (\<forall>i < m_size b. contents h' b ! i = (if st \<le> i \<and> i < en then v else contents h b ! i))"
proof -
  note t = buf_ok_allocated[OF assms(1,2)]
  define e where "e = min (m_size b) en"
  define s where "s = min st e"
  let ?l = "take s (contents h b) @ replicate (e - s) v @ drop e (contents h b)"
  have le: "s \<le> e" "e \<le> m_size b" unfolding e_def s_def by (auto simp: min_def)
  have "assign h b st en v = Some (heap_put h (m_data_h b) ?l)"
    using assms t(1,2) le unfolding assign_def assign_host_def ptr_assign_def e_def[symmetric] s_def[symmetric] Let_def
    by simp
  moreover have "length ?l = m_size b" using t(2) le by simp
  moreover have "?l ! i = (if st \<le> i \<and> i < en then v else contents h b ! i)" if "i < m_size b" for i
  proof -
    have "(st \<le> i \<and> i < en) = (s \<le> i \<and> i < e)" using that by (auto simp: s_def e_def)
    then show ?thesis using that t(2) le by (auto simp: nth_append)
  qed
  ultimately show ?thesis using buf_ok_put[OF assms(1,2), of ?l] by auto
qed

lemma emplace_loop_put_list:
  assumes "buf_ok h b" "m_host_allocated b" "pos \<le> m_size b"
  shows "emplace_loop b h pos ts = buf.put_list b h pos (take (m_size b - pos) ts)"
  using assms
proof (induction ts arbitrary: h pos)
  case (Cons t ts)
  show ?case
  proof (cases "pos < m_size b")
    case True
    then obtain h' where "buffer_put b h pos t = Some h'" "buf_ok h' b"
      using buf.put_defined[of h b pos t] Cons.prems by blast
    then show ?thesis
      using True Cons.IH[of h' "pos + 1"] Cons.prems by (simp add: Suc_diff_Suc take_Cons')
  qed (use Cons.prems in simp)
qed simp

subsection \<open>Properties\<close>

text \<open>A target position past the end: the clamp wraps and leaves elements to copy, even for \<open>num = 0\<close>.\<close>

lemma copy_num_past_end:
  assumes "this_size < dst_pos" "dst_pos < 2 ^ 63" "src_pos < other_size" "other_size < 2 ^ 63" "num < 2 ^ 63"
  shows "0 < copy_num this_size other_size num src_pos dst_pos"
proof -
  have "size_sub this_size dst_pos = this_size + (2 ^ 64 - dst_pos)"
    using assms(1,2) unfolding size_sub_def by (intro mod_less) simp
  moreover have "size_add dst_pos num > this_size" using assms(1,2,5) by (simp add: size_add_def)
  moreover have "0 < size_sub other_size src_pos"
  proof -
    have "other_size + (2 ^ 64 - src_pos) = (other_size - src_pos) + 2 ^ 64" using assms(3,4) by simp
    then have "size_sub other_size src_pos = (other_size - src_pos) mod 2 ^ 64"
      unfolding size_sub_def by (simp only: mod_add_self2)
    then show ?thesis using assms(3,4) by simp
  qed
  ultimately show ?thesis using assms(2) by (simp add: copy_num_def Let_def)
qed

text \<open>
  C31.  \<open>copy_from\<close> of fewer than \<open>2\<^sup>6\<^sup>3\<close> elements between two different allocated host
  buffers, one of them \<open>host_only\<close>.  For positions inside the buffers it stays inside both:
  exactly the first \<open>min num (size - dst_pos) (other.size - src_pos)\<close> elements arrive, the rest
  of the target and the whole source keep their values.  For a target position past the end
  the clamp wraps: elements remain to be copied, out of bounds.
\<close>

theorem copy_from_exact:
  assumes "buf_ok h this" "buf_ok h other" "m_host_allocated this" "m_host_allocated other"
    "m_data_h this \<noteq> m_data_h other" "m_type this = host_only \<or> m_type other = host_only"
    "m_size this < 2 ^ 63" "m_size other < 2 ^ 63" "num < 2 ^ 63"
    "k = min num (min (m_size this - dst_pos) (m_size other - src_pos))"
  shows "(dst_pos \<le> m_size this \<and> src_pos \<le> m_size other \<longrightarrow>
      (\<exists>h'. copy_from h this other num src_pos dst_pos = Some h' \<and> buf_ok h' this
        \<and> contents h' other = contents h other
        \<and> (\<forall>i < m_size this. contents h' this ! i =
             (if dst_pos \<le> i \<and> i < dst_pos + k then contents h other ! (src_pos + (i - dst_pos))
              else contents h this ! i))))
    \<and> (m_size this < dst_pos \<and> dst_pos < 2 ^ 63 \<and> src_pos < m_size other \<longrightarrow>
      copy_from h this other num src_pos dst_pos = None
      \<and> 0 < copy_num (m_size this) (m_size other) num src_pos dst_pos)"
proof (intro conjI impI)
  assume "dst_pos \<le> m_size this \<and> src_pos \<le> m_size other"
  then show "\<exists>h'. copy_from h this other num src_pos dst_pos = Some h' \<and> buf_ok h' this
        \<and> contents h' other = contents h other
        \<and> (\<forall>i < m_size this. contents h' this ! i =
             (if dst_pos \<le> i \<and> i < dst_pos + k then contents h other ! (src_pos + (i - dst_pos))
              else contents h this ! i))"
    using copy_from_contents[OF assms(1-6) _ _ assms(7-10)] by blast
next
  assume p: "m_size this < dst_pos \<and> dst_pos < 2 ^ 63 \<and> src_pos < m_size other"
  show "0 < copy_num (m_size this) (m_size other) num src_pos dst_pos"
    using copy_num_past_end p assms(8,9) by blast
  show "copy_from h this other num src_pos dst_pos = None"
    using p assms(3,4,6) buf_ok_allocated[OF assms(1,3)] buf_ok_allocated[OF assms(2,4)]
    by (auto simp: copy_from_def host_copy_from_def ptr_copy_def Let_def)
qed

definition example_heap :: "int heap" where
  "example_heap = \<lparr>blocks = [0 \<mapsto> [1, 2, 3], 1 \<mapsto> [7, 8, 9, 10]], fresh = 2\<rparr>"

definition example_buffer :: "nat \<Rightarrow> nat \<Rightarrow> buffer" where
  "example_buffer p n = \<lparr>m_size = n, m_data_h = Some p, m_data_d = None,
     m_host_allocated = True, m_dev_allocated = False, m_type = host_only\<rparr>"

lemmas example_simps = example_heap_def example_buffer_def buf_ok_def heap_get_def heap_ok_def

theorem copy_from_exact_witness:
  "\<exists>h'. copy_from example_heap (example_buffer 0 3) (example_buffer 1 4) 5 2 1 = Some h'
    \<and> contents h' (example_buffer 0 3) ! 1 = 9"
proof -
  have "\<exists>h'. copy_from example_heap (example_buffer 0 3) (example_buffer 1 4) 5 2 1 = Some h'
      \<and> buf_ok h' (example_buffer 0 3)
      \<and> contents h' (example_buffer 1 4) = contents example_heap (example_buffer 1 4)
      \<and> (\<forall>i < m_size (example_buffer 0 3). contents h' (example_buffer 0 3) ! i =
         (if 1 \<le> i \<and> i < 1 + 2 then contents example_heap (example_buffer 1 4) ! (2 + (i - 1))
          else contents example_heap (example_buffer 0 3) ! i))"
    by (rule copy_from_exact[THEN conjunct1, rule_format]) (simp_all add: example_simps)
  then obtain h' where "copy_from example_heap (example_buffer 0 3) (example_buffer 1 4) 5 2 1 = Some h'"
    "\<forall>i < 3. contents h' (example_buffer 0 3) ! i =
       (if 1 \<le> i \<and> i < 1 + 2 then contents example_heap (example_buffer 1 4) ! (2 + (i - 1))
        else contents example_heap (example_buffer 0 3) ! i)"
    by (auto simp: example_buffer_def)
  moreover have "contents example_heap (example_buffer 1 4) ! 2 = 9"
    by (simp add: example_simps contents_def)
  ultimately show ?thesis by auto
qed

text \<open>
  C32.  \<open>resize\<close> keeps the buffer valid and releases its old block: every pointer
  taken before it is dangling.  For a new size of 0 the memory is released but
  \<open>m_size\<close> keeps its old value, so that a following \<open>emplace\<close> writes through a
  null pointer.
\<close>

theorem resize_replaces_memory:
  assumes "heap_ok h" "buf_ok h b" "m_type b = host_only"
  shows "\<exists>h' b'. resize junk n h b = Some (h', b') \<and> heap_ok h' \<and> buf_ok h' b'
    \<and> m_size b' = (if n = 0 then m_size b else n) \<and> m_host_allocated b' = (n > 0)
    \<and> (\<forall>p. m_data_h b = Some p \<longrightarrow> heap_get h' (Some p) = None \<and> m_data_h b' \<noteq> Some p)
    \<and> (\<forall>p. blocks h p \<noteq> None \<and> m_data_h b \<noteq> Some p \<longrightarrow> blocks h' p = blocks h p)
    \<and> (n = 0 \<and> m_size b > 0 \<longrightarrow> emplace b' h' 0 [v] = None)"
proof -
  obtain h' b' where r: "resize junk n h b = Some (h', b')" "heap_ok h'" "buf_ok h' b'"
    "m_size b' = (if n = 0 then m_size b else n)"
    "m_host_allocated b' = (n > 0 \<and> (m_type b = host_only \<or> m_type b = host_device))"
    "\<forall>p. m_data_h b = Some p \<longrightarrow> blocks h' p = None \<and> m_data_h b' \<noteq> Some p"
    "\<forall>p. blocks h p \<noteq> None \<and> m_data_h b \<noteq> Some p \<longrightarrow> blocks h' p = blocks h p"
    using resize_ok[OF assms(1,2)] by blast
  have "emplace b' h' 0 [v] = None" if "n = 0" "m_size b > 0"
  proof -
    have "m_type b' = host_only"
    proof -
      have "m_type b' = m_type b"
        using r(1) that(1) free_mem_ok[OF assms(1,2)] by (auto simp: resize_def split: if_splits)
      then show ?thesis using assms(3) by simp
    qed
    moreover have "m_data_h b' = None" using r(3,5) that(1) by (simp add: buf_ok_def)
    ultimately show ?thesis using r(4) that by (simp add: emplace_def buffer_put_def heap_get_def)
  qed
  then show ?thesis using r assms(3) by (auto simp: heap_get_def)
qed

theorem resize_replaces_memory_witness:
  "\<exists>h' b'. resize (\<lambda>_. 0) 0 example_heap (example_buffer 0 3) = Some (h', b')
    \<and> m_size b' = 3 \<and> emplace b' h' 0 [5] = None"
proof -
  have "heap_ok example_heap" "buf_ok example_heap (example_buffer 0 3)"
    "m_type (example_buffer 0 3) = host_only" "m_size (example_buffer 0 3) = 3"
    by (simp_all add: example_simps)
  then show ?thesis
    using resize_replaces_memory[of example_heap "example_buffer 0 3" "\<lambda>_. 0" 0 5] by fastforce
qed

text \<open>
  In a build without a GPU \<open>assign\<close> fills a \<open>host_only\<close> buffer, and leaves the
  (uninitialised) contents of a freshly allocated \<open>host_device\<close> buffer unchanged,
  although that buffer has its host memory.
\<close>

theorem assign_depends_on_memtype:
  assumes "heap_ok h" "n > 0" "i < n"
  shows "(let (h1, b) = buffer_new junk n host_only h in
           \<exists>h2. assign_all h1 b v = Some h2 \<and> buffer_get h2 b i = Some v)
    \<and> (let (h1, b) = buffer_new junk n host_device h in
           \<exists>h2. assign_all h1 b v = Some h2 \<and> buffer_get h2 b i = Some (junk i))"
proof -
  have new: "\<exists>h1 b. buffer_new junk n t h = (h1, b) \<and> heap_get h1 (m_data_h b) = Some (map junk [0..<n])
      \<and> buf_ok h1 b \<and> m_host_allocated b \<and> m_size b = n \<and> m_type b = t"
    if "t = host_only \<or> t = host_device" for t
  proof -
    obtain p h1 where n: "heap_new junk n h = (p, h1)" by (cases "heap_new junk n h")
    let ?b = "(buffer_default t)\<lparr>m_data_h := Some p, m_host_allocated := True, m_size := n\<rparr>"
    have "buffer_new junk n t h = (h1, ?b)"
      using n that by (auto simp: buffer_new_def alloc_mem_def buffer_default_def)
    moreover have "buf_ok h1 ?b" using heap_new_ok[OF assms(1) n] by (simp add: buf_ok_def buffer_default_def)
    ultimately show ?thesis
      using heap_new_ok[OF assms(1) n] by (intro exI[of _ h1] exI[of _ ?b]) (simp add: buffer_default_def)
  qed
  obtain h1 b where b: "buffer_new junk n host_only h = (h1, b)" "buf_ok h1 b" "m_host_allocated b"
    "m_size b = n" "m_type b = host_only"
    using new by blast
  obtain h2 where h2: "assign h1 b 0 n v = Some h2" "buf_ok h2 b" "\<forall>i < n. contents h2 b ! i = v"
    using assign_contents[OF b(2,3,5), of 0 n v] b(4) by auto
  then have host: "assign_all h1 b v = Some h2" "buffer_get h2 b i = Some v"
    using buf_ok_allocated[OF h2(2) b(3)] b(4) assms(3) by (simp_all add: assign_all_def buffer_get_def)
  obtain h3 b3 where "buffer_new junk n host_device h = (h3, b3)" "m_type b3 = host_device"
    "heap_get h3 (m_data_h b3) = Some (map junk [0..<n])"
    using new by blast
  then show ?thesis
    using b(1) host assms(3)
    by (simp add: assign_all_def assign_def assign_dev_def buffer_get_def)
qed

theorem assign_depends_on_memtype_witness:
  "case buffer_new int 4 host_device example_heap of (h1, b) \<Rightarrow>
     \<exists>h2. assign_all h1 b 0 = Some h2 \<and> buffer_get h2 b 3 = Some 3"
  using assign_depends_on_memtype[of example_heap 4 3 int 0] by (simp add: example_simps)

end
