(* ===== verification/Particles.thy ===== *)
theory Particles
  imports Buffer "HOL-Library.Multiset"
begin

text \<open>
  The particle arrays: \<open>particles_base\<close> (\<open>src/core/particles.h\<close>,
  \<open>src/core/particles.cpp\<close>), the particle structs of
  \<open>src/core/particle_structs.h\<close> and the host functions of
  \<open>src/core/particles_functions.cpp\<close>.  The struct of arrays, whose arrays all
  have \<open>m_size\<close> elements, is read as one list of particle records; the arrays are
  \<open>host_only\<close>.  \<open>size_t\<close> values are natural numbers, with the wrap-around of
  \<open>size_add\<close> and \<open>size_sub\<close> where the code can reach it.  An access outside an
  array is the value \<open>None\<close>, as is a signed \<open>int\<close> leaving its range, a division
  by zero and a loop that never ends.  The elements of a \<open>buffer<int>\<close> are words;
  \<open>to_size\<close> and \<open>size_to_int\<close> are the conversions between \<open>int\<close> and \<open>size_t\<close>.
\<close>

subsection \<open>Conversions of \<open>int\<close> and \<open>size_t\<close>\<close>

definition size_mul :: "nat \<Rightarrow> nat \<Rightarrow> nat" where "size_mul a b = (a * b) mod 2 ^ 64"

definition to_size :: "int \<Rightarrow> nat" where "to_size k = nat (k mod 2 ^ 64)"

definition size_to_int :: "nat \<Rightarrow> int" where "size_to_int n = sint (word_of_nat n :: i32)"

text \<open>Addition of two \<open>int\<close> values; past the range the behaviour is undefined.\<close>

definition int_add :: "i32 \<Rightarrow> int \<Rightarrow> i32 option" where
  "int_add w k = (if - (2 ^ 31) \<le> sint w + k \<and> sint w + k < 2 ^ 31
                  then Some (word_of_int (sint w + k)) else None)"

subsection \<open>Particles\<close>

record ptc_common =
  x1 :: scalar
  x2 :: scalar
  x3 :: scalar
  p1 :: scalar
  p2 :: scalar
  p3 :: scalar
  E :: scalar
  weight :: scalar
  cell :: u32
  pid :: u64
  flag :: u32

record single_ptc_t = ptc_common + aux1 :: scalar
record single_ph_t = ptc_common + path_left :: scalar

definition empty_cell :: u32 where "empty_cell = - 1"

definition ptc_default :: ptc_common where
  "ptc_default = \<lparr>x1 = 0, x2 = 0, x3 = 0, p1 = 0, p2 = 0, p3 = 0, E = 0, weight = 0,
     cell = empty_cell, pid = 0, flag = 0\<rparr>"

definition single_ptc_default :: single_ptc_t where
  "single_ptc_default = ptc_common.extend ptc_default (single_ptc_t.fields 0)"

definition single_ph_default :: single_ph_t where
  "single_ph_default = ptc_common.extend ptc_default (single_ph_t.fields 0)"

definition live :: "('a ptc_common_scheme) \<Rightarrow> bool" where
  "live p = (cell p \<noteq> empty_cell)"

subsection \<open>\<open>particles_base\<close>\<close>

record 'p particles =
  data :: "'p list"
  m_size :: nat
  m_number :: nat
  m_sort_segment_size :: nat
  m_ptc_id :: u32
  m_segment_nums :: "i32 list"
  m_index :: "nat list"
  m_partition :: "nat list"

definition particles_new :: "(nat \<Rightarrow> 'a ptc_common_scheme) \<Rightarrow> nat \<Rightarrow> 'a ptc_common_scheme particles" where
  "particles_new junk n =
     \<lparr>data = map (\<lambda>i. (junk i)\<lparr>cell := empty_cell\<rparr>) [0..<n], m_size = n, m_number = 0,
      m_sort_segment_size = 10000000, m_ptc_id = 0, m_segment_nums = [], m_index = [],
      m_partition = []\<rparr>"

text \<open>\<open>resize\<close> allocates all arrays anew and keeps \<open>m_number\<close>.\<close>

definition particles_resize ::
  "(nat \<Rightarrow> 'a ptc_common_scheme) \<Rightarrow> nat \<Rightarrow> 'a ptc_common_scheme particles \<Rightarrow> 'a ptc_common_scheme particles" where
  "particles_resize junk n s =
     s\<lparr>data := map (\<lambda>i. (junk i)\<lparr>cell := empty_cell\<rparr>) [0..<n], m_size := n, m_ptc_id := 0\<rparr>"

definition set_num :: "nat \<Rightarrow> 'p particles \<Rightarrow> 'p particles" where
  "set_num n s = s\<lparr>m_number := min n (m_size s)\<rparr>"

definition add_num :: "nat \<Rightarrow> 'p particles \<Rightarrow> 'p particles" where
  "add_num n s = set_num (size_add (m_number s) n) s"

definition set_segment_size :: "nat \<Rightarrow> 'p particles \<Rightarrow> 'p particles" where
  "set_segment_size n s = s\<lparr>m_sort_segment_size := n\<rparr>"

definition list_copy :: "'p list \<Rightarrow> 'p list \<Rightarrow> nat \<Rightarrow> nat \<Rightarrow> nat \<Rightarrow> 'p list" where
  "list_copy src dst num src_pos dst_pos =
     take dst_pos dst @ take num (drop src_pos src) @ drop (dst_pos + num) dst"

text \<open>Every array is copied with \<open>buffer::copy_from\<close>, hence the second clamp.\<close>

definition ptc_copy_from ::
  "'p particles \<Rightarrow> 'p particles \<Rightarrow> nat \<Rightarrow> nat \<Rightarrow> nat \<Rightarrow> 'p particles option" where
  "ptc_copy_from this other num src_pos dst_pos =
     (let num = (if size_add dst_pos num > m_size this then size_sub (m_size this) dst_pos else num);
          k = copy_num (m_size this) (m_size other) num src_pos dst_pos
      in if src_pos + k \<le> m_size other \<and> dst_pos + k \<le> m_size this then
           let this' = this\<lparr>data := list_copy (data other) (data this) k src_pos dst_pos\<rparr>
           in Some (if size_add dst_pos num > m_number this then set_num (size_add dst_pos num) this'
                    else this')
         else None)"

definition ptc_copy_all :: "'p particles \<Rightarrow> 'p particles \<Rightarrow> 'p particles option" where
  "ptc_copy_all this other = ptc_copy_from this other (m_number other) 0 0"

definition erase :: "nat \<Rightarrow> nat \<Rightarrow> 'a ptc_common_scheme particles \<Rightarrow> 'a ptc_common_scheme particles" where
  "erase pos amount s =
     (let en = min (m_size s) (size_add pos amount); st = min pos en
      in s\<lparr>data := take st (data s) @ map (cell_update (\<lambda>_. empty_cell)) (take (en - st) (drop st (data s)))
                   @ drop en (data s)\<rparr>)"

definition ptc_init :: "'a ptc_common_scheme particles \<Rightarrow> 'a ptc_common_scheme particles" where
  "ptc_init s = erase 0 (m_size s) s"

definition swap :: "nat \<Rightarrow> 'p \<Rightarrow> 'p particles \<Rightarrow> 'p particles \<times> 'p" where
  "swap pos p s = (let p_tmp = data s ! pos in (s\<lparr>data := (data s)[pos := p]\<rparr>, p_tmp))"

subsection \<open>Appending\<close>

definition ptc_energy :: "scalar \<Rightarrow> scalar \<Rightarrow> scalar \<Rightarrow> scalar" where
  "ptc_energy a b c = sqrt (1 + a * a + b * b + c * c)"

definition ptc_append ::
  "u64 \<Rightarrow> 'a ptc_common_scheme particles \<Rightarrow> scalar \<times> scalar \<times> scalar \<Rightarrow> scalar \<times> scalar \<times> scalar
     \<Rightarrow> u32 \<Rightarrow> scalar \<Rightarrow> u32 \<Rightarrow> 'a ptc_common_scheme particles" where
  "ptc_append rank s x p c w f =
     (if m_number s = m_size s then s
      else
        let n = m_number s; (a1, a2, a3) = x; (b1, b2, b3) = p;
            q = (data s ! n)\<lparr>x1 := a1, x2 := a2, x3 := a3, p1 := b1, p2 := b2, p3 := b3,
                  E := ptc_energy b1 b2 b3, weight := w, cell := c, flag := f,
                  pid := push_bit 32 rank + ucast (m_ptc_id s)\<rparr>
        in set_num (m_number s + 1) (s\<lparr>data := (data s)[n := q], m_ptc_id := m_ptc_id s + 1\<rparr>))"

subsection \<open>Rearranging along an index\<close>

definition done_mark :: nat where "done_mark = 2 ^ 64 - 1"

text \<open>
  The inner loop follows a cycle of the index from \<open>i\<close>; a read outside the index
  array or the data is \<open>None\<close>, as is a loop that never ends.
\<close>

partial_function (option) rearrange_cycle ::
  "nat \<Rightarrow> nat \<Rightarrow> nat \<Rightarrow> 'p \<Rightarrow> 'p list \<Rightarrow> nat list \<Rightarrow> ('p list \<times> nat list) option" where
  [code]: "rearrange_cycle offset i j p_tmp d idx =
     (if \<not> j < length idx then None
      else if idx ! j \<noteq> i + offset then
        (if \<not> idx ! j < length d then None
         else rearrange_cycle offset i (idx ! j - offset) (d ! (idx ! j)) (d[idx ! j := p_tmp])
                (idx[j := done_mark]))
      else if \<not> i + offset < length d then None
      else Some (d[i + offset := p_tmp], idx[j := done_mark]))"

fun rearrange_loop :: "nat \<Rightarrow> nat list \<Rightarrow> 'p list \<Rightarrow> nat list \<Rightarrow> ('p list \<times> nat list) option" where
  "rearrange_loop offset [] d idx = Some (d, idx)"
| "rearrange_loop offset (i # is) d idx =
     (if \<not> i < length idx then None
      else if idx ! i \<noteq> done_mark then
        (if \<not> i + offset < length d then None
         else Option.bind (rearrange_cycle offset i i (d ! (i + offset)) d idx)
                (\<lambda>(d', idx'). rearrange_loop offset is d' idx'))
      else rearrange_loop offset is d idx)"

definition ptc_rearrange_arrays :: "nat \<Rightarrow> nat \<Rightarrow> 'p particles \<Rightarrow> 'p particles option" where
  "ptc_rearrange_arrays offset num s =
     Option.bind (rearrange_loop offset [0..<num] (data s) (m_index s))
       (\<lambda>(d, idx). Some (s\<lparr>data := d, m_index := idx\<rparr>))"

subsection \<open>Sorting by cell\<close>

definition cell_index :: "nat \<Rightarrow> u32 \<Rightarrow> nat" where
  "cell_index num_cells c = (if c = empty_cell then num_cells else unat c)"

text \<open>
  First pass over the cells of a segment: \<open>index[i]\<close> is the number of earlier
  particles in the same cell, \<open>partition[c + 1]\<close> the number of particles in cell \<open>c\<close>.
\<close>

fun count_pass :: "nat \<Rightarrow> u32 list \<Rightarrow> nat list \<Rightarrow> (nat list \<times> nat list) option" where
  "count_pass num_cells [] part = Some ([], part)"
| "count_pass num_cells (c # cs) part =
     (let k = cell_index num_cells c + 1
      in if k < length part
         then Option.bind (count_pass num_cells cs (part[k := part ! k + 1]))
                (\<lambda>(idx, part'). Some (part ! k # idx, part'))
         else None)"

definition scan_pass :: "nat \<Rightarrow> nat list \<Rightarrow> nat list" where
  "scan_pass num_cells part =
     foldl (\<lambda>p i. p[i := p ! i + p ! (i - 1)]) part [1..<num_cells + 2]"

definition index_pass :: "nat \<Rightarrow> nat \<Rightarrow> u32 list \<Rightarrow> nat list \<Rightarrow> nat list \<Rightarrow> nat list" where
  "index_pass num_cells offset cs part idx =
     map2 (\<lambda>i c. i + part ! cell_index num_cells c + offset) idx cs"

text \<open>\<open>std::vector::resize\<close> keeps a prefix, \<open>buffer::resize\<close> allocates anew.\<close>

definition vector_resize :: "nat list \<Rightarrow> nat \<Rightarrow> nat list" where
  "vector_resize l n = take n l @ replicate (n - length l) 0"

definition sort_prepare ::
  "(nat \<Rightarrow> nat) \<Rightarrow> nat \<Rightarrow> 'p particles \<Rightarrow> 'p particles" where
  "sort_prepare junk num_cells s =
     (let segs = size_add (m_size s div m_sort_segment_size s) 1; parts = size_add num_cells 2
      in s\<lparr>m_partition := (if length (m_partition s) \<noteq> parts
                            then vector_resize (m_partition s) parts else m_partition s),
           m_segment_nums := (if length (m_segment_nums s) \<noteq> segs then map (\<lambda>i. word_of_nat (junk i)) [0..<segs]
                              else m_segment_nums s),
           m_index := (if length (m_index s) \<noteq> m_sort_segment_size s
                       then map junk [0..<m_sort_segment_size s] else m_index s)\<rparr>)"

text \<open>
  One turn of the loop over \<open>int n\<close>.  The scan runs over \<open>uint32_t i\<close> below
  \<open>num_cells + 2\<close>, which never ends when that is \<open>2\<^sup>3\<^sup>2\<close> or more.  The number of live
  particles of the segment is stored as an \<open>int\<close>.
\<close>

definition sort_segment ::
  "nat \<Rightarrow> int \<Rightarrow> 'a ptc_common_scheme particles \<Rightarrow> 'a ptc_common_scheme particles option" where
  "sort_segment num_cells n s =
     (let offset = size_mul (to_size n) (m_sort_segment_size s)
      in if \<not> to_size n < length (m_segment_nums s) then None
         else if offset = m_number s then Some (s\<lparr>m_segment_nums := (m_segment_nums s)[to_size n := 0]\<rparr>)
         else
           let sort_size = min (m_sort_segment_size s) (size_sub (m_number s) offset);
               cs = map cell (take sort_size (drop offset (data s)))
           in Option.bind (count_pass num_cells cs (replicate (length (m_partition s)) 0))
                (\<lambda>(idx, part).
                   if \<not> size_add num_cells 2 < 2 ^ 32 then None
                   else
                     let part = scan_pass num_cells part;
                         idx = index_pass num_cells offset cs part idx
                     in Option.bind
                          (ptc_rearrange_arrays offset sort_size
                             (s\<lparr>m_partition := part, m_index := idx @ drop sort_size (m_index s)\<rparr>))
                          (\<lambda>s'. Some (s'\<lparr>m_segment_nums :=
                                   (m_segment_nums s')[to_size n := word_of_nat (part ! num_cells)]\<rparr>))))"

fun sort_segments ::
  "nat \<Rightarrow> nat list \<Rightarrow> 'a ptc_common_scheme particles \<Rightarrow> 'a ptc_common_scheme particles option" where
  "sort_segments num_cells [] s = Some s"
| "sort_segments num_cells (n # ns) s =
     Option.bind (sort_segment num_cells (int n) s) (sort_segments num_cells ns)"

text \<open>
  Second part: the holes of segment \<open>m\<close> are filled from the end of the last
  segment, with \<open>int m\<close>, \<open>int last_segment\<close>, \<open>int deficit\<close> and \<open>int num_to_copy\<close>; the
  offsets are \<open>size_t\<close>.  The result is the new last segment.
\<close>

definition seg_num :: "'p particles \<Rightarrow> int \<Rightarrow> int" where
  "seg_num s k = sint (m_segment_nums s ! to_size k)"

definition fill_step ::
  "int \<Rightarrow> int \<Rightarrow> 'a ptc_common_scheme particles \<Rightarrow> 'a ptc_common_scheme particles option" where
  "fill_step m lst s =
     (let seg = m_sort_segment_size s;
          nums = m_segment_nums s;
          deficit = size_to_int (size_sub seg (to_size (seg_num s m)));
          num_to_copy = min deficit (seg_num s lst);
          offset_from = size_sub (size_add (size_mul (to_size lst) seg) (to_size (seg_num s lst)))
                          (to_size num_to_copy);
          offset_to = size_add (size_mul (to_size m) seg) (to_size (seg_num s m))
      in if \<not> (to_size m < length nums \<and> to_size lst < length nums) then None
         else
           Option.bind (ptc_copy_from s s (to_size num_to_copy) offset_from offset_to)
             (\<lambda>s1. let s2 = erase offset_from (to_size num_to_copy) s1
                   in Option.bind (int_add (nums ! to_size m) num_to_copy)
                        (\<lambda>k. let nums1 = nums[to_size m := k]
                             in Option.bind (int_add (nums1 ! to_size lst) (- num_to_copy))
                                  (\<lambda>l. Some (s2\<lparr>m_segment_nums := nums1[to_size lst := l]\<rparr>)))))"

partial_function (option) fill_segment ::
  "int \<Rightarrow> int \<Rightarrow> 'a ptc_common_scheme particles \<Rightarrow> (int \<times> 'a ptc_common_scheme particles) option" where
  [code]: "fill_segment m lst s =
     (if to_size (seg_num s m) < m_sort_segment_size s then
        Option.bind (fill_step m lst s)
          (\<lambda>s'. if seg_num s' lst = 0
                then (if lst - 1 = m then Some (lst - 1, s') else fill_segment m (lst - 1) s')
                else fill_segment m lst s')
      else Some (lst, s))"

partial_function (option) defrag ::
  "int \<Rightarrow> int \<Rightarrow> 'a ptc_common_scheme particles \<Rightarrow> (int \<times> 'a ptc_common_scheme particles) option" where
  [code]: "defrag m lst s =
     (if m < lst
      then Option.bind (fill_segment m lst s) (\<lambda>(lst', s'). defrag (m + 1) lst' s')
      else Some (lst, s))"

text \<open>
  The first loop counts \<open>int n\<close> up to \<open>number / segment_size + 1\<close>; at \<open>2\<^sup>3\<^sup>1\<close> or more
  segments its \<open>n++\<close> overflows.  In the second \<open>m < last_segment\<close> holds whenever \<open>m++\<close>
  and \<open>last_segment -= 1\<close> are reached, so these stay in range.
\<close>

definition ptc_sort_by_cell ::
  "(nat \<Rightarrow> nat) \<Rightarrow> nat \<Rightarrow> 'a ptc_common_scheme particles
     \<Rightarrow> 'a ptc_common_scheme particles option" where
  "ptc_sort_by_cell junk num_cells s =
     (if m_number s > 0 then
        if m_sort_segment_size s = 0 then None
        else
          let s0 = sort_prepare junk num_cells s;
              seg = m_sort_segment_size s0;
              segs = size_add (m_number s0 div seg) 1
          in if \<not> segs < 2 ^ 31 then None
             else
               Option.bind (sort_segments num_cells [0..<segs] s0)
                 (\<lambda>s1. Option.bind (defrag 0 (size_to_int (m_number s1 div seg)) s1)
                    (\<lambda>(lst, s2). Some (set_num (size_add (size_mul (to_size lst) seg)
                                               (to_size (seg_num s2 lst))) s2)))
      else Some s)"

subsection \<open>Receiving from a buffer\<close>

definition ptc_copy_from_buffer ::
  "'p particles \<Rightarrow> 'p list \<Rightarrow> int \<Rightarrow> nat \<Rightarrow> 'p particles" where
  "ptc_copy_from_buffer s buf num dst_idx =
     (let num = (if size_add dst_idx (to_size num) > m_size s
                 then size_to_int (size_sub (m_size s) dst_idx) else num);
          s' = (if num > 0
                then s\<lparr>data := foldl (\<lambda>d n. d[dst_idx + n := buf ! n]) (data s) [0..<nat num]\<rparr>
                else s)
      in if size_add dst_idx (to_size num) > m_number s'
         then set_num (size_add dst_idx (to_size num)) s' else s')"

end
