(* ===== verification/ParticleSort.thy ===== *)
theory ParticleSort
  imports Particles
begin

text \<open>
  The lemmas on \<open>ptc_rearrange_arrays\<close> and \<open>ptc_sort_by_cell\<close>: the in-place
  rearrangement follows the cycles of a permutation, the two counting passes
  produce that permutation, every segment comes out sorted by cell, and the
  second part moves the particles of the last segments into the holes.
\<close>

subsection \<open>The cycles of a permutation\<close>

text \<open>
  State of the rearrangement: the positions in \<open>M\<close> are done, their particles have
  arrived; every other cell of the data is as it was.
\<close>

definition rearranged ::
  "(nat \<Rightarrow> nat) \<Rightarrow> nat \<Rightarrow> nat \<Rightarrow> nat \<Rightarrow> 'p list \<Rightarrow> nat set \<Rightarrow> 'p list \<Rightarrow> nat list \<Rightarrow> bool" where
  "rearranged perm off n L D0 M d idx =
     (M \<subseteq> {..<n} \<and> length d = length D0 \<and> length idx = L \<and> n \<le> L \<and> off + n \<le> length D0
      \<and> (\<forall>j < n. idx ! j = (if j \<in> M then done_mark else off + perm j))
      \<and> (\<forall>m \<in> M. d ! (off + perm m) = D0 ! (off + m))
      \<and> (\<forall>q < length D0. q \<notin> (\<lambda>m. off + perm m) ` M \<longrightarrow> d ! q = D0 ! q))"

lemma rearranged_insert:
  assumes r: "rearranged perm off n L D0 M d idx" and inj: "inj_on perm {..<n}" and rng: "perm ` {..<n} \<subseteq> {..<n}"
    and j: "j < n" "j \<notin> M"
  shows "rearranged perm off n L D0 (insert j M) (d[off + perm j := D0 ! (off + j)]) (idx[j := done_mark])"
proof -
  have pj: "off + perm j < length D0" using r rng j by (fastforce simp: rearranged_def)
  have ne: "perm m \<noteq> perm j" if "m \<in> M" for m
    using that inj j r by (auto simp: rearranged_def inj_on_def)
  have len: "length d = length D0" "j < length idx" using r j by (auto simp: rearranged_def)
  show ?thesis
    unfolding rearranged_def
  proof (intro conjI allI impI ballI)
    fix m assume "m \<in> insert j M"
    then show "d[off + perm j := D0 ! (off + j)] ! (off + perm m) = D0 ! (off + m)"
      using r pj ne[of m] len by (cases "m = j") (auto simp: rearranged_def nth_list_update dest: sym)
  qed (use r pj len j in \<open>auto simp: rearranged_def nth_list_update\<close>)
qed

lemma rearrange_cycle_correct:
  assumes inj: "inj_on perm {..<n}" and rng: "perm ` {..<n} \<subseteq> {..<n}" and "i < n"
    and "rearranged perm off n L D0 M d idx" "j < n" "j \<notin> M" "i \<notin> perm ` M"
    "insert i (perm ` M) = insert j M" "t = D0 ! (off + j)"
  shows "\<exists>d' idx' M'. rearrange_cycle off i j t d idx = Some (d', idx')
    \<and> rearranged perm off n L D0 M' d' idx' \<and> perm ` M' = M' \<and> M \<subseteq> M' \<and> i \<in> M'"
  using assms(4-)
proof (induction "n - card M" arbitrary: M j t d idx rule: less_induct)
  case less
  note r = less.prems(1)
  have idx: "j < length idx" "idx ! j = off + perm j" and len: "length d = length D0"
    using r less.prems(2,3) by (auto simp: rearranged_def)
  have pj: "perm j < n" using rng less.prems(2) by auto
  have pjl: "off + perm j < length d" using pj r by (auto simp: rearranged_def)
  note next' = rearranged_insert[OF r inj rng less.prems(2,3)]
  show ?case
  proof (cases "perm j = i")
    case True
    have "rearrange_cycle off i j t d idx = Some (d[i + off := t], idx[j := done_mark])"
      using True idx pjl by (simp add: rearrange_cycle.simps add.commute)
    moreover have "rearranged perm off n L D0 (insert j M) (d[i + off := t]) (idx[j := done_mark])"
      using next' True less.prems(6) by (simp add: add.commute)
    moreover have "perm ` insert j M = insert j M" using True less.prems(5) by simp
    moreover have "i \<in> insert j M" using less.prems(5) by blast
    ultimately show ?thesis by blast
  next
    case False
    have fresh: "perm j \<notin> insert j M"
    proof
      assume a: "perm j \<in> insert j M"
      then have "perm j \<in> perm ` M" using less.prems(5) False by blast
      then obtain m where "m \<in> M" "perm m = perm j" by force
      moreover have "m < n" using r \<open>m \<in> M\<close> by (auto simp: rearranged_def)
      ultimately have "m = j" using inj less.prems(2) by (auto simp: inj_on_def)
      then show False using \<open>m \<in> M\<close> less.prems(3) by simp
    qed
    have "off + perm j \<notin> (\<lambda>m. off + perm m) ` M"
      using fresh less.prems(5) False by auto
    then have val: "d ! (off + perm j) = D0 ! (off + perm j)"
      using r pjl len by (auto simp: rearranged_def)
    have fin: "finite M" using r finite_subset by (auto simp: rearranged_def)
    have "insert j M \<subseteq> {..<n}" using r less.prems(2) by (auto simp: rearranged_def)
    then have "card (insert j M) \<le> n" using card_mono[of "{..<n}"] by fastforce
    then have "n - card (insert j M) < n - card M" using less.prems(3) fin by simp
    moreover have "i \<notin> perm ` insert j M" using less.prems(4) False by auto
    moreover have "insert i (perm ` insert j M) = insert (perm j) (insert j M)"
      using less.prems(5) by auto
    ultimately obtain d' idx' M' where
      "rearrange_cycle off i (perm j) (D0 ! (off + perm j)) (d[off + perm j := t]) (idx[j := done_mark]) = Some (d', idx')"
      "rearranged perm off n L D0 M' d' idx'" "perm ` M' = M'" "insert j M \<subseteq> M'" "i \<in> M'"
      using less.hyps[of "insert j M"] next' pj fresh less.prems(6) by metis
    moreover have "rearrange_cycle off i j t d idx
        = rearrange_cycle off i (perm j) (D0 ! (off + perm j)) (d[off + perm j := t]) (idx[j := done_mark])"
      using idx pjl False val by (simp add: rearrange_cycle.simps[of off i j])
    ultimately show ?thesis by auto
  qed
qed

lemma rearrange_loop_correct:
  assumes inj: "inj_on perm {..<n}" and rng: "perm ` {..<n} \<subseteq> {..<n}" and big: "off + n \<le> done_mark"
    and "rearranged perm off n L D0 M d idx" "perm ` M = M" "set is \<subseteq> {..<n}"
  shows "\<exists>d' idx' M'. rearrange_loop off is d idx = Some (d', idx')
    \<and> rearranged perm off n L D0 M' d' idx' \<and> M \<union> set is \<subseteq> M'"
  using assms(4-)
proof (induction "is" arbitrary: d idx M)
  case (Cons i "is")
  note r = Cons.prems(1)
  have i: "i < n" "i < length idx" "idx ! i = (if i \<in> M then done_mark else off + perm i)"
    using r Cons.prems(3) by (auto simp: rearranged_def)
  show ?case
  proof (cases "i \<in> M")
    case True
    from Cons.IH[OF r Cons.prems(2)] Cons.prems(3) obtain d' idx' M' where
      "rearrange_loop off is d idx = Some (d', idx')" "rearranged perm off n L D0 M' d' idx'"
      "M \<union> set is \<subseteq> M'" by auto
    then show ?thesis using i True by auto
  next
    case False
    have "perm i < n" using rng i(1) by auto
    then have ne: "idx ! i \<noteq> done_mark" using i(3) False big by simp
    have l: "i + off < length d" using r i(1) by (auto simp: rearranged_def)
    have "off + i \<notin> (\<lambda>m. off + perm m) ` M" using False Cons.prems(2) by auto
    then have val: "d ! (i + off) = D0 ! (off + i)"
      using r l by (auto simp: rearranged_def add.commute)
    from rearrange_cycle_correct[OF inj rng i(1) r i(1) False _ _ val] Cons.prems(2) False
    obtain d1 idx1 M1 where c: "rearrange_cycle off i i (d ! (i + off)) d idx = Some (d1, idx1)"
      "rearranged perm off n L D0 M1 d1 idx1" "perm ` M1 = M1" "M \<subseteq> M1" "i \<in> M1" by auto
    from Cons.IH[OF c(2,3)] Cons.prems(3) obtain d' idx' M' where
      "rearrange_loop off is d1 idx1 = Some (d', idx')" "rearranged perm off n L D0 M' d' idx'"
      "M1 \<union> set is \<subseteq> M'" by auto
    then show ?thesis using i(2) ne l c by auto
  qed
qed auto

lemma rearrange_arrays_correct:
  assumes "inj_on perm {..<n}" "perm ` {..<n} \<subseteq> {..<n}" "off + n \<le> done_mark"
    "n \<le> length (m_index s)" "off + n \<le> length (data s)" "\<forall>j < n. m_index s ! j = off + perm j"
  shows "\<exists>d idx. ptc_rearrange_arrays off n s = Some (s\<lparr>data := d, m_index := idx\<rparr>)
    \<and> length d = length (data s) \<and> length idx = length (m_index s)
    \<and> (\<forall>j < n. d ! (off + perm j) = data s ! (off + j))
    \<and> (\<forall>q < length (data s). \<not> (off \<le> q \<and> q < off + n) \<longrightarrow> d ! q = data s ! q)"
proof -
  have r: "rearranged perm off n (length (m_index s)) (data s) {} (data s) (m_index s)"
    using assms(4-6) by (simp add: rearranged_def)
  from rearrange_loop_correct[OF assms(1-3) r, of "[0..<n]"]
  obtain d idx M where m: "rearrange_loop off [0..<n] (data s) (m_index s) = Some (d, idx)"
    "rearranged perm off n (length (m_index s)) (data s) M d idx" "{..<n} \<subseteq> M" by (auto simp: atLeast0LessThan)
  have M: "M = {..<n}" using m(2,3) by (auto simp: rearranged_def)
  have "q \<notin> (\<lambda>m. off + perm m) ` M" if "\<not> (off \<le> q \<and> q < off + n)" for q
    using that assms(2) M by fastforce
  then show ?thesis
    using m M by (intro exI[of _ d] exI[of _ idx]) (auto simp: ptc_rearrange_arrays_def rearranged_def)
qed

subsection \<open>The two passes\<close>

lemma count_pass_correct:
  assumes "\<forall>c \<in> set cs. cell_index num_cells c + 1 < length part"
  shows "\<exists>idx part'. count_pass num_cells cs part = Some (idx, part')
    \<and> length idx = length cs \<and> length part' = length part
    \<and> (0 < length part \<longrightarrow> part' ! 0 = part ! 0)
    \<and> (\<forall>k. k + 1 < length part \<longrightarrow>
         part' ! (k + 1) = part ! (k + 1) + count_list (map (cell_index num_cells) cs) k)
    \<and> (\<forall>i < length cs. idx ! i = part ! (cell_index num_cells (cs ! i) + 1)
         + count_list (take i (map (cell_index num_cells) cs)) (cell_index num_cells (cs ! i)))"
  using assms
proof (induction cs arbitrary: part)
  case (Cons c cs)
  let ?k = "cell_index num_cells c + 1"
  have k: "?k < length part" using Cons.prems by simp
  from Cons.IH[of "part[?k := part ! ?k + 1]"] Cons.prems obtain idx part' where
    IH: "count_pass num_cells cs (part[?k := part ! ?k + 1]) = Some (idx, part')"
    "length idx = length cs" "length part' = length part"
    "0 < length part \<longrightarrow> part' ! 0 = part[?k := part ! ?k + 1] ! 0"
    "\<And>k. k + 1 < length part \<Longrightarrow> part' ! (k + 1) = part[?k := part ! ?k + 1] ! (k + 1)
       + count_list (map (cell_index num_cells) cs) k"
    "\<And>i. i < length cs \<Longrightarrow> idx ! i = part[?k := part ! ?k + 1] ! (cell_index num_cells (cs ! i) + 1)
         + count_list (take i (map (cell_index num_cells) cs)) (cell_index num_cells (cs ! i))"
    by auto
  have "count_pass num_cells (c # cs) part = Some (part ! ?k # idx, part')"
    using IH(1) k by simp
  moreover have "(part ! ?k # idx) ! i = part ! (cell_index num_cells ((c # cs) ! i) + 1)
      + count_list (take i (map (cell_index num_cells) (c # cs))) (cell_index num_cells ((c # cs) ! i))"
    if "i < length (c # cs)" for i
  proof (cases i)
    case (Suc j)
    then have "cell_index num_cells (cs ! j) + 1 < length part" using that Cons.prems by simp
    then show ?thesis using IH(6)[of j] that Suc by (auto simp: nth_list_update)
  qed simp
  moreover have "part' ! (k + 1) = part ! (k + 1) + count_list (map (cell_index num_cells) (c # cs)) k"
    if "k + 1 < length part" for k
    using IH(5)[OF that] that by (auto simp: nth_list_update)
  ultimately show ?case using IH(2,3,4) by simp
qed simp

lemma scan_prefix:
  assumes "m \<le> length part"
  shows "length (foldl (\<lambda>p i. p[i := p ! i + p ! (i - 1)]) part [1..<m]) = length part
    \<and> (\<forall>i < length part. foldl (\<lambda>p i. p[i := p ! i + p ! (i - 1)]) part [1..<m] ! i
         = (if i < m then \<Sum>t \<le> i. part ! t else part ! i))"
  using assms
proof (induction m)
  case (Suc m)
  show ?case
  proof (cases "m = 0")
    case True then show ?thesis by auto
  next
    case False
    let ?f = "foldl (\<lambda>p i. p[i := p ! i + p ! (i - 1)]) part [1..<m]"
    have IH: "length ?f = length part"
      "\<And>i. i < length part \<Longrightarrow> ?f ! i = (if i < m then \<Sum>t \<le> i. part ! t else part ! i)"
      using Suc by auto
    have e: "foldl (\<lambda>p i. p[i := p ! i + p ! (i - 1)]) part [1..<Suc m] = ?f[m := ?f ! m + ?f ! (m - 1)]"
      using False by simp
    obtain m' where m': "m = Suc m'" using False by (cases m) auto
    have "?f ! m + ?f ! (m - 1) = (\<Sum>t \<le> m. part ! t)"
      using IH(2)[of m] IH(2)[of m'] Suc.prems m' by (simp add: add.commute)
    then show ?thesis
      unfolding e using IH Suc.prems by (auto simp: nth_list_update less_Suc_eq)
  qed
qed auto

lemma sum_count_list:
  "(\<Sum>k < i. count_list ks k) = length (filter (\<lambda>k. k < (i::nat)) ks)"
proof (induction ks)
  case (Cons a ks)
  have "count_list (a # ks) k = count_list ks k + (if a = k then 1 else 0)" for k by simp
  moreover have "(\<Sum>k < i. if a = k then 1 else 0) = (if a < i then 1 else (0::nat))" by simp
  ultimately show ?case using Cons by (simp only: sum.distrib) simp
qed simp

text \<open>The position computed for entry \<open>i\<close>: all smaller keys, and the equal ones before it.\<close>

definition posn :: "nat list \<Rightarrow> nat \<Rightarrow> nat" where
  "posn ks i = length (filter (\<lambda>k. k < ks ! i) ks) + count_list (take i ks) (ks ! i)"

lemma scan_pass_starts:
  assumes "length part = num_cells + 2" "part ! 0 = 0"
    "\<forall>k. k + 1 < length part \<longrightarrow> part ! (k + 1) = count_list ks k" "i < num_cells + 2"
  shows "scan_pass num_cells part ! i = length (filter (\<lambda>k. k < i) ks)"
proof -
  have "scan_pass num_cells part ! i = (\<Sum>t \<le> i. part ! t)"
    using scan_prefix[of "num_cells + 2" part] assms(1,4) by (simp add: scan_pass_def)
  also have "\<dots> = (\<Sum>k < i. part ! (k + 1))"
    unfolding sum.atMost_shift using assms(2) by simp
  also have "\<dots> = (\<Sum>k < i. count_list ks k)"
    using assms(1,3,4) by (intro sum.cong) auto
  finally show ?thesis by (simp add: sum_count_list)
qed

lemma filter_lt_count:
  "length (filter (\<lambda>k. k < (x::nat)) ks) + count_list ks x = length (filter (\<lambda>k. k \<le> x) ks)"
  by (induction ks) auto

lemma count_take_less: "i < length ks \<Longrightarrow> count_list (take i ks) (ks ! i) < count_list ks (ks ! i)"
proof -
  assume "i < length ks"
  then have "ks = take i ks @ ks ! i # drop (Suc i) ks" by (rule id_take_nth_drop)
  then have "count_list ks (ks ! i) = count_list (take i ks @ ks ! i # drop (Suc i) ks) (ks ! i)"
    by simp
  then show ?thesis unfolding count_list_append by simp
qed

lemma posn_less:
  assumes "i < length ks"
  shows "posn ks i < length (filter (\<lambda>k. k \<le> ks ! i) ks)"
  using count_take_less[OF assms] filter_lt_count[of "ks ! i" ks] by (simp add: posn_def)

lemma filter_le_mono:
  assumes "x < (y::nat)"
  shows "length (filter (\<lambda>k. k \<le> x) ks) \<le> length (filter (\<lambda>k. k < y) ks)"
  using assms by (induction ks) auto

lemma posn_key_mono: "i < length ks \<Longrightarrow> ks ! i < ks ! j \<Longrightarrow> posn ks i < posn ks j"
  using posn_less[of i ks] filter_le_mono[of "ks ! i" "ks ! j" ks] by (simp add: posn_def)

lemma count_take_mono:
  assumes "i < j" "j \<le> length ks"
  shows "count_list (take i ks) (ks ! i) < count_list (take j ks) (ks ! i)"
  using count_take_less[of i "take j ks"] assms by (simp add: min_def)

lemma posn_stable: "i < j \<Longrightarrow> j < length ks \<Longrightarrow> ks ! i = ks ! j \<Longrightarrow> posn ks i < posn ks j"
  using count_take_mono[of i j ks] by (simp add: posn_def)

lemma posn_inj: "inj_on (posn ks) {..<length ks}"
proof (rule inj_onI)
  fix i j assume a: "i \<in> {..<length ks}" "j \<in> {..<length ks}" "posn ks i = posn ks j"
  show "i = j"
    using posn_key_mono[of i ks j] posn_key_mono[of j ks i] posn_stable[of i j ks] posn_stable[of j i ks] a
    by (cases "ks ! i" "ks ! j" rule: linorder_cases; cases i j rule: linorder_cases) auto
qed

lemma posn_range: "posn ks ` {..<length ks} \<subseteq> {..<length ks}"
proof
  fix p assume "p \<in> posn ks ` {..<length ks}"
  then obtain i where "i < length ks" "p = posn ks i" by auto
  then have "p < length (filter (\<lambda>k. k \<le> ks ! i) ks)" using posn_less by simp
  then show "p \<in> {..<length ks}" using length_filter_le order.strict_trans2 by fastforce
qed

lemma posn_bij: "posn ks ` {..<length ks} = {..<length ks}"
  using posn_inj posn_range by (simp add: card_image card_subset_eq)

text \<open>A list whose entries were sent to these positions is sorted by key and has the same elements.\<close>

lemma placed_sorted:
  assumes "length ys = length xs" "\<forall>i < length xs. ys ! posn (map f xs) i = xs ! i"
  shows "sorted (map f ys)" "mset ys = mset xs"
proof -
  let ?p = "posn (map f xs)" and ?n = "length xs"
  have bij: "?p ` {..<?n} = {..<?n}" and inj: "inj_on ?p {..<?n}"
    using posn_bij[of "map f xs"] posn_inj[of "map f xs"] by simp_all
  show "sorted (map f ys)"
    unfolding sorted_iff_nth_mono_less
  proof (intro allI impI)
    fix p q assume pq: "p < q" "q < length (map f ys)"
    then obtain i j where ij: "i < ?n" "j < ?n" "p = ?p i" "q = ?p j"
      using bij assms(1) by (metis (no_types, lifting) imageE length_map lessThan_iff order.strict_trans)
    have "\<not> f (xs ! j) < f (xs ! i)"
      using posn_key_mono[of j "map f xs" i] ij pq(1) by auto
    then show "map f ys ! p \<le> map f ys ! q"
      using assms pq ij posn_range[of "map f xs"] by auto
  qed
  have m: "mset zs = image_mset (\<lambda>i. zs ! i) (mset_set {..<length zs})" for zs :: "'a list"
    by (metis atLeast0LessThan map_nth mset_map mset_upt)
  have "mset ys = image_mset (\<lambda>i. ys ! i) (mset_set (?p ` {..<?n}))"
    using m[of ys] bij assms(1) by simp
  also have "\<dots> = image_mset (\<lambda>i. ys ! ?p i) (mset_set {..<?n})"
    using image_mset_mset_set[OF inj] by (simp add: image_mset.compositionality comp_def flip: image_mset_mset_set[OF inj])
  also have "\<dots> = image_mset (\<lambda>i. xs ! i) (mset_set {..<?n})"
    using assms(2) by (intro image_mset_cong) auto
  finally show "mset ys = mset xs" using m[of xs] by simp
qed

lemma sorted_filter_prefix:
  assumes "sorted (map f ys)" "p < length ys"
  shows "(f (ys ! p) < (c::nat)) = (p < length (filter (\<lambda>y. f y < c) ys))"
  using assms
proof (induction ys arbitrary: p)
  case (Cons y ys)
  show ?case
  proof (cases "f y < c")
    case True
    then show ?thesis using Cons by (cases p) auto
  next
    case False
    then have "\<forall>z \<in> set (y # ys). \<not> f z < c" using Cons.prems(1) by fastforce
    then show ?thesis using Cons.prems(2) by (metis filter_False list.size(3) not_less_zero nth_mem)
  qed
qed simp

subsection \<open>One segment\<close>

text \<open>Conversions of values that fit an \<open>int\<close>.\<close>

lemma to_size_small: "0 \<le> v \<Longrightarrow> v < 2 ^ 64 \<Longrightarrow> to_size v = nat v"
  by (simp add: to_size_def)

lemma to_size_int [simp]:
  assumes "n < 2 ^ 64"
  shows "to_size (int n) = n"
proof -
  have "int n < 2 ^ 64" using assms by simp
  then show ?thesis using to_size_small[of "int n"] by simp
qed

lemma int_lt31: "n < 2 ^ 31 \<Longrightarrow> int n < 2 ^ 31"
  by simp

lemma size_to_int_fits [simp]: "n < 2 ^ 31 \<Longrightarrow> size_to_int n = int n"
  using sint_of_int32[of "int n"] by (simp add: size_to_int_def)

lemma uint_eq_unat: "uint (w :: 'a::len word) = int (unat w)"
  by (rule uint_nat)

lemma int_ge31: "- (2 ^ 31) \<le> int n"
  by simp

lemma sint_eq_unat32:
  assumes "unat (w :: i32) < 2 ^ 31"
  shows "sint w = int (unat w)"
proof -
  have "uint w < 2 ^ 31" unfolding uint_eq_unat by (rule int_lt31[OF assms])
  then show ?thesis using sint_eq_uint32 uint_eq_unat by metis
qed

lemma to_size_sint: "unat (w :: i32) < 2 ^ 31 \<Longrightarrow> to_size (sint w) = unat w"
  unfolding sint_eq_unat32 by (rule to_size_int) simp

lemma unat_of_nat32: "n < 2 ^ 31 \<Longrightarrow> unat (word_of_nat n :: i32) = n"
  by (simp add: unat_of_nat take_bit_nat_eq_self)

lemma size_sub_le: "b \<le> a \<Longrightarrow> a < 2 ^ 64 \<Longrightarrow> size_sub a b = a - b"
proof -
  assume "b \<le> a" "a < 2 ^ 64"
  then have "a + (2 ^ 64 - b) = (a - b) + 2 ^ 64" by simp
  then have "size_sub a b = (a - b) mod 2 ^ 64" unfolding size_sub_def by (simp only: mod_add_self2)
  then show ?thesis using \<open>a < 2 ^ 64\<close> by simp
qed

lemma size_add_lt: "a + b < 2 ^ 64 \<Longrightarrow> size_add a b = a + b"
  by (simp add: size_add_def)

lemma size_mul_lt: "a * b < 2 ^ 64 \<Longrightarrow> size_mul a b = a * b"
  by (simp add: size_mul_def)

lemma int_add_plus:
  assumes "unat w + k < 2 ^ 31"
  shows "\<exists>v. int_add w (int k) = Some v \<and> unat v = unat w + k"
proof -
  have w: "sint w = int (unat w)" using assms by (intro sint_eq_unat32) simp
  then have e: "sint w + int k = int (unat w + k)" by (simp only: of_nat_add)
  have "int_add w (int k) = Some (word_of_nat (unat w + k))"
    unfolding int_add_def e of_int_of_nat_eq using int_lt31[OF assms] int_ge31 by (simp only: if_True simp_thms)
  then show ?thesis using unat_of_nat32[OF assms] by blast
qed

lemma int_add_minus:
  assumes "unat w < 2 ^ 31" "k \<le> unat w"
  shows "\<exists>v. int_add w (- int k) = Some v \<and> unat v = unat w - k"
proof -
  have e: "sint w + - int k = int (unat w - k)" using assms(2) sint_eq_unat32[OF assms(1)] by linarith
  have b: "unat w - k < 2 ^ 31" using assms by simp
  then have "int_add w (- int k) = Some (word_of_nat (unat w - k))"
    unfolding int_add_def e of_int_of_nat_eq using int_lt31 int_ge31 by (simp only: if_True simp_thms)
  then show ?thesis using unat_of_nat32[OF b] by blast
qed

definition ptc_ok :: "'a ptc_common_scheme particles \<Rightarrow> bool" where
  "ptc_ok s = (length (data s) = m_size s \<and> m_number s \<le> m_size s \<and> m_size s < 2 ^ 63
     \<and> 0 < m_sort_segment_size s)"

text \<open>
  The \<open>int\<close> variables of the sort hold: the particles of one segment and the number
  of segments fit an \<open>int\<close>, and the cells, with two more, a \<open>uint32_t\<close>.
\<close>

definition sort_fits :: "nat \<Rightarrow> 'a ptc_common_scheme particles \<Rightarrow> bool" where
  "sort_fits num_cells s =
     (min (m_sort_segment_size s) (m_number s) < 2 ^ 31
      \<and> m_number s div m_sort_segment_size s + 1 < 2 ^ 31 \<and> num_cells + 2 < 2 ^ 32)"

definition cells_ok :: "nat \<Rightarrow> 'a ptc_common_scheme particles \<Rightarrow> bool" where
  "cells_ok num_cells s = (\<forall>i < m_number s. live (data s ! i) \<longrightarrow> unat (cell (data s ! i)) < num_cells)"

definition sort_key :: "nat \<Rightarrow> 'a ptc_common_scheme \<Rightarrow> nat" where
  "sort_key num_cells q = cell_index num_cells (cell q)"

lemma sort_key_live:
  "(live q \<longrightarrow> unat (cell q) < num_cells) \<Longrightarrow> (sort_key num_cells q < num_cells) = live q"
  by (auto simp: sort_key_def cell_index_def live_def)

definition slice :: "nat \<Rightarrow> nat \<Rightarrow> 'p list \<Rightarrow> 'p list" where
  "slice off n l = take n (drop off l)"

lemma slice_nth: "off + n \<le> length l \<Longrightarrow> i < n \<Longrightarrow> slice off n l ! i = l ! (off + i)"
  by (simp add: slice_def)

lemma length_slice: "off + n \<le> length l \<Longrightarrow> length (slice off n l) = n"
  by (simp add: slice_def)

lemma sort_segment_correct:
  assumes ok: "ptc_ok s" and fits: "sort_fits num_cells s"
    and off: "off = k * m_sort_segment_size s" "off < m_number s"
    and n: "n = min (m_sort_segment_size s) (m_number s - off)"
    and cells: "\<forall>q \<in> set (slice off n (data s)). live q \<longrightarrow> unat (cell q) < num_cells"
    and part: "length (m_partition s) = num_cells + 2" and idx: "length (m_index s) = m_sort_segment_size s"
    and nums: "k < length (m_segment_nums s)"
  shows "\<exists>s'. sort_segment num_cells (int k) s = Some s'
    \<and> (\<exists>d idx part. length d = length (data s) \<and> length idx = length (m_index s) \<and> length part = num_cells + 2
        \<and> s' = s\<lparr>data := d, m_index := idx, m_partition := part,
                 m_segment_nums := (m_segment_nums s)[k := word_of_nat (length (filter live (slice off n (data s))))]\<rparr>
        \<and> (\<forall>q < length (data s). \<not> (off \<le> q \<and> q < off + n) \<longrightarrow> d ! q = data s ! q)
        \<and> mset (slice off n d) = mset (slice off n (data s))
        \<and> sorted (map (sort_key num_cells) (slice off n d)))"
proof -
  let ?sl = "slice off n (data s)" and ?ks = "map (sort_key num_cells) (slice off n (data s))"
  define cs where "cs = map cell ?sl"
  have ks: "map (cell_index num_cells) cs = ?ks" by (simp add: cs_def sort_key_def)
  have bound: "off + n \<le> length (data s)" using ok off(2) unfolding n ptc_ok_def by linarith
  have len: "length ?sl = n" "length cs = n" using length_slice[OF bound] by (simp_all add: cs_def)
  have key: "cell_index num_cells c \<le> num_cells" if "c \<in> set cs" for c
    using that cells by (fastforce simp: cs_def cell_index_def live_def)
  define z where "z = replicate (length (m_partition s)) (0 :: nat)"
  have z: "length z = num_cells + 2" "\<And>i. i < num_cells + 2 \<Longrightarrow> z ! i = 0"
    using part by (simp_all add: z_def del: replicate.simps)
  obtain idx1 part1 where cp: "count_pass num_cells cs z = Some (idx1, part1)"
    "length idx1 = n" "length part1 = num_cells + 2" "part1 ! 0 = 0"
    "\<forall>k. k + 1 < length part1 \<longrightarrow> part1 ! (k + 1) = count_list ?ks k"
    "\<forall>i < n. idx1 ! i = count_list (take i ?ks) (?ks ! i)"
  proof -
    have "\<forall>c \<in> set cs. cell_index num_cells c + 1 < length z"
      using key z(1) by (simp add: le_imp_less_Suc)
    from count_pass_correct[OF this] obtain idx1 part1 where
      "count_pass num_cells cs z = Some (idx1, part1)" "length idx1 = length cs"
      "length part1 = num_cells + 2" "part1 ! 0 = 0"
      "\<forall>k. k + 1 < num_cells + 2 \<longrightarrow> part1 ! (k + 1) = z ! (k + 1) + count_list ?ks k"
      "\<forall>i < length cs. idx1 ! i = z ! (cell_index num_cells (cs ! i) + 1)
         + count_list (take i ?ks) (cell_index num_cells (cs ! i))"
      unfolding ks using z by auto
    moreover have "z ! (cell_index num_cells (cs ! i) + 1) = 0" if "i < n" for i
      using key[of "cs ! i"] that len by (intro z(2)) simp
    moreover have "cell_index num_cells (cs ! i) = ?ks ! i" if "i < n" for i
      using that len by (simp flip: ks)
    ultimately show ?thesis using that[of idx1 part1] len z(2) by auto
  qed
  define part2 where "part2 = scan_pass num_cells part1"
  have p2: "length part2 = num_cells + 2"
    using scan_prefix[of "num_cells + 2" part1] cp(3) by (simp add: part2_def scan_pass_def)
  have p2k: "part2 ! i = length (filter (\<lambda>k. k < i) ?ks)" if "i < num_cells + 2" for i
    unfolding part2_def by (rule scan_pass_starts[OF cp(3,4,5) that])
  define idx2 where "idx2 = index_pass num_cells off cs part2 idx1"
  have i2: "length idx2 = n" using cp(2) len by (simp add: idx2_def index_pass_def)
  have i2k: "idx2 ! j = off + posn ?ks j" if "j < n" for j
  proof -
    have "cell_index num_cells (cs ! j) = ?ks ! j" using that len by (simp flip: ks)
    moreover have "?ks ! j < num_cells + 2" using key[of "cs ! j"] calculation that len by simp
    ultimately show ?thesis
      using that cp(2,6) len p2k by (simp add: idx2_def index_pass_def posn_def)
  qed
  let ?s1 = "s\<lparr>m_partition := part2, m_index := idx2 @ drop n (m_index s)\<rparr>"
  have nseg: "n \<le> m_sort_segment_size s" using n by simp
  have "off + n \<le> done_mark" using bound ok by (simp add: ptc_ok_def done_mark_def)
  moreover have "inj_on (posn ?ks) {..<n}" "posn ?ks ` {..<n} \<subseteq> {..<n}"
    using posn_inj[of ?ks] posn_range[of ?ks] len by simp_all
  moreover have "\<forall>j < n. m_index ?s1 ! j = off + posn ?ks j" using i2 i2k by (simp add: nth_append)
  ultimately obtain d idx3 where r:
    "ptc_rearrange_arrays off n ?s1 = Some (?s1\<lparr>data := d, m_index := idx3\<rparr>)"
    "length d = length (data s)" "length idx3 = length (m_index ?s1)"
    "\<forall>j < n. d ! (off + posn ?ks j) = data s ! (off + j)"
    "\<forall>q < length (data s). \<not> (off \<le> q \<and> q < off + n) \<longrightarrow> d ! q = data s ! q"
    using rearrange_arrays_correct[of "posn ?ks" n off ?s1] bound i2 by auto
  have b2: "off + n \<le> length d" using bound r(2) by simp
  have pl: "\<forall>i < length ?sl. slice off n d ! posn ?ks i = ?sl ! i"
  proof (intro allI impI)
    fix i assume "i < length ?sl"
    then have i: "i < n" using len by simp
    then have "posn ?ks i < n" using posn_range[of ?ks] len by auto
    then show "slice off n d ! posn ?ks i = ?sl ! i"
      using slice_nth[OF b2] slice_nth[OF bound i] r(4) i by simp
  qed
  have ln: "length (slice off n d) = length ?sl" using length_slice[OF b2] len by simp
  note ms = placed_sorted[OF ln pl]
  have "part2 ! num_cells = length (filter live ?sl)"
  proof -
    have "filter (\<lambda>q. sort_key num_cells q < num_cells) ?sl = filter live ?sl"
      using cells by (intro filter_cong) (auto simp: sort_key_live)
    then show ?thesis using p2k[of num_cells] by (simp add: filter_map comp_def)
  qed
  moreover have "sort_segment num_cells (int k) s = Some ((?s1\<lparr>data := d, m_index := idx3\<rparr>)
      \<lparr>m_segment_nums := (m_segment_nums s)[k := word_of_nat (part2 ! num_cells)]\<rparr>)"
  proof -
    have N: "m_number s < 2 ^ 64" using ok by (simp add: ptc_ok_def)
    have "k \<le> off" using ok off(1) by (simp add: ptc_ok_def)
    then have k: "to_size (int k) = k" using off(2) N by simp
    have mul: "size_mul k (m_sort_segment_size s) = off"
      using off N by (simp add: size_mul_lt)
    have sub: "size_sub (m_number s) off = m_number s - off" using off(2) N by (simp add: size_sub_le)
    have nc: "size_add num_cells 2 < 2 ^ 32" using fits by (simp add: sort_fits_def size_add_def)
    have "off \<noteq> m_number s" using off(2) by simp
    then show ?thesis
      using cp(1) r(1) nums nc unfolding sort_segment_def k mul sub Let_def n[symmetric] cs_def slice_def
        part2_def idx2_def z_def
      by (simp add: slice_def cs_def)
  qed
  moreover have "length idx3 = length (m_index s)" using r(3) i2 idx nseg by simp
  ultimately show ?thesis
    using r(2,5) ms p2 by (intro exI[of _ d] exI[of _ idx3] exI[of _ part2] exI conjI) auto
qed

subsection \<open>All segments\<close>

definition seg_ok :: "nat \<Rightarrow> nat \<Rightarrow> 'a ptc_common_scheme particles \<Rightarrow> bool" where
  "seg_ok num_cells j s =
     (let seg = m_sort_segment_size s; m = unat (m_segment_nums s ! j)
      in m \<le> seg \<and> j * seg + m \<le> m_number s
         \<and> (\<forall>i < seg. j * seg + i < m_number s \<longrightarrow> live (data s ! (j * seg + i)) = (i < m))
         \<and> sorted (map (sort_key num_cells) (slice (j * seg) (min seg (m_number s - j * seg)) (data s))))"

definition same_frame :: "'p particles \<Rightarrow> 'p particles \<Rightarrow> bool" where
  "same_frame s0 s = (length (data s) = length (data s0) \<and> m_size s = m_size s0
     \<and> m_number s = m_number s0 \<and> m_sort_segment_size s = m_sort_segment_size s0
     \<and> m_ptc_id s = m_ptc_id s0 \<and> length (m_segment_nums s) = length (m_segment_nums s0)
     \<and> length (m_index s) = length (m_index s0) \<and> length (m_partition s) = length (m_partition s0))"

definition sorted_upto ::
  "nat \<Rightarrow> nat \<Rightarrow> 'a ptc_common_scheme particles \<Rightarrow> 'a ptc_common_scheme particles \<Rightarrow> bool" where
  "sorted_upto num_cells k s0 s =
     (same_frame s0 s
      \<and> mset (take (m_number s0) (data s)) = mset (take (m_number s0) (data s0))
      \<and> (\<forall>q < length (data s0). k * m_sort_segment_size s0 \<le> q \<or> m_number s0 \<le> q \<longrightarrow> data s ! q = data s0 ! q)
      \<and> (\<forall>j < k. seg_ok num_cells j s))"

lemma mset_take_slice:
  assumes "off + n \<le> m"
  shows "mset (take m l) = mset (take off l) + mset (slice off n l) + mset (slice (off + n) (m - (off + n)) l)"
proof -
  have "take m l = take (off + n) l @ take (m - (off + n)) (drop (off + n) l)"
    using assms by (metis le_add_diff_inverse take_add)
  moreover have "take (off + n) l = take off l @ take n (drop off l)" by (rule take_add)
  ultimately show ?thesis by (simp add: slice_def)
qed

lemma list_eq_on:
  assumes "length d = length D" "\<forall>q < length D. a \<le> q \<and> q < a + n \<longrightarrow> d ! q = D ! q"
  shows "slice a n d = slice a n D"
  using assms by (intro nth_equalityI) (auto simp: slice_def)

lemma take_slice: "take n l = slice 0 n l"
  by (simp add: slice_def)

lemma seg_ok_change:
  assumes "seg_ok num_cells j s" "same_frame s s'" "m_segment_nums s' ! j = m_segment_nums s ! j"
    "\<forall>q < length (data s). q < Suc j * m_sort_segment_size s \<longrightarrow> data s' ! q = data s ! q"
    "m_number s \<le> length (data s)"
  shows "seg_ok num_cells j s'"
proof -
  let ?S = "m_sort_segment_size s"
  have "slice (j * ?S) (min ?S (m_number s - j * ?S)) (data s')
      = slice (j * ?S) (min ?S (m_number s - j * ?S)) (data s)"
    using assms(2,4) by (intro list_eq_on) (auto simp: same_frame_def)
  moreover have "data s' ! (j * ?S + i) = data s ! (j * ?S + i)" if "i < ?S" "j * ?S + i < m_number s" for i
    using assms(4,5) that by simp
  ultimately show ?thesis using assms(1-3) by (simp add: seg_ok_def same_frame_def Let_def)
qed

lemma sort_segments_snoc:
  "sort_segments num_cells (ns @ [n]) s =
     Option.bind (sort_segments num_cells ns s) (sort_segment num_cells (int n))"
  by (induction ns arbitrary: s) (auto split: Option.bind_splits)

lemma sorted_live_prefix:
  assumes "sorted (map (sort_key num_cells) ys)" "mset ys = mset xs" "p < length ys"
    "\<forall>q \<in> set xs. live q \<longrightarrow> unat (cell q) < num_cells"
  shows "live (ys ! p) = (p < length (filter live xs))"
proof -
  have st: "set ys = set xs" using assms(2) by (metis set_mset_mset)
  have "filter (\<lambda>q. sort_key num_cells q < num_cells) ys = filter live ys"
    using assms(4) st by (intro filter_cong) (auto simp: sort_key_live)
  moreover have "length (filter live ys) = length (filter live xs)"
    using assms(2) by (metis mset_filter size_mset)
  moreover have "(sort_key num_cells (ys ! p) < num_cells) = live (ys ! p)"
    using assms(3,4) st by (intro sort_key_live) auto
  ultimately show ?thesis using sorted_filter_prefix[OF assms(1,3), of num_cells] by simp
qed

lemma sort_step_end:
  assumes "sorted_upto num_cells k s0 s" "ptc_ok s0" "k * m_sort_segment_size s0 = m_number s0"
    "k < length (m_segment_nums s)"
  shows "\<exists>s'. sort_segment num_cells (int k) s = Some s' \<and> sorted_upto num_cells (Suc k) s0 s'"
proof -
  let ?s' = "s\<lparr>m_segment_nums := (m_segment_nums s)[k := 0]\<rparr>"
  note f = assms(1)[unfolded sorted_upto_def]
  then have fr: "same_frame s0 s" by blast
  then have off: "k * m_sort_segment_size s = m_number s" using assms(3) by (simp add: same_frame_def)
  have fr': "same_frame s ?s'" by (simp add: same_frame_def)
  have N: "m_number s < 2 ^ 64" "0 < m_sort_segment_size s"
    using assms(2) fr by (simp_all add: ptc_ok_def same_frame_def)
  have "k \<le> m_number s" unfolding off[symmetric] using N(2) by simp
  then have k: "to_size (int k) = k" using N(1) by simp
  have "size_mul k (m_sort_segment_size s) = m_number s" using off N by (simp add: size_mul_lt)
  then have "sort_segment num_cells (int k) s = Some ?s'"
    using assms(4) unfolding sort_segment_def k by simp
  moreover have "seg_ok num_cells k ?s'" using off assms(4) by (simp add: seg_ok_def slice_def)
  moreover have "seg_ok num_cells j ?s'" if "j < k" for j
  proof (rule seg_ok_change[OF _ fr'])
    show "seg_ok num_cells j s" using f that by blast
    show "m_number s \<le> length (data s)" using assms(2) fr by (simp add: ptc_ok_def same_frame_def)
  qed (use that in simp_all)
  moreover have "same_frame s0 ?s'" using fr by (simp add: same_frame_def)
  ultimately show ?thesis using f by (simp add: sorted_upto_def less_Suc_eq)
qed

lemma sort_step_slice:
  assumes "sorted_upto num_cells k s0 s" "ptc_ok s0" "cells_ok num_cells s0"
    "off = k * m_sort_segment_size s0" "off + n \<le> m_number s0"
  shows "slice off n (data s) = slice off n (data s0)"
    "\<forall>q \<in> set (slice off n (data s)). live q \<longrightarrow> unat (cell q) < num_cells"
proof -
  note f = assms(1)[unfolded sorted_upto_def]
  have S: "m_number s0 \<le> length (data s0)" using assms(2) by (simp add: ptc_ok_def)
  show e: "slice off n (data s) = slice off n (data s0)"
  proof (rule list_eq_on)
    show "length (data s) = length (data s0)" using f by (simp add: same_frame_def)
    show "\<forall>q < length (data s0). off \<le> q \<and> q < off + n \<longrightarrow> data s ! q = data s0 ! q"
      using f assms(4) by blast
  qed
  show "\<forall>q \<in> set (slice off n (data s)). live q \<longrightarrow> unat (cell q) < num_cells"
  proof
    fix q assume "q \<in> set (slice off n (data s))"
    then obtain i where "i < n" "q = data s0 ! (off + i)"
      unfolding e in_set_conv_nth using assms(5) S by (auto simp: length_slice slice_nth)
    then show "live q \<longrightarrow> unat (cell q) < num_cells"
      using assms(3,5) by (simp add: cells_ok_def)
  qed
qed

lemma sort_step_middle:
  assumes upto: "sorted_upto num_cells k s0 s" and ok: "ptc_ok s0" and cells: "cells_ok num_cells s0"
    and fits: "sort_fits num_cells s0"
    and len: "length (m_partition s0) = num_cells + 2" "length (m_index s0) = m_sort_segment_size s0"
    and off: "off = k * m_sort_segment_size s0" "off < m_number s0"
    and knums: "k < length (m_segment_nums s)"
  shows "\<exists>s'. sort_segment num_cells (int k) s = Some s' \<and> sorted_upto num_cells (Suc k) s0 s'"
proof -
  let ?S = "m_sort_segment_size s0" and ?N = "m_number s0"
  note f = upto[unfolded sorted_upto_def]
  have fr: "length (data s) = length (data s0)" "m_size s = m_size s0" "m_number s = ?N"
    "m_sort_segment_size s = ?S" "length (m_index s) = ?S" "length (m_partition s) = num_cells + 2"
    using f len by (simp_all add: same_frame_def)
  have oks: "ptc_ok s" using ok fr by (simp add: ptc_ok_def)
  have fitss: "sort_fits num_cells s" using fits fr by (simp add: sort_fits_def)
  define n where "n = min ?S (?N - off)"
  have bound: "off + n \<le> ?N" "n \<le> ?S" using off(2) by (auto simp: n_def)
  have N: "?N \<le> length (data s)" using oks fr by (simp add: ptc_ok_def)
  have nS: "n = min (m_sort_segment_size s) (m_number s - off)" by (simp add: n_def fr)
  note sl = sort_step_slice[OF upto ok cells off(1) bound(1)]
  have offs: "off = k * m_sort_segment_size s" "off < m_number s" using off fr by simp_all
  have idx: "length (m_index s) = m_sort_segment_size s" using fr by simp
  obtain s' d idx part where s': "sort_segment num_cells (int k) s = Some s'" "length d = length (data s)"
    "length idx = length (m_index s)" "length part = num_cells + 2"
    "s' = s\<lparr>data := d, m_index := idx, m_partition := part,
       m_segment_nums := (m_segment_nums s)[k := word_of_nat (length (filter live (slice off n (data s))))]\<rparr>"
    "\<forall>q < length (data s). \<not> (off \<le> q \<and> q < off + n) \<longrightarrow> d ! q = data s ! q"
    "mset (slice off n d) = mset (slice off n (data s))"
    "sorted (map (sort_key num_cells) (slice off n d))"
    using sort_segment_correct[OF oks fitss offs nS sl(2) fr(6) idx knums] by blast
  have fr': "same_frame s s'" using s'(2-5) fr by (simp add: same_frame_def)
  have ln: "length (slice off n (data s)) = n" "length (slice off n d) = n"
    using bound(1) N s'(2) by (simp_all add: length_slice)
  have num: "unat (m_segment_nums s' ! k) = length (filter live (slice off n (data s)))"
  proof -
    have "n \<le> min ?S ?N" using bound by simp
    then have "n < 2 ^ 31" using fits unfolding sort_fits_def by linarith
    moreover have "length (filter live (slice off n (data s))) \<le> n" using List.length_filter_le ln(1) by metis
    ultimately show ?thesis using s'(5) knums by (simp add: unat_of_nat32)
  qed
  have segk: "seg_ok num_cells k s'"
  proof -
    have 1: "unat (m_segment_nums s' ! k) \<le> n"
      unfolding num using List.length_filter_le[of live "slice off n (data s)"] ln(1) by simp
    have 2: "live (d ! (off + i)) = (i < unat (m_segment_nums s' ! k))" if "i < ?S" "off + i < ?N" for i
    proof -
      have i: "i < n" using that by (simp add: n_def)
      have "d ! (off + i) = slice off n d ! i" using slice_nth[of off n d i] i bound(1) N s'(2) by simp
      then show ?thesis
        using sorted_live_prefix[OF s'(8,7) _ sl(2), of i] i ln(2) num by simp
    qed
    show ?thesis
      unfolding seg_ok_def Let_def using 1 2 s'(5,8) bound
      by (simp add: fr flip: off(1) n_def)
  qed
  have segj: "seg_ok num_cells j s'" if "j < k" for j
  proof (rule seg_ok_change[OF _ fr'])
    show "seg_ok num_cells j s" using f that by blast
    show "m_segment_nums s' ! j = m_segment_nums s ! j" using s'(5) that by simp
    show "m_number s \<le> length (data s)" using N fr by simp
    have "Suc j * ?S \<le> off" unfolding off(1) using that by (intro mult_le_mono1) simp
    then show "\<forall>q < length (data s). q < Suc j * m_sort_segment_size s \<longrightarrow> data s' ! q = data s ! q"
      using s'(5,6) fr by simp
  qed
  have "mset (take ?N d) = mset (take ?N (data s))"
  proof -
    have "slice 0 off d = slice 0 off (data s)" using s'(2,6) by (intro list_eq_on) auto
    moreover have "slice (off + n) (?N - (off + n)) d = slice (off + n) (?N - (off + n)) (data s)"
      using s'(2,6) by (intro list_eq_on) auto
    ultimately show ?thesis unfolding mset_take_slice[OF bound(1)] by (simp add: s'(7) take_slice)
  qed
  moreover have "data s' ! q = data s0 ! q" if "q < length (data s0)" "Suc k * ?S \<le> q \<or> ?N \<le> q" for q
  proof -
    have "off + n \<le> q" using that(2) bound off(1) by auto
    moreover have "off \<le> q" using calculation by simp
    ultimately show ?thesis using s'(5,6) f that fr off(1) by simp
  qed
  moreover have "same_frame s0 s'" using fr' f by (simp add: same_frame_def)
  ultimately have "sorted_upto num_cells (Suc k) s0 s'"
    unfolding sorted_upto_def using segk segj f s'(5) by (simp add: less_Suc_eq)
  then show ?thesis using s'(1) by blast
qed

lemma sort_segment_step:
  assumes ok: "ptc_ok s0" and cells: "cells_ok num_cells s0" and fits: "sort_fits num_cells s0"
    and len: "length (m_partition s0) = num_cells + 2" "length (m_index s0) = m_sort_segment_size s0"
      "length (m_segment_nums s0) = m_size s0 div m_sort_segment_size s0 + 1"
    and k: "k \<le> m_number s0 div m_sort_segment_size s0" and upto: "sorted_upto num_cells k s0 s"
  shows "\<exists>s'. sort_segment num_cells (int k) s = Some s' \<and> sorted_upto num_cells (Suc k) s0 s'"
proof -
  have "k * m_sort_segment_size s0 \<le> m_number s0 div m_sort_segment_size s0 * m_sort_segment_size s0"
    using k by (rule mult_le_mono1)
  also have "\<dots> \<le> m_number s0" by (rule div_times_less_eq_dividend)
  finally have off: "k * m_sort_segment_size s0 \<le> m_number s0" .
  have "m_number s0 div m_sort_segment_size s0 \<le> m_size s0 div m_sort_segment_size s0"
    using ok by (intro div_le_mono) (simp add: ptc_ok_def)
  then have knums: "k < length (m_segment_nums s)"
    using k len(3) upto by (simp add: sorted_upto_def same_frame_def)
  show ?thesis
  proof (cases "k * m_sort_segment_size s0 = m_number s0")
    case True
    then show ?thesis using sort_step_end[OF upto ok _ knums] by blast
  next
    case False
    then show ?thesis using sort_step_middle[OF upto ok cells fits len(1,2) refl _ knums] off by simp
  qed
qed

lemma sort_segments_correct:
  assumes "ptc_ok s0" "cells_ok num_cells s0" "sort_fits num_cells s0" "length (m_partition s0) = num_cells + 2"
    "length (m_index s0) = m_sort_segment_size s0"
    "length (m_segment_nums s0) = m_size s0 div m_sort_segment_size s0 + 1"
    "k \<le> m_number s0 div m_sort_segment_size s0 + 1"
  shows "\<exists>s. sort_segments num_cells [0..<k] s0 = Some s \<and> sorted_upto num_cells k s0 s"
  using assms(7)
proof (induction k)
  case 0
  then show ?case by (simp add: sorted_upto_def same_frame_def)
next
  case (Suc k)
  then obtain s where "sort_segments num_cells [0..<k] s0 = Some s" "sorted_upto num_cells k s0 s" by auto
  then show ?case
    using sort_segment_step[OF assms(1-6), of k s] Suc.prems by (simp add: sort_segments_snoc)
qed

subsection \<open>Filling the holes\<close>

definition live_mset :: "nat \<Rightarrow> 'a ptc_common_scheme list \<Rightarrow> 'a ptc_common_scheme multiset" where
  "live_mset N d = image_mset (\<lambda>i. d ! i) (mset_set {i. i < N \<and> live (d ! i)})"

lemma live_mset_filter:
  assumes "N \<le> length d"
  shows "live_mset N d = mset (filter live (take N d))"
proof -
  have "mset (take N d) = image_mset (\<lambda>i. d ! i) (mset_set {..<N})"
  proof -
    have "take N d = map (\<lambda>i. d ! i) [0..<N]" using assms by (intro nth_equalityI) auto
    then have "mset (take N d) = mset (map (\<lambda>i. d ! i) [0..<N])" by simp
    also have "\<dots> = image_mset (\<lambda>i. d ! i) (mset_set {..<N})"
      by (simp add: mset_upt atLeast0LessThan del: upt_0)
    finally show ?thesis .
  qed
  then have "mset (filter live (take N d)) = filter_mset live (image_mset (\<lambda>i. d ! i) (mset_set {..<N}))"
    by simp
  also have "\<dots> = image_mset (\<lambda>i. d ! i) (filter_mset (\<lambda>i. live (d ! i)) (mset_set {..<N}))"
    by (simp add: filter_mset_image_mset)
  also have "filter_mset (\<lambda>i. live (d ! i)) (mset_set {..<N}) = mset_set {i \<in> {..<N}. live (d ! i)}"
    by (rule filter_mset_mset_set) simp
  also have "{i \<in> {..<N}. live (d ! i)} = {i. i < N \<and> live (d ! i)}" by auto
  finally show ?thesis unfolding live_mset_def by simp
qed

text \<open>Moving \<open>c\<close> live particles from position \<open>a\<close> to the holes at position \<open>b\<close>.\<close>

lemma live_mset_move:
  assumes T: "\<forall>i. b \<le> i \<and> i < b + c \<longrightarrow> i < N \<and> \<not> live (d ! i) \<and> d' ! i = d ! (a + (i - b))"
    and F: "\<forall>i. a \<le> i \<and> i < a + c \<longrightarrow> i < N \<and> live (d ! i) \<and> \<not> live (d' ! i)"
    and O: "\<forall>i < N. \<not> (b \<le> i \<and> i < b + c) \<and> \<not> (a \<le> i \<and> i < a + c) \<longrightarrow> d' ! i = d ! i"
  shows "live_mset N d' = live_mset N d"
proof -
  let ?A = "{i. i < N \<and> live (d ! i)}" and ?F = "{a..<a + c}" and ?T = "{b..<b + c}"
  have A: "?A = (?A - ?F) \<union> ?F" using F by auto
  have live_T: "live (d' ! i)" if "b \<le> i" "i < b + c" for i
  proof -
    have "a \<le> a + (i - b)" "a + (i - b) < a + c" using that by auto
    then show ?thesis using F T that by metis
  qed
  have A': "{i. i < N \<and> live (d' ! i)} = (?A - ?F) \<union> ?T"
    using T F O live_T by (auto; metis not_less)
  have disj: "(?A - ?F) \<inter> ?T = {}" using T by auto
  have fin: "finite ?A" by simp
  have "live_mset N d' = image_mset (\<lambda>i. d' ! i) (mset_set (?A - ?F)) + image_mset (\<lambda>i. d' ! i) (mset_set ?T)"
    unfolding live_mset_def A' using disj by (simp add: mset_set_Union)
  also have "image_mset (\<lambda>i. d' ! i) (mset_set (?A - ?F)) = image_mset (\<lambda>i. d ! i) (mset_set (?A - ?F))"
    using O T by (intro image_mset_cong) auto
  also have "image_mset (\<lambda>i. d' ! i) (mset_set ?T) = image_mset (\<lambda>i. d ! (a + (i - b))) (mset_set ?T)"
    using T by (intro image_mset_cong) auto
  also have "\<dots> = image_mset (\<lambda>i. d ! i) (image_mset (\<lambda>i. a + (i - b)) (mset_set ?T))"
    by (simp add: image_mset.compositionality comp_def)
  also have "image_mset (\<lambda>i. a + (i - b)) (mset_set ?T) = mset_set ?F"
  proof -
    have "inj_on (\<lambda>i. a + (i - b)) ?T" by (auto simp: inj_on_def)
    then have "image_mset (\<lambda>i. a + (i - b)) (mset_set ?T) = mset_set ((\<lambda>i. a + (i - b)) ` ?T)"
      by (rule image_mset_mset_set)
    moreover have "(\<lambda>i. a + (i - b)) ` ?T = ?F"
    proof
      show "?F \<subseteq> (\<lambda>i. a + (i - b)) ` ?T"
      proof
        fix x assume "x \<in> ?F"
        then have "x = a + (b + (x - a) - b)" "b + (x - a) \<in> ?T" by auto
        then show "x \<in> (\<lambda>i. a + (i - b)) ` ?T" by blast
      qed
    qed auto
    ultimately show ?thesis by simp
  qed
  also have "image_mset (\<lambda>i. d ! i) (mset_set (?A - ?F)) + image_mset (\<lambda>i. d ! i) (mset_set ?F) = live_mset N d"
  proof -
    have "mset_set ((?A - ?F) \<union> ?F) = mset_set (?A - ?F) + mset_set ?F"
      using fin by (intro mset_set_Union) auto
    then have "mset_set ?A = mset_set (?A - ?F) + mset_set ?F" using A by simp
    then show ?thesis unfolding live_mset_def by simp
  qed
  finally show ?thesis .
qed

lemma erase_nth:
  assumes "length (data s) = m_size s" "pos + amount \<le> m_size s" "m_size s < 2 ^ 63" "i < m_size s"
  shows "data (erase pos amount s) ! i =
    (if pos \<le> i \<and> i < pos + amount then (data s ! i)\<lparr>cell := empty_cell\<rparr> else data s ! i)"
proof -
  have "size_add pos amount = pos + amount" using assms(2,3) by (simp add: size_add_def)
  then have "data (erase pos amount s) = take pos (data s)
      @ map (cell_update (\<lambda>_. empty_cell)) (take amount (drop pos (data s))) @ drop (pos + amount) (data s)"
    using assms(2) by (simp add: erase_def Let_def min_def)
  then show ?thesis using assms by (auto simp: nth_append)
qed

lemma erase_frame:
  "length (data s) = m_size s \<Longrightarrow> length (data (erase pos amount s)) = m_size s"
  "m_size (erase pos amount s) = m_size s" "m_number (erase pos amount s) = m_number s"
  "m_sort_segment_size (erase pos amount s) = m_sort_segment_size s"
  "m_segment_nums (erase pos amount s) = m_segment_nums s"
  "m_ptc_id (erase pos amount s) = m_ptc_id s"
  by (auto simp: erase_def Let_def)

lemma list_copy_nth:
  assumes "src_pos + num \<le> length src" "dst_pos + num \<le> length dst" "i < length dst"
  shows "list_copy src dst num src_pos dst_pos ! i
    = (if dst_pos \<le> i \<and> i < dst_pos + num then src ! (src_pos + (i - dst_pos)) else dst ! i)"
  using assms by (cases "i < dst_pos"; cases "i < dst_pos + num") (simp_all add: list_copy_def nth_append less_diff_conv2)

lemma ptc_copy_from_self:
  assumes "length (data s) = m_size s" "m_size s < 2 ^ 63" "src_pos + num \<le> m_size s"
    "dst_pos + num \<le> m_number s" "m_number s \<le> m_size s"
  shows "ptc_copy_from s s num src_pos dst_pos = Some (s\<lparr>data := list_copy (data s) (data s) num src_pos dst_pos\<rparr>)"
proof -
  have add: "size_add dst_pos num = dst_pos + num" using assms by (simp add: size_add_def)
  have "copy_num (m_size s) (m_size s) num src_pos dst_pos = num"
    using assms by (subst copy_num_min) auto
  then show ?thesis using assms add by (simp add: ptc_copy_from_def Let_def)
qed

definition defrag_inv ::
  "'a ptc_common_scheme particles \<Rightarrow> nat \<Rightarrow> nat \<Rightarrow> 'a ptc_common_scheme particles \<Rightarrow> bool" where
  "defrag_inv s0 m lst s =
     (let N = m_number s0; seg = m_sort_segment_size s0; nums = (\<lambda>k. unat (m_segment_nums s ! k)); d = data s
      in ptc_ok s \<and> m_number s = N \<and> m_sort_segment_size s = seg \<and> m_size s = m_size s0
         \<and> m_ptc_id s = m_ptc_id s0 \<and> min seg N < 2 ^ 31 \<and> lst < 2 ^ 31
         \<and> lst * seg \<le> N \<and> lst < length (m_segment_nums s)
         \<and> (\<forall>k \<le> lst. nums k \<le> seg \<and> k * seg + nums k \<le> N)
         \<and> (\<forall>k. k < m \<and> k < lst \<longrightarrow> nums k = seg)
         \<and> (\<forall>i < N. live (d ! i) = (i div seg \<le> lst \<and> i mod seg < nums (i div seg)))
         \<and> live_mset N d = live_mset N (data s0)
         \<and> (\<forall>q < length d. N \<le> q \<longrightarrow> d ! q = data s0 ! q))"

text \<open>In a state of the invariant the counters read as numbers.\<close>

lemma defrag_seg_num:
  assumes "defrag_inv s0 m lst s" "k \<le> lst"
  shows "seg_num s (int k) = int (unat (m_segment_nums s ! k))" "unat (m_segment_nums s ! k) < 2 ^ 31"
    "to_size (seg_num s (int k)) = unat (m_segment_nums s ! k)"
proof -
  have "unat (m_segment_nums s ! k) \<le> min (m_sort_segment_size s0) (m_number s0)"
    using assms by (auto simp: defrag_inv_def Let_def)
  moreover have "min (m_sort_segment_size s0) (m_number s0) < 2 ^ 31"
    using assms(1) unfolding defrag_inv_def Let_def by blast
  ultimately show b: "unat (m_segment_nums s ! k) < 2 ^ 31" by (rule order.strict_trans1)
  have k: "to_size (int k) = k" using assms by (simp add: defrag_inv_def Let_def)
  show n: "seg_num s (int k) = int (unat (m_segment_nums s ! k))"
    using sint_eq_unat32[OF b] unfolding seg_num_def k .
  show "to_size (seg_num s (int k)) = unat (m_segment_nums s ! k)"
    unfolding n by (rule to_size_int) (use b in simp)
qed

lemma seg_position:
  assumes "b \<le> (seg :: nat)" "0 < seg"
  shows "(k * seg + a \<le> i \<and> i < k * seg + b) = (i div seg = k \<and> a \<le> i mod seg \<and> i mod seg < b)"
proof
  assume h: "k * seg + a \<le> i \<and> i < k * seg + b"
  then have "i div seg = k"
    using assms by (intro div_nat_eqI) (auto simp: algebra_simps)
  then show "i div seg = k \<and> a \<le> i mod seg \<and> i mod seg < b"
    using h div_mult_mod_eq[of i seg] by auto
next
  assume "i div seg = k \<and> a \<le> i mod seg \<and> i mod seg < b"
  then show "k * seg + a \<le> i \<and> i < k * seg + b"
    using div_mult_mod_eq[of i seg] by (metis add_le_cancel_left nat_add_left_cancel_less)
qed

lemma fill_step_correct:
  assumes inv: "defrag_inv s0 m lst s" and m: "m < lst" "unat (m_segment_nums s ! m) < m_sort_segment_size s"
  shows "\<exists>s'. fill_step (int m) (int lst) s = Some s' \<and> defrag_inv s0 m lst s'
    \<and> (unat (m_segment_nums s' ! lst) = 0 \<or> unat (m_segment_nums s' ! m) = m_sort_segment_size s')"
proof -
  let ?S = "m_sort_segment_size s" and ?N = "m_number s" and ?nums = "\<lambda>k. unat (m_segment_nums s ! k)"
  note i = inv[unfolded defrag_inv_def Let_def]
  have ok: "length (data s) = m_size s" "?N \<le> m_size s" "m_size s < 2 ^ 63" "0 < ?S"
    and eq: "m_number s0 = ?N" "m_sort_segment_size s0 = ?S"
    and lst: "lst * ?S \<le> ?N" "lst < length (m_segment_nums s)"
    and nb: "\<And>k. k \<le> lst \<Longrightarrow> ?nums k \<le> ?S \<and> k * ?S + ?nums k \<le> ?N"
    and lv: "\<And>q. q < ?N \<Longrightarrow> live (data s ! q) = (q div ?S \<le> lst \<and> q mod ?S < ?nums (q div ?S))"
    and full: "\<And>k. k < m \<Longrightarrow> k < lst \<Longrightarrow> ?nums k = ?S"
    and lms: "live_mset ?N (data s) = live_mset ?N (data s0)"
    and tail: "\<And>q. q < length (data s) \<Longrightarrow> ?N \<le> q \<Longrightarrow> data s ! q = data s0 ! q"
    and small: "min ?S ?N < 2 ^ 31" "lst < 2 ^ 31"
    and sz: "m_size s0 = m_size s" "m_ptc_id s0 = m_ptc_id s"
    using i by (auto simp: ptc_ok_def)
  define c where "c = min (?S - ?nums m) (?nums lst)"
  define a where "a = lst * ?S + ?nums lst - c"
  define b where "b = m * ?S + ?nums m"
  have c: "c \<le> ?nums lst" "?nums m + c \<le> ?S" using m(2) by (auto simp: c_def)
  have a: "a = lst * ?S + (?nums lst - c)" "a + c = lst * ?S + ?nums lst" using c by (auto simp: a_def)
  have aN: "a + c \<le> ?N" using a nb[of lst] by simp
  have "b + c \<le> Suc m * ?S" using c by (simp add: b_def)
  also have "\<dots> \<le> lst * ?S" using m(1) by (intro mult_le_mono1) simp
  finally have b: "b + c \<le> lst * ?S" .
  have bN: "b + c \<le> ?N" using b lst(1) by simp
  define d1 where "d1 = list_copy (data s) (data s) c a b"
  define s1 where "s1 = s\<lparr>data := d1\<rparr>"
  have copy: "ptc_copy_from s s c a b = Some s1"
    using ptc_copy_from_self[of s a c b] ok aN bN by (simp add: s1_def d1_def)
  have len1: "length (data s1) = m_size s1" "m_size s1 = m_size s"
    using ok aN bN by (simp_all add: s1_def d1_def list_copy_def)
  have S31: "?S < 2 ^ 31"
  proof -
    have "1 * ?S \<le> lst * ?S" using m(1) by (intro mult_le_mono1) simp
    then have "?S \<le> ?N" using lst(1) unfolding mult_1 by (rule order.trans)
    then show ?thesis using small(1) by (simp add: min_def)
  qed
  have c31: "c < 2 ^ 31" "?nums m + c < 2 ^ 31" using c S31 by simp_all
  have lm: "m \<le> lst" "lst \<le> lst" "m < 2 ^ 64" "lst < 2 ^ 64" using m(1) small(2) by simp_all
  note nm = defrag_seg_num[OF inv lm(1)] and nl = defrag_seg_num[OF inv lm(2)]
  obtain v where v: "int_add (m_segment_nums s ! m) (int c) = Some v" "unat v = ?nums m + c"
    using int_add_plus[OF c31(2)] by blast
  obtain w where w: "int_add (m_segment_nums s ! lst) (- int c) = Some w" "unat w = ?nums lst - c"
    using int_add_minus[OF nl(2) c(1)] by blast
  define W where "W = ((m_segment_nums s)[m := v])[lst := w]"
  define s' where "s' = (erase a c s1)\<lparr>m_segment_nums := W\<rparr>"
  define nums' where "nums' = (\<lambda>k. unat (W ! k))"
  have step: "fill_step (int m) (int lst) s = Some s'"
  proof -
    have def: "size_to_int (size_sub ?S (?nums m)) = int (?S - ?nums m)"
      using m(2) S31 by (simp add: size_sub_le)
    have mn: "min (int (?S - ?nums m)) (int (?nums lst)) = int c" unfolding c_def by (rule of_nat_min[symmetric])
    have N64: "?N < 2 ^ 64" using ok by simp
    have "size_add (size_mul lst ?S) (?nums lst) = a + c"
      using a(2) aN lst(1) N64 by (simp add: size_mul_lt size_add_lt)
    moreover have "size_sub (a + c) c = a" using aN N64 by (simp add: size_sub_le)
    moreover have "size_add (size_mul m ?S) (?nums m) = b"
    proof -
      have "m * ?S \<le> b" by (simp add: b_def)
      then show ?thesis using bN N64 by (simp add: size_mul_lt size_add_lt b_def)
    qed
    moreover have "to_size (int c) = c" using c31 by simp
    moreover have "m \<noteq> lst" "m < length (m_segment_nums s)" using m(1) lst(2) by simp_all
    ultimately show ?thesis
      unfolding fill_step_def Let_def nm(3) nl(3) to_size_int[OF lm(3)] to_size_int[OF lm(4)] def
      unfolding nl(1) mn
      using copy lst(2) v(1) w(1) by (simp add: s'_def W_def)
  qed
  have nums: "nums' k = (if k = m then ?nums m + c else if k = lst then ?nums lst - c else ?nums k)"
    for k using m(1) lst(2) v(2) w(2) by (auto simp: nums'_def W_def nth_list_update)
  have d': "data s' ! q = (if a \<le> q \<and> q < a + c then (d1 ! q)\<lparr>cell := empty_cell\<rparr> else d1 ! q)"
    if "q < m_size s" for q
    using erase_nth[of s1 a c q] len1 ok aN that by (simp add: s'_def s1_def)
  have d1: "d1 ! q = (if b \<le> q \<and> q < b + c then data s ! (a + (q - b)) else data s ! q)" if "q < m_size s" for q
    unfolding d1_def using list_copy_nth[of a c "data s" b "data s" q] ok aN bN that by simp
  have ab: "\<not> (a \<le> q \<and> q < a + c)" if "b \<le> q" "q < b + c" for q
    using that b a(1) by simp
  have inT: "(b \<le> q \<and> q < b + c) = (q div ?S = m \<and> ?nums m \<le> q mod ?S \<and> q mod ?S < ?nums m + c)" for q
    using seg_position[of "?nums m + c" ?S m "?nums m" q] c ok(4) by (simp add: b_def add.assoc)
  have inF: "(a \<le> q \<and> q < a + c) = (q div ?S = lst \<and> ?nums lst - c \<le> q mod ?S \<and> q mod ?S < ?nums lst)" for q
    using seg_position[of "?nums lst" ?S lst "?nums lst - c" q] nb[of lst] ok(4)
    unfolding a(2) unfolding a(1) by simp
  have liveF: "live (data s ! q)" if "a \<le> q" "q < a + c" for q
    using lv[of q] inF[of q] that aN by auto
  have deadT: "\<not> live (data s ! q)" if "b \<le> q" "q < b + c" for q
    using lv[of q] inT[of q] that bN by auto
  have deadF: "\<not> live (data s' ! q)" if "a \<le> q" "q < a + c" for q
    using d'[of q] that aN ok by (simp add: live_def)
  have valT: "data s' ! q = data s ! (a + (q - b))" if "b \<le> q" "q < b + c" for q
    using d'[of q] d1[of q] that ab[OF that] bN ok by auto
  have valO: "data s' ! q = data s ! q" if "q < m_size s" "\<not> (b \<le> q \<and> q < b + c)" "\<not> (a \<le> q \<and> q < a + c)" for q
    using d'[of q] d1[of q] that by auto
  have live': "live (data s' ! q) = (q div ?S \<le> lst \<and> q mod ?S < nums' (q div ?S))" if q: "q < ?N" for q
  proof -
    define k where "k = q div ?S"
    define r where "r = q mod ?S"
    have T: "(b \<le> q \<and> q < b + c) = (k = m \<and> ?nums m \<le> r \<and> r < ?nums m + c)"
      unfolding k_def r_def by (rule inT)
    have F: "(a \<le> q \<and> q < a + c) = (k = lst \<and> ?nums lst - c \<le> r \<and> r < ?nums lst)"
      unfolding k_def r_def by (rule inF)
    consider "b \<le> q \<and> q < b + c" | "a \<le> q \<and> q < a + c"
      | "\<not> (b \<le> q \<and> q < b + c)" "\<not> (a \<le> q \<and> q < a + c)" by blast
    then have "live (data s' ! q) = (k \<le> lst \<and> r < nums' k)"
    proof cases
      case 1
      have "live (data s ! (a + (q - b)))" by (rule liveF) (use 1 in auto)
      then have "live (data s' ! q)" using valT 1 by simp
      then show ?thesis using 1 T m(1) nums[of m] by simp
    next
      case 2
      then show ?thesis using deadF[of q] F m(1) nums[of lst] by simp
    next
      case 3
      have "live (data s' ! q) = (k \<le> lst \<and> r < ?nums k)"
        unfolding k_def r_def using valO[OF _ 3] lv[OF q] q ok(2) by simp
      then show ?thesis using 3[unfolded T F] m(1) nums[of k] by auto
    qed
    then show ?thesis by (simp add: k_def r_def)
  qed
  have lm: "live_mset ?N (data s') = live_mset ?N (data s)"
  proof (rule live_mset_move[of b c _ _ _ a])
    show "\<forall>i. b \<le> i \<and> i < b + c \<longrightarrow> i < ?N \<and> \<not> live (data s ! i) \<and> data s' ! i = data s ! (a + (i - b))"
      using bN deadT valT by auto
    show "\<forall>i. a \<le> i \<and> i < a + c \<longrightarrow> i < ?N \<and> live (data s ! i) \<and> \<not> live (data s' ! i)"
      using aN liveF deadF by auto
    show "\<forall>i < ?N. \<not> (b \<le> i \<and> i < b + c) \<and> \<not> (a \<le> i \<and> i < a + c) \<longrightarrow> data s' ! i = data s ! i"
      using valO ok by auto
  qed
  have fr: "m_number s' = ?N" "m_sort_segment_size s' = ?S" "m_size s' = m_size s" "m_ptc_id s' = m_ptc_id s"
    "\<And>k. unat (m_segment_nums s' ! k) = nums' k" "length (m_segment_nums s') = length (m_segment_nums s)"
    "length (data s') = m_size s"
    using erase_frame(1)[OF len1(1)] len1(2) by (simp_all add: s'_def s1_def erase_frame nums'_def W_def)
  have "defrag_inv s0 m lst s'"
    unfolding defrag_inv_def Let_def
  proof (intro conjI)
    show "ptc_ok s'" using fr ok by (simp add: ptc_ok_def)
    show "lst < length (m_segment_nums s')" using lst fr by simp
    show "\<forall>k \<le> lst. unat (m_segment_nums s' ! k) \<le> m_sort_segment_size s0
        \<and> k * m_sort_segment_size s0 + unat (m_segment_nums s' ! k) \<le> m_number s0"
    proof (intro allI impI)
      fix k assume "k \<le> lst"
      then show "unat (m_segment_nums s' ! k) \<le> m_sort_segment_size s0
          \<and> k * m_sort_segment_size s0 + unat (m_segment_nums s' ! k) \<le> m_number s0"
        unfolding fr eq nums using nb[of k] c(2) bN b_def by auto
    qed
    show "\<forall>k. k < m \<and> k < lst \<longrightarrow> unat (m_segment_nums s' ! k) = m_sort_segment_size s0"
      unfolding fr eq nums using full by auto
    show "\<forall>q < m_number s0. live (data s' ! q)
        = (q div m_sort_segment_size s0 \<le> lst \<and> q mod m_sort_segment_size s0 < unat (m_segment_nums s' ! (q div m_sort_segment_size s0)))"
      unfolding fr eq using live' by blast
    show "live_mset (m_number s0) (data s') = live_mset (m_number s0) (data s0)"
      unfolding eq using lm lms by simp
    show "\<forall>q < length (data s'). m_number s0 \<le> q \<longrightarrow> data s' ! q = data s0 ! q"
    proof (intro allI impI)
      fix q assume q: "q < length (data s')" "m_number s0 \<le> q"
      then have q': "q < m_size s" "?N \<le> q" unfolding fr eq by simp_all
      then have "data s' ! q = data s ! q" using valO[of q] aN bN by auto
      then show "data s' ! q = data s0 ! q" using tail[of q] q' ok(1) by simp
    qed
  qed (unfold fr eq sz, use lst small in simp_all)
  moreover have "nums' lst = 0 \<or> nums' m = ?S"
    unfolding nums using m by (auto simp: c_def)
  ultimately show ?thesis using step fr by simp
qed

lemma defrag_inv_pred:
  assumes "defrag_inv s0 m lst s" "unat (m_segment_nums s ! lst) = 0" "0 < lst"
  shows "defrag_inv s0 m (lst - 1) s"
proof -
  let ?S = "m_sort_segment_size s0"
  have "(k \<le> lst \<and> r < unat (m_segment_nums s ! k)) = (k \<le> lst - 1 \<and> r < unat (m_segment_nums s ! k))" for k r
    using assms(2,3) by (cases "k = lst") auto
  moreover have "(lst - 1) * ?S \<le> m_number s0"
  proof (rule order.trans)
    show "(lst - 1) * ?S \<le> lst * ?S" by (intro mult_le_mono1) simp
    show "lst * ?S \<le> m_number s0" using assms(1) by (simp add: defrag_inv_def Let_def)
  qed
  ultimately show ?thesis using assms(1) by (auto simp: defrag_inv_def Let_def)
qed

lemma defrag_inv_full:
  assumes "defrag_inv s0 m lst s" "m < lst \<Longrightarrow> unat (m_segment_nums s ! m) = m_sort_segment_size s"
  shows "defrag_inv s0 (Suc m) lst s"
proof -
  have "m_sort_segment_size s = m_sort_segment_size s0"
    using assms(1) by (simp add: defrag_inv_def Let_def)
  then have "\<forall>k. k < Suc m \<and> k < lst \<longrightarrow> unat (m_segment_nums s ! k) = m_sort_segment_size s0"
    using assms by (auto simp: defrag_inv_def Let_def less_Suc_eq)
  then show ?thesis using assms(1) by (simp add: defrag_inv_def Let_def)
qed

lemma fill_segment_correct:
  assumes "defrag_inv s0 m lst s" "m < lst"
  shows "\<exists>lst' s'. fill_segment (int m) (int lst) s = Some (int lst', s') \<and> defrag_inv s0 (Suc m) lst' s'
    \<and> m \<le> lst' \<and> lst' \<le> lst"
  using assms
proof (induction "lst - m" arbitrary: lst s rule: less_induct)
  case less
  note inv = less.prems(1)
  have ml: "m \<le> lst" using less.prems(2) by simp
  note cond = defrag_seg_num(3)[OF inv ml]
  have le: "unat (m_segment_nums s ! m) \<le> m_sort_segment_size s"
    using inv less.prems(2) by (simp add: defrag_inv_def Let_def)
  show ?case
  proof (cases "unat (m_segment_nums s ! m) < m_sort_segment_size s")
    case False
    then have "defrag_inv s0 (Suc m) lst s" using defrag_inv_full[OF inv] le by simp
    moreover have "fill_segment (int m) (int lst) s = Some (int lst, s)"
      using False cond by (simp add: fill_segment.simps)
    ultimately show ?thesis using less.prems(2) less_imp_le by blast
  next
    case True
    obtain s' where s': "fill_step (int m) (int lst) s = Some s'" "defrag_inv s0 m lst s'"
      "unat (m_segment_nums s' ! lst) = 0 \<or> unat (m_segment_nums s' ! m) = m_sort_segment_size s'"
      using fill_step_correct[OF inv less.prems(2) True] by blast
    note unf = fill_segment.simps[of "int m" "int lst" s]
    note sn = defrag_seg_num(1)[OF s'(2) order.refl] and cond' = defrag_seg_num(3)[OF s'(2) ml]
    show ?thesis
    proof (cases "unat (m_segment_nums s' ! lst) = 0")
      case z: True
      have dec: "defrag_inv s0 m (lst - 1) s'"
        by (rule defrag_inv_pred[OF s'(2) z]) (use less.prems(2) in simp)
      have pr: "int lst - 1 = int (lst - 1)" using less.prems(2) by simp
      show ?thesis
      proof (cases "lst - 1 = m")
        case e: True
        then have "fill_segment (int m) (int lst) s = Some (int (lst - 1), s')"
          using True s'(1) z sn cond by (simp add: unf pr)
        moreover have "defrag_inv s0 (Suc m) (lst - 1) s'" by (rule defrag_inv_full[OF dec]) (use e in simp)
        moreover have "m \<le> lst - 1" "lst - 1 \<le> lst" using e by simp_all
        ultimately show ?thesis by blast
      next
        case False
        then have "fill_segment (int m) (int lst) s = fill_segment (int m) (int (lst - 1)) s'"
          using True s'(1) z sn cond by (simp add: unf pr)
        moreover have "lst - 1 - m < lst - m" "m < lst - 1" using False less.prems(2) by auto
        ultimately obtain lst' s'' where "fill_segment (int m) (int lst) s = Some (int lst', s'')"
          "defrag_inv s0 (Suc m) lst' s''" "m \<le> lst'" "lst' \<le> lst - 1"
          using less.hyps[OF _ dec] by metis
        moreover have "lst' \<le> lst" using \<open>lst' \<le> lst - 1\<close> by simp
        ultimately show ?thesis by blast
      qed
    next
      case nz: False
      then have full: "unat (m_segment_nums s' ! m) = m_sort_segment_size s'" using s'(3) by simp
      have "seg_num s' (int lst) \<noteq> 0" unfolding sn using nz by (simp only: of_nat_eq_0_iff not_False_eq_True)
      then have "fill_segment (int m) (int lst) s = fill_segment (int m) (int lst) s'"
        using True s'(1) cond by (simp add: unf)
      also have "\<dots> = Some (int lst, s')"
        using full cond' by (simp add: fill_segment.simps[of "int m" "int lst" s'])
      finally show ?thesis using defrag_inv_full[OF s'(2)] full less.prems(2) less_imp_le by blast
    qed
  qed
qed

lemma defrag_correct:
  assumes "defrag_inv s0 m lst s"
  shows "\<exists>lst' s'. defrag (int m) (int lst) s = Some (int lst', s') \<and> defrag_inv s0 lst' lst' s' \<and> lst' \<le> lst"
  using assms
proof (induction "lst - m" arbitrary: m lst s rule: less_induct)
  case less
  show ?case
  proof (cases "m < lst")
    case False
    then have "defrag_inv s0 lst lst s" using less.prems by (simp add: defrag_inv_def Let_def)
    then show ?thesis using False by (simp add: defrag.simps[of "int m" "int lst" s])
  next
    case True
    obtain l1 s1 where f: "fill_segment (int m) (int lst) s = Some (int l1, s1)" "defrag_inv s0 (Suc m) l1 s1"
      "m \<le> l1" "l1 \<le> lst"
      using fill_segment_correct[OF less.prems True] by blast
    have "l1 - Suc m < lst - m" using f(3,4) True by simp
    from less.hyps[OF this f(2)] obtain lst' s' where
      h: "defrag (int (Suc m)) (int l1) s1 = Some (int lst', s')" "defrag_inv s0 lst' lst' s'" "lst' \<le> l1" by blast
    have e: "int m + 1 = int (Suc m)" by simp
    have "defrag (int m) (int lst) s = Some (int lst', s')"
      using True f(1) h(1) unfolding defrag.simps[of "int m" "int lst" s] e by (simp del: of_nat_Suc)
    then show ?thesis using h(2,3) f(4) by auto
  qed
qed

text \<open>When all segments before the last are full the live particles are a prefix.\<close>

lemma defrag_prefix:
  assumes "defrag_inv s0 lst lst s" "tot = lst * m_sort_segment_size s0 + unat (m_segment_nums s ! lst)"
  shows "tot \<le> m_number s0" "\<forall>i < m_number s0. live (data s ! i) = (i < tot)"
proof -
  let ?S = "m_sort_segment_size s0"
  note i = assms(1)[unfolded defrag_inv_def Let_def]
  show "tot \<le> m_number s0" using i assms(2) by simp
  have S: "0 < ?S" using i by (simp add: ptc_ok_def)
  have nl: "unat (m_segment_nums s ! lst) \<le> ?S" using i by simp
  show "\<forall>i < m_number s0. live (data s ! i) = (i < tot)"
  proof (intro allI impI)
    fix q assume q: "q < m_number s0"
    then have lv: "live (data s ! q) = (q div ?S \<le> lst \<and> q mod ?S < unat (m_segment_nums s ! (q div ?S)))"
      using i by simp
    have dm: "q = q div ?S * ?S + q mod ?S" "q mod ?S < ?S" using S by simp_all
    consider "q div ?S < lst" | "q div ?S = lst" | "lst < q div ?S" by linarith
    then show "live (data s ! q) = (q < tot)"
    proof cases
      case 1
      then have "Suc (q div ?S) * ?S \<le> lst * ?S" by (intro mult_le_mono1) simp
      then have "q < tot" using dm assms(2) unfolding mult_Suc by linarith
      then show ?thesis using lv 1 i dm(2) by simp
    next
      case 2
      then have "q = lst * ?S + q mod ?S" using dm(1) by simp
      then have "(q < tot) = (q mod ?S < unat (m_segment_nums s ! lst))" using assms(2) by linarith
      then show ?thesis using lv 2 by simp
    next
      case 3
      then have "Suc lst * ?S \<le> q div ?S * ?S" by (intro mult_le_mono1) simp
      then have "tot \<le> q" using dm(1) assms(2) nl unfolding mult_Suc by linarith
      then show ?thesis using lv 3 by simp
    qed
  qed
qed

subsection \<open>The whole sort\<close>

lemma seg_count_lt: "n < 2 ^ 63 \<Longrightarrow> n div seg + 1 < (2 :: nat) ^ 64"
proof -
  assume "n < 2 ^ 63"
  then have "n div seg < 2 ^ 63" by (rule order.strict_trans1[OF div_le_dividend])
  then show ?thesis by simp
qed

lemma sort_prepare_frame:
  assumes "num_cells + 2 < 2 ^ 32"
  shows
  "data (sort_prepare junk num_cells s) = data s" "m_size (sort_prepare junk num_cells s) = m_size s"
  "m_number (sort_prepare junk num_cells s) = m_number s"
  "m_sort_segment_size (sort_prepare junk num_cells s) = m_sort_segment_size s"
  "m_ptc_id (sort_prepare junk num_cells s) = m_ptc_id s"
  "length (m_partition (sort_prepare junk num_cells s)) = num_cells + 2"
  "length (m_index (sort_prepare junk num_cells s)) = m_sort_segment_size s"
  "m_size s < 2 ^ 63 \<Longrightarrow> length (m_segment_nums (sort_prepare junk num_cells s)) = m_size s div m_sort_segment_size s + 1"
  using seg_count_lt[of "m_size s" "m_sort_segment_size s"] assms by (auto simp: size_add_lt sort_prepare_def vector_resize_def Let_def min_def)

lemma sorted_upto_defrag_inv:
  assumes ok: "ptc_ok s0" and fits: "sort_fits num_cells s0" and u: "sorted_upto num_cells (m_number s0 div m_sort_segment_size s0 + 1) s0 s"
    and len: "length (m_segment_nums s0) = m_size s0 div m_sort_segment_size s0 + 1"
  shows "defrag_inv s0 0 (m_number s0 div m_sort_segment_size s0) s"
proof -
  let ?S = "m_sort_segment_size s0" and ?N = "m_number s0"
  note f = u[unfolded sorted_upto_def]
  have fr: "length (data s) = m_size s0" "m_size s = m_size s0" "m_number s = ?N" "m_sort_segment_size s = ?S"
    "m_ptc_id s = m_ptc_id s0" "length (m_segment_nums s) = m_size s0 div ?S + 1"
    using f ok len by (simp_all add: same_frame_def ptc_ok_def)
  have S: "0 < ?S" "?N \<le> m_size s0" "length (data s0) = m_size s0" using ok by (simp_all add: ptc_ok_def)
  have seg: "seg_ok num_cells k s" if "k \<le> ?N div ?S" for k using f that by simp
  have "live (data s ! i) = (i div ?S \<le> ?N div ?S \<and> i mod ?S < unat (m_segment_nums s ! (i div ?S)))" if "i < ?N" for i
  proof -
    have k: "i div ?S \<le> ?N div ?S" using that by (intro div_le_mono) simp
    have "i div ?S * ?S + i mod ?S = i" "i mod ?S < ?S" using S(1) by simp_all
    then show ?thesis using seg[OF k] that k unfolding seg_ok_def Let_def fr by metis
  qed
  moreover have "live_mset ?N (data s) = live_mset ?N (data s0)"
  proof -
    have "mset (take ?N (data s)) = mset (take ?N (data s0))" using f by simp
    then have "mset (filter live (take ?N (data s))) = mset (filter live (take ?N (data s0)))"
      by (metis mset_filter)
    then show ?thesis using fr S by (simp add: live_mset_filter)
  qed
  moreover have "?N div ?S < m_size s0 div ?S + 1" using div_le_mono[OF S(2), of ?S] by simp
  moreover have "\<forall>k \<le> ?N div ?S. unat (m_segment_nums s ! k) \<le> ?S \<and> k * ?S + unat (m_segment_nums s ! k) \<le> ?N"
    using seg unfolding seg_ok_def Let_def fr by blast
  moreover have "\<forall>q < length (data s). ?N \<le> q \<longrightarrow> data s ! q = data s0 ! q"
    using f fr S by simp
  moreover have "ptc_ok s" using ok fr by (simp add: ptc_ok_def)
  ultimately show ?thesis
    unfolding defrag_inv_def Let_def using fits[unfolded sort_fits_def] fr div_times_less_eq_dividend[of ?N ?S] by simp
qed

lemma sorted_cells:
  assumes "sorted (map (sort_key num_cells) ys)" "\<forall>q \<in> set ys. live q"
  shows "sorted (map cell ys)"
proof -
  have e: "map (sort_key num_cells) ys = map (\<lambda>q. unat (cell q)) ys"
    using assms(2) by (auto simp: sort_key_def cell_index_def live_def)
  have "sorted_wrt (\<lambda>p q. unat (cell p) \<le> unat (cell q)) ys"
    using assms(1) unfolding e by (simp add: sorted_map)
  then show ?thesis by (simp add: sorted_map word_le_nat_alt)
qed

text \<open>The result as the code leaves it: particle count, live prefix and the untouched rest.\<close>

definition compacted :: "'a ptc_common_scheme particles \<Rightarrow> 'a ptc_common_scheme particles \<Rightarrow> bool" where
  "compacted s s' =
     (let alive = filter live (take (m_number s) (data s))
      in m_number s' = length alive
         \<and> mset (take (m_number s') (data s')) = mset alive
         \<and> (\<forall>i. m_number s' \<le> i \<and> i < m_number s \<longrightarrow> \<not> live (data s' ! i))
         \<and> (\<forall>i < m_size s. m_number s \<le> i \<longrightarrow> data s' ! i = data s ! i))"

lemma defrag_compacted:
  assumes inv: "defrag_inv s0 lst lst s"
    and tot: "tot = lst * m_sort_segment_size s0 + unat (m_segment_nums s ! lst)"
    and len: "length (data s0) = m_size s0" "m_number s0 \<le> m_size s0"
  shows "compacted s0 (set_num tot s)" "ptc_ok (set_num tot s)" "m_number (set_num tot s) = tot"
proof -
  let ?N = "m_number s0"
  note pre = defrag_prefix[OF inv tot]
  note i = inv[unfolded defrag_inv_def Let_def]
  have fr: "length (data s) = m_size s0" "m_size s = m_size s0" using i by (auto simp: ptc_ok_def)
  have num: "m_number (set_num tot s) = tot" using pre(1) len(2) fr by (simp add: set_num_def)
  then show "m_number (set_num tot s) = tot" .
  show "ptc_ok (set_num tot s)" using i by (auto simp: ptc_ok_def set_num_def)
  have "filter live (take ?N (data s)) = take tot (data s)"
  proof -
    have "take ?N (data s) = take tot (data s) @ drop tot (take ?N (data s))"
      using pre(1) by (metis append_take_drop_id min.absorb1 take_take)
    moreover have "\<forall>q \<in> set (take tot (data s)). live q"
      using pre len fr by (auto simp: in_set_conv_nth)
    moreover have "\<forall>q \<in> set (drop tot (take ?N (data s))). \<not> live q"
      using pre len fr by (auto simp: in_set_conv_nth)
    ultimately show ?thesis by (metis append_Nil2 filter_True filter_False filter_append)
  qed
  moreover have "live_mset ?N (data s) = live_mset ?N (data s0)" using i by blast
  ultimately have m: "mset (take tot (data s)) = mset (filter live (take ?N (data s0)))"
    using len fr by (simp add: live_mset_filter)
  have "length (filter live (take ?N (data s0))) = tot"
    using arg_cong[OF m, of size] pre(1) len fr unfolding size_mset by simp
  then show "compacted s0 (set_num tot s)"
    unfolding compacted_def Let_def num using m pre i fr len by (auto simp: set_num_def)
qed

lemma sort_by_cell_all:
  assumes ok: "ptc_ok s" and cells: "cells_ok num_cells s" and fits: "sort_fits num_cells s"
  shows "\<exists>s'. ptc_sort_by_cell junk num_cells s = Some s' \<and> ptc_ok s' \<and> compacted s s'
    \<and> (m_number s < m_sort_segment_size s \<longrightarrow> sorted (map cell (take (m_number s') (data s'))))"
proof (cases "m_number s = 0")
  case True
  then show ?thesis using ok by (simp add: ptc_sort_by_cell_def compacted_def)
next
  case False
  define s0 where "s0 = sort_prepare junk num_cells s"
  have nc: "num_cells + 2 < 2 ^ 32" using fits by (simp add: sort_fits_def)
  note fr = sort_prepare_frame[OF nc, where junk = junk and s = s, folded s0_def]
  have ok0: "ptc_ok s0" and cells0: "cells_ok num_cells s0" and fits0: "sort_fits num_cells s0"
    using ok cells fits fr by (simp_all add: ptc_ok_def cells_ok_def sort_fits_def)
  let ?S = "m_sort_segment_size s0" and ?N = "m_number s0"
  obtain s1 where s1: "sort_segments num_cells [0..<?N div ?S + 1] s0 = Some s1"
    "sorted_upto num_cells (?N div ?S + 1) s0 s1"
    using sort_segments_correct[OF ok0 cells0 fits0, of "?N div ?S + 1"] fr ok by (auto simp: ptc_ok_def)
  have fr1: "m_number s1 = ?N" "length (data s1) = m_size s0"
    using s1(2) ok0 by (simp_all add: sorted_upto_def same_frame_def ptc_ok_def)
  have inv1: "defrag_inv s0 0 (?N div ?S) s1"
    using sorted_upto_defrag_inv[OF ok0 fits0 s1(2)] fr ok by (simp add: ptc_ok_def)
  then obtain lst s2 where d: "defrag 0 (int (?N div ?S)) s1 = Some (int lst, s2)" "defrag_inv s0 lst lst s2"
    "lst \<le> ?N div ?S"
    using defrag_correct[OF inv1] by auto
  define tot where "tot = lst * ?S + unat (m_segment_nums s2 ! lst)"
  have len0: "length (data s0) = m_size s0" "?N \<le> m_size s0" using ok0 by (simp_all add: ptc_ok_def)
  note comp = defrag_compacted[OF d(2) tot_def len0]
  have run: "ptc_sort_by_cell junk num_cells s = Some (set_num tot s2)"
  proof -
    have small: "?N div ?S + 1 < 2 ^ 31" using fits0 by (simp add: sort_fits_def)
    have segs: "size_add (?N div ?S) 1 = ?N div ?S + 1" using small by (simp add: size_add_lt)
    have last_seg: "size_to_int (?N div ?S) = int (?N div ?S)" using small by (intro size_to_int_fits) simp
    have S: "m_sort_segment_size s \<noteq> 0" using ok by (simp add: ptc_ok_def)
    have "tot \<le> ?N" using defrag_prefix(1)[OF d(2) tot_def] .
    then have "tot < 2 ^ 64" using ok0 by (simp add: ptc_ok_def)
    then have "size_add (size_mul lst ?S) (unat (m_segment_nums s2 ! lst)) = tot"
      by (simp add: tot_def size_add_lt size_mul_lt)
    moreover have "to_size (int lst) = lst" using d(2) by (simp add: defrag_inv_def Let_def)
    ultimately show ?thesis
      using False S s1(1) d(1) fr1(1) segs small last_seg defrag_seg_num(3)[OF d(2) order.refl]
      unfolding ptc_sort_by_cell_def by (simp add: fr(3) flip: s0_def del: upt_Suc)
  qed
  have "compacted s (set_num tot s2)" using comp(1) unfolding compacted_def Let_def fr .
  moreover have "sorted (map cell (take tot (data s2)))" if "?N < ?S"
  proof -
    have z: "?N div ?S = 0" using that by simp
    then have e: "s2 = s1" "lst = 0" using d(1) by (simp_all add: defrag.simps[of 0 0 s1])
    have "seg_ok num_cells 0 s1" using s1(2) z by (simp add: sorted_upto_def)
    then have "sorted (map (sort_key num_cells) (take ?N (data s1)))"
      using s1(2) that by (simp add: seg_ok_def Let_def slice_def sorted_upto_def same_frame_def)
    then have "sorted (take tot (map (sort_key num_cells) (take ?N (data s1))))" by (rule sorted_wrt_take)
    moreover have "tot \<le> ?N" using defrag_prefix(1)[OF d(2) tot_def] .
    ultimately have "sorted (map (sort_key num_cells) (take tot (data s1)))"
      by (simp add: take_map min_def)
    moreover have "\<forall>q \<in> set (take tot (data s1)). live q"
      using defrag_prefix[OF d(2) tot_def] e len0 fr1 by (auto simp: in_set_conv_nth)
    ultimately show ?thesis using sorted_cells e by blast
  qed
  ultimately show ?thesis
    using run comp(2,3) fr by (auto simp: set_num_def)
qed

subsection \<open>Appending and receiving\<close>

lemma append_effect:
  assumes "ptc_ok s" "m_number s < m_size s" "n = m_number s"
    "s' = ptc_append rank s (a1, a2, a3) (b1, b2, b3) c w f"
  shows "ptc_ok s' \<and> m_number s' = n + 1 \<and> m_ptc_id s' = m_ptc_id s + 1
    \<and> (\<forall>i. i \<noteq> n \<longrightarrow> data s' ! i = data s ! i)
    \<and> (let q = data s' ! n in x1 q = a1 \<and> x2 q = a2 \<and> x3 q = a3 \<and> p1 q = b1 \<and> p2 q = b2 \<and> p3 q = b3
         \<and> E q = ptc_energy b1 b2 b3 \<and> weight q = w \<and> cell q = c \<and> flag q = f
         \<and> pid q = push_bit 32 rank + ucast (m_ptc_id s))"
  using assms by (auto simp: ptc_append_def ptc_ok_def set_num_def Let_def)

text \<open>With a rank below \<open>2\<^sup>3\<^sup>2\<close> the two halves of an identifier are the rank and the counter.\<close>

lemma append_pid:
  assumes "uint rank < 2 ^ 32"
  shows "uint (push_bit 32 rank + ucast (k :: u32) :: u64) = uint rank * 2 ^ 32 + uint k"
proof -
  have "uint rank \<le> 2 ^ 32 - 1" using assms by simp
  then have "uint rank * 2 ^ 32 \<le> (2 ^ 32 - 1) * 2 ^ 32" by (intro mult_right_mono) simp_all
  then have "uint rank * 2 ^ 32 + uint k < 2 ^ 64" using uint32_lt[of k] by simp
  then have "uint (word_of_int (uint rank * 2 ^ 32 + uint k) :: u64) = uint rank * 2 ^ 32 + uint k"
    by (intro uint_of_int64) simp_all
  moreover have "(word_of_int (uint rank * 2 ^ 32 + uint k) :: u64) = push_bit 32 rank + ucast k"
    by (simp add: push_bit_eq_mult)
  ultimately show ?thesis by simp
qed

lemma foldl_update_nth:
  "length (foldl (\<lambda>d n. d[dst + n := buf ! n]) d [0..<k]) = length d"
  "dst + k \<le> length d \<Longrightarrow> foldl (\<lambda>d n. d[dst + n := buf ! n]) d [0..<k] ! i =
     (if dst \<le> i \<and> i < dst + k then buf ! (i - dst) else d ! i)"
proof (induction k arbitrary: i)
  case (Suc k)
  { case 1 show ?case using Suc(1) by simp }
  { case 2
    then show ?case using Suc(1) Suc(2)[of i] by (auto simp: nth_list_update not_less_less_Suc_eq) }
qed auto

lemma receive_effect:
  assumes ok: "ptc_ok s" and num: "0 \<le> num" "num < 2 ^ 31" and dst: "dst \<le> m_size s"
    and k: "k = min (nat num) (m_size s - dst)" and s': "s' = ptc_copy_from_buffer s buf num dst"
  shows "ptc_ok s' \<and> m_number s' = max (m_number s) (dst + k)
    \<and> (\<forall>i < m_size s. data s' ! i = (if dst \<le> i \<and> i < dst + k then buf ! (i - dst) else data s ! i))"
proof -
  have o: "length (data s) = m_size s" "m_number s \<le> m_size s" "m_size s < 2 ^ 63" "0 < m_sort_segment_size s"
    using ok by (simp_all add: ptc_ok_def)
  have sz: "to_size v = nat v" if "0 \<le> v" "v < 2 ^ 31" for v using that by (simp add: to_size_def)
  have add: "size_add dst n = dst + n" if "n < 2 ^ 31" for n using that dst o(3) by (simp add: size_add_def)
  have sub: "size_sub (m_size s) dst = m_size s - dst"
    using dst o(3) by (simp add: size_sub_le)
  have n31: "nat num < 2 ^ 31" using num by simp
  define m where "m = (if size_add dst (to_size num) > m_size s then size_to_int (size_sub (m_size s) dst) else num)"
  have m: "m = int k"
  proof (cases "dst + nat num > m_size s")
    case True
    then have "k = m_size s - dst" "m_size s - dst < 2 ^ 31" using k n31 by auto
    then show ?thesis using True num by (simp add: m_def sz add n31 sub)
  next
    case False
    then show ?thesis using num k dst by (simp add: m_def sz add n31)
  qed
  have k31: "k < 2 ^ 31" "dst + k \<le> m_size s" using k n31 dst by auto
  have "to_size m = k" using m k31 sz[of m] by simp
  then have "s' = (let s1 = s\<lparr>data := foldl (\<lambda>d n. d[dst + n := buf ! n]) (data s) [0..<k]\<rparr>
      in if dst + k > m_number s then set_num (dst + k) s1 else s1)"
    unfolding s' ptc_copy_from_buffer_def m_def[symmetric] Let_def using m add[OF k31(1)] by auto
  then show ?thesis
    using o k31(2) foldl_update_nth[where dst = dst and buf = buf and d = "data s" and k = k]
    by (auto simp: ptc_ok_def set_num_def Let_def max_def)
qed

subsection \<open>Properties\<close>

text \<open>
  C33.  \<open>ptc_rearrange_arrays\<close> follows the cycles of the index in place and always
  ends: when the index holds \<open>offset\<close> plus a permutation, the particle of every
  position arrives at its index, and nothing outside the range is touched.
\<close>

theorem rearrange_permutes:
  assumes "inj_on perm {..<n}" "perm ` {..<n} \<subseteq> {..<n}" "off + n \<le> done_mark"
    "n \<le> length (m_index s)" "off + n \<le> length (data s)" "\<forall>j < n. m_index s ! j = off + perm j"
  shows "\<exists>s'. ptc_rearrange_arrays off n s = Some s' \<and> m_number s' = m_number s
    \<and> (\<forall>j < n. data s' ! (off + perm j) = data s ! (off + j))
    \<and> (\<forall>q < length (data s). \<not> (off \<le> q \<and> q < off + n) \<longrightarrow> data s' ! q = data s ! q)"
  using rearrange_arrays_correct[OF assms] by force

definition example_ptcs :: "nat \<Rightarrow> u32 list \<Rightarrow> ptc_common particles" where
  "example_ptcs seg cs = \<lparr>data = map (\<lambda>c. ptc_default\<lparr>cell := c\<rparr>) cs, m_size = length cs,
     m_number = length cs, m_sort_segment_size = seg, m_ptc_id = 0, m_segment_nums = [],
     m_index = [1, 2, 0], m_partition = []\<rparr>"

theorem rearrange_permutes_witness:
  "\<exists>s'. ptc_rearrange_arrays 0 3 (example_ptcs 2 [7, 8, 9]) = Some s' \<and> cell (data s' ! 0) = 9"
proof -
  let ?f = "\<lambda>j :: nat. if j = 0 then 1 else if j = 1 then 2 else 0 :: nat"
  have l: "{..<3} = {0, 1, 2 :: nat}" by auto
  have all: "(\<forall>j < 3. P j) = (P 0 \<and> P 1 \<and> P 2)" for P :: "nat \<Rightarrow> bool"
    by (auto simp: less_Suc_eq numeral_3_eq_3 numeral_2_eq_2)
  have "\<exists>s'. ptc_rearrange_arrays 0 3 (example_ptcs 2 [7, 8, 9]) = Some s'
      \<and> m_number s' = m_number (example_ptcs 2 [7, 8, 9])
      \<and> (\<forall>j < 3. data s' ! (0 + ?f j) = data (example_ptcs 2 [7, 8, 9]) ! (0 + j))
      \<and> (\<forall>q < length (data (example_ptcs 2 [7, 8, 9])). \<not> (0 \<le> q \<and> q < 0 + 3)
           \<longrightarrow> data s' ! q = data (example_ptcs 2 [7, 8, 9]) ! q)"
    by (rule rearrange_permutes) (auto simp: l all example_ptcs_def done_mark_def inj_on_def)
  then show ?thesis by (auto simp: all example_ptcs_def)
qed

text \<open>
  C10.  While its \<open>int\<close> variables hold (fewer than \<open>2\<^sup>3\<^sup>1\<close> particles in a segment, fewer
  than \<open>2\<^sup>3\<^sup>1\<close> segments, fewer than \<open>2\<^sup>3\<^sup>2 - 2\<close> cells) \<open>ptc_sort_by_cell\<close> returns, whatever
  its scratch buffers held, and compacts the array: the particle count becomes the number of live particles, these are moved to the
  front without loss or duplication (equality of multisets), the places behind them
  are empty, and places beyond the old count are untouched.  An array that fits one
  segment comes out sorted by cell.
\<close>

theorem ptc_sort_compacts:
  assumes "ptc_ok s" "cells_ok num_cells s" "sort_fits num_cells s"
  shows "\<exists>s'. ptc_sort_by_cell junk num_cells s = Some s' \<and> ptc_ok s'
    \<and> m_number s' = length (filter live (take (m_number s) (data s)))
    \<and> mset (take (m_number s') (data s')) = mset (filter live (take (m_number s) (data s)))
    \<and> (\<forall>i. m_number s' \<le> i \<and> i < m_number s \<longrightarrow> \<not> live (data s' ! i))
    \<and> (\<forall>i < m_size s. m_number s \<le> i \<longrightarrow> data s' ! i = data s ! i)
    \<and> (m_number s < m_sort_segment_size s \<longrightarrow> sorted (map cell (take (m_number s') (data s'))))"
  using sort_by_cell_all[OF assms, of junk] unfolding compacted_def Let_def by blast

theorem ptc_sort_compacts_witness:
  "\<exists>s'. ptc_sort_by_cell (\<lambda>_. 0) 10 (example_ptcs 2 [7, - 1, 9]) = Some s' \<and> m_number s' = 2"
proof -
  have "ptc_ok (example_ptcs 2 [7, - 1, 9])" "cells_ok 10 (example_ptcs 2 [7, - 1, 9])"
    "sort_fits 10 (example_ptcs 2 [7, - 1, 9])"
    by (auto simp: ptc_ok_def cells_ok_def sort_fits_def example_ptcs_def live_def empty_cell_def less_Suc_eq)
  from ptc_sort_compacts[OF this, of "\<lambda>_. 0"] show ?thesis
    by (auto simp: example_ptcs_def live_def empty_cell_def)
qed

text \<open>
  C34.  \<open>ptc_append\<close> on a full array does nothing; otherwise it writes exactly the new
  place, with energy \<open>sqrt (1 + p\<^sup>2)\<close>, and the identifier \<open>rank * 2\<^sup>3\<^sup>2 + counter\<close>, which
  is different for every rank and counter value.
\<close>

theorem ptc_append_effect:
  assumes "ptc_ok s" "uint rank < 2 ^ 32" "n = m_number s"
    "s' = ptc_append rank s (a1, a2, a3) (b1, b2, b3) c w f"
  shows "(n = m_size s \<longrightarrow> s' = s)
    \<and> (n < m_size s \<longrightarrow> ptc_ok s' \<and> m_number s' = n + 1 \<and> m_ptc_id s' = m_ptc_id s + 1
        \<and> (\<forall>i. i \<noteq> n \<longrightarrow> data s' ! i = data s ! i)
        \<and> (x1 (data s' ! n), x2 (data s' ! n), x3 (data s' ! n)) = (a1, a2, a3)
        \<and> (p1 (data s' ! n), p2 (data s' ! n), p3 (data s' ! n)) = (b1, b2, b3)
        \<and> (E (data s' ! n))\<^sup>2 = 1 + b1\<^sup>2 + b2\<^sup>2 + b3\<^sup>2
        \<and> weight (data s' ! n) = w \<and> cell (data s' ! n) = c \<and> flag (data s' ! n) = f
        \<and> uint (pid (data s' ! n)) = uint rank * 2 ^ 32 + uint (m_ptc_id s))"
proof -
  have "(ptc_energy b1 b2 b3)\<^sup>2 = 1 + b1\<^sup>2 + b2\<^sup>2 + b3\<^sup>2"
    unfolding ptc_energy_def power2_eq_square[symmetric] by (rule real_sqrt_pow2) simp
  then have "n < m_size s \<Longrightarrow> ?thesis"
    using append_effect[OF assms(1) _ assms(3,4)] append_pid[OF assms(2)] assms(3) by (auto simp: Let_def)
  moreover have "n = m_size s \<Longrightarrow> ?thesis" using assms(3,4) by (simp add: ptc_append_def)
  moreover have "n \<le> m_size s" using assms(1,3) by (simp add: ptc_ok_def)
  ultimately show ?thesis using le_neq_implies_less by blast
qed

theorem ptc_append_effect_witness:
  "uint (pid (data (ptc_append 3 ((example_ptcs 2 [7, 8])\<lparr>m_number := 1\<rparr>) (0, 0, 0) (1, 2, 2) 5 1 0) ! 1))
     = 3 * 2 ^ 32"
  using ptc_append_effect[of "(example_ptcs 2 [7, 8])\<lparr>m_number := 1\<rparr>" 3 1 _ 0 0 0 1 2 2 5 1 0, OF _ _ _ refl]
  by (simp add: example_ptcs_def ptc_ok_def)

text \<open>
  C35.  \<open>ptc_copy_from_buffer\<close> stores the first \<open>min num (size - dst)\<close> received
  particles from \<open>dst\<close> on, keeps all others, and the count covers what arrived.
\<close>

theorem ptc_receive_exact:
  assumes "ptc_ok s" "0 \<le> num" "num < 2 ^ 31" "dst \<le> m_size s"
    "k = min (nat num) (m_size s - dst)" "s' = ptc_copy_from_buffer s buf num dst"
  shows "ptc_ok s' \<and> m_number s' = max (m_number s) (dst + k)
    \<and> (\<forall>i < m_size s. data s' ! i = (if dst \<le> i \<and> i < dst + k then buf ! (i - dst) else data s ! i))"
  by (rule receive_effect[OF assms])

theorem ptc_receive_exact_witness:
  "cell (data (ptc_copy_from_buffer (example_ptcs 2 [7, 8, 9]) (map (\<lambda>c. ptc_default\<lparr>cell := c\<rparr>) [1, 2, 3]) 3 1) ! 2) = 2"
  using ptc_receive_exact[of "example_ptcs 2 [7, 8, 9]" 3 1 2 _ "map (\<lambda>c. ptc_default\<lparr>cell := c\<rparr>) [1, 2, 3]", OF _ _ _ _ _ refl]
  by (simp add: example_ptcs_def ptc_ok_def)

end
