(* ===== verification/GridModel.thy ===== *)
theory GridModel
  imports Index ParticleSort
begin

text \<open>
  The computational grid: \<open>Grid\<close> of \<open>src/core/grid.hpp\<close>, the system \<open>grid_t\<close>
  (\<open>src/systems/grid.h\<close>, \<open>src/systems/grid_impl.hpp\<close>) that cuts it out of the
  global domain, \<open>domain_info_t\<close>, and the particle functions that use a grid:
  \<open>ptc_append_global\<close> and \<open>ptc_copy_to_comm_buffers\<close>
  (\<open>src/core/particles_functions.cpp\<close>).  A member array of length \<open>Dim\<close> is a list;
  coordinates are real numbers.
\<close>

record Grid =
  g_dims :: extent_t
  g_N :: extent_t
  g_guard :: index_t
  g_delta :: "scalar list"
  g_inv_delta :: "scalar list"
  g_lower :: "scalar list"
  g_sizes :: "scalar list"
  g_offset :: index_t

definition g_dim :: "Grid \<Rightarrow> nat" where "g_dim g = length (g_N g)"

definition reduced_dim :: "Grid \<Rightarrow> nat \<Rightarrow> u32" where
  "reduced_dim g i = g_N g ! i"

subsection \<open>Coordinates\<close>

text \<open>\<open>i - guard + pos_in_cell\<close>: the \<open>int\<close> difference is converted to a floating value.\<close>

definition coord :: "Grid \<Rightarrow> nat \<Rightarrow> i32 \<Rightarrow> scalar \<Rightarrow> scalar" where
  "coord g dir i pos_in_cell =
     (if dir < g_dim g
      then g_lower g ! dir + g_delta g ! dir * (of_int (sint i - sint (g_guard g ! dir)) + pos_in_cell)
      else pos_in_cell)"

definition coord_stagger :: "Grid \<Rightarrow> nat \<Rightarrow> i32 \<Rightarrow> int \<Rightarrow> scalar" where
  "coord_stagger g dir n stagger = coord g dir n (0.5 - 0.5 * of_int stagger)"

definition coord_global :: "Grid \<Rightarrow> index_t \<Rightarrow> scalar list \<Rightarrow> scalar list" where
  "coord_global g pos rel_x =
     foldl (\<lambda>result i. result[i := coord g i (pos ! i) (rel_x ! i)]) rel_x [0..<g_dim g]"

text \<open>The loop body of \<open>from_global\<close> for one direction: position and relative coordinate.\<close>

definition from_global_dir :: "Grid \<Rightarrow> nat \<Rightarrow> scalar \<Rightarrow> i32 \<times> scalar" where
  "from_global_dir g i x =
     (let p = word_of_int \<lfloor>(x - g_lower g ! i) / g_delta g ! i\<rfloor> :: i32;
          rel = (x - g_lower g ! i - of_int (sint p) * g_delta g ! i) * g_inv_delta g ! i
      in (p + g_guard g ! i, rel))"

definition from_global :: "Grid \<Rightarrow> scalar list \<Rightarrow> index_t \<times> scalar list" where
  "from_global g global_x =
     foldl (\<lambda>(pos, rel_x) i.
         let (p, r) = from_global_dir g i (global_x ! i) in (pos[i := p], rel_x[i := r]))
       (replicate (g_dim g) 0, global_x) [0..<g_dim g]"

subsection \<open>Zones and bounds\<close>

text \<open>
  The first comparison of a zone is signed; \<open>dims - guard\<close> is a \<open>uint32_t\<close>, so the
  second one is unsigned.
\<close>

definition zone_digit :: "Grid \<Rightarrow> nat \<Rightarrow> i32 \<Rightarrow> int" where
  "zone_digit g i p = of_bool (sint p \<ge> sint (g_guard g ! i))
     + of_bool (uint p \<ge> uint (g_dims g ! i - g_guard g ! i))"

definition find_zone :: "Grid \<Rightarrow> index_t \<Rightarrow> int" where
  "find_zone g pos =
     fst (foldl (\<lambda>(lin, stride) i. (lin + zone_digit g i (pos ! i) * stride, stride * 3))
            (0, 1) [0..<g_dim g])"

fun is_in_bound_x_from :: "Grid \<Rightarrow> nat list \<Rightarrow> scalar list \<Rightarrow> bool" where
  "is_in_bound_x_from g [] x = True"
| "is_in_bound_x_from g (n # ns) x =
     (if x ! n < g_lower g ! n \<or> x ! n > g_lower g ! n + g_sizes g ! n then False
      else is_in_bound_x_from g ns x)"

definition is_in_bound_x :: "Grid \<Rightarrow> scalar list \<Rightarrow> bool" where
  "is_in_bound_x g x = is_in_bound_x_from g [0..<g_dim g] x"

fun is_in_bound_from :: "Grid \<Rightarrow> (nat \<Rightarrow> u32) \<Rightarrow> nat list \<Rightarrow> index_t \<Rightarrow> bool" where
  "is_in_bound_from g st [] pos = True"
| "is_in_bound_from g st (i # is) pos =
     (if sint (pos ! i) < sint (g_guard g ! i)
         \<or> uint (pos ! i) \<ge> uint (g_N g ! i + g_guard g ! i + st i) then False
      else is_in_bound_from g st is pos)"

definition is_in_bound :: "Grid \<Rightarrow> index_t \<Rightarrow> bool" where
  "is_in_bound g pos = is_in_bound_from g (\<lambda>_. 0) [0..<g_dim g] pos"

definition is_in_bound_stagger :: "Grid \<Rightarrow> index_t \<Rightarrow> stagger_t \<Rightarrow> bool" where
  "is_in_bound_stagger g pos st =
     is_in_bound_from g (\<lambda>i. word_of_int (stagger_at st i)) [0..<g_dim g] pos"

fun is_in_grid_from :: "Grid \<Rightarrow> nat list \<Rightarrow> index_t \<Rightarrow> bool" where
  "is_in_grid_from g [] pos = True"
| "is_in_grid_from g (i # is) pos =
     (if uint (pos ! i) \<ge> uint (g_dims g ! i) then False else is_in_grid_from g is pos)"

definition is_in_grid :: "Grid \<Rightarrow> index_t \<Rightarrow> bool" where
  "is_in_grid g pos = is_in_grid_from g [0..<g_dim g] pos"

definition extent :: "Grid \<Rightarrow> extent_t" where "extent g = g_dims g"

definition extent_less :: "Grid \<Rightarrow> extent_t" where "extent_less g = g_N g"

definition cell_size :: "Grid \<Rightarrow> scalar" where
  "cell_size g = foldl (\<lambda>r i. r * g_delta g ! i) 1 [0..<g_dim g]"

definition g_size :: "Grid \<Rightarrow> u32" where
  "g_size g = foldl (\<lambda>r i. r * g_dims g ! i) (g_dims g ! 0) [1..<g_dim g]"

definition make_grid :: "u32 list \<Rightarrow> u32 list \<Rightarrow> scalar list \<Rightarrow> scalar list \<Rightarrow> Grid" where
  "make_grid nN guard sizes low =
     (let delta = map2 (\<lambda>s n. s / of_int (uint n)) sizes nN
      in \<lparr>g_dims = map2 (\<lambda>n g. n + 2 * g) nN guard, g_N = nN, g_guard = guard,
          g_delta = delta, g_inv_delta = map (\<lambda>d. 1 / d) delta,
          g_lower = low, g_sizes = sizes, g_offset = map (\<lambda>_. 0) nN\<rparr>)"

subsection \<open>The domain decomposition\<close>

record domain_info =
  mpi_dims :: index_t
  mpi_coord :: index_t
  is_boundary :: "bool list"
  is_periodic :: "bool list"
  neighbor_left :: "int list"
  neighbor_right :: "int list"

text \<open>\<open>MPI_PROC_NULL\<close> belongs to the MPI library and is a parameter.\<close>

definition domain_info_default :: "int \<Rightarrow> nat \<Rightarrow> domain_info" where
  "domain_info_default mpi_proc_null dm =
     \<lparr>mpi_dims = replicate dm 1, mpi_coord = replicate dm 0, is_boundary = replicate (2 * dm) False,
      is_periodic = replicate dm False, neighbor_left = replicate dm mpi_proc_null,
      neighbor_right = replicate dm mpi_proc_null\<rparr>"

text \<open>
  The constructor after the look-ups of \<open>N\<close>, \<open>guard\<close>, \<open>size\<close>, \<open>lower\<close> and \<open>dt\<close>.
  \<open>None\<close> is the exit on a time step larger than a cell, or a \<open>next_power_of_two\<close>
  that never returns.
\<close>

fun zorder_dims :: "bool \<Rightarrow> u32 list \<Rightarrow> u32 list option" where
  "zorder_dims zorder [] = Some []"
| "zorder_dims zorder (d # ds) =
     Option.bind (if zorder then next_power_of_two d else Some d)
       (\<lambda>d'. Option.bind (zorder_dims zorder ds) (\<lambda>ds'. Some (d' # ds')))"

definition grid_t_new ::
  "bool \<Rightarrow> u32 list \<Rightarrow> index_t \<Rightarrow> scalar list \<Rightarrow> scalar list \<Rightarrow> scalar \<Rightarrow> domain_info \<Rightarrow> Grid option" where
  "grid_t_new zorder vec_N guard sizes low dt info =
     (let g = make_grid vec_N guard sizes low;
          nN = map2 (\<lambda>n m. word_of_int (uint n div uint m)) vec_N (mpi_dims info);
          sz = map2 (\<lambda>s m. s / of_int (sint m)) sizes (mpi_dims info);
          lo = map2 (\<lambda>l (c, s). l + of_int (sint c) * s) low (zip (mpi_coord info) sz)
      in if \<exists>d \<in> set (g_delta g). dt > d then None
         else Option.bind (zorder_dims zorder (map2 (\<lambda>n gd. n + 2 * gd) nN guard))
           (\<lambda>ds. Some (g\<lparr>g_N := nN, g_dims := ds, g_sizes := sz, g_lower := lo,
                         g_offset := map2 (\<lambda>c n. c * n) (mpi_coord info) nN\<rparr>)))"

subsection \<open>Cells of a grid\<close>

text \<open>\<open>Conf::idx\<close> is the column-major index by default; a cell number is its low 32 bits.\<close>

definition x_global :: "Grid \<Rightarrow> scalar list \<Rightarrow> u32 \<Rightarrow> scalar list" where
  "x_global g rel_x c = coord_global g (get_pos (extent g) (ucast c)) rel_x"

definition from_x_global :: "Grid \<Rightarrow> scalar list \<Rightarrow> scalar list \<times> u32" where
  "from_x_global g global_x =
     (let (pos, rel_x) = from_global g global_x in (rel_x, ucast (col_to_linear (extent g) pos)))"

definition ptc_append_global ::
  "u64 \<Rightarrow> 'a ptc_common_scheme particles \<Rightarrow> Grid \<Rightarrow> scalar list \<Rightarrow> scalar \<times> scalar \<times> scalar
     \<Rightarrow> scalar \<Rightarrow> u32 \<Rightarrow> 'a ptc_common_scheme particles" where
  "ptc_append_global rank s g x p w f =
     (if is_in_bound_x g x then
        let (rel, c) = from_x_global g x
        in ptc_append rank s (rel ! 0, rel ! 1, rel ! 2) p c w f
      else s)"

subsection \<open>Leaving particles\<close>

definition get_zone_offset :: "nat \<Rightarrow> int" where
  "get_zone_offset dm = (if dm = 1 then 12 else if dm = 2 then 9 else 0)"

definition zone_dx :: "int \<Rightarrow> int" where "zone_dx zone = zone mod 3 - 1"
definition zone_dy :: "nat \<Rightarrow> int \<Rightarrow> int" where
  "zone_dy dm zone = (if dm > 1 then zone div 3 mod 3 - 1 else 0)"
definition zone_dz :: "nat \<Rightarrow> int \<Rightarrow> int" where
  "zone_dz dm zone = (if dm > 2 then zone div 9 - 1 else 0)"

text \<open>
  \<open>idx.dec_z(dz * N[2]).dec_y(dy * N[1]).dec_x(dx * N[0])\<close>.  For fewer than three
  dimensions the code multiplies an entry past the end of \<open>N\<close> and of the strides by
  zero; the product is taken as zero here.
\<close>

definition move_cell :: "Grid \<Rightarrow> int \<Rightarrow> u32 \<Rightarrow> u32" where
  "move_cell g zone c =
     (let dm = g_dim g; ext = extent g;
          step = (\<lambda>d dz lin. if d < dm then col_dec ext d lin (word_of_int dz * reduced_dim g d) else lin)
      in ucast (step 0 (zone_dx zone) (step 1 (zone_dy dm zone) (step 2 (zone_dz dm zone) (ucast c)))))"

text \<open>
  The loop over the particles: the receive buffers of the zones are lists of
  particles, \<open>buf_nums\<close>, a \<open>buffer<int>\<close>, is their fill count.  \<open>None\<close> is a write past
  the end of a buffer, which the code does not check, or a count past the range of \<open>int\<close>.
\<close>

type_synonym 'p comm_state = "'p list \<times> 'p list list \<times> i32 list"

definition comm_step :: "Grid \<Rightarrow> nat \<Rightarrow> 'a ptc_common_scheme comm_state \<Rightarrow> 'a ptc_common_scheme comm_state option" where
  "comm_step g n st =
     (let (d, buffers, nums) = st; c = cell (d ! n)
      in if c = empty_cell then Some st
         else
           let zone_id = find_zone g (get_pos (extent g) (ucast c));
               zone = zone_id + get_zone_offset (g_dim g); z = nat zone_id;
               k = to_size (sint (nums ! z))
           in if zone = 13 then Some st
              else if z < length buffers \<and> z < length nums \<and> k < length (buffers ! z) then
                Option.bind (int_add (nums ! z) 1) (\<lambda>l.
                  Some (d[n := (d ! n)\<lparr>cell := empty_cell\<rparr>],
                        buffers[z := (buffers ! z)[k := (d ! n)\<lparr>cell := move_cell g zone c\<rparr>]],
                        nums[z := l]))
              else None)"

fun comm_loop :: "Grid \<Rightarrow> nat list \<Rightarrow> 'a ptc_common_scheme comm_state \<Rightarrow> 'a ptc_common_scheme comm_state option" where
  "comm_loop g [] st = Some st"
| "comm_loop g (n # ns) st = Option.bind (comm_step g n st) (comm_loop g ns)"

definition ptc_copy_to_comm_buffers ::
  "'a ptc_common_scheme particles \<Rightarrow> 'a ptc_common_scheme list list \<Rightarrow> i32 list \<Rightarrow> Grid
     \<Rightarrow> ('a ptc_common_scheme particles \<times> 'a ptc_common_scheme list list \<times> i32 list) option" where
  "ptc_copy_to_comm_buffers s buffers nums g =
     (if m_number s > 0 then
        Option.bind (comm_loop g [0..<m_number s] (data s, buffers, map (\<lambda>_. 0) nums))
          (\<lambda>(d, buffers', nums'). Some (s\<lparr>data := d\<rparr>, buffers', nums'))
      else Some (s, buffers, nums))"

end
