(* ===== verification/Interp.thy ===== *)
theory Interp
  imports Index Util
begin

text \<open>
  Interpolation: \<open>src/utils/interpolation.hpp\<close>.  A field is a function from the
  linear index to its value; \<open>inc_x\<close>, \<open>inc_y\<close>, \<open>inc_z\<close> are those of the
  column-major index.  Values are real numbers.
\<close>

subsection \<open>Splines\<close>

text \<open>\<open>bspline<N>\<close> for \<open>N\<close> = 0 to 3, with its \<open>radius\<close> and \<open>support\<close>.\<close>

definition bspline0 :: "scalar \<Rightarrow> scalar" where
  "bspline0 dx = (if \<bar>dx\<bar> \<le> 1 / 2 then 1 else 0)"

definition bspline1 :: "scalar \<Rightarrow> scalar" where
  "bspline1 dx = max (1 - \<bar>dx\<bar>) 0"

definition bspline2 :: "scalar \<Rightarrow> scalar" where
  "bspline2 dx = (let a = \<bar>dx\<bar> in
     if a < 1 / 2 then 3 / 4 - dx * dx
     else if a < 3 / 2 then (let tmp = 3 / 2 - a in 1 / 2 * tmp * tmp) else 0)"

definition bspline3 :: "scalar \<Rightarrow> scalar" where
  "bspline3 dx = (let a = \<bar>dx\<bar> in
     if a < 1 then (let tmp = a * a in 2 / 3 - tmp + 1 / 2 * tmp * a)
     else if a < 2 then (let tmp = 2 - a in 1 / 6 * tmp * tmp * tmp) else 0)"

definition bspline :: "nat \<Rightarrow> scalar \<Rightarrow> scalar" where
  "bspline n = (if n = 0 then bspline0 else if n = 1 then bspline1 else if n = 2 then bspline2 else bspline3)"

definition bs_radius :: "nat \<Rightarrow> int" where "bs_radius n = (if n \<le> 1 then 1 else 2)"

definition bs_support :: "nat \<Rightarrow> int" where "bs_support n = int n + 1"

definition interp_cell :: "nat \<Rightarrow> scalar \<Rightarrow> int \<Rightarrow> scalar" where
  "interp_cell n rel_pos rel_c = bspline n (of_int rel_c - rel_pos)"

definition interp_cell_stagger :: "nat \<Rightarrow> scalar \<Rightarrow> int \<Rightarrow> int \<Rightarrow> scalar" where
  "interp_cell_stagger n rel_pos rel_c stagger =
     bspline n (of_int rel_c + 1 / 2 * of_int (1 - stagger) - rel_pos)"

subsection \<open>\<open>interpolator\<close>\<close>

definition i_lower :: "nat \<Rightarrow> scalar \<Rightarrow> int \<Rightarrow> int" where
  "i_lower n x st = 1 - bs_radius n - of_bool (st = 0 \<and> x < 1 / 2)"

definition i_upper :: "nat \<Rightarrow> scalar \<Rightarrow> int \<Rightarrow> int" where
  "i_upper n x st = bs_support n - bs_radius n - of_bool (st = 0 \<and> x < 1 / 2)"

type_synonym field = "i64 \<Rightarrow> scalar"

definition interpolator1 :: "nat \<Rightarrow> scalar list \<Rightarrow> field \<Rightarrow> i64 \<Rightarrow> extent_t \<Rightarrow> stagger_t \<Rightarrow> scalar" where
  "interpolator1 n x f idx ext st =
     (let s0 = stagger_at st 0
      in foldl (\<lambda>result i. result + f (col_inc ext 0 idx (word_of_int i)) * interp_cell_stagger n (x ! 0) i s0)
           0 [i_lower n (x ! 0) s0..i_upper n (x ! 0) s0])"

definition interpolator2 :: "nat \<Rightarrow> scalar list \<Rightarrow> field \<Rightarrow> i64 \<Rightarrow> extent_t \<Rightarrow> stagger_t \<Rightarrow> scalar" where
  "interpolator2 n x f idx ext st =
     (let s0 = stagger_at st 0; s1 = stagger_at st 1
      in foldl (\<lambda>result j. let idx_j = col_inc ext 1 idx (word_of_int j)
           in foldl (\<lambda>result i. result + f (col_inc ext 0 idx_j (word_of_int i))
                        * interp_cell_stagger n (x ! 0) i s0 * interp_cell_stagger n (x ! 1) j s1)
                result [i_lower n (x ! 0) s0..i_upper n (x ! 0) s0])
           0 [i_lower n (x ! 1) s1..i_upper n (x ! 1) s1])"

definition interpolator3 :: "nat \<Rightarrow> scalar list \<Rightarrow> field \<Rightarrow> i64 \<Rightarrow> extent_t \<Rightarrow> stagger_t \<Rightarrow> scalar" where
  "interpolator3 n x f idx ext st =
     (let s0 = stagger_at st 0; s1 = stagger_at st 1; s2 = stagger_at st 2
      in foldl (\<lambda>result k. let idx_k = col_inc ext 2 idx (word_of_int k)
           in foldl (\<lambda>result j. let idx_j = col_inc ext 1 idx_k (word_of_int j)
                in foldl (\<lambda>result i. result + f (col_inc ext 0 idx_j (word_of_int i))
                        * interp_cell_stagger n (x ! 0) i s0 * interp_cell_stagger n (x ! 1) j s1
                        * interp_cell_stagger n (x ! 2) k s2)
                     result [i_lower n (x ! 0) s0..i_upper n (x ! 0) s0])
                result [i_lower n (x ! 1) s1..i_upper n (x ! 1) s1])
           0 [i_lower n (x ! 2) s2..i_upper n (x ! 2) s2])"

subsection \<open>\<open>interp_t\<close> of order 1\<close>

definition interp_t1 :: "scalar list \<Rightarrow> field \<Rightarrow> i64 \<Rightarrow> extent_t \<Rightarrow> stagger_t \<Rightarrow> scalar" where
  "interp_t1 x f idx ext st =
     (let x0 = x ! 0
      in if stagger_at st 0 = 1 then (1 - x0) * f idx + x0 * f (inc_x ext idx 1)
         else if stagger_at st 0 = 0 \<and> x0 < 1 / 2
         then (x0 + 1 / 2) * f (dec_x ext idx 1) + (1 / 2 - x0) * f idx
         else (x0 - 1 / 2) * f idx + (3 / 2 - x0) * f (inc_x ext idx 1))"

definition interp_t2 :: "scalar list \<Rightarrow> field \<Rightarrow> i64 \<Rightarrow> extent_t \<Rightarrow> stagger_t \<Rightarrow> scalar" where
  "interp_t2 x f idx ext st =
     (let x1 = x ! 1; ip = (\<lambda>i. interp_t1 x f i (vec_subset 0 1 ext) st)
      in if stagger_at st 1 = 1 then (1 - x1) * ip idx + x1 * ip (inc_y ext idx 1)
         else if stagger_at st 1 = 0 \<and> x1 < 1 / 2
         then (x1 + 1 / 2) * ip (dec_y ext idx 1) + (1 / 2 - x1) * ip idx
         else (x1 - 1 / 2) * ip idx + (3 / 2 - x1) * ip (inc_y ext idx 1))"

definition interp_t3 :: "scalar list \<Rightarrow> field \<Rightarrow> i64 \<Rightarrow> extent_t \<Rightarrow> stagger_t \<Rightarrow> scalar" where
  "interp_t3 x f idx ext st =
     (let x2 = x ! 2; ip = (\<lambda>i. interp_t2 x f i (vec_subset 0 2 ext) st)
      in if stagger_at st 2 = 1 then (1 - x2) * ip idx + x2 * ip (inc_z ext idx 1)
         else if stagger_at st 2 = 0 \<and> x2 < 1 / 2
         then (x2 + 1 / 2) * ip (dec_z ext idx 1) + (1 / 2 - x2) * ip idx
         else (x2 - 1 / 2) * ip idx + (3 / 2 - x2) * ip (inc_z ext idx 1))"

subsection \<open>\<open>lerp\<close>\<close>

definition lerp1 :: "field \<Rightarrow> scalar list \<Rightarrow> extent_t \<Rightarrow> i64 \<Rightarrow> scalar" where
  "lerp1 f x ext idx = x ! 0 * f (col_inc ext 0 idx 1) + (1 - x ! 0) * f idx"

definition lerp2 :: "field \<Rightarrow> scalar list \<Rightarrow> extent_t \<Rightarrow> i64 \<Rightarrow> scalar" where
  "lerp2 f x ext idx =
     (let px = (\<lambda>i. col_inc ext 0 i 1); py = (\<lambda>i. col_inc ext 1 i 1);
          f1 = x ! 1 * f (py (px idx)) + (1 - x ! 1) * f (px idx);
          f0 = x ! 1 * f (py idx) + (1 - x ! 1) * f idx
      in x ! 0 * f1 + (1 - x ! 0) * f0)"

definition lerp3 :: "field \<Rightarrow> scalar list \<Rightarrow> extent_t \<Rightarrow> i64 \<Rightarrow> scalar" where
  "lerp3 f x ext idx =
     (let px = (\<lambda>i. col_inc ext 0 i 1); py = (\<lambda>i. col_inc ext 1 i 1); pz = (\<lambda>i. col_inc ext 2 i 1);
          f11 = (1 - x ! 2) * f (py (px idx)) + x ! 2 * f (pz (py (px idx)));
          f10 = (1 - x ! 2) * f (px idx) + x ! 2 * f (pz (px idx));
          f01 = (1 - x ! 2) * f (py idx) + x ! 2 * f (pz (py idx));
          f00 = (1 - x ! 2) * f idx + x ! 2 * f (pz idx);
          f1 = x ! 1 * f11 + (1 - x ! 1) * f10;
          f0 = x ! 1 * f01 + (1 - x ! 1) * f00
      in x ! 0 * f1 + (1 - x ! 0) * f0)"

text \<open>Between two staggers: the two neighbours along a direction whose stagger changes.\<close>

definition lerp_m :: "stagger_t \<Rightarrow> stagger_t \<Rightarrow> nat \<Rightarrow> i32" where
  "lerp_m st_in out d = (if stagger_at st_in d = stagger_at out d then 0 else word_of_int (- stagger_at out d))"

definition lerp_p :: "stagger_t \<Rightarrow> stagger_t \<Rightarrow> nat \<Rightarrow> i32" where
  "lerp_p st_in out d = (if stagger_at st_in d = stagger_at out d then 0 else word_of_int (1 - stagger_at out d))"

definition lerp_stagger1 :: "field \<Rightarrow> extent_t \<Rightarrow> i64 \<Rightarrow> stagger_t \<Rightarrow> stagger_t \<Rightarrow> scalar" where
  "lerp_stagger1 f ext idx st_in out =
     1 / 2 * (f (col_inc ext 0 idx (lerp_m st_in out 0)) + f (col_inc ext 0 idx (lerp_p st_in out 0)))"

definition lerp_stagger2 :: "field \<Rightarrow> extent_t \<Rightarrow> i64 \<Rightarrow> stagger_t \<Rightarrow> stagger_t \<Rightarrow> scalar" where
  "lerp_stagger2 f ext idx st_in out =
     (let fa = (\<lambda>dx dy. f (col_inc ext 1 (col_inc ext 0 idx dx) dy));
          dx_m = lerp_m st_in out 0; dx_p = lerp_p st_in out 0;
          dy_m = lerp_m st_in out 1; dy_p = lerp_p st_in out 1;
          f1 = 1 / 2 * (fa dx_p dy_p + fa dx_p dy_m);
          f0 = 1 / 2 * (fa dx_m dy_p + fa dx_m dy_m)
      in 1 / 2 * (f1 + f0))"

definition lerp_stagger3 :: "field \<Rightarrow> extent_t \<Rightarrow> i64 \<Rightarrow> stagger_t \<Rightarrow> stagger_t \<Rightarrow> scalar" where
  "lerp_stagger3 f ext idx st_in out =
     (let fa = (\<lambda>dx dy dz. f (col_inc ext 2 (col_inc ext 1 (col_inc ext 0 idx dx) dy) dz));
          dx_m = lerp_m st_in out 0; dx_p = lerp_p st_in out 0;
          dy_m = lerp_m st_in out 1; dy_p = lerp_p st_in out 1;
          dz_m = lerp_m st_in out 2; dz_p = lerp_p st_in out 2;
          f11 = 1 / 2 * (fa dx_p dy_p dz_m + fa dx_p dy_p dz_p);
          f10 = 1 / 2 * (fa dx_p dy_m dz_m + fa dx_p dy_m dz_p);
          f01 = 1 / 2 * (fa dx_m dy_p dz_m + fa dx_m dy_p dz_p);
          f00 = 1 / 2 * (fa dx_m dy_m dz_m + fa dx_m dy_m dz_p);
          f1 = 1 / 2 * (f11 + f10);
          f0 = 1 / 2 * (f01 + f00)
      in 1 / 2 * (f1 + f0))"

definition lerp2_test :: "field \<Rightarrow> scalar \<Rightarrow> scalar \<Rightarrow> extent_t \<Rightarrow> i64 \<Rightarrow> scalar" where
  "lerp2_test f x y ext idx = lerp2 f [x, y, 0] ext idx"

definition lerp3_test :: "field \<Rightarrow> scalar \<Rightarrow> scalar \<Rightarrow> scalar \<Rightarrow> extent_t \<Rightarrow> i64 \<Rightarrow> scalar" where
  "lerp3_test f x y z ext idx = lerp3 f [x, y, z] ext idx"

subsection \<open>Sums of weights\<close>

text \<open>The weights of one direction and the interpolators as sums.\<close>

definition weights :: "nat \<Rightarrow> scalar \<Rightarrow> int \<Rightarrow> scalar" where
  "weights n x st = (\<Sum>i \<leftarrow> [i_lower n x st..i_upper n x st]. interp_cell_stagger n x i st)"

lemma foldl_sum: "foldl (\<lambda>r i. r + g i) (r0 :: real) is = r0 + (\<Sum>i \<leftarrow> is. g i)"
  by (induction "is" arbitrary: r0) simp_all

lemma sum_list_const_l: "(\<Sum>i \<leftarrow> is. c * (g i :: real)) = c * (\<Sum>i \<leftarrow> is. g i)"
  by (induction "is") (simp_all add: distrib_left)

lemma sum_list_const_r: "(\<Sum>i \<leftarrow> is. g i * (c :: real)) = (\<Sum>i \<leftarrow> is. g i) * c"
  by (induction "is") (simp_all add: distrib_right)

lemma interpolator1_const:
  "interpolator1 n x (\<lambda>_. c) idx ext st = c * weights n (x ! 0) (stagger_at st 0)"
  by (simp add: interpolator1_def Let_def foldl_sum sum_list_const_l weights_def)

lemma interpolator2_const:
  "interpolator2 n x (\<lambda>_. c) idx ext st
     = c * weights n (x ! 0) (stagger_at st 0) * weights n (x ! 1) (stagger_at st 1)"
  by (simp add: interpolator2_def Let_def foldl_sum sum_list_const_l sum_list_const_r weights_def)

lemma interpolator3_const:
  "interpolator3 n x (\<lambda>_. c) idx ext st = c * weights n (x ! 0) (stagger_at st 0)
     * weights n (x ! 1) (stagger_at st 1) * weights n (x ! 2) (stagger_at st 2)"
  by (simp add: interpolator3_def Let_def foldl_sum sum_list_const_l sum_list_const_r weights_def)

lemmas spline_defs = bspline_def bspline0_def bspline1_def bspline2_def bspline3_def interp_cell_stagger_def
  i_lower_def i_upper_def bs_radius_def bs_support_def

text \<open>Four consecutive points cover a cubic spline, two a linear one.\<close>

lemma bspline1_sum: "0 \<le> d \<Longrightarrow> d \<le> 1 \<Longrightarrow> bspline1 (- d) + bspline1 (1 - d) = 1"
  by (simp add: bspline1_def)

lemma bspline3_sum:
  assumes "0 \<le> d" "d \<le> 1"
  shows "bspline3 (- 1 - d) + bspline3 (- d) + bspline3 (1 - d) + bspline3 (2 - d) = 1"
proof -
  have c: "bspline3 y = 2 / 3 - y * y + 1 / 2 * (y * y) * \<bar>y\<bar>" if "\<bar>y\<bar> \<le> 1" for y
    using that by (cases "\<bar>y\<bar> = 1") (auto simp: bspline3_def Let_def abs_if split: if_splits)
  have o: "bspline3 y = 1 / 6 * (2 - \<bar>y\<bar>) * (2 - \<bar>y\<bar>) * (2 - \<bar>y\<bar>)" if "1 \<le> \<bar>y\<bar>" "\<bar>y\<bar> \<le> 2" for y
    using that by (cases "\<bar>y\<bar> = 2") (simp_all add: bspline3_def Let_def)
  have "bspline3 (- 1 - d) = 1 / 6 * (1 - d) * (1 - d) * (1 - d)" using o[of "- 1 - d"] assms by simp
  moreover have "bspline3 (2 - d) = 1 / 6 * d * d * d" using o[of "2 - d"] assms by simp
  moreover have "bspline3 (- d) = 2 / 3 - d * d + 1 / 2 * (d * d) * d" using c[of "- d"] assms by simp
  moreover have "bspline3 (1 - d) = 2 / 3 - (1 - d) * (1 - d) + 1 / 2 * ((1 - d) * (1 - d)) * (1 - d)"
    using c[of "1 - d"] assms by simp
  ultimately show ?thesis by (simp only:) (simp add: field_simps)
qed

lemma upto_lists:
  "[0..1] = [0, 1 :: int]" "[- 1..0] = [- 1, 0 :: int]" "[- 1..2] = [- 1, 0, 1, 2 :: int]"
  "[- 2..1] = [- 2, - 1, 0, 1 :: int]"
  by (simp_all add: upto_rec1)

lemma weights_odd:
  assumes "n = 1 \<or> n = 3" "st = 0 \<or> st = 1" "0 \<le> x" "x \<le> 1"
  shows "weights n x st = 1"
proof -
  have w1: "weights 1 x st = bspline1 (- d) + bspline1 (1 - d)"
    if "[i_lower 1 x st..i_upper 1 x st] = [k, k + 1]" "d = x - 1 / 2 * of_int (1 - st) - of_int k" for k d
    unfolding weights_def that(1) that(2) by (simp add: interp_cell_stagger_def bspline_def algebra_simps)
  have w3: "weights 3 x st = bspline3 (- 1 - d) + bspline3 (- d) + bspline3 (1 - d) + bspline3 (2 - d)"
    if "[i_lower 3 x st..i_upper 3 x st] = [k - 1, k, k + 1, k + 2]" "d = x - 1 / 2 * of_int (1 - st) - of_int k" for k d
    unfolding weights_def that(1) that(2) by (simp add: interp_cell_stagger_def bspline_def algebra_simps)
  define k where "k = (if st = 0 \<and> x < 1 / 2 then - 1 else 0 :: int)"
  have l: "[i_lower 1 x st..i_upper 1 x st] = [k, k + 1]"
    "[i_lower 3 x st..i_upper 3 x st] = [k - 1, k, k + 1, k + 2]"
    by (simp_all add: i_lower_def i_upper_def bs_radius_def bs_support_def k_def upto_lists)
  define d where "d = x - 1 / 2 * of_int (1 - st) - of_int k"
  have "0 \<le> d" "d \<le> 1" using assms(2-4) by (auto simp: d_def k_def)
  then show ?thesis
    using assms(1) w1[OF l(1) d_def] w3[OF l(2) d_def] bspline1_sum[of d] bspline3_sum[of d] by auto
qed

subsection \<open>Properties\<close>

text \<open>
  The interpolators of order 1 and 3 reproduce constant fields in one, two and
  three dimensions, for every stagger and every position in the cell.  Those of
  order 0 and 2 do not: their summation range misses points of the spline, and a
  position exists where the weights do not add up to 1.
\<close>

theorem interpolator_constants:
  assumes "n = 1 \<or> n = 3" "\<forall>d < 3. 0 \<le> x ! d \<and> x ! d \<le> 1"
  shows "interpolator1 n x (\<lambda>_. c) idx ext st = c \<and> interpolator2 n x (\<lambda>_. c) idx ext st = c
    \<and> interpolator3 n x (\<lambda>_. c) idx ext st = c
    \<and> interpolator1 0 [1 / 4] (\<lambda>_. 1) idx ext 0 = 0
    \<and> interpolator1 2 [3 / 4] (\<lambda>_. 1) idx ext 1 = 31 / 32"
proof -
  have st: "stagger_at st d = 0 \<or> stagger_at st d = 1" for d by (simp add: stagger_at_bit)
  have w: "weights n (x ! d) (stagger_at st d) = 1" if "d < 3" for d
    using weights_odd[OF assms(1) st] assms(2) that by blast
  have "weights 0 (1 / 4) 0 = 0"
    by (simp add: weights_def i_lower_def i_upper_def bs_radius_def bs_support_def interp_cell_stagger_def
        bspline_def bspline0_def)
  moreover have "[- 1..1] = [- 1, 0, 1 :: int]" by (simp add: upto_rec1)
  then have "weights 2 (3 / 4) 1 = 31 / 32"
    by (simp add: weights_def i_lower_def i_upper_def bs_radius_def bs_support_def interp_cell_stagger_def
        bspline_def bspline2_def Let_def)
  ultimately show ?thesis
    using w[of 0] w[of 1] w[of 2]
    by (simp add: interpolator1_const interpolator2_const interpolator3_const stagger_at_bit)
qed

theorem interpolator_constants_witness:
  "interpolator3 3 [1 / 4, 1 / 2, 1] (\<lambda>_. 7) 5 [4, 4, 4] 2 = 7"
proof -
  have "\<forall>d < 3. 0 \<le> [1 / 4, 1 / 2, 1 :: real] ! d \<and> [1 / 4, 1 / 2, 1 :: real] ! d \<le> 1"
    by (auto simp: less_Suc_eq numeral_3_eq_3)
  then show ?thesis using interpolator_constants[of 3 "[1 / 4, 1 / 2, 1]" 7 5 "[4, 4, 4]" 2] by simp
qed

text \<open>
  \<open>interp_t\<close> of order 1 against the interpolator: on a staggered field both agree;
  on an unstaggered field \<open>interp_t\<close> has the two weights exchanged, so that the results
  differ by \<open>2 x\<close> times the difference of the neighbours (by \<open>2 - 2 x\<close> times, from
  the middle of the cell on).
\<close>

theorem interp_t_weights:
  assumes "0 \<le> x ! 0" "x ! 0 \<le> 1" "ext \<noteq> []"
  shows "(stagger_at st 0 = 1 \<longrightarrow> interp_t1 x f idx ext st = interpolator1 1 x f idx ext st)
    \<and> (stagger_at st 0 = 0 \<and> x ! 0 < 1 / 2 \<longrightarrow>
        interp_t1 x f idx ext st - interpolator1 1 x f idx ext st = 2 * x ! 0 * (f (idx - 1) - f idx))
    \<and> (stagger_at st 0 = 0 \<and> 1 / 2 \<le> x ! 0 \<longrightarrow>
        interp_t1 x f idx ext st - interpolator1 1 x f idx ext st = (2 - 2 * x ! 0) * (f (idx + 1) - f idx))"
proof -
  have "col_inc ext 0 idx (word_of_int i) = idx + word_of_int i" if "i = - 1 \<or> i = 0 \<or> i = 1" for i
    using that assms(3) by (auto simp: col_inc_def strides_nth)
  then have p: "col_inc ext 0 idx (- 1) = idx - 1" "col_inc ext 0 idx 0 = idx" "col_inc ext 0 idx 1 = idx + 1"
    by fastforce+
  show ?thesis
    using assms(1,2)
    by (cases "x ! 0 = 1 / 2") (auto simp: interp_t1_def interpolator1_def Let_def i_lower_def i_upper_def bs_radius_def bs_support_def
        upto_lists interp_cell_stagger_def bspline_def bspline1_def inc_x_def dec_x_def idx_plus_def
        idx_minus_def p max_def abs_if algebra_simps)
qed

theorem interp_t_weights_witness:
  "interp_t1 [1 / 4] (\<lambda>i. of_int (sint i)) 5 [9] 0 - interpolator1 1 [1 / 4] (\<lambda>i. of_int (sint i)) 5 [9] 0 = - (1 / 2)"
  using interp_t_weights[of "[1 / 4]" "[9]" 0 "\<lambda>i. of_int (sint i)" 5] by (simp add: stagger_at_bit)

end
