(* ===== verification/FiniteDiff.thy ===== *)
theory FiniteDiff
  imports GridModel Interp
begin

text \<open>
  Finite differences on staggered fields:
  \<open>src/systems/helpers/finite_diff_helper.hpp\<close>, the staggers of the field types
  (\<open>src/data/fields.cpp\<close>) and the loop of the host execution policy
  (\<open>src/systems/policies/exec_policy_host.hpp\<close>).  A vector field is a function from the
  component to its field; the index is column-major.
\<close>

type_synonym vfield = "nat \<Rightarrow> field"

datatype field_type = face_centered | edge_centered | cell_centered | vert_centered

definition field_stagger :: "field_type \<Rightarrow> nat \<Rightarrow> stagger_t" where
  "field_stagger ty c =
     (if ty = face_centered then [0b001, 0b010, 0b100] ! c
      else if ty = edge_centered then [0b110, 0b101, 0b011] ! c
      else if ty = cell_centered then 0b000
      else 0b111)"

text \<open>\<open>for (auto idx : range(begin, end)) f(idx)\<close>\<close>

definition host_loop :: "extent_t \<Rightarrow> (i64 \<Rightarrow> 's \<Rightarrow> 's) \<Rightarrow> 's \<Rightarrow> 's" where
  "host_loop ext f S = foldl (\<lambda>S i. f (word_of_int (int i)) S) S [0..<unat (extent_size ext)]"

subsection \<open>Differences\<close>

definition diff :: "nat \<Rightarrow> nat \<Rightarrow> extent_t \<Rightarrow> field \<Rightarrow> i64 \<Rightarrow> stagger_t \<Rightarrow> scalar" where
  "diff order d ext p idx st =
     (let s = stagger_at st d; inc = (\<lambda>n. p (col_inc ext d idx (word_of_int n)));
          dec = (\<lambda>n. p (col_dec ext d idx (word_of_int n)))
      in if order = 2 then inc s - dec (1 - s)
         else if order = 4 then (- inc (s + 1) + 27 * inc s - 27 * dec (1 - s) + dec (2 - s)) / 24
         else 0)"

definition diff2 :: "nat \<Rightarrow> nat \<Rightarrow> extent_t \<Rightarrow> field \<Rightarrow> i64 \<Rightarrow> scalar" where
  "diff2 order d ext p idx =
     (if order = 2 then p (col_inc ext d idx 1) - 2 * p idx + p (col_dec ext d idx 1)
      else if order = 4
      then (- p (col_inc ext d idx 2) + 16 * p (col_inc ext d idx 1) - 30 * p idx
            + 16 * p (col_dec ext d idx 1) - p (col_dec ext d idx 2)) / 12
      else 0)"

subsection \<open>One dimension\<close>

definition fd1_div :: "nat \<Rightarrow> Grid \<Rightarrow> vfield \<Rightarrow> i64 \<Rightarrow> (nat \<Rightarrow> stagger_t) \<Rightarrow> scalar" where
  "fd1_div order g f idx st = diff order 0 (g_dims g) (f 0) idx (st 0) * g_inv_delta g ! 0"

definition fd1_curl0 :: "nat \<Rightarrow> Grid \<Rightarrow> vfield \<Rightarrow> i64 \<Rightarrow> (nat \<Rightarrow> stagger_t) \<Rightarrow> scalar" where
  "fd1_curl0 order g f idx st = 0"

definition fd1_curl1 :: "nat \<Rightarrow> Grid \<Rightarrow> vfield \<Rightarrow> i64 \<Rightarrow> (nat \<Rightarrow> stagger_t) \<Rightarrow> scalar" where
  "fd1_curl1 order g f idx st = - diff order 0 (g_dims g) (f 2) idx (st 2) * g_inv_delta g ! 0"

definition fd1_curl2 :: "nat \<Rightarrow> Grid \<Rightarrow> vfield \<Rightarrow> i64 \<Rightarrow> (nat \<Rightarrow> stagger_t) \<Rightarrow> scalar" where
  "fd1_curl2 order g f idx st = diff order 0 (g_dims g) (f 1) idx (st 1) * g_inv_delta g ! 0"

definition fd1_laplacian :: "nat \<Rightarrow> Grid \<Rightarrow> field \<Rightarrow> i64 \<Rightarrow> scalar" where
  "fd1_laplacian order g f idx = diff2 order 0 (g_dims g) f idx * (g_inv_delta g ! 0)\<^sup>2"

subsection \<open>Two dimensions\<close>

definition fd2_div :: "nat \<Rightarrow> Grid \<Rightarrow> vfield \<Rightarrow> i64 \<Rightarrow> (nat \<Rightarrow> stagger_t) \<Rightarrow> scalar" where
  "fd2_div order g f idx st = diff order 0 (g_dims g) (f 0) idx (st 0) * g_inv_delta g ! 0
     + diff order 1 (g_dims g) (f 1) idx (st 1) * g_inv_delta g ! 1"

definition fd2_curl0 :: "nat \<Rightarrow> Grid \<Rightarrow> vfield \<Rightarrow> i64 \<Rightarrow> (nat \<Rightarrow> stagger_t) \<Rightarrow> scalar" where
  "fd2_curl0 order g f idx st = diff order 1 (g_dims g) (f 2) idx (st 2) * g_inv_delta g ! 1"

definition fd2_curl1 :: "nat \<Rightarrow> Grid \<Rightarrow> vfield \<Rightarrow> i64 \<Rightarrow> (nat \<Rightarrow> stagger_t) \<Rightarrow> scalar" where
  "fd2_curl1 order g f idx st = - diff order 0 (g_dims g) (f 2) idx (st 2) * g_inv_delta g ! 0"

definition fd2_curl2 :: "nat \<Rightarrow> Grid \<Rightarrow> vfield \<Rightarrow> i64 \<Rightarrow> (nat \<Rightarrow> stagger_t) \<Rightarrow> scalar" where
  "fd2_curl2 order g f idx st = diff order 0 (g_dims g) (f 1) idx (st 1) * g_inv_delta g ! 0
     - diff order 1 (g_dims g) (f 0) idx (st 0) * g_inv_delta g ! 1"

text \<open>The circulations of a field with given line elements.\<close>

definition circ0 :: "vfield \<Rightarrow> vfield \<Rightarrow> i64 \<Rightarrow> i64 \<Rightarrow> scalar" where
  "circ0 f dl idx idx_py = f 2 idx_py * dl 2 idx_py - f 2 idx * dl 2 idx"

definition circ1 :: "vfield \<Rightarrow> vfield \<Rightarrow> i64 \<Rightarrow> i64 \<Rightarrow> scalar" where
  "circ1 f dl idx idx_px = f 2 idx * dl 2 idx - f 2 idx_px * dl 2 idx_px"

definition circ2 :: "vfield \<Rightarrow> vfield \<Rightarrow> i64 \<Rightarrow> i64 \<Rightarrow> i64 \<Rightarrow> i64 \<Rightarrow> scalar" where
  "circ2 f dl idx_mx idx_my idx_px idx_py =
     f 1 idx_px * dl 1 idx_px - f 1 idx_mx * dl 1 idx_mx + f 0 idx_my * dl 0 idx_my - f 0 idx_py * dl 0 idx_py"

definition fd2_laplacian :: "nat \<Rightarrow> Grid \<Rightarrow> field \<Rightarrow> i64 \<Rightarrow> scalar" where
  "fd2_laplacian order g f idx = diff2 order 0 (g_dims g) f idx * (g_inv_delta g ! 0)\<^sup>2
     + diff2 order 1 (g_dims g) f idx * (g_inv_delta g ! 1)\<^sup>2"

subsection \<open>Three dimensions\<close>

definition fd3_div :: "nat \<Rightarrow> Grid \<Rightarrow> vfield \<Rightarrow> i64 \<Rightarrow> (nat \<Rightarrow> stagger_t) \<Rightarrow> scalar" where
  "fd3_div order g f idx st = diff order 0 (g_dims g) (f 0) idx (st 0) * g_inv_delta g ! 0
     + diff order 1 (g_dims g) (f 1) idx (st 1) * g_inv_delta g ! 1
     + diff order 2 (g_dims g) (f 2) idx (st 2) * g_inv_delta g ! 2"

definition fd3_curl0 :: "nat \<Rightarrow> Grid \<Rightarrow> vfield \<Rightarrow> i64 \<Rightarrow> (nat \<Rightarrow> stagger_t) \<Rightarrow> scalar" where
  "fd3_curl0 order g f idx st = diff order 1 (g_dims g) (f 2) idx (st 2) * g_inv_delta g ! 1
     - diff order 2 (g_dims g) (f 1) idx (st 1) * g_inv_delta g ! 2"

definition fd3_curl1 :: "nat \<Rightarrow> Grid \<Rightarrow> vfield \<Rightarrow> i64 \<Rightarrow> (nat \<Rightarrow> stagger_t) \<Rightarrow> scalar" where
  "fd3_curl1 order g f idx st = diff order 2 (g_dims g) (f 0) idx (st 0) * g_inv_delta g ! 2
     - diff order 0 (g_dims g) (f 2) idx (st 2) * g_inv_delta g ! 0"

definition fd3_curl2 :: "nat \<Rightarrow> Grid \<Rightarrow> vfield \<Rightarrow> i64 \<Rightarrow> (nat \<Rightarrow> stagger_t) \<Rightarrow> scalar" where
  "fd3_curl2 order g f idx st = diff order 0 (g_dims g) (f 1) idx (st 1) * g_inv_delta g ! 0
     - diff order 1 (g_dims g) (f 0) idx (st 0) * g_inv_delta g ! 1"

definition fd3_laplacian :: "nat \<Rightarrow> Grid \<Rightarrow> field \<Rightarrow> i64 \<Rightarrow> scalar" where
  "fd3_laplacian order g f idx = diff2 order 0 (g_dims g) f idx * (g_inv_delta g ! 0)\<^sup>2
     + diff2 order 1 (g_dims g) f idx * (g_inv_delta g ! 1)\<^sup>2
     + diff2 order 2 (g_dims g) f idx * (g_inv_delta g ! 2)\<^sup>2"

text \<open>\<open>finite_diff<Dim, Order>\<close> for the dimension of the grid.\<close>

definition fd_div :: "nat \<Rightarrow> Grid \<Rightarrow> vfield \<Rightarrow> i64 \<Rightarrow> (nat \<Rightarrow> stagger_t) \<Rightarrow> scalar" where
  "fd_div order g = (if g_dim g = 1 then fd1_div order g else if g_dim g = 2 then fd2_div order g else fd3_div order g)"

definition fd_curl :: "nat \<Rightarrow> Grid \<Rightarrow> nat \<Rightarrow> vfield \<Rightarrow> i64 \<Rightarrow> (nat \<Rightarrow> stagger_t) \<Rightarrow> scalar" where
  "fd_curl order g c =
     (if g_dim g = 1 then [fd1_curl0, fd1_curl1, fd1_curl2] ! c
      else if g_dim g = 2 then [fd2_curl0, fd2_curl1, fd2_curl2] ! c
      else [fd3_curl0, fd3_curl1, fd3_curl2] ! c) order g"

subsection \<open>The divergence of a curl\<close>

lemmas fd_defs = fd_div_def fd_curl_def fd1_div_def fd1_curl0_def fd1_curl1_def fd1_curl2_def
  fd2_div_def fd2_curl0_def fd2_curl1_def fd2_curl2_def fd3_div_def fd3_curl0_def fd3_curl1_def fd3_curl2_def

lemma col_inc_comm: "col_inc ext d (col_inc ext d' i a) b = col_inc ext d' (col_inc ext d i b) a"
  by (simp add: col_inc_def algebra_simps)

lemma col_dec_inc_comm: "col_dec ext d (col_inc ext d' i a) b = col_inc ext d' (col_dec ext d i b) a"
  by (simp add: col_inc_def col_dec_def algebra_simps)

lemma col_dec_comm: "col_dec ext d (col_dec ext d' i a) b = col_dec ext d' (col_dec ext d i b) a"
  by (simp add: col_dec_def algebra_simps)

text \<open>A difference is linear in the field, and differences along two directions commute.\<close>

lemma diff_lin:
  "diff order d ext (\<lambda>i. a i + b i) idx st = diff order d ext a idx st + diff order d ext b idx st"
  "diff order d ext (\<lambda>i. a i - b i) idx st = diff order d ext a idx st - diff order d ext b idx st"
  "diff order d ext (\<lambda>i. - a i) idx st = - diff order d ext a idx st"
  "diff order d ext (\<lambda>i. a i * k) idx st = diff order d ext a idx st * k"
  "diff order d ext (\<lambda>i. k * a i) idx st = k * diff order d ext a idx st"
  "diff order d ext (\<lambda>i. 0) idx st = 0"
  by (simp_all add: diff_def Let_def field_simps)

lemma diff_comm:
  "diff order d ext (\<lambda>i. diff order d' ext p i st') idx st = diff order d' ext (\<lambda>i. diff order d ext p i st) idx st'"
  by (simp add: diff_def Let_def col_inc_comm[of ext d d'] col_dec_inc_comm[of ext d d'] col_dec_comm[of ext d d']
      col_dec_inc_comm[of ext d' d, symmetric] field_simps)

lemma stagger_at_num [simp]:
  "stagger_at (field_stagger face_centered c) d = of_bool (c = d)"
  "stagger_at (field_stagger edge_centered c) d = of_bool (c \<noteq> d)"
  if "c < 3" "d < 3"
  using that by (auto simp: field_stagger_def stagger_at_bit less_Suc_eq numeral_3_eq_3 bit_simps)


text \<open>All staggers of one kind take the same side of a difference.\<close>

lemma diff_stagger: "stagger_at st d = stagger_at st' d \<Longrightarrow> diff order d ext p idx st = diff order d ext p idx st'"
  by (simp add: diff_def Let_def)

lemma diff_kind:
  assumes "c < 3" "d < 3" "c \<noteq> d"
  shows "diff order d ext p idx (field_stagger edge_centered c) = diff order d ext p idx (0b111)"
    and "diff order d ext p idx (field_stagger face_centered c) = diff order d ext p idx (0b000)"
    and "diff order c ext p idx (field_stagger face_centered c) = diff order c ext p idx (0b111)"
    and "diff order c ext p idx (field_stagger edge_centered c) = diff order c ext p idx (0b000)"
proof -
  have v: "stagger_at (0b111 :: stagger_t) e = 1" "stagger_at (0b000 :: stagger_t) e = 0" if "e < 3" for e
    using that by (auto simp: stagger_at_bit less_Suc_eq numeral_3_eq_3 bit_simps)
  show "diff order d ext p idx (field_stagger edge_centered c) = diff order d ext p idx (0b111)"
    by (rule diff_stagger) (use assms v in simp)
  show "diff order d ext p idx (field_stagger face_centered c) = diff order d ext p idx (0b000)"
    by (rule diff_stagger) (use assms v in simp)
  show "diff order c ext p idx (field_stagger face_centered c) = diff order c ext p idx (0b111)"
    by (rule diff_stagger) (use assms v in simp)
  show "diff order c ext p idx (field_stagger edge_centered c) = diff order c ext p idx (0b000)"
    by (rule diff_stagger) (use assms v in simp)
qed

lemma div_curl:
  assumes "g_dim g \<in> {1, 2, 3}"
  shows "fd_div order g (\<lambda>c i. fd_curl order g c e i (field_stagger edge_centered)) idx (field_stagger face_centered) = 0"
    and "fd_div order g (\<lambda>c i. fd_curl order g c e i (field_stagger face_centered)) idx (field_stagger edge_centered) = 0"
proof -
  let ?D = "\<lambda>d p i st. diff order d (g_dims g) p i st"
  have c: "?D 1 (\<lambda>i. ?D 0 p i st) idx st = ?D 0 (\<lambda>i. ?D 1 p i st) idx st"
    "?D 2 (\<lambda>i. ?D 0 p i st) idx st = ?D 0 (\<lambda>i. ?D 2 p i st) idx st"
    "?D 2 (\<lambda>i. ?D 1 p i st) idx st = ?D 1 (\<lambda>i. ?D 2 p i st) idx st" for p st
    by (rule diff_comm)+
  note k = diff_kind[of 0 1] diff_kind[of 0 2] diff_kind[of 1 0] diff_kind[of 1 2] diff_kind[of 2 0] diff_kind[of 2 1]
  show "fd_div order g (\<lambda>c i. fd_curl order g c e i (field_stagger edge_centered)) idx (field_stagger face_centered) = 0"
    using assms
    by (auto simp: fd_defs k diff_lin c algebra_simps simp del: One_nat_def stagger_at_num)
  show "fd_div order g (\<lambda>c i. fd_curl order g c e i (field_stagger face_centered)) idx (field_stagger edge_centered) = 0"
    using assms
    by (auto simp: fd_defs k diff_lin c algebra_simps simp del: One_nat_def stagger_at_num)
qed

subsection \<open>Pointwise loops\<close>

text \<open>A loop whose body changes a vector field only at its index, from the values there.\<close>

lemma host_loop_pointwise:
  assumes "\<And>idx S c r. f idx S c r = (if r = idx then G idx (\<lambda>c. S c idx) c else S c r)"
  shows "host_loop ext f S c r = (if uint r < uint (extent_size ext) then G r (\<lambda>c. S c r) c else S c r)"
proof -
  have "foldl (\<lambda>S i. f (word_of_int (int i)) S) S [0..<n] c r
      = (if unat r < n then G r (\<lambda>c. S c r) c else S c r)" if "n \<le> 2 ^ 64" for n c r
    using that
  proof (induction n arbitrary: c r)
    case (Suc n)
    have "unat (word_of_int (int n) :: i64) = n"
      using Suc.prems by (simp add: unat_of_nat)
    then have u: "(r = word_of_int (int n)) = (unat r = n)" for r :: i64
      by (auto simp: word_unat_eq_iff)
    show ?case
      using Suc.IH[of _ r] Suc.IH[of _ "word_of_int (int n)"] Suc.prems u assms[of "word_of_int (int n)"]
      by (auto simp: less_Suc_eq)
  qed simp
  moreover have "unat (extent_size ext) \<le> 2 ^ 64"
    using unsigned_less[where 'a = nat, of "extent_size ext"] by simp
  moreover have "(unat r < unat (extent_size ext)) = (uint r < uint (extent_size ext))"
    by (simp only: unat_eq_nat_uint nat_less_eq_zless uint_ge_0)
  ultimately show ?thesis by (simp add: host_loop_def)
qed

end
