(* ===== verification/FieldSolver.thy ===== *)
theory FieldSolver
  imports FiniteDiff Params
begin

text \<open>
  The explicit Cartesian field solver:
  \<open>src/systems/field_solver_cartesian_impl.hpp\<close> with the base class of
  \<open>src/systems/field_solver_base_impl.hpp\<close>, on the host.  \<open>cherenkov_factor\<close> is 1.  The
  exchange of guard cells with other ranks is a parameter of \<open>update\<close>.
\<close>

subsection \<open>State\<close>

text \<open>The members of the base class, and those of the Cartesian solver.\<close>

record solver_base =
  fs_E :: vfield
  fs_B :: vfield
  fs_E0 :: vfield
  fs_B0 :: vfield
  fs_J :: vfield
  fs_J0 :: vfield
  fs_Etotal :: vfield
  fs_Btotal :: vfield
  fs_divE :: field
  fs_divB :: field
  fs_flux :: field
  fs_E_sqr :: field
  fs_B_sqr :: field
  fs_use_implicit :: bool
  fs_alpha :: real
  fs_beta :: real
  fs_data_interval :: i32
  fs_update_e :: bool
  fs_update_b :: bool
  fs_compute_divs :: bool
  fs_compute_energies :: bool

record solver = solver_base +
  fs_B_prev :: vfield
  fs_B_mid :: vfield
  fs_E_init :: vfield
  fs_B_init :: vfield
  fs_tmp_e1 :: vfield
  fs_tmp_e2 :: vfield
  fs_tmp_b1 :: vfield
  fs_tmp_b2 :: vfield
  fs_use_pml :: bool
  fs_damping :: "bool list"
  fs_pml_length :: i32

definition add_at :: "vfield \<Rightarrow> nat \<Rightarrow> i64 \<Rightarrow> scalar \<Rightarrow> vfield" where
  "add_at f c idx v = f(c := (f c)(idx := f c idx + v))"

definition set_at :: "vfield \<Rightarrow> nat \<Rightarrow> i64 \<Rightarrow> scalar \<Rightarrow> vfield" where
  "set_at f c idx v = f(c := (f c)(idx := v))"

abbreviation "st_B \<equiv> field_stagger face_centered"
abbreviation "st_E \<equiv> field_stagger edge_centered"

subsection \<open>The plain updates\<close>

definition compute_e_update :: "Grid \<Rightarrow> scalar \<Rightarrow> vfield \<Rightarrow> vfield \<Rightarrow> vfield \<Rightarrow> vfield \<Rightarrow> vfield" where
  "compute_e_update g dt b j j0 X =
     host_loop (extent g) (\<lambda>idx X.
       if is_in_bound g (get_pos (extent g) idx) then
         (let X = add_at X 0 idx (dt * (fd_curl 2 g 0 b idx st_B - j 0 idx - j0 0 idx));
              X = add_at X 1 idx (dt * (fd_curl 2 g 1 b idx st_B - j 1 idx - j0 1 idx));
              X = add_at X 2 idx (dt * (fd_curl 2 g 2 b idx st_B - j 2 idx - j0 2 idx))
          in X)
       else X) X"

definition compute_b_update :: "Grid \<Rightarrow> scalar \<Rightarrow> vfield \<Rightarrow> vfield \<Rightarrow> vfield" where
  "compute_b_update g dt e B =
     host_loop (extent g) (\<lambda>idx B.
       if is_in_bound g (get_pos (extent g) idx) then
         (let B = add_at B 0 idx (- dt * fd_curl 2 g 0 e idx st_E);
              B = add_at B 1 idx (- dt * fd_curl 2 g 1 e idx st_E);
              B = add_at B 2 idx (- dt * fd_curl 2 g 2 e idx st_E)
          in B)
       else B) B"

subsection \<open>The perfectly matched layer\<close>

definition n_pml_addon :: int where "n_pml_addon = 2"

definition pml_sigma :: "scalar \<Rightarrow> scalar \<Rightarrow> i32 \<Rightarrow> scalar" where
  "pml_sigma x dx n_pml = 4 * (x / dx / of_int (sint n_pml + n_pml_addon)) ^ 3 / dx"

definition pml_alpha :: "scalar \<Rightarrow> scalar \<Rightarrow> i32 \<Rightarrow> scalar" where
  "pml_alpha x dx n_pml =
     exp (- 4 * ((\<bar>x\<bar> / dx)\<^sup>2)\<^sup>2 / (4 * of_int ((sint n_pml + n_pml_addon) ^ 3)))"

text \<open>
  Direction \<open>d\<close> of the layer at a position: inside the lower layer, inside the upper layer,
  or outside.  The second comparison is unsigned, as \<open>N\<close> is.
\<close>

definition in_lower :: "Grid \<Rightarrow> bool list \<Rightarrow> i32 \<Rightarrow> index_t \<Rightarrow> nat \<Rightarrow> bool" where
  "in_lower g damping pml_len pos d =
     (d < g_dim g \<and> damping ! (2 * d) \<and> sint (pos ! d) < sint (pml_len + g_guard g ! d))"

definition in_upper :: "Grid \<Rightarrow> bool list \<Rightarrow> i32 \<Rightarrow> index_t \<Rightarrow> nat \<Rightarrow> bool" where
  "in_upper g damping pml_len pos d =
     (d < g_dim g \<and> damping ! (2 * d + 1) \<and> uint (pos ! d) \<ge> uint (g_guard g ! d + g_N g ! d - pml_len))"

definition low_edge :: "Grid \<Rightarrow> i32 \<Rightarrow> nat \<Rightarrow> scalar" where
  "low_edge g pml_len d = coord_stagger g d (pml_len + g_guard g ! d) 1"

definition up_edge :: "Grid \<Rightarrow> i32 \<Rightarrow> nat \<Rightarrow> scalar" where
  "up_edge g pml_len d = coord_stagger g d (g_N g ! d + g_guard g ! d - pml_len) 1"

text \<open>The conductivity, the factor of the other two components, and that of component \<open>d\<close>.\<close>

definition pml_e_dir :: "Grid \<Rightarrow> bool list \<Rightarrow> i32 \<Rightarrow> index_t \<Rightarrow> nat \<Rightarrow> scalar \<times> scalar \<times> scalar" where
  "pml_e_dir g damping pml_len pos d =
     (if in_lower g damping pml_len pos d then
        (let x = low_edge g pml_len d - coord_stagger g d (pos ! d) 1;
             xs = low_edge g pml_len d - coord_stagger g d (pos ! d) 0
         in (pml_sigma x (g_delta g ! d) pml_len, pml_alpha x (g_delta g ! d) pml_len, pml_alpha xs (g_delta g ! d) pml_len))
      else if in_upper g damping pml_len pos d then
        (let x = coord_stagger g d (pos ! d) 1 - up_edge g pml_len d;
             xs = coord_stagger g d (pos ! d) 0 - up_edge g pml_len d
         in (pml_sigma x (g_delta g ! d) pml_len, pml_alpha x (g_delta g ! d) pml_len, pml_alpha xs (g_delta g ! d) pml_len))
      else (0, 1, 1))"

definition pml_b_dir :: "Grid \<Rightarrow> bool list \<Rightarrow> i32 \<Rightarrow> index_t \<Rightarrow> nat \<Rightarrow> scalar" where
  "pml_b_dir g damping pml_len pos d =
     (if in_lower g damping pml_len pos d
      then pml_sigma (low_edge g pml_len d - coord_stagger g d (pos ! d) 0) (g_delta g ! d) pml_len
      else if in_upper g damping pml_len pos d
      then pml_sigma (coord_stagger g d (pos ! d) 0 - up_edge g pml_len d) (g_delta g ! d) pml_len
      else 0)"

definition pml_sigma_e :: "Grid \<Rightarrow> bool list \<Rightarrow> i32 \<Rightarrow> index_t \<Rightarrow> nat \<Rightarrow> scalar" where
  "pml_sigma_e g damping pml_len pos d = fst (pml_e_dir g damping pml_len pos d)"

definition pml_alpha_e :: "Grid \<Rightarrow> bool list \<Rightarrow> i32 \<Rightarrow> index_t \<Rightarrow> nat \<Rightarrow> scalar" where
  "pml_alpha_e g damping pml_len pos c =
     foldl (\<lambda>a d. let (s, x, xs) = pml_e_dir g damping pml_len pos d in a * (if d = c then xs else x)) 1 [0, 1, 2]"

text \<open>The difference of a field less its initial value, when the grid has the direction.\<close>

definition diff_init :: "Grid \<Rightarrow> nat \<Rightarrow> vfield \<Rightarrow> vfield \<Rightarrow> nat \<Rightarrow> i64 \<Rightarrow> (nat \<Rightarrow> stagger_t) \<Rightarrow> scalar" where
  "diff_init g d f f_init c idx st =
     (if d < g_dim g
      then (diff 2 d (extent g) (f c) idx (st c) - diff 2 d (extent g) (f_init c) idx (st c)) * g_inv_delta g ! d
      else 0)"

record pml_fields =
  pf_result :: vfield
  pf_1 :: vfield
  pf_2 :: vfield

text \<open>Component \<open>c\<close>; \<open>d1\<close> and \<open>d2\<close> are the next two directions in cyclic order.\<close>

definition pml_evolve_e ::
  "Grid \<Rightarrow> bool list \<Rightarrow> i32 \<Rightarrow> scalar \<Rightarrow> vfield \<Rightarrow> vfield \<Rightarrow> vfield \<Rightarrow> vfield \<Rightarrow> vfield \<Rightarrow> i64 \<Rightarrow> index_t \<Rightarrow>
   pml_fields \<Rightarrow> nat \<Rightarrow> pml_fields" where
  "pml_evolve_e g damping pml_len dt b e_init b_init j j0 idx pos F c =
     (let d1 = (c + 1) mod 3; d2 = (c + 2) mod 3;
          sigma = pml_sigma_e g damping pml_len pos; alpha = pml_alpha_e g damping pml_len pos c
      in if sigma d1 > 0 \<or> sigma d2 > 0 then
           (let F = F\<lparr>pf_1 := add_at (pf_1 F) c idx (dt * (diff_init g d1 b b_init d2 idx st_B - pf_1 F c idx * sigma d1))\<rparr>;
                F = F\<lparr>pf_2 := add_at (pf_2 F) c idx (dt * (- diff_init g d2 b b_init d1 idx st_B - pf_2 F c idx * sigma d2))\<rparr>
            in F\<lparr>pf_result := set_at (pf_result F) c idx
                   (pf_1 F c idx + pf_2 F c idx + e_init c idx - dt * (j c idx + j0 c idx) * alpha)\<rparr>)
         else F\<lparr>pf_result := add_at (pf_result F) c idx (dt * (fd_curl 2 g c b idx st_B - (j c idx + j0 c idx) * alpha))\<rparr>)"

definition compute_e_update_pml ::
  "Grid \<Rightarrow> bool list \<Rightarrow> i32 \<Rightarrow> scalar \<Rightarrow> vfield \<Rightarrow> vfield \<Rightarrow> vfield \<Rightarrow> vfield \<Rightarrow> vfield \<Rightarrow> pml_fields \<Rightarrow> pml_fields" where
  "compute_e_update_pml g damping pml_len dt b e_init b_init j j0 F =
     host_loop (extent g) (\<lambda>idx F.
       let pos = get_pos (extent g) idx
       in if is_in_bound g pos
          then foldl (pml_evolve_e g damping pml_len dt b e_init b_init j j0 idx pos) F [0, 1, 2]
          else F) F"

definition pml_evolve_b ::
  "Grid \<Rightarrow> bool list \<Rightarrow> i32 \<Rightarrow> scalar \<Rightarrow> vfield \<Rightarrow> vfield \<Rightarrow> vfield \<Rightarrow> i64 \<Rightarrow> index_t \<Rightarrow> pml_fields \<Rightarrow> nat \<Rightarrow> pml_fields" where
  "pml_evolve_b g damping pml_len dt e e_init b_init idx pos F c =
     (let d1 = (c + 1) mod 3; d2 = (c + 2) mod 3; sigma = pml_b_dir g damping pml_len pos
      in if sigma d1 > 0 \<or> sigma d2 > 0 then
           (let F = F\<lparr>pf_1 := add_at (pf_1 F) c idx (dt * (- diff_init g d1 e e_init d2 idx st_E - pf_1 F c idx * sigma d1))\<rparr>;
                F = F\<lparr>pf_2 := add_at (pf_2 F) c idx (dt * (diff_init g d2 e e_init d1 idx st_E - pf_2 F c idx * sigma d2))\<rparr>
            in F\<lparr>pf_result := set_at (pf_result F) c idx (pf_1 F c idx + pf_2 F c idx + b_init c idx)\<rparr>)
         else F\<lparr>pf_result := add_at (pf_result F) c idx (- dt * fd_curl 2 g c e idx st_E)\<rparr>)"

definition compute_b_update_pml ::
  "Grid \<Rightarrow> bool list \<Rightarrow> i32 \<Rightarrow> scalar \<Rightarrow> vfield \<Rightarrow> vfield \<Rightarrow> vfield \<Rightarrow> pml_fields \<Rightarrow> pml_fields" where
  "compute_b_update_pml g damping pml_len dt e e_init b_init F =
     host_loop (extent g) (\<lambda>idx F.
       let pos = get_pos (extent g) idx
       in if is_in_bound g pos
          then foldl (pml_evolve_b g damping pml_len dt e e_init b_init idx pos) F [0, 1, 2]
          else F) F"


subsection \<open>Derived fields\<close>

text \<open>Two dimensions: the flux function, column by column; empty in other dimensions.\<close>

definition flux_column :: "Grid \<Rightarrow> vfield \<Rightarrow> field \<Rightarrow> u32 \<Rightarrow> field" where
  "flux_column g b fl n0 =
     foldl (\<lambda>fl n1. let idx = col_to_linear (extent g) [n0, word_of_int n1]
         in fl(idx := fl (col_dec (extent g) 1 idx 1) + b 0 idx * g_delta g ! 1))
       fl [sint (g_guard g ! 1)..uint (g_dims g ! 1 - g_guard g ! 1) - 1]"

definition compute_flux :: "Grid \<Rightarrow> vfield \<Rightarrow> field \<Rightarrow> field" where
  "compute_flux g b fl =
     (if g_dim g = 2
      then foldl (\<lambda>fl n0. flux_column g b fl (word_of_int n0)) (\<lambda>_. 0) [0..uint (g_dims g ! 0) - 1]
      else fl)"

definition interp_vert :: "Grid \<Rightarrow> field \<Rightarrow> i64 \<Rightarrow> stagger_t \<Rightarrow> scalar" where
  "interp_vert g f idx st =
     (if g_dim g = 1 then interp_t1 [0, 0, 0] f idx (extent g) st
      else if g_dim g = 2 then interp_t2 [0, 0, 0] f idx (extent g) st
      else interp_t3 [0, 0, 0] f idx (extent g) st)"

definition compute_EB_sqr :: "Grid \<Rightarrow> vfield \<Rightarrow> vfield \<Rightarrow> field \<times> field" where
  "compute_EB_sqr g e b =
     host_loop (extent g) (\<lambda>idx (e_sqr, b_sqr).
       if is_in_bound g (get_pos (extent g) idx) then
         (let E1 = interp_vert g (e 0) idx 0b110; E2 = interp_vert g (e 1) idx 0b101; E3 = interp_vert g (e 2) idx 0b011;
              B1 = interp_vert g (b 0) idx 0b001; B2 = interp_vert g (b 1) idx 0b010; B3 = interp_vert g (b 2) idx 0b100
          in (e_sqr(idx := E1 * E1 + E2 * E2 + E3 * E3), b_sqr(idx := B1 * B1 + B2 * B2 + B3 * B3)))
       else (e_sqr, b_sqr)) (\<lambda>_. 0, \<lambda>_. 0)"

subsection \<open>Initialisation and time step\<close>

definition vf_add :: "vfield \<Rightarrow> vfield \<Rightarrow> vfield" where
  "vf_add a b = (\<lambda>c i. a c i + b c i)"

definition get_value_bool :: "string \<Rightarrow> bool \<Rightarrow> params \<Rightarrow> bool \<times> params" where
  "get_value_bool name x m = (case visit_param name (F_bool x) m of (F_bool y, m) \<Rightarrow> (y, m) | (_, m) \<Rightarrow> (x, m))"

definition get_value_int :: "string \<Rightarrow> i32 \<Rightarrow> params \<Rightarrow> i32 \<times> params" where
  "get_value_int name x m = (case visit_param name (F_int x) m of (F_int y, m) \<Rightarrow> (y, m) | (_, m) \<Rightarrow> (x, m))"

definition get_value_double :: "string \<Rightarrow> real \<Rightarrow> params \<Rightarrow> real \<times> params" where
  "get_value_double name x m = (case visit_param name (F_double x) m of (F_double y, m) \<Rightarrow> (y, m) | (_, m) \<Rightarrow> (x, m))"

definition get_array_bool :: "string \<Rightarrow> bool list \<Rightarrow> params \<Rightarrow> bool list \<times> params" where
  "get_array_bool name x m = (case visit_param name (F_bools x) m of (F_bools y, m) \<Rightarrow> (y, m) | (_, m) \<Rightarrow> (x, m))"

definition total_fields :: "'a solver_base_scheme \<Rightarrow> vfield \<Rightarrow> 'a solver_base_scheme" where
  "total_fields s B = s\<lparr>fs_Etotal := vf_add (fs_E0 s) (fs_E s), fs_Btotal := vf_add (fs_B0 s) B\<rparr>"

definition solver_base_init :: "params \<Rightarrow> 'a solver_base_scheme \<Rightarrow> 'a solver_base_scheme \<times> params" where
  "solver_base_init m s =
     (let (imp, m) = get_value_bool ''use_implicit'' (fs_use_implicit s) m;
          (beta, m) = (if imp then get_value_double ''implicit_beta'' (fs_beta s) m else (fs_beta s, m));
          (iv, m) = get_value_int ''fld_output_interval'' (fs_data_interval s) m;
          (ue, m) = get_value_bool ''update_e'' (fs_update_e s) m;
          (ub, m) = get_value_bool ''update_b'' (fs_update_b s) m;
          (ce, m) = get_value_bool ''compute_field_energies'' (fs_compute_energies s) m;
          (cd, m) = get_value_bool ''compute_field_divs'' (fs_compute_divs s) m;
          s = s\<lparr>fs_use_implicit := imp, fs_beta := beta, fs_alpha := (if imp then 1 - beta else fs_alpha s),
                fs_data_interval := iv, fs_update_e := ue, fs_update_b := ub, fs_compute_energies := ce,
                fs_compute_divs := cd\<rparr>
      in (total_fields s (fs_B s), m))"

text \<open>Damping only applies at the boundaries of the whole domain.\<close>

definition solver_init :: "Grid \<Rightarrow> domain_info option \<Rightarrow> params \<Rightarrow> solver \<Rightarrow> solver \<times> params" where
  "solver_init g comm m s =
     (let (s, m) = solver_base_init m s;
          (up, m) = get_value_bool ''use_pml'' (fs_use_pml s) m;
          (pl, m) = get_value_int ''pml_length'' (fs_pml_length s) m;
          (da, m) = get_array_bool ''damping_boundary'' (fs_damping s) m;
          da = foldl (\<lambda>da i. case comm of None \<Rightarrow> da
                 | Some info \<Rightarrow> if is_boundary info ! i \<noteq> True then da[i := False] else da) da [0..<2 * g_dim g]
      in (s\<lparr>fs_use_pml := up, fs_pml_length := pl, fs_damping := da\<rparr>, m))"

text \<open>
  \<open>send_guard\<close> is \<open>domain_comm::send_guard_cells\<close>, or the identity without a \<open>domain_comm\<close>.
  \<open>step % interval\<close> converts the \<open>int\<close> to \<open>uint32_t\<close>; an interval of 0 is a division by zero.
\<close>

definition update_b_field :: "Grid \<Rightarrow> (vfield \<Rightarrow> vfield) \<Rightarrow> real \<Rightarrow> real \<Rightarrow> solver \<Rightarrow> solver" where
  "update_b_field g send_guard dt time s =
     (if \<not> fs_update_b s then s
      else (let s = s\<lparr>fs_B_prev := fs_B s\<rparr>;
                dt_b = (if time < 1 / 10 * dt then dt * (1 / 2) else dt);
                s = (if fs_use_pml s
                     then (let F = compute_b_update_pml g (fs_damping s) (fs_pml_length s) dt_b (fs_E s) (fs_E_init s) (fs_B_init s)
                                     \<lparr>pf_result = fs_B s, pf_1 = fs_tmp_b1 s, pf_2 = fs_tmp_b2 s\<rparr>
                           in s\<lparr>fs_B := pf_result F, fs_tmp_b1 := pf_1 F, fs_tmp_b2 := pf_2 F\<rparr>)
                     else s\<lparr>fs_B := compute_b_update g dt_b (fs_E s) (fs_B s)\<rparr>)
            in s\<lparr>fs_B := send_guard (fs_B s)\<rparr>))"

definition update_e_field :: "Grid \<Rightarrow> (vfield \<Rightarrow> vfield) \<Rightarrow> real \<Rightarrow> solver \<Rightarrow> solver" where
  "update_e_field g send_guard dt s =
     (if \<not> fs_update_e s then s
      else (let s = (if fs_use_pml s
                     then (let F = compute_e_update_pml g (fs_damping s) (fs_pml_length s) dt (fs_B s) (fs_E_init s) (fs_B_init s) (fs_J s) (fs_J0 s)
                                     \<lparr>pf_result = fs_E s, pf_1 = fs_tmp_e1 s, pf_2 = fs_tmp_e2 s\<rparr>
                           in s\<lparr>fs_E := pf_result F, fs_tmp_e1 := pf_1 F, fs_tmp_e2 := pf_2 F\<rparr>)
                     else s\<lparr>fs_E := compute_e_update g dt (fs_B s) (fs_J s) (fs_J0 s) (fs_E s)\<rparr>)
            in s\<lparr>fs_E := send_guard (fs_E s)\<rparr>))"

definition solver_update :: "Grid \<Rightarrow> (vfield \<Rightarrow> vfield) \<Rightarrow> real \<Rightarrow> u32 \<Rightarrow> real \<Rightarrow> solver \<Rightarrow> solver option" where
  "solver_update g send_guard dt step time s =
     (let s = (if step = 0 then s\<lparr>fs_E_init := fs_E s, fs_B_init := fs_B s\<rparr> else s);
          s = update_b_field g send_guard dt time s;
          s = update_e_field g send_guard dt s;
          s = s\<lparr>fs_B_mid := (\<lambda>c i. (fs_B_prev s c i + fs_B s c i) * (1 / 2))\<rparr>;
          s = total_fields s (fs_B_mid s)
      in if fs_data_interval s = 0 then None
         else if step mod fs_data_interval s = 0 then
           (let s = s\<lparr>fs_flux := compute_flux g (fs_Btotal s) (fs_flux s)\<rparr>
            in Some (if fs_compute_energies s
                     then (let (e, b) = compute_EB_sqr g (fs_Etotal s) (fs_Btotal s) in s\<lparr>fs_E_sqr := e, fs_B_sqr := b\<rparr>)
                     else s))
         else Some s)"


subsection \<open>The updates point by point\<close>

text \<open>The indices a kernel updates: inside the array and in bound.\<close>

definition updated :: "Grid \<Rightarrow> i64 \<Rightarrow> bool" where
  "updated g idx = (uint idx < uint (extent_size (extent g)) \<and> is_in_bound g (get_pos (extent g) idx))"

lemma compute_b_update_point:
  assumes "c < 3"
  shows "compute_b_update g dt e B c r = (if updated g r then B c r - dt * fd_curl 2 g c e r st_E else B c r)"
proof -
  have "compute_b_update g dt e B c r
      = (if uint r < uint (extent_size (extent g))
         then (if is_in_bound g (get_pos (extent g) r) \<and> c < 3 then B c r - dt * fd_curl 2 g c e r st_E else B c r) else B c r)"
    unfolding compute_b_update_def
    by (subst host_loop_pointwise[where G = "\<lambda>idx v c. if is_in_bound g (get_pos (extent g) idx) \<and> c < 3
          then v c - dt * fd_curl 2 g c e idx st_E else v c"])
       (auto simp: add_at_def Let_def less_Suc_eq numeral_3_eq_3)
  then show ?thesis using assms by (simp add: updated_def)
qed

lemma compute_e_update_point:
  assumes "c < 3"
  shows "compute_e_update g dt b j j0 X c r
    = (if updated g r then X c r + dt * (fd_curl 2 g c b r st_B - j c r - j0 c r) else X c r)"
proof -
  have "compute_e_update g dt b j j0 X c r
      = (if uint r < uint (extent_size (extent g))
         then (if is_in_bound g (get_pos (extent g) r) \<and> c < 3
               then X c r + dt * (fd_curl 2 g c b r st_B - j c r - j0 c r) else X c r) else X c r)"
    unfolding compute_e_update_def
    by (subst host_loop_pointwise[where G = "\<lambda>idx v c. if is_in_bound g (get_pos (extent g) idx) \<and> c < 3
          then v c + dt * (fd_curl 2 g c b idx st_B - j c idx - j0 c idx) else v c"])
       (auto simp: add_at_def Let_def less_Suc_eq numeral_3_eq_3)
  then show ?thesis using assms by (simp add: updated_def)
qed

text \<open>The divergence at a point reads each component at two points.\<close>

lemma diff_local:
  assumes "c < 3" "d < 3"
  shows "p idx = q idx \<Longrightarrow> p (col_inc ext d idx 1) = q (col_inc ext d idx 1) \<Longrightarrow>
      diff 2 d ext p idx (field_stagger face_centered d) = diff 2 d ext q idx (field_stagger face_centered d)"
    and "p idx = q idx \<Longrightarrow> p (col_dec ext d idx 1) = q (col_dec ext d idx 1) \<Longrightarrow>
      diff 2 d ext p idx (field_stagger edge_centered d) = diff 2 d ext q idx (field_stagger edge_centered d)"
  using assms by (simp_all add: diff_def Let_def col_inc_def col_dec_def)

lemma fd_div_local:
  assumes "g_dim g \<in> {1, 2, 3}"
  shows "(\<And>c. c < g_dim g \<Longrightarrow> p c idx = q c idx \<and> p c (col_inc (g_dims g) c idx 1) = q c (col_inc (g_dims g) c idx 1))
      \<Longrightarrow> fd_div 2 g p idx st_B = fd_div 2 g q idx st_B"
    and "(\<And>c. c < g_dim g \<Longrightarrow> p c idx = q c idx \<and> p c (col_dec (g_dims g) c idx 1) = q c (col_dec (g_dims g) c idx 1))
      \<Longrightarrow> fd_div 2 g p idx st_E = fd_div 2 g q idx st_E"
proof -
  have three: "(0::nat) < 3" "(1::nat) < 3" "(2::nat) < 3" by simp_all
  assume a: "\<And>c. c < g_dim g \<Longrightarrow> p c idx = q c idx \<and> p c (col_inc (g_dims g) c idx 1) = q c (col_inc (g_dims g) c idx 1)"
  have d: "diff 2 c (g_dims g) (p c) idx (st_B c) = diff 2 c (g_dims g) (q c) idx (st_B c)" if "c < g_dim g" for c
    using that a[OF that] assms by (intro diff_local(1)[of c]) auto
  show "fd_div 2 g p idx st_B = fd_div 2 g q idx st_B"
    using assms d[of 0] d[of 1] d[of 2] by (auto simp: fd_div_def fd1_div_def fd2_div_def fd3_div_def)
next
  assume a: "\<And>c. c < g_dim g \<Longrightarrow> p c idx = q c idx \<and> p c (col_dec (g_dims g) c idx 1) = q c (col_dec (g_dims g) c idx 1)"
  have d: "diff 2 c (g_dims g) (p c) idx (st_E c) = diff 2 c (g_dims g) (q c) idx (st_E c)" if "c < g_dim g" for c
    using that a[OF that] assms by (intro diff_local(2)[of c]) auto
  show "fd_div 2 g p idx st_E = fd_div 2 g q idx st_E"
    using assms d[of 0] d[of 1] d[of 2] by (auto simp: fd_div_def fd1_div_def fd2_div_def fd3_div_def)
qed

lemma fd_div_lin:
  "fd_div order g (\<lambda>c i. p c i - k * q c i) idx st = fd_div order g p idx st - k * fd_div order g q idx st"
  by (simp add: fd_div_def fd1_div_def fd2_div_def fd3_div_def diff_lin algebra_simps)

lemma div_b_kept:
  assumes g: "g_dim g \<in> {1, 2, 3}" and u: "updated g idx" "\<And>d. d < g_dim g \<Longrightarrow> updated g (col_inc (g_dims g) d idx 1)"
  shows "fd_div 2 g (compute_b_update g dt e B) idx st_B = fd_div 2 g B idx st_B"
proof -
  have "fd_div 2 g (compute_b_update g dt e B) idx st_B
      = fd_div 2 g (\<lambda>c i. B c i - dt * fd_curl 2 g c e i st_E) idx st_B"
    by (rule fd_div_local(1)[OF g]) (use g u in \<open>auto simp: compute_b_update_point\<close>)
  then show ?thesis
    by (simp only: fd_div_lin div_curl(1)[OF g])
qed

lemma div_e_change:
  assumes g: "g_dim g \<in> {1, 2, 3}" and u: "updated g idx" "\<And>d. d < g_dim g \<Longrightarrow> updated g (col_dec (g_dims g) d idx 1)"
  shows "fd_div 2 g (compute_e_update g dt b j j0 X) idx st_E
    = fd_div 2 g X idx st_E - dt * fd_div 2 g (vf_add j j0) idx st_E"
proof -
  have "fd_div 2 g (compute_e_update g dt b j j0 X) idx st_E
      = fd_div 2 g (\<lambda>c i. (X c i - dt * vf_add j j0 c i) - (- dt) * fd_curl 2 g c b i st_B) idx st_E"
    by (rule fd_div_local(2)[OF g]) (use g u in \<open>auto simp: compute_e_update_point vf_add_def algebra_simps\<close>)
  then show ?thesis
    by (simp only: fd_div_lin div_curl(2)[OF g])
qed


subsection \<open>Without damping the layer is the plain update\<close>

lemma no_damping:
  assumes "list_all (\<lambda>b. \<not> b) damping" "2 * g_dim g \<le> length damping"
  shows "pml_e_dir g damping n pos d = (0, 1, 1)" "pml_b_dir g damping n pos d = 0"
proof -
  have "\<not> damping ! (2 * d)" "\<not> damping ! (2 * d + 1)" if "d < g_dim g"
    using assms that by (auto simp: list_all_length)
  then show "pml_e_dir g damping n pos d = (0, 1, 1)" "pml_b_dir g damping n pos d = 0"
    by (auto simp: pml_e_dir_def pml_b_dir_def in_lower_def in_upper_def)
qed

lemma host_loop_proj:
  assumes "\<And>idx F. pr (f idx F) = h idx (pr F)"
  shows "pr (host_loop ext f F) = host_loop ext h (pr F)"
proof -
  have "pr (foldl (\<lambda>S i. f (word_of_int (int i)) S) F is) = foldl (\<lambda>S i. h (word_of_int (int i)) S) (pr F) is" for "is"
    by (induction "is" arbitrary: F) (simp_all add: assms)
  then show ?thesis by (simp add: host_loop_def)
qed

lemma pml_off:
  assumes "list_all (\<lambda>b. \<not> b) damping" "2 * g_dim g \<le> length damping"
  shows "pf_result (compute_b_update_pml g damping n dt e e_init b_init F) = compute_b_update g dt e (pf_result F)"
    and "pf_result (compute_e_update_pml g damping n dt b e_init b_init j j0 F) = compute_e_update g dt b j j0 (pf_result F)"
proof -
  show "pf_result (compute_b_update_pml g damping n dt e e_init b_init F) = compute_b_update g dt e (pf_result F)"
    unfolding compute_b_update_pml_def compute_b_update_def
    by (rule host_loop_proj) (simp add: Let_def pml_evolve_b_def no_damping[OF assms])
  show "pf_result (compute_e_update_pml g damping n dt b e_init b_init j j0 F) = compute_e_update g dt b j j0 (pf_result F)"
    unfolding compute_e_update_pml_def compute_e_update_def
    by (rule host_loop_proj)
       (simp add: Let_def pml_evolve_e_def pml_sigma_e_def pml_alpha_e_def no_damping[OF assms] diff_diff_eq)
qed

subsection \<open>Property\<close>

text \<open>
  C5.  The plain updates keep the divergence constraints exactly, in one, two and three
  dimensions, at every point whose neighbours are updated too: the step of \<open>B\<close> does not
  change \<open>div B\<close>, and the step of \<open>E\<close> changes \<open>div E\<close> by \<open>- dt div (J + J0)\<close>.
\<close>

theorem solver_keeps_divergence:
  assumes "g_dim g \<in> {1, 2, 3}" "updated g idx"
    and "\<And>d. d < g_dim g \<Longrightarrow> updated g (col_inc (g_dims g) d idx 1) \<and> updated g (col_dec (g_dims g) d idx 1)"
  shows "fd_div 2 g (compute_b_update g dt e B) idx (field_stagger face_centered)
       = fd_div 2 g B idx (field_stagger face_centered)
    \<and> fd_div 2 g (compute_e_update g dt b j j0 X) idx (field_stagger edge_centered)
       = fd_div 2 g X idx (field_stagger edge_centered)
         - dt * fd_div 2 g (vf_add j j0) idx (field_stagger edge_centered)"
  using div_b_kept[OF assms(1,2)] div_e_change[OF assms(1,2)] assms(3) by blast

definition solver_grid :: Grid where
  "solver_grid = make_grid [4, 4] [1, 1] [1, 1] [0, 0]"

lemma solver_grid_simps [simp]:
  "g_dims solver_grid = [6, 6]" "g_N solver_grid = [4, 4]" "g_guard solver_grid = [1, 1]" "g_dim solver_grid = 2"
  by (simp_all add: solver_grid_def make_grid_def g_dim_def)

theorem solver_keeps_divergence_witness:
  "fd_div 2 solver_grid (compute_b_update solver_grid 1 (\<lambda>_ _. 1) (\<lambda>_ i. of_int (uint i))) 14 (field_stagger face_centered)
    = fd_div 2 solver_grid (\<lambda>_ i. of_int (uint i)) 14 (field_stagger face_centered)"
proof -
  have p: "get_pos [6, 6] 14 = [2, 2]" "get_pos [6, 6] 15 = [3, 2]" "get_pos [6, 6] 20 = [2, 3]"
    "get_pos [6, 6] 13 = [1, 2]" "get_pos [6, 6] 8 = [2, 1]"
    by (simp_all add: get_pos_def col_get_pos2_def c_div_def signed_divide_int_def)
  have r: "[0..<2] = [0, 1::nat]" by (simp add: upt_rec)
  have u: "updated solver_grid 14" "updated solver_grid 15" "updated solver_grid 20" "updated solver_grid 13" "updated solver_grid 8"
    unfolding updated_def extent_def solver_grid_simps p is_in_bound_def r
    by (simp_all add: extent_size_eq)
  have "updated solver_grid (col_inc (g_dims solver_grid) d 14 1) \<and> updated solver_grid (col_dec (g_dims solver_grid) d 14 1)"
    if "d < g_dim solver_grid" for d
  proof -
    have "d = 0 \<or> d = 1" using that by auto
    then show ?thesis using u by (auto simp: col_inc_def col_dec_def strides_nth)
  qed
  then show ?thesis
    using solver_keeps_divergence[of solver_grid 14 1] u(1) by (simp only: solver_grid_simps) blast
qed

end
