(* ===== verification/Pusher.thy ===== *)
theory Pusher
  imports Prelude
begin

text \<open>
  The momentum pushers: \<open>src/systems/physics/pushers.hpp\<close> and \<open>square\<close> of
  \<open>src/core/math.hpp\<close>.  The reference arguments of a pusher are the tuple
  \<open>(p1, p2, p3, gamma)\<close>, returned updated; the argument \<open>dt\<close>, which no pusher reads, is
  left out.  Values are real numbers.
\<close>

type_synonym momentum = "scalar \<times> scalar \<times> scalar \<times> scalar"

subsection \<open>The pushers\<close>

definition square :: "scalar \<Rightarrow> scalar" where "square val = val * val"

definition boris_pusher ::
  "scalar \<times> scalar \<times> scalar \<Rightarrow> scalar \<times> scalar \<times> scalar \<Rightarrow> scalar \<Rightarrow> momentum \<Rightarrow> momentum" where
  "boris_pusher = (\<lambda>(E1, E2, E3) (B1, B2, B3) qdt_over_2m (p1, p2, p3, gamma).
     let E1 = E1 * qdt_over_2m; E2 = E2 * qdt_over_2m; E3 = E3 * qdt_over_2m;
         pm1 = p1 + E1; pm2 = p2 + E2; pm3 = p3 + E3;
         gamma_m = sqrt (pm1 * pm1 + pm2 * pm2 + pm3 * pm3 + 1);
         t1 = B1 * qdt_over_2m / gamma_m; t2 = B2 * qdt_over_2m / gamma_m; t3 = B3 * qdt_over_2m / gamma_m;
         t_sqr = t1 * t1 + t2 * t2 + t3 * t3;
         pt1 = pm2 * t3 - pm3 * t2 + pm1;
         pt2 = pm3 * t1 - pm1 * t3 + pm2;
         pt3 = pm1 * t2 - pm2 * t1 + pm3;
         p1 = pm1 + E1 + (pt2 * t3 - pt3 * t2) * 2 / (t_sqr + 1);
         p2 = pm2 + E2 + (pt3 * t1 - pt1 * t3) * 2 / (t_sqr + 1);
         p3 = pm3 + E3 + (pt1 * t2 - pt2 * t1) * 2 / (t_sqr + 1)
     in (p1, p2, p3, sqrt (p1 * p1 + p2 * p2 + p3 * p3 + 1)))"

definition vay_pusher ::
  "scalar \<times> scalar \<times> scalar \<Rightarrow> scalar \<times> scalar \<times> scalar \<Rightarrow> scalar \<Rightarrow> momentum \<Rightarrow> momentum" where
  "vay_pusher = (\<lambda>(E1, E2, E3) (B1, B2, B3) qdt_over_2m (p1, p2, p3, gamma).
     let E1 = E1 * qdt_over_2m; E2 = E2 * qdt_over_2m; E3 = E3 * qdt_over_2m;
         B1 = B1 * qdt_over_2m; B2 = B2 * qdt_over_2m; B3 = B3 * qdt_over_2m;
         up1 = p1 + 2 * E1 + (p2 * B3 - p3 * B2) / gamma;
         up2 = p2 + 2 * E2 + (p3 * B1 - p1 * B3) / gamma;
         up3 = p3 + 2 * E3 + (p1 * B2 - p2 * B1) / gamma;
         tt = B1 * B1 + B2 * B2 + B3 * B3;
         ut = up1 * B1 + up2 * B2 + up3 * B3;
         sigma = 1 + up1 * up1 + up2 * up2 + up3 * up3 - tt;
         inv_gamma2 = 2 / (sigma + sqrt (sigma * sigma + 4 * (tt + ut * ut)));
         s = 1 / (1 + inv_gamma2 * tt);
         gamma = 1 / sqrt inv_gamma2
     in ((up1 + B1 * ut * inv_gamma2 + (up2 * B3 - up3 * B2) / gamma) * s,
         (up2 + B2 * ut * inv_gamma2 + (up3 * B1 - up1 * B3) / gamma) * s,
         (up3 + B3 * ut * inv_gamma2 + (up1 * B2 - up2 * B1) / gamma) * s, gamma))"

definition higuera_pusher ::
  "scalar \<times> scalar \<times> scalar \<Rightarrow> scalar \<times> scalar \<times> scalar \<Rightarrow> scalar \<Rightarrow> momentum \<Rightarrow> momentum" where
  "higuera_pusher = (\<lambda>(E1, E2, E3) (B1, B2, B3) qdt_over_2m (p1, p2, p3, gamma).
     let pm1 = p1 + E1 * qdt_over_2m; pm2 = p2 + E2 * qdt_over_2m; pm3 = p3 + E3 * qdt_over_2m;
         gm2 = 1 + pm1 * pm1 + pm2 * pm2 + pm3 * pm3;
         b_dot_p = (B1 * pm1 + B2 * pm2 + B3 * pm3) * qdt_over_2m;
         b_sqr = (B1 * B1 + B2 * B2 + B3 * B3) * square qdt_over_2m;
         gamma_new = sqrt (1 / 2 * (gm2 - b_sqr + sqrt (square (gm2 - b_sqr) + 4 * (b_sqr + b_dot_p * b_dot_p))));
         t_sqr = b_sqr / square gamma_new;
         pt1 = (pm2 * B3 - pm3 * B2) * qdt_over_2m / gamma_new + pm1;
         pt2 = (pm3 * B1 - pm1 * B3) * qdt_over_2m / gamma_new + pm2;
         pt3 = (pm1 * B2 - pm2 * B1) * qdt_over_2m / gamma_new + pm3;
         p1 = pm1 + E1 * qdt_over_2m + (pt2 * B3 - pt3 * B2) * 2 / (1 + t_sqr) * qdt_over_2m / gamma_new;
         p2 = pm2 + E2 * qdt_over_2m + (pt3 * B1 - pt1 * B3) * 2 / (1 + t_sqr) * qdt_over_2m / gamma_new;
         p3 = pm3 + E3 * qdt_over_2m + (pt1 * B2 - pt2 * B1) * 2 / (1 + t_sqr) * qdt_over_2m / gamma_new
     in (p1, p2, p3, sqrt (1 + p1 * p1 + p2 * p2 + p3 * p3)))"


subsection \<open>Rotations\<close>

text \<open>The rotation shared by the pushers, for a vector \<open>m\<close> and a parameter vector \<open>t\<close>.\<close>

definition rot1 :: "real \<Rightarrow> real \<Rightarrow> real \<Rightarrow> real \<Rightarrow> real \<Rightarrow> real \<Rightarrow> real \<Rightarrow> real" where
  "rot1 w t1 t2 t3 m1 m2 m3 = m1 + w * ((m3 * t1 - m1 * t3 + m2) * t3 - (m1 * t2 - m2 * t1 + m3) * t2)"

definition rot2 :: "real \<Rightarrow> real \<Rightarrow> real \<Rightarrow> real \<Rightarrow> real \<Rightarrow> real \<Rightarrow> real \<Rightarrow> real" where
  "rot2 w t1 t2 t3 m1 m2 m3 = rot1 w t2 t3 t1 m2 m3 m1"

definition rot3 :: "real \<Rightarrow> real \<Rightarrow> real \<Rightarrow> real \<Rightarrow> real \<Rightarrow> real \<Rightarrow> real \<Rightarrow> real" where
  "rot3 w t1 t2 t3 m1 m2 m3 = rot1 w t3 t1 t2 m3 m1 m2"

lemmas rot_defs = rot1_def rot2_def rot3_def

lemma rot_norm:
  assumes "w * (1 + t1 * t1 + t2 * t2 + t3 * t3) = 2"
  shows "(rot1 w t1 t2 t3 m1 m2 m3) * (rot1 w t1 t2 t3 m1 m2 m3) + (rot2 w t1 t2 t3 m1 m2 m3) * (rot2 w t1 t2 t3 m1 m2 m3)
    + (rot3 w t1 t2 t3 m1 m2 m3) * (rot3 w t1 t2 t3 m1 m2 m3) = m1 * m1 + m2 * m2 + m3 * m3"
    (is "?l = ?r")
proof -
  let ?x = "(m2 * t3 - m3 * t2) * (m2 * t3 - m3 * t2) + (m3 * t1 - m1 * t3) * (m3 * t1 - m1 * t3)
    + (m1 * t2 - m2 * t1) * (m1 * t2 - m2 * t1)"
  have "?l = ?r + ?x * w * (w * (1 + t1 * t1 + t2 * t2 + t3 * t3) - 2)"
    unfolding rot_defs by algebra
  then show ?thesis using assms by simp
qed

lemma rot1_back:
  assumes "w * (1 + t1 * t1 + t2 * t2 + t3 * t3) = 2"
  shows "rot1 w (- t1) (- t2) (- t3) (rot1 w t1 t2 t3 m1 m2 m3) (rot2 w t1 t2 t3 m1 m2 m3) (rot3 w t1 t2 t3 m1 m2 m3) = m1"
    (is "?l = m1")
proof -
  let ?y = "t1 * (t1 * m1 + t2 * m2 + t3 * m3) - m1 * (t1 * t1 + t2 * t2 + t3 * t3)"
  have "?l = m1 + w * ?y * (2 - w * (1 + t1 * t1 + t2 * t2 + t3 * t3))"
    unfolding rot_defs by algebra
  then show ?thesis using assms by simp
qed

lemma rot_back:
  assumes "w * (1 + t1 * t1 + t2 * t2 + t3 * t3) = 2"
  shows "rot2 w (- t1) (- t2) (- t3) (rot1 w t1 t2 t3 m1 m2 m3) (rot2 w t1 t2 t3 m1 m2 m3) (rot3 w t1 t2 t3 m1 m2 m3) = m2"
    and "rot3 w (- t1) (- t2) (- t3) (rot1 w t1 t2 t3 m1 m2 m3) (rot2 w t1 t2 t3 m1 m2 m3) (rot3 w t1 t2 t3 m1 m2 m3) = m3"
  using rot1_back[of w t2 t3 t1 m2 m3 m1] rot1_back[of w t3 t1 t2 m3 m1 m2] assms
  by (simp_all add: rot2_def rot3_def algebra_simps)

lemma rot_dot: "t1 * rot1 w t1 t2 t3 m1 m2 m3 + t2 * rot2 w t1 t2 t3 m1 m2 m3 + t3 * rot3 w t1 t2 t3 m1 m2 m3
    = t1 * m1 + t2 * m2 + t3 * m3"
  unfolding rot_defs by algebra


text \<open>With the angle factor of the code the rotation keeps the length and is undone by \<open>- t\<close>.\<close>

definition angle :: "real \<Rightarrow> real \<Rightarrow> real \<Rightarrow> real" where
  "angle t1 t2 t3 = 2 / (1 + t1 * t1 + t2 * t2 + t3 * t3)"

lemma angle_minus [simp]: "angle (- t1) (- t2) (- t3) = angle t1 t2 t3"
  by (simp add: angle_def)

lemma angle_factor: "angle t1 t2 t3 * (1 + t1 * t1 + t2 * t2 + t3 * t3) = 2"
proof -
  have "0 < 1 + t1 * t1 + t2 * t2 + t3 * (t3 :: real)"
    by (intro add_pos_nonneg zero_le_square) simp
  then show ?thesis unfolding angle_def by (subst nonzero_eq_divide_eq[symmetric]) simp_all
qed

lemmas angle_norm = rot_norm[OF angle_factor]
lemmas angle_back = rot1_back[OF angle_factor] rot_back[OF angle_factor]

subsection \<open>Pushers that rotate\<close>

text \<open>Half a kick, a rotation with the Lorentz factor \<open>G\<close> of the middle, half a kick.\<close>

definition on_shell :: "momentum \<Rightarrow> bool" where
  "on_shell = (\<lambda>(p1, p2, p3, gamma). gamma = sqrt (1 + (p1 * p1 + p2 * p2 + p3 * p3)))"

definition rot_push ::
  "(real \<Rightarrow> real \<Rightarrow> real \<Rightarrow> real) \<Rightarrow> real \<times> real \<times> real \<Rightarrow> real \<times> real \<times> real \<Rightarrow> real \<Rightarrow> momentum \<Rightarrow> momentum" where
  "rot_push G = (\<lambda>(E1, E2, E3) (B1, B2, B3) q (p1, p2, p3, gamma).
     let m1 = p1 + E1 * q; m2 = p2 + E2 * q; m3 = p3 + E3 * q; g = G m1 m2 m3;
         t1 = B1 * q / g; t2 = B2 * q / g; t3 = B3 * q / g; w = angle t1 t2 t3;
         p1 = rot1 w t1 t2 t3 m1 m2 m3 + E1 * q;
         p2 = rot2 w t1 t2 t3 m1 m2 m3 + E2 * q;
         p3 = rot3 w t1 t2 t3 m1 m2 m3 + E3 * q
     in (p1, p2, p3, sqrt (1 + (p1 * p1 + p2 * p2 + p3 * p3))))"

lemma rot_push_back:
  assumes "on_shell m"
    and "\<And>m1 m2 m3 t1 t2 t3. t1 = fst B * q / G m1 m2 m3 \<Longrightarrow>
      t2 = fst (snd B) * q / G m1 m2 m3 \<Longrightarrow> t3 = snd (snd B) * q / G m1 m2 m3 \<Longrightarrow>
      G' (rot1 (angle t1 t2 t3) t1 t2 t3 m1 m2 m3) (rot2 (angle t1 t2 t3) t1 t2 t3 m1 m2 m3)
         (rot3 (angle t1 t2 t3) t1 t2 t3 m1 m2 m3) = G m1 m2 m3"
  shows "rot_push G' E B (- q) (rot_push G E B q m) = m"
proof -
  obtain E1 E2 E3 where E: "E = (E1, E2, E3)" by (cases E)
  obtain B1 B2 B3 where B: "B = (B1, B2, B3)" by (cases B)
  obtain p1 p2 p3 g where m: "m = (p1, p2, p3, g)" by (cases m)
  have g: "g = sqrt (1 + (p1 * p1 + p2 * p2 + p3 * p3))"
    using assms(1) by (simp add: m on_shell_def)
  show ?thesis
    unfolding E B m g rot_push_def Let_def prod.case
    by (simp add: assms(2)[unfolded B fst_conv snd_conv, OF refl refl refl] angle_back)
qed

lemma rot_push_on_shell: "on_shell (rot_push G E B q m)"
  by (simp add: on_shell_def rot_push_def Let_def split: prod.splits)

lemma rot_push_magnetic:
  assumes "on_shell m"
  shows "snd (snd (snd (rot_push G (0, 0, 0) B q m))) = snd (snd (snd m))"
  using assms
  by (auto simp: on_shell_def rot_push_def Let_def angle_norm split: prod.splits)

definition boris_gamma :: "real \<Rightarrow> real \<Rightarrow> real \<Rightarrow> real" where
  "boris_gamma m1 m2 m3 = sqrt (m1 * m1 + m2 * m2 + m3 * m3 + 1)"

lemma boris_rot: "boris_pusher E B q m = rot_push boris_gamma E B q m"
  by (simp add: boris_pusher_def rot_push_def Let_def boris_gamma_def angle_def rot_defs ac_simps split: prod.splits)

lemma boris_back: "on_shell m \<Longrightarrow> boris_pusher E B (- q) (boris_pusher E B q m) = m"
  unfolding boris_rot by (rule rot_push_back) (simp_all add: boris_gamma_def angle_norm)

definition higuera_gamma :: "real \<times> real \<times> real \<Rightarrow> real \<Rightarrow> real \<Rightarrow> real \<Rightarrow> real \<Rightarrow> real" where
  "higuera_gamma = (\<lambda>(B1, B2, B3) q m1 m2 m3.
     let gm2 = 1 + (m1 * m1 + m2 * m2 + m3 * m3); bp = (B1 * m1 + B2 * m2 + B3 * m3) * q;
         bs = (B1 * B1 + B2 * B2 + B3 * B3) * square q
     in sqrt (1 / 2 * (gm2 - bs + sqrt (square (gm2 - bs) + 4 * (bs + bp * bp)))))"


lemma higuera_parts:
  fixes g q :: real
  shows "(P * B3 - Q * B2) * 2 / (1 + T) * q / g = 2 / (1 + T) * (P * (B3 * q / g) - Q * (B2 * q / g))"
    and "(a * B1 - b * B3) * q / g + c = a * (B1 * q / g) - b * (B3 * q / g) + c"
    and "(B1 * B1 + B2 * B2 + B3 * B3) * square q / square g
      = B1 * q / g * (B1 * q / g) + B2 * q / g * (B2 * q / g) + B3 * q / g * (B3 * q / g)"
  by (simp_all add: divide_inverse square_def algebra_simps)

lemma higuera_rot: "higuera_pusher E B q m = rot_push (higuera_gamma B q) E B q m"
proof -
  obtain E1 E2 E3 where E: "E = (E1, E2, E3)" by (cases E)
  obtain B1 B2 B3 where B: "B = (B1, B2, B3)" by (cases B)
  obtain p1 p2 p3 g where m: "m = (p1, p2, p3, g)" by (cases m)
  show ?thesis
    unfolding E B m higuera_pusher_def rot_push_def higuera_gamma_def prod.case Let_def higuera_parts
    by (simp only: angle_def rot_defs ac_simps)
qed

text \<open>The square root of a root of \<open>X * X = sigma * X + c\<close>.\<close>

definition pos_root :: "real \<Rightarrow> real \<Rightarrow> real" where
  "pos_root sigma c = (sigma + sqrt (sigma * sigma + 4 * c)) / 2"

lemma pos_root_pos:
  assumes "0 \<le> c" "0 < sigma \<or> 0 < c"
  shows "0 < pos_root sigma c" "pos_root sigma c * pos_root sigma c = sigma * pos_root sigma c + c"
proof -
  have d: "0 \<le> sigma * sigma + 4 * c" using assms(1) by simp
  have "\<bar>sigma\<bar> \<le> sqrt (sigma * sigma + 4 * c)"
    using assms(1) by (intro real_le_rsqrt) (simp add: power2_eq_square)
  moreover have "\<bar>sigma\<bar> < sqrt (sigma * sigma + 4 * c)" if "0 < c"
    using that by (intro real_less_rsqrt) (simp add: power2_eq_square)
  ultimately show "0 < pos_root sigma c"
    using assms(2) by (auto simp: pos_root_def)
  have "sqrt (sigma * sigma + 4 * c) * sqrt (sigma * sigma + 4 * c) = sigma * sigma + 4 * c"
    using d by simp
  then show "pos_root sigma c * pos_root sigma c = sigma * pos_root sigma c + c"
    unfolding pos_root_def by (simp add: field_simps)
qed

lemma pos_root_unique:
  assumes "0 \<le> c" "0 < X" "X * X = sigma * X + c"
  shows "pos_root sigma c = X"
proof -
  have "sigma * sigma + 4 * c = (2 * X - sigma)\<^sup>2"
    using assms(3) by (simp add: power2_eq_square algebra_simps)
  moreover have "sigma \<le> X"
  proof -
    have "sigma * X \<le> X * X" using assms(1,3) by simp
    then show ?thesis using assms(2) by simp
  qed
  ultimately show ?thesis using assms(2) by (simp add: pos_root_def)
qed

lemma higuera_gamma_root:
  "higuera_gamma B q m1 m2 m3 = (let bs = (fst B * fst B + fst (snd B) * fst (snd B) + snd (snd B) * snd (snd B)) * square q;
     bp = (fst B * m1 + fst (snd B) * m2 + snd (snd B) * m3) * q
   in sqrt (pos_root (1 + (m1 * m1 + m2 * m2 + m3 * m3) - bs) (bs + bp * bp)))"
  by (simp add: higuera_gamma_def pos_root_def Let_def square_def split: prod.splits)

lemma higuera_gamma_pos: "0 < higuera_gamma B q m1 m2 m3"
proof -
  obtain B1 B2 B3 where B: "B = (B1, B2, B3)" by (cases B)
  let ?bs = "(B1 * B1 + B2 * B2 + B3 * B3) * (q * q)" and ?bp = "(B1 * m1 + B2 * m2 + B3 * m3) * q"
  let ?s = "1 + (m1 * m1 + m2 * m2 + m3 * m3) - ?bs"
  have bs: "0 \<le> ?bs" by (intro mult_nonneg_nonneg add_nonneg_nonneg zero_le_square)
  have "0 < ?s \<or> 0 < ?bs"
    using zero_le_square[of m1] zero_le_square[of m2] zero_le_square[of m3] by linarith
  then have "0 < pos_root ?s (?bs + ?bp * ?bp)"
    using bs zero_le_square[of ?bp] by (intro pos_root_pos) linarith+
  then show ?thesis by (simp add: higuera_gamma_root Let_def B square_def)
qed

lemma higuera_back:
  assumes "on_shell m"
  shows "higuera_pusher E B (- q) (higuera_pusher E B q m) = m"
  unfolding higuera_rot
proof (rule rot_push_back[OF assms], goal_cases)
  case (1 m1 m2 m3 t1 t2 t3)
  let ?g = "higuera_gamma B q m1 m2 m3"
  let ?r1 = "rot1 (angle t1 t2 t3) t1 t2 t3 m1 m2 m3" and ?r2 = "rot2 (angle t1 t2 t3) t1 t2 t3 m1 m2 m3"
    and ?r3 = "rot3 (angle t1 t2 t3) t1 t2 t3 m1 m2 m3"
  have b: "fst B * q = ?g * t1" "fst (snd B) * q = ?g * t2" "snd (snd B) * q = ?g * t3"
    using 1 higuera_gamma_pos[of B q m1 m2 m3] by simp_all
  have "(fst B * ?r1 + fst (snd B) * ?r2 + snd (snd B) * ?r3) * q = ?g * (t1 * ?r1 + t2 * ?r2 + t3 * ?r3)"
    using b by algebra
  also have "\<dots> = (fst B * m1 + fst (snd B) * m2 + snd (snd B) * m3) * q"
    unfolding rot_dot using b by algebra
  finally have eq: "(fst B * ?r1 + fst (snd B) * ?r2 + snd (snd B) * ?r3) * q
      = (fst B * m1 + fst (snd B) * m2 + snd (snd B) * m3) * q" .
  show ?case
    unfolding higuera_gamma_root[of B "- q"] higuera_gamma_root[of B q] Let_def angle_norm mult_minus_right eq
    by (simp only: square_def mult_minus_left mult_minus_right minus_minus)
qed


subsection \<open>The Vay pusher\<close>

text \<open>
  Its implicit half: \<open>u\<close> is the momentum that a backward half step from the result
  reaches, \<open>h\<close> the scaled magnetic field.
\<close>

definition vay_half :: "real \<times> real \<times> real \<Rightarrow> real \<times> real \<times> real \<Rightarrow> momentum" where
  "vay_half = (\<lambda>(h1, h2, h3) (u1, u2, u3).
     let hh = h1 * h1 + h2 * h2 + h3 * h3; uh = u1 * h1 + u2 * h2 + u3 * h3;
         X = pos_root (1 + u1 * u1 + u2 * u2 + u3 * u3 - hh) (hh + uh * uh); g = sqrt X
     in ((u1 * X + h1 * uh + (u2 * h3 - u3 * h2) * g) / (X + hh),
         (u2 * X + h2 * uh + (u3 * h1 - u1 * h3) * g) / (X + hh),
         (u3 * X + h3 * uh + (u1 * h2 - u2 * h1) * g) / (X + hh), g))"

lemma vay_scale:
  fixes X :: real
  assumes "0 < X" "0 \<le> hh"
  shows "(u + h * uh * (1 / X) + v / sqrt X) * (1 / (1 + 1 / X * hh)) = (u * X + h * uh + v * sqrt X) / (X + hh)"
proof -
  have "v / sqrt X = v * sqrt X / X"
    using assms(1) by (simp add: frac_eq_eq mult.assoc)
  then have "u + h * uh * (1 / X) + v / sqrt X = (u * X + h * uh + v * sqrt X) / X"
    using assms(1) by (simp add: field_simps)
  moreover have "1 + 1 / X * hh = (X + hh) / X"
    using assms(1) by (simp add: field_simps)
  ultimately show ?thesis using assms by simp
qed

lemma vay_root_pos:
  fixes u1 :: real
  assumes "X = pos_root (1 + u1 * u1 + u2 * u2 + u3 * u3 - (h1 * h1 + h2 * h2 + h3 * h3)) (h1 * h1 + h2 * h2 + h3 * h3 + uh * uh)"
  shows "0 < X"
    and "X * X = (1 + u1 * u1 + u2 * u2 + u3 * u3 - (h1 * h1 + h2 * h2 + h3 * h3)) * X + (h1 * h1 + h2 * h2 + h3 * h3 + uh * uh)"
proof -
  let ?hh = "h1 * h1 + h2 * h2 + h3 * h3"
  have hh: "0 \<le> ?hh" by (intro add_nonneg_nonneg zero_le_square)
  have c: "0 \<le> ?hh + uh * uh" using hh zero_le_square[of uh] by linarith
  have d: "0 < 1 + u1 * u1 + u2 * u2 + u3 * u3 - ?hh \<or> 0 < ?hh + uh * uh"
    using hh zero_le_square[of u1] zero_le_square[of u2] zero_le_square[of u3] zero_le_square[of uh] by linarith
  show "0 < X" "X * X = (1 + u1 * u1 + u2 * u2 + u3 * u3 - ?hh) * X + (?hh + uh * uh)"
    unfolding assms by (rule pos_root_pos[OF c d])+
qed

lemma vay_split:
  "vay_pusher (E1, E2, E3) (B1, B2, B3) q (p1, p2, p3, g) =
    vay_half (B1 * q, B2 * q, B3 * q)
      (p1 + 2 * (E1 * q) + (p2 * (B3 * q) - p3 * (B2 * q)) / g,
       p2 + 2 * (E2 * q) + (p3 * (B1 * q) - p1 * (B3 * q)) / g,
       p3 + 2 * (E3 * q) + (p1 * (B2 * q) - p2 * (B1 * q)) / g)"
proof -
  have core: "(let tt = h1 * h1 + h2 * h2 + h3 * h3; ut = u1 * h1 + u2 * h2 + u3 * h3;
         sigma = 1 + u1 * u1 + u2 * u2 + u3 * u3 - tt;
         inv_gamma2 = 2 / (sigma + sqrt (sigma * sigma + 4 * (tt + ut * ut)));
         s = 1 / (1 + inv_gamma2 * tt);
         gamma = 1 / sqrt inv_gamma2
     in ((u1 + h1 * ut * inv_gamma2 + (u2 * h3 - u3 * h2) / gamma) * s,
         (u2 + h2 * ut * inv_gamma2 + (u3 * h1 - u1 * h3) / gamma) * s,
         (u3 + h3 * ut * inv_gamma2 + (u1 * h2 - u2 * h1) / gamma) * s, gamma)) = vay_half (h1, h2, h3) (u1, u2, u3)"
    for h1 h2 h3 u1 u2 u3 :: real
  proof -
    let ?hh = "h1 * h1 + h2 * h2 + h3 * h3" and ?uh = "u1 * h1 + u2 * h2 + u3 * h3"
    let ?X = "pos_root (1 + u1 * u1 + u2 * u2 + u3 * u3 - ?hh) (?hh + ?uh * ?uh)"
    have i: "2 / (1 + u1 * u1 + u2 * u2 + u3 * u3 - ?hh + sqrt ((1 + u1 * u1 + u2 * u2 + u3 * u3 - ?hh)
        * (1 + u1 * u1 + u2 * u2 + u3 * u3 - ?hh) + 4 * (?hh + ?uh * ?uh))) = 1 / ?X"
      by (simp only: pos_root_def divide_divide_eq_right mult_1)
    have r: "1 / sqrt (1 / ?X) = sqrt ?X" by (simp only: real_sqrt_divide) simp
    show ?thesis
      unfolding Let_def vay_half_def prod.case i r
      by (simp only: vay_scale[OF vay_root_pos(1)[OF refl]] add_nonneg_nonneg zero_le_square)
  qed
  show ?thesis
    unfolding vay_pusher_def prod.case core[symmetric] Let_def ..
qed


lemma vay_half_shell: "on_shell (vay_half h u)"
proof -
  obtain h1 h2 h3 where h: "h = (h1, h2, h3)" by (cases h)
  obtain u1 u2 u3 where u: "u = (u1, u2, u3)" by (cases u)
  define hh where "hh = h1 * h1 + h2 * h2 + h3 * h3"
  define uh where "uh = u1 * h1 + u2 * h2 + u3 * h3"
  define X where "X = pos_root (1 + u1 * u1 + u2 * u2 + u3 * u3 - hh) (hh + uh * uh)"
  have X: "0 < X" "X * X = (1 + u1 * u1 + u2 * u2 + u3 * u3 - hh) * X + (hh + uh * uh)"
    using vay_root_pos[OF X_def[unfolded hh_def]] by (simp_all add: hh_def)
  define g where "g = sqrt X"
  have g: "g * g - X = 0" using X(1) by (simp add: g_def)
  have hh: "0 \<le> hh" unfolding hh_def by (intro add_nonneg_nonneg zero_le_square)
  let ?a1 = "u1 * X + h1 * uh + (u2 * h3 - u3 * h2) * g" and ?a2 = "u2 * X + h2 * uh + (u3 * h1 - u1 * h3) * g"
    and ?a3 = "u3 * X + h3 * uh + (u1 * h2 - u2 * h1) * g"
  have "?a1 * ?a1 + ?a2 * ?a2 + ?a3 * ?a3 = ((u1 * u1 + u2 * u2 + u3 * u3) * X + uh * uh) * (X + hh)
      + (g * g - X) * ((u1 * u1 + u2 * u2 + u3 * u3) * hh - uh * uh)"
    unfolding hh_def uh_def by algebra
  also have "\<dots> = ((u1 * u1 + u2 * u2 + u3 * u3) * X + uh * uh) * (X + hh)" by (simp add: g)
  also have "\<dots> = (X - 1) * ((X + hh) * (X + hh))"
    using X(2) by algebra
  finally have "?a1 / (X + hh) * (?a1 / (X + hh)) + ?a2 / (X + hh) * (?a2 / (X + hh)) + ?a3 / (X + hh) * (?a3 / (X + hh)) = X - 1"
    using X(1) hh by (simp add: add_divide_distrib[symmetric])
  then show ?thesis
    by (simp add: on_shell_def vay_half_def h u Let_def hh_def[symmetric] uh_def[symmetric] X_def[symmetric] g_def[symmetric])
qed

lemma vay_half_inverse:
  assumes "vay_half (h1, h2, h3) (u1, u2, u3) = (p1, p2, p3, g)"
  shows "p1 - (p2 * h3 - p3 * h2) / g = u1" "p2 - (p3 * h1 - p1 * h3) / g = u2" "p3 - (p1 * h2 - p2 * h1) / g = u3"
proof -
  define hh where "hh = h1 * h1 + h2 * h2 + h3 * h3"
  define uh where "uh = u1 * h1 + u2 * h2 + u3 * h3"
  define X where "X = pos_root (1 + u1 * u1 + u2 * u2 + u3 * u3 - hh) (hh + uh * uh)"
  have X: "0 < X" using vay_root_pos[OF X_def[unfolded hh_def]] by simp
  have hh: "0 \<le> hh" unfolding hh_def by (intro add_nonneg_nonneg zero_le_square)
  have e: "p1 = (u1 * X + h1 * uh + (u2 * h3 - u3 * h2) * g) / (X + hh)"
    "p2 = (u2 * X + h2 * uh + (u3 * h1 - u1 * h3) * g) / (X + hh)"
    "p3 = (u3 * X + h3 * uh + (u1 * h2 - u2 * h1) * g) / (X + hh)" "g = sqrt X"
    using assms by (auto simp: vay_half_def Let_def hh_def[symmetric] uh_def[symmetric] X_def[symmetric])
  have g: "g * g = X" "g \<noteq> 0" using X e(4) by simp_all
  have m: "p1 * (X + hh) = u1 * X + h1 * uh + (u2 * h3 - u3 * h2) * g"
    "p2 * (X + hh) = u2 * X + h2 * uh + (u3 * h1 - u1 * h3) * g"
    "p3 * (X + hh) = u3 * X + h3 * uh + (u1 * h2 - u2 * h1) * g"
    using e(1-3) X hh by simp_all
  have "(g * p1 - (p2 * h3 - p3 * h2)) * (X + hh) = g * u1 * (X + hh)"
    "(g * p2 - (p3 * h1 - p1 * h3)) * (X + hh) = g * u2 * (X + hh)"
    "(g * p3 - (p1 * h2 - p2 * h1)) * (X + hh) = g * u3 * (X + hh)"
    using m g(1) hh_def uh_def by algebra+
  then have "g * p1 - (p2 * h3 - p3 * h2) = g * u1" "g * p2 - (p3 * h1 - p1 * h3) = g * u2"
    "g * p3 - (p1 * h2 - p2 * h1) = g * u3"
    using X hh by simp_all
  then show "p1 - (p2 * h3 - p3 * h2) / g = u1" "p2 - (p3 * h1 - p1 * h3) / g = u2" "p3 - (p1 * h2 - p2 * h1) / g = u3"
    using g(2) by (simp_all add: field_simps)
qed

lemma vay_half_unique:
  assumes "on_shell (p1, p2, p3, g)"
    and "u1 = p1 - (p2 * h3 - p3 * h2) / g" "u2 = p2 - (p3 * h1 - p1 * h3) / g" "u3 = p3 - (p1 * h2 - p2 * h1) / g"
  shows "vay_half (h1, h2, h3) (u1, u2, u3) = (p1, p2, p3, g)"
proof -
  define hh where "hh = h1 * h1 + h2 * h2 + h3 * h3"
  define uh where "uh = u1 * h1 + u2 * h2 + u3 * h3"
  have p: "0 \<le> p1 * p1 + p2 * p2 + p3 * p3" by (intro add_nonneg_nonneg zero_le_square)
  have gs: "g = sqrt (1 + (p1 * p1 + p2 * p2 + p3 * p3))" using assms(1) by (simp add: on_shell_def)
  have g: "g * g = 1 + (p1 * p1 + p2 * p2 + p3 * p3)" using p unfolding gs by simp
  have g0: "0 < g" using p unfolding gs by (simp add: add_pos_nonneg)
  have hh: "0 \<le> hh" unfolding hh_def by (intro add_nonneg_nonneg zero_le_square)
  have u: "g * u1 = g * p1 - (p2 * h3 - p3 * h2)" "g * u2 = g * p2 - (p3 * h1 - p1 * h3)"
    "g * u3 = g * p3 - (p1 * h2 - p2 * h1)"
    using g0 by (simp_all add: assms(2-4) field_simps)
  have "g * uh = g * (p1 * h1 + p2 * h2 + p3 * h3)"
    using u uh_def by algebra
  then have uh: "uh = p1 * h1 + p2 * h2 + p3 * h3" using g0 by simp
  have "g * g * (g * g) = (1 + u1 * u1 + u2 * u2 + u3 * u3 - hh) * (g * g) + (hh + uh * uh)"
    using u g hh_def uh by algebra
  then have X: "pos_root (1 + u1 * u1 + u2 * u2 + u3 * u3 - hh) (hh + uh * uh) = g * g"
    using hh g0 by (intro pos_root_unique) simp_all
  have "g * g + hh > 0" using g0 hh by (simp add: add_pos_nonneg)
  moreover have "u1 * (g * g) + h1 * uh + (u2 * h3 - u3 * h2) * g = p1 * (g * g + hh)"
    "u2 * (g * g) + h2 * uh + (u3 * h1 - u1 * h3) * g = p2 * (g * g + hh)"
    "u3 * (g * g) + h3 * uh + (u1 * h2 - u2 * h1) * g = p3 * (g * g + hh)"
    using u uh hh_def by algebra+
  ultimately show ?thesis
    using g0 by (simp add: vay_half_def Let_def hh_def[symmetric] uh_def[symmetric] X real_sqrt_mult)
qed


lemma vay_on_shell: "on_shell (vay_pusher E B q m)"
proof -
  obtain E1 E2 E3 where E: "E = (E1, E2, E3)" by (cases E)
  obtain B1 B2 B3 where B: "B = (B1, B2, B3)" by (cases B)
  obtain p1 p2 p3 g where m: "m = (p1, p2, p3, g)" by (cases m)
  show ?thesis unfolding E B m vay_split by (rule vay_half_shell)
qed

lemma vay_back:
  assumes "on_shell m"
  shows "vay_pusher E B (- q) (vay_pusher E B q m) = m"
proof -
  obtain E1 E2 E3 where E: "E = (E1, E2, E3)" by (cases E)
  obtain B1 B2 B3 where B: "B = (B1, B2, B3)" by (cases B)
  obtain p1 p2 p3 g where m: "m = (p1, p2, p3, g)" by (cases m)
  obtain r1 r2 r3 r where r: "vay_pusher E B q m = (r1, r2, r3, r)" by (cases "vay_pusher E B q m")
  note i = vay_half_inverse[OF r[unfolded E B m vay_split]]
  have u: "r1 + 2 * (E1 * - q) + (r2 * (B3 * - q) - r3 * (B2 * - q)) / r = p1 - (p2 * (B3 * - q) - p3 * (B2 * - q)) / g"
    "r2 + 2 * (E2 * - q) + (r3 * (B1 * - q) - r1 * (B3 * - q)) / r = p2 - (p3 * (B1 * - q) - p1 * (B3 * - q)) / g"
    "r3 + 2 * (E3 * - q) + (r1 * (B2 * - q) - r2 * (B1 * - q)) / r = p3 - (p1 * (B2 * - q) - p2 * (B1 * - q)) / g"
    using i by (simp_all add: diff_divide_distrib)
  show ?thesis
    unfolding r unfolding E B m vay_split by (rule vay_half_unique[OF assms[unfolded m] u])
qed

lemma vay_half_minus: "snd (snd (snd (vay_half (- h1, - h2, - h3) u))) = snd (snd (snd (vay_half (h1, h2, h3) u)))"
proof -
  obtain u1 u2 u3 where u: "u = (u1, u2, u3)" by (cases u)
  have "u1 * - h1 + u2 * - h2 + u3 * - h3 = - (u1 * h1 + u2 * h2 + u3 * h3)" by simp
  then show ?thesis unfolding u vay_half_def Let_def prod.case by (simp only: minus_mult_minus snd_conv)
qed

lemma vay_magnetic:
  assumes "on_shell m"
  shows "snd (snd (snd (vay_pusher (0, 0, 0) B q m))) = snd (snd (snd m))"
proof -
  obtain B1 B2 B3 where B: "B = (B1, B2, B3)" by (cases B)
  obtain p1 p2 p3 g where m: "m = (p1, p2, p3, g)" by (cases m)
  have u: "p1 + 2 * (0 * q) + (p2 * (B3 * q) - p3 * (B2 * q)) / g = p1 - (p2 * - (B3 * q) - p3 * - (B2 * q)) / g"
    "p2 + 2 * (0 * q) + (p3 * (B1 * q) - p1 * (B3 * q)) / g = p2 - (p3 * - (B1 * q) - p1 * - (B3 * q)) / g"
    "p3 + 2 * (0 * q) + (p1 * (B2 * q) - p2 * (B1 * q)) / g = p3 - (p1 * - (B2 * q) - p2 * - (B1 * q)) / g"
    by (simp_all add: diff_divide_distrib)
  show ?thesis
    unfolding B m vay_split vay_half_minus[symmetric, of "B1 * q"] vay_half_unique[OF assms[unfolded m] u] by simp
qed

subsection \<open>Properties\<close>

text \<open>
  C12.  Each of the three pushers leaves the particle with the Lorentz factor of its
  momentum, is undone by the push with the reversed time step (a consistent particle
  comes back exactly), and does no work in a purely magnetic field.
\<close>

theorem pushers_reversible:
  assumes "push = boris_pusher \<or> push = vay_pusher \<or> push = higuera_pusher" "on_shell m"
  shows "on_shell (push E B q m) \<and> push E B (- q) (push E B q m) = m
    \<and> snd (snd (snd (push (0, 0, 0) B q m))) = snd (snd (snd m))"
  using assms(1)
proof (elim disjE)
  assume p: "push = boris_pusher"
  show ?thesis
    unfolding p using rot_push_on_shell rot_push_magnetic[OF assms(2)] boris_back[OF assms(2)] by (simp add: boris_rot)
next
  assume p: "push = vay_pusher"
  show ?thesis
    unfolding p by (intro conjI vay_on_shell vay_back[OF assms(2)] vay_magnetic[OF assms(2)])
next
  assume p: "push = higuera_pusher"
  show ?thesis
    unfolding p using rot_push_on_shell rot_push_magnetic[OF assms(2)] higuera_back[OF assms(2)] by (simp add: higuera_rot)
qed

theorem pushers_reversible_witness:
  "vay_pusher (1, 0, 2) (0, 3, 1) (- (1 / 2)) (vay_pusher (1, 0, 2) (0, 3, 1) (1 / 2) (2, 2, 0, 3)) = (2, 2, 0, 3)"
proof -
  have "on_shell (2, 2, 0, 3)" by (simp add: on_shell_def real_sqrt_unique)
  then show ?thesis
    using pushers_reversible[of vay_pusher "(2, 2, 0, 3)" "(1, 0, 2)" "(0, 3, 1)" "1 / 2"] by simp
qed

end
