(* ===== verification/Deposit.thy ===== *)
theory Deposit
  imports Interp
begin

text \<open>
  Current deposition: \<open>src/systems/helpers/ptc_update_helper.hpp\<close>.  The fields
  \<open>J\<close>, \<open>Rho\<close> and \<open>rho_total\<close> are functions of the linear index; the fixed-size
  accumulators \<open>djy\<close>, \<open>djz\<close> are functions of their indices, which stay below
  \<open>2 * radius + 1\<close> (\<open>stencil_fits\<close>).  Values are real numbers.
\<close>

subsection \<open>Contexts\<close>

record EB_t =
  EB_E1 :: scalar
  EB_E2 :: scalar
  EB_E3 :: scalar
  EB_B1 :: scalar
  EB_B2 :: scalar
  EB_B3 :: scalar

record ptc_context =
  pc_cell :: u32
  pc_x :: "scalar list"
  pc_new_x :: "scalar list"
  pc_dc :: "int list"
  pc_p :: "scalar list"
  pc_gamma :: scalar
  pc_flag :: u32
  pc_weight :: scalar
  pc_sp :: nat
  pc_q :: scalar
  pc_m :: scalar
  pc_aux1 :: scalar
  pc_E :: "scalar list"
  pc_B :: "scalar list"

record ph_context =
  ph_cell :: u32
  ph_x :: "scalar list"
  ph_new_x :: "scalar list"
  ph_dc :: "int list"
  ph_p :: "scalar list"
  ph_gamma :: scalar
  ph_flag :: u32

record currents =
  cur_J :: "nat \<Rightarrow> field"
  cur_Rho :: "nat \<Rightarrow> field"
  cur_rho_total :: field

subsection \<open>Products of shapes\<close>

text \<open>The literal \<open>0.166666666667f\<close> is the \<open>float\<close> \<open>11184811 / 2\<^sup>2\<^sup>6\<close>, in a double build as well.\<close>

definition center2d :: "scalar \<Rightarrow> scalar \<Rightarrow> scalar \<Rightarrow> scalar \<Rightarrow> scalar" where
  "center2d sx0 sx1 sy0 sy1 =
     (2 * sx1 * sy1 + sx0 * sy1 + sx1 * sy0 + 2 * sx0 * sy0) * (11184811 / 2 ^ 26)"

definition movement3d :: "scalar \<Rightarrow> scalar \<Rightarrow> scalar \<Rightarrow> scalar \<Rightarrow> scalar \<Rightarrow> scalar \<Rightarrow> scalar" where
  "movement3d sx0 sx1 sy0 sy1 sz0 sz1 = (sz1 - sz0) * center2d sx0 sx1 sy0 sy1"

definition movement2d :: "scalar \<Rightarrow> scalar \<Rightarrow> scalar \<Rightarrow> scalar \<Rightarrow> scalar" where
  "movement2d sx0 sx1 sy0 sy1 = (sy1 - sy0) * (1 / 2) * (sx0 + sx1)"

text \<open>
  \<open>TINY\<close> is the \<open>double\<close> nearest to \<open>1e-14\<close> or the \<open>float\<close> nearest to \<open>1e-8\<close>, depending on the
  build option for double precision.
\<close>

definition TINY :: "bool \<Rightarrow> scalar" where
  "TINY use_double = (if use_double then 6338253001141147 / 633825300114114700748351602688
     else 11258999 / 1125899906842624)"

subsection \<open>The loops\<close>

definition atomic_add :: "field \<Rightarrow> i64 \<Rightarrow> scalar \<Rightarrow> field" where
  "atomic_add f addr v = f(addr := f addr + v)"

definition add_J :: "nat \<Rightarrow> i64 \<Rightarrow> scalar \<Rightarrow> currents \<Rightarrow> currents" where
  "add_J d off v S = S\<lparr>cur_J := (cur_J S)(d := atomic_add (cur_J S d) off v)\<rparr>"

definition add_rho :: "bool \<Rightarrow> nat \<Rightarrow> i64 \<Rightarrow> scalar \<Rightarrow> currents \<Rightarrow> currents" where
  "add_rho deposit_rho sp off v S =
     (if deposit_rho
      then S\<lparr>cur_Rho := (cur_Rho S)(sp := atomic_add (cur_Rho S sp) off v),
             cur_rho_total := atomic_add (cur_rho_total S) off v\<rparr>
      else S)"

definition i_first :: "nat \<Rightarrow> int \<Rightarrow> int" where
  "i_first n dc = (if dc = - 1 then - bs_radius n else 1 - bs_radius n)"

definition i_last :: "nat \<Rightarrow> int \<Rightarrow> int" where
  "i_last n dc = (if dc = 1 then bs_radius n + 1 else bs_radius n)"

definition shape0 :: "nat \<Rightarrow> ptc_context \<Rightarrow> nat \<Rightarrow> int \<Rightarrow> scalar" where
  "shape0 n c d i = bspline n (- (pc_x c ! d) + of_int i)"

definition shape1 :: "nat \<Rightarrow> ptc_context \<Rightarrow> nat \<Rightarrow> int \<Rightarrow> scalar" where
  "shape1 n c d i = bspline n (- (pc_new_x c ! d) - of_int (pc_dc c ! d) + of_int i)"

definition deposit1_step ::
  "nat \<Rightarrow> ptc_context \<Rightarrow> i64 \<Rightarrow> scalar \<Rightarrow> bool \<Rightarrow> scalar \<times> currents \<Rightarrow> int \<Rightarrow> scalar \<times> currents" where
  "deposit1_step n c idx dt deposit_rho = (\<lambda>(djx, S) i.
     let sx0 = shape0 n c 0 i; sx1 = shape1 n c 0 i;
         offset = idx_plus idx (word_of_int i);
         djx = djx + (sx1 - sx0);
         S = add_J 0 offset (- pc_weight c * djx / dt) S;
         val1 = 1 / 2 * (sx0 + sx1);
         S = add_J 1 offset (pc_weight c * (pc_new_x c ! 1 - pc_x c ! 1) / dt * val1) S;
         S = add_J 2 offset (pc_weight c * (pc_new_x c ! 2 - pc_x c ! 2) / dt * val1) S
     in (djx, add_rho deposit_rho (pc_sp c) offset (pc_weight c * sx1) S))"

definition deposit1 :: "nat \<Rightarrow> ptc_context \<Rightarrow> i64 \<Rightarrow> scalar \<Rightarrow> bool \<Rightarrow> currents \<Rightarrow> currents" where
  "deposit1 n c idx dt deposit_rho S =
     snd (foldl (deposit1_step n c idx dt deposit_rho) (0, S)
            [i_first n (pc_dc c ! 0)..i_last n (pc_dc c ! 0)])"

definition deposit2_step ::
  "nat \<Rightarrow> ptc_context \<Rightarrow> extent_t \<Rightarrow> scalar \<Rightarrow> bool \<Rightarrow> int \<Rightarrow> i64 \<Rightarrow>
   scalar \<times> (nat \<Rightarrow> scalar) \<times> currents \<Rightarrow> int \<Rightarrow> scalar \<times> (nat \<Rightarrow> scalar) \<times> currents" where
  "deposit2_step n c ext dt deposit_rho j offset_y = (\<lambda>(djx, djy, S) i.
     let sy0 = shape0 n c 1 j; sy1 = shape1 n c 1 j;
         sx0 = shape0 n c 0 i; sx1 = shape1 n c 0 i;
         i_0 = i_first n (pc_dc c ! 0);
         offset = col_inc ext 0 offset_y (word_of_int i);
         djx = djx + movement2d sy0 sy1 sx0 sx1;
         S = add_J 0 offset (- pc_weight c * djx / dt) S;
         djy = djy(nat (i - i_0) := djy (nat (i - i_0)) + movement2d sx0 sx1 sy0 sy1);
         S = add_J 1 offset (- pc_weight c * djy (nat (i - i_0)) / dt) S;
         S = add_J 2 offset (pc_weight c * (pc_new_x c ! 2 - pc_x c ! 2) / dt * center2d sx0 sx1 sy0 sy1) S
     in (djx, djy, add_rho deposit_rho (pc_sp c) offset (pc_weight c * sx1 * sy1) S))"

definition deposit2_row ::
  "nat \<Rightarrow> ptc_context \<Rightarrow> i64 \<Rightarrow> extent_t \<Rightarrow> scalar \<Rightarrow> bool \<Rightarrow>
   (nat \<Rightarrow> scalar) \<times> currents \<Rightarrow> int \<Rightarrow> (nat \<Rightarrow> scalar) \<times> currents" where
  "deposit2_row n c idx ext dt deposit_rho = (\<lambda>(djy, S) j.
     snd (foldl (deposit2_step n c ext dt deposit_rho j (col_inc ext 1 idx (word_of_int j))) (0, djy, S)
            [i_first n (pc_dc c ! 0)..i_last n (pc_dc c ! 0)]))"

definition deposit2 ::
  "nat \<Rightarrow> ptc_context \<Rightarrow> i64 \<Rightarrow> extent_t \<Rightarrow> scalar \<Rightarrow> bool \<Rightarrow> currents \<Rightarrow> currents" where
  "deposit2 n c idx ext dt deposit_rho S =
     snd (foldl (deposit2_row n c idx ext dt deposit_rho) (\<lambda>_. 0, S)
            [i_first n (pc_dc c ! 1)..i_last n (pc_dc c ! 1)])"

definition deposit3_step ::
  "nat \<Rightarrow> bool \<Rightarrow> ptc_context \<Rightarrow> extent_t \<Rightarrow> scalar \<Rightarrow> bool \<Rightarrow> int \<Rightarrow> int \<Rightarrow> i64 \<Rightarrow>
   scalar \<times> (nat \<Rightarrow> scalar) \<times> (nat \<Rightarrow> nat \<Rightarrow> scalar) \<times> currents \<Rightarrow> int \<Rightarrow>
   scalar \<times> (nat \<Rightarrow> scalar) \<times> (nat \<Rightarrow> nat \<Rightarrow> scalar) \<times> currents" where
  "deposit3_step n dbl c ext dt deposit_rho k j idx_y = (\<lambda>(djx, djy, djz, S) i.
     let sz0 = shape0 n c 2 k; sz1 = shape1 n c 2 k;
         sy0 = shape0 n c 1 j; sy1 = shape1 n c 1 j;
         sx0 = shape0 n c 0 i; sx1 = shape1 n c 0 i;
         i' = nat (i - i_first n (pc_dc c ! 0)); j' = nat (j - i_first n (pc_dc c ! 1));
         offset = inc_x ext idx_y (word_of_int i);
         djx = djx + movement3d sy0 sy1 sz0 sz1 sx0 sx1;
         S = (if \<bar>djx\<bar> > TINY dbl then add_J 0 offset (- pc_weight c * djx / dt) S else S);
         djy = djy(i' := djy i' + movement3d sz0 sz1 sx0 sx1 sy0 sy1);
         S = (if \<bar>djy i'\<bar> > TINY dbl then add_J 1 offset (- pc_weight c * djy i' / dt) S else S);
         djz = djz(j' := (djz j')(i' := djz j' i' + movement3d sx0 sx1 sy0 sy1 sz0 sz1));
         S = (if \<bar>djz j' i'\<bar> > TINY dbl then add_J 2 offset (- pc_weight c * djz j' i' / dt) S else S)
     in (djx, djy, djz, add_rho deposit_rho (pc_sp c) offset (pc_weight c * sx1 * sy1 * sz1) S))"

definition deposit3_row ::
  "nat \<Rightarrow> bool \<Rightarrow> ptc_context \<Rightarrow> extent_t \<Rightarrow> scalar \<Rightarrow> bool \<Rightarrow> int \<Rightarrow> i64 \<Rightarrow>
   (nat \<Rightarrow> scalar) \<times> (nat \<Rightarrow> nat \<Rightarrow> scalar) \<times> currents \<Rightarrow> int \<Rightarrow>
   (nat \<Rightarrow> scalar) \<times> (nat \<Rightarrow> nat \<Rightarrow> scalar) \<times> currents" where
  "deposit3_row n dbl c ext dt deposit_rho k idx_z = (\<lambda>(djy, djz, S) j.
     snd (foldl (deposit3_step n dbl c ext dt deposit_rho k j (inc_y ext idx_z (word_of_int j)))
            (0, djy, djz, S) [i_first n (pc_dc c ! 0)..i_last n (pc_dc c ! 0)]))"

definition deposit3_plane ::
  "nat \<Rightarrow> bool \<Rightarrow> ptc_context \<Rightarrow> i64 \<Rightarrow> extent_t \<Rightarrow> scalar \<Rightarrow> bool \<Rightarrow>
   (nat \<Rightarrow> nat \<Rightarrow> scalar) \<times> currents \<Rightarrow> int \<Rightarrow> (nat \<Rightarrow> nat \<Rightarrow> scalar) \<times> currents" where
  "deposit3_plane n dbl c idx ext dt deposit_rho = (\<lambda>(djz, S) k.
     snd (foldl (deposit3_row n dbl c ext dt deposit_rho k (inc_z ext idx (word_of_int k)))
            (\<lambda>_. 0, djz, S) [i_first n (pc_dc c ! 1)..i_last n (pc_dc c ! 1)]))"

definition deposit3 ::
  "nat \<Rightarrow> bool \<Rightarrow> ptc_context \<Rightarrow> i64 \<Rightarrow> extent_t \<Rightarrow> scalar \<Rightarrow> bool \<Rightarrow> currents \<Rightarrow> currents" where
  "deposit3 n dbl c idx ext dt deposit_rho S =
     snd (foldl (deposit3_plane n dbl c idx ext dt deposit_rho) (\<lambda>_ _. 0, S)
            [i_first n (pc_dc c ! 2)..i_last n (pc_dc c ! 2)])"

subsection \<open>The loops as sums\<close>

lemma upto_set_int: "set [a..b] = {a..b::int}" by simp

lemma upto_snoc: "a \<le> b + 1 \<Longrightarrow> [a..b + 1] = [a..b] @ [b + 1::int]"
  by (simp add: upto_rec2)

lemma sum_upto_snoc: "a \<le> b + 1 \<Longrightarrow> sum f {a..b + 1} = sum f {a..b} + (f (b + 1 :: int) :: real)"
proof -
  assume "a \<le> b + 1"
  then have "{a..b + 1} = insert (b + 1) {a..b}" by auto
  then show ?thesis by simp
qed

text \<open>A loop that only adds to an observed value.\<close>

lemma foldl_obs:
  assumes "\<And>S x. obs (h S x) = obs S + (\<delta> x :: real)"
  shows "obs (foldl h S [a..b]) = obs S + (\<Sum>x\<in>{a..b::int}. \<delta> x)"
proof -
  have "obs (foldl h S xs) = obs S + (\<Sum>x\<leftarrow>xs. \<delta> x)" for xs
    by (induction xs arbitrary: S) (simp_all add: assms)
  then show ?thesis by (simp add: sum_list_distinct_conv_sum_set)
qed

text \<open>The accumulators of a row are prefix sums, and its writes depend on them alone.\<close>

definition row_step1 :: "(int \<Rightarrow> real) \<Rightarrow> (int \<Rightarrow> real \<Rightarrow> 's \<Rightarrow> 's) \<Rightarrow> real \<times> 's \<Rightarrow> int \<Rightarrow> real \<times> 's" where
  "row_step1 f put = (\<lambda>(x, S) i. (x + f i, put i (x + f i) S))"

definition row_step2 :: "int \<Rightarrow> (int \<Rightarrow> real) \<Rightarrow> (int \<Rightarrow> real) \<Rightarrow> (int \<Rightarrow> real \<Rightarrow> real \<Rightarrow> 's \<Rightarrow> 's) \<Rightarrow>
   real \<times> (nat \<Rightarrow> real) \<times> 's \<Rightarrow> int \<Rightarrow> real \<times> (nat \<Rightarrow> real) \<times> 's" where
  "row_step2 a f g put = (\<lambda>(x, B, S) i. (x + f i, B(nat (i - a) := B (nat (i - a)) + g i),
     put i (x + f i) (B (nat (i - a)) + g i) S))"

definition row_step3 :: "int \<Rightarrow> nat \<Rightarrow> (int \<Rightarrow> real) \<Rightarrow> (int \<Rightarrow> real) \<Rightarrow> (int \<Rightarrow> real) \<Rightarrow>
   (int \<Rightarrow> real \<Rightarrow> real \<Rightarrow> real \<Rightarrow> 's \<Rightarrow> 's) \<Rightarrow>
   real \<times> (nat \<Rightarrow> real) \<times> (nat \<Rightarrow> nat \<Rightarrow> real) \<times> 's \<Rightarrow> int \<Rightarrow>
   real \<times> (nat \<Rightarrow> real) \<times> (nat \<Rightarrow> nat \<Rightarrow> real) \<times> 's" where
  "row_step3 a r f g h put = (\<lambda>(x, B, C, S) i. (x + f i, B(nat (i - a) := B (nat (i - a)) + g i),
     C(r := (C r)(nat (i - a) := C r (nat (i - a)) + h i)),
     put i (x + f i) (B (nat (i - a)) + g i) (C r (nat (i - a)) + h i) S))"

definition bump :: "int \<Rightarrow> int \<Rightarrow> (int \<Rightarrow> real) \<Rightarrow> (nat \<Rightarrow> real) \<Rightarrow> nat \<Rightarrow> real" where
  "bump a b g B = (\<lambda>m. if int m \<le> b - a then B m + g (a + int m) else B m)"

lemma bump_empty: "bump a (a - 1) g B = B"
  by (auto simp: bump_def)

lemma bump_snoc:
  assumes "a - 1 \<le> b"
  shows "(bump a b g B)(nat (b + 1 - a) := B (nat (b + 1 - a)) + g (b + 1)) = bump a (b + 1) g B"
  using assms by (auto simp: bump_def fun_eq_iff)

lemma bump_at: "a \<le> i \<Longrightarrow> bump a b g B (nat (i - a)) = (if i \<le> b then B (nat (i - a)) + g i else B (nat (i - a)))"
  by (auto simp: bump_def)

lemma row1:
  assumes "a - 1 \<le> b"
  shows "foldl (row_step1 f put) (x, S) [a..b]
    = (x + sum f {a..b}, foldl (\<lambda>S i. put i (x + sum f {a..i}) S) S [a..b :: int])"
  using assms
proof (induction b rule: int_ge_induct)
  case (step b)
  then have "a \<le> b + 1" by simp
  then show ?case
    unfolding upto_snoc[OF \<open>a \<le> b + 1\<close>] foldl_append step.IH sum_upto_snoc[OF \<open>a \<le> b + 1\<close>, symmetric]
    by (simp add: row_step1_def sum_upto_snoc add.assoc)
qed (simp add: row_step1_def)

lemma row2:
  assumes "a - 1 \<le> b"
  shows "foldl (row_step2 a f g put) (x, B, S) [a..b]
    = (x + sum f {a..b}, bump a b g B,
       foldl (\<lambda>S i. put i (x + sum f {a..i}) (B (nat (i - a)) + g i) S) S [a..b])"
  using assms
proof (induction b rule: int_ge_induct)
  case base show ?case by (simp add: bump_empty)
next
  case (step b)
  then have "a \<le> b + 1" by simp
  then show ?case
    unfolding upto_snoc[OF \<open>a \<le> b + 1\<close>] foldl_append step.IH
    by (simp add: row_step2_def sum_upto_snoc bump_snoc[OF step.hyps] bump_at add.assoc)
qed

lemma row3:
  assumes "a - 1 \<le> b"
  shows "foldl (row_step3 a r f g h put) (x, B, C, S) [a..b]
    = (x + sum f {a..b}, bump a b g B, C(r := bump a b h (C r)),
       foldl (\<lambda>S i. put i (x + sum f {a..i}) (B (nat (i - a)) + g i) (C r (nat (i - a)) + h i) S) S [a..b])"
  using assms
proof (induction b rule: int_ge_induct)
  case base show ?case by (simp add: bump_empty)
next
  case (step b)
  then have "a \<le> b + 1" by simp
  then show ?case
    unfolding upto_snoc[OF \<open>a \<le> b + 1\<close>] foldl_append step.IH
    by (simp add: row_step3_def sum_upto_snoc bump_snoc[OF step.hyps] bump_at add.assoc) (simp add: fun_upd_def)
qed

text \<open>The accumulators over the rows of a plane and over the planes.\<close>

lemma bump_bump: "bump a b g (bump a b f B) = bump a b (\<lambda>i. f i + g i) B"
  by (auto simp: bump_def fun_eq_iff)

lemma bump_zero: "bump a b (\<lambda>_. 0) B = B"
  by (auto simp: bump_def fun_eq_iff)

lemma rows2:
  assumes "a - 1 \<le> b"
  shows "foldl (\<lambda>(B, S) j. (bump p q (g j) B, W j B S)) (B, S) [a..b]
    = (bump p q (\<lambda>i. \<Sum>l\<in>{a..b}. g l i) B,
       foldl (\<lambda>S j. W j (bump p q (\<lambda>i. \<Sum>l\<in>{a..j - 1}. g l i) B) S) S [a..b])"
  using assms
proof (induction b rule: int_ge_induct)
  case (step b)
  then have "a \<le> b + 1" by simp
  then show ?case
    unfolding upto_snoc[OF \<open>a \<le> b + 1\<close>] foldl_append step.IH
    by (simp add: sum_upto_snoc bump_bump)
qed (simp add: bump_zero)

definition bump2 :: "int \<Rightarrow> int \<Rightarrow> int \<Rightarrow> int \<Rightarrow> (int \<Rightarrow> int \<Rightarrow> real) \<Rightarrow> (nat \<Rightarrow> nat \<Rightarrow> real) \<Rightarrow> nat \<Rightarrow> nat \<Rightarrow> real" where
  "bump2 p q a b h C = (\<lambda>m. if int m \<le> b - a then bump p q (h (a + int m)) (C m) else C m)"

lemma bump2_empty: "bump2 p q a (a - 1) h C = C"
  by (auto simp: bump2_def)

lemma bump2_snoc:
  assumes "a - 1 \<le> b"
  shows "(bump2 p q a b h C)(nat (b + 1 - a) := bump p q (h (b + 1)) (C (nat (b + 1 - a)))) = bump2 p q a (b + 1) h C"
  using assms by (auto simp: bump2_def fun_eq_iff)

lemma bump2_at: "a \<le> i \<Longrightarrow> bump2 p q a b h C (nat (i - a)) = (if i \<le> b then bump p q (h i) (C (nat (i - a))) else C (nat (i - a)))"
  by (auto simp: bump2_def)

lemma bump2_bump2: "bump2 p q a b g (bump2 p q a b f C) = bump2 p q a b (\<lambda>j i. f j i + g j i) C"
  by (auto simp: bump2_def bump_bump fun_eq_iff)

lemma bump2_zero: "bump2 p q a b (\<lambda>_ _. 0) C = C"
  by (auto simp: bump2_def bump_zero fun_eq_iff)

lemma rows3:
  assumes "a - 1 \<le> b"
  shows "foldl (\<lambda>(B, C, S) j. (bump p q (g j) B, C(nat (j - a) := bump p q (h j) (C (nat (j - a)))),
            W j B (C (nat (j - a))) S)) (B, C, S) [a..b]
    = (bump p q (\<lambda>i. \<Sum>l\<in>{a..b}. g l i) B, bump2 p q a b h C,
       foldl (\<lambda>S j. W j (bump p q (\<lambda>i. \<Sum>l\<in>{a..j - 1}. g l i) B) (C (nat (j - a))) S) S [a..b])"
  using assms
proof (induction b rule: int_ge_induct)
  case (step b)
  then have "a \<le> b + 1" by simp
  then show ?case
    unfolding upto_snoc[OF \<open>a \<le> b + 1\<close>] foldl_append step.IH
    by (simp add: sum_upto_snoc bump_bump bump2_at bump2_snoc[OF step.hyps])
qed (simp add: bump_zero bump2_empty)

lemma planes3:
  assumes "a - 1 \<le> b"
  shows "foldl (\<lambda>(C, S) k. (bump2 p q r s (h k) C, V k C S)) (C, S) [a..b]
    = (bump2 p q r s (\<lambda>j i. \<Sum>l\<in>{a..b}. h l j i) C,
       foldl (\<lambda>S k. V k (bump2 p q r s (\<lambda>j i. \<Sum>l\<in>{a..k - 1}. h l j i) C) S) S [a..b])"
  using assms
proof (induction b rule: int_ge_induct)
  case (step b)
  then have "a \<le> b + 1" by simp
  then show ?case
    unfolding upto_snoc[OF \<open>a \<le> b + 1\<close>] foldl_append step.IH
    by (simp add: sum_upto_snoc bump2_bump2)
qed (simp add: bump2_zero)

text \<open>The writes at one stencil point, for given values of the accumulators.\<close>

definition put1 :: "nat \<Rightarrow> ptc_context \<Rightarrow> i64 \<Rightarrow> scalar \<Rightarrow> bool \<Rightarrow> int \<Rightarrow> real \<Rightarrow> currents \<Rightarrow> currents" where
  "put1 n c idx dt rho i X S = (let off = idx_plus idx (word_of_int i); v = 1 / 2 * (shape0 n c 0 i + shape1 n c 0 i)
     in add_rho rho (pc_sp c) off (pc_weight c * shape1 n c 0 i)
          (add_J 2 off (pc_weight c * (pc_new_x c ! 2 - pc_x c ! 2) / dt * v)
          (add_J 1 off (pc_weight c * (pc_new_x c ! 1 - pc_x c ! 1) / dt * v)
          (add_J 0 off (- pc_weight c * X / dt) S))))"

definition off2 :: "i64 \<Rightarrow> extent_t \<Rightarrow> int \<Rightarrow> int \<Rightarrow> i64" where
  "off2 idx ext j i = col_inc ext 0 (col_inc ext 1 idx (word_of_int j)) (word_of_int i)"

definition put2 :: "nat \<Rightarrow> ptc_context \<Rightarrow> i64 \<Rightarrow> extent_t \<Rightarrow> scalar \<Rightarrow> bool \<Rightarrow> int \<Rightarrow> int \<Rightarrow> real \<Rightarrow> real \<Rightarrow> currents \<Rightarrow> currents" where
  "put2 n c idx ext dt rho j i X Y S = (let off = off2 idx ext j i
     in add_rho rho (pc_sp c) off (pc_weight c * shape1 n c 0 i * shape1 n c 1 j)
          (add_J 2 off (pc_weight c * (pc_new_x c ! 2 - pc_x c ! 2) / dt
                         * center2d (shape0 n c 0 i) (shape1 n c 0 i) (shape0 n c 1 j) (shape1 n c 1 j))
          (add_J 1 off (- pc_weight c * Y / dt) (add_J 0 off (- pc_weight c * X / dt) S))))"

definition off3 :: "i64 \<Rightarrow> extent_t \<Rightarrow> int \<Rightarrow> int \<Rightarrow> int \<Rightarrow> i64" where
  "off3 idx ext k j i = inc_x ext (inc_y ext (inc_z ext idx (word_of_int k)) (word_of_int j)) (word_of_int i)"

definition clip :: "bool \<Rightarrow> real \<Rightarrow> real" where
  "clip dbl X = (if \<bar>X\<bar> > TINY dbl then X else 0)"

definition put3 :: "nat \<Rightarrow> bool \<Rightarrow> ptc_context \<Rightarrow> i64 \<Rightarrow> extent_t \<Rightarrow> scalar \<Rightarrow> bool \<Rightarrow> int \<Rightarrow> int \<Rightarrow> int \<Rightarrow> real \<Rightarrow> real \<Rightarrow> real \<Rightarrow> currents \<Rightarrow> currents" where
  "put3 n dbl c idx ext dt rho k j i X Y Z S = (let off = off3 idx ext k j i
     in add_rho rho (pc_sp c) off (pc_weight c * shape1 n c 0 i * shape1 n c 1 j * shape1 n c 2 k)
          (add_J 2 off (- pc_weight c * clip dbl Z / dt)
          (add_J 1 off (- pc_weight c * clip dbl Y / dt) (add_J 0 off (- pc_weight c * clip dbl X / dt) S))))"

lemma add_J_zero: "add_J d off 0 S = S"
  by (simp add: add_J_def atomic_add_def)

lemma add_J_clip:
  "(if \<bar>X\<bar> > TINY dbl then add_J d off (- w * X / dt) S else S) = add_J d off (- w * clip dbl X / dt) S"
  by (simp add: clip_def add_J_zero)

lemma add_J_obs [simp]:
  "cur_J (add_J d off v S) e r = cur_J S e r + (if e = d \<and> off = r then v else 0)"
  "cur_rho_total (add_J d off v S) r = cur_rho_total S r"
  "cur_Rho (add_J d off v S) e r = cur_Rho S e r"
  by (auto simp: add_J_def atomic_add_def)

lemma add_rho_obs [simp]:
  "cur_J (add_rho rho sp off v S) e r = cur_J S e r"
  "cur_rho_total (add_rho rho sp off v S) r = cur_rho_total S r + (if rho \<and> off = r then v else 0)"
  "cur_Rho (add_rho rho sp off v S) e r = cur_Rho S e r + (if rho \<and> e = sp \<and> off = r then v else 0)"
  by (auto simp: add_rho_def atomic_add_def)

subsection \<open>Closed forms of the three loops\<close>

abbreviation "fx c \<equiv> \<lambda>n. i_first n (pc_dc c ! 0)"
abbreviation "lx c \<equiv> \<lambda>n. i_last n (pc_dc c ! 0)"
abbreviation "fy c \<equiv> \<lambda>n. i_first n (pc_dc c ! 1)"
abbreviation "ly c \<equiv> \<lambda>n. i_last n (pc_dc c ! 1)"
abbreviation "fz c \<equiv> \<lambda>n. i_first n (pc_dc c ! 2)"
abbreviation "lz c \<equiv> \<lambda>n. i_last n (pc_dc c ! 2)"

lemma first_le_last: "i_first n d - 1 \<le> i_last n d"
  by (simp add: i_first_def i_last_def bs_radius_def)

definition m2x where
  "m2x n c j i = movement2d (shape0 n c 1 j) (shape1 n c 1 j) (shape0 n c 0 i) (shape1 n c 0 i)"
definition m2y where
  "m2y n c j i = movement2d (shape0 n c 0 i) (shape1 n c 0 i) (shape0 n c 1 j) (shape1 n c 1 j)"
definition m3x where
  "m3x n c k j i = movement3d (shape0 n c 1 j) (shape1 n c 1 j) (shape0 n c 2 k) (shape1 n c 2 k) (shape0 n c 0 i) (shape1 n c 0 i)"
definition m3y where
  "m3y n c k j i = movement3d (shape0 n c 2 k) (shape1 n c 2 k) (shape0 n c 0 i) (shape1 n c 0 i) (shape0 n c 1 j) (shape1 n c 1 j)"
definition m3z where
  "m3z n c k j i = movement3d (shape0 n c 0 i) (shape1 n c 0 i) (shape0 n c 1 j) (shape1 n c 1 j) (shape0 n c 2 k) (shape1 n c 2 k)"

lemma prefix_bump:
  fixes a :: int
  assumes "i \<in> {p..q}" "a \<le> j"
  shows "bump p q (\<lambda>i. \<Sum>l = a..j - 1. g l i) (\<lambda>_. 0) (nat (i - p)) + g j i = (\<Sum>l\<in>{a..j}. g l i)"
  using assms sum_upto_snoc[of a "j - 1" "\<lambda>l. g l i"] by (simp add: bump_at)

lemma prefix_bump2:
  fixes a :: int
  assumes "i \<in> {p..q}" "j \<in> {r..s}" "a \<le> k"
  shows "bump2 p q r s (\<lambda>j i. \<Sum>l\<in>{a..k - 1}. h l j i) (\<lambda>_ _. 0) (nat (j - r)) (nat (i - p)) + h k j i
    = (\<Sum>l\<in>{a..k}. h l j i)"
  using assms sum_upto_snoc[of a "k - 1" "\<lambda>l. h l j i"] by (simp add: bump2_at bump_at)

lemma deposit1_loop:
  "deposit1 n c idx dt rho S =
     foldl (\<lambda>S i. put1 n c idx dt rho i (\<Sum>l\<in>{fx c n..i}. shape1 n c 0 l - shape0 n c 0 l) S) S [fx c n..lx c n]"
proof -
  have "deposit1_step n c idx dt rho = row_step1 (\<lambda>l. shape1 n c 0 l - shape0 n c 0 l) (put1 n c idx dt rho)"
    by (simp add: fun_eq_iff deposit1_step_def row_step1_def put1_def Let_def)
  then show ?thesis
    by (simp only: deposit1_def row1[OF first_le_last]) simp
qed

lemma deposit2_row_eq:
  "deposit2_row n c idx ext dt rho = (\<lambda>(B, S) j. (bump (fx c n) (lx c n) (m2y n c j) B,
     foldl (\<lambda>S i. put2 n c idx ext dt rho j i (\<Sum>l\<in>{fx c n..i}. m2x n c j l) (B (nat (i - fx c n)) + m2y n c j i) S)
       S [fx c n..lx c n]))"
proof -
  have "deposit2_step n c ext dt rho j (col_inc ext 1 idx (word_of_int j))
      = row_step2 (fx c n) (m2x n c j) (m2y n c j) (put2 n c idx ext dt rho j)" for j
    by (simp add: fun_eq_iff deposit2_step_def row_step2_def put2_def off2_def m2x_def m2y_def Let_def)
  then show ?thesis
    unfolding deposit2_row_def by (simp only: row2[OF first_le_last]) simp
qed

lemma deposit2_loop:
  "deposit2 n c idx ext dt rho S = foldl (\<lambda>S j. foldl (\<lambda>S i.
     put2 n c idx ext dt rho j i (\<Sum>l\<in>{fx c n..i}. m2x n c j l) (\<Sum>l\<in>{fy c n..j}. m2y n c l i) S)
     S [fx c n..lx c n]) S [fy c n..ly c n]"
  unfolding deposit2_def deposit2_row_eq rows2[OF first_le_last, where g = "m2y n c"] snd_conv
  by (intro foldl_cong refl) (simp_all add: prefix_bump del: One_nat_def)

lemma deposit3_row_eq:
  "deposit3_row n dbl c ext dt rho k (inc_z ext idx (word_of_int k)) = (\<lambda>(B, C, S) j.
     (bump (fx c n) (lx c n) (m3y n c k j) B,
      C(nat (j - fy c n) := bump (fx c n) (lx c n) (m3z n c k j) (C (nat (j - fy c n)))),
      foldl (\<lambda>S i. put3 n dbl c idx ext dt rho k j i (\<Sum>l\<in>{fx c n..i}. m3x n c k j l)
          (B (nat (i - fx c n)) + m3y n c k j i) (C (nat (j - fy c n)) (nat (i - fx c n)) + m3z n c k j i) S)
       S [fx c n..lx c n]))"
proof -
  have "deposit3_step n dbl c ext dt rho k j (inc_y ext (inc_z ext idx (word_of_int k)) (word_of_int j))
      = row_step3 (fx c n) (nat (j - fy c n)) (m3x n c k j) (m3y n c k j) (m3z n c k j) (put3 n dbl c idx ext dt rho k j)" for j
    by (simp add: fun_eq_iff deposit3_step_def row_step3_def put3_def off3_def m3x_def m3y_def m3z_def Let_def add_J_clip)
  then show ?thesis
    unfolding deposit3_row_def by (simp only: row3[OF first_le_last]) simp
qed

lemma deposit3_plane_eq:
  "deposit3_plane n dbl c idx ext dt rho = (\<lambda>(C, S) k.
     (bump2 (fx c n) (lx c n) (fy c n) (ly c n) (m3z n c k) C,
      foldl (\<lambda>S j. foldl (\<lambda>S i. put3 n dbl c idx ext dt rho k j i (\<Sum>l\<in>{fx c n..i}. m3x n c k j l)
          (bump (fx c n) (lx c n) (\<lambda>i. \<Sum>l\<in>{fy c n..j - 1}. m3y n c k l i) (\<lambda>_. 0) (nat (i - fx c n)) + m3y n c k j i)
          (C (nat (j - fy c n)) (nat (i - fx c n)) + m3z n c k j i) S)
       S [fx c n..lx c n]) S [fy c n..ly c n]))"
proof -
  let ?W = "\<lambda>k j B (R :: nat \<Rightarrow> real) S. foldl (\<lambda>S i. put3 n dbl c idx ext dt rho k j i (\<Sum>l\<in>{fx c n..i}. m3x n c k j l)
          (B (nat (i - fx c n)) + m3y n c k j i) (R (nat (i - fx c n)) + m3z n c k j i) S) S [fx c n..lx c n]"
  have "foldl (deposit3_row n dbl c ext dt rho k (inc_z ext idx (word_of_int k))) (\<lambda>_. 0, C, S) [fy c n..ly c n]
    = (bump (fx c n) (lx c n) (\<lambda>i. \<Sum>l\<in>{fy c n..ly c n}. m3y n c k l i) (\<lambda>_. 0),
       bump2 (fx c n) (lx c n) (fy c n) (ly c n) (m3z n c k) C,
       foldl (\<lambda>S j. ?W k j (bump (fx c n) (lx c n) (\<lambda>i. \<Sum>l\<in>{fy c n..j - 1}. m3y n c k l i) (\<lambda>_. 0)) (C (nat (j - fy c n))) S)
         S [fy c n..ly c n])" for k C S
    unfolding deposit3_row_eq
    by (rule rows3[OF first_le_last, where g = "m3y n c k" and h = "m3z n c k" and W = "?W k"])
  then show ?thesis
    by (simp only: deposit3_plane_def snd_conv)
qed

lemma deposit3_loop:
  "deposit3 n dbl c idx ext dt rho S = foldl (\<lambda>S k. foldl (\<lambda>S j. foldl (\<lambda>S i.
     put3 n dbl c idx ext dt rho k j i (\<Sum>l\<in>{fx c n..i}. m3x n c k j l) (\<Sum>l\<in>{fy c n..j}. m3y n c k l i)
       (\<Sum>l\<in>{fz c n..k}. m3z n c l j i) S)
     S [fx c n..lx c n]) S [fy c n..ly c n]) S [fz c n..lz c n]"
  unfolding deposit3_def deposit3_plane_eq planes3[OF first_le_last, where h = "m3z n c"] snd_conv
  by (intro foldl_cong refl) (simp_all add: prefix_bump prefix_bump2 del: One_nat_def)

subsection \<open>Shapes add up to one\<close>

text \<open>A particle in its cell, and one cell away after the move.\<close>

definition in_cell :: "nat \<Rightarrow> ptc_context \<Rightarrow> bool" where
  "in_cell D c = list_all (\<lambda>d. 0 \<le> pc_x c ! d \<and> pc_x c ! d \<le> 1 \<and> 0 \<le> pc_new_x c ! d \<and> pc_new_x c ! d \<le> 1
      \<and> pc_dc c ! d \<in> {- 1, 0, 1}) [0..<D]"

lemma in_cellD:
  assumes "in_cell D c" "d < D"
  shows "0 \<le> pc_x c ! d" "pc_x c ! d \<le> 1" "0 \<le> pc_new_x c ! d" "pc_new_x c ! d \<le> 1"
    "pc_dc c ! d = - 1 \<or> pc_dc c ! d = 0 \<or> pc_dc c ! d = 1"
  using assms by (auto simp: in_cell_def list_all_iff)

text \<open>The orders whose spline is continuous.\<close>

definition good_order :: "nat \<Rightarrow> bool" where
  "good_order n = (n = 1 \<or> n = 2 \<or> n = 3)"

lemma bspline2_sum:
  assumes "0 \<le> d" "d \<le> 1"
  shows "bspline2 (- 1 - d) + bspline2 (- d) + bspline2 (1 - d) + bspline2 (2 - d) = 1"
proof (cases "d < 1 / 2")
  case True
  then have "bspline2 (- 1 - d) = 1 / 2 * (1 / 2 - d) * (1 / 2 - d)" "bspline2 (- d) = 3 / 4 - d * d"
    "bspline2 (1 - d) = 1 / 2 * (1 / 2 + d) * (1 / 2 + d)" "bspline2 (2 - d) = 0"
    using assms by (auto simp: bspline2_def Let_def)
  then show ?thesis by (simp add: field_simps)
next
  case False
  show ?thesis
  proof (cases "d = 1 / 2")
    case True
    show ?thesis unfolding True by (simp add: bspline2_def Let_def)
  next
    case half: False
    have "bspline2 (- 1 - d) = 0" "bspline2 (- d) = 1 / 2 * (3 / 2 - d) * (3 / 2 - d)"
      "bspline2 (1 - d) = 3 / 4 - (1 - d) * (1 - d)" "bspline2 (2 - d) = 1 / 2 * (d - 1 / 2) * (d - 1 / 2)"
      using False half assms by (auto simp: bspline2_def Let_def)
    then show ?thesis by (simp add: field_simps)
  qed
qed

lemma bspline_outside:
  assumes "good_order n" "of_int (bs_radius n) \<le> \<bar>y\<bar>"
  shows "bspline n y = 0"
  using assms by (auto simp: good_order_def bspline_def bs_radius_def bspline1_def bspline2_def bspline3_def Let_def)

lemma far_away:
  assumes "i \<notin> {1 - bs_radius n..bs_radius n}" "0 \<le> x" "x \<le> 1"
  shows "of_int (bs_radius n) \<le> \<bar>of_int i - x :: real\<bar>"
proof -
  have "i \<le> - bs_radius n \<or> bs_radius n + 1 \<le> i" using assms(1) by auto
  then have "(of_int i :: real) \<le> - of_int (bs_radius n) \<or> of_int (bs_radius n) + 1 \<le> (of_int i :: real)"
    by (metis of_int_le_iff of_int_minus of_int_add of_int_1)
  then show ?thesis using assms(2,3) by linarith
qed

lemma stencil_set: "{1 - bs_radius n..bs_radius n} = (if n \<le> 1 then {0, 1} else {- 1, 0, 1, 2 :: int})"
  by (auto simp: bs_radius_def)

lemma bspline_total:
  assumes n: "good_order n" and x: "0 \<le> x" "x \<le> 1" and ab: "a \<le> 1 - bs_radius n" "bs_radius n \<le> b"
  shows "(\<Sum>i\<in>{a..b}. bspline n (of_int i - x)) = 1"
proof -
  have "(\<Sum>i\<in>{a..b}. bspline n (of_int i - x)) = (\<Sum>i\<in>{1 - bs_radius n..bs_radius n}. bspline n (of_int i - x))"
    using ab by (intro sum.mono_neutral_right) (auto intro!: bspline_outside[OF n] far_away[OF _ x])
  also have "\<dots> = 1"
    using n bspline1_sum[OF x] bspline2_sum[OF x] bspline3_sum[OF x]
    by (auto simp: stencil_set good_order_def bspline_def add.assoc[symmetric])
  finally show ?thesis .
qed

lemma range_covers:
  "i_first n d \<le> 1 - bs_radius n" "bs_radius n \<le> i_last n d"
  "d = - 1 \<or> d = 0 \<or> d = 1 \<Longrightarrow> i_first n d - d \<le> 1 - bs_radius n"
  "d = - 1 \<or> d = 0 \<or> d = 1 \<Longrightarrow> bs_radius n \<le> i_last n d - d"
  by (auto simp: i_first_def i_last_def)

lemma shape_total:
  assumes n: "good_order n" and c: "in_cell D c" "d < D"
  shows "(\<Sum>i\<in>{i_first n (pc_dc c ! d)..i_last n (pc_dc c ! d)}. shape0 n c d i) = 1"
    and "(\<Sum>i\<in>{i_first n (pc_dc c ! d)..i_last n (pc_dc c ! d)}. shape1 n c d i) = 1"
proof -
  note x = in_cellD[OF c]
  let ?a = "i_first n (pc_dc c ! d)" and ?b = "i_last n (pc_dc c ! d)" and ?d = "pc_dc c ! d"
  show "(\<Sum>i\<in>{?a..?b}. shape0 n c d i) = 1"
    using bspline_total[OF n x(1,2) range_covers(1,2)] by (simp add: shape0_def)
  have "(\<Sum>i\<in>{?a..?b}. shape1 n c d i) = (\<Sum>i\<in>{?a - ?d..?b - ?d}. bspline n (of_int i - pc_new_x c ! d))"
    by (rule sum.reindex_bij_witness[where i = "\<lambda>i. i + ?d" and j = "\<lambda>i. i - ?d"])
       (auto simp: shape1_def algebra_simps)
  then show "(\<Sum>i\<in>{?a..?b}. shape1 n c d i) = 1"
    using bspline_total[OF n x(3,4) range_covers(3,4)[OF x(5)]] by simp
qed

text \<open>The same particle at rest at its old position.\<close>

definition at_rest :: "ptc_context \<Rightarrow> ptc_context" where
  "at_rest c = c\<lparr>pc_new_x := pc_x c, pc_dc := [0, 0, 0]\<rparr>"

lemma at_rest_simps [simp]:
  "pc_weight (at_rest c) = pc_weight c" "pc_sp (at_rest c) = pc_sp c"
  "d < 3 \<Longrightarrow> pc_dc (at_rest c) ! d = 0"
  by (auto simp: at_rest_def less_Suc_eq numeral_3_eq_3)

lemma shape1_at_rest: "d < 3 \<Longrightarrow> shape1 n (at_rest c) d i = shape0 n c d i"
  by (simp add: shape1_def shape0_def) (simp add: at_rest_def)

lemma shape0_extends:
  assumes n: "good_order n" and c: "in_cell D c" "d < D" "d < 3"
  shows "(\<Sum>i\<in>{i_first n 0..i_last n 0}. g i * shape0 n c d i)
    = (\<Sum>i\<in>{i_first n (pc_dc c ! d)..i_last n (pc_dc c ! d)}. g i * shape0 n c d i)"
proof -
  have "{i_first n 0..i_last n 0} = {1 - bs_radius n..bs_radius n}" by (simp add: i_first_def i_last_def)
  moreover have "shape0 n c d i = 0" if "i \<notin> {1 - bs_radius n..bs_radius n}" for i
    using bspline_outside[OF n far_away[OF that in_cellD(1,2)[OF c(1,2)]]] by (simp add: shape0_def)
  ultimately show ?thesis
    using range_covers[where n = n and d = "pc_dc c ! d"]
    by (intro sum.mono_neutral_left) auto
qed

subsection \<open>What the loops add\<close>

lemma foldl_obs2:
  assumes "\<And>S j i. obs (h j i S) = obs S + (\<delta> j i :: real)"
  shows "obs (foldl (\<lambda>S j. foldl (\<lambda>S i. h j i S) S [a..b]) S [c..d]) = obs S + (\<Sum>j\<in>{c..d::int}. \<Sum>i\<in>{a..b::int}. \<delta> j i)"
  by (intro foldl_obs[where obs = obs] assms)

lemma foldl_obs3:
  assumes "\<And>S k j i. obs (h k j i S) = obs S + (\<delta> k j i :: real)"
  shows "obs (foldl (\<lambda>S k. foldl (\<lambda>S j. foldl (\<lambda>S i. h k j i S) S [a..b]) S [c..d]) S [p..q])
    = obs S + (\<Sum>k\<in>{p..q::int}. \<Sum>j\<in>{c..d::int}. \<Sum>i\<in>{a..b::int}. \<delta> k j i)"
  by (intro foldl_obs[where obs = obs] foldl_obs2[where obs = obs] assms)

lemma deposit1_adds:
  "cur_J (deposit1 n c idx dt rho S) 0 r = cur_J S 0 r + (\<Sum>i\<in>{fx c n..lx c n}.
     if idx_plus idx (word_of_int i) = r then - pc_weight c * (\<Sum>l\<in>{fx c n..i}. shape1 n c 0 l - shape0 n c 0 l) / dt else 0)"
  "cur_rho_total (deposit1 n c idx dt True S) r = cur_rho_total S r + (\<Sum>i\<in>{fx c n..lx c n}.
     if idx_plus idx (word_of_int i) = r then pc_weight c * shape1 n c 0 i else 0)"
  unfolding deposit1_loop
  by (rule foldl_obs[where obs = "\<lambda>S. cur_J S 0 r"] foldl_obs[where obs = "\<lambda>S. cur_rho_total S r"],
      simp add: put1_def Let_def)+

lemma deposit2_adds:
  "cur_J (deposit2 n c idx ext dt rho S) 0 r = cur_J S 0 r + (\<Sum>j\<in>{fy c n..ly c n}. \<Sum>i\<in>{fx c n..lx c n}.
     if off2 idx ext j i = r then - pc_weight c * (\<Sum>l\<in>{fx c n..i}. m2x n c j l) / dt else 0)"
  "cur_J (deposit2 n c idx ext dt rho S) 1 r = cur_J S 1 r + (\<Sum>j\<in>{fy c n..ly c n}. \<Sum>i\<in>{fx c n..lx c n}.
     if off2 idx ext j i = r then - pc_weight c * (\<Sum>l\<in>{fy c n..j}. m2y n c l i) / dt else 0)"
  "cur_rho_total (deposit2 n c idx ext dt True S) r = cur_rho_total S r + (\<Sum>j\<in>{fy c n..ly c n}. \<Sum>i\<in>{fx c n..lx c n}.
     if off2 idx ext j i = r then pc_weight c * shape1 n c 0 i * shape1 n c 1 j else 0)"
  unfolding deposit2_loop
  by (rule foldl_obs2[where obs = "\<lambda>S. cur_J S 0 r"] foldl_obs2[where obs = "\<lambda>S. cur_J S 1 r"]
        foldl_obs2[where obs = "\<lambda>S. cur_rho_total S r"], simp add: put2_def Let_def)+

lemma deposit3_adds:
  "cur_J (deposit3 n dbl c idx ext dt rho S) 0 r = cur_J S 0 r
     + (\<Sum>k\<in>{fz c n..lz c n}. \<Sum>j\<in>{fy c n..ly c n}. \<Sum>i\<in>{fx c n..lx c n}.
        if off3 idx ext k j i = r then - pc_weight c * clip dbl (\<Sum>l\<in>{fx c n..i}. m3x n c k j l) / dt else 0)"
  "cur_J (deposit3 n dbl c idx ext dt rho S) 1 r = cur_J S 1 r
     + (\<Sum>k\<in>{fz c n..lz c n}. \<Sum>j\<in>{fy c n..ly c n}. \<Sum>i\<in>{fx c n..lx c n}.
        if off3 idx ext k j i = r then - pc_weight c * clip dbl (\<Sum>l\<in>{fy c n..j}. m3y n c k l i) / dt else 0)"
  "cur_J (deposit3 n dbl c idx ext dt rho S) 2 r = cur_J S 2 r
     + (\<Sum>k\<in>{fz c n..lz c n}. \<Sum>j\<in>{fy c n..ly c n}. \<Sum>i\<in>{fx c n..lx c n}.
        if off3 idx ext k j i = r then - pc_weight c * clip dbl (\<Sum>l\<in>{fz c n..k}. m3z n c l j i) / dt else 0)"
  "cur_rho_total (deposit3 n dbl c idx ext dt True S) r = cur_rho_total S r
     + (\<Sum>k\<in>{fz c n..lz c n}. \<Sum>j\<in>{fy c n..ly c n}. \<Sum>i\<in>{fx c n..lx c n}.
        if off3 idx ext k j i = r then pc_weight c * shape1 n c 0 i * shape1 n c 1 j * shape1 n c 2 k else 0)"
  unfolding deposit3_loop
  by (rule foldl_obs3[where obs = "\<lambda>S. cur_J S 0 r"] foldl_obs3[where obs = "\<lambda>S. cur_J S 1 r"]
        foldl_obs3[where obs = "\<lambda>S. cur_J S 2 r"] foldl_obs3[where obs = "\<lambda>S. cur_rho_total S r"],
      simp add: put3_def Let_def)+

text \<open>Without the flag the charge stays as it is.\<close>

lemma deposit_keeps_rho:
  "cur_rho_total (deposit1 n c idx dt False S) r = cur_rho_total S r"
  "cur_rho_total (deposit2 n c idx ext dt False S) r = cur_rho_total S r"
  "cur_rho_total (deposit3 n dbl c idx ext dt False S) r = cur_rho_total S r"
proof -
  show "cur_rho_total (deposit1 n c idx dt False S) r = cur_rho_total S r"
    unfolding deposit1_loop
    by (subst foldl_obs[where obs = "\<lambda>S. cur_rho_total S r" and \<delta> = "\<lambda>_. 0"]) (simp_all add: put1_def Let_def)
  show "cur_rho_total (deposit2 n c idx ext dt False S) r = cur_rho_total S r"
    unfolding deposit2_loop
    by (subst foldl_obs2[where obs = "\<lambda>S. cur_rho_total S r" and \<delta> = "\<lambda>_ _. 0"]) (simp_all add: put2_def Let_def)
  show "cur_rho_total (deposit3 n dbl c idx ext dt False S) r = cur_rho_total S r"
    unfolding deposit3_loop
    by (subst foldl_obs3[where obs = "\<lambda>S. cur_rho_total S r" and \<delta> = "\<lambda>_ _ _. 0"]) (simp_all add: put3_def Let_def)
qed


subsection \<open>Neighbours of a stencil point\<close>

lemma woi32_64: "- 8 \<le> i \<Longrightarrow> i \<le> 8 \<Longrightarrow> scast (word_of_int i :: i32) = (word_of_int i :: i64)"
proof -
  assume "- 8 \<le> i" "i \<le> 8"
  then have "sint (word_of_int i :: i32) = i" by (intro sint_of_int32) simp_all
  then have "sint (scast (word_of_int i :: i32) :: i64) = i"
    by (simp only: sint_scast_up)
  then show ?thesis
    using word_of_sint[of "scast (word_of_int i :: i32) :: i64"] by (simp only:)
qed

lemma stencil_small: "i \<in> {i_first n d..i_last n d} \<Longrightarrow> - 3 \<le> i \<and> i \<le> 3"
  by (auto simp: i_first_def i_last_def bs_radius_def split: if_splits)

lemma stencil_fits: "i \<in> {i_first n d..i_last n d} \<Longrightarrow> nat (i - i_first n d) < nat (2 * bs_radius n + 1)"
  by (auto simp: i_first_def i_last_def bs_radius_def split: if_splits)

text \<open>Prefix sums along a direction: their difference at neighbouring points is the term itself.\<close>

lemma telescope:
  fixes a b :: int
  assumes "a - 1 \<le> b"
  shows "(\<Sum>i\<in>{a..b}. if P i then sum f {a..i} else 0) - (\<Sum>i\<in>{a..b}. if P (i + 1) then sum f {a..i} else (0::real))
    = (\<Sum>i\<in>{a..b}. if P i then f i else 0) - (if P (b + 1) then sum f {a..b} else 0)"
  using assms
proof (induction b rule: int_ge_induct)
  case (step b)
  then have "a \<le> b + 1" by simp
  show ?case
    using step.IH by (cases "P (b + 1)"; simp add: sum_upto_snoc[OF \<open>a \<le> b + 1\<close>])
qed simp


lemma telescope_zero:
  fixes a b :: int
  assumes "a - 1 \<le> b" "sum f {a..b} = (0::real)" "\<And>i. i \<in> {a..b} \<Longrightarrow> Q i = P (i + 1)"
  shows "(\<Sum>i\<in>{a..b}. if P i then sum f {a..i} else 0) - (\<Sum>i\<in>{a..b}. if Q i then sum f {a..i} else (0::real))
    = (\<Sum>i\<in>{a..b}. if P i then f i else 0)"
proof -
  have "(\<Sum>i\<in>{a..b}. if Q i then sum f {a..i} else 0) = (\<Sum>i\<in>{a..b}. if P (i + 1) then sum f {a..i} else 0)"
    by (rule sum.cong) (simp_all add: assms(3))
  then show ?thesis
    using telescope[OF assms(1), of P f] assms(2) by simp
qed

lemma off1_next: "(idx_plus idx (word_of_int i) = r - 1) = (idx_plus idx (word_of_int (i + 1)) = r)"
  by (auto simp: idx_plus_def algebra_simps)

lemma off2_linear:
  assumes "- 4 \<le> i" "i \<le> 4" "- 4 \<le> j" "j \<le> 4"
  shows "off2 idx ext j i = idx + word_of_int j * (strides ext ! 1) + word_of_int i * (strides ext ! 0)"
  using assms by (simp add: off2_def col_inc_def woi32_64)

lemma off2_next:
  assumes "i \<in> {fx c n..lx c n}" "j \<in> {fy c n..ly c n}"
  shows "(off2 idx ext j i = col_dec ext 0 r 1) = (off2 idx ext j (i + 1) = r)"
    and "(off2 idx ext j i = col_dec ext 1 r 1) = (off2 idx ext (j + 1) i = r)"
  using stencil_small[OF assms(1)] stencil_small[OF assms(2)]
  by (auto simp: off2_linear col_dec_def algebra_simps)

definition e_y :: "extent_t \<Rightarrow> i64" where "e_y ext = ucast (ext ! 0)"
definition e_z :: "extent_t \<Rightarrow> i64" where "e_z ext = ucast (ext ! 0 * ext ! 1)"

lemma off3_linear:
  assumes "- 4 \<le> i" "i \<le> 4" "- 4 \<le> j" "j \<le> 4" "- 4 \<le> k" "k \<le> 4"
  shows "off3 idx ext k j i = idx + word_of_int k * e_z ext + word_of_int j * e_y ext + word_of_int i"
  using assms by (simp add: off3_def inc_x_def inc_y_def inc_z_def idx_plus_def woi32_64 e_y_def e_z_def)

lemma off3_next:
  assumes "i \<in> {fx c n..lx c n}" "j \<in> {fy c n..ly c n}" "k \<in> {fz c n..lz c n}"
  shows "(off3 idx ext k j i = dec_x ext r 1) = (off3 idx ext k j (i + 1) = r)"
    and "(off3 idx ext k j i = dec_y ext r 1) = (off3 idx ext k (j + 1) i = r)"
    and "(off3 idx ext k j i = dec_z ext r 1) = (off3 idx ext (k + 1) j i = r)"
  using stencil_small[OF assms(1)] stencil_small[OF assms(2)] stencil_small[OF assms(3)]
  by (auto simp: off3_linear dec_x_def dec_y_def dec_z_def idx_minus_def e_y_def e_z_def algebra_simps)


lemma sum_if_scale: "(\<Sum>i\<in>A. if P i then - w * F i / d else 0) = - (w / d) * (\<Sum>i\<in>A. if P i then F i else (0::real))"
  unfolding sum_distrib_left by (rule sum.cong) auto

text \<open>The indicator of a stencil point.\<close>

definition ind :: "bool \<Rightarrow> real" where "ind b = (if b then 1 else 0)"

lemma sum_if_weight: "(\<Sum>i\<in>A. if P i then w * F i else 0) = w * (\<Sum>i\<in>A. ind (P i) * (F i :: real))"
  unfolding sum_distrib_left by (rule sum.cong) (auto simp: ind_def)

lemma sum_if_bool: "(\<Sum>i\<in>A. if P i then F i else 0) = (\<Sum>i\<in>A. ind (P i) * (F i :: real))"
  by (rule sum.cong) (auto simp: ind_def)

lemma conserve:
  fixes dt :: real
  assumes "dt \<noteq> 0" "J1 = J - w / dt * A" "J2 = J' - w / dt * B" "A - B = R1 - R0"
    "r1 = \<rho> + w * R1" "r0 = \<rho> + w * R0"
  shows "dt * ((J1 - J) - (J2 - J')) + (r1 - r0) = 0"
proof -
  have "dt * ((J1 - J) - (J2 - J')) = - w * (A - B)"
    using assms(1) unfolding assms(2,3) by (simp add: algebra_simps)
  then show ?thesis unfolding assms(4-6) by (simp add: algebra_simps)
qed

lemma deposit1_conserves:
  assumes n: "good_order n" and c: "in_cell 1 c" and dt: "dt \<noteq> 0"
  shows "dt * ((cur_J (deposit1 n c idx dt True S) 0 r - cur_J S 0 r)
               - (cur_J (deposit1 n c idx dt True S) 0 (r - 1) - cur_J S 0 (r - 1)))
    + (cur_rho_total (deposit1 n c idx dt True S) r - cur_rho_total (deposit1 n (at_rest c) idx dt True S) r) = 0"
proof -
  let ?A = "{fx c n..lx c n}" and ?f = "\<lambda>l. shape1 n c 0 l - shape0 n c 0 l"
  let ?P = "\<lambda>i. idx_plus idx (word_of_int i) = r" and ?Q = "\<lambda>i. idx_plus idx (word_of_int i) = r - 1"
  have "sum ?f ?A = 0"
    using shape_total[OF n c] by (simp add: sum_subtractf)
  then have t: "(\<Sum>i\<in>?A. if ?P i then sum ?f {fx c n..i} else 0) - (\<Sum>i\<in>?A. if ?Q i then sum ?f {fx c n..i} else 0)
      = (\<Sum>i\<in>?A. ind (?P i) * shape1 n c 0 i) - (\<Sum>i\<in>?A. ind (?P i) * shape0 n c 0 i)"
    using telescope_zero[OF first_le_last, where f = ?f and Q = ?Q and P = ?P] off1_next
    by (simp add: sum_if_bool right_diff_distrib sum_subtractf)
  show ?thesis
    by (rule conserve[OF dt _ _ t])
       (simp_all add: deposit1_adds sum_if_scale sum_if_weight shape1_at_rest shape0_extends[OF n c])
qed


lemma sum_if_scale2: "(\<Sum>j\<in>B. \<Sum>i\<in>A. if P j i then - w * F j i / d else 0)
    = - (w / d) * (\<Sum>j\<in>B. \<Sum>i\<in>A. if P j i then F j i else (0::real))"
  by (simp only: sum_if_scale sum_distrib_left)

lemma sum_if_weight2: "(\<Sum>j\<in>B. \<Sum>i\<in>A. if P j i then w * F j i else 0)
    = w * (\<Sum>j\<in>B. \<Sum>i\<in>A. ind (P j i) * (F j i :: real))"
  by (simp only: sum_if_weight sum_distrib_left)

lemma flux:
  fixes dt :: real
  assumes "dt \<noteq> 0" "J1 = J - w / dt * A" "J2 = J' - w / dt * B" "A - B = T"
  shows "dt * ((J1 - J) - (J2 - J')) = - w * T"
  using assms(1) unfolding assms(2,3) assms(4)[symmetric] by (simp add: algebra_simps)

lemma balance2: "X + Y = R1 - R0 \<Longrightarrow> - w * X + - w * Y + w * (R1 - R0) = (0 :: real)"
  by (metis ab_left_minus distrib_left mult_minus_left)

lemma m2_total: "m2x n c j i + m2y n c j i = shape1 n c 0 i * shape1 n c 1 j - shape0 n c 0 i * shape0 n c 1 j"
  by (simp add: m2x_def m2y_def movement2d_def algebra_simps)

lemma shape_diff_total:
  assumes "good_order n" "in_cell D c" "d < D"
  shows "(\<Sum>i\<in>{i_first n (pc_dc c ! d)..i_last n (pc_dc c ! d)}. (shape1 n c d i - shape0 n c d i) * K) = 0"
  by (simp only: sum_distrib_right[symmetric] sum_subtractf shape_total[OF assms]) simp

lemma m2x_row: "good_order n \<Longrightarrow> in_cell 2 c \<Longrightarrow> sum (m2x n c j) {fx c n..lx c n} = 0"
  using shape_diff_total[where d = 0 and D = 2 and K = "1 / 2 * (shape0 n c 1 j + shape1 n c 1 j)"]
  by (simp add: m2x_def movement2d_def sum.cong)

lemma m2y_col: "good_order n \<Longrightarrow> in_cell 2 c \<Longrightarrow> (\<Sum>j\<in>{fy c n..ly c n}. m2y n c j i) = 0"
  using shape_diff_total[where d = 1 and D = 2 and K = "1 / 2 * (shape0 n c 0 i + shape1 n c 0 i)"]
  by (simp add: m2y_def movement2d_def sum.cong)

lemma sum_diff_rows: "(\<And>j. j \<in> B \<Longrightarrow> f j - g j = h j) \<Longrightarrow> sum f B - sum g B = (sum h B :: real)"
  by (simp add: sum_subtractf[symmetric])

lemma rest2:
  assumes n: "good_order n" and c: "in_cell D c" "2 \<le> D"
  shows "(\<Sum>j\<in>{i_first n 0..i_last n 0}. \<Sum>i\<in>{i_first n 0..i_last n 0}. g j i * (shape0 n c 0 i * shape0 n c 1 j))
    = (\<Sum>j\<in>{fy c n..ly c n}. \<Sum>i\<in>{fx c n..lx c n}. g j i * (shape0 n c 0 i * shape0 n c 1 j))"
proof -
  have x: "(\<Sum>i\<in>{i_first n 0..i_last n 0}. g j i * (shape0 n c 0 i * shape0 n c 1 j))
      = (\<Sum>i\<in>{fx c n..lx c n}. g j i * shape0 n c 0 i) * shape0 n c 1 j" for j
    using c shape0_extends[OF n c(1), of 0 "g j"] by (simp only: mult.assoc[symmetric] sum_distrib_right[symmetric])
  have y: "(\<Sum>i\<in>{fx c n..lx c n}. g j i * (shape0 n c 0 i * shape0 n c 1 j))
      = (\<Sum>i\<in>{fx c n..lx c n}. g j i * shape0 n c 0 i) * shape0 n c 1 j" for j
    by (simp only: mult.assoc[symmetric] sum_distrib_right[symmetric])
  show ?thesis
    unfolding x y by (rule shape0_extends[OF n c(1)]) (use c(2) in simp_all)
qed

lemma deposit2_rho:
  "cur_rho_total (deposit2 n c idx ext dt True S) r = cur_rho_total S r + pc_weight c * (\<Sum>j\<in>{fy c n..ly c n}.
     \<Sum>i\<in>{fx c n..lx c n}. ind (off2 idx ext j i = r) * (shape1 n c 0 i * shape1 n c 1 j))"
  by (simp only: deposit2_adds mult.assoc sum_if_weight2)

lemma deposit2_rho_rest:
  assumes "good_order n" "in_cell 2 c"
  shows "cur_rho_total (deposit2 n (at_rest c) idx ext dt True S) r = cur_rho_total S r + pc_weight c * (\<Sum>j\<in>{fy c n..ly c n}.
     \<Sum>i\<in>{fx c n..lx c n}. ind (off2 idx ext j i = r) * (shape0 n c 0 i * shape0 n c 1 j))"
  using rest2[OF assms order.refl, of "\<lambda>j i. ind (off2 idx ext j i = r)"]
  by (simp add: deposit2_rho shape1_at_rest del: One_nat_def)

lemma deposit2_conserves:
  fixes idx :: i64 and ext :: extent_t and S :: currents and n :: nat and c :: ptc_context and dt :: scalar
  assumes n: "good_order n" and c: "in_cell 2 c" and dt: "dt \<noteq> 0"
  defines "J \<equiv> cur_J (deposit2 n c idx ext dt True S)"
  shows "dt * ((J 0 r - cur_J S 0 r) - (J 0 (col_dec ext 0 r 1) - cur_J S 0 (col_dec ext 0 r 1))
               + ((J 1 r - cur_J S 1 r) - (J 1 (col_dec ext 1 r 1) - cur_J S 1 (col_dec ext 1 r 1))))
    + (cur_rho_total (deposit2 n c idx ext dt True S) r - cur_rho_total (deposit2 n (at_rest c) idx ext dt True S) r) = 0"
proof -
  let ?A = "{fx c n..lx c n}" and ?B = "{fy c n..ly c n}" and ?o = "off2 idx ext"
  let ?X = "\<lambda>j i. \<Sum>l\<in>{fx c n..i}. m2x n c j l" and ?Y = "\<lambda>j i. \<Sum>l\<in>{fy c n..j}. m2y n c l i"
  have x: "(\<Sum>j\<in>?B. \<Sum>i\<in>?A. if ?o j i = r then ?X j i else 0) - (\<Sum>j\<in>?B. \<Sum>i\<in>?A. if ?o j i = col_dec ext 0 r 1 then ?X j i else 0)
      = (\<Sum>j\<in>?B. \<Sum>i\<in>?A. ind (?o j i = r) * m2x n c j i)"
    unfolding sum_if_bool[symmetric]
    by (rule sum_diff_rows, rule telescope_zero[OF first_le_last m2x_row[OF n c]], rule off2_next)
  have "(\<Sum>i\<in>?A. \<Sum>j\<in>?B. if ?o j i = r then ?Y j i else 0) - (\<Sum>i\<in>?A. \<Sum>j\<in>?B. if ?o j i = col_dec ext 1 r 1 then ?Y j i else 0)
      = (\<Sum>i\<in>?A. \<Sum>j\<in>?B. ind (?o j i = r) * m2y n c j i)"
    unfolding sum_if_bool[symmetric]
    by (rule sum_diff_rows, rule telescope_zero[OF first_le_last m2y_col[OF n c]], rule off2_next)
  then have y: "(\<Sum>j\<in>?B. \<Sum>i\<in>?A. if ?o j i = r then ?Y j i else 0) - (\<Sum>j\<in>?B. \<Sum>i\<in>?A. if ?o j i = col_dec ext 1 r 1 then ?Y j i else 0)
      = (\<Sum>j\<in>?B. \<Sum>i\<in>?A. ind (?o j i = r) * m2y n c j i)"
    by (simp only: sum.swap[of _ ?A ?B])
  have flx: "dt * ((J 0 r - cur_J S 0 r) - (J 0 (col_dec ext 0 r 1) - cur_J S 0 (col_dec ext 0 r 1)))
      = - pc_weight c * (\<Sum>j\<in>?B. \<Sum>i\<in>?A. ind (?o j i = r) * m2x n c j i)"
    by (rule flux[OF dt _ _ x]) (simp_all add: J_def deposit2_adds(1) sum_if_scale2)
  have fly: "dt * ((J 1 r - cur_J S 1 r) - (J 1 (col_dec ext 1 r 1) - cur_J S 1 (col_dec ext 1 r 1)))
      = - pc_weight c * (\<Sum>j\<in>?B. \<Sum>i\<in>?A. ind (?o j i = r) * m2y n c j i)"
    by (rule flux[OF dt _ _ y]) (simp_all add: J_def deposit2_adds(2) sum_if_scale2 del: One_nat_def)
  have rho: "cur_rho_total (deposit2 n c idx ext dt True S) r - cur_rho_total (deposit2 n (at_rest c) idx ext dt True S) r
      = pc_weight c * ((\<Sum>j\<in>?B. \<Sum>i\<in>?A. ind (?o j i = r) * (shape1 n c 0 i * shape1 n c 1 j))
          - (\<Sum>j\<in>?B. \<Sum>i\<in>?A. ind (?o j i = r) * (shape0 n c 0 i * shape0 n c 1 j)))"
    by (simp only: deposit2_rho[where c = c] deposit2_rho_rest[OF n c]) (simp add: right_diff_distrib)
  have "(\<Sum>j\<in>?B. \<Sum>i\<in>?A. ind (?o j i = r) * m2x n c j i) + (\<Sum>j\<in>?B. \<Sum>i\<in>?A. ind (?o j i = r) * m2y n c j i)
    = (\<Sum>j\<in>?B. \<Sum>i\<in>?A. ind (?o j i = r) * (shape1 n c 0 i * shape1 n c 1 j))
      - (\<Sum>j\<in>?B. \<Sum>i\<in>?A. ind (?o j i = r) * (shape0 n c 0 i * shape0 n c 1 j))"
    by (simp only: sum.distrib[symmetric] sum_subtractf[symmetric] distrib_left[symmetric] right_diff_distrib[symmetric] m2_total)
  then show ?thesis
    unfolding rho distrib_left[of dt] flx fly by (rule balance2)
qed


subsection \<open>Three dimensions\<close>

text \<open>Stencil points have different indices when the array is at least five cells wide.\<close>

definition wide_extent :: "extent_t \<Rightarrow> bool" where
  "wide_extent ext = (5 \<le> uint (ext ! 0) \<and> 5 \<le> uint (ext ! 1) \<and> uint (ext ! 0) * uint (ext ! 1) < 2 ^ 32)"

lemma word64_eq_imp: "(word_of_int a :: i64) = word_of_int b \<Longrightarrow> \<bar>a - b\<bar> < 2 ^ 64 \<Longrightarrow> a = b"
proof -
  assume "(word_of_int a :: i64) = word_of_int b" "\<bar>a - b\<bar> < 2 ^ 64"
  then have d: "(2 ^ 64 :: int) dvd a - b" "\<bar>a - b\<bar> < 2 ^ 64"
    by (simp_all add: word_of_int_eq_iff take_bit_eq_mod mod_eq_dvd_iff)
  have "a - b = 0"
  proof (rule ccontr)
    assume "a - b \<noteq> 0"
    then have "\<bar>2 ^ 64 :: int\<bar> \<le> \<bar>a - b\<bar>" by (rule dvd_imp_le_int) (rule d(1))
    then show False using d(2) by linarith
  qed
  then show "a = b" by simp
qed

lemma small_digit:
  fixes a b e :: int
  assumes "a * e + b = 0" "\<bar>b\<bar> < e"
  shows "b = 0" "a = 0"
proof -
  have "b = e * (- a)" using assms(1) by (simp add: algebra_simps)
  then have d: "e dvd b" by (rule dvdI)
  show b: "b = 0"
  proof (rule ccontr)
    assume "b \<noteq> 0"
    then have "\<bar>e\<bar> \<le> \<bar>b\<bar>" by (rule dvd_imp_le_int) (rule d)
    then show False using assms(2) by linarith
  qed
  show "a = 0" using assms unfolding b by auto
qed

lemma off3_int:
  assumes w: "wide_extent ext" and "- 4 \<le> i" "i \<le> 4" "- 4 \<le> j" "j \<le> 4" "- 4 \<le> k" "k \<le> 4"
  shows "off3 idx ext k j i = idx + word_of_int ((k * uint (ext ! 1) + j) * uint (ext ! 0) + i)"
proof -
  have "uint (ext ! 0 * ext ! 1) = uint (ext ! 0) * uint (ext ! 1)"
    using w by (simp add: wide_extent_def uint_word_ariths)
  then have z: "e_z ext = word_of_int (uint (ext ! 0) * uint (ext ! 1))"
    unfolding e_z_def by (metis of_int_uint uint_ucast_up)
  have y: "e_y ext = word_of_int (uint (ext ! 0))"
    unfolding e_y_def by (metis of_int_uint uint_ucast_up)
  show ?thesis
    unfolding off3_linear[OF assms(2-7)] y z by (simp add: algebra_simps)
qed

lemma stencil_diff: "i \<in> {i_first n d..i_last n d} \<Longrightarrow> i' \<in> {i_first n d..i_last n d} \<Longrightarrow> \<bar>i - i'\<bar> \<le> 4"
  by (auto simp: i_first_def i_last_def bs_radius_def split: if_splits)

lemma off3_inj:
  assumes w: "wide_extent ext"
    and i: "i \<in> {fx c n..lx c n}" "i' \<in> {fx c n..lx c n}" and j: "j \<in> {fy c n..ly c n}" "j' \<in> {fy c n..ly c n}"
    and k: "k \<in> {fz c n..lz c n}" "k' \<in> {fz c n..lz c n}"
    and eq: "off3 idx ext k j i = off3 idx ext k' j' i'"
  shows "k = k' \<and> j = j' \<and> i = i'"
proof -
  let ?e = "uint (ext ! 0)" and ?f = "uint (ext ! 1)"
  let ?D = "((k - k') * ?f + (j - j')) * ?e + (i - i')"
  have e: "5 \<le> ?e" "5 \<le> ?f" "?e < 2 ^ 32" "?e * ?f < 2 ^ 32"
    using w uint32_lt[of "ext ! 0"] by (simp_all add: wide_extent_def)
  note d = stencil_diff[OF i] stencil_diff[OF j] stencil_diff[OF k]
  have "(word_of_int ((k * ?f + j) * ?e + i) :: i64) = word_of_int ((k' * ?f + j') * ?e + i')"
    using eq stencil_small[OF i(1)] stencil_small[OF i(2)] stencil_small[OF j(1)] stencil_small[OF j(2)]
      stencil_small[OF k(1)] stencil_small[OF k(2)] by (simp add: off3_int[OF w])
  moreover have D: "(k * ?f + j) * ?e + i - ((k' * ?f + j') * ?e + i') = ?D"
    by (simp add: algebra_simps)
  moreover have "\<bar>?D\<bar> < 2 ^ 64"
  proof -
    have "\<bar>(k - k') * (?e * ?f)\<bar> \<le> 4 * 2 ^ 32" "\<bar>(j - j') * ?e\<bar> \<le> 4 * 2 ^ 32"
      unfolding abs_mult using d e by (intro mult_mono; simp)+
    moreover have "?D = (k - k') * (?e * ?f) + (j - j') * ?e + (i - i')" by (simp add: algebra_simps)
    ultimately have "\<bar>?D\<bar> \<le> 4 * 2 ^ 32 + 4 * 2 ^ 32 + 4" using d(1) by linarith
    then show ?thesis by simp
  qed
  ultimately have "?D = 0" using word64_eq_imp by fastforce
  then have "i - i' = 0" "(k - k') * ?f + (j - j') = 0"
    using small_digit[of "(k - k') * ?f + (j - j')" ?e "i - i'"] d(1) e(1) by auto
  moreover have "j - j' = 0" "k - k' = 0"
    using small_digit[OF \<open>(k - k') * ?f + (j - j') = 0\<close>] d(2) e(2) by auto
  ultimately show ?thesis by simp
qed


text \<open>Sums over the stencil of three dimensions.\<close>

definition box :: "nat \<Rightarrow> ptc_context \<Rightarrow> (int \<times> int \<times> int) set" where
  "box n c = {fz c n..lz c n} \<times> {fy c n..ly c n} \<times> {fx c n..lx c n}"

lemma sum_box:
  "(\<Sum>k\<in>{fz c n..lz c n}. \<Sum>j\<in>{fy c n..ly c n}. \<Sum>i\<in>{fx c n..lx c n}. F k j i) = (\<Sum>(k, j, i)\<in>box n c. (F k j i :: real))"
  by (simp only: box_def sum.cartesian_product)

lemma finite_box: "finite (box n c)"
  by (simp add: box_def)

lemma sum_ind_le_1:
  assumes "inj_on f A" "finite A"
  shows "(\<Sum>p\<in>A. ind (f p = r)) \<le> 1"
proof -
  have "(\<Sum>p\<in>A. ind (f p = r)) = real (card {p \<in> A. f p = r})"
    using assms(2) by (simp add: ind_def sum.If_cases Int_def)
  moreover have "card {p \<in> A. f p = r} \<le> Suc 0"
    using assms by (subst card_le_Suc0_iff_eq) (auto dest: inj_onD)
  ultimately show ?thesis by simp
qed

lemma hits_le_1:
  assumes "wide_extent ext"
  shows "(\<Sum>(k, j, i)\<in>box n c. ind (off3 idx ext k j i = r)) \<le> 1"
proof -
  have "inj_on (\<lambda>(k, j, i). off3 idx ext k j i) (box n c)"
  proof (rule inj_onI)
    fix p q assume pq: "p \<in> box n c" "q \<in> box n c"
      and e: "(case p of (k, j, i) \<Rightarrow> off3 idx ext k j i) = (case q of (k, j, i) \<Rightarrow> off3 idx ext k j i)"
    obtain k j i k' j' i' where p: "p = (k, j, i)" and q: "q = (k', j', i')"
      using prod_cases3 by metis
    have b: "i \<in> {fx c n..lx c n}" "i' \<in> {fx c n..lx c n}" "j \<in> {fy c n..ly c n}" "j' \<in> {fy c n..ly c n}"
      "k \<in> {fz c n..lz c n}" "k' \<in> {fz c n..lz c n}"
      using pq unfolding box_def p q by blast+
    show "p = q" using off3_inj[OF assms b] e unfolding p q by simp
  qed
  from sum_ind_le_1[OF this finite_box, of r] show ?thesis by (simp add: case_prod_unfold)
qed

definition err :: "bool \<Rightarrow> real \<Rightarrow> real" where "err dbl X = X - clip dbl X"

lemma err_bound: "\<bar>err dbl X\<bar> \<le> TINY dbl"
  by (auto simp: err_def clip_def TINY_def)

lemma sum_err_bound:
  assumes "wide_extent ext"
  shows "\<bar>\<Sum>(k, j, i)\<in>box n c. (ind (off3 idx ext k j i = r) - ind (off3 idx ext k j i = r')) * err dbl (F k j i)\<bar> \<le> 2 * TINY dbl"
proof -
  let ?P = "\<lambda>(k, j, i). off3 idx ext k j i = r" and ?Q = "\<lambda>(k, j, i). off3 idx ext k j i = r'"
  have t: "\<bar>(ind a - ind b) * err dbl X\<bar> \<le> (ind a + ind b) * TINY dbl" for a b X
  proof -
    have "\<bar>ind a - ind b\<bar> \<le> ind a + ind b" by (simp add: ind_def)
    then show ?thesis unfolding abs_mult by (rule mult_mono) (simp_all add: err_bound ind_def)
  qed
  have "\<bar>\<Sum>p\<in>box n c. (ind (?P p) - ind (?Q p)) * err dbl (case p of (k, j, i) \<Rightarrow> F k j i)\<bar>
      \<le> (\<Sum>p\<in>box n c. (ind (?P p) + ind (?Q p)) * TINY dbl)"
    by (rule order.trans[OF sum_abs sum_mono[OF t]])
  then have "\<bar>\<Sum>(k, j, i)\<in>box n c. (ind (off3 idx ext k j i = r) - ind (off3 idx ext k j i = r')) * err dbl (F k j i)\<bar>
      \<le> (\<Sum>(k, j, i)\<in>box n c. (ind (off3 idx ext k j i = r) + ind (off3 idx ext k j i = r')) * TINY dbl)"
    by (simp add: case_prod_unfold)
  also have "\<dots> = ((\<Sum>(k, j, i)\<in>box n c. ind (off3 idx ext k j i = r)) + (\<Sum>(k, j, i)\<in>box n c. ind (off3 idx ext k j i = r'))) * TINY dbl"
    by (simp add: case_prod_unfold sum_distrib_right[symmetric] sum.distrib)
  also have "\<dots> \<le> (1 + 1) * TINY dbl"
    by (intro mult_right_mono add_mono hits_le_1 assms) (simp add: TINY_def)
  finally show ?thesis by simp
qed

lemma telescope_clip:
  fixes a b :: int
  assumes "a - 1 \<le> b" "sum f {a..b} = (0::real)" "\<And>i. i \<in> {a..b} \<Longrightarrow> Q i = P (i + 1)"
  shows "(\<Sum>i\<in>{a..b}. if P i then clip dbl (sum f {a..i}) else 0) - (\<Sum>i\<in>{a..b}. if Q i then clip dbl (sum f {a..i}) else 0)
    = (\<Sum>i\<in>{a..b}. ind (P i) * f i - (ind (P i) - ind (Q i)) * err dbl (sum f {a..i}))"
proof -
  have "(\<Sum>i\<in>{a..b}. if R i then clip dbl (sum f {a..i}) else 0)
      = (\<Sum>i\<in>{a..b}. if R i then sum f {a..i} else 0) - (\<Sum>i\<in>{a..b}. ind (R i) * err dbl (sum f {a..i}))" for R
    by (simp add: sum_subtractf[symmetric]) (rule sum.cong, auto simp: ind_def err_def)
  then show ?thesis
    using telescope_zero[where P = P and Q = Q and f = f, OF assms] by (simp add: sum_if_bool sum_subtractf left_diff_distrib)
qed

lemma m3_alg:
  "(x1 - x0) * ((2 * y1 * z1 + y0 * z1 + y1 * z0 + 2 * y0 * z0) * K)
     + (y1 - y0) * ((2 * z1 * x1 + z0 * x1 + z1 * x0 + 2 * z0 * x0) * K)
     + (z1 - z0) * ((2 * x1 * y1 + x0 * y1 + x1 * y0 + 2 * x0 * y0) * K)
   = 6 * K * (x1 * y1 * z1 - x0 * y0 * z0 :: real)"
  by (simp add: algebra_simps)

lemma m3_total: "m3x n c k j i + m3y n c k j i + m3z n c k j i
    = (1 + 1 / 2 ^ 25) * (shape1 n c 0 i * shape1 n c 1 j * shape1 n c 2 k - shape0 n c 0 i * shape0 n c 1 j * shape0 n c 2 k)"
proof -
  have "6 * (11184811 / 2 ^ 26) = (1 + 1 / 2 ^ 25 :: real)" by simp
  then show ?thesis unfolding m3x_def m3y_def m3z_def movement3d_def center2d_def m3_alg by simp
qed

lemma m3_rows:
  assumes "good_order n" "in_cell 3 c"
  shows "sum (m3x n c k j) {fx c n..lx c n} = 0" "(\<Sum>j\<in>{fy c n..ly c n}. m3y n c k j i) = 0" "(\<Sum>k\<in>{fz c n..lz c n}. m3z n c k j i) = 0"
  unfolding m3x_def m3y_def m3z_def movement3d_def
  by (rule shape_diff_total[OF assms]; simp)+


lemma sum_if_scale3: "(\<Sum>k\<in>C. \<Sum>j\<in>B. \<Sum>i\<in>A. if P k j i then - w * F k j i / d else 0)
    = - (w / d) * (\<Sum>k\<in>C. \<Sum>j\<in>B. \<Sum>i\<in>A. if P k j i then F k j i else (0::real))"
  by (simp only: sum_if_scale sum_distrib_left)

lemma sum_if_weight3: "(\<Sum>k\<in>C. \<Sum>j\<in>B. \<Sum>i\<in>A. if P k j i then w * F k j i else 0)
    = w * (\<Sum>k\<in>C. \<Sum>j\<in>B. \<Sum>i\<in>A. ind (P k j i) * (F k j i :: real))"
  by (simp only: sum_if_weight sum_distrib_left)

lemma rest3:
  assumes n: "good_order n" and c: "in_cell 3 c"
  shows "(\<Sum>k\<in>{i_first n 0..i_last n 0}. \<Sum>j\<in>{i_first n 0..i_last n 0}. \<Sum>i\<in>{i_first n 0..i_last n 0}.
      g k j i * (shape0 n c 0 i * shape0 n c 1 j * shape0 n c 2 k))
    = (\<Sum>k\<in>{fz c n..lz c n}. \<Sum>j\<in>{fy c n..ly c n}. \<Sum>i\<in>{fx c n..lx c n}.
      g k j i * (shape0 n c 0 i * shape0 n c 1 j * shape0 n c 2 k))"
proof -
  have f: "(\<Sum>j\<in>B. \<Sum>i\<in>A. g k j i * (shape0 n c 0 i * shape0 n c 1 j * shape0 n c 2 k))
      = (\<Sum>j\<in>B. \<Sum>i\<in>A. g k j i * (shape0 n c 0 i * shape0 n c 1 j)) * shape0 n c 2 k" for A B k
    by (simp only: mult.assoc[symmetric] sum_distrib_right)
  have two: "2 \<le> (3 :: nat)" by simp
  show ?thesis
    unfolding f rest2[OF n c two] by (rule shape0_extends[OF n c]) simp_all
qed

lemma deposit3_rho:
  "cur_rho_total (deposit3 n dbl c idx ext dt True S) r = cur_rho_total S r + pc_weight c * (\<Sum>k\<in>{fz c n..lz c n}.
     \<Sum>j\<in>{fy c n..ly c n}. \<Sum>i\<in>{fx c n..lx c n}. ind (off3 idx ext k j i = r) * (shape1 n c 0 i * shape1 n c 1 j * shape1 n c 2 k))"
  by (simp only: deposit3_adds sum_if_weight3[symmetric] mult.assoc)

lemma deposit3_rho_rest:
  assumes "good_order n" "in_cell 3 c"
  shows "cur_rho_total (deposit3 n dbl (at_rest c) idx ext dt True S) r = cur_rho_total S r + pc_weight c * (\<Sum>k\<in>{fz c n..lz c n}.
     \<Sum>j\<in>{fy c n..ly c n}. \<Sum>i\<in>{fx c n..lx c n}. ind (off3 idx ext k j i = r) * (shape0 n c 0 i * shape0 n c 1 j * shape0 n c 2 k))"
  using rest3[OF assms, of "\<lambda>k j i. ind (off3 idx ext k j i = r)"]
  by (simp add: deposit3_rho shape1_at_rest del: One_nat_def)


text \<open>The flux along each direction: the movement term, less what \<open>TINY\<close> cuts off.\<close>

abbreviation "px n c \<equiv> \<lambda>k j i. \<Sum>l\<in>{fx c n..i}. m3x n c k j l"
abbreviation "py n c \<equiv> \<lambda>k j i. \<Sum>l\<in>{fy c n..j}. m3y n c k l i"
abbreviation "pz n c \<equiv> \<lambda>k j i. \<Sum>l\<in>{fz c n..k}. m3z n c l j i"

definition cut :: "bool \<Rightarrow> nat \<Rightarrow> ptc_context \<Rightarrow> (int \<Rightarrow> int \<Rightarrow> int \<Rightarrow> i64) \<Rightarrow> i64 \<Rightarrow> i64 \<Rightarrow>
    (int \<Rightarrow> int \<Rightarrow> int \<Rightarrow> real) \<Rightarrow> (int \<Rightarrow> int \<Rightarrow> int \<Rightarrow> real) \<Rightarrow> real" where
  "cut dbl n c f r r' m F = (\<Sum>(k, j, i)\<in>box n c. ind (f k j i = r) * m k j i - (ind (f k j i = r) - ind (f k j i = r')) * err dbl (F k j i))"

lemma cut_x:
  assumes "good_order n" "in_cell 3 c"
  shows "(\<Sum>k\<in>{fz c n..lz c n}. \<Sum>j\<in>{fy c n..ly c n}. \<Sum>i\<in>{fx c n..lx c n}. if off3 idx ext k j i = r then clip dbl (px n c k j i) else 0)
    - (\<Sum>k\<in>{fz c n..lz c n}. \<Sum>j\<in>{fy c n..ly c n}. \<Sum>i\<in>{fx c n..lx c n}. if off3 idx ext k j i = dec_x ext r 1 then clip dbl (px n c k j i) else 0)
    = cut dbl n c (off3 idx ext) r (dec_x ext r 1) (m3x n c) (px n c)"
  unfolding cut_def sum_box[symmetric]
  by (rule sum_diff_rows, rule sum_diff_rows, rule telescope_clip[OF first_le_last m3_rows(1)[OF assms]], rule off3_next)

lemma cut_y:
  assumes "good_order n" "in_cell 3 c"
  shows "(\<Sum>k\<in>{fz c n..lz c n}. \<Sum>j\<in>{fy c n..ly c n}. \<Sum>i\<in>{fx c n..lx c n}. if off3 idx ext k j i = r then clip dbl (py n c k j i) else 0)
    - (\<Sum>k\<in>{fz c n..lz c n}. \<Sum>j\<in>{fy c n..ly c n}. \<Sum>i\<in>{fx c n..lx c n}. if off3 idx ext k j i = dec_y ext r 1 then clip dbl (py n c k j i) else 0)
    = cut dbl n c (off3 idx ext) r (dec_y ext r 1) (m3y n c) (py n c)"
  unfolding cut_def sum_box[symmetric] sum.swap[where A = "{fy c n..ly c n}" and B = "{fx c n..lx c n}"]
  by (rule sum_diff_rows, rule sum_diff_rows, rule telescope_clip[OF first_le_last m3_rows(2)[OF assms]], rule off3_next)

lemma cut_z:
  assumes "good_order n" "in_cell 3 c"
  shows "(\<Sum>k\<in>{fz c n..lz c n}. \<Sum>j\<in>{fy c n..ly c n}. \<Sum>i\<in>{fx c n..lx c n}. if off3 idx ext k j i = r then clip dbl (pz n c k j i) else 0)
    - (\<Sum>k\<in>{fz c n..lz c n}. \<Sum>j\<in>{fy c n..ly c n}. \<Sum>i\<in>{fx c n..lx c n}. if off3 idx ext k j i = dec_z ext r 1 then clip dbl (pz n c k j i) else 0)
    = cut dbl n c (off3 idx ext) r (dec_z ext r 1) (m3z n c) (pz n c)"
proof -
  have sw: "(\<Sum>k\<in>C. \<Sum>j\<in>B. \<Sum>i\<in>A. F k j i) = (\<Sum>j\<in>B. \<Sum>i\<in>A. \<Sum>k\<in>C. (F k j i :: real))" for A B C :: "int set" and F
    by (subst sum.swap[where A = C and B = B]) (rule sum.cong[OF refl], rule sum.swap)
  show ?thesis
    unfolding cut_def sum_box[symmetric] sw[where A = "{fx c n..lx c n}" and B = "{fy c n..ly c n}" and C = "{fz c n..lz c n}"]
    by (rule sum_diff_rows, rule sum_diff_rows, rule telescope_clip[OF first_le_last m3_rows(3)[OF assms]], rule off3_next)
qed

lemma cut_split:
  "cut dbl n c f r r' m F = (\<Sum>(k, j, i)\<in>box n c. ind (f k j i = r) * m k j i)
     - (\<Sum>(k, j, i)\<in>box n c. (ind (f k j i = r) - ind (f k j i = r')) * err dbl (F k j i))"
  by (simp add: cut_def case_prod_unfold sum_subtractf)

lemma cut_bound:
  assumes "wide_extent ext"
  shows "\<bar>(\<Sum>(k, j, i)\<in>box n c. ind (off3 idx ext k j i = r) * m k j i) - cut dbl n c (off3 idx ext) r r' m F\<bar> \<le> 2 * TINY dbl"
  using sum_err_bound[OF assms, where r = r and r' = r' and F = F and idx = idx and n = n and c = c and dbl = dbl]
  by (simp add: cut_split)


lemma deposit3_flux:
  fixes dbl :: bool and idx :: i64 and ext :: extent_t and S :: currents and n :: nat and c :: ptc_context and dt :: scalar
  assumes a: "good_order n" "in_cell 3 c" and dt: "dt \<noteq> 0"
  defines "J \<equiv> cur_J (deposit3 n dbl c idx ext dt True S)"
  shows "dt * ((J 0 r - cur_J S 0 r) - (J 0 (dec_x ext r 1) - cur_J S 0 (dec_x ext r 1)))
      = - pc_weight c * cut dbl n c (off3 idx ext) r (dec_x ext r 1) (m3x n c) (px n c)"
    "dt * ((J 1 r - cur_J S 1 r) - (J 1 (dec_y ext r 1) - cur_J S 1 (dec_y ext r 1)))
      = - pc_weight c * cut dbl n c (off3 idx ext) r (dec_y ext r 1) (m3y n c) (py n c)"
    "dt * ((J 2 r - cur_J S 2 r) - (J 2 (dec_z ext r 1) - cur_J S 2 (dec_z ext r 1)))
      = - pc_weight c * cut dbl n c (off3 idx ext) r (dec_z ext r 1) (m3z n c) (pz n c)"
proof -
  show "dt * ((J 0 r - cur_J S 0 r) - (J 0 (dec_x ext r 1) - cur_J S 0 (dec_x ext r 1)))
      = - pc_weight c * cut dbl n c (off3 idx ext) r (dec_x ext r 1) (m3x n c) (px n c)"
    by (rule flux[OF dt _ _ cut_x[OF a]]) (simp_all add: J_def deposit3_adds(1) sum_if_scale3 del: One_nat_def)
  show "dt * ((J 1 r - cur_J S 1 r) - (J 1 (dec_y ext r 1) - cur_J S 1 (dec_y ext r 1)))
      = - pc_weight c * cut dbl n c (off3 idx ext) r (dec_y ext r 1) (m3y n c) (py n c)"
    by (rule flux[OF dt _ _ cut_y[OF a]]) (simp_all add: J_def deposit3_adds(2) sum_if_scale3 del: One_nat_def)
  show "dt * ((J 2 r - cur_J S 2 r) - (J 2 (dec_z ext r 1) - cur_J S 2 (dec_z ext r 1)))
      = - pc_weight c * cut dbl n c (off3 idx ext) r (dec_z ext r 1) (m3z n c) (pz n c)"
    by (rule flux[OF dt _ _ cut_z[OF a]]) (simp_all add: J_def deposit3_adds(3) sum_if_scale3 del: One_nat_def)
qed

lemma residual_bound:
  fixes w :: real
  assumes "\<bar>MX - CX\<bar> \<le> 2 * T" "\<bar>MY - CY\<bar> \<le> 2 * T" "\<bar>MZ - CZ\<bar> \<le> 2 * T" "MX + MY + MZ = K * D"
  shows "\<bar>- w * CX + - w * CY + - w * CZ + K * (w * D)\<bar> \<le> 6 * T * \<bar>w\<bar>"
proof -
  have "K * (w * D) = w * (MX + MY + MZ)" unfolding assms(4) by (simp add: algebra_simps)
  then have "- w * CX + - w * CY + - w * CZ + K * (w * D) = w * ((MX - CX) + (MY - CY) + (MZ - CZ))"
    by (simp add: algebra_simps)
  moreover have "\<bar>(MX - CX) + (MY - CY) + (MZ - CZ)\<bar> \<le> 6 * T" using assms(1-3) by linarith
  ultimately show ?thesis
    by (simp add: abs_mult mult.commute[of _ "\<bar>w\<bar>"] mult_left_mono)
qed

subsection \<open>Properties\<close>

text \<open>
  C6.  In one and two dimensions the deposited current and charge satisfy the discrete
  continuity equation exactly, at every index and whatever the extents: the divergence
  of the added current, times \<open>dt\<close>, is minus the difference between the charge deposited
  by the moved particle and that of the same particle at rest at its old position.
\<close>

theorem deposit_continuity:
  assumes "good_order n" "dt \<noteq> 0"
  shows "(in_cell 1 c \<longrightarrow> (let J = cur_J (deposit1 n c idx dt True S) in
      dt * ((J 0 r - cur_J S 0 r) - (J 0 (r - 1) - cur_J S 0 (r - 1)))
      + (cur_rho_total (deposit1 n c idx dt True S) r - cur_rho_total (deposit1 n (at_rest c) idx dt True S) r) = 0))
    \<and> (in_cell 2 c \<longrightarrow> (let J = cur_J (deposit2 n c idx ext dt True S) in
      dt * ((J 0 r - cur_J S 0 r) - (J 0 (col_dec ext 0 r 1) - cur_J S 0 (col_dec ext 0 r 1))
            + ((J 1 r - cur_J S 1 r) - (J 1 (col_dec ext 1 r 1) - cur_J S 1 (col_dec ext 1 r 1))))
      + (cur_rho_total (deposit2 n c idx ext dt True S) r - cur_rho_total (deposit2 n (at_rest c) idx ext dt True S) r) = 0))"
  unfolding Let_def
  by (intro conjI impI deposit1_conserves[OF assms(1) _ assms(2)] deposit2_conserves[OF assms(1) _ assms(2)])

definition example_context :: ptc_context where
  "example_context = \<lparr>pc_cell = 5, pc_x = [1 / 4, 1 / 2, 3 / 4], pc_new_x = [1 / 8, 3 / 4, 1 / 2], pc_dc = [1, 0, -1],
     pc_p = [0, 0, 0], pc_gamma = 1, pc_flag = 0, pc_weight = 2, pc_sp = 0, pc_q = 1, pc_m = 1, pc_aux1 = 0,
     pc_E = [0, 0, 0], pc_B = [0, 0, 0]\<rparr>"

definition no_currents :: currents where
  "no_currents = \<lparr>cur_J = \<lambda>_ _. 0, cur_Rho = \<lambda>_ _. 0, cur_rho_total = \<lambda>_. 0\<rparr>"

lemma example_in_cell: "in_cell 1 example_context" "in_cell 2 example_context" "in_cell 3 example_context"
  by (simp_all add: in_cell_def example_context_def upt_rec numeral_3_eq_3 numeral_2_eq_2)

theorem deposit_continuity_witness:
  "let J = cur_J (deposit2 3 example_context 20 [8, 8] (1 / 2) True no_currents) in
      1 / 2 * ((J 0 21 - cur_J no_currents 0 21) - (J 0 (col_dec [8, 8] 0 21 1) - cur_J no_currents 0 (col_dec [8, 8] 0 21 1))
            + ((J 1 21 - cur_J no_currents 1 21) - (J 1 (col_dec [8, 8] 1 21 1) - cur_J no_currents 1 (col_dec [8, 8] 1 21 1))))
      + (cur_rho_total (deposit2 3 example_context 20 [8, 8] (1 / 2) True no_currents) 21
         - cur_rho_total (deposit2 3 (at_rest example_context) 20 [8, 8] (1 / 2) True no_currents) 21) = 0"
  by (rule deposit_continuity[of 3 "1 / 2" example_context 20 no_currents 21 "[8, 8]", THEN conjunct2, rule_format])
     (simp_all add: good_order_def example_in_cell)

text \<open>
  C36.  In three dimensions the continuity equation holds up to two deviations of the code:
  the charge enters with the factor \<open>1 + 2\<^sup>-\<^sup>2\<^sup>5\<close>, six times the \<open>float\<close> literal
  \<open>0.166666666667f\<close> of \<open>center2d\<close> (also in a double build), and currents below \<open>TINY\<close> are
  dropped, which changes the balance by at most \<open>6 * TINY * weight\<close>, on every array at least
  five cells wide in x and y.
\<close>

theorem deposit3_continuity:
  assumes "good_order n" "in_cell 3 c" "dt \<noteq> 0" "wide_extent ext"
  shows "let S' = deposit3 n dbl c idx ext dt True S; J = cur_J S' in
    \<bar>dt * ((J 0 r - cur_J S 0 r) - (J 0 (dec_x ext r 1) - cur_J S 0 (dec_x ext r 1))
          + ((J 1 r - cur_J S 1 r) - (J 1 (dec_y ext r 1) - cur_J S 1 (dec_y ext r 1)))
          + ((J 2 r - cur_J S 2 r) - (J 2 (dec_z ext r 1) - cur_J S 2 (dec_z ext r 1))))
      + (1 + 1 / 2 ^ 25)
        * (cur_rho_total S' r - cur_rho_total (deposit3 n dbl (at_rest c) idx ext dt True S) r)\<bar>
    \<le> 6 * TINY dbl * \<bar>pc_weight c\<bar>"
proof -
  let ?d = "\<lambda>k j i. shape1 n c 0 i * shape1 n c 1 j * shape1 n c 2 k - shape0 n c 0 i * shape0 n c 1 j * shape0 n c 2 k"
  let ?h = "\<lambda>k j i. ind (off3 idx ext k j i = r)"
  have rho: "cur_rho_total (deposit3 n dbl c idx ext dt True S) r - cur_rho_total (deposit3 n dbl (at_rest c) idx ext dt True S) r
      = pc_weight c * (\<Sum>(k, j, i)\<in>box n c. ?h k j i * ?d k j i)"
    unfolding deposit3_rho[where c = c] deposit3_rho_rest[OF assms(1,2)] sum_box
    by (simp add: case_prod_unfold right_diff_distrib sum_subtractf)
  have m: "(\<Sum>(k, j, i)\<in>box n c. ?h k j i * m3x n c k j i) + (\<Sum>(k, j, i)\<in>box n c. ?h k j i * m3y n c k j i)
      + (\<Sum>(k, j, i)\<in>box n c. ?h k j i * m3z n c k j i)
      = (1 + 1 / 2 ^ 25) * (\<Sum>(k, j, i)\<in>box n c. ?h k j i * ?d k j i)"
    unfolding sum.distrib[symmetric] sum_distrib_left case_prod_unfold distrib_left[symmetric] m3_total
    by (rule sum.cong) simp_all
  show ?thesis
    unfolding Let_def distrib_left[of dt] deposit3_flux[OF assms(1-3)] rho
    by (rule residual_bound[OF cut_bound cut_bound cut_bound m]) (rule assms(4))+
qed

theorem deposit3_continuity_witness:
  "let S' = deposit3 3 False example_context 500 [8, 8, 8] (1 / 2) True no_currents; J = cur_J S' in
    \<bar>1 / 2 * ((J 0 501 - cur_J no_currents 0 501) - (J 0 (dec_x [8, 8, 8] 501 1) - cur_J no_currents 0 (dec_x [8, 8, 8] 501 1))
          + ((J 1 501 - cur_J no_currents 1 501) - (J 1 (dec_y [8, 8, 8] 501 1) - cur_J no_currents 1 (dec_y [8, 8, 8] 501 1)))
          + ((J 2 501 - cur_J no_currents 2 501) - (J 2 (dec_z [8, 8, 8] 501 1) - cur_J no_currents 2 (dec_z [8, 8, 8] 501 1))))
      + (1 + 1 / 2 ^ 25)
        * (cur_rho_total S' 501 - cur_rho_total (deposit3 3 False (at_rest example_context) 500 [8, 8, 8] (1 / 2) True no_currents) 501)\<bar>
    \<le> 6 * TINY False * \<bar>pc_weight example_context\<bar>"
  by (rule deposit3_continuity[of 3 example_context "1 / 2" "[8, 8, 8]" False 500 no_currents 501])
     (simp_all add: good_order_def example_in_cell wide_extent_def)

end
