(* ===== verification/GridLemmas.thy ===== *)
theory GridLemmas
  imports GridModel
begin

text \<open>
  The lemmas on the grid: coordinates and positions are inverse to each other,
  the zones separate the interior from the guard cells, the decomposition cuts the
  global grid into blocks, and a leaving particle is renumbered into the interior
  of the neighbour.
\<close>

definition grid_ok :: "Grid \<Rightarrow> bool" where
  "grid_ok g = (let n = g_dim g in
     0 < n \<and> length (g_dims g) = n \<and> length (g_guard g) = n \<and> length (g_delta g) = n
     \<and> length (g_inv_delta g) = n \<and> length (g_lower g) = n \<and> length (g_sizes g) = n
     \<and> (\<forall>i < n. 0 < g_delta g ! i \<and> g_inv_delta g ! i = 1 / g_delta g ! i
          \<and> g_sizes g ! i = g_delta g ! i * of_int (uint (g_N g ! i))
          \<and> 0 < uint (g_N g ! i) \<and> 0 \<le> sint (g_guard g ! i)
          \<and> uint (g_N g ! i) + 2 * sint (g_guard g ! i) < 2 ^ 31
          \<and> g_dims g ! i = g_N g ! i + 2 * g_guard g ! i))"

lemma grid_okD:
  assumes "grid_ok g" "i < g_dim g"
  shows "0 < g_delta g ! i" "g_inv_delta g ! i = 1 / g_delta g ! i"
    "g_sizes g ! i = g_delta g ! i * of_int (uint (g_N g ! i))"
    "0 < uint (g_N g ! i)" "0 \<le> sint (g_guard g ! i)"
    "uint (g_N g ! i) + 2 * sint (g_guard g ! i) < 2 ^ 31"
    "g_dims g ! i = g_N g ! i + 2 * g_guard g ! i"
  using assms by (simp_all add: grid_ok_def Let_def)

lemma grid_ok_lengths:
  assumes "grid_ok g"
  shows "length (g_dims g) = g_dim g" "length (g_guard g) = g_dim g" "0 < g_dim g"
  using assms by (simp_all add: grid_ok_def Let_def)

lemma grid_dims:
  assumes "grid_ok g" "i < g_dim g"
  shows "uint (g_dims g ! i) = uint (g_N g ! i) + 2 * sint (g_guard g ! i)"
    "uint (g_guard g ! i) = sint (g_guard g ! i)"
    "uint (g_N g ! i + g_guard g ! i) = uint (g_N g ! i) + sint (g_guard g ! i)"
    "uint (g_dims g ! i - g_guard g ! i) = uint (g_N g ! i) + sint (g_guard g ! i)"
proof -
  let ?n = "g_N g ! i" and ?k = "g_guard g ! i"
  note o = grid_okD[OF assms]
  show k: "uint ?k = sint ?k" using uint_eq_sint32 o(5) by simp
  have "0 \<le> uint ?n + 2 * sint ?k" "uint ?n + 2 * sint ?k < 2 ^ 32"
    using o(4,5) less_trans[OF o(6), of "2 ^ 32"] by simp_all
  then have "uint (word_of_int (uint ?n + 2 * sint ?k) :: u32) = uint ?n + 2 * sint ?k" by (rule uint_of_int32)
  moreover have "(word_of_int (uint ?n + 2 * sint ?k) :: u32) = ?n + 2 * ?k" by simp
  ultimately show "uint (g_dims g ! i) = uint ?n + 2 * sint ?k" unfolding o(7) by simp
  have "0 \<le> uint ?n + sint ?k" "uint ?n + sint ?k < 2 ^ 32"
    using o(4,5) less_trans[OF o(6), of "2 ^ 32"] by simp_all
  then have "uint (word_of_int (uint ?n + sint ?k) :: u32) = uint ?n + sint ?k" by (rule uint_of_int32)
  moreover have "(word_of_int (uint ?n + sint ?k) :: u32) = ?n + ?k" by simp
  ultimately show w: "uint (?n + ?k) = uint ?n + sint ?k" by simp
  have e: "g_dims g ! i - ?k = ?n + ?k" unfolding o(7) by simp
  show "uint (g_dims g ! i - ?k) = uint ?n + sint ?k" unfolding e by (rule w)
qed

subsection \<open>Loops over the directions\<close>

lemma foldl_update:
  "length (foldl (\<lambda>r i. r[i := f i]) r0 [0..<n]) = length r0
   \<and> (\<forall>j < length r0. foldl (\<lambda>r i. r[i := f i]) r0 [0..<n] ! j = (if j < n then f j else r0 ! j))"
  by (induction n) (auto simp: nth_list_update less_Suc_eq)

lemma foldl_update2:
  "foldl (\<lambda>(a, b) i. let (p, r) = f i in (a[i := p], b[i := r])) (a0, b0) is
     = (foldl (\<lambda>a i. a[i := fst (f i)]) a0 is, foldl (\<lambda>b i. b[i := snd (f i)]) b0 is)"
  by (induction "is" arbitrary: a0 b0) (auto simp: case_prod_beta Let_def)

lemma coord_global_nth:
  assumes "g_dim g \<le> length rel"
  shows "length (coord_global g pos rel) = length rel"
    "j < length rel \<Longrightarrow> coord_global g pos rel ! j = (if j < g_dim g then coord g j (pos ! j) (rel ! j) else rel ! j)"
  using foldl_update[of "\<lambda>i. coord g i (pos ! i) (rel ! i)" rel "g_dim g"] by (simp_all add: coord_global_def)

lemma from_global_eq:
  assumes "from_global g x = (pos, rel)" "g_dim g \<le> length x"
  shows "length pos = g_dim g" "length rel = length x"
    "\<And>i. i < g_dim g \<Longrightarrow> pos ! i = fst (from_global_dir g i (x ! i)) \<and> rel ! i = snd (from_global_dir g i (x ! i))"
    "\<And>i. g_dim g \<le> i \<Longrightarrow> i < length x \<Longrightarrow> rel ! i = x ! i"
proof -
  have e: "pos = foldl (\<lambda>a i. a[i := fst (from_global_dir g i (x ! i))]) (replicate (g_dim g) 0) [0..<g_dim g]"
    "rel = foldl (\<lambda>b i. b[i := snd (from_global_dir g i (x ! i))]) x [0..<g_dim g]"
    using assms(1) unfolding from_global_def foldl_update2 by simp_all
  note u = foldl_update[of "\<lambda>i. fst (from_global_dir g i (x ! i))" "replicate (g_dim g) 0" "g_dim g"]
    foldl_update[of "\<lambda>i. snd (from_global_dir g i (x ! i))" x "g_dim g"]
  show "length pos = g_dim g" "length rel = length x"
    "\<And>i. i < g_dim g \<Longrightarrow> pos ! i = fst (from_global_dir g i (x ! i)) \<and> rel ! i = snd (from_global_dir g i (x ! i))"
    "\<And>i. g_dim g \<le> i \<Longrightarrow> i < length x \<Longrightarrow> rel ! i = x ! i"
    using u assms(2) unfolding e by auto
qed

subsection \<open>Positions and coordinates\<close>

lemma from_global_dir_props:
  assumes ok: "grid_ok g" and i: "i < g_dim g"
    and x: "g_lower g ! i \<le> y" "y < g_lower g ! i + g_sizes g ! i"
    and e: "from_global_dir g i y = (p, r)"
  shows "coord g i p r = y" "0 \<le> r" "r < 1" "sint (g_guard g ! i) \<le> sint p"
    "sint p < uint (g_N g ! i) + sint (g_guard g ! i)"
proof -
  note o = grid_okD[OF ok i]
  define q where "q = (y - g_lower g ! i) / g_delta g ! i"
  have q0: "0 \<le> q" using x(1) o(1) by (simp add: q_def)
  have "q < of_int (uint (g_N g ! i))"
    using x(2) o(1,3) by (simp add: q_def pos_divide_less_eq mult.commute)
  then have fl: "0 \<le> \<lfloor>q\<rfloor>" "\<lfloor>q\<rfloor> < uint (g_N g ! i)" using q0 by (simp_all add: floor_less_iff)
  have "- (2 ^ 31) \<le> \<lfloor>q\<rfloor>" by (rule order.trans[OF _ fl(1)]) simp
  moreover have "\<lfloor>q\<rfloor> < 2 ^ 31" using fl(2) o(5,6) by linarith
  ultimately have w: "sint (word_of_int \<lfloor>q\<rfloor> :: i32) = \<lfloor>q\<rfloor>" by (rule sint_of_int32)
  have p: "p = word_of_int \<lfloor>q\<rfloor> + g_guard g ! i"
    and r: "r = (y - g_lower g ! i - of_int \<lfloor>q\<rfloor> * g_delta g ! i) * g_inv_delta g ! i"
    using e unfolding from_global_dir_def Let_def q_def[symmetric] w by simp_all
  have "- (2 ^ 31) \<le> \<lfloor>q\<rfloor> + sint (g_guard g ! i)"
    by (rule order.trans[of _ 0]) (use fl(1) o(5) in simp_all)
  moreover have "\<lfloor>q\<rfloor> + sint (g_guard g ! i) < 2 ^ 31" using fl(2) o(5,6) by linarith
  ultimately have "sint (word_of_int (\<lfloor>q\<rfloor> + sint (g_guard g ! i)) :: i32) = \<lfloor>q\<rfloor> + sint (g_guard g ! i)"
    by (rule sint_of_int32)
  then have sp: "sint p = \<lfloor>q\<rfloor> + sint (g_guard g ! i)" unfolding p by simp
  have rq: "r = q - of_int \<lfloor>q\<rfloor>"
    unfolding r o(2) using o(1) by (simp add: q_def diff_divide_distrib)
  show "0 \<le> r" "r < 1" unfolding rq by linarith+
  show "sint (g_guard g ! i) \<le> sint p" "sint p < uint (g_N g ! i) + sint (g_guard g ! i)"
    using sp fl by simp_all
  show "coord g i p r = y"
    using i o(1) by (simp add: coord_def sp rq q_def)
qed

lemma is_in_bound_x_iff:
  "is_in_bound_x g x = (\<forall>i < g_dim g. g_lower g ! i \<le> x ! i \<and> x ! i \<le> g_lower g ! i + g_sizes g ! i)"
proof -
  have "is_in_bound_x_from g ns x = (\<forall>i \<in> set ns. g_lower g ! i \<le> x ! i \<and> x ! i \<le> g_lower g ! i + g_sizes g ! i)"
    for ns by (induction ns) auto
  then show ?thesis by (auto simp: is_in_bound_x_def)
qed

lemma is_in_bound_from_iff:
  "is_in_bound_from g st ns pos = (\<forall>i \<in> set ns. sint (g_guard g ! i) \<le> sint (pos ! i)
      \<and> uint (pos ! i) < uint (g_N g ! i + g_guard g ! i + st i))"
  by (induction ns) auto

lemma is_in_bound_iff:
  assumes "grid_ok g"
  shows "is_in_bound g pos = (\<forall>i < g_dim g. sint (g_guard g ! i) \<le> sint (pos ! i)
      \<and> sint (pos ! i) < uint (g_N g ! i) + sint (g_guard g ! i))"
proof -
  have "(sint (g_guard g ! i) \<le> sint (pos ! i) \<and> uint (pos ! i) < uint (g_N g ! i + g_guard g ! i + 0))
      = (sint (g_guard g ! i) \<le> sint (pos ! i) \<and> sint (pos ! i) < uint (g_N g ! i) + sint (g_guard g ! i))"
    if "i < g_dim g" for i
  proof (cases "sint (g_guard g ! i) \<le> sint (pos ! i)")
    case True
    then have "uint (pos ! i) = sint (pos ! i)"
      using uint_eq_sint32[of "pos ! i"] grid_okD(5)[OF assms that] by simp
    then show ?thesis using grid_dims(3)[OF assms that] by simp
  qed simp
  then show ?thesis unfolding is_in_bound_def is_in_bound_from_iff by auto
qed

lemma in_extent_iff:
  "length pos = length ext \<Longrightarrow> in_extent ext pos = (\<forall>i < length ext. 0 \<le> sint (pos ! i) \<and> sint (pos ! i) < uint (ext ! i))"
  by (induction ext pos rule: in_extent.induct) (auto simp: less_Suc_eq_0_disj all_conj_distrib)

lemma is_in_bound_in_extent:
  assumes "grid_ok g" "is_in_bound g pos" "length pos = g_dim g"
  shows "in_extent (extent g) pos"
proof -
  have "0 \<le> sint (pos ! i) \<and> sint (pos ! i) < uint (g_dims g ! i)" if "i < g_dim g" for i
    using assms(2) that grid_okD(5)[OF assms(1) that] grid_dims(1)[OF assms(1) that]
    unfolding is_in_bound_iff[OF assms(1)] by fastforce
  then show ?thesis using assms grid_ok_lengths[OF assms(1)] by (simp add: in_extent_iff extent_def)
qed

subsection \<open>Zones\<close>

lemma zone_digit_cases:
  assumes "grid_ok g" "i < g_dim g"
  shows "zone_digit g i p =
    (if sint p < 0 then 1 else if sint p < sint (g_guard g ! i) then 0
     else if sint p < uint (g_N g ! i) + sint (g_guard g ! i) then 1 else 2)"
proof (cases "sint p < 0")
  case True
  have "2 ^ 31 \<le> uint p"
  proof (rule ccontr)
    assume "\<not> 2 ^ 31 \<le> uint p"
    then have "sint p = uint p" by (intro sint_eq_uint32) simp
    then show False using True by simp
  qed
  then have "uint (g_N g ! i) + sint (g_guard g ! i) \<le> uint p" using grid_okD(5,6)[OF assms] by linarith
  then show ?thesis using True grid_okD(5)[OF assms] grid_dims(4)[OF assms] by (simp add: zone_digit_def)
next
  case False
  then have "uint p = sint p" by (intro uint_eq_sint32) simp
  then show ?thesis
    using False grid_okD(4)[OF assms] by (simp add: zone_digit_def grid_dims(4)[OF assms])
qed

lemma find_zone_sum:
  "find_zone g pos = (\<Sum>i < g_dim g. zone_digit g i (pos ! i) * 3 ^ i)"
proof -
  have "foldl (\<lambda>(lin, stride) i. (lin + zone_digit g i (pos ! i) * stride, stride * 3)) (0, 1) [0..<n]
      = (\<Sum>i < n. zone_digit g i (pos ! i) * 3 ^ i, 3 ^ n)" for n
    by (induction n) auto
  then show ?thesis by (simp add: find_zone_def)
qed

lemma dim_cases:
  assumes "g_dim g \<in> {1, 2, 3}"
  shows "g_dim g = 1 \<and> find_zone g pos = zone_digit g 0 (pos ! 0)
    \<or> g_dim g = 2 \<and> find_zone g pos = zone_digit g 0 (pos ! 0) + 3 * zone_digit g 1 (pos ! 1)
    \<or> g_dim g = 3 \<and> find_zone g pos = zone_digit g 0 (pos ! 0) + 3 * zone_digit g 1 (pos ! 1) + 9 * zone_digit g 2 (pos ! 2)"
  using assms by (auto simp: find_zone_sum numeral_2_eq_2 numeral_3_eq_3)

lemma zone_digit_range: "0 \<le> zone_digit g i p \<and> zone_digit g i p \<le> 2"
  by (simp add: zone_digit_def)

text \<open>The digits are recovered from the shifted zone number.\<close>

lemma zone_directions:
  assumes "g_dim g \<in> {1, 2, 3}" "zone = find_zone g pos + get_zone_offset (g_dim g)"
  shows "zone_dx zone = zone_digit g 0 (pos ! 0) - 1"
    "zone_dy (g_dim g) zone = (if 1 < g_dim g then zone_digit g 1 (pos ! 1) - 1 else 0)"
    "zone_dz (g_dim g) zone = (if 2 < g_dim g then zone_digit g 2 (pos ! 2) - 1 else 0)"
    "(zone = 13) = (\<forall>i < g_dim g. zone_digit g i (pos ! i) = 1)"
proof -
  define a where "a = zone_digit g 0 (pos ! 0)"
  define b where "b = zone_digit g 1 (pos ! 1)"
  define c where "c = zone_digit g 2 (pos ! 2)"
  have d: "0 \<le> a" "a \<le> 2" "0 \<le> b" "b \<le> 2" "0 \<le> c" "c \<le> 2"
    using zone_digit_range by (simp_all add: a_def b_def c_def)
  have all: "(\<forall>i < (1::nat). P i) = P 0" "(\<forall>i < 2. P i) = (P 0 \<and> P 1)"
    "(\<forall>i < 3. P i) = (P 0 \<and> P 1 \<and> P 2)" for P :: "nat \<Rightarrow> bool"
    by (auto simp: less_Suc_eq numeral_3_eq_3 numeral_2_eq_2)
  have three: "v = 0 \<or> v = 1 \<or> v = 2" if "0 \<le> v" "v \<le> 2" for v :: int using that by linarith
  note abc = three[OF d(1,2)] three[OF d(3,4)] three[OF d(5,6)]
  have "g_dim g = 1 \<and> zone = a + 12 \<or> g_dim g = 2 \<and> zone = a + 3 * b + 9
      \<or> g_dim g = 3 \<and> zone = a + 3 * b + 9 * c"
    using dim_cases[OF assms(1), of pos] unfolding assms(2) get_zone_offset_def a_def b_def c_def
    by (elim disjE) simp_all
  then consider (one) "g_dim g = 1" "zone = a + 12" | (two) "g_dim g = 2" "zone = a + 3 * b + 9"
    | (three) "g_dim g = 3" "zone = a + 3 * b + 9 * c" by blast
  then have r: "zone_dx zone = a - 1 \<and> zone_dy (g_dim g) zone = (if 1 < g_dim g then b - 1 else 0)
    \<and> zone_dz (g_dim g) zone = (if 2 < g_dim g then c - 1 else 0)
    \<and> (zone = 13) = (\<forall>i < g_dim g. zone_digit g i (pos ! i) = 1)"
  proof cases
    case one
    show ?thesis unfolding one all a_def[symmetric] using abc(1)
      by (elim disjE) (simp_all add: zone_dx_def zone_dy_def zone_dz_def)
  next
    case two
    show ?thesis unfolding two all a_def[symmetric] b_def[symmetric] using abc(1,2)
      by (elim disjE) (simp_all add: zone_dx_def zone_dy_def zone_dz_def)
  next
    case three
    show ?thesis unfolding three all a_def[symmetric] b_def[symmetric] c_def[symmetric] using abc
      by (elim disjE) (simp_all add: zone_dx_def zone_dy_def zone_dz_def)
  qed
  then show "zone_dx zone = zone_digit g 0 (pos ! 0) - 1"
    "zone_dy (g_dim g) zone = (if 1 < g_dim g then zone_digit g 1 (pos ! 1) - 1 else 0)"
    "zone_dz (g_dim g) zone = (if 2 < g_dim g then zone_digit g 2 (pos ! 2) - 1 else 0)"
    "(zone = 13) = (\<forall>i < g_dim g. zone_digit g i (pos ! i) = 1)"
    unfolding a_def b_def c_def by blast+
qed

subsection \<open>Renumbering a leaving particle\<close>

lemma ucast_cell:
  assumes "0 \<le> sint (lin :: i64)" "sint lin < 2 ^ 32"
  shows "(ucast (ucast lin :: u32) :: i64) = lin"
proof -
  have u: "uint lin = sint lin" using assms(1) by (rule uint_eq_sint64)
  have "(ucast lin :: u32) = word_of_int (uint lin)" by simp
  moreover have "uint (word_of_int (uint lin) :: u32) = uint lin"
    using assms u by (intro uint_of_int32) simp_all
  ultimately have "uint (ucast lin :: u32) = uint lin" by simp
  then show ?thesis by (simp add: word_uint_eq_iff)
qed

lemma cell_roundtrip:
  assumes "good_extent ext" "in_extent ext pos"
  shows "get_pos ext (ucast (ucast (col_to_linear ext pos) :: u32)) = pos"
proof -
  have "sint (col_to_linear ext pos) < 2 ^ 31"
    using colg.lin_bounds[OF assms] assms(1) unfolding good_extent_def by linarith
  then have "sint (col_to_linear ext pos) < 2 ^ 32" by (rule less_trans) simp
  then show ?thesis using ucast_cell colg.lin_bounds[OF assms] colg.pos_lin[OF assms] by simp
qed

lemma col_dec_moves:
  assumes "good_extent ext" "d < length ext" "in_extent ext p" "in_extent ext (p[d := p ! d - k])"
    "sint k \<noteq> - (2 ^ 31)"
  shows "col_dec ext d (col_to_linear ext p) k = col_to_linear ext (p[d := p ! d - k])"
proof -
  have "k \<noteq> - (2 ^ 31)" using assms(5) by auto
  then show ?thesis
    using col_dec_inc[of k ext d] col_inc_moves[OF assms(1-3), of "- k"] assms(4)
    by (simp add: index_inc_def)
qed

text \<open>The shift of one direction: \<open>- N\<close>, 0 or \<open>N\<close> cells.\<close>

definition shift :: "Grid \<Rightarrow> index_t \<Rightarrow> nat \<Rightarrow> i32" where
  "shift g pos i = word_of_int (zone_digit g i (pos ! i) - 1) * reduced_dim g i"

lemma shift_moves:
  assumes "grid_ok g" "i < g_dim g" "sint (g_guard g ! i) \<le> uint (g_N g ! i)"
    "0 \<le> sint (pos ! i)" "sint (pos ! i) < uint (g_dims g ! i)"
  shows "sint (shift g pos i) \<noteq> - (2 ^ 31)"
    "sint (g_guard g ! i) \<le> sint (pos ! i - shift g pos i)"
    "sint (pos ! i - shift g pos i) < uint (g_N g ! i) + sint (g_guard g ! i)"
    "sint (pos ! i - shift g pos i) = sint (pos ! i) - (zone_digit g i (pos ! i) - 1) * uint (g_N g ! i)"
proof -
  let ?N = "uint (g_N g ! i)" and ?k = "sint (g_guard g ! i)" and ?d = "zone_digit g i (pos ! i) - 1"
  note o = grid_okD[OF assms(1,2)] and z = zone_digit_cases[OF assms(1,2), of "pos ! i"]
  have N31: "?N < 2 ^ 31" using o(5,6) by linarith
  have d: "?d = - 1 \<or> ?d = 0 \<or> ?d = 1" using zone_digit_range[of g i "pos ! i"] by linarith
  have lo: "- (2 ^ 31) < ?d * ?N" and hi: "?d * ?N < 2 ^ 31" using d N31 o(4) by auto
  have "sint (word_of_int (?d * ?N) :: i32) = ?d * ?N"
    by (rule sint_of_int32[OF less_imp_le[OF lo] hi])
  moreover have "shift g pos i = word_of_int (?d * ?N)" by (simp add: shift_def reduced_dim_def)
  ultimately have s: "sint (shift g pos i) = ?d * ?N" by simp
  then show "sint (shift g pos i) \<noteq> - (2 ^ 31)" using lo by linarith
  have r: "?k \<le> sint (pos ! i) - ?d * ?N" "sint (pos ! i) - ?d * ?N < ?N + ?k"
    using z assms(3-5) o(4,5) unfolding grid_dims(1)[OF assms(1,2)]
    by (cases "sint (pos ! i) < ?k"; cases "sint (pos ! i) < ?N + ?k"; simp)+
  have "- (2 ^ 31) \<le> sint (pos ! i) - ?d * ?N"
    by (rule order.trans[of _ 0]) (use r(1) o(5) in simp_all)
  moreover have "sint (pos ! i) - ?d * ?N < 2 ^ 31" using r(2) o(5,6) by linarith
  ultimately have "sint (word_of_int (sint (pos ! i) - ?d * ?N) :: i32) = sint (pos ! i) - ?d * ?N"
    by (rule sint_of_int32)
  then show e: "sint (pos ! i - shift g pos i) = sint (pos ! i) - ?d * ?N"
    by (simp add: shift_def reduced_dim_def)
  show "?k \<le> sint (pos ! i - shift g pos i)" "sint (pos ! i - shift g pos i) < ?N + ?k"
    unfolding e by (rule r)+
qed

definition moved :: "Grid \<Rightarrow> index_t \<Rightarrow> index_t" where
  "moved g pos = map (\<lambda>i. pos ! i - shift g pos i) [0..<g_dim g]"

lemma moved_in_bound:
  assumes "grid_ok g" "\<forall>i < g_dim g. sint (g_guard g ! i) \<le> uint (g_N g ! i)" "in_extent (extent g) pos"
  shows "is_in_bound g (moved g pos)"
  using shift_moves[OF assms(1)] assms(2) in_extent_nth[OF assms(3)] grid_ok_lengths(1)[OF assms(1)]
  by (simp add: is_in_bound_iff[OF assms(1)] moved_def extent_def)

lemma in_extent_update:
  assumes "in_extent ext p" "d < length ext" "0 \<le> sint v" "sint v < uint (ext ! d)"
  shows "in_extent ext (p[d := v])"
  using assms in_extent_length[OF assms(1)] in_extent_nth[OF assms(1)]
  by (auto simp: in_extent_iff nth_list_update)

lemma move_cell_moved:
  assumes ok: "grid_ok g" and good: "good_extent (extent g)" and dm: "g_dim g \<in> {1, 2, 3}"
    and guard: "\<forall>i < g_dim g. sint (g_guard g ! i) \<le> uint (g_N g ! i)"
    and pos: "in_extent (extent g) pos"
    and zone: "zone = find_zone g pos + get_zone_offset (g_dim g)"
  shows "move_cell g zone (ucast (col_to_linear (extent g) pos)) = ucast (col_to_linear (extent g) (moved g pos))"
proof -
  let ?ext = "extent g" and ?n = "g_dim g"
  have len: "length pos = ?n" "length ?ext = ?n"
    using in_extent_length[OF pos] grid_ok_lengths[OF ok] by (simp_all add: extent_def)
  have sh: "sint (shift g pos i) \<noteq> - (2 ^ 31) \<and> 0 \<le> sint (pos ! i - shift g pos i)
      \<and> sint (pos ! i - shift g pos i) < uint (?ext ! i)" if "i < ?n" for i
  proof -
    note o = grid_okD(4,5)[OF ok that] and m = shift_moves[OF ok that, of pos]
    have "0 \<le> sint (pos ! i)" "sint (pos ! i) < uint (g_dims g ! i)"
      using in_extent_nth[OF pos] that len by (simp_all add: extent_def)
    then show ?thesis using m guard that o grid_dims(1)[OF ok that] unfolding extent_def by fastforce
  qed
  have step: "in_extent ?ext (q[d := q ! d - shift g pos d])
      \<and> col_dec ?ext d (col_to_linear ?ext q) (shift g pos d) = col_to_linear ?ext (q[d := q ! d - shift g pos d])"
    if "d < ?n" "in_extent ?ext q" "q ! d = pos ! d" for d q
  proof -
    have "in_extent ?ext (q[d := q ! d - shift g pos d])"
      using in_extent_update[OF that(2)] sh[OF that(1)] that len by simp
    then show ?thesis using col_dec_moves[OF good _ that(2)] sh[OF that(1)] that(1) len by simp
  qed
  note zd = zone_directions[OF dm zone]
  have sx: "word_of_int (zone_dx zone) * reduced_dim g 0 = shift g pos 0"
    and sy: "1 < ?n \<Longrightarrow> word_of_int (zone_dy ?n zone) * reduced_dim g 1 = shift g pos 1"
    and sz: "2 < ?n \<Longrightarrow> word_of_int (zone_dz ?n zone) * reduced_dim g 2 = shift g pos 2"
    unfolding shift_def zd by simp_all
  have start: "(ucast (ucast (col_to_linear ?ext pos) :: u32) :: i64) = col_to_linear ?ext pos"
  proof -
    have "sint (col_to_linear ?ext pos) < 2 ^ 31"
      using colg.lin_bounds[OF good pos] good unfolding good_extent_def by linarith
    then have "sint (col_to_linear ?ext pos) < 2 ^ 32" by (rule less_trans) simp
    then show ?thesis using colg.lin_bounds[OF good pos] ucast_cell by blast
  qed
  from dm consider "?n = 1" | "?n = 2" | "?n = 3" by auto
  then show ?thesis
  proof cases
    case 1
    have "moved g pos = pos[0 := pos ! 0 - shift g pos 0]"
      using len 1 by (intro nth_equalityI) (auto simp: moved_def)
    then show ?thesis using step[of 0 pos] pos 1 sx start by (simp add: move_cell_def Let_def)
  next
    case 2
    let ?p = "pos[1 := pos ! 1 - shift g pos 1]"
    have "moved g pos = ?p[0 := ?p ! 0 - shift g pos 0]"
      using len 2 by (intro nth_equalityI) (auto simp: moved_def less_2_cases_iff nth_list_update)
    then show ?thesis
      using step[of 1 pos] step[of 0 ?p] pos 2 sx sy start len by (simp add: move_cell_def Let_def)
  next
    case 3
    let ?p = "pos[2 := pos ! 2 - shift g pos 2]"
    let ?q = "?p[1 := ?p ! 1 - shift g pos 1]"
    have "moved g pos = ?q[0 := ?q ! 0 - shift g pos 0]"
      using len 3 by (intro nth_equalityI)
        (auto simp: moved_def nth_list_update less_Suc_eq numeral_3_eq_3 numeral_2_eq_2)
    then show ?thesis
      using step[of 2 pos] step[of 1 ?p] step[of 0 ?q] pos 3 sx sy sz start len
      by (simp add: move_cell_def Let_def)
  qed
qed

subsection \<open>The loop over the particles\<close>

definition ptc_zone :: "Grid \<Rightarrow> 'a ptc_common_scheme \<Rightarrow> nat" where
  "ptc_zone g q = nat (find_zone g (get_pos (extent g) (ucast (cell q))))"

definition leaves :: "Grid \<Rightarrow> 'a ptc_common_scheme \<Rightarrow> bool" where
  "leaves g q = (live q \<and> find_zone g (get_pos (extent g) (ucast (cell q))) + get_zone_offset (g_dim g) \<noteq> 13)"

definition relocated :: "Grid \<Rightarrow> 'a ptc_common_scheme \<Rightarrow> 'a ptc_common_scheme" where
  "relocated g q = q\<lparr>cell := move_cell g (int (ptc_zone g q) + get_zone_offset (g_dim g)) (cell q)\<rparr>"

lemma find_zone_nonneg: "0 \<le> find_zone g pos"
  unfolding find_zone_sum by (intro sum_nonneg mult_nonneg_nonneg) (simp_all add: zone_digit_range)

lemma comm_step_eq:
  "comm_step g n (d, buffers, nums) =
     (if \<not> leaves g (d ! n) then Some (d, buffers, nums)
      else let z = ptc_zone g (d ! n); k = to_size (sint (nums ! z))
        in if z < length buffers \<and> z < length nums \<and> k < length (buffers ! z)
           then Option.bind (int_add (nums ! z) 1) (\<lambda>l. Some (d[n := (d ! n)\<lparr>cell := empty_cell\<rparr>],
                  buffers[z := (buffers ! z)[k := relocated g (d ! n)]], nums[z := l]))
           else None)"
  using find_zone_nonneg
  by (simp add: comm_step_def leaves_def live_def ptc_zone_def relocated_def Let_def)

lemma comm_loop_snoc: "comm_loop g (ns @ [n]) st = Option.bind (comm_loop g ns st) (comm_step g n)"
  by (induction ns arbitrary: st) (auto split: Option.bind_splits)

definition zone_ptcs :: "Grid \<Rightarrow> nat \<Rightarrow> 'a ptc_common_scheme list \<Rightarrow> 'a ptc_common_scheme list" where
  "zone_ptcs g z qs = filter (\<lambda>q. leaves g q \<and> ptc_zone g q = z) qs"

lemma comm_loop_correct:
  assumes "n \<le> length d" "length nums = length buffers" "\<forall>z < length buffers. nums ! z = 0"
    "\<forall>q \<in> set (take n d). leaves g q \<longrightarrow> ptc_zone g q < length buffers"
    "\<forall>z < length buffers. length (zone_ptcs g z (take n d)) \<le> length (buffers ! z)"
    "\<forall>z < length buffers. length (zone_ptcs g z (take n d)) < 2 ^ 31"
  shows "\<exists>d' buffers' nums'. comm_loop g [0..<n] (d, buffers, nums) = Some (d', buffers', nums')
    \<and> length d' = length d \<and> length buffers' = length buffers \<and> length nums' = length buffers
    \<and> (\<forall>i < length d. d' ! i = (if i < n \<and> leaves g (d ! i) then (d ! i)\<lparr>cell := empty_cell\<rparr> else d ! i))
    \<and> (\<forall>z < length buffers. length (buffers' ! z) = length (buffers ! z)
         \<and> unat (nums' ! z) = length (zone_ptcs g z (take n d))
         \<and> take (unat (nums' ! z)) (buffers' ! z) = map (relocated g) (zone_ptcs g z (take n d)))"
  using assms
proof (induction n)
  case 0
  then show ?case by (simp add: zone_ptcs_def)
next
  case (Suc n)
  have tk: "take (Suc n) d = take n d @ [d ! n]" using Suc.prems(1) by (simp add: take_Suc_conv_app_nth)
  have zp: "zone_ptcs g z (take (Suc n) d)
      = zone_ptcs g z (take n d) @ (if leaves g (d ! n) \<and> ptc_zone g (d ! n) = z then [d ! n] else [])" for z
    unfolding tk by (simp add: zone_ptcs_def)
  have cap: "length (zone_ptcs g z (take n d)) \<le> length (buffers ! z)" if "z < length buffers" for z
    using Suc.prems(5) that zp[of z] by fastforce
  have cap31: "length (zone_ptcs g z (take n d)) < 2 ^ 31" if "z < length buffers" for z
  proof -
    have "length (zone_ptcs g z (take n d)) \<le> length (zone_ptcs g z (take (Suc n) d))" unfolding zp by simp
    then show ?thesis using Suc.prems(6) that by (meson order.strict_trans1)
  qed
  have pre: "n \<le> length d" "\<forall>q \<in> set (take n d). leaves g q \<longrightarrow> ptc_zone g q < length buffers"
    "\<forall>z < length buffers. length (zone_ptcs g z (take n d)) \<le> length (buffers ! z)"
    using Suc.prems(1,4) tk cap by simp_all
  have pre31: "\<forall>z < length buffers. length (zone_ptcs g z (take n d)) < 2 ^ 31" using cap31 by blast
  obtain d' buffers' nums' where ih: "comm_loop g [0..<n] (d, buffers, nums) = Some (d', buffers', nums')"
    "length d' = length d" "length buffers' = length buffers" "length nums' = length buffers"
    "\<forall>i < length d. d' ! i = (if i < n \<and> leaves g (d ! i) then (d ! i)\<lparr>cell := empty_cell\<rparr> else d ! i)"
    "\<forall>z < length buffers. length (buffers' ! z) = length (buffers ! z)
       \<and> unat (nums' ! z) = length (zone_ptcs g z (take n d))
       \<and> take (unat (nums' ! z)) (buffers' ! z) = map (relocated g) (zone_ptcs g z (take n d))"
    using Suc.IH[OF pre(1) Suc.prems(2,3) pre(2,3) pre31] by blast
  have IH5: "d' ! i = (if i < n \<and> leaves g (d ! i) then (d ! i)\<lparr>cell := empty_cell\<rparr> else d ! i)"
    if "i < length d" for i using ih(5) that by blast
  have IH678: "length (buffers' ! z) = length (buffers ! z)"
    "unat (nums' ! z) = length (zone_ptcs g z (take n d))"
    "take (unat (nums' ! z)) (buffers' ! z) = map (relocated g) (zone_ptcs g z (take n d))"
    if "z < length buffers" for z using ih(6) that by blast+
  note IH = ih(1-4) IH5 IH678
  have dn: "d' ! n = d ! n" using IH(5)[of n] Suc.prems(1) by simp
  have run: "comm_loop g [0..<Suc n] (d, buffers, nums) = comm_step g n (d', buffers', nums')"
    using IH(1) by (simp add: comm_loop_snoc)
  show ?case
  proof (cases "leaves g (d ! n)")
    case False
    have "comm_step g n (d', buffers', nums') = Some (d', buffers', nums')"
      using False dn by (simp add: comm_step_eq)
    moreover have "zone_ptcs g z (take (Suc n) d) = zone_ptcs g z (take n d)" for z
      using zp[of z] False by simp
    moreover have "d' ! i = (if i < Suc n \<and> leaves g (d ! i) then (d ! i)\<lparr>cell := empty_cell\<rparr> else d ! i)"
      if "i < length d" for i
      using IH(5)[OF that] False by (auto simp: less_Suc_eq)
    ultimately show ?thesis using run IH by auto
  next
    case True
    let ?z = "ptc_zone g (d ! n)"
    have z: "?z < length buffers" using Suc.prems(4) True tk by simp
    have more: "length (zone_ptcs g ?z (take (Suc n) d)) = unat (nums' ! ?z) + 1"
      using zp[of ?z] True IH(7)[OF z] by simp
    then have l31: "unat (nums' ! ?z) + 1 < 2 ^ 31" using Suc.prems(6) z by metis
    obtain l where l: "int_add (nums' ! ?z) (int 1) = Some l" "unat l = unat (nums' ! ?z) + 1"
      using int_add_plus[OF l31] by blast
    have k: "to_size (sint (nums' ! ?z)) = unat (nums' ! ?z)"
      by (rule to_size_sint) (use l31 in simp)
    have room: "unat (nums' ! ?z) < length (buffers' ! ?z)"
      using Suc.prems(5) z zp[of ?z] True IH(6,7)[OF z] by fastforce
    let ?d = "d'[n := (d ! n)\<lparr>cell := empty_cell\<rparr>]"
    let ?b = "buffers'[?z := (buffers' ! ?z)[unat (nums' ! ?z) := relocated g (d ! n)]]"
    let ?m = "nums'[?z := l]"
    have step: "comm_step g n (d', buffers', nums') = Some (?d, ?b, ?m)"
      using True dn z room IH(3,4) l(1) k by (simp add: comm_step_eq Let_def)
    have data: "?d ! i = (if i < Suc n \<and> leaves g (d ! i) then (d ! i)\<lparr>cell := empty_cell\<rparr> else d ! i)"
      if "i < length d" for i
      using IH(5)[OF that] True that IH(2) by (cases "i = n") (simp_all add: less_Suc_eq)
    have zones: "length (?b ! y) = length (buffers ! y)
        \<and> unat (?m ! y) = length (zone_ptcs g y (take (Suc n) d))
        \<and> take (unat (?m ! y)) (?b ! y) = map (relocated g) (zone_ptcs g y (take (Suc n) d))"
      if y: "y < length buffers" for y
    proof (cases "y = ?z")
      case False
      then show ?thesis using IH(6-8)[OF y] zp[of y] by (auto simp: nth_list_update)
    next
      case e: True
      have "take (Suc k) (l[k := q]) = take k l @ [q]" if "k < length l" for k and l :: "'a ptc_common_scheme list" and q
        using that by (simp add: take_Suc_conv_app_nth)
      then show ?thesis
        using IH(6-8)[OF y] zp[of y] True room z IH(3,4) e l(2) by simp
    qed
    have "comm_loop g [0..<Suc n] (d, buffers, nums) = Some (?d, ?b, ?m)" using run step by (rule trans)
    moreover have "length ?d = length d" "length ?b = length buffers" "length ?m = length buffers"
      using IH(2-4) by simp_all
    ultimately show ?thesis using data zones by blast
  qed
qed

subsection \<open>The decomposition\<close>

definition domain_ok :: "u32 list \<Rightarrow> index_t \<Rightarrow> scalar list \<Rightarrow> scalar list \<Rightarrow> domain_info \<Rightarrow> bool" where
  "domain_ok vec_N guard sizes low info = (let n = length vec_N in
     0 < n \<and> length guard = n \<and> length sizes = n \<and> length low = n
     \<and> length (mpi_dims info) = n \<and> length (mpi_coord info) = n
     \<and> (\<forall>i < n. 0 < uint (vec_N ! i) \<and> 0 \<le> sint (guard ! i)
          \<and> uint (vec_N ! i) + 2 * sint (guard ! i) < 2 ^ 31 \<and> 0 < sizes ! i
          \<and> 0 < sint (mpi_dims info ! i) \<and> sint (mpi_dims info ! i) dvd uint (vec_N ! i)
          \<and> 0 \<le> sint (mpi_coord info ! i) \<and> sint (mpi_coord info ! i) < sint (mpi_dims info ! i)))"

lemma zorder_dims_False: "zorder_dims False ds = Some ds"
  by (induction ds) simp_all

lemma block_size:
  assumes "0 < uint (n :: u32)" "0 < sint (m :: i32)" "sint m dvd uint n" "uint n < 2 ^ 31"
    "0 \<le> sint (c :: i32)" "sint c < sint m" "b = (word_of_int (uint n div uint m) :: u32)"
  shows "uint b = uint n div sint m" "uint b * sint m = uint n" "0 < uint b" "uint b \<le> uint n"
    "sint (c * b) = sint c * uint b"
proof -
  have m: "uint m = sint m" using assms(2) by (intro uint_eq_sint32) simp
  have q: "uint n div sint m * sint m = uint n" using assms(3) by simp
  have "0 \<le> uint n div sint m" using assms(2) by (simp add: pos_imp_zdiv_nonneg_iff)
  moreover have "uint n div sint m \<noteq> 0" using q assms(1) by auto
  ultimately have pos: "0 < uint n div sint m" by linarith
  have "uint n div sint m * 1 \<le> uint n div sint m * sint m" using assms(2) pos by (intro mult_left_mono) linarith+
  then have le: "uint n div sint m \<le> uint n" using q by simp
  have lt: "uint n div sint m < 2 ^ 32" by (rule le_less_trans[OF le uint32_lt])
  show u: "uint b = uint n div sint m"
    unfolding assms(7) m by (rule uint_of_int32[OF less_imp_le[OF pos] lt])
  show ub: "uint b * sint m = uint n" "0 < uint b" "uint b \<le> uint n" using u q pos le by simp_all
  have "sint c * uint b \<le> sint m * uint b" using assms(6) by (intro mult_right_mono) simp_all
  then have "sint c * uint b < 2 ^ 31" using ub(1) assms(4) by (simp add: mult.commute)
  moreover have "- (2 ^ 31) \<le> sint c * uint b" by (rule order.trans[of _ 0]) (use assms(5) in simp_all)
  ultimately have "sint (word_of_int (sint c * uint b) :: i32) = sint c * uint b" by (intro sint_of_int32)
  then show "sint (c * b) = sint c * uint b" by simp
qed

lemma block_real:
  assumes "(of_int v :: real) = of_int n * of_int m" "n \<noteq> 0" "m \<noteq> 0"
  shows "s / of_int m = s / of_int v * (of_int n :: real)"
  unfolding assms(1) using assms(2,3) by simp

lemma grid_t_new_block:
  assumes ok: "domain_ok vec_N guard sizes low info"
    and dt: "\<forall>d \<in> set (g_delta (make_grid vec_N guard sizes low)). dt \<le> d"
  shows "\<exists>g. grid_t_new False vec_N guard sizes low dt info = Some g \<and> grid_ok g \<and> g_dim g = length vec_N
    \<and> (\<forall>i < length vec_N. uint (g_N g ! i) * sint (mpi_dims info ! i) = uint (vec_N ! i)
        \<and> sint (g_offset g ! i) = sint (mpi_coord info ! i) * uint (g_N g ! i)
        \<and> g_lower g ! i = low ! i + sizes ! i / of_int (uint (vec_N ! i)) * of_int (sint (g_offset g ! i))
        \<and> g_delta g ! i = sizes ! i / of_int (uint (vec_N ! i)) \<and> g_guard g ! i = guard ! i)"
proof -
  let ?n = "length vec_N"
  define nN where "nN = map2 (\<lambda>n m. word_of_int (uint n div uint m) :: u32) vec_N (mpi_dims info)"
  define sz where "sz = map2 (\<lambda>s m. s / of_int (sint m)) sizes (mpi_dims info)"
  define lo where "lo = map2 (\<lambda>l (c, s). l + of_int (sint c) * s) low (zip (mpi_coord info) sz)"
  define g where "g = (make_grid vec_N guard sizes low)\<lparr>g_N := nN,
     g_dims := map2 (\<lambda>n gd. n + 2 * gd) nN guard, g_sizes := sz, g_lower := lo,
     g_offset := map2 (\<lambda>c n. c * n) (mpi_coord info) nN\<rparr>"
  have "\<not> (\<exists>d \<in> set (g_delta (make_grid vec_N guard sizes low)). dt > d)" using dt by auto
  then have new: "grid_t_new False vec_N guard sizes low dt info = Some g"
    by (simp add: grid_t_new_def Let_def zorder_dims_False g_def nN_def sz_def lo_def)
  have len: "length guard = ?n" "length sizes = ?n" "length low = ?n" "length (mpi_dims info) = ?n"
    "length (mpi_coord info) = ?n" "length nN = ?n" "length sz = ?n" "length lo = ?n" "0 < ?n"
    using ok by (simp_all add: domain_ok_def Let_def nN_def sz_def lo_def)
  have o: "0 < uint (vec_N ! i)" "0 \<le> sint (guard ! i)" "uint (vec_N ! i) + 2 * sint (guard ! i) < 2 ^ 31"
    "0 < sizes ! i" "0 < sint (mpi_dims info ! i)" "sint (mpi_dims info ! i) dvd uint (vec_N ! i)"
    "0 \<le> sint (mpi_coord info ! i)" "sint (mpi_coord info ! i) < sint (mpi_dims info ! i)"
    if "i < ?n" for i using ok that by (simp_all add: domain_ok_def Let_def)
  have b: "uint (nN ! i) * sint (mpi_dims info ! i) = uint (vec_N ! i)" "0 < uint (nN ! i)"
    "uint (nN ! i) \<le> uint (vec_N ! i)"
    "sint (mpi_coord info ! i * nN ! i) = sint (mpi_coord info ! i) * uint (nN ! i)" if i: "i < ?n" for i
  proof -
    have "nN ! i = word_of_int (uint (vec_N ! i) div uint (mpi_dims info ! i))" using i len by (simp add: nN_def)
    moreover have "uint (vec_N ! i) < 2 ^ 31" using o(2,3)[OF i] by linarith
    ultimately show "uint (nN ! i) * sint (mpi_dims info ! i) = uint (vec_N ! i)" "0 < uint (nN ! i)"
      "uint (nN ! i) \<le> uint (vec_N ! i)"
      "sint (mpi_coord info ! i * nN ! i) = sint (mpi_coord info ! i) * uint (nN ! i)"
      using block_size[OF o(1)[OF i] o(5,6)[OF i] _ o(7,8)[OF i]] by blast+
  qed
  have flds: "g_N g ! i = nN ! i" "g_guard g ! i = guard ! i" "g_dims g ! i = nN ! i + 2 * guard ! i"
    "g_delta g ! i = sizes ! i / of_int (uint (vec_N ! i))" "g_inv_delta g ! i = 1 / g_delta g ! i"
    "g_sizes g ! i = sizes ! i / of_int (sint (mpi_dims info ! i))"
    "g_lower g ! i = low ! i + of_int (sint (mpi_coord info ! i)) * (sizes ! i / of_int (sint (mpi_dims info ! i)))"
    "g_offset g ! i = mpi_coord info ! i * nN ! i" if "i < ?n" for i
    using that len by (simp_all add: g_def make_grid_def Let_def sz_def lo_def)
  have dm: "g_dim g = ?n" using len by (simp add: g_dim_def g_def)
  have real: "sizes ! i / of_int (sint (mpi_dims info ! i))
      = sizes ! i / of_int (uint (vec_N ! i)) * of_int (uint (nN ! i))" if i: "i < ?n" for i
  proof -
    have "(of_int (uint (vec_N ! i)) :: real) = of_int (uint (nN ! i)) * of_int (sint (mpi_dims info ! i))"
      unfolding b(1)[OF i, symmetric] by (simp only: of_int_mult)
    moreover have "uint (nN ! i) \<noteq> 0" "sint (mpi_dims info ! i) \<noteq> 0" using b(2)[OF i] o(5)[OF i] by linarith+
    ultimately show ?thesis using block_real by blast
  qed
  have gok: "grid_ok g"
    unfolding grid_ok_def Let_def dm
  proof (intro conjI allI impI)
    fix i assume i: "i < ?n"
    have "(0 :: real) < of_int (uint (vec_N ! i))" using o(1)[OF i] by (simp only: of_int_0_less_iff)
    then show "0 < g_delta g ! i" unfolding flds(4)[OF i] using o(4)[OF i] by (rule divide_pos_pos[rotated])
    show "g_sizes g ! i = g_delta g ! i * of_int (uint (g_N g ! i))"
      unfolding flds[OF i] real[OF i] by simp
    show "uint (g_N g ! i) + 2 * sint (g_guard g ! i) < 2 ^ 31"
      unfolding flds[OF i] using b(3)[OF i] o(3)[OF i] by linarith
    show "0 < uint (g_N g ! i)" "0 \<le> sint (g_guard g ! i)" unfolding flds[OF i] using b(2) o(2) i by blast+
    show "g_inv_delta g ! i = 1 / g_delta g ! i" by (rule flds(5)[OF i])
    show "g_dims g ! i = g_N g ! i + 2 * g_guard g ! i" unfolding flds[OF i] ..
  qed (use len in \<open>simp_all add: g_def make_grid_def Let_def\<close>)
  have "g_lower g ! i = low ! i + sizes ! i / of_int (uint (vec_N ! i)) * of_int (sint (g_offset g ! i))" if i: "i < ?n" for i
    unfolding flds(7,8)[OF i] real[OF i] b(4)[OF i] by (simp add: mult_ac)
  then show ?thesis using new gok dm b flds by (intro exI[of _ g]) simp
qed

subsection \<open>Properties\<close>

text \<open>
  A global point inside the domain of a grid (below its upper limit) is
  converted to a cell of the interior and a relative position in \<open>[0, 1)\<close>, and
  \<open>coord_global\<close> of these two is the point again.
\<close>

theorem global_roundtrip:
  assumes "grid_ok g" "g_dim g \<le> length x" "is_in_bound_x g x"
    "\<forall>i < g_dim g. x ! i \<noteq> g_lower g ! i + g_sizes g ! i" "from_global g x = (pos, rel)"
  shows "coord_global g pos rel = x \<and> is_in_bound g pos \<and> in_extent (extent g) pos
    \<and> (\<forall>i < g_dim g. 0 \<le> rel ! i \<and> rel ! i < 1)"
proof -
  note f = from_global_eq[OF assms(5,2)]
  have d: "coord g i (pos ! i) (rel ! i) = x ! i \<and> 0 \<le> rel ! i \<and> rel ! i < 1
      \<and> sint (g_guard g ! i) \<le> sint (pos ! i) \<and> sint (pos ! i) < uint (g_N g ! i) + sint (g_guard g ! i)"
    if i: "i < g_dim g" for i
  proof -
    have x: "g_lower g ! i \<le> x ! i" "x ! i < g_lower g ! i + g_sizes g ! i"
      using assms(3,4) i unfolding is_in_bound_x_iff by force+
    have "from_global_dir g i (x ! i) = (pos ! i, rel ! i)" using f(3)[OF i] by simp
    from from_global_dir_props[OF assms(1) i x this] show ?thesis by blast
  qed
  have "coord_global g pos rel = x"
    using coord_global_nth[where g = g and rel = rel and pos = pos] f(2,4) d assms(2) by (intro nth_equalityI) simp_all
  moreover have "is_in_bound g pos" unfolding is_in_bound_iff[OF assms(1)] using d by blast
  ultimately show ?thesis using is_in_bound_in_extent[OF assms(1) _ f(1)] d by blast
qed

definition example_grid :: Grid where
  "example_grid = \<lparr>g_dims = [8, 6], g_N = [4, 2], g_guard = [2, 2], g_delta = [1 / 2, 1],
     g_inv_delta = [2, 1], g_lower = [0, 0], g_sizes = [2, 2], g_offset = [0, 0]\<rparr>"

lemma all_less_2: "(\<forall>i < (2::nat). P i) = (P 0 \<and> P 1)"
  by (auto simp: less_Suc_eq numeral_2_eq_2)

lemma example_grid_ok: "grid_ok example_grid" "g_dim example_grid = 2"
  by (auto simp: example_grid_def grid_ok_def g_dim_def Let_def less_Suc_eq)

theorem global_roundtrip_witness:
  "coord_global example_grid [4, 3] [1 / 2, 1 / 4, 9] = [5 / 4, 5 / 4, 9]"
proof -
  have e: "from_global example_grid [5 / 4, 5 / 4, 9] = ([4, 3], [1 / 2, 1 / 4, 9])"
    by (simp add: from_global_def from_global_dir_def g_dim_def example_grid_def upt_rec)
  have "is_in_bound_x example_grid [5 / 4, 5 / 4, 9]"
    by (simp add: is_in_bound_x_def g_dim_def example_grid_def upt_rec)
  then show ?thesis
    using global_roundtrip[of example_grid "[5 / 4, 5 / 4, 9]", OF _ _ _ _ e] example_grid_ok
    by (simp add: all_less_2) (simp add: example_grid_def)
qed

text \<open>
  A position inside the extents lies in the central zone exactly when it is in
  bound.  A negative component is compared as an unsigned number and counts as
  central in its direction.
\<close>

theorem find_zone_centre:
  assumes "grid_ok g" "g_dim g \<in> {1, 2, 3}"
  shows "(in_extent (extent g) pos \<longrightarrow>
      (find_zone g pos + get_zone_offset (g_dim g) = 13) = is_in_bound g pos)
    \<and> (\<forall>i < g_dim g. sint p < 0 \<longrightarrow> zone_digit g i p = 1)"
proof (intro conjI impI allI)
  assume pos: "in_extent (extent g) pos"
  have "(zone_digit g i (pos ! i) = 1) = (sint (g_guard g ! i) \<le> sint (pos ! i)
      \<and> sint (pos ! i) < uint (g_N g ! i) + sint (g_guard g ! i))" if "i < g_dim g" for i
    using in_extent_nth[OF pos, of i] that grid_ok_lengths[OF assms(1)] zone_digit_cases[OF assms(1) that, of "pos ! i"]
    by (auto simp: extent_def)
  then show "(find_zone g pos + get_zone_offset (g_dim g) = 13) = is_in_bound g pos"
    unfolding zone_directions(4)[OF assms(2) refl] is_in_bound_iff[OF assms(1)] by blast
qed (simp add: zone_digit_cases[OF assms(1)])

theorem find_zone_centre_witness:
  "(find_zone example_grid [2, 4] + 9 = 13) = is_in_bound example_grid [2, 4]"
  using find_zone_centre[of example_grid "[2, 4]"] example_grid_ok
  by (simp add: get_zone_offset_def) (simp add: extent_def example_grid_def)

text \<open>
  The renumbering of a leaving particle: for guard regions no wider than the
  grid the new cell is the index of the position moved by \<open>N\<close> in every direction the
  particle left through, and that position is inside the interior of the receiver.
\<close>

theorem move_cell_arrives:
  assumes "grid_ok g" "good_extent (extent g)" "g_dim g \<in> {1, 2, 3}"
    "\<forall>i < g_dim g. sint (g_guard g ! i) \<le> uint (g_N g ! i)" "in_extent (extent g) pos"
    "zone = find_zone g pos + get_zone_offset (g_dim g)"
  shows "let pos' = get_pos (extent g) (ucast (move_cell g zone (ucast (col_to_linear (extent g) pos))))
    in is_in_bound g pos' \<and> (\<forall>i < g_dim g.
         sint (pos' ! i) = sint (pos ! i) - (zone_digit g i (pos ! i) - 1) * uint (g_N g ! i))"
proof -
  have b: "is_in_bound g (moved g pos)" by (rule moved_in_bound[OF assms(1,4,5)])
  then have e: "in_extent (extent g) (moved g pos)"
    by (intro is_in_bound_in_extent[OF assms(1)]) (simp_all add: moved_def)
  have "get_pos (extent g) (ucast (move_cell g zone (ucast (col_to_linear (extent g) pos)))) = moved g pos"
    unfolding move_cell_moved[OF assms] by (rule cell_roundtrip[OF assms(2) e])
  moreover have "sint (moved g pos ! i) = sint (pos ! i) - (zone_digit g i (pos ! i) - 1) * uint (g_N g ! i)"
    if i: "i < g_dim g" for i
  proof -
    have "0 \<le> sint (pos ! i)" "sint (pos ! i) < uint (g_dims g ! i)"
      using in_extent_nth[OF assms(5)] i grid_ok_lengths(1)[OF assms(1)] by (simp_all add: extent_def)
    then show ?thesis using shift_moves(4)[OF assms(1) i] assms(4) i by (simp add: moved_def)
  qed
  ultimately show ?thesis using b by (simp add: Let_def)
qed

theorem move_cell_arrives_witness:
  "is_in_bound example_grid
     (get_pos [8, 6] (ucast (move_cell example_grid 9 (ucast (col_to_linear [8, 6] [1, 0])))))"
proof -
  have e: "extent example_grid = [8, 6]" by (simp add: extent_def example_grid_def)
  have "find_zone example_grid [1, 0] = 0"
    by (simp add: find_zone_def zone_digit_def g_dim_def example_grid_def upt_rec)
  moreover have "\<forall>i < 2. sint (g_guard example_grid ! i) \<le> uint (g_N example_grid ! i)"
    by (simp add: all_less_2 example_grid_def)
  ultimately show ?thesis
    using move_cell_arrives[of example_grid "[1, 0]" 9] example_grid_ok
    by (simp add: e Let_def get_zone_offset_def good_extent_def)
qed

text \<open>
  C11.  \<open>ptc_copy_to_comm_buffers\<close> with large enough buffers, and with fewer than \<open>2\<^sup>3\<^sup>1\<close>
  particles for a zone, the range of the \<open>int\<close> counts: every live particle
  outside the central zone is copied once, in order and renumbered, to the buffer
  of its zone, and is emptied in the array; every other particle stays.
\<close>

theorem comm_buffers_partition:
  assumes "m_number s \<le> length (data s)" "0 < m_number s" "length nums = length buffers"
    "\<forall>q \<in> set (take (m_number s) (data s)). leaves g q \<longrightarrow> ptc_zone g q < length buffers"
    "\<forall>z < length buffers. length (zone_ptcs g z (take (m_number s) (data s))) \<le> length (buffers ! z)"
    "\<forall>z < length buffers. length (zone_ptcs g z (take (m_number s) (data s))) < 2 ^ 31"
  shows "\<exists>s' buffers' nums'. ptc_copy_to_comm_buffers s buffers nums g = Some (s', buffers', nums')
    \<and> m_number s' = m_number s
    \<and> (\<forall>i < length (data s). data s' ! i =
         (if i < m_number s \<and> leaves g (data s ! i) then (data s ! i)\<lparr>cell := empty_cell\<rparr> else data s ! i))
    \<and> (\<forall>z < length buffers. unat (nums' ! z) = length (zone_ptcs g z (take (m_number s) (data s)))
         \<and> take (unat (nums' ! z)) (buffers' ! z) = map (relocated g) (zone_ptcs g z (take (m_number s) (data s))))"
proof -
  have "length (map (\<lambda>_. 0 :: i32) nums) = length buffers" "\<forall>z < length buffers. map (\<lambda>_. 0 :: i32) nums ! z = 0"
    using assms(3) by simp_all
  from comm_loop_correct[OF assms(1) this assms(4-6)] show ?thesis
    unfolding ptc_copy_to_comm_buffers_def using assms(2) by force
qed

theorem comm_buffers_partition_witness:
  "\<exists>s' b n. ptc_copy_to_comm_buffers (example_ptcs 2 [18, 0]) (replicate 9 [ptc_default]) (replicate 9 0) example_grid
     = Some (s', b, n) \<and> unat (n ! 0) = 1 \<and> data s' ! 0 = data (example_ptcs 2 [18, 0]) ! 0"
proof -
  let ?s = "example_ptcs 2 [18, 0]" and ?g = example_grid
  let ?p = "\<lambda>c. ptc_default\<lparr>cell := c\<rparr>"
  have z: "find_zone ?g (get_pos (extent ?g) 18) = 4" "find_zone ?g (get_pos (extent ?g) 0) = 0"
    by (simp_all add: find_zone_def zone_digit_def g_dim_def example_grid_def upt_rec extent_def get_pos_def
        col_get_pos2_def c_div_def)
  have l: "\<not> leaves ?g (?p 18)" "leaves ?g (?p 0)" "ptc_zone ?g (?p 0) = 0"
    using z by (simp_all add: leaves_def live_def empty_cell_def ptc_zone_def get_zone_offset_def example_grid_ok)
  have d: "data ?s = [?p 18, ?p 0]" "m_number ?s = 2" by (simp_all add: example_ptcs_def)
  then have zp: "zone_ptcs ?g y (take (m_number ?s) (data ?s)) = (if y = 0 then [?p 0] else [])" for y
    using l by (auto simp: zone_ptcs_def)
  have "\<exists>s' b n. ptc_copy_to_comm_buffers ?s (replicate 9 [ptc_default]) (replicate 9 0) ?g = Some (s', b, n)
    \<and> m_number s' = m_number ?s
    \<and> (\<forall>i < length (data ?s). data s' ! i =
         (if i < m_number ?s \<and> leaves ?g (data ?s ! i) then (data ?s ! i)\<lparr>cell := empty_cell\<rparr> else data ?s ! i))
    \<and> (\<forall>z < length (replicate 9 [ptc_default]). unat (n ! z) = length (zone_ptcs ?g z (take (m_number ?s) (data ?s)))
         \<and> take (unat (n ! z)) (b ! z) = map (relocated ?g) (zone_ptcs ?g z (take (m_number ?s) (data ?s))))"
  proof (rule comm_buffers_partition)
    show "\<forall>q \<in> set (take (m_number ?s) (data ?s)). leaves ?g q \<longrightarrow> ptc_zone ?g q < length (replicate 9 [ptc_default])"
      using l d by simp
    show "\<forall>z < length (replicate 9 [ptc_default]).
        length (zone_ptcs ?g z (take (m_number ?s) (data ?s))) \<le> length (replicate 9 [ptc_default] ! z)"
      unfolding zp by simp
    show "\<forall>z < length (replicate 9 [ptc_default]).
        length (zone_ptcs ?g z (take (m_number ?s) (data ?s))) < 2 ^ 31"
      unfolding zp by simp
  qed (use d in simp_all)
  then obtain s' b n where "ptc_copy_to_comm_buffers ?s (replicate 9 [ptc_default]) (replicate 9 0) ?g = Some (s', b, n)"
    "\<forall>i < length (data ?s). data s' ! i =
       (if i < m_number ?s \<and> leaves ?g (data ?s ! i) then (data ?s ! i)\<lparr>cell := empty_cell\<rparr> else data ?s ! i)"
    "\<forall>z < 9. unat (n ! z) = length (zone_ptcs ?g z (take (m_number ?s) (data ?s)))"
    by fastforce
  moreover from this have "unat (n ! 0) = 1" "data s' ! 0 = data ?s ! 0" unfolding zp using l d by simp_all
  ultimately show ?thesis by blast
qed

text \<open>
  C28.  The grid of a rank: when the process numbers divide the global cell numbers,
  the constructor returns a well-formed grid whose cells, shifted by the rank's
  \<open>offset\<close>, have the coordinates they have in the global grid.
\<close>

theorem grid_of_rank:
  assumes "domain_ok vec_N guard sizes low info"
    "\<forall>d \<in> set (g_delta (make_grid vec_N guard sizes low)). dt \<le> d"
  shows "\<exists>g. grid_t_new False vec_N guard sizes low dt info = Some g \<and> grid_ok g \<and> g_dim g = length vec_N
    \<and> (\<forall>d < g_dim g. uint (g_N g ! d) * sint (mpi_dims info ! d) = uint (vec_N ! d)
        \<and> sint (g_offset g ! d) = sint (mpi_coord info ! d) * uint (g_N g ! d)
        \<and> (\<forall>i p. coord g d i p = low ! d + sizes ! d / of_int (uint (vec_N ! d))
              * (of_int (sint i + sint (g_offset g ! d) - sint (guard ! d)) + p)))"
proof -
  from grid_t_new_block[OF assms] obtain g where g:
    "grid_t_new False vec_N guard sizes low dt info = Some g" "grid_ok g" "g_dim g = length vec_N"
    "\<forall>i < length vec_N. uint (g_N g ! i) * sint (mpi_dims info ! i) = uint (vec_N ! i)
        \<and> sint (g_offset g ! i) = sint (mpi_coord info ! i) * uint (g_N g ! i)
        \<and> g_lower g ! i = low ! i + sizes ! i / of_int (uint (vec_N ! i)) * of_int (sint (g_offset g ! i))
        \<and> g_delta g ! i = sizes ! i / of_int (uint (vec_N ! i)) \<and> g_guard g ! i = guard ! i"
    by blast
  have "coord g d i p = low ! d + sizes ! d / of_int (uint (vec_N ! d))
      * (of_int (sint i + sint (g_offset g ! d) - sint (guard ! d)) + p)" if d: "d < g_dim g" for d i p
  proof -
    have f: "g_lower g ! d = low ! d + sizes ! d / of_int (uint (vec_N ! d)) * of_int (sint (g_offset g ! d))"
      "g_delta g ! d = sizes ! d / of_int (uint (vec_N ! d))" "g_guard g ! d = guard ! d"
      using g(4)[rule_format, of d] d unfolding g(3) by blast+
    have "coord g d i p = g_lower g ! d + g_delta g ! d * (of_int (sint i - sint (g_guard g ! d)) + p)"
      using d by (simp add: coord_def)
    then show ?thesis unfolding f by (simp only: of_int_add of_int_diff distrib_left right_diff_distrib add_ac add_diff_eq)
  qed
  moreover have "uint (g_N g ! d) * sint (mpi_dims info ! d) = uint (vec_N ! d)
      \<and> sint (g_offset g ! d) = sint (mpi_coord info ! d) * uint (g_N g ! d)" if "d < g_dim g" for d
    using g(4)[rule_format, of d] that unfolding g(3) by blast
  ultimately show ?thesis using g(1-3) by blast
qed

theorem grid_of_rank_witness:
  "\<exists>g. grid_t_new False [8] [2] [4] [0] 0
     \<lparr>mpi_dims = [2], mpi_coord = [1], is_boundary = [False, False], is_periodic = [True],
      neighbor_left = [0], neighbor_right = [0]\<rparr> = Some g \<and> sint (g_offset g ! 0) = 4"
proof -
  let ?i = "\<lparr>mpi_dims = [2], mpi_coord = [1], is_boundary = [False, False], is_periodic = [True],
      neighbor_left = [0], neighbor_right = [0]\<rparr>"
  have "domain_ok [8] [2] [4] [0] ?i" by (simp add: domain_ok_def)
  moreover have "\<forall>d \<in> set (g_delta (make_grid [8] [2] [4] [0])). 0 \<le> d" by (simp add: make_grid_def)
  ultimately obtain g where "grid_t_new False [8] [2] [4] [0] 0 ?i = Some g" "g_dim g = 1"
    "\<forall>d < g_dim g. uint (g_N g ! d) * sint (mpi_dims ?i ! d) = uint ([8 :: u32] ! d)
        \<and> sint (g_offset g ! d) = sint (mpi_coord ?i ! d) * uint (g_N g ! d)"
    using grid_of_rank[of "[8]" "[2]" "[4]" "[0]" ?i 0] by auto
  then show ?thesis by simp
qed

end
