(* ===== verification/CoordPolicy.thy ===== *)
theory CoordPolicy
  imports Pusher Deposit GridLemmas FiniteDiff
begin

text \<open>
  The Cartesian coordinate policy (\<open>src/systems/policies/coord_policy_cartesian.hpp\<close>) with
  the wrapper \<open>pusher_simple\<close> (\<open>src/systems/physics/pusher_simple.hpp\<close>), and the current
  filter (\<open>src/systems/helpers/filter_field.hpp\<close>).  \<open>Conf::pusher_t\<close> is the argument
  \<open>push\<close>, one of the definitions of \<open>Pusher\<close>.
\<close>

type_synonym pusher = "scalar \<times> scalar \<times> scalar \<Rightarrow> scalar \<times> scalar \<times> scalar \<Rightarrow> scalar \<Rightarrow> momentum \<Rightarrow> momentum"

subsection \<open>Moving a particle\<close>

definition pusher_simple :: "pusher \<Rightarrow> ptc_context \<Rightarrow> scalar \<Rightarrow> ptc_context" where
  "pusher_simple push c dt =
     (let (p1, p2, p3, g) = push (pc_E c ! 0, pc_E c ! 1, pc_E c ! 2) (pc_B c ! 0, pc_B c ! 1, pc_B c ! 2)
            (dt * pc_q c / pc_m c * (1 / 2)) (pc_p c ! 0, pc_p c ! 1, pc_p c ! 2, pc_gamma c)
      in c\<lparr>pc_p := [p1, p2, p3], pc_gamma := g\<rparr>)"

text \<open>
  \<open>move_ptc\<close> on the members it reads and writes; the conversion of \<open>floor\<close> to an integer
  is exact here.
\<close>

type_synonym placing = "scalar list \<times> int list \<times> index_t"

definition move_dir :: "Grid \<Rightarrow> scalar list \<Rightarrow> scalar list \<Rightarrow> scalar \<Rightarrow> scalar \<Rightarrow> placing \<Rightarrow> nat \<Rightarrow> placing" where
  "move_dir g x p gamma dt = (\<lambda>(new_x, dc, pos) i.
     let y = x ! i + p ! i * dt / gamma * g_inv_delta g ! i; d = \<lfloor>y\<rfloor>
     in (new_x[i := y - of_int d], dc[i := d], pos[i := pos ! i + word_of_int d]))"

definition move_core :: "Grid \<Rightarrow> scalar list \<Rightarrow> scalar list \<Rightarrow> scalar \<Rightarrow> scalar \<Rightarrow> placing \<Rightarrow> placing" where
  "move_core g x p gamma dt st =
     foldl (\<lambda>(new_x, dc, pos) i. (new_x[i := x ! i + p ! i * dt / gamma], dc, pos))
       (foldl (move_dir g x p gamma dt) st [0..<g_dim g]) [g_dim g..<3]"

definition move_ptc :: "Grid \<Rightarrow> ptc_context \<Rightarrow> index_t \<Rightarrow> scalar \<Rightarrow> ptc_context \<times> index_t" where
  "move_ptc g c pos dt =
     (let (nx, dc, pos') = move_core g (pc_x c) (pc_p c) (pc_gamma c) dt (pc_new_x c, pc_dc c, pos)
      in (c\<lparr>pc_new_x := nx, pc_dc := dc\<rparr>, pos'))"

definition update_ptc :: "pusher \<Rightarrow> Grid \<Rightarrow> ptc_context \<Rightarrow> index_t \<Rightarrow> scalar \<Rightarrow> ptc_context \<times> index_t" where
  "update_ptc push g c pos dt =
     move_ptc g (if \<not> check_flag (pc_flag c) (PtcFlag_code ignore_EM) then pusher_simple push c dt else c) pos dt"

definition update_ph :: "Grid \<Rightarrow> ph_context \<Rightarrow> index_t \<Rightarrow> scalar \<Rightarrow> ph_context \<times> index_t" where
  "update_ph g c pos dt =
     (let (nx, dc, pos') = move_core g (ph_x c) (ph_p c) (ph_gamma c) dt (ph_new_x c, ph_dc c, pos)
      in (c\<lparr>ph_new_x := nx, ph_dc := dc\<rparr>, pos'))"

definition process_J_Rho :: "Grid \<Rightarrow> currents \<Rightarrow> currents" where
  "process_J_Rho g S =
     host_loop (extent g) (\<lambda>idx S. foldl (\<lambda>S i. S\<lparr>cur_J := (cur_J S)(i := (cur_J S i)(idx := cur_J S i idx * g_delta g ! i))\<rparr>)
       S [0..<g_dim g]) S"

subsection \<open>Where a particle arrives\<close>

lemma move_dirs:
  fixes n :: nat and st :: placing and g :: Grid and x p :: "scalar list" and gamma dt :: scalar
  assumes "n \<le> length (fst st)" "n \<le> length (fst (snd st))" "n \<le> length (snd (snd st))"
  defines "y \<equiv> \<lambda>i. x ! i + p ! i * dt / gamma * g_inv_delta g ! i"
  defines "r \<equiv> foldl (move_dir g x p gamma dt) st [0..<n]"
  shows "length (fst r) = length (fst st) \<and> length (fst (snd r)) = length (fst (snd st))
    \<and> length (snd (snd r)) = length (snd (snd st))
    \<and> (\<forall>i. fst r ! i = (if i < n then y i - of_int \<lfloor>y i\<rfloor> else fst st ! i)
        \<and> fst (snd r) ! i = (if i < n then \<lfloor>y i\<rfloor> else fst (snd st) ! i)
        \<and> snd (snd r) ! i = (if i < n then snd (snd st) ! i + word_of_int \<lfloor>y i\<rfloor> else snd (snd st) ! i))"
  using assms(1-3) unfolding r_def
proof (induction n)
  case (Suc n)
  obtain a b c where e: "foldl (move_dir g x p gamma dt) st [0..<n] = (a, b, c)"
    by (cases "foldl (move_dir g x p gamma dt) st [0..<n]")
  have step: "move_dir g x p gamma dt (a, b, c) n
      = (a[n := y n - of_int \<lfloor>y n\<rfloor>], b[n := \<lfloor>y n\<rfloor>], c[n := c ! n + word_of_int \<lfloor>y n\<rfloor>])"
    by (simp add: move_dir_def Let_def y_def)
  show ?case
    using Suc e unfolding upt_Suc_append[OF le0] foldl_append
    by (auto simp: step nth_list_update less_Suc_eq)
qed simp

lemma move_rest:
  "foldl (\<lambda>(a, dc, pos) i. (a[i := f i], dc, pos)) (a, dc, pos) is = (foldl (\<lambda>a i. a[i := f i]) a is, dc, pos)"
  by (induction "is" arbitrary: a) auto

lemma foldl_update_list:
  "j < length a0 \<Longrightarrow> foldl (\<lambda>a i. a[i := f i]) a0 [m..<n] ! j = (if m \<le> j \<and> j < n then f j else a0 ! j)"
  "length (foldl (\<lambda>a i. a[i := f i]) a0 [m..<n]) = length a0"
proof -
  have l: "length (foldl (\<lambda>a i. a[i := f i]) a0 is) = length a0" for "is"
    by (induction "is" arbitrary: a0) auto
  show "length (foldl (\<lambda>a i. a[i := f i]) a0 [m..<n]) = length a0" by (rule l)
  show "foldl (\<lambda>a i. a[i := f i]) a0 [m..<n] ! j = (if m \<le> j \<and> j < n then f j else a0 ! j)"
    if "j < length a0"
    using that
  proof (induction n)
    case (Suc n)
    then show ?case
      by (cases "m \<le> n") (auto simp: nth_list_update l less_Suc_eq)
  qed simp
qed

text \<open>The place of a moved particle, direction by direction.\<close>

lemma move_core_nth:
  assumes "g_dim g \<le> 3" "length nx = 3" "g_dim g \<le> length dc" "g_dim g \<le> length pos"
    and "move_core g x p gamma dt (nx, dc, pos) = (nx', dc', pos')"
  shows "length nx' = 3" "length dc' = length dc" "length pos' = length pos"
    and "i < g_dim g \<Longrightarrow> nx' ! i = x ! i + p ! i * dt / gamma * g_inv_delta g ! i - of_int (dc' ! i)"
    and "i < g_dim g \<Longrightarrow> dc' ! i = \<lfloor>x ! i + p ! i * dt / gamma * g_inv_delta g ! i\<rfloor>"
    and "i < g_dim g \<Longrightarrow> pos' ! i = pos ! i + word_of_int (dc' ! i)"
    and "g_dim g \<le> i \<Longrightarrow> i < 3 \<Longrightarrow> nx' ! i = x ! i + p ! i * dt / gamma"
proof -
  obtain a b c where e: "foldl (move_dir g x p gamma dt) (nx, dc, pos) [0..<g_dim g] = (a, b, c)"
    by (cases "foldl (move_dir g x p gamma dt) (nx, dc, pos) [0..<g_dim g]")
  note m = move_dirs[of "g_dim g" "(nx, dc, pos)" g x p gamma dt, unfolded e]
  have r: "nx' = foldl (\<lambda>a i. a[i := x ! i + p ! i * dt / gamma]) a [g_dim g..<3]" "dc' = b" "pos' = c"
    using assms(5) unfolding move_core_def e move_rest by simp_all
  have l: "length a = 3" using m assms(1-4) by simp
  show "length nx' = 3" "length dc' = length dc" "length pos' = length pos"
    using m assms(1-4) l unfolding r foldl_update_list(2) by simp_all
  show "i < g_dim g \<Longrightarrow> nx' ! i = x ! i + p ! i * dt / gamma * g_inv_delta g ! i - of_int (dc' ! i)"
    "i < g_dim g \<Longrightarrow> dc' ! i = \<lfloor>x ! i + p ! i * dt / gamma * g_inv_delta g ! i\<rfloor>"
    "i < g_dim g \<Longrightarrow> pos' ! i = pos ! i + word_of_int (dc' ! i)"
    "g_dim g \<le> i \<Longrightarrow> i < 3 \<Longrightarrow> nx' ! i = x ! i + p ! i * dt / gamma"
    using m assms(1-4) l unfolding r by (auto simp: foldl_update_list(1))
qed


subsection \<open>The current filter\<close>

text \<open>\<open>idx.inc_x(!b)\<close>: a step of zero at a boundary.\<close>

definition step_inc :: "extent_t \<Rightarrow> nat \<Rightarrow> bool \<Rightarrow> i64 \<Rightarrow> i64" where
  "step_inc ext d b idx = col_inc ext d idx (of_bool (\<not> b))"

definition step_dec :: "extent_t \<Rightarrow> nat \<Rightarrow> bool \<Rightarrow> i64 \<Rightarrow> i64" where
  "step_dec ext d b idx = col_dec ext d idx (of_bool (\<not> b))"

definition field_filter1 :: "extent_t \<Rightarrow> i64 \<Rightarrow> field \<Rightarrow> bool list \<Rightarrow> scalar" where
  "field_filter1 ext idx f b =
     1 / 2 * f idx + 1 / 4 * f (step_inc ext 0 (b ! 1) idx) + 1 / 4 * f (step_dec ext 0 (b ! 0) idx)"

definition field_filter2 :: "extent_t \<Rightarrow> i64 \<Rightarrow> field \<Rightarrow> bool list \<Rightarrow> scalar" where
  "field_filter2 ext idx f b =
     1 / 4 * f idx
     + 1 / 8 * f (step_inc ext 0 (b ! 1) idx)
     + 1 / 8 * f (step_dec ext 0 (b ! 0) idx)
     + 1 / 8 * f (step_inc ext 1 (b ! 3) idx)
     + 1 / 8 * f (step_dec ext 1 (b ! 2) idx)
     + 1 / 16 * f (step_inc ext 0 (b ! 1) (step_inc ext 1 (b ! 3) idx))
     + 1 / 16 * f (step_dec ext 0 (b ! 0) (step_inc ext 1 (b ! 3) idx))
     + 1 / 16 * f (step_inc ext 0 (b ! 1) (step_dec ext 1 (b ! 2) idx))
     + 1 / 16 * f (step_dec ext 0 (b ! 0) (step_dec ext 1 (b ! 2) idx))"

definition field_filter3 :: "extent_t \<Rightarrow> i64 \<Rightarrow> field \<Rightarrow> bool list \<Rightarrow> scalar" where
  "field_filter3 ext idx f b =
     (let lower = vec_subset 0 4 b;
          f_m = field_filter2 ext idx f lower;
          f_l = field_filter2 ext (step_dec ext 2 (b ! 4) idx) f lower;
          f_r = field_filter2 ext (step_inc ext 2 (b ! 5) idx) f lower
      in 1 / 4 * f_l + 1 / 2 * f_m + 1 / 4 * f_r)"

definition field_filter :: "extent_t \<Rightarrow> i64 \<Rightarrow> field \<Rightarrow> bool list \<Rightarrow> scalar" where
  "field_filter ext = (if length ext = 1 then field_filter1 ext
     else if length ext = 2 then field_filter2 ext else field_filter3 ext)"

text \<open>The weighted filters are those of the product of the field and the factor.\<close>

definition field_filter_with_geom_factor :: "extent_t \<Rightarrow> i64 \<Rightarrow> field \<Rightarrow> field \<Rightarrow> bool list \<Rightarrow> scalar" where
  "field_filter_with_geom_factor ext idx f factor b = field_filter ext idx (\<lambda>i. f i * factor i) b"

text \<open>
  The loop body for one cell: the flags of the cell are set direction by direction and
  the value is stored after each one.  \<open>value\<close> is the filter, with the division by the
  factor in the second version.
\<close>

definition filter_cell ::
  "(i64 \<Rightarrow> bool list \<Rightarrow> scalar) \<Rightarrow> Grid \<Rightarrow> bool list \<Rightarrow> stagger_t \<Rightarrow> i64 \<Rightarrow> field \<Rightarrow> field" where
  "filter_cell val g is_bd st idx result =
     (let pos = get_pos (extent g) idx
      in if is_in_bound_stagger g pos st then
           snd (foldl (\<lambda>(bc, result) i.
               let bc = bc[i * 2 := is_bd ! (i * 2) \<and> pos ! i = g_guard g ! i];
                   bc = bc[i * 2 + 1 := is_bd ! (i * 2 + 1)
                     \<and> pos ! i = g_dims g ! i - g_guard g ! i - 1 + word_of_int (stagger_at st i)]
               in (bc, result(idx := val idx bc))) (is_bd, result) [0..<g_dim g])
         else result)"

text \<open>Both versions return the field, which is the temporary array at the end, and that array.\<close>

definition filter_field_component :: "Grid \<Rightarrow> bool list \<Rightarrow> stagger_t \<Rightarrow> field \<times> field \<Rightarrow> field \<times> field" where
  "filter_field_component g is_bd st = (\<lambda>(f, tmp).
     let tmp = host_loop (extent g) (filter_cell (\<lambda>idx. field_filter (extent g) idx f) g is_bd st) tmp
     in (tmp, tmp))"

definition filter_field_component_factor ::
  "Grid \<Rightarrow> bool list \<Rightarrow> field \<Rightarrow> stagger_t \<Rightarrow> field \<times> field \<Rightarrow> field \<times> field" where
  "filter_field_component_factor g is_bd factor st = (\<lambda>(f, tmp).
     let tmp = host_loop (extent g) (filter_cell (\<lambda>idx b.
           field_filter_with_geom_factor (extent g) idx f factor b / factor idx) g is_bd st) tmp
     in (tmp, tmp))"

text \<open>\<open>filter_field\<close> of the policy: all components of a field, with their staggers.\<close>

definition filter_field :: "Grid \<Rightarrow> bool list \<Rightarrow> stagger_t list \<Rightarrow> vfield \<times> field \<Rightarrow> vfield \<times> field" where
  "filter_field g is_bd sts st =
     foldl (\<lambda>(f, tmp) i. let (fi, tmp) = filter_field_component g is_bd (sts ! i) (f i, tmp) in (f(i := fi), tmp))
       st [0..<length sts]"

subsection \<open>The filter keeps constants\<close>

lemma field_filter_constant: "field_filter ext idx (\<lambda>_. k) b = k"
  by (simp add: field_filter_def field_filter1_def field_filter2_def field_filter3_def Let_def)

lemma filter_cell_constant:
  assumes "0 < g_dim g" "\<And>b. val idx b = k"
  shows "filter_cell val g is_bd st idx result r
    = (if r = idx \<and> is_in_bound_stagger g (get_pos (extent g) idx) st then k else result r)"
proof -
  have f: "snd (foldl (\<lambda>(bc, result) i. (F bc i, result(idx := val idx (F bc i)))) (bc, result) is) r
      = (if is \<noteq> [] \<and> r = idx then k else result r)" for F :: "bool list \<Rightarrow> nat \<Rightarrow> bool list" and bc result "is"
    by (induction "is" arbitrary: bc result) (auto simp: assms(2))
  show ?thesis
    using f assms(1) by (cases "r = idx") (simp_all add: filter_cell_def Let_def)
qed

text \<open>A constant field stays constant, wherever the temporary array is that constant outside the bounds.\<close>

lemma filter_constant:
  assumes "0 < g_dim g" "\<And>i. uint i < uint (extent_size (extent g)) \<Longrightarrow> tmp i = k"
    and "uint r < uint (extent_size (extent g))"
  shows "fst (filter_field_component g is_bd st (\<lambda>_. k, tmp)) r = k"
proof -
  let ?f = "filter_cell (\<lambda>idx. field_filter (extent g) idx (\<lambda>_. k)) g is_bd st"
  have "foldl (\<lambda>S i. ?f (word_of_int (int i)) S) tmp ns r = k" for ns
    by (induction ns rule: rev_induct)
       (simp_all add: assms(2)[OF assms(3)] filter_cell_constant[OF assms(1)] field_filter_constant)
  then show ?thesis by (simp add: filter_field_component_def host_loop_def Let_def)
qed

end
