(* ===== verification/MultiArray.thy ===== *)
theory MultiArray
  imports FiniteDiff GridLemmas
begin

text \<open>
  Copying between multi-dimensional arrays on the host:
  \<open>src/core/detail/multi_array_helpers.cpp\<close>.  The arrays live in a store from their names
  to their contents, so a copy whose source and destination are the same array reads the
  values the loop has already written.  \<open>ext_of\<close> gives the extent of each array.
\<close>

type_synonym 'k arrays = "'k \<Rightarrow> field"

subsection \<open>\<open>copy\<close>, \<open>add\<close> and \<open>resample\<close>\<close>

definition array_copy ::
  "('k \<Rightarrow> extent_t) \<Rightarrow> 'k \<Rightarrow> 'k \<Rightarrow> index_t \<Rightarrow> index_t \<Rightarrow> extent_t \<Rightarrow> 'k arrays \<Rightarrow> 'k arrays" where
  "array_copy ext_of dst src dst_pos src_pos ext =
     host_loop ext (\<lambda>idx h.
       let pos_offset = get_pos ext idx;
           idx_dst = col_to_linear (ext_of dst) (vec_add dst_pos pos_offset);
           idx_src = col_to_linear (ext_of src) (vec_add src_pos pos_offset)
       in h(dst := (h dst)(idx_dst := h src idx_src)))"

definition array_add ::
  "('k \<Rightarrow> extent_t) \<Rightarrow> 'k \<Rightarrow> 'k \<Rightarrow> index_t \<Rightarrow> index_t \<Rightarrow> extent_t \<Rightarrow> scalar \<Rightarrow> 'k arrays \<Rightarrow> 'k arrays" where
  "array_add ext_of dst src dst_pos src_pos ext scale =
     host_loop ext (\<lambda>idx h.
       let pos_offset = get_pos ext idx;
           idx_dst = col_to_linear (ext_of dst) (vec_add dst_pos pos_offset);
           idx_src = col_to_linear (ext_of src) (vec_add src_pos pos_offset)
       in h(dst := (h dst)(idx_dst := h dst idx_dst + h src idx_src * scale)))"

text \<open>
  \<open>resample\<close>: the comparison with \<open>extent - offset\<close> is unsigned.  \<open>interp\<close> is the \<open>lerp\<close>
  of the rank, between the staggers of the two fields.
\<close>

fun resample_in_bound :: "extent_t \<Rightarrow> index_t \<Rightarrow> index_t \<Rightarrow> nat list \<Rightarrow> bool" where
  "resample_in_bound ext offset_dst pos [] = True"
| "resample_in_bound ext offset_dst pos (i # is) =
     (if sint (pos ! i) < sint (offset_dst ! i) \<or> uint (pos ! i) \<ge> uint (ext ! i - offset_dst ! i) then False
      else resample_in_bound ext offset_dst pos is)"

definition lerp_stagger :: "field \<Rightarrow> extent_t \<Rightarrow> i64 \<Rightarrow> stagger_t \<Rightarrow> stagger_t \<Rightarrow> scalar" where
  "lerp_stagger f ext = (if length ext = 1 then lerp_stagger1 f ext
     else if length ext = 2 then lerp_stagger2 f ext else lerp_stagger3 f ext)"

definition resample ::
  "('k \<Rightarrow> extent_t) \<Rightarrow> 'k \<Rightarrow> 'k \<Rightarrow> index_t \<Rightarrow> index_t \<Rightarrow> stagger_t \<Rightarrow> stagger_t \<Rightarrow> i32 \<Rightarrow> 'k arrays \<Rightarrow> 'k arrays" where
  "resample ext_of src dst offset_src offset_dst st_src st_dst downsample =
     host_loop (ext_of dst) (\<lambda>idx h.
       let pos = get_pos (ext_of dst) idx
       in if \<not> resample_in_bound (ext_of dst) offset_dst pos [0..<length (ext_of dst)] then h
          else let idx_src = col_to_linear (ext_of src)
                     (vec_add (vec_scale (vec_sub pos offset_dst) downsample) offset_src)
               in h(dst := (h dst)(idx := lerp_stagger (h src) (ext_of src) idx_src st_src st_dst)))"

subsection \<open>Scattering loops\<close>

text \<open>A loop that writes distinct places of one array, from places it does not write.\<close>

lemma scatter:
  assumes "distinct ns" "inj_on L (set ns)" "s = d \<Longrightarrow> \<forall>n \<in> set ns. \<forall>m \<in> set ns. R n \<noteq> L m"
  shows "foldl (\<lambda>h n. h(d := (h d)(L n := F (h d (L n)) (h s (R n))))) h ns
    = h(d := (\<lambda>x. if x \<in> L ` set ns then F (h d x) (h s (R (the_inv_into (set ns) L x))) else h d x))"
proof -
  have "foldl (\<lambda>h n. h(d := (h d)(L n := F (h d (L n)) (h s (R n))))) h ks
    = h(d := (\<lambda>x. if x \<in> L ` set ks then F (h d x) (h s (R (the_inv_into (set ns) L x))) else h d x))"
    if "set ks \<subseteq> set ns" "distinct ks" for ks
    using that
  proof (induction ks rule: rev_induct)
    case (snoc k ks)
    let ?h = "h(d := (\<lambda>x. if x \<in> L ` set ks then F (h d x) (h s (R (the_inv_into (set ns) L x))) else h d x))"
    have k: "L k \<notin> L ` set ks" "the_inv_into (set ns) L (L k) = k"
      using snoc.prems assms(2) by (auto simp: inj_on_def the_inv_into_f_f)
    have "?h s (R k) = h s (R k)"
      using assms(3) snoc.prems by (auto simp: image_iff)
    then show ?case
      using snoc k by (auto simp: fun_eq_iff)
  qed simp
  from this[of ns] show ?thesis using assms(1) by simp
qed


subsection \<open>Blocks\<close>

text \<open>A block of extent \<open>sub\<close> at \<open>pos\<close>, inside an array of extent \<open>ext\<close>.\<close>

definition fits :: "extent_t \<Rightarrow> index_t \<Rightarrow> extent_t \<Rightarrow> bool" where
  "fits ext pos sub = (length pos = length ext \<and> length sub = length ext
     \<and> (\<forall>i < length ext. 0 \<le> sint (pos ! i) \<and> sint (pos ! i) + uint (sub ! i) \<le> uint (ext ! i)))"

definition in_block :: "index_t \<Rightarrow> extent_t \<Rightarrow> index_t \<Rightarrow> bool" where
  "in_block pos sub p = (\<forall>i < length sub. sint (pos ! i) \<le> sint (p ! i) \<and> sint (p ! i) < sint (pos ! i) + uint (sub ! i))"

lemma vec_add_nth: "length a = length b \<Longrightarrow> i < length a \<Longrightarrow> vec_add a b ! i = a ! i + b ! i"
  by (simp add: vec_add_def)

lemma vec_sub_nth: "length a = length b \<Longrightarrow> i < length a \<Longrightarrow> vec_sub a b ! i = a ! i - b ! i"
  by (simp add: vec_sub_def)

lemma vec_add_length [simp]: "length (vec_add a b) = min (length a) (length b)"
  and vec_sub_length [simp]: "length (vec_sub a b) = min (length a) (length b)"
  by (simp_all add: vec_add_def vec_sub_def)

lemma vec_sub_add: "length a = length b \<Longrightarrow> vec_add b (vec_sub a b) = (a :: 'a::ab_group_add list)"
  by (rule nth_equalityI) (simp_all add: vec_add_nth vec_sub_nth)

lemma vec_add_sub: "length a = length b \<Longrightarrow> vec_sub (vec_add b a) b = (a :: 'a::ab_group_add list)"
  by (rule nth_equalityI) (simp_all add: vec_add_nth vec_sub_nth)

lemma sint_add32: "- (2 ^ 31) \<le> sint a + sint b \<Longrightarrow> sint a + sint b < 2 ^ 31 \<Longrightarrow> sint (a + b :: 32 word) = sint a + sint b"
  using sint_of_int32[of "sint a + sint b"] by simp

lemma sint_sub32: "- (2 ^ 31) \<le> sint a - sint b \<Longrightarrow> sint a - sint b < 2 ^ 31 \<Longrightarrow> sint (a - b :: 32 word) = sint a - sint b"
  using sint_of_int32[of "sint a - sint b"] by simp

lemma good_component: "good_extent ext \<Longrightarrow> i < length ext \<Longrightarrow> uint (ext ! i) \<le> 2 ^ 31"
  using good_extent_components by simp

lemma block_add:
  assumes "good_extent ext" "fits ext pos sub" "in_extent sub q"
  shows "in_extent ext (vec_add pos q)" "in_block pos sub (vec_add pos q)"
    "\<And>i. i < length ext \<Longrightarrow> sint (vec_add pos q ! i) = sint (pos ! i) + sint (q ! i)"
proof -
  note l = in_extent_length[OF assms(3)]
  have f: "length pos = length ext" "length sub = length ext" using assms(2) by (simp_all add: fits_def)
  have q: "0 \<le> sint (q ! i) \<and> sint (q ! i) < uint (sub ! i)" if "i < length ext" for i
    using assms(3) that l f by (simp add: in_extent_iff)
  show s: "sint (vec_add pos q ! i) = sint (pos ! i) + sint (q ! i)" if "i < length ext" for i
  proof -
    have p: "0 \<le> sint (pos ! i)" "sint (pos ! i) + uint (sub ! i) \<le> uint (ext ! i)"
      using assms(2) that by (simp_all add: fits_def)
    have "sint (pos ! i) + sint (q ! i) < 2 ^ 31"
      using p q[OF that] good_component[OF assms(1) that] by linarith
    moreover have "- (2 ^ 31) \<le> sint (pos ! i) + sint (q ! i)"
      by (rule order.trans[of _ 0]) (use p q[OF that] in simp_all)
    ultimately show ?thesis using that l f by (simp add: vec_add_nth sint_add32)
  qed
  have "0 \<le> sint (vec_add pos q ! i) \<and> sint (vec_add pos q ! i) < uint (ext ! i)" if "i < length ext" for i
  proof -
    have "sint (pos ! i) + uint (sub ! i) \<le> uint (ext ! i)" "0 \<le> sint (pos ! i)"
      using assms(2) that by (simp_all add: fits_def)
    then show ?thesis using q[OF that] s[OF that] by linarith
  qed
  then show "in_extent ext (vec_add pos q)" using l f by (simp add: in_extent_iff)
  show "in_block pos sub (vec_add pos q)" using q s f by (simp add: in_block_def)
qed

lemma block_sub:
  assumes "good_extent ext" "fits ext pos sub" "in_extent ext p" "in_block pos sub p"
  shows "in_extent sub (vec_sub p pos)"
    "\<And>i. i < length ext \<Longrightarrow> sint (vec_sub p pos ! i) = sint (p ! i) - sint (pos ! i)"
proof -
  note l = in_extent_length[OF assms(3)]
  have f: "length pos = length ext" "length sub = length ext" using assms(2) by (simp_all add: fits_def)
  have b: "sint (pos ! i) \<le> sint (p ! i) \<and> sint (p ! i) < sint (pos ! i) + uint (sub ! i) \<and> 0 \<le> sint (pos ! i)"
    if "i < length ext" for i
    using assms(2,4) that f by (simp add: in_block_def fits_def)
  show s: "sint (vec_sub p pos ! i) = sint (p ! i) - sint (pos ! i)" if "i < length ext" for i
  proof -
    have "sint (p ! i) - sint (pos ! i) < 2 ^ 31" using b[OF that] sint32_lt[of "p ! i"] by linarith
    moreover have "- (2 ^ 31) \<le> sint (p ! i) - sint (pos ! i)"
      by (rule order.trans[of _ 0]) (use b[OF that] in simp_all)
    ultimately show ?thesis using that l f by (simp add: vec_sub_nth sint_sub32)
  qed
  have "0 \<le> sint (vec_sub p pos ! i) \<and> sint (vec_sub p pos ! i) < uint (sub ! i)" if "i < length ext" for i
    using b[OF that] s[OF that] by linarith
  then show "in_extent sub (vec_sub p pos)" using l f by (simp add: in_extent_iff)
qed

text \<open>The positions a host loop visits.\<close>

lemma loop_positions:
  assumes "good_extent ext"
  shows "n < unat (extent_size ext) \<Longrightarrow> in_extent ext (get_pos ext (word_of_int (int n)))"
    and "in_extent ext q \<Longrightarrow> \<exists>n < unat (extent_size ext). get_pos ext (word_of_int (int n)) = q"
    and "n < unat (extent_size ext) \<Longrightarrow> m < unat (extent_size ext) \<Longrightarrow>
      get_pos ext (word_of_int (int n)) = get_pos ext (word_of_int (int m)) \<Longrightarrow> n = m"
proof -
  have v: "int (unat (extent_size ext)) = volume ext" "volume ext \<le> 2 ^ 31"
    using assms uint_extent_size[of ext] by (simp_all add: good_extent_def)
  have w: "sint (word_of_int (int n) :: i64) = int n" if "n < unat (extent_size ext)" for n
  proof -
    have "int n < 2 ^ 31" using that v by linarith
    then have "int n < 2 ^ 63" by simp
    moreover have "- (2 ^ 63) \<le> int n" by (rule order.trans[of _ 0]) simp_all
    ultimately show ?thesis by (rule sint_of_int64[rotated])
  qed
  have r: "0 \<le> sint (word_of_int (int n) :: i64)" "sint (word_of_int (int n) :: i64) < volume ext"
    if "n < unat (extent_size ext)" for n
    using that v(1) w[OF that] by linarith+
  show "in_extent ext (get_pos ext (word_of_int (int n)))" if "n < unat (extent_size ext)"
    using colg.lin_pos[OF assms r[OF that]] by simp
  show "\<exists>n < unat (extent_size ext). get_pos ext (word_of_int (int n)) = q" if "in_extent ext q"
  proof (intro exI conjI)
    note b = colg.lin_bounds[OF assms that]
    show "nat (sint (col_to_linear ext q)) < unat (extent_size ext)" using b v(1) by linarith
    show "get_pos ext (word_of_int (int (nat (sint (col_to_linear ext q))))) = q"
      using b colg.pos_lin[OF assms that] by simp
  qed
  show "n = m" if "n < unat (extent_size ext)" "m < unat (extent_size ext)"
    "get_pos ext (word_of_int (int n)) = get_pos ext (word_of_int (int m))"
  proof -
    have "(word_of_int (int n) :: i64) = word_of_int (int m)"
      using colg.lin_pos[OF assms r[OF that(1)]] colg.lin_pos[OF assms r[OF that(2)]] that(3) by metis
    then show ?thesis using w[OF that(1)] w[OF that(2)] by simp
  qed
qed


text \<open>
  What a block loop does: inside the destination block each element is combined with the
  element at the same offset of the source block, everything else is untouched.  A source
  block in the same array must not overlap the destination block.
\<close>

definition apart :: "index_t \<Rightarrow> index_t \<Rightarrow> extent_t \<Rightarrow> bool" where
  "apart a b sub = (\<exists>i < length sub. sint (a ! i) + uint (sub ! i) \<le> sint (b ! i) \<or> sint (b ! i) + uint (sub ! i) \<le> sint (a ! i))"

lemma block_loop:
  fixes h :: "'k arrays" and F :: "scalar \<Rightarrow> scalar \<Rightarrow> scalar"
    and ext_of :: "'k \<Rightarrow> extent_t" and dp sp :: index_t
  assumes "good_extent (ext_of d)" "good_extent (ext_of s)" "good_extent ext"
    and "fits (ext_of d) dp ext" "fits (ext_of s) sp ext"
    and "s = d \<Longrightarrow> apart dp sp ext"
  defines "h' \<equiv> host_loop ext (\<lambda>idx h.
       let pos_offset = get_pos ext idx;
           idx_dst = col_to_linear (ext_of d) (vec_add dp pos_offset);
           idx_src = col_to_linear (ext_of s) (vec_add sp pos_offset)
       in h(d := (h d)(idx_dst := F (h d idx_dst) (h s idx_src)))) h"
  shows "in_extent (ext_of d) p \<Longrightarrow> h' d (col_to_linear (ext_of d) p)
      = (if in_block dp ext p
         then F (h d (col_to_linear (ext_of d) p)) (h s (col_to_linear (ext_of s) (vec_add sp (vec_sub p dp))))
         else h d (col_to_linear (ext_of d) p))"
    and "k \<noteq> d \<Longrightarrow> h' k = h k"
proof -
  define P where "P n = get_pos ext (word_of_int (int n))" for n
  define ns where "ns = [0..<unat (extent_size ext)]"
  define L where "L n = col_to_linear (ext_of d) (vec_add dp (P n))" for n
  define R where "R n = col_to_linear (ext_of s) (vec_add sp (P n))" for n
  have f: "length dp = length (ext_of d)" "length ext = length (ext_of d)"
    "length sp = length (ext_of s)" "length ext = length (ext_of s)"
    using assms(4,5) by (simp_all add: fits_def)
  have P: "in_extent ext (P n)" if "n \<in> set ns" for n
    using loop_positions(1)[OF assms(3)] that by (simp add: P_def ns_def)
  note ad = block_add[OF assms(1,4) P] and as = block_add[OF assms(2,5) P]
  have inj: "inj_on L (set ns)"
  proof
    fix n m assume nm: "n \<in> set ns" "m \<in> set ns" "L n = L m"
    have "vec_add dp (P n) = vec_add dp (P m)"
      using nm(3) colg.pos_lin[OF assms(1) ad(1)[OF nm(1)]] colg.pos_lin[OF assms(1) ad(1)[OF nm(2)]]
      unfolding L_def by metis
    then have "vec_sub (vec_add dp (P n)) dp = vec_sub (vec_add dp (P m)) dp" by simp
    then have "P n = P m"
      using in_extent_length[OF P[OF nm(1)]] in_extent_length[OF P[OF nm(2)]] f by (simp add: vec_add_sub)
    then show "n = m" using loop_positions(3)[OF assms(3)] nm by (simp add: P_def ns_def)
  qed
  have sep: "\<forall>n \<in> set ns. \<forall>m \<in> set ns. R n \<noteq> L m" if "s = d"
  proof (intro ballI notI)
    fix n m assume nm: "n \<in> set ns" "m \<in> set ns" "R n = L m"
    have "vec_add sp (P n) = vec_add dp (P m)"
      using nm(3) colg.pos_lin[OF assms(2) as(1)[OF nm(1)]] colg.pos_lin[OF assms(1) ad(1)[OF nm(2)]]
      unfolding L_def R_def \<open>s = d\<close> by metis
    moreover obtain i where i: "i < length ext"
      "sint (dp ! i) + uint (ext ! i) \<le> sint (sp ! i) \<or> sint (sp ! i) + uint (ext ! i) \<le> sint (dp ! i)"
      using assms(6)[OF \<open>s = d\<close>] by (auto simp: apart_def)
    ultimately have "sint (sp ! i) + sint (P n ! i) = sint (dp ! i) + sint (P m ! i)"
      using as(3)[OF nm(1), of i] ad(3)[OF nm(2), of i] f by simp
    moreover have "0 \<le> sint (P n ! i) \<and> sint (P n ! i) < uint (ext ! i)" "0 \<le> sint (P m ! i) \<and> sint (P m ! i) < uint (ext ! i)"
      using P[OF nm(1)] P[OF nm(2)] i in_extent_length[OF P[OF nm(1)]] in_extent_length[OF P[OF nm(2)]]
      by (simp_all add: in_extent_iff)
    ultimately show False using i(2) by linarith
  qed
  have h': "h' = h(d := (\<lambda>x. if x \<in> L ` set ns then F (h d x) (h s (R (the_inv_into (set ns) L x))) else h d x))"
    unfolding h'_def host_loop_def Let_def P_def[symmetric] L_def[symmetric] R_def[symmetric] ns_def[symmetric]
    by (rule scatter[OF _ inj sep]) (simp_all add: ns_def)
  show "h' k = h k" if "k \<noteq> d" unfolding h' using that by simp
  show "h' d (col_to_linear (ext_of d) p)
      = (if in_block dp ext p
         then F (h d (col_to_linear (ext_of d) p)) (h s (col_to_linear (ext_of s) (vec_add sp (vec_sub p dp))))
         else h d (col_to_linear (ext_of d) p))" if p: "in_extent (ext_of d) p"
  proof (cases "in_block dp ext p")
    case True
    note b = block_sub(1)[OF assms(1,4) p True]
    obtain n where n: "n \<in> set ns" "P n = vec_sub p dp"
      using loop_positions(2)[OF assms(3) b] by (auto simp: P_def ns_def)
    have "L n = col_to_linear (ext_of d) p"
      unfolding L_def n(2) using in_extent_length[OF p] f by (simp add: vec_sub_add)
    moreover have "the_inv_into (set ns) L (L n) = n" by (rule the_inv_into_f_f[OF inj n(1)])
    moreover have "L n \<in> L ` set ns" using n(1) by (rule imageI)
    ultimately show ?thesis using True n by (simp add: h' R_def)
  next
    case False
    have "col_to_linear (ext_of d) p \<notin> L ` set ns"
    proof
      assume "col_to_linear (ext_of d) p \<in> L ` set ns"
      then obtain n where n: "n \<in> set ns" "col_to_linear (ext_of d) p = L n" by auto
      then have "p = vec_add dp (P n)"
        using colg.pos_lin[OF assms(1) p] colg.pos_lin[OF assms(1) ad(1)[OF n(1)]] unfolding L_def by metis
      then show False using ad(2)[OF n(1)] False by simp
    qed
    then show ?thesis using False by (simp add: h')
  qed
qed


text \<open>The two host loops as block loops.\<close>

lemma array_copy_block:
  "array_copy ext_of d s dp sp ext h = host_loop ext (\<lambda>idx h.
       let pos_offset = get_pos ext idx;
           idx_dst = col_to_linear (ext_of d) (vec_add dp pos_offset);
           idx_src = col_to_linear (ext_of s) (vec_add sp pos_offset)
       in h(d := (h d)(idx_dst := (\<lambda>a b. b) (h d idx_dst) (h s idx_src)))) h"
  by (simp add: array_copy_def)

lemma array_add_block:
  "array_add ext_of d s dp sp ext scale h = host_loop ext (\<lambda>idx h.
       let pos_offset = get_pos ext idx;
           idx_dst = col_to_linear (ext_of d) (vec_add dp pos_offset);
           idx_src = col_to_linear (ext_of s) (vec_add sp pos_offset)
       in h(d := (h d)(idx_dst := (\<lambda>a b. a + b * scale) (h d idx_dst) (h s idx_src)))) h"
  by (simp add: array_add_def)

lemmas array_copy_at = block_loop[where F = "\<lambda>a b. b", folded array_copy_block]
lemmas array_add_at = block_loop[where F = "\<lambda>a b. a + b * scale" for scale, folded array_add_block]

end
