(* ===== verification/GuardCells.thy ===== *)
theory GuardCells
  imports MultiArray
begin

text \<open>
  The exchange of guard cells between the blocks of a decomposed grid: the
  \<open>*_guard_cells*\<close> operations of \<open>src/systems/domain_comm_impl.hpp\<close>.  Each rank has a
  store of arrays: the components of the field and the communication buffers.
  \<open>MPI_Sendrecv\<close> belongs to the MPI library: what it delivers is the argument \<open>msg\<close> of
  the operation of one rank, and \<open>MPI_PROC_NULL\<close> is the argument \<open>null\<close>.  In the
  operation of all ranks together the message is the send buffer of the rank of origin,
  as MPI documents.
\<close>

datatype comm_array = component nat
  | m_send_buffers nat | m_recv_buffers nat | m_send_vec_buffers nat | m_recv_vec_buffers nat

subsection \<open>The buffers\<close>

text \<open>The extents computed in \<open>resize_buffers\<close>.\<close>

definition buffer_extent :: "Grid \<Rightarrow> nat \<Rightarrow> extent_t" where
  "buffer_extent g i = map (\<lambda>j. if j = i then g_guard g ! j else g_dims g ! j) [0..<g_dim g]"

definition vec_buffer_extent :: "Grid \<Rightarrow> nat \<Rightarrow> extent_t" where
  "vec_buffer_extent g i =
     (let ext = buffer_extent g i in ext[g_dim g - 1 := ext ! (g_dim g - 1) * 3])"

fun comm_extent :: "Grid \<Rightarrow> comm_array \<Rightarrow> extent_t" where
  "comm_extent g (component n) = extent g"
| "comm_extent g (m_send_buffers i) = buffer_extent g i"
| "comm_extent g (m_recv_buffers i) = buffer_extent g i"
| "comm_extent g (m_send_vec_buffers i) = vec_buffer_extent g i"
| "comm_extent g (m_recv_vec_buffers i) = vec_buffer_extent g i"

subsection \<open>Neighbours and blocks\<close>

definition dest_rank :: "domain_info \<Rightarrow> nat \<Rightarrow> int \<Rightarrow> int" where
  "dest_rank info d dir = (if dir = - 1 then neighbor_left info ! d else neighbor_right info ! d)"

definition origin_rank :: "domain_info \<Rightarrow> nat \<Rightarrow> int \<Rightarrow> int" where
  "origin_rank info d dir = (if dir = - 1 then neighbor_right info ! d else neighbor_left info ! d)"

definition zero_index :: "Grid \<Rightarrow> index_t" where "zero_index g = replicate (g_dim g) 0"

definition guard_send_idx :: "Grid \<Rightarrow> nat \<Rightarrow> int \<Rightarrow> index_t" where
  "guard_send_idx g d dir =
     (zero_index g)[d := if dir = - 1 then g_guard g ! d else g_dims g ! d - 2 * g_guard g ! d]"

definition guard_recv_idx :: "Grid \<Rightarrow> nat \<Rightarrow> int \<Rightarrow> index_t" where
  "guard_recv_idx g d dir = (zero_index g)[d := if dir = - 1 then g_dims g ! d - g_guard g ! d else 0]"

definition add_send_idx :: "Grid \<Rightarrow> nat \<Rightarrow> int \<Rightarrow> index_t" where
  "add_send_idx g d dir = (zero_index g)[d := if dir = - 1 then 0 else g_dims g ! d - g_guard g ! d]"

definition add_recv_idx :: "Grid \<Rightarrow> nat \<Rightarrow> int \<Rightarrow> index_t" where
  "add_recv_idx g d dir =
     (zero_index g)[d := if dir = - 1 then g_dims g ! d - 2 * g_guard g ! d else g_guard g ! d]"

text \<open>The part of a bundled buffer that belongs to component \<open>n\<close>.\<close>

definition vec_buf_idx :: "Grid \<Rightarrow> nat \<Rightarrow> nat \<Rightarrow> index_t" where
  "vec_buf_idx g d n =
     (zero_index g)[g_dim g - 1 := of_nat n * buffer_extent g d ! (g_dim g - 1)]"

text \<open>\<open>MPI_Sendrecv\<close> fills the receive buffer with the message; none arrives from \<open>MPI_PROC_NULL\<close>.\<close>

definition mpi_recv :: "u32 \<Rightarrow> comm_array \<Rightarrow> field option \<Rightarrow> comm_array arrays \<Rightarrow> comm_array arrays" where
  "mpi_recv sz buf msg h =
     (case msg of None \<Rightarrow> h | Some m \<Rightarrow> h(buf := (\<lambda>i. if uint i < uint sz then m i else h buf i)))"

subsection \<open>One direction, on one rank\<close>

definition pack_array :: "Grid \<Rightarrow> nat \<Rightarrow> index_t \<Rightarrow> comm_array \<Rightarrow> comm_array arrays \<Rightarrow> comm_array arrays" where
  "pack_array g d send_idx a =
     array_copy (comm_extent g) (m_send_buffers d) a (zero_index g) send_idx (buffer_extent g d)"

definition send_array_guard_cells_single_dir ::
  "int \<Rightarrow> int \<Rightarrow> domain_info \<Rightarrow> Grid \<Rightarrow> comm_array \<Rightarrow> nat \<Rightarrow> int \<Rightarrow> field option \<Rightarrow>
   comm_array arrays \<Rightarrow> comm_array arrays" where
  "send_array_guard_cells_single_dir null rank info g a d dir msg h =
     (if d \<ge> g_dim g then h
      else
        let dest = dest_rank info d dir; origin = origin_rank info d dir;
            send_idx = guard_send_idx g d dir; recv_idx = guard_recv_idx g d dir; ext = buffer_extent g d
        in if dest = rank \<and> origin = rank
           then array_copy (comm_extent g) a a recv_idx send_idx ext h
           else
             let h = pack_array g d send_idx a h;
                 h = mpi_recv (extent_size ext) (m_recv_buffers d) msg h
             in if origin \<noteq> null
                then array_copy (comm_extent g) a (m_recv_buffers d) recv_idx (zero_index g) ext h
                else h)"

definition send_add_array_guard_cells_single_dir ::
  "int \<Rightarrow> int \<Rightarrow> domain_info \<Rightarrow> Grid \<Rightarrow> comm_array \<Rightarrow> nat \<Rightarrow> int \<Rightarrow> field option \<Rightarrow>
   comm_array arrays \<Rightarrow> comm_array arrays" where
  "send_add_array_guard_cells_single_dir null rank info g a d dir msg h =
     (if d \<ge> g_dim g then h
      else
        let dest = dest_rank info d dir; origin = origin_rank info d dir;
            send_idx = add_send_idx g d dir; recv_idx = add_recv_idx g d dir; ext = buffer_extent g d
        in if dest = rank \<and> origin = rank
           then array_add (comm_extent g) a a recv_idx send_idx ext 1 h
           else
             let h = pack_array g d send_idx a h;
                 h = mpi_recv (extent_size ext) (m_recv_buffers d) msg h
             in if origin \<noteq> null
                then array_add (comm_extent g) a (m_recv_buffers d) recv_idx (zero_index g) ext 1 h
                else h)"

text \<open>Vector fields: the three components travel in one buffer.\<close>

definition pack_vector :: "Grid \<Rightarrow> nat \<Rightarrow> index_t \<Rightarrow> comm_array arrays \<Rightarrow> comm_array arrays" where
  "pack_vector g d send_idx h =
     foldl (\<lambda>h n. array_copy (comm_extent g) (m_send_vec_buffers d) (component n)
                    (vec_buf_idx g d n) send_idx (buffer_extent g d) h) h [0..<3]"

definition send_vector_field_guard_cells_single_dir ::
  "int \<Rightarrow> int \<Rightarrow> domain_info \<Rightarrow> Grid \<Rightarrow> nat \<Rightarrow> int \<Rightarrow> field option \<Rightarrow>
   comm_array arrays \<Rightarrow> comm_array arrays" where
  "send_vector_field_guard_cells_single_dir null rank info g d dir msg h =
     (if d \<ge> g_dim g then h
      else
        let dest = dest_rank info d dir; origin = origin_rank info d dir;
            send_idx = guard_send_idx g d dir; recv_idx = guard_recv_idx g d dir; ext = buffer_extent g d
        in if dest = rank \<and> origin = rank
           then foldl (\<lambda>h n. array_copy (comm_extent g) (component n) (component n) recv_idx send_idx ext h) h [0..<3]
           else
             let h = pack_vector g d send_idx h;
                 h = mpi_recv (extent_size (vec_buffer_extent g d)) (m_recv_vec_buffers d) msg h
             in if origin \<noteq> null
                then foldl (\<lambda>h n. array_copy (comm_extent g) (component n) (m_recv_vec_buffers d)
                              recv_idx (vec_buf_idx g d n) ext h) h [0..<3]
                else h)"

definition send_add_vector_field_guard_cells_single_dir ::
  "int \<Rightarrow> int \<Rightarrow> domain_info \<Rightarrow> Grid \<Rightarrow> nat \<Rightarrow> int \<Rightarrow> field option \<Rightarrow>
   comm_array arrays \<Rightarrow> comm_array arrays" where
  "send_add_vector_field_guard_cells_single_dir null rank info g d dir msg h =
     (if d \<ge> g_dim g then h
      else
        let dest = dest_rank info d dir; origin = origin_rank info d dir;
            send_idx = add_send_idx g d dir; recv_idx = add_recv_idx g d dir; ext = buffer_extent g d
        in if dest = rank \<and> origin = rank
           then foldl (\<lambda>h n. array_add (comm_extent g) (component n) (component n) recv_idx send_idx ext 1 h) h [0..<3]
           else
             let h = pack_vector g d send_idx h;
                 h = mpi_recv (extent_size (vec_buffer_extent g d)) (m_recv_vec_buffers d) msg h
             in if origin \<noteq> null
                then foldl (\<lambda>h n. array_add (comm_extent g) (component n) (m_recv_vec_buffers d)
                              recv_idx (vec_buf_idx g d n) ext 1 h) h [0..<3]
                else h)"

subsection \<open>All ranks together\<close>

text \<open>
  Every rank runs the same sequence of exchanges.  \<open>infos\<close> gives the domain information
  of each rank, a world its arrays.
\<close>

type_synonym world = "int \<Rightarrow> comm_array arrays"

definition incoming :: "int \<Rightarrow> int \<Rightarrow> field \<Rightarrow> field option" where
  "incoming null origin buf = (if origin = null then None else Some buf)"

definition exchange_array :: "int \<Rightarrow> (int \<Rightarrow> domain_info) \<Rightarrow> Grid \<Rightarrow> comm_array \<Rightarrow> world \<Rightarrow> nat \<times> int \<Rightarrow> world" where
  "exchange_array null infos g a W = (\<lambda>(d, dir) r.
     let src = origin_rank (infos r) d dir
     in send_array_guard_cells_single_dir null r (infos r) g a d dir
          (incoming null src (pack_array g d (guard_send_idx g d dir) a (W src) (m_send_buffers d))) (W r))"

definition exchange_add_array :: "int \<Rightarrow> (int \<Rightarrow> domain_info) \<Rightarrow> Grid \<Rightarrow> comm_array \<Rightarrow> world \<Rightarrow> nat \<times> int \<Rightarrow> world" where
  "exchange_add_array null infos g a W = (\<lambda>(d, dir) r.
     let src = origin_rank (infos r) d dir
     in send_add_array_guard_cells_single_dir null r (infos r) g a d dir
          (incoming null src (pack_array g d (add_send_idx g d dir) a (W src) (m_send_buffers d))) (W r))"

definition exchange_vector :: "int \<Rightarrow> (int \<Rightarrow> domain_info) \<Rightarrow> Grid \<Rightarrow> world \<Rightarrow> nat \<times> int \<Rightarrow> world" where
  "exchange_vector null infos g W = (\<lambda>(d, dir) r.
     let src = origin_rank (infos r) d dir
     in send_vector_field_guard_cells_single_dir null r (infos r) g d dir
          (incoming null src (pack_vector g d (guard_send_idx g d dir) (W src) (m_send_vec_buffers d))) (W r))"

definition exchange_add_vector :: "int \<Rightarrow> (int \<Rightarrow> domain_info) \<Rightarrow> Grid \<Rightarrow> world \<Rightarrow> nat \<times> int \<Rightarrow> world" where
  "exchange_add_vector null infos g W = (\<lambda>(d, dir) r.
     let src = origin_rank (infos r) d dir
     in send_add_vector_field_guard_cells_single_dir null r (infos r) g d dir
          (incoming null src (pack_vector g d (add_send_idx g d dir) (W src) (m_send_vec_buffers d))) (W r))"

text \<open>The order of the exchanges.\<close>

definition directions :: "(nat \<times> int) list" where
  "directions = [(0, - 1), (0, 1), (1, - 1), (1, 1), (2, - 1), (2, 1)]"

definition send_guard_cells_array :: "int \<Rightarrow> (int \<Rightarrow> domain_info) \<Rightarrow> Grid \<Rightarrow> comm_array \<Rightarrow> world \<Rightarrow> world" where
  "send_guard_cells_array null infos g a W = foldl (exchange_array null infos g a) W directions"

definition send_add_guard_cells_array :: "int \<Rightarrow> (int \<Rightarrow> domain_info) \<Rightarrow> Grid \<Rightarrow> comm_array \<Rightarrow> world \<Rightarrow> world" where
  "send_add_guard_cells_array null infos g a W = foldl (exchange_add_array null infos g a) W directions"

definition send_guard_cells_vector :: "int \<Rightarrow> (int \<Rightarrow> domain_info) \<Rightarrow> Grid \<Rightarrow> world \<Rightarrow> world" where
  "send_guard_cells_vector null infos g W = foldl (exchange_vector null infos g) W directions"

definition send_add_guard_cells_vector :: "int \<Rightarrow> (int \<Rightarrow> domain_info) \<Rightarrow> Grid \<Rightarrow> world \<Rightarrow> world" where
  "send_add_guard_cells_vector null infos g W = foldl (exchange_add_vector null infos g) W directions"


subsection \<open>The blocks fit\<close>

text \<open>
  The grids of a run: guard cells in every direction, no more than interior cells, and
  buffers whose cells have 31-bit numbers.
\<close>

definition comm_ok :: "Grid \<Rightarrow> bool" where
  "comm_ok g = (grid_ok g \<and> good_extent (extent g) \<and> 3 * uint (g_dims g ! (g_dim g - 1)) < 2 ^ 31
     \<and> list_all (\<lambda>d. 0 < sint (g_guard g ! d) \<and> sint (g_guard g ! d) \<le> uint (g_N g ! d)
          \<and> good_extent (buffer_extent g d) \<and> good_extent (vec_buffer_extent g d)) [0..<g_dim g])"

lemma comm_okD:
  assumes "comm_ok g"
  shows "grid_ok g" "good_extent (extent g)" "3 * uint (g_dims g ! (g_dim g - 1)) < 2 ^ 31"
    and "d < g_dim g \<Longrightarrow> 0 < sint (g_guard g ! d)" "d < g_dim g \<Longrightarrow> sint (g_guard g ! d) \<le> uint (g_N g ! d)"
    "d < g_dim g \<Longrightarrow> good_extent (buffer_extent g d)" "d < g_dim g \<Longrightarrow> good_extent (vec_buffer_extent g d)"
  using assms by (auto simp: comm_ok_def list_all_iff)

lemma extent_lengths [simp]:
  "length (buffer_extent g d) = g_dim g" "length (vec_buffer_extent g d) = g_dim g" "length (zero_index g) = g_dim g"
  "length (guard_send_idx g d dir) = g_dim g" "length (guard_recv_idx g d dir) = g_dim g"
  "length (add_send_idx g d dir) = g_dim g" "length (add_recv_idx g d dir) = g_dim g" "length (vec_buf_idx g d n) = g_dim g"
  by (simp_all add: buffer_extent_def vec_buffer_extent_def Let_def zero_index_def guard_send_idx_def guard_recv_idx_def
      add_send_idx_def add_recv_idx_def vec_buf_idx_def)

lemma extent_length: "comm_ok g \<Longrightarrow> length (extent g) = g_dim g"
  using grid_ok_lengths comm_okD(1) by (simp add: extent_def)

lemma buffer_extent_nth:
  "i < g_dim g \<Longrightarrow> buffer_extent g d ! i = (if i = d then g_guard g ! i else g_dims g ! i)"
  by (simp add: buffer_extent_def)

lemma zero_index_nth [simp]: "i < g_dim g \<Longrightarrow> zero_index g ! i = 0"
  by (simp add: zero_index_def)

text \<open>The four corner positions, as integers.\<close>

lemma grid_words:
  assumes "comm_ok g" "d < g_dim g"
  shows "uint (g_guard g ! d) = sint (g_guard g ! d)"
    and "uint (g_dims g ! d) = uint (g_N g ! d) + 2 * sint (g_guard g ! d)"
    and "sint (g_dims g ! d - g_guard g ! d) = uint (g_N g ! d) + sint (g_guard g ! d)"
    and "sint (g_dims g ! d - 2 * g_guard g ! d) = uint (g_N g ! d)"
proof -
  note o = grid_okD[OF comm_okD(1)[OF assms(1)] assms(2)] and gd = grid_dims[OF comm_okD(1)[OF assms(1)] assms(2)]
  show "uint (g_guard g ! d) = sint (g_guard g ! d)" "uint (g_dims g ! d) = uint (g_N g ! d) + 2 * sint (g_guard g ! d)"
    using gd by simp_all
  have "uint (g_dims g ! d - g_guard g ! d) < 2 ^ 31" unfolding gd(4) using o(5,6) by linarith
  then show "sint (g_dims g ! d - g_guard g ! d) = uint (g_N g ! d) + sint (g_guard g ! d)"
    using sint_eq_uint32 gd(4) by simp
  have "g_dims g ! d - 2 * g_guard g ! d = g_N g ! d" using o(7) by simp
  moreover have "uint (g_N g ! d) < 2 ^ 31" using o(5,6) by linarith
  ultimately show "sint (g_dims g ! d - 2 * g_guard g ! d) = uint (g_N g ! d)"
    using sint_eq_uint32 by simp
qed

definition send_at :: "Grid \<Rightarrow> nat \<Rightarrow> int \<Rightarrow> int" where
  "send_at g d dir = (if dir = - 1 then sint (g_guard g ! d) else uint (g_N g ! d))"

definition recv_at :: "Grid \<Rightarrow> nat \<Rightarrow> int \<Rightarrow> int" where
  "recv_at g d dir = (if dir = - 1 then uint (g_N g ! d) + sint (g_guard g ! d) else 0)"

lemma guard_idx_nth:
  assumes "comm_ok g" "d < g_dim g" "i < g_dim g"
  shows "sint (guard_send_idx g d dir ! i) = (if i = d then send_at g d dir else 0)"
    and "sint (guard_recv_idx g d dir ! i) = (if i = d then recv_at g d dir else 0)"
    and "sint (add_send_idx g d dir ! i) = (if i = d then (if dir = - 1 then 0 else recv_at g d (- 1)) else 0)"
    and "sint (add_recv_idx g d dir ! i) = (if i = d then (if dir = - 1 then uint (g_N g ! d) else sint (g_guard g ! d)) else 0)"
  using assms grid_words[OF assms(1,2)]
  by (simp_all add: guard_send_idx_def guard_recv_idx_def add_send_idx_def add_recv_idx_def send_at_def recv_at_def
      zero_index_def)

lemma fits_slab:
  assumes "comm_ok g" "d < g_dim g" "length idx = g_dim g"
    and "\<And>i. i < g_dim g \<Longrightarrow> sint (idx ! i) = (if i = d then k else 0)"
    and "0 \<le> k" "k \<le> uint (g_N g ! d) + sint (g_guard g ! d)"
  shows "fits (extent g) idx (buffer_extent g d)"
proof -
  have "0 \<le> sint (idx ! i) \<and> sint (idx ! i) + uint (buffer_extent g d ! i) \<le> uint (g_dims g ! i)" if "i < g_dim g" for i
    using assms(4)[OF that] assms(5,6) grid_words(1,2)[OF assms(1) that] that
    by (auto simp: buffer_extent_nth)
  then show ?thesis using assms(1,3) extent_length[OF assms(1)] by (simp add: fits_def extent_def)
qed

lemma fits_guard:
  assumes "comm_ok g" "d < g_dim g"
  shows "fits (extent g) (guard_send_idx g d dir) (buffer_extent g d)"
    and "fits (extent g) (guard_recv_idx g d dir) (buffer_extent g d)"
    and "fits (extent g) (add_send_idx g d dir) (buffer_extent g d)"
    and "fits (extent g) (add_recv_idx g d dir) (buffer_extent g d)"
proof -
  note s = fits_slab[OF assms] and w = comm_okD(4,5)[OF assms(1,2)] grid_okD(4)[OF comm_okD(1)[OF assms(1)] assms(2)]
  show "fits (extent g) (guard_send_idx g d dir) (buffer_extent g d)"
    by (rule s[OF _ guard_idx_nth(1)[OF assms]]) (use w in \<open>auto simp: send_at_def\<close>)
  show "fits (extent g) (guard_recv_idx g d dir) (buffer_extent g d)"
    by (rule s[OF _ guard_idx_nth(2)[OF assms]]) (use w in \<open>auto simp: recv_at_def\<close>)
  show "fits (extent g) (add_send_idx g d dir) (buffer_extent g d)"
    by (rule s[OF _ guard_idx_nth(3)[OF assms]]) (use w in \<open>auto simp: recv_at_def\<close>)
  show "fits (extent g) (add_recv_idx g d dir) (buffer_extent g d)"
    by (rule s[OF _ guard_idx_nth(4)[OF assms]]) (use w in auto)
qed

lemma fits_zero: "fits (buffer_extent g d) (zero_index g) (buffer_extent g d)"
  by (simp add: fits_def)

lemma vec_words:
  assumes "comm_ok g" "d < g_dim g" "n < 3"
  shows "i < g_dim g \<Longrightarrow>
      sint (vec_buf_idx g d n ! i) = (if i = g_dim g - 1 then int n * uint (buffer_extent g d ! i) else 0)"
    and "i < g_dim g \<Longrightarrow> uint (vec_buffer_extent g d ! i)
      = (if i = g_dim g - 1 then 3 * uint (buffer_extent g d ! i) else uint (buffer_extent g d ! i))"
proof -
  let ?l = "g_dim g - 1"
  let ?b = "buffer_extent g d ! ?l"
  have l: "?l < g_dim g" using assms(2) by simp
  have "uint ?b \<le> uint (g_dims g ! ?l)"
    using l grid_words(1,2)[OF assms(1) l] grid_okD(4,5)[OF comm_okD(1)[OF assms(1)] l] by (auto simp: buffer_extent_nth)
  then have b: "3 * uint ?b < 2 ^ 31" using comm_okD(3)[OF assms(1)] by linarith
  have "int n * uint ?b \<le> 3 * uint ?b" using assms(3) by (intro mult_right_mono) simp_all
  then have nb: "int n * uint ?b < 2 ^ 31" "0 \<le> int n * uint ?b" using b by simp_all
  have "- (2 ^ 31) \<le> int n * uint ?b" by (rule order.trans[OF _ nb(2)]) simp
  then have s: "sint (word_of_int (int n * uint ?b) :: u32) = int n * uint ?b" using sint_of_int32 nb(1) by blast
  have e: "(word_of_int (int n * uint ?b) :: u32) = of_nat n * ?b" by simp
  show "sint (vec_buf_idx g d n ! i) = (if i = ?l then int n * uint (buffer_extent g d ! i) else 0)" if "i < g_dim g"
    using that s[unfolded e] by (simp add: vec_buf_idx_def zero_index_def)
  have "uint (word_of_int (3 * uint ?b) :: u32) = 3 * uint ?b"
    by (rule uint_of_int32) (use b in simp_all)
  moreover have "(word_of_int (3 * uint ?b) :: u32) = ?b * 3" by (simp add: mult.commute)
  ultimately have "uint (?b * 3) = 3 * uint ?b" by (simp only:)
  then show "uint (vec_buffer_extent g d ! i) = (if i = ?l then 3 * uint (buffer_extent g d ! i) else uint (buffer_extent g d ! i))"
    if "i < g_dim g"
    using that by (simp add: vec_buffer_extent_def Let_def)
qed

lemma fits_vec:
  assumes "comm_ok g" "d < g_dim g" "n < 3"
  shows "fits (vec_buffer_extent g d) (vec_buf_idx g d n) (buffer_extent g d)"
proof -
  have "int n * b + b \<le> 3 * b" if "0 \<le> b" for b :: int
    using mult_right_mono[OF _ that, of "int n + 1" 3] assms(3) by (simp add: algebra_simps)
  then show ?thesis using vec_words[OF assms] by (auto simp: fits_def)
qed


subsection \<open>What one exchange does\<close>

lemma lin_less:
  assumes "good_extent ext" "in_extent ext q"
  shows "uint (col_to_linear ext q) < uint (extent_size ext)"
proof -
  note b = colg.lin_bounds[OF assms]
  have "uint (extent_size ext) = volume ext" using assms(1) by (intro uint_extent_size) (simp add: good_extent_def)
  then show ?thesis using b uint_eq_sint64[of "col_to_linear ext q"] by simp
qed

lemma vec_add_zero: "length x = g_dim g \<Longrightarrow> vec_add (zero_index g) x = x"
  by (rule nth_equalityI) (simp_all add: vec_add_nth)

lemma vec_sub_zero: "length x = g_dim g \<Longrightarrow> vec_sub x (zero_index g) = x"
  by (rule nth_equalityI) (simp_all add: vec_sub_nth)

lemma apart_guard:
  assumes "comm_ok g" "d < g_dim g"
  shows "apart (guard_recv_idx g d dir) (guard_send_idx g d dir) (buffer_extent g d)"
    and "apart (add_recv_idx g d dir) (add_send_idx g d dir) (buffer_extent g d)"
  using assms guard_idx_nth[OF assms(1,2,2)] grid_words[OF assms] comm_okD(4,5)[OF assms(1,2)]
  by (auto simp: apart_def send_at_def recv_at_def buffer_extent_nth intro!: exI[of _ d])

text \<open>The packed slab is the slab of the field.\<close>

lemma pack_array_at:
  assumes "comm_ok g" "d < g_dim g" "fits (extent g) idx (buffer_extent g d)" "in_extent (buffer_extent g d) q"
  shows "pack_array g d idx (component n) h (m_send_buffers d) (col_to_linear (buffer_extent g d) q)
    = h (component n) (col_to_linear (extent g) (vec_add idx q))"
proof -
  have "in_block (zero_index g) (buffer_extent g d) q"
    using assms(4) in_extent_length[OF assms(4)] by (simp add: in_block_def in_extent_iff)
  then show ?thesis
    using array_copy_at(1)[of "comm_extent g" "m_send_buffers d" "component n" "buffer_extent g d" "zero_index g" idx q h]
      comm_okD(2)[OF assms(1)] comm_okD(6)[OF assms(1,2)] assms(3,4) fits_zero[of g d] in_extent_length[OF assms(4)]
    by (simp add: pack_array_def vec_sub_zero)
qed

lemma pack_array_other: "k \<noteq> m_send_buffers d \<Longrightarrow> comm_ok g \<Longrightarrow> d < g_dim g \<Longrightarrow>
    fits (extent g) idx (buffer_extent g d) \<Longrightarrow> pack_array g d idx (component n) h k = h k"
  unfolding pack_array_def
  by (rule array_copy_at(2)) (simp_all add: comm_okD(2) comm_okD(6) fits_zero)

text \<open>The slab arrives in the receive buffer.\<close>

lemma received_at:
  assumes "comm_ok g" "d < g_dim g" "fits (extent g) idx (buffer_extent g d)" "in_extent (buffer_extent g d) q"
    and "src \<noteq> null"
  shows "mpi_recv (extent_size (buffer_extent g d)) (m_recv_buffers d)
      (incoming null src (pack_array g d idx (component n) h (m_send_buffers d))) h' (m_recv_buffers d)
      (col_to_linear (buffer_extent g d) q)
    = h (component n) (col_to_linear (extent g) (vec_add idx q))"
  using assms(5) lin_less[OF comm_okD(6)[OF assms(1,2)] assms(4)] pack_array_at[OF assms(1-4)]
  by (simp add: mpi_recv_def incoming_def)

lemma mpi_recv_other: "k \<noteq> buf \<Longrightarrow> mpi_recv sz buf msg h k = h k"
  by (simp add: mpi_recv_def split: option.splits)

definition moved_pos :: "index_t \<Rightarrow> index_t \<Rightarrow> index_t \<Rightarrow> index_t" where
  "moved_pos send_idx recv_idx p = vec_add send_idx (vec_sub p recv_idx)"

lemma exchange_array_at:
  fixes infos :: "int \<Rightarrow> domain_info" and dir r :: int and d :: nat
  assumes "comm_ok g" "d < g_dim g" "r \<noteq> null" "in_extent (extent g) p"
  defines "src \<equiv> origin_rank (infos r) d dir"
  shows "exchange_array null infos g (component n) W (d, dir) r (component n) (col_to_linear (extent g) p)
    = (if in_block (guard_recv_idx g d dir) (buffer_extent g d) p \<and> src \<noteq> null
       then W src (component n) (col_to_linear (extent g) (moved_pos (guard_send_idx g d dir) (guard_recv_idx g d dir) p))
       else W r (component n) (col_to_linear (extent g) p))"
proof (cases "dest_rank (infos r) d dir = r \<and> src = r")
  case True
  then show ?thesis
    using array_copy_at(1)[of "comm_extent g" "component n" "component n" "buffer_extent g d" "guard_recv_idx g d dir"
        "guard_send_idx g d dir" p "W r"] comm_okD(2)[OF assms(1)] comm_okD(6)[OF assms(1,2)] assms(2-4)
      fits_guard[OF assms(1,2)] apart_guard[OF assms(1,2)] moved_pos_def
    by (simp add: exchange_array_def send_array_guard_cells_single_dir_def src_def[symmetric])
next
  case False
  let ?e = "buffer_extent g d" and ?s = "guard_send_idx g d dir" and ?t = "guard_recv_idx g d dir"
  define h where "h = mpi_recv (extent_size ?e) (m_recv_buffers d)
      (incoming null src (pack_array g d ?s (component n) (W src) (m_send_buffers d)))
      (pack_array g d ?s (component n) (W r))"
  have hc: "h (component n) = W r (component n)"
    unfolding h_def using fits_guard(1)[OF assms(1,2)] assms(1,2) by (simp add: mpi_recv_other pack_array_other)
  have e: "exchange_array null infos g (component n) W (d, dir) r
      = (if src \<noteq> null then array_copy (comm_extent g) (component n) (m_recv_buffers d) ?t (zero_index g) ?e h else h)"
    using False assms(2) by (auto simp: exchange_array_def send_array_guard_cells_single_dir_def Let_def src_def h_def)
  show ?thesis
  proof (cases "src \<noteq> null")
    case True
    have q: "in_extent ?e (vec_sub p ?t)" if "in_block ?t ?e p"
      using block_sub(1)[OF comm_okD(2)[OF assms(1)] fits_guard(2)[OF assms(1,2)] assms(4) that] .
    show ?thesis
      unfolding e using True assms(4) hc fits_guard(2)[OF assms(1,2)] fits_zero[of g d]
        comm_okD(2)[OF assms(1)] comm_okD(6)[OF assms(1,2)]
        array_copy_at(1)[of "comm_extent g" "component n" "m_recv_buffers d" ?e ?t "zero_index g" p h]
        received_at[OF assms(1,2) fits_guard(1)[OF assms(1,2)] q True]
        in_extent_length[OF assms(4)] extent_length[OF assms(1)]
      by (simp add: vec_add_zero moved_pos_def h_def)
  qed (simp add: e hc)
qed


subsection \<open>Vector fields\<close>

text \<open>A loop over the components that changes one component at a time.\<close>

lemma component_loop:
  assumes "n < 3" "\<And>k h b. b \<noteq> component k \<Longrightarrow> k < 3 \<Longrightarrow> step h k b = h b"
  shows "\<exists>h'. (\<forall>b. (\<forall>k. k \<noteq> n \<longrightarrow> b \<noteq> component k) \<longrightarrow> h' b = h b)
    \<and> foldl step h [0..<3] (component n) = step h' n (component n)"
proof -
  have l: "foldl step h [0..<3] = step (step (step h 0) 1) 2" by (simp add: upt_rec numeral_3_eq_3 numeral_2_eq_2)
  consider "n = 0" | "n = 1" | "n = 2" using assms(1) by linarith
  then show ?thesis
  proof cases
    case 1
    then show ?thesis unfolding l by (intro exI[of _ h]) (simp add: assms(2))
  next
    case 2
    then show ?thesis unfolding l by (intro exI[of _ "step h 0"]) (simp add: assms(2))
  next
    case 3
    then show ?thesis unfolding l by (intro exI[of _ "step (step h 0) 1"]) (simp add: assms(2))
  qed
qed

lemma component_loop_other:
  assumes "\<And>k h b. b \<noteq> component k \<Longrightarrow> k < 3 \<Longrightarrow> step h k b = h b" "\<forall>k. b \<noteq> component k"
  shows "foldl step h [0..<3] b = h b"
proof -
  have "foldl step h [0..<3] = step (step (step h 0) 1) 2" by (simp add: upt_rec numeral_3_eq_3 numeral_2_eq_2)
  then show ?thesis using assms by simp
qed

text \<open>The parts of a bundled buffer do not overlap.\<close>

lemma vec_blocks_apart:
  assumes "comm_ok g" "d < g_dim g" "n < 3" "m < 3" "n \<noteq> m" "in_extent (buffer_extent g d) q"
  shows "\<not> in_block (vec_buf_idx g d m) (buffer_extent g d) (vec_add (vec_buf_idx g d n) q)"
proof
  let ?l = "g_dim g - 1" and ?e = "buffer_extent g d"
  assume b: "in_block (vec_buf_idx g d m) ?e (vec_add (vec_buf_idx g d n) q)"
  have l: "?l < g_dim g" using assms(2) by simp
  have "sint (vec_add (vec_buf_idx g d n) q ! ?l) = int n * uint (?e ! ?l) + sint (q ! ?l)"
    using block_add(3)[OF comm_okD(7)[OF assms(1,2)] fits_vec[OF assms(1,2,3)] assms(6), of ?l] l
      vec_words(1)[OF assms(1,2,3) l] by simp
  moreover have "int m * uint (?e ! ?l) \<le> sint (vec_add (vec_buf_idx g d n) q ! ?l)"
    "sint (vec_add (vec_buf_idx g d n) q ! ?l) < int m * uint (?e ! ?l) + uint (?e ! ?l)"
    using b[unfolded in_block_def extent_lengths, rule_format, OF l] vec_words(1)[OF assms(1,2,4) l] by simp_all
  moreover have "0 \<le> sint (q ! ?l)" "sint (q ! ?l) < uint (?e ! ?l)"
    using assms(6) in_extent_length[OF assms(6)] l by (simp_all add: in_extent_iff)
  ultimately have "int n * uint (?e ! ?l) < (int m + 1) * uint (?e ! ?l)" "int m * uint (?e ! ?l) < (int n + 1) * uint (?e ! ?l)"
    by (simp_all add: algebra_simps)
  then have "int n < int m + 1" "int m < int n + 1" by (simp_all add: mult_less_cancel_right)
  then show False using assms(5) by simp
qed

lemma pack_vector_at:
  assumes "comm_ok g" "d < g_dim g" "n < 3" "fits (extent g) idx (buffer_extent g d)" "in_extent (buffer_extent g d) q"
  shows "pack_vector g d idx h (m_send_vec_buffers d) (col_to_linear (vec_buffer_extent g d) (vec_add (vec_buf_idx g d n) q))
    = h (component n) (col_to_linear (extent g) (vec_add idx q))"
proof -
  let ?step = "\<lambda>h k. array_copy (comm_extent g) (m_send_vec_buffers d) (component k) (vec_buf_idx g d k) idx (buffer_extent g d) h"
  let ?x = "col_to_linear (vec_buffer_extent g d) (vec_add (vec_buf_idx g d n) q)"
  note b = block_add[OF comm_okD(7)[OF assms(1,2)] fits_vec[OF assms(1,2,3)] assms(5)]
  have other: "?step h k (component j) = h (component j)" if "k < 3" for h k j
    by (rule array_copy_at(2)) (simp_all add: comm_okD[OF assms(1)] assms(2,4) fits_vec[OF assms(1,2) that])
  have here: "?step h k (m_send_vec_buffers d) ?x
      = (if k = n then h (component n) (col_to_linear (extent g) (vec_add idx q)) else h (m_send_vec_buffers d) ?x)"
    if "k < 3" for h k
    using array_copy_at(1)[of "comm_extent g" "m_send_vec_buffers d" "component k" "buffer_extent g d" "vec_buf_idx g d k" idx
        "vec_add (vec_buf_idx g d n) q" h] comm_okD[OF assms(1)] assms(2,4) fits_vec[OF assms(1,2) that] b(1,2)
      vec_blocks_apart[OF assms(1,2,3) that _ assms(5)] in_extent_length[OF assms(5)]
    by (auto simp: vec_add_sub)
  have "foldl ?step h ks (component n) = h (component n) \<and> foldl ?step h ks (m_send_vec_buffers d) ?x
      = (if n \<in> set ks then h (component n) (col_to_linear (extent g) (vec_add idx q)) else h (m_send_vec_buffers d) ?x)"
    if "set ks \<subseteq> {..<3}" for ks
    using that by (induction ks rule: rev_induct) (auto simp: here other)
  from this[of "[0..<3]"] show ?thesis using assms(3) by (simp add: pack_vector_def subset_iff)
qed

lemma pack_vector_other:
  assumes "comm_ok g" "d < g_dim g" "fits (extent g) idx (buffer_extent g d)"
  shows "pack_vector g d idx h (component k) = h (component k)"
proof -
  let ?step = "\<lambda>h n. array_copy (comm_extent g) (m_send_vec_buffers d) (component n) (vec_buf_idx g d n) idx (buffer_extent g d) h"
  have other: "?step h n (component j) = h (component j)" if "n < 3" for h n j
    by (rule array_copy_at(2)) (simp_all add: comm_okD[OF assms(1)] assms(2,3) fits_vec[OF assms(1,2) that])
  have "foldl ?step h ks (component k) = h (component k)" if "set ks \<subseteq> {..<3}" for ks
    using that by (induction ks rule: rev_induct) (auto simp: other)
  from this[of "[0..<3]"] show ?thesis by (simp add: pack_vector_def subset_iff)
qed

lemma received_vector_at:
  assumes "comm_ok g" "d < g_dim g" "n < 3" "fits (extent g) idx (buffer_extent g d)" "in_extent (buffer_extent g d) q"
    and "src \<noteq> null"
  shows "mpi_recv (extent_size (vec_buffer_extent g d)) (m_recv_vec_buffers d)
      (incoming null src (pack_vector g d idx h (m_send_vec_buffers d))) h' (m_recv_vec_buffers d)
      (col_to_linear (vec_buffer_extent g d) (vec_add (vec_buf_idx g d n) q))
    = h (component n) (col_to_linear (extent g) (vec_add idx q))"
  using assms(6) pack_vector_at[OF assms(1-5)]
    lin_less[OF comm_okD(7)[OF assms(1,2)] block_add(1)[OF comm_okD(7)[OF assms(1,2)] fits_vec[OF assms(1,2,3)] assms(5)]]
  by (simp add: mpi_recv_def incoming_def)


lemma exchange_vector_at:
  fixes infos :: "int \<Rightarrow> domain_info" and dir r :: int and d :: nat
  assumes "comm_ok g" "d < g_dim g" "r \<noteq> null" "in_extent (extent g) p" "n < 3"
  defines "src \<equiv> origin_rank (infos r) d dir"
  shows "exchange_vector null infos g W (d, dir) r (component n) (col_to_linear (extent g) p)
    = (if in_block (guard_recv_idx g d dir) (buffer_extent g d) p \<and> src \<noteq> null
       then W src (component n) (col_to_linear (extent g) (moved_pos (guard_send_idx g d dir) (guard_recv_idx g d dir) p))
       else W r (component n) (col_to_linear (extent g) p))"
proof (cases "dest_rank (infos r) d dir = r \<and> src = r")
  case True
  let ?step = "\<lambda>h n. array_copy (comm_extent g) (component n) (component n) (guard_recv_idx g d dir)
      (guard_send_idx g d dir) (buffer_extent g d) h"
  have other: "?step h k b = h b" if "b \<noteq> component k" "k < 3" for h k b
    by (rule array_copy_at(2))
       (simp_all add: comm_okD[OF assms(1)] assms(2) fits_guard[OF assms(1,2)] apart_guard[OF assms(1,2)] that)
  obtain h' where h0: "\<forall>b. (\<forall>k. k \<noteq> n \<longrightarrow> b \<noteq> component k) \<longrightarrow> h' b = W r b"
    and h1: "foldl ?step (W r) [0..<3] (component n) = ?step h' n (component n)"
    using component_loop[OF assms(5), of ?step "W r"] other by blast
  have h': "h' (component n) = W r (component n)" using h0 by simp
  show ?thesis
    using True array_copy_at(1)[of "comm_extent g" "component n" "component n" "buffer_extent g d" "guard_recv_idx g d dir"
        "guard_send_idx g d dir" p h'] comm_okD(2)[OF assms(1)] comm_okD(6)[OF assms(1,2)] assms(2-4)
      fits_guard[OF assms(1,2)] apart_guard[OF assms(1,2)] moved_pos_def h' h1
    by (simp add: exchange_vector_def send_vector_field_guard_cells_single_dir_def src_def[symmetric])
next
  case False
  let ?e = "buffer_extent g d" and ?s = "guard_send_idx g d dir" and ?t = "guard_recv_idx g d dir"
  define h where "h = mpi_recv (extent_size (vec_buffer_extent g d)) (m_recv_vec_buffers d)
      (incoming null src (pack_vector g d ?s (W src) (m_send_vec_buffers d))) (pack_vector g d ?s (W r))"
  have hc: "h (component k) = W r (component k)" for k
    unfolding h_def using fits_guard(1)[OF assms(1,2)] assms(1,2) by (simp add: mpi_recv_other pack_vector_other)
  let ?step = "\<lambda>h n. array_copy (comm_extent g) (component n) (m_recv_vec_buffers d) ?t (vec_buf_idx g d n) ?e h"
  have e: "exchange_vector null infos g W (d, dir) r = (if src \<noteq> null then foldl ?step h [0..<3] else h)"
    using False assms(2) by (auto simp: exchange_vector_def send_vector_field_guard_cells_single_dir_def Let_def src_def h_def)
  show ?thesis
  proof (cases "src \<noteq> null")
    case True
    have other: "?step h k b = h b" if "b \<noteq> component k" "k < 3" for h k b
      by (rule array_copy_at(2))
         (simp_all add: comm_okD[OF assms(1)] assms(2) fits_guard[OF assms(1,2)] fits_vec[OF assms(1,2)] that)
    obtain h' where h0: "\<forall>b. (\<forall>k. k \<noteq> n \<longrightarrow> b \<noteq> component k) \<longrightarrow> h' b = h b"
      and h1: "foldl ?step h [0..<3] (component n) = ?step h' n (component n)"
      using component_loop[OF assms(5), of ?step h] other by blast
    have h': "h' (component n) = W r (component n)" "h' (m_recv_vec_buffers d) = h (m_recv_vec_buffers d)"
      using h0 hc by simp_all
    have q: "in_extent ?e (vec_sub p ?t)" if "in_block ?t ?e p"
      using block_sub(1)[OF comm_okD(2)[OF assms(1)] fits_guard(2)[OF assms(1,2)] assms(4) that] .
    show ?thesis
      unfolding e using True assms(4) h' h1 fits_guard(2)[OF assms(1,2)] fits_vec[OF assms(1,2,5)]
        comm_okD(2)[OF assms(1)] comm_okD(6,7)[OF assms(1,2)]
        array_copy_at(1)[of "comm_extent g" "component n" "m_recv_vec_buffers d" ?e ?t "vec_buf_idx g d n" p h']
        received_vector_at[OF assms(1,2,5) fits_guard(1)[OF assms(1,2)] q True]
      by (simp add: moved_pos_def h_def)
  qed (simp add: e hc)
qed

end
