(* ===== verification/GuardExchange.thy ===== *)
theory GuardExchange
  imports GuardCells
begin

text \<open>
  The exchanges of \<open>GuardCells\<close> against the field they distribute: the blocks of a
  Cartesian decomposition with periodic or open directions hold one global field, guard
  cells included.  \<open>cart_ok\<close> is what MPI documents of a Cartesian communicator.
\<close>

subsection \<open>The decomposed domain\<close>

definition rank_coord :: "(int \<Rightarrow> domain_info) \<Rightarrow> int \<Rightarrow> nat \<Rightarrow> int" where
  "rank_coord infos r d = sint (mpi_coord (infos r) ! d)"

definition is_neighbor :: "int list \<Rightarrow> (int \<Rightarrow> domain_info) \<Rightarrow> nat \<Rightarrow> int list \<Rightarrow> int \<Rightarrow> nat \<Rightarrow> int \<Rightarrow> int \<Rightarrow> bool" where
  "is_neighbor ranks infos dm P r d step nb =
     (nb \<in> set ranks \<and> list_all (\<lambda>e. rank_coord infos nb e
        = (if e = d then (rank_coord infos r d + step) mod P ! d else rank_coord infos r e)) [0..<dm])"

definition cart_ok :: "int \<Rightarrow> int list \<Rightarrow> (int \<Rightarrow> domain_info) \<Rightarrow> nat \<Rightarrow> int list \<Rightarrow> bool list \<Rightarrow> bool" where
  "cart_ok null ranks infos dm P per = (null \<notin> set ranks \<and>
     list_all (\<lambda>r. list_all (\<lambda>d. let c = rank_coord infos r d; l = neighbor_left (infos r) ! d; rt = neighbor_right (infos r) ! d in
        0 \<le> c \<and> c < P ! d
        \<and> (if c = 0 \<and> \<not> per ! d then l = null else is_neighbor ranks infos dm P r d (- 1) l)
        \<and> (if c = P ! d - 1 \<and> \<not> per ! d then rt = null else is_neighbor ranks infos dm P r d 1 rt)) [0..<dm]) ranks)"

text \<open>The global position of a cell of a rank.\<close>

definition global_pos :: "(int \<Rightarrow> domain_info) \<Rightarrow> Grid \<Rightarrow> int \<Rightarrow> index_t \<Rightarrow> nat \<Rightarrow> int" where
  "global_pos infos g r p d = rank_coord infos r d * uint (g_N g ! d) + (sint (p ! d) - sint (g_guard g ! d))"

definition in_domain :: "(int \<Rightarrow> domain_info) \<Rightarrow> Grid \<Rightarrow> int list \<Rightarrow> bool list \<Rightarrow> int \<Rightarrow> index_t \<Rightarrow> bool" where
  "in_domain infos g P per r p = list_all (\<lambda>d. per ! d \<or>
     0 \<le> global_pos infos g r p d \<and> global_pos infos g r p d < P ! d * uint (g_N g ! d)) [0..<g_dim g]"

definition global_cell :: "(int \<Rightarrow> domain_info) \<Rightarrow> Grid \<Rightarrow> int list \<Rightarrow> bool list \<Rightarrow> int \<Rightarrow> index_t \<Rightarrow> int list" where
  "global_cell infos g P per r p = map (\<lambda>d. if per ! d then global_pos infos g r p d mod (P ! d * uint (g_N g ! d))
     else global_pos infos g r p d) [0..<g_dim g]"

definition inner :: "Grid \<Rightarrow> nat \<Rightarrow> index_t \<Rightarrow> bool" where
  "inner g d p = (sint (g_guard g ! d) \<le> sint (p ! d) \<and> sint (p ! d) < uint (g_N g ! d) + sint (g_guard g ! d))"

text \<open>The direction of the exchange that fills the guard cells on the side of \<open>p\<close>.\<close>

definition side :: "Grid \<Rightarrow> nat \<Rightarrow> index_t \<Rightarrow> int" where
  "side g d p = (if sint (p ! d) < sint (g_guard g ! d) then 1 else - 1)"

definition holds_field ::
  "int list \<Rightarrow> (int \<Rightarrow> domain_info) \<Rightarrow> Grid \<Rightarrow> int list \<Rightarrow> bool list \<Rightarrow> (int list \<Rightarrow> scalar) \<Rightarrow> comm_array \<Rightarrow>
   (nat \<times> int) set \<Rightarrow> world \<Rightarrow> bool" where
  "holds_field ranks infos g P per F a S W = (\<forall>r \<in> set ranks. \<forall>p. in_extent (extent g) p \<longrightarrow> in_domain infos g P per r p \<longrightarrow>
     (\<forall>d < g_dim g. inner g d p \<or> (d, side g d p) \<in> S) \<longrightarrow>
     W r a (col_to_linear (extent g) p) = F (global_cell infos g P per r p))"

subsection \<open>One slab\<close>

lemma cart_okD:
  assumes "cart_ok null ranks infos dm P per" "r \<in> set ranks"
  shows "r \<noteq> null"
    and "d < dm \<Longrightarrow> 0 \<le> rank_coord infos r d \<and> rank_coord infos r d < P ! d"
    and "d < dm \<Longrightarrow> if rank_coord infos r d = 0 \<and> \<not> per ! d then neighbor_left (infos r) ! d = null
      else is_neighbor ranks infos dm P r d (- 1) (neighbor_left (infos r) ! d)"
    and "d < dm \<Longrightarrow> if rank_coord infos r d = P ! d - 1 \<and> \<not> per ! d then neighbor_right (infos r) ! d = null
      else is_neighbor ranks infos dm P r d 1 (neighbor_right (infos r) ! d)"
  using assms by (auto simp: cart_ok_def list_all_iff Let_def)

lemma in_slab:
  assumes "comm_ok g" "d < g_dim g" "in_extent (extent g) p" "dir = 1 \<or> dir = - 1"
  shows "in_block (guard_recv_idx g d dir) (buffer_extent g d) p = (\<not> inner g d p \<and> side g d p = dir)"
proof -
  have p: "0 \<le> sint (p ! i) \<and> sint (p ! i) < uint (g_dims g ! i)" if "i < g_dim g" for i
    using assms(3) that extent_length[OF assms(1)] in_extent_length[OF assms(3)] by (simp add: in_extent_iff) (simp add: extent_def)
  have "in_block (guard_recv_idx g d dir) (buffer_extent g d) p
      = (recv_at g d dir \<le> sint (p ! d) \<and> sint (p ! d) < recv_at g d dir + uint (g_guard g ! d))"
    using p assms(2) by (auto simp: in_block_def guard_idx_nth[OF assms(1,2)] buffer_extent_nth)
  then show ?thesis
    using p[OF assms(2)] grid_words[OF assms(1,2)] comm_okD(4)[OF assms(1,2)] grid_okD(4)[OF comm_okD(1)[OF assms(1)] assms(2)] assms(4)
    by (auto simp: recv_at_def inner_def side_def)
qed

lemma moved_pos_props:
  fixes dir :: int and g :: Grid and d :: nat and p :: index_t
  assumes "comm_ok g" "d < g_dim g" "in_extent (extent g) p" "in_block (guard_recv_idx g d dir) (buffer_extent g d) p"
  defines "q \<equiv> moved_pos (guard_send_idx g d dir) (guard_recv_idx g d dir) p"
  shows "in_extent (extent g) q"
    and "i < g_dim g \<Longrightarrow> sint (q ! i) = (if i = d then sint (p ! d) + send_at g d dir - recv_at g d dir else sint (p ! i))"
proof -
  have ge: "good_extent (extent g)" by (rule comm_okD(2)[OF assms(1)])
  note s = block_sub[OF ge fits_guard(2)[OF assms(1,2)] assms(3,4)]
  note t = block_add[OF ge fits_guard(1)[OF assms(1,2), of dir] s(1)]
  show "in_extent (extent g) q" using t(1) by (simp add: q_def moved_pos_def)
  show "sint (q ! i) = (if i = d then sint (p ! d) + send_at g d dir - recv_at g d dir else sint (p ! i))" if "i < g_dim g"
    using t(3)[of i] s(2)[of i] that extent_length[OF assms(1)] guard_idx_nth[OF assms(1,2) that]
    by (simp add: q_def moved_pos_def)
qed

text \<open>The neighbour a slab comes from names the same global cell.\<close>

lemma slab_source:
  fixes dir r null :: int and g :: Grid and d :: nat and p :: index_t and infos :: "int \<Rightarrow> domain_info"
  assumes "comm_ok g" "cart_ok null ranks infos (g_dim g) P per" "r \<in> set ranks" "d < g_dim g" "dir = 1 \<or> dir = - 1"
    and "in_extent (extent g) p" "in_domain infos g P per r p" "\<not> inner g d p" "side g d p = dir"
  defines "q \<equiv> moved_pos (guard_send_idx g d dir) (guard_recv_idx g d dir) p" and "src \<equiv> origin_rank (infos r) d dir"
  shows "src \<in> set ranks" "in_extent (extent g) q" "inner g d q" "in_domain infos g P per src q"
    and "global_cell infos g P per src q = global_cell infos g P per r p"
    and "i < g_dim g \<Longrightarrow> i \<noteq> d \<Longrightarrow> q ! i = p ! i"
proof -
  let ?N = "uint (g_N g ! d)" and ?k = "sint (g_guard g ! d)" and ?c = "rank_coord infos r d"
  have b: "in_block (guard_recv_idx g d dir) (buffer_extent g d) p"
    using in_slab[OF assms(1,4,6,5)] assms(8,9) by simp
  note m = moved_pos_props[OF assms(1,4,6) b, folded q_def]
  note c = cart_okD[OF assms(2,3)]
  have N: "0 < ?N" "?k \<le> ?N" "0 < ?k"
    using grid_okD(4)[OF comm_okD(1)[OF assms(1)] assms(4)] comm_okD(4,5)[OF assms(1,4)] by simp_all
  have pd: "0 \<le> sint (p ! d)" "sint (p ! d) < ?N + 2 * ?k"
  proof -
    have "\<forall>i < g_dim g. 0 \<le> sint (p ! i) \<and> sint (p ! i) < uint (g_dims g ! i)"
      using assms(6) extent_length[OF assms(1)] in_extent_length[OF assms(6)] by (simp add: in_extent_iff) (simp add: extent_def)
    then show "0 \<le> sint (p ! d)" "sint (p ! d) < ?N + 2 * ?k" using assms(4) grid_words(2)[OF assms(1,4)] by auto
  qed
  have dom: "per ! d \<or> 0 \<le> global_pos infos g r p d \<and> global_pos infos g r p d < P ! d * ?N"
    using assms(4,7) by (simp add: in_domain_def list_all_iff)
  have cd: "0 \<le> ?c" "?c < P ! d" using c(2)[OF assms(4)] by simp_all
  have edge: "0 \<le> global_pos infos g r p d \<Longrightarrow> dir = 1 \<Longrightarrow> ?c \<noteq> 0"
    using assms(8,9) pd by (auto simp: global_pos_def inner_def side_def)
  have edge': "?c \<noteq> P ! d - 1" if "global_pos infos g r p d < P ! d * ?N" "dir = - 1"
  proof
    assume "?c = P ! d - 1"
    then have "P ! d = ?c + 1" by simp
    then have "P ! d * ?N = ?c * ?N + ?N" by (simp only: distrib_right mult_1)
    then have "sint (p ! d) < ?N + ?k" using that(1) by (simp add: global_pos_def)
    then show False using assms(8,9) that(2) by (auto simp: inner_def side_def split: if_splits)
  qed
  have nb: "is_neighbor ranks infos (g_dim g) P r d (- dir) src"
    using assms(5) c(3,4)[OF assms(4)] dom edge edge' by (auto simp: src_def origin_rank_def split: if_splits)
  then show sr: "src \<in> set ranks" by (simp add: is_neighbor_def)
  have co: "rank_coord infos src e = (if e = d then (?c - dir) mod P ! d else rank_coord infos r e)" if "e < g_dim g" for e
    using nb that by (simp add: is_neighbor_def list_all_iff)
  show "in_extent (extent g) q" by (rule m(1))
  have qd: "sint (q ! d) = sint (p ! d) + dir * ?N"
    using m(2)[OF assms(4)] assms(5) by (auto simp: send_at_def recv_at_def)
  show "inner g d q"
    using qd pd N assms(5,8,9) by (auto simp: inner_def side_def split: if_splits)
  have qi: "sint (q ! i) = sint (p ! i)" if "i < g_dim g" "i \<noteq> d" for i using m(2)[OF that(1)] that(2) by simp
  then show "q ! i = p ! i" if "i < g_dim g" "i \<noteq> d" using that by (metis signed_word_eqI)
  have wrap: "\<exists>z. global_pos infos g src q d = global_pos infos g r p d + z * (P ! d * ?N) \<and> (\<not> per ! d \<longrightarrow> z = 0)"
  proof (cases "0 \<le> ?c - dir \<and> ?c - dir < P ! d")
    case True
    then have "rank_coord infos src d = ?c - dir" using co[OF assms(4)] by simp
    then show ?thesis
      by (intro exI[of _ 0]) (simp add: global_pos_def qd left_diff_distrib)
  next
    case False
    have per: "per ! d" using False dom edge edge' cd assms(5) by auto
    show ?thesis
    proof (cases "dir = 1")
      case True
      then have c0: "?c = 0" using False cd by simp
      then have "rank_coord infos src d = P ! d - 1" using True cd co[OF assms(4)] by (simp add: zmod_minus1)
      then show ?thesis
        using per by (intro exI[of _ 1]) (simp add: global_pos_def qd c0 True left_diff_distrib)
    next
      case dm: False
      then have d1: "dir = - 1" using assms(5) by simp
      then have c1: "P ! d = ?c + 1" using False cd by simp
      then have "rank_coord infos src d = 0" using d1 co[OF assms(4)] by simp
      then show ?thesis
        using per by (intro exI[of _ "- 1"]) (simp only: global_pos_def qd c1 d1, simp add: distrib_right)
    qed
  qed
  have same: "global_pos infos g src q i = global_pos infos g r p i" if "i < g_dim g" "i \<noteq> d" for i
    using co[OF that(1)] qi[OF that] that(2) by (simp add: global_pos_def)
  show "in_domain infos g P per src q"
    using assms(7) same wrap by (fastforce simp: in_domain_def list_all_iff)
  have modd: "global_pos infos g src q d mod (P ! d * ?N) = global_pos infos g r p d mod (P ! d * ?N)"
    using wrap by auto
  have nowrap: "global_pos infos g src q d = global_pos infos g r p d" if "\<not> per ! d" using wrap that by auto
  have "(if per ! i then global_pos infos g src q i mod (P ! i * uint (g_N g ! i)) else global_pos infos g src q i)
      = (if per ! i then global_pos infos g r p i mod (P ! i * uint (g_N g ! i)) else global_pos infos g r p i)"
    if "i < g_dim g" for i
    by (cases "i = d") (simp_all add: modd nowrap same[OF that])
  then show "global_cell infos g P per src q = global_cell infos g P per r p"
    by (simp add: global_cell_def)
qed

subsection \<open>The interface of an exchange\<close>

text \<open>
  What the client relies on: one exchange fills the receiving slab of an array from the
  rank of origin and leaves the rest of the array alone.
\<close>

locale slab_exchange =
  fixes ex :: "int \<Rightarrow> (int \<Rightarrow> domain_info) \<Rightarrow> Grid \<Rightarrow> world \<Rightarrow> nat \<times> int \<Rightarrow> world" and a :: comm_array
  assumes ex_at: "comm_ok g \<Longrightarrow> d < g_dim g \<Longrightarrow> r \<noteq> null \<Longrightarrow> in_extent (extent g) p \<Longrightarrow>
      ex null infos g W (d, dir) r a (col_to_linear (extent g) p)
      = (if in_block (guard_recv_idx g d dir) (buffer_extent g d) p \<and> origin_rank (infos r) d dir \<noteq> null
         then W (origin_rank (infos r) d dir) a
           (col_to_linear (extent g) (moved_pos (guard_send_idx g d dir) (guard_recv_idx g d dir) p))
         else W r a (col_to_linear (extent g) p))"
    and ex_none: "g_dim g \<le> d \<Longrightarrow> ex null infos g W (d, dir) r = W r"
begin

lemma ex_fills:
  assumes "comm_ok g" "cart_ok null ranks infos (g_dim g) P per" "d < g_dim g" "dir = 1 \<or> dir = - 1"
    and "holds_field ranks infos g P per F a S W"
  shows "holds_field ranks infos g P per F a (insert (d, dir) S) (ex null infos g W (d, dir))"
  unfolding holds_field_def
proof (intro ballI allI impI)
  fix r p
  assume r: "r \<in> set ranks" and p: "in_extent (extent g) p" and dom: "in_domain infos g P per r p"
    and S: "\<forall>e < g_dim g. inner g e p \<or> (e, side g e p) \<in> insert (d, dir) S"
  note h = assms(5)[unfolded holds_field_def, rule_format]
  note at = ex_at[OF assms(1,3) cart_okD(1)[OF assms(2) r] p, of infos W dir]
  show "ex null infos g W (d, dir) r a (col_to_linear (extent g) p) = F (global_cell infos g P per r p)"
  proof (cases "\<not> inner g d p \<and> side g d p = dir")
    case True
    note q = slab_source[OF assms(1,2) r assms(3,4) p dom True[THEN conjunct1] True[THEN conjunct2]]
    let ?q = "moved_pos (guard_send_idx g d dir) (guard_recv_idx g d dir) p"
    have "inner g e ?q \<or> (e, side g e ?q) \<in> S" if "e < g_dim g" for e
      using S[rule_format, OF that] q(3) q(6)[OF that] by (cases "e = d") (auto simp: inner_def side_def)
    then show ?thesis
      using at in_slab[OF assms(1,3) p assms(4)] True cart_okD(1)[OF assms(2) q(1)] h[OF q(1,2,4)] q(5) by simp
  next
    case False
    have "inner g e p \<or> (e, side g e p) \<in> S" if "e < g_dim g" for e
      using S[rule_format, OF that] False by auto
    then show ?thesis
      using at in_slab[OF assms(1,3) p assms(4)] False h[OF r p dom] by simp
  qed
qed

lemma ex_sequence:
  assumes "comm_ok g" "cart_ok null ranks infos (g_dim g) P per" "holds_field ranks infos g P per F a S W"
    and "\<forall>(d, dir) \<in> set ds. dir = 1 \<or> dir = - 1"
  shows "holds_field ranks infos g P per F a (S \<union> {(d, dir). (d, dir) \<in> set ds \<and> d < g_dim g})
    (foldl (ex null infos g) W ds)"
  using assms(3,4)
proof (induction ds arbitrary: S W)
  case (Cons x ds)
  obtain d dir where x: "x = (d, dir)" by (cases x)
  show ?case
  proof (cases "d < g_dim g")
    case True
    have "holds_field ranks infos g P per F a (insert (d, dir) S) (ex null infos g W x)"
      unfolding x using ex_fills[OF assms(1,2) True _ Cons.prems(1)] Cons.prems(2) x by auto
    moreover have "insert (d, dir) S \<union> {(e, s). (e, s) \<in> set ds \<and> e < g_dim g}
        = S \<union> {(e, s). (e, s) \<in> set (x # ds) \<and> e < g_dim g}"
      using True by (auto simp: x)
    ultimately show ?thesis using Cons.IH Cons.prems(2) by fastforce
  next
    case False
    then have "ex null infos g W x = W" using ex_none by (auto simp: x fun_eq_iff)
    moreover have "{(e, s). (e, s) \<in> set (x # ds) \<and> e < g_dim g} = {(e, s). (e, s) \<in> set ds \<and> e < g_dim g}"
      using False by (auto simp: x)
    ultimately show ?thesis using Cons.IH[OF Cons.prems(1)] Cons.prems(2) by simp
  qed
qed simp

text \<open>After all six exchanges every cell of every rank holds the global field.\<close>

lemma all_cells:
  assumes "comm_ok g" "g_dim g \<le> 3" "cart_ok null ranks infos (g_dim g) P per"
    and "holds_field ranks infos g P per F a {} W" "r \<in> set ranks" "in_extent (extent g) p" "in_domain infos g P per r p"
  shows "foldl (ex null infos g) W directions r a (col_to_linear (extent g) p) = F (global_cell infos g P per r p)"
proof -
  have "(d, side g d p) \<in> set directions" if "d < g_dim g" for d
    using that assms(2) by (auto simp: directions_def side_def numeral_3_eq_3)
  moreover have "\<forall>(d, dir) \<in> set directions. dir = 1 \<or> dir = - 1" by (simp add: directions_def)
  ultimately show ?thesis
    using ex_sequence[OF assms(1,3,4)] assms(5-7) unfolding holds_field_def by auto
qed

end

lemma exchange_none:
  assumes "g_dim g \<le> d"
  shows "exchange_array null infos g a W (d, dir) r = W r" "exchange_vector null infos g W (d, dir) r = W r"
  using assms by (simp_all add: exchange_array_def send_array_guard_cells_single_dir_def
      exchange_vector_def send_vector_field_guard_cells_single_dir_def Let_def)

interpretation arr: slab_exchange "\<lambda>null infos g. exchange_array null infos g (component n)" "component n" for n
  by (rule slab_exchange.intro) (rule exchange_array_at exchange_none; assumption)+

interpretation vec0: slab_exchange exchange_vector "component 0"
  by (rule slab_exchange.intro) ((rule exchange_vector_at exchange_none; assumption?); simp)+

interpretation vec1: slab_exchange exchange_vector "component 1"
  by (rule slab_exchange.intro) ((rule exchange_vector_at exchange_none; assumption?); simp)+

interpretation vec2: slab_exchange exchange_vector "component 2"
  by (rule slab_exchange.intro) ((rule exchange_vector_at exchange_none; assumption?); simp)+


subsection \<open>Properties\<close>

text \<open>
  C4.  If the interior cells of the ranks of a Cartesian decomposition hold the blocks of a
  global field, then after \<open>send_guard_cells\<close> every cell of every rank that lies in the
  domain, guard cells and their corners included, holds the value of the global field
  there: periodic directions wrap around, guard cells outside an open boundary are left
  out.  It holds for the arrays exchanged one by one and for the components of a vector
  field bundled in one buffer, on one rank (where the exchange copies within the array)
  as on many.
\<close>

theorem guard_cells_hold_field:
  assumes "comm_ok g" "g_dim g \<le> 3" "cart_ok null ranks infos (g_dim g) P per"
    and "\<forall>n < 3. \<forall>r \<in> set ranks. \<forall>p. in_extent (extent g) p \<and> (\<forall>d < g_dim g. inner g d p) \<longrightarrow>
      W r (component n) (col_to_linear (extent g) p) = F n (global_cell infos g P per r p)"
    and "r \<in> set ranks" "in_extent (extent g) p" "in_domain infos g P per r p" "n < 3"
  shows "send_guard_cells_array null infos g (component n) W r (component n) (col_to_linear (extent g) p)
      = F n (global_cell infos g P per r p)
    \<and> send_guard_cells_vector null infos g W r (component n) (col_to_linear (extent g) p)
      = F n (global_cell infos g P per r p)"
proof
  have h: "holds_field ranks infos g P per (F n) (component n) {} W" if "n < 3" for n
    using assms(4) that by (simp add: holds_field_def)
  show "send_guard_cells_array null infos g (component n) W r (component n) (col_to_linear (extent g) p)
      = F n (global_cell infos g P per r p)"
    unfolding send_guard_cells_array_def by (rule arr.all_cells[OF assms(1-3) h[OF assms(8)] assms(5-7)])
  consider "n = 0" | "n = 1" | "n = 2" using assms(8) by linarith
  then show "send_guard_cells_vector null infos g W r (component n) (col_to_linear (extent g) p)
      = F n (global_cell infos g P per r p)"
    unfolding send_guard_cells_vector_def
    using vec0.all_cells[OF assms(1-3) h assms(5-7)] vec1.all_cells[OF assms(1-3) h assms(5-7)]
      vec2.all_cells[OF assms(1-3) h assms(5-7)] by cases simp_all
qed

text \<open>Two ranks of four cells and two guard cells on a periodic line.\<close>

definition example_block :: Grid where
  "example_block = \<lparr>g_dims = [8], g_N = [4], g_guard = [2], g_delta = [1 / 4], g_inv_delta = [4],
     g_lower = [0], g_sizes = [1], g_offset = [0]\<rparr>"

definition example_infos :: "int \<Rightarrow> domain_info" where
  "example_infos r = \<lparr>mpi_dims = [2], mpi_coord = [word_of_int r], is_boundary = [False, False], is_periodic = [True],
     neighbor_left = [1 - r], neighbor_right = [1 - r]\<rparr>"

definition example_world :: world where
  "example_world r a i = of_int (4 * r + sint i - 2)"

lemma example_block_ok: "comm_ok example_block" "g_dim example_block = 1"
  by (simp_all add: comm_ok_def grid_ok_def example_block_def g_dim_def good_extent_def extent_def
      buffer_extent_def vec_buffer_extent_def Let_def)

lemma example_cart_ok: "cart_ok (- 2) [0, 1] example_infos 1 [2] [True]"
  by (simp add: cart_ok_def is_neighbor_def rank_coord_def example_infos_def)

theorem guard_cells_hold_field_witness:
  "send_guard_cells_array (- 2) example_infos example_block (component 0) example_world 0 (component 0) 1 = 7"
proof -
  have w: "col_to_linear (extent example_block) [w] = scast w" for w
    by (simp add: example_block_def extent_def col_to_linear_def index_dot_def strides_def)
  have "example_world r (component n) (col_to_linear (extent example_block) p)
      = of_int (hd (global_cell example_infos example_block [2] [True] r p))"
    if t: "r \<in> set [0, 1]" "in_extent (extent example_block) p" "\<forall>d < g_dim example_block. inner example_block d p" for r n p
  proof -
    have "length p = 1" using in_extent_length[OF t(2)] by (simp add: example_block_def extent_def)
    then obtain x where p: "p = [x]" by (auto simp: length_Suc_conv)
    have x: "p = [x]" "2 \<le> sint x" "sint x < 6"
      using t(3) p by (simp_all add: example_block_def inner_def g_dim_def)
    show ?thesis
      using t(1) x unfolding x(1) w
      by (auto simp: example_world_def global_cell_def global_pos_def rank_coord_def example_infos_def example_block_def g_dim_def)
  qed
  then show ?thesis
    using guard_cells_hold_field[OF example_block_ok(1) _ example_cart_ok[folded example_block_ok(2)],
        where W = example_world and F = "\<lambda>_ G. of_int (hd G)" and r = 0 and p = "[1]" and n = 0, THEN conjunct1]
      example_block_ok(2) w[of 1]
    by (simp add: in_domain_def global_cell_def global_pos_def rank_coord_def example_infos_def example_block_def g_dim_def extent_def)
qed

end
