(* ===== verification/DomainComm.thy ===== *)
theory DomainComm
  imports GuardCells Params
begin

text \<open>
  The rest of \<open>src/systems/domain_comm_impl.hpp\<close>: setting up the decomposition, the
  buffers, and the exchange of particles.  The MPI calls of the set-up are arguments
  (\<open>dims_create\<close>, \<open>cart_coords\<close>, \<open>cart_shift\<close>); a particle message is the argument \<open>msg\<close>
  of the operation of one rank, and the send buffer of the process of origin in the
  operation of all processes.  The fill counts are \<open>int\<close>, as are the byte counts of the MPI
  calls, \<open>sz\<close> is the size of a particle in bytes.  \<open>None\<close> is a write past the end of a
  buffer, an \<open>int\<close> overflow, a call MPI refuses (a negative count, a truncated message) or
  one that waits for a message nobody sends.
\<close>

subsection \<open>Setting up the domain\<close>

definition param_ints :: "string \<Rightarrow> params \<Rightarrow> i64 list \<times> params" where
  "param_ints name m =
     (let (v, r, m') = params_get name (P_ints []) m in (case v of P_ints xs \<Rightarrow> xs | _ \<Rightarrow> [], m'))"

definition param_bools :: "string \<Rightarrow> params \<Rightarrow> bool list \<times> params" where
  "param_bools name m =
     (let (v, r, m') = params_get name (P_bools []) m in (case v of P_bools xs \<Rightarrow> xs | _ \<Rightarrow> [], m'))"

text \<open>\<open>if (v.size() < n) v.resize(n, x)\<close>\<close>

definition grow :: "nat \<Rightarrow> 'a \<Rightarrow> 'a list \<Rightarrow> 'a list" where
  "grow n x v = (if length v < n then v @ replicate (n - length v) x else v)"

text \<open>
  \<open>MPI_Dims_create\<close> is called with the entries of \<open>mpi_dims\<close> as they are; the zeros go to
  the local vector, which is not used any more.
\<close>

definition domain_dims :: "(i32 \<Rightarrow> i32 list \<Rightarrow> i32 list) \<Rightarrow> nat \<Rightarrow> i32 \<Rightarrow> i64 list \<Rightarrow> i32 list \<Rightarrow> i32 list" where
  "domain_dims dims_create dm world_size dims old =
     (let total_dim = foldl (\<lambda>t i. t * dims ! i) 1 [0..<dm]
      in if total_dim \<noteq> scast world_size then dims_create world_size old
         else map (\<lambda>i. scast (dims ! i)) [0..<dm])"

definition setup_domain ::
  "int \<Rightarrow> (i32 \<Rightarrow> i32 list \<Rightarrow> i32 list) \<Rightarrow> (i32 list \<Rightarrow> bool list \<Rightarrow> int \<Rightarrow> i32 list) \<Rightarrow>
   (i32 list \<Rightarrow> bool list \<Rightarrow> nat \<Rightarrow> int \<Rightarrow> int) \<Rightarrow>
   nat \<Rightarrow> i32 \<Rightarrow> int \<Rightarrow> params \<Rightarrow> domain_info \<times> params" where
  "setup_domain null dims_create cart_coords cart_shift dm world_size rank m =
     (let info = domain_info_default null dm;
          (ranks, m) = param_ints ''ranks'' m;
          dims = domain_dims dims_create dm world_size (grow dm 1 ranks) (mpi_dims info);
          (per, m) = param_bools ''periodic_boundary'' m;
          periodic = map (\<lambda>i. grow dm False per ! i) [0..<dm];
          left = map (\<lambda>n. cart_shift dims periodic n (- 1)) [0..<dm];
          right = map (\<lambda>n. cart_shift dims periodic n 1) [0..<dm]
      in (info\<lparr>mpi_dims := dims, is_periodic := periodic, mpi_coord := cart_coords dims periodic rank,
            neighbor_left := left, neighbor_right := right,
            is_boundary := concat (map (\<lambda>n. [left ! n < 0, right ! n < 0]) [0..<dm])\<rparr>, m))"

subsection \<open>The buffers\<close>

record 'p comm_buffers =
  m_buffers_ready :: bool
  send_extents :: "extent_t list"
  vec_extents :: "extent_t list"
  m_ptc_buffers :: "'p list list"
  m_ptc_buffer_num :: "i32 list"

definition resize_buffers :: "Grid \<Rightarrow> nat \<Rightarrow> 'p \<Rightarrow> 'p comm_buffers \<Rightarrow> 'p comm_buffers" where
  "resize_buffers g ptc_buffer_size blank s =
     (if m_buffers_ready s then s
      else let num_ptc_buffers = 3 ^ g_dim g
        in s\<lparr>send_extents := send_extents s @ map (buffer_extent g) [0..<g_dim g],
             vec_extents := vec_extents s @ map (vec_buffer_extent g) [0..<g_dim g],
             m_ptc_buffers := m_ptc_buffers s @ replicate num_ptc_buffers (replicate ptc_buffer_size blank),
             m_ptc_buffer_num := replicate num_ptc_buffers 0, m_buffers_ready := True\<rparr>)"

subsection \<open>Exchanging particles\<close>

text \<open>The buffers of the zones with their fill counts, a \<open>buffer<int>\<close>.\<close>

type_synonym 'p zone_bufs = "'p list list \<times> i32 list"

definition write_at :: "nat \<Rightarrow> 'p list \<Rightarrow> 'p list \<Rightarrow> 'p list option" where
  "write_at pos xs buf =
     (if pos + length xs \<le> length buf then Some (take pos buf @ xs @ drop (pos + length xs) buf) else None)"

text \<open>\<open>n * sizeof(...)\<close>, a \<open>size_t\<close>, as the \<open>int\<close> count of an MPI call.\<close>

definition byte_count :: "nat \<Rightarrow> nat \<Rightarrow> int" where
  "byte_count sz n = size_to_int (size_mul n sz)"

text \<open>
  What a call sends: the bytes of the count, which wraps when the byte count does; bytes that
  end inside a particle are not modelled.
\<close>

definition sent :: "nat \<Rightarrow> 'p zone_bufs \<Rightarrow> nat \<Rightarrow> 'p list option" where
  "sent sz = (\<lambda>(bufs, nums) si.
     let b = byte_count sz (to_size (sint (nums ! si))); k = nat b div sz
     in if b < 0 \<or> nat b mod sz \<noteq> 0 \<or> length (bufs ! si) < k then None else Some (take k (bufs ! si)))"

text \<open>
  The two counts of \<open>MPI_Sendrecv\<close> and the received message: refused when a count is
  negative or the message is longer than the receive count.
\<close>

definition sendrecv :: "nat \<Rightarrow> nat \<Rightarrow> nat \<Rightarrow> 'p list option \<Rightarrow> 'p zone_bufs \<Rightarrow> 'p list option" where
  "sendrecv sz si ri msg = (\<lambda>(bufs, nums).
     let recv = byte_count sz (length (bufs ! ri))
     in if byte_count sz (to_size (sint (nums ! si))) < 0 \<or> recv < 0 then None
        else Option.bind msg (\<lambda>xs. if recv < int (length xs * sz) then None else Some xs))"

text \<open>
  One pair of the batch version: the received particles go behind those already in the
  buffer.  \<open>msg\<close> is what the rank \<open>src\<close> sent, nothing when it is \<open>MPI_PROC_NULL\<close>.  A rank
  that is its own neighbour copies; \<open>rank\<close> is \<open>m_rank\<close>, its number in \<open>m_world\<close>, while \<open>src\<close>
  and \<open>dst\<close> are numbers in \<open>m_cart\<close>.  The count is added as an \<open>int\<close> after the copy; after a
  message it is added as a \<open>size_t\<close> and converted.
\<close>

definition send_pair ::
  "nat \<Rightarrow> int \<Rightarrow> int \<Rightarrow> int \<Rightarrow> nat \<Rightarrow> nat \<Rightarrow> 'p list option \<Rightarrow> 'p zone_bufs \<Rightarrow> 'p zone_bufs option" where
  "send_pair sz rank src dst si ri msg = (\<lambda>(bufs, nums).
     let pos = to_size (sint (nums ! ri))
     in if src = dst \<and> src = rank then
          let k = nat (sint (nums ! si))
          in if length (bufs ! si) < k then None
             else Option.bind (write_at pos (take k (bufs ! si)) (bufs ! ri))
                    (\<lambda>b. map_option (\<lambda>l. (bufs[ri := b], nums[ri := l])) (int_add (nums ! ri) (sint (nums ! si))))
        else Option.bind (sendrecv sz si ri msg (bufs, nums))
               (\<lambda>xs. map_option (\<lambda>b. (bufs[ri := b], nums[ri := nums ! ri + word_of_nat (length xs)]))
                       (write_at pos xs (bufs ! ri))))"

fun send_pairs ::
  "nat \<Rightarrow> int \<Rightarrow> int \<Rightarrow> int \<Rightarrow> (nat \<times> nat \<times> 'p list option) list \<Rightarrow> 'p zone_bufs \<Rightarrow> 'p zone_bufs option" where
  "send_pairs sz rank src dst [] st = Some st"
| "send_pairs sz rank src dst ((si, ri, msg) # ps) st =
     Option.bind (send_pair sz rank src dst si ri msg st) (send_pairs sz rank src dst ps)"

definition clear_nums :: "nat list \<Rightarrow> 'p zone_bufs \<Rightarrow> 'p zone_bufs" where
  "clear_nums is = (\<lambda>(bufs, nums). (bufs, foldl (\<lambda>n i. n[i := 0]) nums is))"

definition send_particle_batch ::
  "nat \<Rightarrow> int \<Rightarrow> int \<Rightarrow> int \<Rightarrow> (nat \<times> nat \<times> 'p list option) list \<Rightarrow> 'p zone_bufs \<Rightarrow> 'p zone_bufs option" where
  "send_particle_batch sz rank src dst ps st =
     map_option (clear_nums (map fst ps)) (send_pairs sz rank src dst ps st)"

text \<open>
  The version for one buffer.  The offset into the receive buffer is only added to the
  device pointer, \<open>dev\<close> is a build that sends from device memory.
\<close>

definition send_particle_single ::
  "nat \<Rightarrow> bool \<Rightarrow> nat \<Rightarrow> nat \<Rightarrow> 'p list option \<Rightarrow> 'p zone_bufs \<Rightarrow> 'p zone_bufs option" where
  "send_particle_single sz dev si ri msg = (\<lambda>(bufs, nums).
     let recv_offset = nums ! ri
     in Option.bind (sendrecv sz si ri msg (bufs, nums))
          (\<lambda>xs. map_option (\<lambda>b. (bufs[ri := b], nums[ri := recv_offset + word_of_nat (length xs), si := 0]))
                  (write_at (if dev then to_size (sint recv_offset) else 0) xs (bufs ! ri))))"

text \<open>The pairs of zones of the six exchanges.\<close>

definition x_pairs :: "nat \<Rightarrow> int \<Rightarrow> (nat \<times> nat) list" where
  "x_pairs dm dir = map (\<lambda>i. (if dir = - 1 then i * 3 else i * 3 + 2, i * 3 + 1)) [0..<(if dm = 1 then 1 else if dm = 2 then 3 else 9)]"

definition y_pairs :: "nat \<Rightarrow> int \<Rightarrow> (nat \<times> nat) list" where
  "y_pairs dm dir = map (\<lambda>i. (if dir = - 1 then 1 + i * 9 else 1 + 6 + i * 9, 1 + 3 + i * 9)) [0..<(if dm = 2 then 1 else 3)]"

definition central_zone :: "nat \<Rightarrow> nat" where
  "central_zone dm = (if dm = 2 then 4 else if dm = 1 then 1 else 13)"

subsection \<open>All processes together\<close>

text \<open>
  A process is named by its rank in \<open>m_world\<close>.  \<open>cart\<close> is its rank in \<open>m_cart\<close> and \<open>proc\<close>
  the process of a rank of \<open>m_cart\<close>; \<open>MPI_Cart_create\<close> is called with \<open>reorder\<close> set, so these
  need not be the identity.  The neighbours are ranks of \<open>m_cart\<close>.  The batch version sends
  over \<open>m_cart\<close>, the version for one buffer over \<open>m_world\<close>.
\<close>

type_synonym 'p ptc_world = "int \<Rightarrow> 'p zone_bufs option"

text \<open>
  The message process \<open>p\<close> sent to the rank \<open>me\<close>: \<open>back\<close> is the rank it sends to, and it only
  arrives when that is \<open>me\<close> and \<open>p\<close> does not copy instead (\<open>local\<close>).
\<close>

definition message ::
  "int \<Rightarrow> nat \<Rightarrow> int \<Rightarrow> int \<Rightarrow> int \<Rightarrow> bool \<Rightarrow> 'p zone_bufs option \<Rightarrow> nat \<Rightarrow> 'p list option" where
  "message null sz me src back copies peer si =
     (if src = null then Some []
      else if back \<noteq> me \<or> copies then None
      else Option.bind peer (\<lambda>st. sent sz st si))"

definition exchange_pair ::
  "int \<Rightarrow> nat \<Rightarrow> (int \<Rightarrow> int) \<Rightarrow> (int \<Rightarrow> int) \<Rightarrow> (int \<Rightarrow> domain_info) \<Rightarrow> nat \<Rightarrow> int \<Rightarrow> 'p ptc_world \<Rightarrow> nat \<times> nat
     \<Rightarrow> 'p ptc_world" where
  "exchange_pair null sz cart proc infos d dir W = (\<lambda>(si, ri) r.
     let src = origin_rank (infos r) d dir; dst = dest_rank (infos r) d dir; p = proc src;
         back = dest_rank (infos p) d dir;
         copies = (origin_rank (infos p) d dir = back \<and> back = p)
     in Option.bind (W r)
          (send_pair sz r src dst si ri (message null sz (cart r) src back copies (W p) si)))"

definition exchange_batch ::
  "int \<Rightarrow> nat \<Rightarrow> (int \<Rightarrow> int) \<Rightarrow> (int \<Rightarrow> int) \<Rightarrow> (int \<Rightarrow> domain_info) \<Rightarrow> nat \<Rightarrow> int \<Rightarrow> (nat \<times> nat) list
     \<Rightarrow> 'p ptc_world \<Rightarrow> 'p ptc_world" where
  "exchange_batch null sz cart proc infos d dir ps W =
     (\<lambda>r. map_option (clear_nums (map fst ps)) (foldl (exchange_pair null sz cart proc infos d dir) W ps r))"

definition exchange_single ::
  "int \<Rightarrow> nat \<Rightarrow> bool \<Rightarrow> (int \<Rightarrow> domain_info) \<Rightarrow> nat \<Rightarrow> int \<Rightarrow> nat \<Rightarrow> nat \<Rightarrow> 'p ptc_world \<Rightarrow> 'p ptc_world" where
  "exchange_single null sz dev infos d dir si ri W = (\<lambda>r.
     let src = origin_rank (infos r) d dir
     in Option.bind (W r)
          (send_particle_single sz dev si ri
             (message null sz r src (dest_rank (infos src) d dir) False (W src) si)))"

definition exchange_particles ::
  "int \<Rightarrow> nat \<Rightarrow> bool \<Rightarrow> (int \<Rightarrow> int) \<Rightarrow> (int \<Rightarrow> int) \<Rightarrow> (int \<Rightarrow> domain_info) \<Rightarrow> nat \<Rightarrow> 'p ptc_world
     \<Rightarrow> 'p ptc_world" where
  "exchange_particles null sz dev cart proc infos dm W =
     (let W = exchange_batch null sz cart proc infos 0 (- 1) (x_pairs dm (- 1)) W;
          W = exchange_batch null sz cart proc infos 0 1 (x_pairs dm 1) W
      in if dm \<ge> 2 then
           let W = exchange_batch null sz cart proc infos 1 (- 1) (y_pairs dm (- 1)) W;
               W = exchange_batch null sz cart proc infos 1 1 (y_pairs dm 1) W
           in if dm = 3 then
                exchange_single null sz dev infos 2 1 22 13 (exchange_single null sz dev infos 2 (- 1) 4 13 W)
              else W
         else W)"

text \<open>
  \<open>send_particles_impl\<close> on every process: leaving particles to the buffers of their zones,
  the exchanges, and the particles of the central buffer behind those of the rank.
\<close>

definition send_particles ::
  "int \<Rightarrow> nat \<Rightarrow> bool \<Rightarrow> (int \<Rightarrow> int) \<Rightarrow> (int \<Rightarrow> int) \<Rightarrow> (int \<Rightarrow> domain_info) \<Rightarrow> (int \<Rightarrow> Grid) \<Rightarrow> nat \<Rightarrow>
   (int \<Rightarrow> 'a ptc_common_scheme particles \<times> 'a ptc_common_scheme zone_bufs) \<Rightarrow>
   int \<Rightarrow> ('a ptc_common_scheme particles \<times> 'a ptc_common_scheme zone_bufs) option" where
  "send_particles null sz dev cart proc infos gs dm P =
     (let packed = (\<lambda>r. let (s, bufs, nums) = P r
                in ptc_copy_to_comm_buffers s bufs (map (\<lambda>_. 0) nums) (gs r));
          W = exchange_particles null sz dev cart proc infos dm (\<lambda>r. map_option snd (packed r));
          c = central_zone dm
      in (\<lambda>r. Option.bind (packed r) (\<lambda>(s, _). map_option (\<lambda>(bufs, nums).
            (ptc_copy_from_buffer s (bufs ! c) (sint (nums ! c)) (m_number s), bufs, nums[c := 0])) (W r))))"

text \<open>\<open>MPI_Scan\<close> and \<open>MPI_Allreduce\<close> with \<open>MPI_SUM\<close>, on the numbers of all ranks in order.\<close>

definition get_total_num_offset :: "u64 list \<Rightarrow> nat \<Rightarrow> u64 \<times> u64" where
  "get_total_num_offset nums rank = (sum_list nums, sum_list (take (rank + 1) nums) - nums ! rank)"


subsection \<open>The fallback of the set-up\<close>

text \<open>
  A configured decomposition that does not match the number of ranks: \<open>MPI_Dims_create\<close>
  is asked to complete ones, which it must keep, not zeros.
\<close>

lemma setup_domain_fallback:
  assumes "param_ints ''ranks'' m = (ranks, m')" "foldl (\<lambda>t i. t * grow dm 1 ranks ! i) 1 [0..<dm] \<noteq> scast world_size"
  shows "mpi_dims (fst (setup_domain null dims_create cart_coords cart_shift dm world_size rank m))
    = dims_create world_size (replicate dm 1)"
  using assms by (simp add: setup_domain_def domain_dims_def domain_info_default_def Let_def split: prod.split)

subsection \<open>What a rank receives\<close>

text \<open>
  The lemmas are for processes that have the same rank in \<open>m_cart\<close> as in \<open>m_world\<close>, and for
  buffers of one capacity whose size in bytes fits an \<open>int\<close>.
\<close>

definition sizes_fit :: "nat \<Rightarrow> nat \<Rightarrow> bool" where
  "sizes_fit sz cap = (0 < sz \<and> cap * sz < 2 ^ 31)"

definition filled :: "'p zone_bufs \<Rightarrow> nat \<Rightarrow> 'p list" where
  "filled st i = take (unat (snd st ! i)) (fst st ! i)"

definition bufs_ok :: "nat \<Rightarrow> nat \<Rightarrow> 'p zone_bufs \<Rightarrow> bool" where
  "bufs_ok cap n = (\<lambda>(bufs, nums). length bufs = n \<and> length nums = n
     \<and> (\<forall>i < n. length (bufs ! i) = cap \<and> unat (nums ! i) \<le> cap))"

text \<open>The particles that come from a neighbour.\<close>

definition from_rank :: "int \<Rightarrow> int \<Rightarrow> (int \<Rightarrow> nat \<Rightarrow> 'p list) \<Rightarrow> nat \<Rightarrow> 'p list" where
  "from_rank null src F si = (if src = null then [] else F src si)"

definition contents_of :: "'p ptc_world \<Rightarrow> int \<Rightarrow> nat \<Rightarrow> 'p list" where
  "contents_of W r i = filled (the (W r)) i"

lemma sizes_fit_cap: "sizes_fit sz cap \<Longrightarrow> cap < 2 ^ 31"
proof -
  assume f: "sizes_fit sz cap"
  then have "cap * 1 \<le> cap * sz" unfolding sizes_fit_def by (intro mult_le_mono2) simp
  then have "cap \<le> cap * sz" by simp
  then show ?thesis using f unfolding sizes_fit_def by (blast intro: order.strict_trans1)
qed

lemma byte_count_fits:
  assumes "sizes_fit sz cap" "k \<le> cap"
  shows "byte_count sz k = int (k * sz)"
proof -
  have "k * sz \<le> cap * sz" using assms(2) by (intro mult_le_mono1)
  then have b: "k * sz < 2 ^ 31" using assms(1) unfolding sizes_fit_def by (blast intro: order.strict_trans1)
  then have "size_mul k sz = k * sz" by (intro size_mul_lt) simp
  then show ?thesis unfolding byte_count_def by (simp only: size_to_int_fits[OF b])
qed

text \<open>In consistent buffers the counts read as numbers, and all of a buffer's particles are sent.\<close>

lemma bufs_num:
  assumes "bufs_ok cap n (bufs, nums)" "sizes_fit sz cap" "i < n"
  shows "sint (nums ! i) = int (unat (nums ! i))" "to_size (sint (nums ! i)) = unat (nums ! i)"
    "length (bufs ! i) = cap" "unat (nums ! i) \<le> cap"
proof -
  show l: "length (bufs ! i) = cap" "unat (nums ! i) \<le> cap" using assms(1,3) by (simp_all add: bufs_ok_def)
  have "unat (nums ! i) < 2 ^ 31" by (rule order.strict_trans1[OF l(2) sizes_fit_cap[OF assms(2)]])
  then show "sint (nums ! i) = int (unat (nums ! i))" "to_size (sint (nums ! i)) = unat (nums ! i)"
    by (rule sint_eq_unat32, rule to_size_sint)
qed

lemma sent_filled:
  assumes "bufs_ok cap n st" "sizes_fit sz cap" "i < n"
  shows "sent sz st i = Some (filled st i)"
proof -
  obtain bufs nums where st: "st = (bufs, nums)" by (cases st)
  note b = bufs_num[OF assms(1)[unfolded st] assms(2,3)]
  have sz: "0 < sz" using assms(2) by (simp add: sizes_fit_def)
  have neg: "\<not> int k < 0" for k by simp
  show ?thesis
    unfolding sent_def st prod.case b(2) Let_def byte_count_fits[OF assms(2) b(4)] nat_int
    using b(3,4) sz neg by (simp add: filled_def del: of_nat_mult of_nat_unat)
qed

lemma sendrecv_eq:
  assumes "bufs_ok cap n (bufs, nums)" "sizes_fit sz cap" "si < n" "ri < n"
  shows "sendrecv sz si ri msg (bufs, nums) =
    (case msg of None \<Rightarrow> None | Some xs \<Rightarrow> if length xs \<le> cap then Some xs else None)"
proof -
  note s = bufs_num[OF assms(1-3)] and r = bufs_num[OF assms(1,2,4)]
  have "0 < sz" using assms(2) by (simp add: sizes_fit_def)
  then have l: "(int (cap * sz) < int (k * sz)) = (\<not> k \<le> cap)" for k
    unfolding of_nat_less_iff by (simp add: not_le)
  have neg: "\<not> int k < 0" for k by simp
  show ?thesis
    unfolding sendrecv_def prod.case s(2) r(3) byte_count_fits[OF assms(2) s(4)]
      byte_count_fits[OF assms(2) order.refl] Let_def l
    using neg by (simp split: option.split del: of_nat_mult of_nat_unat)
qed

lemma write_at_Some:
  assumes "write_at n xs buf = Some b"
  shows "n + length xs \<le> length b" "take (n + length xs) b = take n buf @ xs" "length b = length buf"
  using assms by (auto simp: write_at_def split: if_splits)

text \<open>One pair on consistent buffers: whether it fits, and what it does.\<close>

lemma send_pair_eq:
  assumes "bufs_ok cap n (bufs, nums)" "sizes_fit sz cap" "ri < n" "si < n"
    and "(if src = dst \<and> src = r then Some (filled (bufs, nums) si) else msg) = Some xs"
  shows "send_pair sz r src dst si ri msg (bufs, nums) =
    (if unat (nums ! ri) + length xs \<le> cap
     then Some (bufs[ri := take (unat (nums ! ri)) (bufs ! ri) @ xs @ drop (unat (nums ! ri) + length xs) (bufs ! ri)],
            nums[ri := word_of_nat (unat (nums ! ri) + length xs)])
     else None)"
proof -
  note s = bufs_num[OF assms(1,2,4)] and q = bufs_num[OF assms(1,2,3)]
  have add: "int_add (nums ! ri) (int (length xs)) = Some (word_of_nat (unat (nums ! ri) + length xs))"
    if "unat (nums ! ri) + length xs \<le> cap"
  proof -
    have "unat (nums ! ri) + length xs < 2 ^ 31"
      using that sizes_fit_cap[OF assms(2)] by (rule order.strict_trans1)
    from int_add_plus[OF this] obtain v where v: "int_add (nums ! ri) (int (length xs)) = Some v"
      "unat v = unat (nums ! ri) + length xs" by blast
    have "v = word_of_nat (unat v)" by simp
    then show ?thesis using v by simp
  qed
  have word: "nums ! ri + word_of_nat (length xs) = word_of_nat (unat (nums ! ri) + length xs)" by simp
  show ?thesis
  proof (cases "src = dst \<and> src = r")
    case True
    have x: "xs = take (unat (nums ! si)) (bufs ! si)" "length xs = unat (nums ! si)"
      using assms(5) True s(3,4) by (auto simp: filled_def)
    show ?thesis
      unfolding send_pair_def prod.case q(2) Let_def s(1) nat_int if_P[OF True]
      using add q(3) s(3,4) True unfolding x(2)[symmetric] x(1)[symmetric, folded x(2)]
      by (simp add: write_at_def)
  next
    case False
    have m: "msg = Some xs" using assms(5) unfolding if_not_P[OF False] .
    show ?thesis
      unfolding send_pair_def prod.case q(2) Let_def if_not_P[OF False] m sendrecv_eq[OF assms(1,2,4,3)] word
      using q(3) by (auto simp: write_at_def)
  qed
qed

lemma send_pair_effect:
  assumes "send_pair sz r src dst si ri msg st = Some st'" "bufs_ok cap n st" "sizes_fit sz cap" "ri < n" "si < n"
    and "(if src = dst \<and> src = r then Some (filled st si) else msg) = Some xs"
  shows "bufs_ok cap n st'" "filled st' ri = filled st ri @ xs" "j < n \<Longrightarrow> j \<noteq> ri \<Longrightarrow> filled st' j = filled st j"
proof -
  obtain bufs nums where st: "st = (bufs, nums)" by (cases st)
  note eq = send_pair_eq[OF assms(2)[unfolded st] assms(3-5) assms(6)[unfolded st]]
  have fit: "unat (nums ! ri) + length xs \<le> cap"
    using assms(1) unfolding st eq by (auto split: if_splits)
  then have st': "st' = (bufs[ri := take (unat (nums ! ri)) (bufs ! ri) @ xs @ drop (unat (nums ! ri) + length xs) (bufs ! ri)],
            nums[ri := word_of_nat (unat (nums ! ri) + length xs)])"
    using assms(1) unfolding st eq by simp
  have w: "unat (word_of_nat (unat (nums ! ri) + length xs) :: i32) = unat (nums ! ri) + length xs"
    by (rule unat_of_nat32) (use fit sizes_fit_cap[OF assms(3)] in simp)
  have l: "length bufs = n" "length nums = n" "\<forall>i < n. length (bufs ! i) = cap \<and> unat (nums ! i) \<le> cap"
    using assms(2) by (simp_all add: bufs_ok_def st)
  show "bufs_ok cap n st'" "filled st' ri = filled st ri @ xs" "j < n \<Longrightarrow> j \<noteq> ri \<Longrightarrow> filled st' j = filled st j"
    unfolding st' using l assms(4) fit w by (auto simp: bufs_ok_def filled_def st nth_list_update simp del: of_nat_add)
qed

text \<open>A batch whose receive buffers are distinct and not among its send buffers.\<close>

definition pairs_ok :: "nat \<Rightarrow> (nat \<times> nat) list \<Rightarrow> bool" where
  "pairs_ok n ps = (distinct (map snd ps) \<and> set (map fst ps) \<inter> set (map snd ps) = {} \<and> (\<forall>(si, ri) \<in> set ps. si < n \<and> ri < n))"

lemma send_pair_msg:
  "send_pair sz r src dst si ri msg st = Some st' \<Longrightarrow> \<not> (src = dst \<and> src = r) \<Longrightarrow> msg \<noteq> None"
  by (cases st) (auto simp: send_pair_def sendrecv_def Let_def bind_eq_Some_conv split: if_splits)

lemma pairs_effect:
  fixes W :: "'p ptc_world" and infos :: "int \<Rightarrow> domain_info" and d :: nat and dir :: int
  assumes "sizes_fit sz cap" "\<forall>r st. W r = Some st \<longrightarrow> bufs_ok cap n st" "set (map fst ps) \<inter> set (map snd qs) = {}"
    and "distinct (map snd ps)" "set ps \<subseteq> set qs" "\<forall>(si, ri) \<in> set ps. si < n \<and> ri < n"
    and "foldl (exchange_pair null sz id id infos d dir) W ps r = Some st'" "r \<noteq> null"
  shows "W r \<noteq> None \<and> bufs_ok cap n st' \<and> (\<forall>j < n. filled st' j =
    (case map_of (map prod.swap ps) j of
       Some si \<Rightarrow> contents_of W r j @ from_rank null (origin_rank (infos r) d dir) (contents_of W) si
     | None \<Rightarrow> contents_of W r j))
    \<and> (ps \<noteq> [] \<longrightarrow> origin_rank (infos r) d dir \<noteq> null \<longrightarrow> W (origin_rank (infos r) d dir) \<noteq> None)"
  using assms(3-8)
proof (induction ps arbitrary: r st' rule: rev_induct)
  case Nil
  have "bufs_ok cap n st'" using Nil.prems(5) assms(2) by (metis foldl_Nil)
  then show ?case using Nil by (simp add: contents_of_def)
next
  case (snoc p ps)
  obtain si ri where p: "p = (si, ri)" by (cases p)
  let ?src = "origin_rank (infos r) d dir" and ?dst = "dest_rank (infos r) d dir"
  let ?W = "foldl (exchange_pair null sz id id infos d dir) W ps"
  obtain st bk cps where st: "?W r = Some st"
    "send_pair sz r ?src ?dst si ri (message null sz r ?src bk cps (?W ?src) si) st = Some st'"
  proof -
    define V where "V = ?W"
    have "exchange_pair null sz id id infos d dir V p r = Some st'" using snoc.prems(5) unfolding V_def by (simp only: foldl_append foldl_Cons foldl_Nil)
    then show ?thesis
      using that unfolding V_def[symmetric] by (auto simp: p exchange_pair_def Let_def bind_eq_Some_conv)
  qed
  let ?msg = "message null sz r ?src bk cps (?W ?src) si"
  note IH = snoc.IH[OF _ _ _ _ st(1) snoc.prems(6)]
  have ih: "W r \<noteq> None" "bufs_ok cap n st" "\<forall>j < n. filled st j =
    (case map_of (map prod.swap ps) j of
       Some si \<Rightarrow> contents_of W r j @ from_rank null ?src (contents_of W) si
     | None \<Rightarrow> contents_of W r j)"
    using IH snoc.prems by auto
  have new: "map_of (map prod.swap ps) ri = None" "si \<notin> snd ` set qs" "si < n" "ri < n" "(si, ri) \<in> set qs"
    using snoc.prems by (auto simp: p map_of_eq_None_iff image_image)
  have none: "map_of (map prod.swap ps) si = None"
    using new(2) snoc.prems(3) by (auto simp: map_of_eq_None_iff image_image)
  have peer: "(?src \<noteq> null \<longrightarrow> W ?src \<noteq> None)
      \<and> (if ?src = ?dst \<and> ?src = r then Some (filled st si) else ?msg) = Some (from_rank null ?src (contents_of W) si)"
  proof (cases "?src = ?dst \<and> ?src = r")
    case True
    have "filled st si = contents_of W r si" using ih(3) new(3) none by simp
    moreover have "?src = r" using True by blast
    ultimately show ?thesis unfolding if_P[OF True] using ih(1) snoc.prems(6) by (simp add: from_rank_def)
  next
    case False
    then obtain xs where xs: "?msg = Some xs" using send_pair_msg[OF st(2)] by blast
    show ?thesis
    proof (cases "?src = null")
      case True
      then show ?thesis unfolding if_not_P[OF False] by (simp add: message_def from_rank_def)
    next
      case ne: False
      then obtain pst where pst: "?W ?src = Some pst" "sent sz pst si = Some xs"
        using xs by (auto simp: message_def bind_eq_Some_conv split: if_splits)
      have "W ?src \<noteq> None \<and> bufs_ok cap n pst \<and> filled pst si = contents_of W ?src si"
        using snoc.IH[OF _ _ _ _ pst(1) ne] snoc.prems new(3) none by auto
      then show ?thesis
        using xs pst(2) sent_filled[OF _ assms(1) new(3), of pst] ne
        unfolding if_not_P[OF False] by (simp add: from_rank_def)
    qed
  qed
  note e = send_pair_effect[OF st(2) ih(2) assms(1) new(4,3) conjunct2[OF peer]]
  have "filled st' j = (case map_of (map prod.swap (ps @ [p])) j of
       Some si \<Rightarrow> contents_of W r j @ from_rank null ?src (contents_of W) si
     | None \<Rightarrow> contents_of W r j)" if "j < n" for j
    using e(2,3) ih(3) that new(1,4) by (cases "j = ri") (auto simp: p map_add_def split: option.splits)
  then show ?case using ih(1) e(1) peer by simp
qed

text \<open>
  The processes \<open>R\<close> of a world along one direction: each sends to the process that receives
  from it, as \<open>MPI_Cart_shift\<close> arranges.
\<close>

definition shift_ok :: "int \<Rightarrow> (int \<Rightarrow> domain_info) \<Rightarrow> int set \<Rightarrow> nat \<Rightarrow> int \<Rightarrow> bool" where
  "shift_ok null infos R d dir = (null \<notin> R \<and> (\<forall>r \<in> R. origin_rank (infos r) d dir \<noteq> null \<longrightarrow>
     origin_rank (infos r) d dir \<in> R \<and> dest_rank (infos (origin_rank (infos r) d dir)) d dir = r))"

text \<open>With room in the receive buffers every process gets through a batch.\<close>

lemma pairs_total:
  fixes W :: "'p ptc_world" and infos :: "int \<Rightarrow> domain_info" and d :: nat and dir :: int
  assumes fit: "sizes_fit sz cap" and ok: "\<forall>r st. W r = Some st \<longrightarrow> bufs_ok cap n st"
    and R: "shift_ok null infos R d dir" "\<forall>r \<in> R. W r \<noteq> None"
    and "set (map fst ps) \<inter> set (map snd qs) = {}" "distinct (map snd ps)" "set ps \<subseteq> set qs"
      "\<forall>(si, ri) \<in> set ps. si < n \<and> ri < n"
    and "\<forall>r \<in> R. \<forall>(si, ri) \<in> set ps. length (contents_of W r ri)
       + length (from_rank null (origin_rank (infos r) d dir) (contents_of W) si) \<le> cap"
    and "r \<in> R"
  shows "foldl (exchange_pair null sz id id infos d dir) W ps r \<noteq> None"
  using assms(5-10)
proof (induction ps arbitrary: r rule: rev_induct)
  case Nil
  then show ?case using R(2) by simp
next
  case (snoc p ps)
  obtain si ri where p: "p = (si, ri)" by (cases p)
  let ?src = "origin_rank (infos r) d dir" and ?dst = "dest_rank (infos r) d dir"
  let ?W = "foldl (exchange_pair null sz id id infos d dir) W ps"
  have pre: "set (map fst ps) \<inter> set (map snd qs) = {}" "distinct (map snd ps)" "set ps \<subseteq> set qs"
    "\<forall>(si, ri) \<in> set ps. si < n \<and> ri < n"
    "\<forall>r \<in> R. \<forall>(si, ri) \<in> set ps. length (contents_of W r ri)
       + length (from_rank null (origin_rank (infos r) d dir) (contents_of W) si) \<le> cap"
    using snoc.prems by auto
  have new: "map_of (map prod.swap ps) ri = None" "si \<notin> snd ` set qs" "si < n" "ri < n"
    using snoc.prems by (auto simp: p map_of_eq_None_iff image_image)
  have none: "map_of (map prod.swap ps) si = None"
    using new(2) pre(3) by (auto simp: map_of_eq_None_iff image_image)
  have known: "\<exists>st. ?W q = Some st \<and> bufs_ok cap n st \<and> filled st ri = contents_of W q ri \<and> filled st si = contents_of W q si"
    if "q \<in> R" for q
  proof -
    obtain st where st: "?W q = Some st" using snoc.IH[OF pre \<open>q \<in> R\<close>] by blast
    have "q \<noteq> null" using R(1) that by (auto simp: shift_ok_def)
    then show ?thesis
      using pairs_effect[OF fit ok pre(1-4) st] new none st by simp
  qed
  obtain st where st: "?W r = Some st" "bufs_ok cap n st" "filled st ri = contents_of W r ri"
    "filled st si = contents_of W r si" using known[OF snoc.prems(6)] by blast
  define bk where "bk = dest_rank (infos ?src) d dir"
  define cps where "cps = (origin_rank (infos ?src) d dir = bk \<and> bk = ?src)"
  let ?msg = "message null sz r ?src bk cps (?W ?src) si"
  let ?xs = "from_rank null ?src (contents_of W) si"
  have xs: "(if ?src = ?dst \<and> ?src = r then Some (filled st si) else ?msg) = Some ?xs"
  proof (cases "?src = ?dst \<and> ?src = r")
    case True
    have "r \<noteq> null" using R(1) snoc.prems(6) by (auto simp: shift_ok_def)
    moreover have "?src = r" using True by blast
    ultimately show ?thesis unfolding if_P[OF True] using st(4) by (simp add: from_rank_def)
  next
    case False
    show ?thesis
    proof (cases "?src = null")
      case True
      then show ?thesis unfolding if_not_P[OF False] by (simp add: message_def from_rank_def)
    next
      case ne: False
      then have src: "?src \<in> R" "bk = r" using R(1) snoc.prems(6) by (simp_all add: shift_ok_def bk_def)
      have "\<not> cps" using False src(2) unfolding cps_def bk_def by metis
      moreover obtain pst where pst: "?W ?src = Some pst" "bufs_ok cap n pst" "filled pst si = contents_of W ?src si"
        using known[OF src(1)] by blast
      ultimately show ?thesis
        unfolding if_not_P[OF False] using ne src(2) sent_filled[OF pst(2) fit new(3)]
        by (simp add: message_def from_rank_def)
    qed
  qed
  obtain bufs nums where bn: "st = (bufs, nums)" by (cases st)
  have "length (filled st ri) = unat (nums ! ri)"
    using bufs_num[OF st(2)[unfolded bn] fit new(4)] by (simp add: bn filled_def)
  moreover have "length (contents_of W r ri) + length ?xs \<le> cap"
    using snoc.prems(5,6) by (auto simp: p)
  ultimately have "unat (nums ! ri) + length ?xs \<le> cap" by (simp add: st(3))
  then have "send_pair sz r ?src ?dst si ri ?msg st \<noteq> None"
    using send_pair_eq[OF st(2)[unfolded bn] fit new(4,3) xs[unfolded bn]] by (simp add: bn)
  moreover have "exchange_pair null sz id id infos d dir ?W p r = send_pair sz r ?src ?dst si ri ?msg st"
    using st(1) by (simp add: p exchange_pair_def Let_def bk_def cps_def)
  ultimately show ?case unfolding foldl_append foldl_Cons foldl_Nil by (simp only: not_False_eq_True)
qed

text \<open>No rank has the number \<open>MPI_PROC_NULL\<close>, and all buffers are consistent.\<close>

definition world_ok :: "nat \<Rightarrow> nat \<Rightarrow> int \<Rightarrow> 'p ptc_world \<Rightarrow> bool" where
  "world_ok cap n null W = (W null = None \<and> (\<forall>r st. W r = Some st \<longrightarrow> bufs_ok cap n st))"

lemma clear_nums_filled:
  assumes "bufs_ok cap n st"
  shows "bufs_ok cap n (clear_nums ks st)"
    "j < n \<Longrightarrow> filled (clear_nums ks st) j = (if j \<in> set ks then [] else filled st j)"
proof -
  obtain bufs nums where st: "st = (bufs, nums)" by (cases st)
  have c: "length (foldl (\<lambda>n i. n[i := 0 :: i32]) ns ks) = length ns
      \<and> (\<forall>j < length ns. foldl (\<lambda>n i. n[i := 0 :: i32]) ns ks ! j = (if j \<in> set ks then 0 else ns ! j))" for ns
  proof (induction ks rule: rev_induct)
    case (snoc i ks)
    have u: "xs[i := 0] ! j = (if i = j then 0 else xs ! j)" if "j < length xs" for xs :: "i32 list" and j
      using that by (cases "i = j") simp_all
    show ?case using snoc u by auto
  qed simp
  show "bufs_ok cap n (clear_nums ks st)"
    "j < n \<Longrightarrow> filled (clear_nums ks st) j = (if j \<in> set ks then [] else filled st j)"
    using assms c[of nums] by (auto simp: bufs_ok_def clear_nums_def filled_def st)
qed

lemma batch_effect:
  fixes W :: "'p ptc_world" and infos :: "int \<Rightarrow> domain_info" and d :: nat and dir :: int
  assumes fit: "sizes_fit sz cap" and "world_ok cap n null W" "pairs_ok n ps"
  defines "W' \<equiv> exchange_batch null sz id id infos d dir ps W"
  shows "world_ok cap n null W'"
    and "W' r = Some st' \<Longrightarrow> W r \<noteq> None"
    and "W' r = Some st' \<Longrightarrow> ps \<noteq> [] \<Longrightarrow> origin_rank (infos r) d dir \<noteq> null \<Longrightarrow> W (origin_rank (infos r) d dir) \<noteq> None"
    and "W' r = Some st' \<Longrightarrow> (si, ri) \<in> set ps \<Longrightarrow> contents_of W' r ri
      = contents_of W r ri @ from_rank null (origin_rank (infos r) d dir) (contents_of W) si"
    and "W' r = Some st' \<Longrightarrow> j < n \<Longrightarrow> j \<notin> fst ` set ps \<Longrightarrow> j \<notin> snd ` set ps \<Longrightarrow> contents_of W' r j = contents_of W r j"
proof -
  have p: "set (map fst ps) \<inter> set (map snd ps) = {}" "distinct (map snd ps)" "\<forall>(si, ri) \<in> set ps. si < n \<and> ri < n"
    using assms(3) by (simp_all add: pairs_ok_def)
  have ok: "\<forall>r st. W r = Some st \<longrightarrow> bufs_ok cap n st" using assms(2) unfolding world_ok_def by blast
  have none: "foldl (exchange_pair null sz id id infos d dir) W qs null = None" for qs
    by (induction qs rule: rev_induct) (use assms(2) in \<open>auto simp: world_ok_def exchange_pair_def Let_def\<close>)
  have W': "\<exists>st. foldl (exchange_pair null sz id id infos d dir) W ps r = Some st \<and> st' = clear_nums (map fst ps) st \<and> r \<noteq> null"
    if "W' r = Some st'" for r st'
    using that none[of ps] by (auto simp: W'_def exchange_batch_def)
  have e: "W r \<noteq> None \<and> bufs_ok cap n st' \<and> (ps \<noteq> [] \<longrightarrow> origin_rank (infos r) d dir \<noteq> null \<longrightarrow> W (origin_rank (infos r) d dir) \<noteq> None)
      \<and> (\<forall>j < n. filled st' j = (if j \<in> fst ` set ps then [] else case map_of (map prod.swap ps) j of
           Some si \<Rightarrow> contents_of W r j @ from_rank null (origin_rank (infos r) d dir) (contents_of W) si
         | None \<Rightarrow> contents_of W r j))"
    if w: "W' r = Some st'" for r st'
  proof -
    obtain st where st: "foldl (exchange_pair null sz id id infos d dir) W ps r = Some st" "st' = clear_nums (map fst ps) st" "r \<noteq> null"
      using W'[OF w] by blast
    note pe = pairs_effect[where n = n and W = W, OF fit ok p(1,2) subset_refl p(3) st(1,3)]
    have b: "bufs_ok cap n st" using pe by blast
    show ?thesis
      using pe clear_nums_filled[OF b, where ks = "map fst ps"] by (simp add: st(2))
  qed
  show "world_ok cap n null W'"
    using e none[of ps] by (auto simp: world_ok_def W'_def exchange_batch_def)
  show "W' r = Some st' \<Longrightarrow> W r \<noteq> None"
    "W' r = Some st' \<Longrightarrow> ps \<noteq> [] \<Longrightarrow> origin_rank (infos r) d dir \<noteq> null \<Longrightarrow> W (origin_rank (infos r) d dir) \<noteq> None"
    using e by auto
  have inv: "contents_of W' r j = filled st' j" if "W' r = Some st'" for j using that by (simp add: contents_of_def)
  have keys: "map_of (map prod.swap ps) ri = Some si" if "(si, ri) \<in> set ps" for si ri
  proof -
    have "(ri, si) \<in> prod.swap ` set ps" using that by (metis imageI swap_simp)
    then show ?thesis using p(2) by (intro map_of_is_SomeI) (simp_all add: comp_def)
  qed
  show "contents_of W' r ri = contents_of W r ri @ from_rank null (origin_rank (infos r) d dir) (contents_of W) si"
    if "W' r = Some st'" "(si, ri) \<in> set ps"
  proof -
    have "ri \<notin> fst ` set ps" "ri < n" using p that(2) by force+
    then show ?thesis using e[OF that(1)] inv[OF that(1)] keys[OF that(2)] by simp
  qed
  show "contents_of W' r j = contents_of W r j" if "W' r = Some st'" "j < n" "j \<notin> fst ` set ps" "j \<notin> snd ` set ps"
  proof -
    have "map_of (map prod.swap ps) j = None" using that(4) by (auto simp: map_of_eq_None_iff image_image)
    then show ?thesis using e[OF that(1)] inv[OF that(1)] that by simp
  qed
qed

text \<open>A batch as a whole: who gets through, and how much room it needs.\<close>

definition batch_room :: "nat \<Rightarrow> int \<Rightarrow> (int \<Rightarrow> domain_info) \<Rightarrow> int set \<Rightarrow> nat \<Rightarrow> int \<Rightarrow> (nat \<times> nat) list \<Rightarrow> (int \<Rightarrow> nat \<Rightarrow> 'p list) \<Rightarrow> bool" where
  "batch_room cap null infos R d dir ps F = (\<forall>r \<in> R. \<forall>(si, ri) \<in> set ps.
     length (F r ri) + length (from_rank null (origin_rank (infos r) d dir) F si) \<le> cap)"

lemma batch_total:
  fixes W :: "'p ptc_world" and infos :: "int \<Rightarrow> domain_info" and d :: nat and dir :: int
  assumes "sizes_fit sz cap" "world_ok cap n null W" "pairs_ok n ps" "shift_ok null infos R d dir"
    "\<forall>r \<in> R. W r \<noteq> None" "batch_room cap null infos R d dir ps (contents_of W)"
  shows "\<forall>r \<in> R. exchange_batch null sz id id infos d dir ps W r \<noteq> None"
proof
  fix r assume r: "r \<in> R"
  have ok: "\<forall>r st. W r = Some st \<longrightarrow> bufs_ok cap n st" using assms(2) unfolding world_ok_def by blast
  have p: "set (map fst ps) \<inter> set (map snd ps) = {}" "distinct (map snd ps)" "\<forall>(si, ri) \<in> set ps. si < n \<and> ri < n"
    using assms(3) by (simp_all add: pairs_ok_def)
  show "exchange_batch null sz id id infos d dir ps W r \<noteq> None"
    using pairs_total[OF assms(1) ok assms(4,5) p(1,2) subset_refl p(3) assms(6)[unfolded batch_room_def] r]
    by (simp add: exchange_batch_def)
qed

text \<open>Both directions of one axis: what a zone gathers from its neighbours.\<close>

definition gather :: "int \<Rightarrow> (int \<Rightarrow> domain_info) \<Rightarrow> nat \<Rightarrow> nat \<Rightarrow> (int \<Rightarrow> nat \<Rightarrow> 'p list) \<Rightarrow> int \<Rightarrow> nat \<Rightarrow> 'p list" where
  "gather null infos d s F r j = F r j @ from_rank null (neighbor_right (infos r) ! d) F (j - s)
     @ from_rank null (neighbor_left (infos r) ! d) F (j + s)"

definition axis_pairs_ok :: "nat \<Rightarrow> (nat \<times> nat) list \<Rightarrow> (nat \<times> nat) list \<Rightarrow> bool" where
  "axis_pairs_ok n pm pp = (pairs_ok n pm \<and> pairs_ok n pp \<and> pm \<noteq> [] \<and> pp \<noteq> []
     \<and> fst ` set pp \<inter> (fst ` set pm \<union> snd ` set pm) = {})"

lemma axis_effect:
  fixes W :: "'p ptc_world" and infos :: "int \<Rightarrow> domain_info" and d :: nat and dir :: int
  assumes fit: "sizes_fit sz cap" and "world_ok cap n null W" "axis_pairs_ok n pm pp"
  defines "W' \<equiv> exchange_batch null sz id id infos d 1 pp (exchange_batch null sz id id infos d (- 1) pm W)"
  shows "world_ok cap n null W'"
    and "W' r \<noteq> None \<Longrightarrow> (j - s, j) \<in> set pm \<Longrightarrow> (j + s, j) \<in> set pp \<Longrightarrow> contents_of W' r j = gather null infos d s (contents_of W) r j"
    and "W' r \<noteq> None \<Longrightarrow> W r \<noteq> None"
proof -
  have p: "pairs_ok n pm" "pairs_ok n pp" "pm \<noteq> []" "pp \<noteq> []" "fst ` set pp \<inter> (fst ` set pm \<union> snd ` set pm) = {}"
    using assms(3) by (simp_all add: axis_pairs_ok_def)
  note a = batch_effect[OF fit assms(2) p(1), of infos d "- 1"]
  note b = batch_effect[OF fit a(1) p(2), of infos d 1, folded W'_def]
  show "world_ok cap n null W'" by (rule b(1))
  show "W' r \<noteq> None \<Longrightarrow> W r \<noteq> None" using a(2) b(2) by blast
  show "contents_of W' r j = gather null infos d s (contents_of W) r j"
    if w: "W' r \<noteq> None" and j': "(j - s, j) \<in> set pm" "(j + s, j) \<in> set pp"
  proof -
    let ?W = "exchange_batch null sz id id infos d (- 1) pm W"
    obtain st' where st': "W' r = Some st'" using w by blast
    obtain st where st: "?W r = Some st" using b(2)[OF st'] by blast
    have j: "j + s < n" "j + s \<notin> fst ` set pm" "j + s \<notin> snd ` set pm"
  proof -
      have m: "j + s \<in> fst ` set pp" using j'(2) by force
      show "j + s \<notin> fst ` set pm" "j + s \<notin> snd ` set pm" using p(5) m by blast+
      show "j + s < n" using p(2) j'(2) by (auto simp: pairs_ok_def)
    qed
    have "from_rank null (neighbor_left (infos r) ! d) (contents_of ?W) (j + s)
        = from_rank null (neighbor_left (infos r) ! d) (contents_of W) (j + s)"
      using a(5)[OF _ j] b(3)[OF st' p(4)] by (auto simp: from_rank_def origin_rank_def)
    then show ?thesis
      using b(4)[OF st' j'(2)] a(4)[OF st j'(1)] by (simp add: gather_def origin_rank_def)
  qed
qed

text \<open>Room for what a zone gathers is room for both batches.\<close>

lemma axis_total:
  fixes W :: "'p ptc_world" and infos :: "int \<Rightarrow> domain_info" and d :: nat and dir :: int
  assumes fit: "sizes_fit sz cap" and W: "world_ok cap n null W" and ap: "axis_pairs_ok n pm pp"
    and shape: "\<forall>(si, ri) \<in> set pm. si = ri - s" "\<forall>(si, ri) \<in> set pp. si = ri + s"
      "snd ` set pm = snd ` set pp"
    and R: "shift_ok null infos R d (- 1)" "shift_ok null infos R d 1" "\<forall>r \<in> R. W r \<noteq> None"
    and room: "\<forall>r \<in> R. \<forall>j \<in> snd ` set pp. length (gather null infos d s (contents_of W) r j) \<le> cap"
  shows "\<forall>r \<in> R. exchange_batch null sz id id infos d 1 pp (exchange_batch null sz id id infos d (- 1) pm W) r \<noteq> None"
proof -
  let ?W = "exchange_batch null sz id id infos d (- 1) pm W"
  have p: "pairs_ok n pm" "pairs_ok n pp" "fst ` set pp \<inter> (fst ` set pm \<union> snd ` set pm) = {}"
    using ap by (simp_all add: axis_pairs_ok_def)
  have room1: "batch_room cap null infos R d (- 1) pm (contents_of W)"
    unfolding batch_room_def
  proof (intro ballI, clarify)
    fix r si ri assume h: "r \<in> R" "(si, ri) \<in> set pm"
    then have "ri \<in> snd ` set pp" "si = ri - s" using shape(1,3) by force+
    then show "length (contents_of W r ri) + length (from_rank null (origin_rank (infos r) d (- 1)) (contents_of W) si) \<le> cap"
      using room h(1) by (fastforce simp: gather_def origin_rank_def)
  qed
  note one = batch_total[OF fit W p(1) R(1,3) room1]
  note a = batch_effect[OF fit W p(1), of infos d "- 1"]
  have room2: "batch_room cap null infos R d 1 pp (contents_of ?W)"
    unfolding batch_room_def
  proof (intro ballI, clarify)
    fix r si ri assume h: "r \<in> R" "(si, ri) \<in> set pp"
    then have j: "ri \<in> snd ` set pp" "si = ri + s" using shape(2) by force+
    obtain si' where si': "(si', ri) \<in> set pm" using j(1) shape(3) by (metis imageE surj_pair snd_conv)
    then have e: "si' = ri - s" using shape(1) by blast
    obtain st where st: "?W r = Some st" using one h(1) by blast
    have c: "contents_of ?W r ri = contents_of W r ri @ from_rank null (neighbor_right (infos r) ! d) (contents_of W) (ri - s)"
      using a(4)[OF st si'] by (simp add: e origin_rank_def)
    have "from_rank null (neighbor_left (infos r) ! d) (contents_of ?W) si
        = from_rank null (neighbor_left (infos r) ! d) (contents_of W) si"
    proof (cases "neighbor_left (infos r) ! d = null")
      case False
      then have "neighbor_left (infos r) ! d \<in> R" using R(2) h(1) by (auto simp: shift_ok_def origin_rank_def)
      then obtain st' where st': "?W (neighbor_left (infos r) ! d) = Some st'" using one by blast
      have "si \<in> fst ` set pp" using h(2) by force
      then have "si < n" "si \<notin> fst ` set pm" "si \<notin> snd ` set pm"
        using p(2,3) h(2) by (auto simp: pairs_ok_def)
      then show ?thesis using a(5)[OF st'] False by (simp add: from_rank_def)
    qed (simp add: from_rank_def)
    moreover have "length (gather null infos d s (contents_of W) r ri) \<le> cap" using room h(1) j(1) by blast
    ultimately show "length (contents_of ?W r ri) + length (from_rank null (origin_rank (infos r) d 1) (contents_of ?W) si) \<le> cap"
      using c j(2) by (simp add: gather_def origin_rank_def)
  qed
  show ?thesis by (rule batch_total[OF fit a(1) p(2) R(2) one room2])
qed

lemma from_rank_cong: "(src \<noteq> null \<Longrightarrow> F src si = G src si) \<Longrightarrow> from_rank null src F si = from_rank null src G si"
  by (simp add: from_rank_def)

text \<open>The two axes of the batches.\<close>

lemma pairs_shape:
  "\<forall>(si, ri) \<in> set (x_pairs dm (- 1)). si = ri - 1" "\<forall>(si, ri) \<in> set (x_pairs dm 1). si = ri + 1"
  "snd ` set (x_pairs dm (- 1)) = snd ` set (x_pairs dm 1)"
  "\<forall>(si, ri) \<in> set (y_pairs dm (- 1)). si = ri - 3" "\<forall>(si, ri) \<in> set (y_pairs dm 1). si = ri + 3"
  "snd ` set (y_pairs dm (- 1)) = snd ` set (y_pairs dm 1)"
  by (auto simp: x_pairs_def y_pairs_def image_image)

lemma axis_pairs:
  "axis_pairs_ok 3 (x_pairs 1 (- 1)) (x_pairs 1 1)" "axis_pairs_ok 9 (x_pairs 2 (- 1)) (x_pairs 2 1)"
  "axis_pairs_ok 27 (x_pairs 3 (- 1)) (x_pairs 3 1)" "axis_pairs_ok 9 (y_pairs 2 (- 1)) (y_pairs 2 1)"
  "axis_pairs_ok 27 (y_pairs 3 (- 1)) (y_pairs 3 1)"
  by (simp_all add: axis_pairs_ok_def pairs_ok_def x_pairs_def y_pairs_def upt_rec)

definition x_phase :: "int \<Rightarrow> nat \<Rightarrow> (int \<Rightarrow> domain_info) \<Rightarrow> nat \<Rightarrow> 'p ptc_world \<Rightarrow> 'p ptc_world" where
  "x_phase null sz infos dm W = exchange_batch null sz id id infos 0 1 (x_pairs dm 1) (exchange_batch null sz id id infos 0 (- 1) (x_pairs dm (- 1)) W)"

definition y_phase :: "int \<Rightarrow> nat \<Rightarrow> (int \<Rightarrow> domain_info) \<Rightarrow> nat \<Rightarrow> 'p ptc_world \<Rightarrow> 'p ptc_world" where
  "y_phase null sz infos dm W = exchange_batch null sz id id infos 1 1 (y_pairs dm 1) (exchange_batch null sz id id infos 1 (- 1) (y_pairs dm (- 1)) W)"

lemma x_phase_gather:
  assumes fit: "sizes_fit sz cap" and "world_ok cap (3 ^ dm) null W" "dm = 1 \<or> dm = 2 \<or> dm = 3"
  shows "world_ok cap (3 ^ dm) null (x_phase null sz infos dm W)" "x_phase null sz infos dm W r \<noteq> None \<Longrightarrow> W r \<noteq> None"
    and "x_phase null sz infos dm W r \<noteq> None \<Longrightarrow> i < (if dm = 1 then 1 else if dm = 2 then 3 else 9) \<Longrightarrow>
      contents_of (x_phase null sz infos dm W) r (i * 3 + 1) = gather null infos 0 1 (contents_of W) r (i * 3 + 1)"
proof -
  have ok: "axis_pairs_ok (3 ^ dm) (x_pairs dm (- 1)) (x_pairs dm 1)" using assms(3) axis_pairs by auto
  note a = axis_effect[OF fit assms(2) ok, of infos 0, folded x_phase_def]
  show "world_ok cap (3 ^ dm) null (x_phase null sz infos dm W)" by (rule a(1))
  show "x_phase null sz infos dm W r \<noteq> None \<Longrightarrow> W r \<noteq> None" by (rule a(3))
  show "contents_of (x_phase null sz infos dm W) r (i * 3 + 1) = gather null infos 0 1 (contents_of W) r (i * 3 + 1)"
    if "x_phase null sz infos dm W r \<noteq> None" "i < (if dm = 1 then 1 else if dm = 2 then 3 else 9)"
    by (rule a(2)[OF that(1)]) (use that(2) in \<open>auto simp: x_pairs_def image_iff\<close>)
qed

lemma y_phase_gather:
  assumes fit: "sizes_fit sz cap" and "world_ok cap (3 ^ dm) null W" "dm = 2 \<or> dm = 3"
  shows "world_ok cap (3 ^ dm) null (y_phase null sz infos dm W)" "y_phase null sz infos dm W r \<noteq> None \<Longrightarrow> W r \<noteq> None"
    and "y_phase null sz infos dm W r \<noteq> None \<Longrightarrow> i < (if dm = 2 then 1 else 3) \<Longrightarrow>
      contents_of (y_phase null sz infos dm W) r (1 + 3 + i * 9) = gather null infos 1 3 (contents_of W) r (1 + 3 + i * 9)"
proof -
  have ok: "axis_pairs_ok (3 ^ dm) (y_pairs dm (- 1)) (y_pairs dm 1)" using assms(3) axis_pairs by auto
  note a = axis_effect[OF fit assms(2) ok, of infos 1, folded y_phase_def]
  show "world_ok cap (3 ^ dm) null (y_phase null sz infos dm W)" by (rule a(1))
  show "y_phase null sz infos dm W r \<noteq> None \<Longrightarrow> W r \<noteq> None" by (rule a(3))
  show "contents_of (y_phase null sz infos dm W) r (1 + 3 + i * 9) = gather null infos 1 3 (contents_of W) r (1 + 3 + i * 9)"
    if "y_phase null sz infos dm W r \<noteq> None" "i < (if dm = 2 then 1 else 3)"
    by (rule a(2)[OF that(1)]) (use that(2) in \<open>auto simp: y_pairs_def image_iff\<close>)
qed

text \<open>After both axes a middle zone holds what the diagonal neighbours sent as well.\<close>

lemma xy_gather:
  assumes fit: "sizes_fit sz cap" and "world_ok cap (3 ^ dm) null W" "dm = 2 \<or> dm = 3"
    and "y_phase null sz infos dm (x_phase null sz infos dm W) r \<noteq> None" "i < (if dm = 2 then 1 else 3)"
  shows "contents_of (y_phase null sz infos dm (x_phase null sz infos dm W)) r (4 + i * 9)
    = gather null infos 1 3 (gather null infos 0 1 (contents_of W)) r (4 + i * 9)"
proof -
  let ?X = "x_phase null sz infos dm W"
  have d: "dm = 1 \<or> dm = 2 \<or> dm = 3" using assms(3) by simp
  note x = x_phase_gather[OF fit assms(2) d, of infos] and y = y_phase_gather[OF fit x_phase_gather(1)[OF fit assms(2) d, of infos] assms(3), of infos]
  have ok: "axis_pairs_ok (3 ^ dm) (y_pairs dm (- 1)) (y_pairs dm 1)" using assms(3) axis_pairs by auto
  have peers: "src \<noteq> null \<Longrightarrow> ?X src \<noteq> None"
    if "src = neighbor_left (infos r) ! 1 \<or> src = neighbor_right (infos r) ! 1" for src
  proof -
    note p = ok[unfolded axis_pairs_ok_def]
    let ?W = "exchange_batch null sz id id infos 1 (- 1) (y_pairs dm (- 1)) ?X"
    have w: "?W r \<noteq> None" and l: "neighbor_left (infos r) ! 1 \<noteq> null \<Longrightarrow> ?W (neighbor_left (infos r) ! 1) \<noteq> None"
      using batch_effect(2,3)[OF fit batch_effect(1)[OF fit x(1), of "y_pairs dm (- 1)" infos 1 "- 1"], of "y_pairs dm 1" infos 1 1 r]
        p assms(4) by (auto simp: y_phase_def origin_rank_def simp del: not_None_eq)
    have rr: "neighbor_right (infos r) ! 1 \<noteq> null \<Longrightarrow> ?X (neighbor_right (infos r) ! 1) \<noteq> None"
      using batch_effect(3)[OF fit x(1), of "y_pairs dm (- 1)" infos 1 "- 1" r] p w by (auto simp: origin_rank_def simp del: not_None_eq)
    have ll: "neighbor_left (infos r) ! 1 \<noteq> null \<Longrightarrow> ?X (neighbor_left (infos r) ! 1) \<noteq> None"
      using batch_effect(2)[OF fit x(1), of "y_pairs dm (- 1)" infos 1 "- 1"] p l by (auto simp del: not_None_eq)
    show "src \<noteq> null \<Longrightarrow> ?X src \<noteq> None" using that rr ll by auto
  qed
  have g: "contents_of ?X q z = gather null infos 0 1 (contents_of W) q z"
    if "?X q \<noteq> None" "z = j * 3 + 1" "j < (if dm = 2 then 3 else 9)" for q z j
    using x(3)[OF that(1), of j] that(2,3) assms(3) by auto
  have i: "1 + 3 * i < (if dm = 2 then 3 else 9)" "3 * i < (if dm = 2 then 3 else 9)" "2 + 3 * i < (if dm = 2 then 3 else 9)"
    using assms(5) by (auto split: if_splits)
  have "contents_of ?X r (4 + i * 9) = gather null infos 0 1 (contents_of W) r (4 + i * 9)"
    by (rule g[OF y(2)[OF assms(4)] _ i(1)]) simp
  moreover have "from_rank null (neighbor_right (infos r) ! 1) (contents_of ?X) (4 + i * 9 - 3)
      = from_rank null (neighbor_right (infos r) ! 1) (gather null infos 0 1 (contents_of W)) (4 + i * 9 - 3)"
    by (rule from_rank_cong, rule g[OF peers _ i(2)]) simp_all
  moreover have "from_rank null (neighbor_left (infos r) ! 1) (contents_of ?X) (4 + i * 9 + 3)
      = from_rank null (neighbor_left (infos r) ! 1) (gather null infos 0 1 (contents_of W)) (4 + i * 9 + 3)"
    by (rule from_rank_cong, rule g[OF peers _ i(3)]) simp_all
  moreover have "contents_of (y_phase null sz infos dm ?X) r (4 + i * 9) = gather null infos 1 3 (contents_of ?X) r (4 + i * 9)"
    using y(3)[OF assms(4,5)] by simp
  ultimately show ?thesis by (simp add: gather_def)
qed

text \<open>The exchange along z: the place where the message is written depends on the build.\<close>

lemma length_filled: "bufs_ok cap n st \<Longrightarrow> i < n \<Longrightarrow> length (filled st i) = unat (snd st ! i)"
  by (cases st) (auto simp: bufs_ok_def filled_def)

lemma single_step:
  fixes W :: "'p ptc_world" and infos :: "int \<Rightarrow> domain_info" and d :: nat and dir :: int
  assumes fit: "sizes_fit sz cap" and W: "world_ok cap n null W" and dom: "\<forall>q. (W q \<noteq> None) = (q \<in> R)"
    and R: "shift_ok null infos R d dir" "r \<in> R" and zones: "si < n" "ri < n" "si \<noteq> ri"
    and room: "length (contents_of W r ri) + length (from_rank null (origin_rank (infos r) d dir) (contents_of W) si) \<le> cap"
  defines "msg \<equiv> from_rank null (origin_rank (infos r) d dir) (contents_of W) si"
    and "buf \<equiv> fst (the (W r)) ! ri" and "num \<equiv> length (contents_of W r ri)"
  shows "\<exists>st'. exchange_single null sz dev infos d dir si ri W r = Some st' \<and> bufs_ok cap n st'
    \<and> fst st' ! ri = (if dev then take num buf @ msg @ drop (num + length msg) buf else msg @ drop (length msg) buf)
    \<and> length (filled st' ri) = num + length msg
    \<and> (\<forall>j < n. j \<noteq> ri \<longrightarrow> j \<noteq> si \<longrightarrow> filled st' j = contents_of W r j)"
proof -
  let ?src = "origin_rank (infos r) d dir"
  obtain bufs nums where st: "W r = Some (bufs, nums)" using dom R(2) by (metis not_None_eq surj_pair)
  have ok: "bufs_ok cap n (bufs, nums)" using W st unfolding world_ok_def by blast
  note b = bufs_num[OF ok fit zones(2)]
  have l: "length bufs = n" "length nums = n" using ok by (simp_all add: bufs_ok_def)
  have num: "num = unat (nums ! ri)" using length_filled[OF ok zones(2)] by (simp add: num_def contents_of_def st)
  have m: "message null sz r ?src (dest_rank (infos ?src) d dir) False (W ?src) si = Some msg"
  proof (cases "?src = null")
    case False
    then have src: "?src \<in> R" "dest_rank (infos ?src) d dir = r" using R by (simp_all add: shift_ok_def)
    obtain pst where pst: "W ?src = Some pst" using dom src(1) by blast
    have okp: "bufs_ok cap n pst" using W pst unfolding world_ok_def by blast
    show ?thesis
      using False src(2) sent_filled[OF okp fit zones(1)] by (simp add: message_def msg_def from_rank_def contents_of_def pst)
  qed (simp add: message_def msg_def from_rank_def)
  have len: "length msg \<le> cap" "num + length msg \<le> cap" using room by (simp_all add: msg_def num_def)
  define w where "w = nums ! ri + word_of_nat (length msg)"
  have w: "unat w = num + length msg"
  proof -
    have "w = word_of_nat (num + length msg)" by (simp add: w_def num)
    moreover have "num + length msg < 2 ^ 31" by (rule order.strict_trans1[OF len(2) sizes_fit_cap[OF fit]])
    ultimately show ?thesis by (simp only: unat_of_nat32)
  qed
  define c where "c = (if dev then take num buf @ msg @ drop (num + length msg) buf else msg @ drop (length msg) buf)"
  have buf: "buf = bufs ! ri" "length buf = cap" using b(3) by (simp_all add: buf_def st)
  have lc: "length c = cap" using buf(2) len by (simp add: c_def)
  have wr: "write_at (if dev then num else 0) msg buf = Some c"
    using buf(2) len by (simp add: write_at_def c_def)
  define st' where "st' = (bufs[ri := c], nums[ri := w, si := 0])"
  have run: "exchange_single null sz dev infos d dir si ri W r = Some st'"
    unfolding exchange_single_def Let_def st bind.simps m send_particle_single_def prod.case
      sendrecv_eq[OF ok fit zones(1,2)] b(2)
    using len(1) wr[unfolded buf(1) num] by (cases dev) (simp_all add: st'_def w_def)
  have "bufs_ok cap n st'"
    using ok zones l lc w len(2) by (auto simp: bufs_ok_def st'_def nth_list_update)
  moreover from length_filled[OF this zones(2)] have "length (filled st' ri) = num + length msg"
    using l zones w by (simp add: st'_def)
  moreover have "fst st' ! ri = c" using l(1) zones(2) by (simp add: st'_def)
  moreover have "filled st' j = contents_of W r j" if "j \<noteq> ri" "j \<noteq> si" for j
    using that by (simp add: st'_def filled_def contents_of_def st)
  ultimately show ?thesis using run unfolding c_def by blast
qed

text \<open>Both exchanges along z, for a middle buffer that already holds particles.\<close>

lemma z_effect:
  fixes W :: "'p ptc_world" and infos :: "int \<Rightarrow> domain_info"
  assumes fit: "sizes_fit sz cap" and W: "world_ok cap 27 null W" and dom: "\<forall>q. (W q \<noteq> None) = (q \<in> R)"
    and R: "shift_ok null infos R 2 (- 1)" "shift_ok null infos R 2 1" "r \<in> R"
    and room: "\<forall>r \<in> R. length (gather null infos 2 9 (contents_of W) r 13) \<le> cap"
  defines "old \<equiv> contents_of W r 13" and "buf \<equiv> fst (the (W r)) ! 13"
    and "m1 \<equiv> from_rank null (neighbor_right (infos r) ! 2) (contents_of W) 4"
    and "m2 \<equiv> from_rank null (neighbor_left (infos r) ! 2) (contents_of W) 22"
  shows "\<exists>st'. exchange_single null sz dev infos 2 1 22 13 (exchange_single null sz dev infos 2 (- 1) 4 13 W) r = Some st'
    \<and> take (length old) buf = old
    \<and> filled st' 13 = (if dev then old @ m1 @ m2
       else take (length old + length m1 + length m2) (m2 @ drop (length m2) (m1 @ drop (length m1) buf)))"
proof -
  let ?W = "exchange_single null sz dev infos 2 (- 1) 4 13 W"
  let ?m1 = "\<lambda>q. from_rank null (neighbor_right (infos q) ! 2) (contents_of W) 4"
  have room1: "length (contents_of W q 13) + length (from_rank null (origin_rank (infos q) 2 (- 1)) (contents_of W) 4) \<le> cap"
    if "q \<in> R" for q using room that by (fastforce simp: gather_def origin_rank_def)
  note a = single_step[OF fit W dom R(1) _ _ _ _ room1, of _ dev, simplified origin_rank_def, simplified]
  have one: "\<exists>st. ?W q = Some st \<and> bufs_ok cap 27 st \<and> length (filled st 13) = length (contents_of W q 13) + length (?m1 q)
      \<and> filled st 22 = contents_of W q 22" if "q \<in> R" for q
    using a[OF that that] by fastforce
  have none: "?W q = None" if "q \<notin> R" for q
  proof -
    have "W q = None" using dom that by blast
    then show ?thesis by (simp add: exchange_single_def Let_def)
  qed
  have dom1: "\<forall>q. (?W q \<noteq> None) = (q \<in> R)" using one none by (metis option.distinct(1))
  have W1: "world_ok cap 27 null ?W"
    unfolding world_ok_def
  proof (intro conjI allI impI)
    show "?W null = None" by (rule none) (use R(1) in \<open>simp add: shift_ok_def\<close>)
    fix q st assume q: "?W q = Some st"
    then have "q \<in> R" using none by (metis option.distinct(1))
    then show "bufs_ok cap 27 st" using one q by fastforce
  qed
  have from_left: "from_rank null (neighbor_left (infos q) ! 2) (contents_of ?W) 22
      = from_rank null (neighbor_left (infos q) ! 2) (contents_of W) 22" if "q \<in> R" for q
  proof (rule from_rank_cong)
    assume "neighbor_left (infos q) ! 2 \<noteq> null"
    then have "neighbor_left (infos q) ! 2 \<in> R" using R(2) that by (auto simp: shift_ok_def origin_rank_def)
    then show "contents_of ?W (neighbor_left (infos q) ! 2) 22 = contents_of W (neighbor_left (infos q) ! 2) 22"
      using one by (fastforce simp: contents_of_def[of ?W])
  qed
  obtain st1 where st1: "?W r = Some st1" "bufs_ok cap 27 st1" "length (filled st1 13) = length old + length m1"
    "fst st1 ! 13 = (if dev then take (length old) buf @ m1 @ drop (length old + length m1) buf else m1 @ drop (length m1) buf)"
    using a[OF R(3) R(3)] by (auto simp: old_def m1_def buf_def)
  have len1: "length (contents_of ?W r 13) = length old + length m1" using st1(1,3) by (simp add: contents_of_def)
  have room2: "length (contents_of ?W r 13) + length (from_rank null (origin_rank (infos r) 2 1) (contents_of ?W) 22) \<le> cap"
    using room R(3) len1 from_left[OF R(3)]
    by (fastforce simp: gather_def origin_rank_def old_def m1_def)
  have m2: "from_rank null (origin_rank (infos r) 2 1) (contents_of ?W) 22 = m2"
    using from_left[OF R(3)] by (simp add: origin_rank_def m2_def)
  have z: "22 < (27 :: nat)" "13 < (27 :: nat)" "22 \<noteq> (13 :: nat)" by simp_all
  note b = single_step[OF fit W1 dom1 R(2,3) z room2, of dev, unfolded m2 len1 st1(1) option.sel]
  obtain st' where st': "exchange_single null sz dev infos 2 1 22 13 ?W r = Some st'" "bufs_ok cap 27 st'"
    "fst st' ! 13 = (if dev then take (length old + length m1) (fst st1 ! 13) @ m2 @ drop (length old + length m1 + length m2) (fst st1 ! 13)
        else m2 @ drop (length m2) (fst st1 ! 13))"
    "length (filled st' 13) = length old + length m1 + length m2" using b by blast
  obtain st where st: "W r = Some st" using dom R(3) by blast
  have ok: "bufs_ok cap 27 st" using W st unfolding world_ok_def by blast
  have tk: "take (length old) buf = old" "length buf = cap"
    using length_filled[OF ok, of 13] ok by (auto simp: old_def buf_def contents_of_def st filled_def bufs_ok_def)
  have "filled st' 13 = take (length old + length m1 + length m2) (fst st' ! 13)"
    using length_filled[OF st'(2), of 13] st'(4) by (simp add: filled_def)
  then have "filled st' 13 = (if dev then old @ m1 @ m2
       else take (length old + length m1 + length m2) (m2 @ drop (length m2) (m1 @ drop (length m1) buf)))"
    unfolding st'(3) st1(4) using tk by simp
  then show ?thesis using st'(1) tk(1) by blast
qed

subsection \<open>Properties\<close>

text \<open>The neighbours of all directions, and room for what the middle zones gather.\<close>

definition cart_ok :: "int \<Rightarrow> nat \<Rightarrow> (int \<Rightarrow> domain_info) \<Rightarrow> int set \<Rightarrow> bool" where
  "cart_ok null dm infos R = (\<forall>d < dm. shift_ok null infos R d (- 1) \<and> shift_ok null infos R d 1)"

definition exchange_room :: "nat \<Rightarrow> int \<Rightarrow> nat \<Rightarrow> (int \<Rightarrow> domain_info) \<Rightarrow> int set \<Rightarrow> (int \<Rightarrow> nat \<Rightarrow> 'p list) \<Rightarrow> bool" where
  "exchange_room cap null dm infos R F =
     (let X = gather null infos 0 1 F; Y = gather null infos 1 3 X; Z = gather null infos 2 9 Y
      in \<forall>r \<in> R. (\<forall>j \<in> snd ` set (x_pairs dm 1). length (X r j) \<le> cap)
           \<and> (2 \<le> dm \<longrightarrow> (\<forall>j \<in> snd ` set (y_pairs dm 1). length (Y r j) \<le> cap))
           \<and> (dm = 3 \<longrightarrow> length (Z r 13) \<le> cap))"

text \<open>With room every process gets through the exchanges along x and y.\<close>

lemma x_phase_total:
  assumes fit: "sizes_fit sz cap" and W: "world_ok cap (3 ^ dm) null W" and dm: "dm = 1 \<or> dm = 2 \<or> dm = 3"
    and cart: "cart_ok null dm infos R" and dom: "\<forall>r \<in> R. W r \<noteq> None"
    and room: "exchange_room cap null dm infos R (contents_of W)"
  shows "\<forall>r \<in> R. x_phase null sz infos dm W r \<noteq> None"
proof -
  have ok: "axis_pairs_ok (3 ^ dm) (x_pairs dm (- 1)) (x_pairs dm 1)" using dm axis_pairs by auto
  have R: "shift_ok null infos R 0 (- 1)" "shift_ok null infos R 0 1" using cart dm by (auto simp: cart_ok_def)
  have rm: "\<forall>r \<in> R. \<forall>j \<in> snd ` set (x_pairs dm 1). length (gather null infos 0 1 (contents_of W) r j) \<le> cap"
    using room unfolding exchange_room_def Let_def by blast
  show ?thesis unfolding x_phase_def by (rule axis_total[OF fit W ok pairs_shape(1-3) R dom rm])
qed

lemma y_gather_cong:
  assumes fit: "sizes_fit sz cap" and W: "world_ok cap (3 ^ dm) null W" and dm: "dm = 2 \<or> dm = 3"
    and cart: "cart_ok null dm infos R" and X: "\<forall>r \<in> R. x_phase null sz infos dm W r \<noteq> None"
    and r: "r \<in> R" and i: "i < (if dm = 2 then 1 else 3)"
  shows "gather null infos 1 3 (contents_of (x_phase null sz infos dm W)) r (1 + 3 + i * 9)
    = gather null infos 1 3 (gather null infos 0 1 (contents_of W)) r (1 + 3 + i * 9)"
proof -
  have d: "dm = 1 \<or> dm = 2 \<or> dm = 3" using dm by simp
  note x = x_phase_gather[OF fit W d, of infos]
  have g: "contents_of (x_phase null sz infos dm W) q z = gather null infos 0 1 (contents_of W) q z"
    if "q \<in> R" "z = j * 3 + 1" "j < (if dm = 2 then 3 else 9)" for q z j
    using x(3)[of q j] X that dm by auto
  have left: "neighbor_left (infos r) ! 1 \<in> R" if "neighbor_left (infos r) ! 1 \<noteq> null"
    using cart dm r that by (auto simp: cart_ok_def shift_ok_def origin_rank_def)
  have right: "neighbor_right (infos r) ! 1 \<in> R" if "neighbor_right (infos r) ! 1 \<noteq> null"
    using cart dm r that by (auto simp: cart_ok_def shift_ok_def origin_rank_def)
  have b: "1 + 3 * i < (if dm = 2 then 3 else 9)" "3 * i < (if dm = 2 then 3 else 9)" "2 + 3 * i < (if dm = 2 then 3 else 9)"
    using i by (auto split: if_splits)
  have "contents_of (x_phase null sz infos dm W) r (1 + 3 + i * 9) = gather null infos 0 1 (contents_of W) r (1 + 3 + i * 9)"
    by (rule g[OF r _ b(1)]) simp
  moreover have "from_rank null (neighbor_right (infos r) ! 1) (contents_of (x_phase null sz infos dm W)) (1 + 3 + i * 9 - 3)
      = from_rank null (neighbor_right (infos r) ! 1) (gather null infos 0 1 (contents_of W)) (1 + 3 + i * 9 - 3)"
    by (rule from_rank_cong, rule g[OF right _ b(2)]) simp_all
  moreover have "from_rank null (neighbor_left (infos r) ! 1) (contents_of (x_phase null sz infos dm W)) (1 + 3 + i * 9 + 3)
      = from_rank null (neighbor_left (infos r) ! 1) (gather null infos 0 1 (contents_of W)) (1 + 3 + i * 9 + 3)"
    by (rule from_rank_cong, rule g[OF left _ b(3)]) simp_all
  ultimately show ?thesis unfolding gather_def[of null infos 1] by (simp only:)
qed

lemma y_phase_total:
  assumes fit: "sizes_fit sz cap" and W: "world_ok cap (3 ^ dm) null W" and dm: "dm = 2 \<or> dm = 3"
    and cart: "cart_ok null dm infos R" and dom: "\<forall>r \<in> R. W r \<noteq> None"
    and room: "exchange_room cap null dm infos R (contents_of W)"
  shows "\<forall>r \<in> R. y_phase null sz infos dm (x_phase null sz infos dm W) r \<noteq> None"
proof -
  have d: "dm = 1 \<or> dm = 2 \<or> dm = 3" using dm by simp
  note X = x_phase_total[OF fit W d cart dom room]
  have ok: "axis_pairs_ok (3 ^ dm) (y_pairs dm (- 1)) (y_pairs dm 1)" using dm axis_pairs by auto
  have R: "shift_ok null infos R 1 (- 1)" "shift_ok null infos R 1 1" using cart dm by (auto simp: cart_ok_def)
  have dm2: "2 \<le> dm" using dm by auto
  have zones: "\<exists>i < (if dm = 2 then 1 else 3). j = 1 + 3 + i * 9" if "j \<in> snd ` set (y_pairs dm 1)" for j
    using that dm by (auto simp: y_pairs_def)
  have "\<forall>r \<in> R. \<forall>j \<in> snd ` set (y_pairs dm 1).
      length (gather null infos 1 3 (contents_of (x_phase null sz infos dm W)) r j) \<le> cap"
  proof (intro ballI)
    fix r j assume h: "r \<in> R" "j \<in> snd ` set (y_pairs dm 1)"
    obtain i where i: "i < (if dm = 2 then 1 else 3)" "j = 1 + 3 + i * 9" using zones[OF h(2)] by blast
    show "length (gather null infos 1 3 (contents_of (x_phase null sz infos dm W)) r j) \<le> cap"
      unfolding i(2) y_gather_cong[OF fit W dm cart X h(1) i(1)]
      using room h dm2 unfolding exchange_room_def Let_def i(2) by blast
  qed
  from axis_total[OF fit x_phase_gather(1)[OF fit W d] ok pairs_shape(4-6) R X this]
  show ?thesis unfolding y_phase_def .
qed

text \<open>
  C9.  Let \<open>m_cart\<close> number the processes \<open>R\<close> as \<open>m_world\<close> does, the neighbours be those of a
  Cartesian topology, all zone buffers have the capacity \<open>cap\<close>, less than \<open>2\<^sup>3\<^sup>1\<close> bytes, and let
  no middle zone gather more than that.  Then the exchange of particles returns on every
  process, and the middle buffer holds its own particles and those its neighbours packed for
  it, the diagonal ones through the neighbours they share, each once: \<open>gather\<close> along x, then
  y, then z.  The exception is the z exchange of a build that sends from host memory: each
  message is written over the start of the middle buffer, on the particles collected before,
  while the count still adds up.
\<close>

theorem particles_arrive:
  assumes "dm = 1 \<or> dm = 2 \<or> dm = 3" "sizes_fit sz cap" "\<forall>q. (W q \<noteq> None) = (q \<in> R)"
    "\<forall>q st. W q = Some st \<longrightarrow> bufs_ok cap (3 ^ dm) st" "cart_ok null dm infos R"
    "exchange_room cap null dm infos R (contents_of W)" "r \<in> R"
  shows "\<exists>st'. exchange_particles null sz dev id id infos dm W r = Some st'
    \<and> (dm = 1 \<longrightarrow> filled st' 1 = gather null infos 0 1 (contents_of W) r 1)
    \<and> (dm = 2 \<longrightarrow> filled st' 4 = gather null infos 1 3 (gather null infos 0 1 (contents_of W)) r 4)
    \<and> (dm = 3 \<longrightarrow> (let C = gather null infos 1 3 (gather null infos 0 1 (contents_of W));
          m1 = from_rank null (neighbor_right (infos r) ! 2) C 4;
          m2 = from_rank null (neighbor_left (infos r) ! 2) C 22
        in if dev then filled st' 13 = gather null infos 2 9 C r 13
           else \<exists>buf. take (length (C r 13)) buf = C r 13 \<and>
             filled st' 13 = take (length (C r 13) + length m1 + length m2)
               (m2 @ drop (length m2) (m1 @ drop (length m1) buf))))"
proof -
  let ?X = "x_phase null sz infos dm W" and ?Y = "y_phase null sz infos dm (x_phase null sz infos dm W)"
  have "0 < dm" using assms(1) by auto
  then have "shift_ok null infos R 0 1" using assms(5) unfolding cart_ok_def by blast
  then have "null \<notin> R" by (simp add: shift_ok_def)
  then have W: "world_ok cap (3 ^ dm) null W" using assms(3,4) unfolding world_ok_def by blast
  have dom: "\<forall>r \<in> R. W r \<noteq> None" using assms(3) by blast
  note X = x_phase_total[OF assms(2) W assms(1,5) dom assms(6)]
  note x = x_phase_gather[OF assms(2) W assms(1), of infos]
  consider "dm = 1" | "dm = 2" | "dm = 3" using assms(1) by blast
  then show ?thesis
  proof cases
    case 1
    obtain st' where st': "?X r = Some st'" using X assms(7) by blast
    then have "exchange_particles null sz dev id id infos dm W r = Some st'"
      by (simp add: 1 exchange_particles_def x_phase_def Let_def)
    moreover have "filled st' 1 = gather null infos 0 1 (contents_of W) r 1"
    proof -
      have "filled st' 1 = contents_of ?X r (0 * 3 + 1)" using st' by (simp add: contents_of_def)
      also have "\<dots> = gather null infos 0 1 (contents_of W) r (0 * 3 + 1)"
        by (rule x(3)) (use st' 1 in simp_all)
      finally show ?thesis by simp
    qed
    ultimately show ?thesis using 1 by simp
  next
    case 2
    then have d: "dm = 2 \<or> dm = 3" by simp
    obtain st' where st': "?Y r = Some st'" using y_phase_total[OF assms(2) W d assms(5) dom assms(6)] assms(7) by blast
    then have "exchange_particles null sz dev id id infos dm W r = Some st'"
      by (simp add: 2 exchange_particles_def x_phase_def y_phase_def Let_def)
    moreover have "filled st' 4 = gather null infos 1 3 (gather null infos 0 1 (contents_of W)) r 4"
    proof -
      have "filled st' 4 = contents_of ?Y r (4 + 0 * 9)" using st' by (simp add: contents_of_def)
      also have "\<dots> = gather null infos 1 3 (gather null infos 0 1 (contents_of W)) r (4 + 0 * 9)"
        by (rule xy_gather[OF assms(2) W d]) (use st' 2 in simp_all)
      finally show ?thesis by simp
    qed
    ultimately show ?thesis using 2 by simp
  next
    case 3
    then have d: "dm = 2 \<or> dm = 3" by simp
    let ?C = "gather null infos 1 3 (gather null infos 0 1 (contents_of W))"
    have Y: "\<forall>q \<in> R. ?Y q \<noteq> None" by (rule y_phase_total[OF assms(2) W d assms(5) dom assms(6)])
    note y = y_phase_gather[OF assms(2) x(1) d, of infos]
    have domY: "\<forall>q. (?Y q \<noteq> None) = (q \<in> R)" using Y y(2) x(2) assms(3) by blast
    have okY: "world_ok cap 27 null ?Y" using y(1) 3 by simp
    have R: "shift_ok null infos R 2 (- 1)" "shift_ok null infos R 2 1" using assms(5) 3 by (simp_all add: cart_ok_def)
    have C: "contents_of ?Y q (4 + i * 9) = ?C q (4 + i * 9)" if "q \<in> R" "i < 3" for q i
      using xy_gather[OF assms(2) W d, of infos q i] Y that 3 by simp
    have C': "contents_of ?Y q 4 = ?C q 4" "contents_of ?Y q 13 = ?C q 13" "contents_of ?Y q 22 = ?C q 22" if "q \<in> R" for q
      using C[OF that, of 0] C[OF that, of 1] C[OF that, of 2] by simp_all
    have in_R: "neighbor_right (infos q) ! 2 \<noteq> null \<Longrightarrow> neighbor_right (infos q) ! 2 \<in> R"
      "neighbor_left (infos q) ! 2 \<noteq> null \<Longrightarrow> neighbor_left (infos q) ! 2 \<in> R" if "q \<in> R" for q
      using R that by (auto simp: shift_ok_def origin_rank_def)
    have m: "from_rank null (neighbor_right (infos q) ! 2) (contents_of ?Y) 4 = from_rank null (neighbor_right (infos q) ! 2) ?C 4"
      "from_rank null (neighbor_left (infos q) ! 2) (contents_of ?Y) 22 = from_rank null (neighbor_left (infos q) ! 2) ?C 22"
      if "q \<in> R" for q
      using C' in_R[OF that] by (auto intro!: from_rank_cong)
    have g: "gather null infos 2 9 (contents_of ?Y) q 13 = gather null infos 2 9 ?C q 13" if "q \<in> R" for q
      unfolding gather_def[of null infos 2] using C'(2)[OF that] m[OF that] by simp
    have room: "\<forall>q \<in> R. length (gather null infos 2 9 (contents_of ?Y) q 13) \<le> cap"
      using assms(6) 3 g unfolding exchange_room_def Let_def by simp
    obtain st' where z: "exchange_single null sz dev infos 2 1 22 13 (exchange_single null sz dev infos 2 (- 1) 4 13 ?Y) r = Some st'"
      "take (length (contents_of ?Y r 13)) (fst (the (?Y r)) ! 13) = contents_of ?Y r 13"
      "filled st' 13 = (if dev then contents_of ?Y r 13 @ from_rank null (neighbor_right (infos r) ! 2) (contents_of ?Y) 4
            @ from_rank null (neighbor_left (infos r) ! 2) (contents_of ?Y) 22
         else take (length (contents_of ?Y r 13) + length (from_rank null (neighbor_right (infos r) ! 2) (contents_of ?Y) 4)
             + length (from_rank null (neighbor_left (infos r) ! 2) (contents_of ?Y) 22))
           (from_rank null (neighbor_left (infos r) ! 2) (contents_of ?Y) 22
            @ drop (length (from_rank null (neighbor_left (infos r) ! 2) (contents_of ?Y) 22))
             (from_rank null (neighbor_right (infos r) ! 2) (contents_of ?Y) 4
              @ drop (length (from_rank null (neighbor_right (infos r) ! 2) (contents_of ?Y) 4)) (fst (the (?Y r)) ! 13))))"
      using z_effect[OF assms(2) okY domY R assms(7) room, of dev] by blast
    have "exchange_particles null sz dev id id infos dm W r = Some st'"
      using z(1) by (simp add: 3 exchange_particles_def x_phase_def y_phase_def Let_def)
    moreover have "let C = ?C; m1 = from_rank null (neighbor_right (infos r) ! 2) C 4; m2 = from_rank null (neighbor_left (infos r) ! 2) C 22
        in if dev then filled st' 13 = gather null infos 2 9 C r 13
           else \<exists>buf. take (length (C r 13)) buf = C r 13 \<and>
             filled st' 13 = take (length (C r 13) + length m1 + length m2) (m2 @ drop (length m2) (m1 @ drop (length m1) buf))"
      using z(2,3) unfolding Let_def m[OF assms(7)] C'(2)[OF assms(7)] by (auto simp: gather_def[of null infos 2 9])
    ultimately show ?thesis using 3 by simp
  qed
qed

definition example_line :: "int \<Rightarrow> domain_info" where
  "example_line r = \<lparr>mpi_dims = [2], mpi_coord = [word_of_int r], is_boundary = [False, False], is_periodic = [True],
     neighbor_left = [1 - r], neighbor_right = [1 - r]\<rparr>"

definition example_line_zones :: "nat ptc_world" where
  "example_line_zones r = (if r = 0 then Some ([[0, 0], [0, 0], [3, 0]], [0, 0, 1])
     else if r = 1 then Some ([[5, 0], [0, 0], [0, 0]], [1, 0, 0]) else None)"

lemma example_line_ranks:
  "origin_rank (example_line r) 0 dir = 1 - r" "dest_rank (example_line r) 0 dir = 1 - r"
  "neighbor_left (example_line r) ! 0 = 1 - r" "neighbor_right (example_line r) ! 0 = 1 - r"
  by (simp_all add: origin_rank_def dest_rank_def example_line_def)

theorem particles_arrive_witness:
  "\<exists>st'. exchange_particles (- 2) 64 False id id example_line 1 example_line_zones 0 = Some st' \<and> filled st' 1 = [5]"
proof -
  let ?F = "contents_of example_line_zones"
  have F: "?F 0 0 = []" "?F 0 1 = []" "?F 0 2 = [3]" "?F 1 0 = [5]" "?F 1 1 = []" "?F 1 2 = []"
    by (simp_all add: contents_of_def filled_def example_line_zones_def)
  have g: "gather (- 2) example_line 0 1 ?F 0 1 = [5]" "gather (- 2) example_line 0 1 ?F 1 1 = [3]"
    using F by (simp_all add: gather_def from_rank_def example_line_ranks numeral_2_eq_2)
  have "\<exists>st'. exchange_particles (- 2) 64 False id id example_line 1 example_line_zones 0 = Some st'
    \<and> (1 = (1 :: nat) \<longrightarrow> filled st' 1 = gather (- 2) example_line 0 1 ?F 0 1)"
  proof -
    have "sizes_fit 64 2" by (simp add: sizes_fit_def)
    moreover have "\<forall>q. (example_line_zones q \<noteq> None) = (q \<in> {0, 1})" by (simp add: example_line_zones_def)
    moreover have "\<forall>q st. example_line_zones q = Some st \<longrightarrow> bufs_ok 2 (3 ^ 1) st"
      by (auto simp: example_line_zones_def bufs_ok_def less_Suc_eq numeral_3_eq_3 split: if_splits)
    moreover have "cart_ok (- 2) 1 example_line {0, 1}"
      by (simp add: cart_ok_def shift_ok_def example_line_ranks)
    moreover have "exchange_room 2 (- 2) 1 example_line {0, 1} ?F"
      using g by (simp add: exchange_room_def x_pairs_def Let_def)
    ultimately show ?thesis
      using particles_arrive[of 1 64 2 example_line_zones "{0, 1}" "- 2" example_line 0 False] by auto
  qed
  then show ?thesis unfolding g by simp
qed

text \<open>
  One rank, periodic along z: particle 7 is in the middle buffer, particle 9 left through
  z.  Sent from host memory, particle 9 takes the place of particle 7, and an entry of the
  buffer that is no particle is counted.
\<close>

definition example_torus :: "int \<Rightarrow> domain_info" where
  "example_torus r = \<lparr>mpi_dims = [1, 1, 1], mpi_coord = [0, 0, 0], is_boundary = replicate 6 False,
     is_periodic = [True, True, True], neighbor_left = [0, 0, 0], neighbor_right = [0, 0, 0]\<rparr>"

definition example_zones :: "int \<Rightarrow> nat ptc_world" where
  "example_zones n r = (if 0 \<le> r \<and> r < n
     then Some ((replicate 27 [0, 0])[13 := [7, 0], 4 := [9, 0]], (replicate 27 0)[13 := 1, 4 := 1]) else None)"

lemma example_zones_ok:
  "sizes_fit 64 2" "world_ok 2 27 (- 2) (example_zones n)"
  "\<forall>q. (example_zones n q \<noteq> None) = (q \<in> {0..<n})"
  by (auto simp: sizes_fit_def world_ok_def bufs_ok_def example_zones_def nth_list_update split: if_splits)

lemma example_zones_contents:
  assumes "r \<in> {0..<n}"
  shows "contents_of (example_zones n) r 4 = [9]" "contents_of (example_zones n) r 13 = [7]"
    "fst (the (example_zones n r)) ! 13 = [7, 0]"
  using assms by (simp_all add: contents_of_def filled_def example_zones_def nth_list_update)

lemma z_message_overwrites:
  "\<exists>st. exchange_single (- 2) 64 dev example_torus 2 (- 1) 4 13 (example_zones 1) 0 = Some st
     \<and> filled st 13 = (if dev then [7, 9] else [9, 0])"
proof -
  have R: "shift_ok (- 2) example_torus {0..<1} 2 (- 1)"
    by (simp add: shift_ok_def origin_rank_def dest_rank_def example_torus_def)
  have "origin_rank (example_torus 0) 2 (- 1) = 0" by (simp add: origin_rank_def example_torus_def)
  then have f: "from_rank (- 2) (origin_rank (example_torus 0) 2 (- 1)) (contents_of (example_zones 1)) 4 = [9]"
    by (simp add: from_rank_def example_zones_contents)
  have z: "4 < (27 :: nat)" "13 < (27 :: nat)" "4 \<noteq> (13 :: nat)" "(0 :: int) \<in> {0..<1}" by simp_all
  have room: "length (contents_of (example_zones 1) 0 13)
      + length (from_rank (- 2) (origin_rank (example_torus 0) 2 (- 1)) (contents_of (example_zones 1)) 4) \<le> 2"
    unfolding f by (simp add: example_zones_contents)
  obtain st where st: "exchange_single (- 2) 64 dev example_torus 2 (- 1) 4 13 (example_zones 1) 0 = Some st"
    "bufs_ok 2 27 st" "fst st ! 13 = (if dev then [7, 9] else [9, 0])" "length (filled st 13) = 2"
    using single_step[OF example_zones_ok R z(4,1-3) room, of dev] unfolding f
    by (auto simp: example_zones_contents)
  have "filled st 13 = take 2 (fst st ! 13)"
    using length_filled[OF st(2) z(2)] st(4) by (simp add: filled_def)
  then show ?thesis using st(1,3) by simp
qed

text \<open>
  A renumbered \<open>m_cart\<close>: four processes in a periodic line along z, of which process 1 has
  rank 2 and process 2 rank 1, as \<open>reorder\<close> allows.  The neighbours are ranks of \<open>m_cart\<close>, but
  the z exchange takes them for ranks of \<open>m_world\<close>: process 0 asks process 1 for its
  particles, and that one sends them to process 3.
\<close>

definition example_cart :: "int \<Rightarrow> int" where
  "example_cart r = (if r = 1 then 2 else if r = 2 then 1 else r)"

definition example_chain :: "int \<Rightarrow> domain_info" where
  "example_chain c = \<lparr>mpi_dims = [1, 1, 4], mpi_coord = [0, 0, word_of_int c], is_boundary = replicate 6 False,
      is_periodic = [True, True, True], neighbor_left = [c, c, (c + 3) mod 4], neighbor_right = [c, c, (c + 1) mod 4]\<rparr>"

lemma z_message_renumbered:
  "exchange_single (- 2) 64 dev (\<lambda>r. example_chain (example_cart r)) 2 (- 1) 4 13 (example_zones 4) 0 = None"
  "exchange_single (- 2) 64 dev example_chain 2 (- 1) 4 13 (example_zones 4) 0 \<noteq> None"
proof -
  have m: "message (- 2) 64 0 1 1 False p 4 = None" for p :: "nat zone_bufs option" by (simp add: message_def)
  have "origin_rank (example_chain (example_cart 0)) 2 (- 1) = 1" "dest_rank (example_chain (example_cart 1)) 2 (- 1) = 1"
    by (simp_all add: origin_rank_def dest_rank_def example_chain_def example_cart_def)
  then show "exchange_single (- 2) 64 dev (\<lambda>r. example_chain (example_cart r)) 2 (- 1) 4 13 (example_zones 4) 0 = None"
    unfolding exchange_single_def Let_def by (simp add: m send_particle_single_def sendrecv_def Let_def split: bind_splits)
  have R: "shift_ok (- 2) example_chain {0..<4} 2 (- 1)"
    by (auto simp: shift_ok_def origin_rank_def dest_rank_def example_chain_def) presburger+
  have o: "origin_rank (example_chain 0) 2 (- 1) = 1" by (simp add: origin_rank_def example_chain_def)
  have z: "4 < (27 :: nat)" "13 < (27 :: nat)" "4 \<noteq> (13 :: nat)" "(0 :: int) \<in> {0..<4}" by simp_all
  have room: "length (contents_of (example_zones 4) 0 13)
      + length (from_rank (- 2) (origin_rank (example_chain 0) 2 (- 1)) (contents_of (example_zones 4)) 4) \<le> 2"
    unfolding o by (simp add: from_rank_def example_zones_contents)
  show "exchange_single (- 2) 64 dev example_chain 2 (- 1) 4 13 (example_zones 4) 0 \<noteq> None"
    using single_step[OF example_zones_ok R z(4,1-3) room, of dev] by auto
qed

end
