(* ===== verification/ParamTypes.thy ===== *)
theory ParamTypes
  imports Params
begin

text \<open>
  The types of the parameters.  A signature gives the alternative every name should have; a
  sequence of uses of the store that respects it leaves a store that respects it, and no
  lookup on the way finds a value of another type.  The calls of the program are those of
  the model of the parameter store.
\<close>

subsection \<open>Signatures\<close>

type_synonym signature = "string \<rightharpoonup> nat"

definition has_type :: "signature \<Rightarrow> string \<Rightarrow> param_type \<Rightarrow> bool" where
  "has_type S name v = (S name = Some (param_index v))"

definition store_typed :: "signature \<Rightarrow> params \<Rightarrow> bool" where
  "store_typed S m = (\<forall>name v. map_of m name = Some v \<longrightarrow> has_type S name v)"

definition entries_typed :: "signature \<Rightarrow> params \<Rightarrow> bool" where
  "entries_typed S es = list_all (\<lambda>(name, v). has_type S name v) es"

definition struct_typed :: "signature \<Rightarrow> (string \<times> param_field) list \<Rightarrow> bool" where
  "struct_typed S fs = list_all (\<lambda>(name, x). has_type S name (field_default x)) fs"

text \<open>The overload of \<open>visit_param\<close> a member selects.\<close>

fun field_kind :: "param_field \<Rightarrow> nat" where
  "field_kind (F_float _) = 0" | "field_kind (F_double _) = 1" | "field_kind (F_bool _) = 2"
| "field_kind (F_int _) = 3" | "field_kind (F_long _) = 4" | "field_kind (F_uint32 _) = 5"
| "field_kind (F_uint64 _) = 6" | "field_kind (F_string _) = 7" | "field_kind (F_floats _) = 8"
| "field_kind (F_doubles _) = 9" | "field_kind (F_ints _) = 10" | "field_kind (F_uint32s _) = 11"
| "field_kind (F_uint64s _) = 12" | "field_kind (F_bools _) = 13" | "field_kind (F_strings _) = 14"
| "field_kind (F_vec_int _) = 15" | "field_kind (F_vec_uint32 _) = 16" | "field_kind (F_vec_float _) = 17"
| "field_kind (F_vec_double _) = 18"

subsection \<open>Uses of the store\<close>

datatype store_op =
    Op_add string param_type
  | Op_read "(string \<times> toml) list"
  | Op_get string param_type
  | Op_parse "(string \<times> param_field) list"

text \<open>What the lookups of a call report, and the store they leave.\<close>

fun parse_reports :: "(string \<times> param_field) list \<Rightarrow> params \<Rightarrow> get_report list" where
  "parse_reports [] m = []"
| "parse_reports ((name, x) # fs) m =
     (let (v, report, m) = params_get name (field_default x) m in report # parse_reports fs m)"

fun op_step :: "store_op \<Rightarrow> params \<Rightarrow> params \<times> get_report list" where
  "op_step (Op_add name v) m = (params_add name v m, [])"
| "op_step (Op_read t) m = (read_table t m, [])"
| "op_step (Op_get name d) m = (let (v, report, m) = params_get name d m in (m, [report]))"
| "op_step (Op_parse fs) m = (snd (parse_struct fs m), parse_reports fs m)"

fun run_ops :: "store_op list \<Rightarrow> params \<Rightarrow> params \<times> get_report list" where
  "run_ops [] m = (m, [])"
| "run_ops (a # as) m = (let (m, rs) = op_step a m; (m, ss) = run_ops as m in (m, rs @ ss))"

primrec op_typed :: "signature \<Rightarrow> store_op \<Rightarrow> bool" where
  "op_typed S (Op_add name v) = has_type S name v"
| "op_typed S (Op_read t) = entries_typed S (table_entries t)"
| "op_typed S (Op_get name d) = has_type S name d"
| "op_typed S (Op_parse fs) = struct_typed S fs"

subsection \<open>Preservation\<close>

lemma store_typedD: "store_typed S m \<Longrightarrow> map_of m name = Some v \<Longrightarrow> has_type S name v"
  by (simp add: store_typed_def)

lemma store_typed_insert: "store_typed S m \<Longrightarrow> has_type S name v \<Longrightarrow> store_typed S (params_insert name v m)"
  by (auto simp: store_typed_def map_of_params_insert split: option.splits if_splits)

lemma store_typed_add: "store_typed S m \<Longrightarrow> has_type S name v \<Longrightarrow> store_typed S (params_add name v m)"
  by (auto simp: store_typed_def map_of_params_add)

lemma store_typed_insert_all:
  "store_typed S m \<Longrightarrow> entries_typed S es \<Longrightarrow> store_typed S (insert_all es m)"
  by (auto simp: store_typed_def entries_typed_def map_of_insert_all map_add_def list_all_iff
      dest: map_of_SomeD split: option.splits)

lemma get_typed:
  assumes "store_typed S m" "has_type S name d"
  shows "\<exists>v r m'. params_get name d m = (v, r, m') \<and> same_alternative v d \<and> r \<noteq> Wrong_type \<and> store_typed S m'"
  using assms store_typedD[OF assms(1)]
  by (cases "map_of m name")
    (auto simp: params_get_def store_typed_insert same_alternative_def has_type_def)

lemma parse_typed:
  "store_typed S m \<Longrightarrow> struct_typed S fs \<Longrightarrow>
    store_typed S (snd (parse_struct fs m)) \<and> Wrong_type \<notin> set (parse_reports fs m)"
proof (induction fs m rule: parse_struct.induct)
  case (2 name x fs m)
  obtain v r m' where g: "params_get name (field_default x) m = (v, r, m')" "r \<noteq> Wrong_type" "store_typed S m'"
    using get_typed[of S m name "field_default x"] 2(2,3) by (auto simp: struct_typed_def)
  show ?case
    using 2(1)[of "(field_assign x v, m')" _ m'] 2(3) g
    by (simp add: visit_param_def struct_typed_def case_prod_beta)
qed simp

lemma field_kind_assign [simp]: "field_kind (field_assign x v) = field_kind x"
  by (cases x) simp_all

lemma parse_kinds:
  "map (\<lambda>(name, x). (name, field_kind x)) (fst (parse_struct fs m)) = map (\<lambda>(name, x). (name, field_kind x)) fs"
  by (induction fs m rule: parse_struct.induct) (simp_all add: visit_param_def case_prod_beta)

lemma op_step_typed:
  assumes "store_typed S m" "op_typed S a" "op_step a m = (m', rs)"
  shows "store_typed S m' \<and> Wrong_type \<notin> set rs"
proof (cases a)
  case (Op_get name d)
  then show ?thesis using get_typed[OF assms(1), of name d] assms(2,3) by auto
next
  case (Op_parse fs)
  then show ?thesis using parse_typed[OF assms(1), of fs] assms(2,3) by simp
qed (use assms in \<open>auto simp: store_typed_add store_typed_insert_all read_insert_all\<close>)

lemma run_ops_typed:
  "store_typed S m \<Longrightarrow> list_all (op_typed S) as \<Longrightarrow> run_ops as m = (m', rs) \<Longrightarrow>
    store_typed S m' \<and> Wrong_type \<notin> set rs"
proof (induction as arbitrary: m m' rs)
  case (Cons a as)
  obtain n qs where a: "op_step a m = (n, qs)" by (cases "op_step a m")
  obtain k ss where r: "run_ops as n = (k, ss)" by (cases "run_ops as n")
  show ?case
    using op_step_typed[OF Cons.prems(1) _ a] Cons.IH[OF _ _ r] Cons.prems(2,3) by (auto simp: a r)
qed simp

subsection \<open>Properties\<close>

text \<open>
  C15.  Type safety of the parameter store.  When every value that is added or read from a
  file, every default of a lookup and every member of a struct has the type its name has in
  a signature, then after any sequence of these calls the store still has it, no lookup has
  found a value of another type, the value any typed lookup returns is of the alternative
  that \<open>std::get\<close> asks for, and a struct keeps the overloads of its members.
\<close>

theorem store_type_safety:
  assumes "store_typed S m" "list_all (op_typed S) as" "run_ops as m = (m', rs)"
  shows "store_typed S m' \<and> Wrong_type \<notin> set rs
    \<and> (\<forall>name d. has_type S name d \<longrightarrow> same_alternative (fst (params_get name d m')) d)
    \<and> (\<forall>fs. map (\<lambda>(name, x). (name, field_kind x)) (fst (parse_struct fs m'))
           = map (\<lambda>(name, x). (name, field_kind x)) fs)"
proof -
  have s: "store_typed S m'" "Wrong_type \<notin> set rs" using run_ops_typed[OF assms] by simp_all
  have "same_alternative (fst (params_get name d m')) d" if "has_type S name d" for name d
    using get_typed[OF s(1) that] by auto
  with s show ?thesis by (simp add: parse_kinds)
qed

text \<open>
  A parameter file with a section, a struct that reads one of its entries and misses the
  other, an update, and a lookup.
\<close>

theorem store_type_safety_witness:
  "snd (run_ops
      [Op_read [(''dt'', T_double (1 / 8)), (''grid'', T_table [(''N'', T_array [T_int 32, T_int 16])])],
       Op_parse [(''N'', F_vec_uint32 [1, 1]), (''dt'', F_float 1), (''seed'', F_uint64 7)],
       Op_add ''seed'' (P_int 9), Op_get ''seed'' (P_int 0)] [])
     = [Found, Found, Not_found, Found]
   \<and> Wrong_type \<notin> set [Found, Found, Not_found, Found]"
proof -
  let ?S = "[''dt'' \<mapsto> 2, ''N'' \<mapsto> 5, ''seed'' \<mapsto> 1] :: signature"
  let ?as = "[Op_read [(''dt'', T_double (1 / 8)), (''grid'', T_table [(''N'', T_array [T_int 32, T_int 16])])],
       Op_parse [(''N'', F_vec_uint32 [1, 1]), (''dt'', F_float 1), (''seed'', F_uint64 7)],
       Op_add ''seed'' (P_int 9), Op_get ''seed'' (P_int 0)]"
  have t: "list_all (op_typed ?S) ?as"
    by (simp add: array_entry_def read_array_def as_defs params_insert_def entries_typed_def struct_typed_def has_type_def)
  have r: "snd (run_ops ?as []) = [Found, Found, Not_found, Found]"
    by (simp add: read_insert_all array_entry_def read_array_def as_defs params_insert_def params_get_def same_alternative_def visit_param_def
        params_add_def)
  have "store_typed ?S []" by (simp add: store_typed_def)
  from store_type_safety[OF this t, of "fst (run_ops ?as [])" "[Found, Found, Not_found, Found]"] r
  show ?thesis by (metis prod.collapse)
qed

end
