(* ===== verification/PtcUpdater.thy ===== *)
theory PtcUpdater
  imports CoordPolicy FieldSolver Rng
begin

text \<open>
  The particle updater: \<open>src/systems/ptc_updater.h\<close> and
  \<open>src/systems/ptc_updater_impl.hpp\<close>, with the Cartesian coordinate policy.  The physics
  policy is the argument \<open>phys\<close>; the empty one
  (\<open>src/systems/policies/ptc_physics_policy_empty.hpp\<close>) is the identity.  The communicator
  is a record of what its operations do to the data of this rank.  \<open>None\<close> is an access
  outside an array or through a null pointer, or a remainder by zero.
\<close>

subsection \<open>State\<close>

type_synonym phys_policy = "Grid \<Rightarrow> ptc_context \<Rightarrow> index_t \<Rightarrow> scalar \<Rightarrow> ptc_context"

definition ptc_physics_policy_empty :: phys_policy where
  "ptc_physics_policy_empty g c pos dt = c"

record updater =
  pu_ptc :: "single_ptc_t particles"
  pu_ph :: "single_ph_t particles option"
  pu_E :: vfield
  pu_B :: vfield
  pu_cur :: currents
  pu_rho_ph :: "field option"
  pu_tmpj :: field
  pu_rng :: rand_state
  pu_ptc_number :: "u32 list"
  pu_num_species :: u32
  pu_data_interval :: u32
  pu_rho_interval :: u32
  pu_sort_interval :: u32
  pu_filter_times :: u32
  pu_charges :: "scalar list"
  pu_masses :: "scalar list"

text \<open>What the \<open>domain_comm\<close> of the updater does on this rank.\<close>

record comm =
  co_info :: domain_info
  co_size :: int
  co_send_vector :: "vfield \<Rightarrow> vfield"
  co_send_add_vector :: "vfield \<Rightarrow> vfield"
  co_send_scalar :: "field \<Rightarrow> field"
  co_send_add_scalar :: "field \<Rightarrow> field"
  co_send_ptc :: "single_ptc_t particles \<Rightarrow> single_ptc_t particles option"
  co_send_ph :: "single_ph_t particles \<Rightarrow> single_ph_t particles option"
  co_gather :: "u32 list \<Rightarrow> u32 list"

subsection \<open>Construction\<close>

definition get_value_uint32 :: "string \<Rightarrow> u32 \<Rightarrow> params \<Rightarrow> u32 \<times> params" where
  "get_value_uint32 name x m = (case visit_param name (F_uint32 x) m of (F_uint32 y, m) \<Rightarrow> (y, m) | (_, m) \<Rightarrow> (x, m))"

definition get_value_uint64 :: "string \<Rightarrow> u64 \<Rightarrow> params \<Rightarrow> u64 \<times> params" where
  "get_value_uint64 name x m = (case visit_param name (F_uint64 x) m of (F_uint64 y, m) \<Rightarrow> (y, m) | (_, m) \<Rightarrow> (x, m))"

definition get_value_float :: "string \<Rightarrow> real \<Rightarrow> params \<Rightarrow> real \<times> params" where
  "get_value_float name x m = (case visit_param name (F_float x) m of (F_float y, m) \<Rightarrow> (y, m) | (_, m) \<Rightarrow> (x, m))"

definition init_charge_mass :: "params \<Rightarrow> updater \<Rightarrow> updater \<times> params" where
  "init_charge_mass m s =
     (let (q_e, m) = get_value_float ''q_e'' 1 m;
          (ion_mass, m) = get_value_float ''ion_mass'' 1 m;
          charges = replicate max_ptc_types q_e;
          masses = replicate max_ptc_types q_e;
          el = unat (PtcType_code electron); io = unat (PtcType_code ion)
      in (s\<lparr>pu_charges := charges[el := charges ! el * (- 1)], pu_masses := masses[io := masses ! io * ion_mass]\<rparr>, m))"

text \<open>The constructor; the temporary array is allocated without a value.\<close>

definition ptc_updater_new :: "params \<Rightarrow> updater \<Rightarrow> updater \<times> params" where
  "ptc_updater_new m s =
     (let (di, m) = get_value_uint32 ''fld_output_interval'' (pu_data_interval s) m;
          ri = di;
          (ri, m) = get_value_uint32 ''rho_interval'' ri m;
          (si, m) = get_value_uint32 ''sort_interval'' (pu_sort_interval s) m;
          (ft, m) = get_value_uint32 ''current_smoothing'' (pu_filter_times s) m
      in init_charge_mass m (s\<lparr>pu_data_interval := di, pu_rho_interval := ri, pu_sort_interval := si, pu_filter_times := ft\<rparr>))"

text \<open>
  \<open>register_data_components\<close>, as far as it computes: the particles (the arrays that are
  registered already, or new ones), the number of species and the random numbers.  The
  members of the fields are those of the state.
\<close>

definition register_data_components ::
  "nat \<Rightarrow> (nat \<Rightarrow> single_ptc_t) \<Rightarrow> single_ptc_t particles option \<Rightarrow> index_t option \<Rightarrow> nat \<Rightarrow> params \<Rightarrow> updater
   \<Rightarrow> string + updater \<times> params" where
  "register_data_components dm junk registered mpi rank m s =
     (let (max_ptc_num, m) = get_value_uint64 ''max_ptc_num'' 10000 m;
          (segment_size, m) = get_value_int ''ptc_segment_size'' (ucast max_ptc_num) m;
          parts = (case registered of Some p \<Rightarrow> p | None \<Rightarrow> particles_new junk (unat max_ptc_num));
          seg = (scast segment_size :: u64);
          seg = (if seg > max_ptc_num then scast (ucast max_ptc_num :: i32) else seg);
          parts = set_segment_size (unat seg) parts;
          (ns, m) = get_value_uint32 ''num_species'' (pu_num_species s) m
      in if unat ns > max_ptc_types then Inl ''too many species''
         else let (seed, m) = get_value_uint64 ''random_seed'' default_random_seed m;
                  domain_ext = (case mpi of Some dims \<Rightarrow> dims | None \<Rightarrow> replicate dm 1)
              in Inr (s\<lparr>pu_ptc := parts, pu_num_species := ns, pu_rng := rng_states_init seed rank,
                      pu_ptc_number := replicate (unat (extent_size domain_ext)) 0\<rparr>, m))"

subsection \<open>One particle\<close>

definition interpolate :: "nat \<Rightarrow> scalar list \<Rightarrow> field \<Rightarrow> i64 \<Rightarrow> extent_t \<Rightarrow> stagger_t \<Rightarrow> scalar" where
  "interpolate n x f idx ext st =
     (if length ext = 1 then interpolator1 n x f idx ext st
      else if length ext = 2 then interpolator2 n x f idx ext st else interpolator3 n x f idx ext st)"

definition deposit_at :: "nat \<Rightarrow> bool \<Rightarrow> ptc_context \<Rightarrow> i64 \<Rightarrow> extent_t \<Rightarrow> scalar \<Rightarrow> bool \<Rightarrow> currents \<Rightarrow> currents" where
  "deposit_at n dbl c idx ext dt deposit_rho S =
     (if length ext = 1 then deposit1 n c idx dt deposit_rho S
      else if length ext = 2 then deposit2 n c idx ext dt deposit_rho S
      else deposit3 n dbl c idx ext dt deposit_rho S)"

text \<open>The context of a particle; \<open>new_x\<close> and \<open>dc\<close> are written before they are read.\<close>

definition load_context :: "nat \<Rightarrow> Grid \<Rightarrow> vfield \<Rightarrow> vfield \<Rightarrow> scalar list \<Rightarrow> scalar list \<Rightarrow> single_ptc_t \<Rightarrow> ptc_context" where
  "load_context n g f_E f_B charges masses q =
     (let ext = extent g; idx = ucast (cell q) :: i64; x = [x1 q, x2 q, x3 q]; sp = unat (get_ptc_type (flag q))
      in \<lparr>pc_cell = cell q, pc_x = x, pc_new_x = [0, 0, 0], pc_dc = replicate (g_dim g) 0,
          pc_p = [p1 q, p2 q, p3 q], pc_gamma = E q, pc_flag = flag q, pc_weight = charges ! sp * weight q,
          pc_sp = sp, pc_q = charges ! sp, pc_m = masses ! sp, pc_aux1 = aux1 q,
          pc_E = [interpolate n x (f_E 0) idx ext 0b110, interpolate n x (f_E 1) idx ext 0b101,
                  interpolate n x (f_E 2) idx ext 0b011],
          pc_B = [interpolate n x (f_B 0) idx ext 0b001, interpolate n x (f_B 1) idx ext 0b010,
                  interpolate n x (f_B 2) idx ext 0b100]\<rparr>)"

definition deposits :: "u32 \<Rightarrow> bool" where
  "deposits f = (\<not> check_flag f (PtcFlag_code ignore_current) \<and> \<not> check_flag f (PtcFlag_code test_particle))"

definition store_context :: "Grid \<Rightarrow> ptc_context \<Rightarrow> index_t \<Rightarrow> single_ptc_t \<Rightarrow> single_ptc_t" where
  "store_context g c pos q =
     q\<lparr>p1 := pc_p c ! 0, p2 := pc_p c ! 1, p3 := pc_p c ! 2, E := pc_gamma c,
       x1 := pc_new_x c ! 0, x2 := pc_new_x c ! 1, x3 := pc_new_x c ! 2,
       cell := ucast (col_to_linear (extent g) pos)\<rparr>"

text \<open>The context of the particle after the policies, and its position.\<close>

definition push_context ::
  "pusher \<Rightarrow> phys_policy \<Rightarrow> nat \<Rightarrow> Grid \<Rightarrow> scalar \<Rightarrow> updater \<Rightarrow> single_ptc_t \<Rightarrow> ptc_context \<times> index_t" where
  "push_context push phys n g dt s q =
     (let c = load_context n g (pu_E s) (pu_B s) (pu_charges s) (pu_masses s) q;
          (c, pos) = update_ptc push g c (get_pos (extent g) (ucast (cell q))) dt
      in (phys g c pos dt, pos))"

definition update_one ::
  "pusher \<Rightarrow> phys_policy \<Rightarrow> nat \<Rightarrow> bool \<Rightarrow> Grid \<Rightarrow> scalar \<Rightarrow> bool \<Rightarrow> updater \<Rightarrow> single_ptc_t \<Rightarrow> currents
   \<Rightarrow> (single_ptc_t \<times> currents) option" where
  "update_one push phys n dbl g dt deposit_rho s q S =
     (if cell q = empty_cell then Some (q, S)
      else
        let (c, pos) = push_context push phys n g dt s q
        in if deposits (pc_flag c) then
             (if deposit_rho \<and> \<not> pc_sp c < unat (pu_num_species s) then None
              else Some (store_context g c pos q, deposit_at n dbl c (ucast (cell q)) (extent g) dt deposit_rho S))
           else Some (store_context g c pos q, S))"

subsection \<open>The loops\<close>

fun update_loop ::
  "pusher \<Rightarrow> phys_policy \<Rightarrow> nat \<Rightarrow> bool \<Rightarrow> Grid \<Rightarrow> scalar \<Rightarrow> bool \<Rightarrow> updater \<Rightarrow> nat list
   \<Rightarrow> single_ptc_t list \<times> currents \<Rightarrow> (single_ptc_t list \<times> currents) option" where
  "update_loop push phys n dbl g dt deposit_rho s [] st = Some st"
| "update_loop push phys n dbl g dt deposit_rho s (k # ks) (d, S) =
     (if k < length d then
        Option.bind (update_one push phys n dbl g dt deposit_rho s (d ! k) S)
          (\<lambda>(q, S). update_loop push phys n dbl g dt deposit_rho s ks (d[k := q], S))
      else None)"

definition zero_currents :: currents where
  "zero_currents = \<lparr>cur_J = \<lambda>_ _. 0, cur_Rho = \<lambda>_ _. 0, cur_rho_total = \<lambda>_. 0\<rparr>"

text \<open>
  A range whose first number is larger than its end only stops after wrapping around, far
  outside the arrays.
\<close>

definition update_particles_range ::
  "pusher \<Rightarrow> phys_policy \<Rightarrow> nat \<Rightarrow> bool \<Rightarrow> Grid \<Rightarrow> scalar \<Rightarrow> u32 \<Rightarrow> nat \<Rightarrow> nat \<Rightarrow> updater \<Rightarrow> updater option" where
  "update_particles_range push phys n dbl g dt step begn endn s =
     (let s = s\<lparr>pu_cur := zero_currents\<rparr>
      in if size_sub endn begn = 0 then Some s
         else if pu_rho_interval s = 0 \<or> endn < begn then None
         else
           let deposit_rho = (step mod pu_rho_interval s = 0)
           in map_option (\<lambda>(d, S). s\<lparr>pu_ptc := (pu_ptc s)\<lparr>data := d\<rparr>, pu_cur := process_J_Rho g S\<rparr>)
                (update_loop push phys n dbl g dt deposit_rho s [begn..<endn] (data (pu_ptc s), pu_cur s)))"

definition update_particles ::
  "pusher \<Rightarrow> phys_policy \<Rightarrow> nat \<Rightarrow> bool \<Rightarrow> Grid \<Rightarrow> scalar \<Rightarrow> u32 \<Rightarrow> updater \<Rightarrow> updater option" where
  "update_particles push phys n dbl g dt step s =
     update_particles_range push phys n dbl g dt step 0 (m_number (pu_ptc s)) s"

text \<open>Photons.\<close>

definition update_one_ph :: "Grid \<Rightarrow> scalar \<Rightarrow> bool \<Rightarrow> single_ph_t \<Rightarrow> field \<Rightarrow> single_ph_t \<times> field" where
  "update_one_ph g dt deposit_rho q rho =
     (if cell q = empty_cell then (q, rho)
      else
        let c = \<lparr>ph_cell = cell q, ph_x = [x1 q, x2 q, x3 q], ph_new_x = [0, 0, 0], ph_dc = replicate (g_dim g) 0,
                 ph_p = [p1 q, p2 q, p3 q], ph_gamma = E q, ph_flag = flag q\<rparr>;
            (c, pos) = update_ph g c (get_pos (extent g) (ucast (cell q))) dt;
            idx_new = col_to_linear (extent g) pos;
            rho = (if deposit_rho then atomic_add rho idx_new (weight q) else rho)
        in (q\<lparr>p1 := ph_p c ! 0, p2 := ph_p c ! 1, p3 := ph_p c ! 2, E := ph_gamma c,
              x1 := ph_new_x c ! 0, x2 := ph_new_x c ! 1, x3 := ph_new_x c ! 2,
              cell := ucast idx_new, path_left := path_left q - dt\<rparr>, rho))"

fun update_ph_loop ::
  "Grid \<Rightarrow> scalar \<Rightarrow> bool \<Rightarrow> nat list \<Rightarrow> single_ph_t list \<times> field \<Rightarrow> (single_ph_t list \<times> field) option" where
  "update_ph_loop g dt deposit_rho [] st = Some st"
| "update_ph_loop g dt deposit_rho (k # ks) (d, rho) =
     (if k < length d then
        let (q, rho) = update_one_ph g dt deposit_rho (d ! k) rho
        in update_ph_loop g dt deposit_rho ks (d[k := q], rho)
      else None)"

definition update_photons :: "Grid \<Rightarrow> scalar \<Rightarrow> u32 \<Rightarrow> updater \<Rightarrow> updater option" where
  "update_photons g dt step s =
     (case pu_ph s of None \<Rightarrow> None
      | Some ph \<Rightarrow>
          if m_number ph = 0 then Some s
          else if pu_rho_interval s = 0 \<or> pu_rho_ph s = None then None
          else map_option (\<lambda>(d, rho). s\<lparr>pu_ph := Some (ph\<lparr>data := d\<rparr>), pu_rho_ph := Some rho\<rparr>)
                 (update_ph_loop g dt (step mod pu_rho_interval s = 0) [0..<m_number ph] (data ph, \<lambda>_. 0)))"

subsection \<open>Between the updates\<close>

text \<open>The number of particles is converted to an \<open>int\<close> here; a negative end is never reached.\<close>

definition clear_one :: "Grid \<Rightarrow> 'a ptc_common_scheme \<Rightarrow> 'a ptc_common_scheme" where
  "clear_one g q =
     (if cell q = empty_cell then q
      else if \<not> is_in_bound g (get_pos (extent g) (ucast (cell q))) then q\<lparr>cell := empty_cell\<rparr> else q)"

definition clear_guard_ptc :: "Grid \<Rightarrow> 'a ptc_common_scheme particles \<Rightarrow> 'a ptc_common_scheme particles option" where
  "clear_guard_ptc g s =
     (let num = size_to_int (m_number s)
      in if num < 0 \<or> length (data s) < nat num then None
         else Some (s\<lparr>data := foldl (\<lambda>d k. d[k := clear_one g (d ! k)]) (data s) [0..<nat num]\<rparr>))"

definition clear_guard_cells :: "Grid \<Rightarrow> updater \<Rightarrow> updater option" where
  "clear_guard_cells g s =
     Option.bind (clear_guard_ptc g (pu_ptc s)) (\<lambda>p.
       case pu_ph s of None \<Rightarrow> Some (s\<lparr>pu_ptc := p\<rparr>)
       | Some ph \<Rightarrow> map_option (\<lambda>ph. s\<lparr>pu_ptc := p, pu_ph := Some ph\<rparr>) (clear_guard_ptc g ph))"

definition sort_particles :: "(nat \<Rightarrow> nat) \<Rightarrow> Grid \<Rightarrow> updater \<Rightarrow> updater option" where
  "sort_particles junk g s =
     (let cells = unat (extent_size (extent g))
      in Option.bind (ptc_sort_by_cell junk cells (pu_ptc s)) (\<lambda>p.
           case pu_ph s of None \<Rightarrow> Some (s\<lparr>pu_ptc := p\<rparr>)
           | Some ph \<Rightarrow> map_option (\<lambda>ph. s\<lparr>pu_ptc := p, pu_ph := Some ph\<rparr>) (ptc_sort_by_cell junk cells ph)))"

text \<open>
  \<open>tally_ptc_number\<close>: the array of the numbers of all ranks, and the two values it logs.
\<close>

definition tally_ptc_number :: "comm option \<Rightarrow> nat \<Rightarrow> u32 list \<Rightarrow> u32 list \<times> nat \<times> nat" where
  "tally_ptc_number cm num arr =
     (case cm of
        Some co \<Rightarrow>
          if co_size co > 1 then
            let ext = mpi_dims (co_info co);
                arr = map (\<lambda>i. if mpi_coord (co_info co) = get_pos ext (word_of_int (int i))
                               then word_of_int (int num) else 0) [0..<length arr];
                arr = co_gather co arr
            in (arr, sum_list (map unat arr), foldl max 0 (map unat arr))
          else (arr[0 := word_of_int (int num)], unat (word_of_int (int num) :: u32), unat (word_of_int (int num) :: u32))
      | None \<Rightarrow> (arr[0 := word_of_int (int num)], unat (word_of_int (int num) :: u32), unat (word_of_int (int num) :: u32)))"

definition send_field :: "(comm \<Rightarrow> 'f \<Rightarrow> 'f) \<Rightarrow> comm option \<Rightarrow> 'f \<Rightarrow> 'f" where
  "send_field send cm f = (case cm of None \<Rightarrow> f | Some co \<Rightarrow> send co f)"

text \<open>One round of the filter: the current, the total charge, and the charges of the species.\<close>

definition filter_scalar :: "Grid \<Rightarrow> bool list \<Rightarrow> comm option \<Rightarrow> field \<times> field \<Rightarrow> field \<times> field" where
  "filter_scalar g bd cm = (\<lambda>(f, tmp).
     let (F, tmp) = filter_field g bd [field_stagger vert_centered 0] (\<lambda>_. f, tmp)
     in (send_field co_send_scalar cm (F 0), tmp))"

definition filter_round :: "Grid \<Rightarrow> bool list \<Rightarrow> comm option \<Rightarrow> u32 \<Rightarrow> updater \<Rightarrow> updater option" where
  "filter_round g bd cm step s =
     (let S = pu_cur s;
          (J, tmp) = filter_field g bd (map (field_stagger edge_centered) [0..<3]) (cur_J S, pu_tmpj s);
          J = send_field co_send_vector cm J;
          (rho, tmp) = filter_scalar g bd cm (cur_rho_total S, tmp);
          S = S\<lparr>cur_J := J, cur_rho_total := rho\<rparr>
      in if pu_rho_interval s = 0 then None
         else if step mod pu_rho_interval s = 0 then
           let (R, tmp) = foldl (\<lambda>(R, tmp) sp. let (f, tmp) = filter_scalar g bd cm (R sp, tmp) in (R(sp := f), tmp))
                 (cur_Rho S, tmp) [0..<unat (pu_num_species s)]
           in Some (s\<lparr>pu_cur := S\<lparr>cur_Rho := R\<rparr>, pu_tmpj := tmp\<rparr>)
         else Some (s\<lparr>pu_cur := S, pu_tmpj := tmp\<rparr>))"

primrec filter_rounds :: "Grid \<Rightarrow> bool list \<Rightarrow> comm option \<Rightarrow> u32 \<Rightarrow> nat \<Rightarrow> updater \<Rightarrow> updater option" where
  "filter_rounds g bd cm step 0 s = Some s"
| "filter_rounds g bd cm step (Suc k) s = Option.bind (filter_round g bd cm step s) (filter_rounds g bd cm step k)"

definition filter_current :: "Grid \<Rightarrow> comm option \<Rightarrow> i32 \<Rightarrow> u32 \<Rightarrow> updater \<Rightarrow> updater option" where
  "filter_current g cm num_times step s =
     (if sint num_times \<le> 0 then Some s
      else
        let bd = (case cm of None \<Rightarrow> replicate (2 * g_dim g) True | Some co \<Rightarrow> is_boundary (co_info co))
        in filter_rounds g bd cm step (nat (sint num_times)) s)"

text \<open>The currents of the guard cells go to their owners, then the sums come back.\<close>

definition send_currents :: "comm option \<Rightarrow> u32 \<Rightarrow> updater \<Rightarrow> updater option" where
  "send_currents cm step s =
     (case cm of None \<Rightarrow> Some s
      | Some co \<Rightarrow>
          let S = pu_cur s;
              S = S\<lparr>cur_J := co_send_vector co (co_send_add_vector co (cur_J S)),
                    cur_rho_total := co_send_scalar co (co_send_add_scalar co (cur_rho_total S))\<rparr>
          in if pu_rho_interval s = 0 then None
             else Some (s\<lparr>pu_cur := (if step mod pu_rho_interval s = 0
                    then S\<lparr>cur_Rho := (\<lambda>i. if i < unat (pu_num_species s)
                             then co_send_scalar co (co_send_add_scalar co (cur_Rho S i)) else cur_Rho S i)\<rparr>
                    else S)\<rparr>))"

definition send_photons :: "Grid \<Rightarrow> comm option \<Rightarrow> scalar \<Rightarrow> u32 \<Rightarrow> updater \<Rightarrow> updater option" where
  "send_photons g cm dt step s =
     (if pu_ph s = None then Some s
      else
        Option.bind (update_photons g dt step s) (\<lambda>s.
        Option.bind (case cm of None \<Rightarrow> Some s
              | Some co \<Rightarrow> Option.bind (pu_ph s) (\<lambda>ph. map_option (\<lambda>ph. s\<lparr>pu_ph := Some ph\<rparr>) (co_send_ph co ph))) (\<lambda>s.
        if pu_rho_interval s = 0 then None
        else if step mod pu_rho_interval s = 0 then
          (case (cm, pu_rho_ph s) of (Some co, Some rho) \<Rightarrow>
             Some (s\<lparr>pu_rho_ph := Some (co_send_scalar co (co_send_add_scalar co rho))\<rparr>)
           | _ \<Rightarrow> None)
        else Some s)))"

definition ptc_update ::
  "pusher \<Rightarrow> phys_policy \<Rightarrow> nat \<Rightarrow> bool \<Rightarrow> (nat \<Rightarrow> nat) \<Rightarrow> Grid \<Rightarrow> comm option \<Rightarrow> scalar \<Rightarrow> u32 \<Rightarrow> updater \<Rightarrow> updater option" where
  "ptc_update push phys n dbl junk g cm dt step s =
     Option.bind (update_particles push phys n dbl g dt step s) (\<lambda>s.
     Option.bind (send_currents cm step s) (\<lambda>s.
     Option.bind (filter_current g cm (pu_filter_times s) step s) (\<lambda>s.
     Option.bind (case cm of None \<Rightarrow> Some s
          | Some co \<Rightarrow> map_option (\<lambda>p. s\<lparr>pu_ptc := p\<rparr>) (co_send_ptc co (pu_ptc s))) (\<lambda>s.
     Option.bind (send_photons g cm dt step s) (\<lambda>s.
     Option.bind (clear_guard_cells g s) (\<lambda>s.
     if pu_sort_interval s > 0 \<and> step mod pu_sort_interval s = 0 then
       Option.bind (sort_particles junk g s) (\<lambda>s.
         let s = s\<lparr>pu_ptc_number := fst (tally_ptc_number cm (m_number (pu_ptc s)) (pu_ptc_number s))\<rparr>
         in Some (case pu_ph s of None \<Rightarrow> s
              | Some ph \<Rightarrow> s\<lparr>pu_ptc_number := fst (tally_ptc_number cm (m_number ph) (pu_ptc_number s))\<rparr>))
     else Some s))))))"

subsection \<open>Filling the box\<close>

text \<open>
  A pair of particles with the same random position in the cell; their places are not
  checked against the size of the arrays.
\<close>

definition fill_pair ::
  "Grid \<Rightarrow> scalar \<Rightarrow> scalar \<Rightarrow> i64 \<Rightarrow> nat \<Rightarrow> single_ptc_t list \<times> rand_state \<Rightarrow> (single_ptc_t list \<times> rand_state) option" where
  "fill_pair g w kT idx off = (\<lambda>(d, r).
     let (a, r) = rng_uniform r; (b, r) = rng_uniform r; (c, r) = rng_uniform r;
         put = (\<lambda>u ty q. q\<lparr>x1 := a, x2 := b, x3 := c, p1 := u ! 0, p2 := u ! 1, p3 := u ! 2,
                  E := sqrt (1 + vec_dot u u), cell := ucast idx, weight := w,
                  flag := set_ptc_type_flag (flag_or [PtcFlag_code primary]) ty\<rparr>)
     in Option.bind (rng_maxwell_juttner_3d r kT) (\<lambda>(u, r).
        Option.bind (rng_maxwell_juttner_3d r kT) (\<lambda>(v, r).
        if off < length d \<and> off + 1 < length d
        then Some (d[off := put u electron (d ! off), off + 1 := put v positron (d ! (off + 1))], r)
        else None)))"

definition fill_offset :: "nat \<Rightarrow> i64 \<Rightarrow> nat \<Rightarrow> nat \<Rightarrow> nat" where
  "fill_offset num idx n_pairs i = unat (word_of_int (int num + sint idx * int n_pairs * 2 + int i * 2) :: u32)"

fun fill_pairs ::
  "Grid \<Rightarrow> scalar \<Rightarrow> scalar \<Rightarrow> (i64 \<times> nat) list \<Rightarrow> single_ptc_t list \<times> rand_state \<Rightarrow> (single_ptc_t list \<times> rand_state) option" where
  "fill_pairs g w kT [] st = Some st"
| "fill_pairs g w kT ((idx, off) # ps) st = Option.bind (fill_pair g w kT idx off st) (fill_pairs g w kT ps)"

definition fill_places :: "Grid \<Rightarrow> nat \<Rightarrow> nat \<Rightarrow> (i64 \<times> nat) list" where
  "fill_places g num n_pairs =
     concat (map (\<lambda>k. let idx = word_of_int (int k) in
               if is_in_bound g (get_pos (extent g) idx)
               then map (\<lambda>i. (idx, fill_offset num idx n_pairs i)) [0..<n_pairs] else [])
       [0..<unat (extent_size (extent g))])"

definition fill_multiplicity :: "(nat \<Rightarrow> nat) \<Rightarrow> Grid \<Rightarrow> nat \<Rightarrow> scalar \<Rightarrow> scalar \<Rightarrow> updater \<Rightarrow> updater option" where
  "fill_multiplicity junk g n_pairs w kT s =
     (let num = m_number (pu_ptc s)
      in Option.bind (fill_pairs g w kT (fill_places g num n_pairs) (data (pu_ptc s), pu_rng s)) (\<lambda>(d, r).
         map_option (\<lambda>p. s\<lparr>pu_ptc := p, pu_rng := r\<rparr>)
           (ptc_sort_by_cell junk (unat (extent_size (extent g)))
              (set_num (num + 2 * n_pairs * unat (extent_size (extent g))) ((pu_ptc s)\<lparr>data := d\<rparr>)))))"

end
