(* ===== verification/RadTransfer.thy ===== *)
theory RadTransfer
  imports PtcUpdater
begin

text \<open>
  Radiative transfer: the system \<open>src/systems/radiative_transfer.h\<close>,
  \<open>src/systems/radiative_transfer_impl.hpp\<close> with the default radiation policy
  \<open>src/systems/radiation/default_radiation_scheme.hpp\<close> and the older policies
  \<open>threshold_emission\<close>, \<open>fixed_photon_path\<close> and \<open>photon_pair_creation\<close> of that
  directory.  A radiation policy is a pair of functions on the arrays of particles and
  photons; \<open>None\<close> is an access outside an array or an endless loop.
\<close>

subsection \<open>The arrays a policy works on\<close>

text \<open>\<open>ra_pos\<close> counts the new entries, in an \<open>unsigned long long\<close> of its own.\<close>

record rad_arrays =
  ra_ptc :: "single_ptc_t list"
  ra_ph :: "single_ph_t list"
  ra_pos :: nat
  ra_rng :: rand_state

type_synonym rad_step = "Grid \<Rightarrow> scalar \<Rightarrow> nat \<Rightarrow> nat \<Rightarrow> rad_arrays \<Rightarrow> (nat \<times> rad_arrays) option"

datatype PhFlag = ph_tracked | polarized | pol_parallel | ignore_pair_create

fun PhFlag_code :: "PhFlag \<Rightarrow> nat" where
  "PhFlag_code ph_tracked = 1"
| "PhFlag_code polarized = 2"
| "PhFlag_code pol_parallel = 3"
| "PhFlag_code ignore_pair_create = 4"

subsection \<open>The default radiation scheme\<close>

record rad_scheme =
  sc_E_s :: scalar
  sc_photon_path :: scalar
  sc_gamma_thr :: scalar
  sc_ph_per_scatter :: i32

definition default_scheme :: rad_scheme where
  "default_scheme = \<lparr>sc_E_s = 2, sc_photon_path = 0, sc_gamma_thr = 30, sc_ph_per_scatter = 1\<rparr>"

definition scheme_init :: "params \<Rightarrow> rad_scheme \<Rightarrow> string + rad_scheme \<times> params" where
  "scheme_init m sc =
     (let (path, m) = get_value_double ''photon_path'' (sc_photon_path sc) m;
          (es, m) = get_value_double ''E_secondary'' (sc_E_s sc) m;
          (thr, m) = get_value_double ''gamma_thr'' (sc_gamma_thr sc) m;
          (k, m) = get_value_int ''ph_per_scatter'' (sc_ph_per_scatter sc) m;
          sc = \<lparr>sc_E_s = es, sc_photon_path = path, sc_gamma_thr = thr, sc_ph_per_scatter = k\<rparr>
      in if es * 2 * of_int (sint k) > thr then Inl ''Total energy of secondaries exceed gamma threshold!''
         else Inr (sc, m))"

text \<open>The photons of one emission, behind those that are there already.\<close>

fun write_photons ::
  "scalar \<Rightarrow> scalar \<Rightarrow> scalar \<Rightarrow> single_ptc_t \<Rightarrow> nat \<Rightarrow> nat list \<Rightarrow> single_ph_t list \<times> rand_state
   \<Rightarrow> (single_ph_t list \<times> rand_state) option" where
  "write_photons lph Eph pin q off [] st = Some st"
| "write_photons lph Eph pin q off (i # is) (d, r) =
     (let (u, r) = rng_uniform r; path = lph * (9 / 10 + 2 / 10 * u); k = size_add off i
      in if k < length d then
           write_photons lph Eph pin q off is
             (d[k := (d ! k)\<lparr>x1 := x1 q, x2 := x2 q, x3 := x3 q, p1 := Eph * p1 q / pin, p2 := Eph * p2 q / pin,
                   p3 := Eph * p3 q / pin, E := Eph, weight := weight q, path_left := path, cell := cell q\<rparr>], r)
         else None)"

definition emit_photon :: "rad_scheme \<Rightarrow> rad_step" where
  "emit_photon sc g dt tid ph_num a =
     (let q = ra_ptc a ! tid; gamma = E q; k = sint (sc_ph_per_scatter sc)
      in if gamma < sc_gamma_thr sc then Some (0, a)
         else
           let pin = sqrt (gamma * gamma - 1); Eph = sc_E_s sc * 2; e = gamma - Eph * of_int k;
               pf = sqrt (e * e - 1);
               q' = q\<lparr>p1 := p1 q * pf / pin, p2 := p2 q * pf / pin, p3 := p3 q * pf / pin, E := e\<rparr>;
               off = size_add ph_num (ra_pos a)
           in map_option (\<lambda>(d, r). (off, a\<lparr>ra_ptc := (ra_ptc a)[tid := q'], ra_ph := d,
                                       ra_pos := size_add (ra_pos a) (to_size k), ra_rng := r\<rparr>))
                (write_photons (sc_photon_path sc) Eph pin q off [0..<nat k] (ra_ph a, ra_rng a)))"

definition pair_ratio :: "scalar \<Rightarrow> scalar" where
  "pair_ratio Eph2 = sqrt (1 / 4 - 1 / Eph2)"

definition pair_member :: "single_ph_t \<Rightarrow> PtcType \<Rightarrow> single_ptc_t \<Rightarrow> single_ptc_t" where
  "pair_member h ty q =
     (let Eph2 = p1 h * p1 h + p2 h * p2 h + p3 h * p3 h;
          Eph2 = (if Eph2 < 401 / 100 then 401 / 100 else Eph2);
          ratio = pair_ratio Eph2; gamma = sqrt (1 + ratio * ratio * Eph2)
      in q\<lparr>x1 := x1 h, x2 := x2 h, x3 := x3 h, p1 := ratio * p1 h, p2 := ratio * p2 h, p3 := ratio * p3 h,
           E := gamma, weight := weight h, cell := cell h,
           flag := set_ptc_type_flag (flag_or [PtcFlag_code secondary]) ty\<rparr>)"

definition write_pair :: "single_ph_t \<Rightarrow> nat \<Rightarrow> single_ptc_t list \<Rightarrow> single_ptc_t list option" where
  "write_pair h off d =
     (let off_e = off; off_p = size_add off 1
      in if off_e < length d \<and> off_p < length d
         then Some (d[off_e := pair_member h electron (d ! off_e), off_p := pair_member h positron (d ! off_p)])
         else None)"

definition produce_pair :: "rad_step" where
  "produce_pair g dt tid ptc_num a =
     (let h = ra_ph a ! tid
      in if path_left h > 0 then Some (0, a)
         else
           let off = size_add ptc_num (ra_pos a)
           in map_option (\<lambda>d. (off, a\<lparr>ra_ptc := d, ra_pos := size_add (ra_pos a) 2\<rparr>))
                (write_pair h off (ra_ptc a)))"

subsection \<open>The policies in separate files\<close>

definition check_emit_photon :: "scalar \<Rightarrow> single_ptc_t list \<Rightarrow> nat \<Rightarrow> bool" where
  "check_emit_photon gamma_thr d tid = (E (d ! tid) > gamma_thr)"

definition emit_photon_fixed_path ::
  "scalar \<Rightarrow> scalar \<Rightarrow> nat \<Rightarrow> nat \<Rightarrow> single_ptc_t list \<times> single_ph_t list \<times> rand_state
   \<Rightarrow> (single_ptc_t list \<times> single_ph_t list \<times> rand_state) option" where
  "emit_photon_fixed_path es photon_path tid off = (\<lambda>(d, h, r).
     (let q = d ! tid; gamma = E q; pin = sqrt (gamma * gamma - 1); (u, r) = rng_uniform r;
          Eph = 5 / 2 + u * (es - 1) * 2; e = gamma - Eph; pf = sqrt (e * e - 1);
          d = d[tid := q\<lparr>p1 := p1 q * pf / pin, p2 := p2 q * pf / pin, p3 := p3 q * pf / pin, E := e\<rparr>]
      in map_option (\<lambda>(h, r). (d, h, r)) (write_photons photon_path Eph pin q off [0] (h, r))))"

definition check_produce_pair :: "single_ph_t list \<Rightarrow> nat \<Rightarrow> bool" where
  "check_produce_pair h tid = (path_left (h ! tid) < 0)"

definition produce_pair_creation ::
  "nat \<Rightarrow> nat \<Rightarrow> single_ptc_t list \<times> single_ph_t list \<Rightarrow> (single_ptc_t list \<times> single_ph_t list) option" where
  "produce_pair_creation tid off = (\<lambda>(d, h).
     map_option (\<lambda>d. (d, h[tid := (h ! tid)\<lparr>cell := empty_cell\<rparr>])) (write_pair (h ! tid) off d))"

subsection \<open>The system\<close>

record radiative_transfer =
  rt_ptc :: "single_ptc_t particles"
  rt_ph :: "single_ph_t particles"
  rt_photon_produced :: field
  rt_pair_produced :: field
  rt_rng :: rand_state
  rt_ph_number :: "u32 list"
  rt_emit_photons :: bool
  rt_produce_pairs :: bool
  rt_data_interval :: u32
  rt_sort_interval :: u32
  rt_ph_per_scatter :: i32
  rt_tracked_fraction :: real
  rt_track_rank :: u64

definition rad_new :: "int option \<Rightarrow> radiative_transfer \<Rightarrow> radiative_transfer" where
  "rad_new rank s = (case rank of None \<Rightarrow> s | Some k \<Rightarrow> s\<lparr>rt_track_rank := push_bit 32 (word_of_int k)\<rparr>)"

text \<open>The particles and the random numbers are those of the environment.\<close>

definition rad_init ::
  "single_ptc_t particles \<Rightarrow> rand_state \<Rightarrow> params \<Rightarrow> radiative_transfer \<times> rad_scheme \<Rightarrow> string + (radiative_transfer \<times> rad_scheme) \<times> params" where
  "rad_init parts rng m = (\<lambda>(s, sc).
     (let (di, m) = get_value_uint32 ''fld_output_interval'' (rt_data_interval s) m;
          (si, m) = get_value_uint32 ''sort_interval'' (rt_sort_interval s) m;
          (k, m) = get_value_int ''ph_per_scatter'' (rt_ph_per_scatter s) m;
          (tf, m) = get_value_float ''tracked_fraction'' (rt_tracked_fraction s) m;
          (ep, m) = get_value_bool ''emit_photons'' (rt_emit_photons s) m;
          (pp, m) = get_value_bool ''produce_pairs'' (rt_produce_pairs s) m;
          s = s\<lparr>rt_data_interval := di, rt_sort_interval := si, rt_ph_per_scatter := k, rt_tracked_fraction := tf,
                rt_emit_photons := ep, rt_produce_pairs := pp, rt_ptc := parts, rt_rng := rng\<rparr>
      in case scheme_init m sc of Inl e \<Rightarrow> Inl e | Inr (sc, m) \<Rightarrow> Inr ((s, sc), m)))"

definition rad_register ::
  "nat \<Rightarrow> (nat \<Rightarrow> single_ph_t) \<Rightarrow> single_ph_t particles option \<Rightarrow> index_t option \<Rightarrow> params \<Rightarrow> radiative_transfer \<Rightarrow> radiative_transfer \<times> params" where
  "rad_register dm junk registered mpi m s =
     (let (max_ph_num, m) = get_value_uint64 ''max_ph_num'' 10000 m;
          (segment_size, m) = get_value_int ''ph_segment_size'' (ucast max_ph_num) m;
          parts = (case registered of Some p \<Rightarrow> p | None \<Rightarrow> particles_new junk (unat max_ph_num));
          seg = (scast segment_size :: u64);
          seg = (if seg > max_ph_num then scast (ucast max_ph_num :: i32) else seg);
          domain_ext = (case mpi of Some dims \<Rightarrow> dims | None \<Rightarrow> replicate dm 1)
      in (s\<lparr>rt_ph := set_segment_size (unat seg) parts,
            rt_ph_number := replicate (unat (extent_size domain_ext)) 0\<rparr>, m))"

subsection \<open>Photon emission\<close>

text \<open>A share of the new photons is marked to be tracked.\<close>

fun track_photons ::
  "real \<Rightarrow> u64 \<Rightarrow> nat \<Rightarrow> nat list \<Rightarrow> single_ph_t list \<times> u32 \<times> rand_state \<Rightarrow> (single_ph_t list \<times> u32 \<times> rand_state) option" where
  "track_photons fr rank off [] st = Some st"
| "track_photons fr rank off (i # is) (h, nid, r) =
     (let (u, r) = rng_uniform r; k = size_add off i
      in if u < fr then
           (if k < length h then
              track_photons fr rank off is
                (h[k := (h ! k)\<lparr>flag := flag_or [PhFlag_code ph_tracked], pid := rank + ucast nid\<rparr>], nid + 1, r)
            else None)
         else track_photons fr rank off is (h, nid, r))"

definition emit_one ::
  "rad_step \<Rightarrow> i32 \<Rightarrow> real \<Rightarrow> u64 \<Rightarrow> Grid \<Rightarrow> scalar \<Rightarrow> nat \<Rightarrow> nat \<Rightarrow> rad_arrays \<times> u32 \<times> field
   \<Rightarrow> (rad_arrays \<times> u32 \<times> field) option" where
  "emit_one emit pps fr rank g dt ph_num n = (\<lambda>(a, nid, produced).
     if \<not> n < length (ra_ptc a) then None
     else
       let q = ra_ptc a ! n; idx = ucast (cell q) :: i64
       in if cell q = empty_cell \<or> \<not> is_in_bound g (get_pos (extent g) idx) \<or> get_ptc_type (flag q) = PtcType_code ion
          then Some (a, nid, produced)
          else
            Option.bind (emit g dt n ph_num a) (\<lambda>(off, a).
              if off \<noteq> 0 then
                let w = weight (ra_ptc a ! n);
                    produced = atomic_add produced idx (w * of_int (sint pps))
                in map_option (\<lambda>(h, nid, r). (a\<lparr>ra_ph := h, ra_rng := r\<rparr>, nid, produced))
                     (track_photons fr rank off [0..<nat (sint pps)] (ra_ph a, nid, ra_rng a))
              else Some (a, nid, produced)))"

primrec fold_opt :: "('b \<Rightarrow> 's \<Rightarrow> 's option) \<Rightarrow> 'b list \<Rightarrow> 's \<Rightarrow> 's option" where
  "fold_opt f [] s = Some s"
| "fold_opt f (k # ks) s = Option.bind (f k s) (fold_opt f ks)"

lemma fold_opt_invariant:
  assumes "\<And>k s. k < N \<Longrightarrow> I k s \<Longrightarrow> \<exists>s'. f k s = Some s' \<and> I (Suc k) s'" "I 0 s"
  shows "\<exists>s'. fold_opt f [0..<N] s = Some s' \<and> I N s'"
proof -
  have app: "fold_opt f (xs @ ys) = (\<lambda>s. Option.bind (fold_opt f xs s) (fold_opt f ys))" for xs ys
    by (induction xs) (simp, rule ext, simp)
  have "k \<le> N \<Longrightarrow> \<exists>s'. fold_opt f [0..<k] s = Some s' \<and> I k s'" for k
  proof (induction k)
    case (Suc k)
    then show ?case using assms(1)[of k] by (fastforce simp: app)
  qed (use assms(2) in simp)
  then show ?thesis by blast
qed

text \<open>The number of particles is converted to an \<open>int\<close>; a negative end is never reached.\<close>

definition emit_photons :: "rad_step \<Rightarrow> Grid \<Rightarrow> scalar \<Rightarrow> radiative_transfer \<Rightarrow> radiative_transfer option" where
  "emit_photons emit g dt s =
     (let ptc_num = m_number (rt_ptc s); ph_num = m_number (rt_ph s); N = size_to_int ptc_num
      in if ptc_num = 0 then Some s
         else if N < 0 then None
         else
           map_option (\<lambda>(a, nid, produced).
               s\<lparr>rt_ptc := (rt_ptc s)\<lparr>data := ra_ptc a\<rparr>,
                 rt_ph := add_num (ra_pos a) ((rt_ph s)\<lparr>data := ra_ph a, m_ptc_id := nid\<rparr>),
                 rt_photon_produced := produced, rt_rng := ra_rng a\<rparr>)
             (fold_opt (emit_one emit (rt_ph_per_scatter s) (rt_tracked_fraction s) (rt_track_rank s) g dt ph_num)
                [0..<nat N]
                (\<lparr>ra_ptc = data (rt_ptc s), ra_ph = data (rt_ph s), ra_pos = 0, ra_rng = rt_rng s\<rparr>,
                 m_ptc_id (rt_ph s), rt_photon_produced s)))"

subsection \<open>Pair creation\<close>

definition track_pair ::
  "real \<Rightarrow> u64 \<Rightarrow> nat \<Rightarrow> single_ptc_t list \<times> u32 \<times> rand_state \<Rightarrow> (single_ptc_t list \<times> u32 \<times> rand_state) option" where
  "track_pair fr rank off = (\<lambda>(d, nid, r).
     (let (u, r) = rng_uniform r; k = size_add off 1
      in if u < fr then
           (if off < length d \<and> k < length d then
              let mark = (\<lambda>i q. q\<lparr>flag := set_flag (flag q) [PtcFlag_code tracked], pid := rank + ucast i\<rparr>);
                  d = d[off := mark nid (d ! off)];
                  d = d[k := mark (nid + 1) (d ! k)]
              in Some (d, nid + 2, r)
            else None)
         else Some (d, nid, r)))"

definition create_one ::
  "rad_step \<Rightarrow> real \<Rightarrow> u64 \<Rightarrow> Grid \<Rightarrow> scalar \<Rightarrow> nat \<Rightarrow> nat \<Rightarrow> rad_arrays \<times> u32 \<times> field
   \<Rightarrow> (rad_arrays \<times> u32 \<times> field) option" where
  "create_one produce fr rank g dt ptc_num n = (\<lambda>(a, nid, produced).
     if \<not> n < length (ra_ph a) then None
     else
       let idx = ucast (cell (ra_ph a ! n)) :: i64
       in if cell (ra_ph a ! n) = empty_cell \<or> \<not> is_in_bound g (get_pos (extent g) idx) then Some (a, nid, produced)
          else
            Option.bind (produce g dt n ptc_num a) (\<lambda>(off, a).
              if off \<noteq> 0 then
                let w = weight (ra_ph a ! n);
                    produced = atomic_add produced idx (2 * w);
                    h = (ra_ph a)[n := (ra_ph a ! n)\<lparr>cell := empty_cell\<rparr>]
                in map_option (\<lambda>(d, nid, r). (a\<lparr>ra_ptc := d, ra_ph := h, ra_rng := r\<rparr>, nid, produced))
                     (track_pair fr rank off (ra_ptc a, nid, ra_rng a))
              else Some (a, nid, produced)))"

definition create_pairs :: "rad_step \<Rightarrow> Grid \<Rightarrow> scalar \<Rightarrow> radiative_transfer \<Rightarrow> radiative_transfer option" where
  "create_pairs produce g dt s =
     (let ptc_num = m_number (rt_ptc s); ph_num = m_number (rt_ph s); N = size_to_int ph_num
      in if ph_num = 0 then Some s
         else if N < 0 then None
         else
           map_option (\<lambda>(a, nid, produced).
               s\<lparr>rt_ph := (rt_ph s)\<lparr>data := ra_ph a\<rparr>,
                 rt_ptc := add_num (ra_pos a) ((rt_ptc s)\<lparr>data := ra_ptc a, m_ptc_id := nid\<rparr>),
                 rt_pair_produced := produced, rt_rng := ra_rng a\<rparr>)
             (fold_opt (create_one produce (rt_tracked_fraction s) (rt_track_rank s) g dt ptc_num)
                [0..<nat N]
                (\<lparr>ra_ptc = data (rt_ptc s), ra_ph = data (rt_ph s), ra_pos = 0, ra_rng = rt_rng s\<rparr>,
                 m_ptc_id (rt_ptc s), rt_pair_produced s)))"

definition rad_update :: "rad_step \<Rightarrow> rad_step \<Rightarrow> Grid \<Rightarrow> comm option \<Rightarrow> scalar \<Rightarrow> radiative_transfer \<Rightarrow> radiative_transfer option" where
  "rad_update emit produce g cm dt s =
     Option.bind (if rt_emit_photons s then emit_photons emit g dt s else Some s) (\<lambda>s.
     Option.bind (if rt_produce_pairs s then create_pairs produce g dt s else Some s) (\<lambda>s.
       Some (s\<lparr>rt_ph_number := fst (tally_ptc_number cm (m_number (rt_ph s)) (rt_ph_number s))\<rparr>)))"

end
