(* ===== verification/PtcCharge.thy ===== *)
theory PtcCharge
  imports PtcUpdater GuardCells
begin

text \<open>
  What the particle update does to the charge: the density of a set of particles as a sum
  of splines over the grid, the charge the loop deposits as that density, and the change
  of the density as the divergence of the deposited current.
\<close>

subsection \<open>The density of particles\<close>

definition ptc_pos :: "Grid \<Rightarrow> single_ptc_t \<Rightarrow> index_t" where
  "ptc_pos g q = get_pos (extent g) (ucast (cell q))"

definition ptc_x :: "single_ptc_t \<Rightarrow> scalar list" where
  "ptc_x q = [x1 q, x2 q, x3 q]"

definition ptc_charge :: "scalar list \<Rightarrow> single_ptc_t \<Rightarrow> scalar" where
  "ptc_charge charges q = charges ! unat (get_ptc_type (flag q)) * weight q"

text \<open>The spline of order \<open>n\<close> around the particle, at the node of position \<open>P\<close>.\<close>

definition ptc_shape :: "nat \<Rightarrow> Grid \<Rightarrow> single_ptc_t \<Rightarrow> index_t \<Rightarrow> scalar" where
  "ptc_shape n g q P = (\<Prod>d < g_dim g. bspline n (of_int (sint (P ! d) - sint (ptc_pos g q ! d)) - ptc_x q ! d))"

definition ptc_density :: "nat \<Rightarrow> Grid \<Rightarrow> scalar list \<Rightarrow> single_ptc_t \<Rightarrow> index_t \<Rightarrow> scalar" where
  "ptc_density n g charges q P =
     (if live q \<and> deposits (flag q) then ptc_charge charges q * ptc_shape n g q P else 0)"

definition charge_density :: "nat \<Rightarrow> Grid \<Rightarrow> scalar list \<Rightarrow> single_ptc_t list \<Rightarrow> index_t \<Rightarrow> scalar" where
  "charge_density n g charges d P = (\<Sum>q\<leftarrow>d. ptc_density n g charges q P)"

text \<open>A particle inside the grid, and one that may have left it by a cell.\<close>

definition ptc_placed :: "Grid \<Rightarrow> single_ptc_t \<Rightarrow> bool" where
  "ptc_placed g q = (in_extent (extent g) (ptc_pos g q) \<and> ucast (col_to_linear (extent g) (ptc_pos g q)) = cell q
     \<and> on_shell (p1 q, p2 q, p3 q, E q) \<and> (\<forall>d < g_dim g. 0 \<le> ptc_x q ! d \<and> ptc_x q ! d < 1))"

definition ptc_ready :: "Grid \<Rightarrow> single_ptc_t \<Rightarrow> bool" where
  "ptc_ready g q = (ptc_placed g q \<and> is_in_bound g (ptc_pos g q))"

subsection \<open>A push moves a particle by at most one cell\<close>

lemma on_shell_speed:
  assumes "on_shell (a, b, c, e)"
  shows "\<bar>a\<bar> < e" "\<bar>b\<bar> < e" "\<bar>c\<bar> < e" "0 < e"
proof -
  have e: "e = sqrt (1 + (a * a + b * b + c * c))" using assms by (simp add: on_shell_def)
  have n: "0 \<le> a * a" "0 \<le> b * b" "0 \<le> c * c" by simp_all
  then have "0 < 1 + (b * b + c * c)" "0 < 1 + (a * a + c * c)" "0 < 1 + (a * a + b * b)" "0 < 1 + (a * a + b * b + c * c)"
    by linarith+
  then show "\<bar>a\<bar> < e" "\<bar>b\<bar> < e" "\<bar>c\<bar> < e" "0 < e"
    unfolding e by (auto intro!: real_less_rsqrt simp: power2_eq_square)
qed

text \<open>One of the pushers of the code; all of them end on the mass shell.\<close>

definition code_pusher :: "pusher \<Rightarrow> bool" where
  "code_pusher push = (push = boris_pusher \<or> push = vay_pusher \<or> push = higuera_pusher)"

lemma code_pusher_shell: "code_pusher push \<Longrightarrow> on_shell (push f_E f_B q m)"
  unfolding code_pusher_def by (metis boris_rot higuera_rot rot_push_on_shell vay_on_shell)

text \<open>The context of a particle after the empty physics policy.\<close>

lemma push_context_facts:
  assumes r: "ptc_placed g q" and g: "grid_ok g" "g_dim g \<in> {1, 2, 3}" and push: "code_pusher push"
    and dt: "0 \<le> dt" "\<forall>d < g_dim g. dt \<le> g_delta g ! d"
    and e: "push_context push ptc_physics_policy_empty n g dt s q = (c, pos)"
  shows "pc_flag c = flag q" "pc_weight c = ptc_charge (pu_charges s) q" "pc_sp c = unat (get_ptc_type (flag q))"
    "pc_x c = ptc_x q" "in_cell (g_dim g) c" "length pos = g_dim g"
    "on_shell (pc_p c ! 0, pc_p c ! 1, pc_p c ! 2, pc_gamma c)"
    "\<And>d. d < g_dim g \<Longrightarrow> pos ! d = ptc_pos g q ! d + word_of_int (pc_dc c ! d)"
    "\<And>d. d < g_dim g \<Longrightarrow> 0 \<le> pc_new_x c ! d \<and> pc_new_x c ! d < 1"
    "\<And>d. d < g_dim g \<Longrightarrow> - 1 \<le> pc_dc c ! d \<and> pc_dc c ! d \<le> 1"
proof -
  let ?c0 = "load_context n g (pu_E s) (pu_B s) (pu_charges s) (pu_masses s) q"
  define c1 where "c1 = (if \<not> check_flag (pc_flag ?c0) (PtcFlag_code ignore_EM) then pusher_simple push ?c0 dt else ?c0)"
  have c0: "pc_flag ?c0 = flag q" "pc_weight ?c0 = ptc_charge (pu_charges s) q" "pc_sp ?c0 = unat (get_ptc_type (flag q))"
    "pc_x ?c0 = ptc_x q" "length (pc_new_x ?c0) = 3" "length (pc_dc ?c0) = g_dim g"
    "pc_p ?c0 = [p1 q, p2 q, p3 q]" "pc_gamma ?c0 = E q"
    by (simp_all add: load_context_def Let_def ptc_charge_def ptc_x_def)
  have same: "pc_flag c1 = pc_flag ?c0" "pc_weight c1 = pc_weight ?c0" "pc_sp c1 = pc_sp ?c0" "pc_x c1 = pc_x ?c0"
    "pc_new_x c1 = pc_new_x ?c0" "pc_dc c1 = pc_dc ?c0"
    by (simp_all add: c1_def pusher_simple_def Let_def split: prod.split)
  have sh: "on_shell (pc_p c1 ! 0, pc_p c1 ! 1, pc_p c1 ! 2, pc_gamma c1)"
  proof (cases "check_flag (pc_flag ?c0) (PtcFlag_code ignore_EM)")
    case True
    then show ?thesis using r c0(7,8) by (simp add: c1_def ptc_placed_def)
  next
    case False
    obtain a b e' h where pr: "push (pc_E ?c0 ! 0, pc_E ?c0 ! 1, pc_E ?c0 ! 2) (pc_B ?c0 ! 0, pc_B ?c0 ! 1, pc_B ?c0 ! 2)
          (dt * pc_q ?c0 / pc_m ?c0 * (1 / 2)) (pc_p ?c0 ! 0, pc_p ?c0 ! 1, pc_p ?c0 ! 2, pc_gamma ?c0) = (a, b, e', h)"
      by (metis prod_cases4)
    then have "on_shell (a, b, e', h)" using code_pusher_shell[OF push] by metis
    then show ?thesis using False pr by (simp add: c1_def pusher_simple_def)
  qed
  have len: "length (ptc_pos g q) = g_dim g"
    using r in_extent_length grid_ok_lengths[OF g(1)] by (auto simp: ptc_placed_def extent_def)
  have "move_ptc g c1 (ptc_pos g q) dt = (c, pos)"
    using e unfolding push_context_def update_ptc_def ptc_physics_policy_empty_def Let_def ptc_pos_def c1_def
    by (simp split: prod.splits)
  then obtain nx dc where mv: "move_core g (pc_x c1) (pc_p c1) (pc_gamma c1) dt (pc_new_x c1, pc_dc c1, ptc_pos g q) = (nx, dc, pos)"
    and c: "c = c1\<lparr>pc_new_x := nx, pc_dc := dc\<rparr>"
    by (auto simp: move_ptc_def Let_def split: prod.splits)
  have D: "g_dim g \<le> 3" using g(2) by auto
  note m = move_core_nth[OF D _ _ _ mv, unfolded same c0]
  show "pc_flag c = flag q" "pc_weight c = ptc_charge (pu_charges s) q" "pc_sp c = unat (get_ptc_type (flag q))"
    "pc_x c = ptc_x q" "on_shell (pc_p c ! 0, pc_p c ! 1, pc_p c ! 2, pc_gamma c)"
    using same c0 sh by (simp_all add: c)
  show "length pos = g_dim g" using m(3) c0(5,6) len by simp
  show "pos ! d = ptc_pos g q ! d + word_of_int (pc_dc c ! d)" if "d < g_dim g" for d
    using m(6) that len c0 by (simp add: c)
  have x: "0 \<le> pc_new_x c ! d \<and> pc_new_x c ! d < 1 \<and> - 1 \<le> pc_dc c ! d \<and> pc_dc c ! d \<le> 1" if t: "d < g_dim g" for d
  proof -
    let ?v = "pc_p c1 ! d * dt / pc_gamma c1 * g_inv_delta g ! d"
    have d: "d = 0 \<or> d = 1 \<or> d = 2" using t D by auto
    have sp: "\<bar>pc_p c1 ! d\<bar> < pc_gamma c1" "0 < pc_gamma c1"
      using on_shell_speed[OF sh] d by auto
    have o: "0 < g_delta g ! d" "g_inv_delta g ! d = 1 / g_delta g ! d" "dt \<le> g_delta g ! d"
      using grid_okD[OF g(1) t] dt(2) t by simp_all
    have "\<bar>?v\<bar> = \<bar>pc_p c1 ! d\<bar> / pc_gamma c1 * (dt / g_delta g ! d)"
      using sp(2) o(1) dt(1) by (simp add: o(2) abs_mult)
    also have "\<dots> \<le> \<bar>pc_p c1 ! d\<bar> / pc_gamma c1 * 1"
      using o(1,3) sp by (intro mult_left_mono) simp_all
    also have "\<dots> < 1" using sp by simp
    finally have v: "\<bar>?v\<bar> < 1" .
    have f: "pc_dc c ! d = \<lfloor>ptc_x q ! d + ?v\<rfloor>" "pc_new_x c ! d = ptc_x q ! d + ?v - of_int (pc_dc c ! d)"
      using m(4,5) t len by (simp_all add: c)
    have xq: "0 \<le> ptc_x q ! d" "ptc_x q ! d < 1" using r t by (simp_all add: ptc_placed_def)
    have "- 1 \<le> ptc_x q ! d + ?v" "ptc_x q ! d + ?v < 2" using v xq by linarith+
    then have "- 1 \<le> pc_dc c ! d" "pc_dc c ! d \<le> 1"
      unfolding f(1) using le_floor_iff[of "- 1" "ptc_x q ! d + ?v"] floor_le_iff[of "ptc_x q ! d + ?v" 1] by simp_all
    moreover have "0 \<le> pc_new_x c ! d" "pc_new_x c ! d < 1"
      unfolding f(2) f(1) by linarith+
    ultimately show ?thesis by blast
  qed
  then show "0 \<le> pc_new_x c ! d \<and> pc_new_x c ! d < 1" "- 1 \<le> pc_dc c ! d \<and> pc_dc c ! d \<le> 1" if "d < g_dim g" for d
    using that by blast+
  have "0 \<le> pc_x c ! d \<and> pc_x c ! d \<le> 1 \<and> 0 \<le> pc_new_x c ! d \<and> pc_new_x c ! d \<le> 1 \<and> pc_dc c ! d \<in> {- 1, 0, 1}"
    if t: "d < g_dim g" for d
  proof -
    have "pc_x c = ptc_x q" using same c0 by (simp add: c)
    moreover have "pc_dc c ! d = - 1 \<or> pc_dc c ! d = 0 \<or> pc_dc c ! d = 1" using x[OF t] by linarith
    moreover have "0 \<le> ptc_x q ! d \<and> ptc_x q ! d < 1" using r t by (simp add: ptc_placed_def)
    ultimately show ?thesis using x[OF t] by auto
  qed
  then show "in_cell (g_dim g) c" by (simp add: in_cell_def list_all_iff)
qed

subsection \<open>The points a particle writes to\<close>

lemma all_less_3: "(\<forall>d < 3. Q d) = (Q 0 \<and> Q 1 \<and> Q (2 :: nat))"
  by (auto simp: less_Suc_eq numeral_3_eq_3 numeral_2_eq_2)

lemma index_eq_iff:
  assumes "length p = n" "length q = n"
  shows "p = q \<longleftrightarrow> (\<forall>d < n. sint (p ! d :: i32) = sint (q ! d))"
proof
  assume "\<forall>d < n. sint (p ! d) = sint (q ! d)"
  then have "p ! d = q ! d" if "d < n" for d
    using that by (metis word_of_sint)
  then show "p = q" using assms by (intro nth_equalityI) simp_all
qed simp

lemma stencil_move:
  assumes g: "grid_ok g" "good_extent (extent g)" and d: "d < g_dim g"
    and p: "in_extent (extent g) p" "sint (g_guard g ! d) \<le> sint (p ! d)" "sint (p ! d) < uint (g_N g ! d) + sint (g_guard g ! d)"
    and i: "\<bar>i\<bar> \<le> sint (g_guard g ! d)" "\<bar>i\<bar> \<le> 8"
  shows "in_extent (extent g) (p[d := p ! d + word_of_int i])" "sint (p ! d + word_of_int i) = sint (p ! d) + i"
    "col_inc (extent g) d (col_to_linear (extent g) p) (word_of_int i) = col_to_linear (extent g) (p[d := p ! d + word_of_int i])"
proof -
  note o = grid_okD[OF g(1) d] and e = grid_dims(1)[OF g(1) d]
  have l: "length p = length (extent g)" "length (extent g) = g_dim g"
    using in_extent_length[OF p(1)] grid_ok_lengths[OF g(1)] by (simp_all add: extent_def)
  have "sint (word_of_int (sint (p ! d) + i) :: i32) = sint (p ! d) + i"
    using p(2,3) i(1) o(5,6) by (intro sint_of_int32) linarith+
  then show s: "sint (p ! d + word_of_int i) = sint (p ! d) + i" by simp
  have x: "0 \<le> sint (p ! d) + i \<and> sint (p ! d) + i < uint (extent g ! d)"
    using p(2,3) i(1) o(5,6) e by (simp add: extent_def) linarith
  show q: "in_extent (extent g) (p[d := p ! d + word_of_int i])"
    unfolding in_extent_iff[OF trans[OF length_list_update l(1)]]
    using x s in_extent_nth[OF p(1)] l d by (auto simp: nth_list_update)
  show "col_inc (extent g) d (col_to_linear (extent g) p) (word_of_int i) = col_to_linear (extent g) (p[d := p ! d + word_of_int i])"
    using col_inc_moves[OF g(2) _ p(1), of d "word_of_int i"] q d l by (simp add: index_inc_def)
qed

text \<open>A particle whose stencil lies in the array.\<close>

definition roomy :: "nat \<Rightarrow> Grid \<Rightarrow> bool" where
  "roomy n g = (grid_ok g \<and> good_extent (extent g) \<and> g_dim g \<in> {1, 2, 3}
     \<and> (\<forall>d < g_dim g. bs_radius n + 1 \<le> sint (g_guard g ! d)))"

lemma roomyD:
  assumes "roomy n g"
  shows "grid_ok g" "good_extent (extent g)" "g_dim g \<in> {1, 2, 3}" "d < g_dim g \<Longrightarrow> bs_radius n + 1 \<le> sint (g_guard g ! d)"
    "length (extent g) = g_dim g"
  using assms grid_ok_lengths by (simp_all add: roomy_def extent_def)

lemma stencil_radius:
  assumes "i \<in> {i_first n d..i_last n d}"
  shows "\<bar>i\<bar> \<le> bs_radius n + 1" "\<bar>i\<bar> \<le> 8"
  using assms by (auto simp: i_first_def i_last_def bs_radius_def split: if_splits)

lemma in_bound_nth:
  assumes "grid_ok g" "is_in_bound g p" "d < g_dim g"
  shows "sint (g_guard g ! d) \<le> sint (p ! d)" "sint (p ! d) < uint (g_N g ! d) + sint (g_guard g ! d)"
  using assms by (simp_all add: is_in_bound_iff)

text \<open>Which point of the stencil is the node \<open>R\<close>.\<close>

lemma stencil_hits:
  assumes g: "roomy n g" and p: "in_extent (extent g) p" "is_in_bound g p" and r: "in_extent (extent g) r"
    and i: "i \<in> {i_first n a..i_last n a}"
  shows "g_dim g = 1 \<Longrightarrow> (idx_plus (col_to_linear (extent g) p) (word_of_int i) = col_to_linear (extent g) r)
      = (i = sint (r ! 0) - sint (p ! 0))"
    and "j \<in> {i_first n b..i_last n b} \<Longrightarrow> g_dim g = 2 \<Longrightarrow>
      (off2 (col_to_linear (extent g) p) (extent g) j i = col_to_linear (extent g) r)
      = (j = sint (r ! 1) - sint (p ! 1) \<and> i = sint (r ! 0) - sint (p ! 0))"
    and "j \<in> {i_first n b..i_last n b} \<Longrightarrow> k \<in> {i_first n c..i_last n c} \<Longrightarrow> g_dim g = 3 \<Longrightarrow>
      (off3 (col_to_linear (extent g) p) (extent g) k j i = col_to_linear (extent g) r)
      = (k = sint (r ! 2) - sint (p ! 2) \<and> j = sint (r ! 1) - sint (p ! 1) \<and> i = sint (r ! 0) - sint (p ! 0))"
proof -
  note G = roomyD[OF g]
  note mv = stencil_move[OF G(1,2)] and bd = in_bound_nth[OF G(1) p(2)] and gd = G(4)
  have len: "length p = g_dim g" "length r = g_dim g"
    using in_extent_length[OF p(1)] in_extent_length[OF r] G(5) by simp_all
  have w: "\<bar>m\<bar> \<le> sint (g_guard g ! d)" "\<bar>m\<bar> \<le> 8"
    if "m \<in> {i_first n e..i_last n e}" "d < g_dim g" for m e d
    using stencil_radius[OF that(1)] gd[OF that(2)] by linarith+
  show "(idx_plus (col_to_linear (extent g) p) (word_of_int i) = col_to_linear (extent g) r)
      = (i = sint (r ! 0) - sint (p ! 0))" if t: "g_dim g = 1"
  proof -
    have d: "0 < g_dim g" using t by simp
    note m = mv[OF d p(1) bd[OF d] w[OF i d]]
    have "idx_plus (col_to_linear (extent g) p) (word_of_int i) = col_inc (extent g) 0 (col_to_linear (extent g) p) (word_of_int i)"
      using w[OF i d] G(5) t strides_nth[of 0 "extent g"] by (simp add: idx_plus_def col_inc_def woi32_64)
    then show ?thesis
      using colg.lin_eq_iff[OF G(2) m(1) r] m(2,3) len t by (auto simp: index_eq_iff[of _ 1])
  qed
  show "(off2 (col_to_linear (extent g) p) (extent g) j i = col_to_linear (extent g) r)
      = (j = sint (r ! 1) - sint (p ! 1) \<and> i = sint (r ! 0) - sint (p ! 0))"
    if j: "j \<in> {i_first n b..i_last n b}" and t: "g_dim g = 2"
  proof -
    have d: "0 < g_dim g" "1 < g_dim g" using t by simp_all
    note m1 = mv[OF d(2) p(1) bd[OF d(2)] w[OF j d(2)]]
    note m0 = mv[OF d(1) m1(1), of i]
    have b0: "sint (g_guard g ! 0) \<le> sint (p[1 := p ! 1 + word_of_int j] ! 0)"
      "sint (p[1 := p ! 1 + word_of_int j] ! 0) < uint (g_N g ! 0) + sint (g_guard g ! 0)"
      using bd[OF d(1)] by simp_all
    note m0 = m0[OF b0 w[OF i d(1)]]
    let ?p1 = "p[1 := p ! 1 + word_of_int j]"
    let ?p0 = "?p1[0 := ?p1 ! 0 + word_of_int i]"
    have v: "sint (?p0 ! 0) = sint (p ! 0) + i" "sint (?p0 ! 1) = sint (p ! 1) + j"
      using m0(2) m1(2) len t by simp_all
    have "(?p0 = r) = (sint (?p0 ! 0) = sint (r ! 0) \<and> sint (?p0 ! 1) = sint (r ! 1))"
      by (subst index_eq_iff[of _ 2]) (use len t in \<open>simp_all add: all_less_2\<close>)
    then show ?thesis
      unfolding off2_def m1(3) m0(3) colg.lin_eq_iff[OF G(2) m0(1) r] v by linarith
  qed
  show "(off3 (col_to_linear (extent g) p) (extent g) k j i = col_to_linear (extent g) r)
      = (k = sint (r ! 2) - sint (p ! 2) \<and> j = sint (r ! 1) - sint (p ! 1) \<and> i = sint (r ! 0) - sint (p ! 0))"
    if j: "j \<in> {i_first n b..i_last n b}" and k: "k \<in> {i_first n c..i_last n c}" and t: "g_dim g = 3"
  proof -
    have d: "0 < g_dim g" "1 < g_dim g" "2 < g_dim g" using t by simp_all
    let ?p2 = "p[2 := p ! 2 + word_of_int k]"
    let ?p1 = "?p2[1 := ?p2 ! 1 + word_of_int j]"
    note m2 = mv[OF d(3) p(1) bd[OF d(3)] w[OF k d(3)]]
    have b1: "sint (g_guard g ! 1) \<le> sint (?p2 ! 1)" "sint (?p2 ! 1) < uint (g_N g ! 1) + sint (g_guard g ! 1)"
      using bd[OF d(2)] by simp_all
    note m1 = mv[OF d(2) m2(1) b1 w[OF j d(2)]]
    have b0: "sint (g_guard g ! 0) \<le> sint (?p1 ! 0)" "sint (?p1 ! 0) < uint (g_N g ! 0) + sint (g_guard g ! 0)"
      using bd[OF d(1)] by simp_all
    note m0 = mv[OF d(1) m1(1) b0 w[OF i d(1)]]
    have e: "extent g \<noteq> []" "2 \<le> length (extent g)" "length (extent g) = 3" using G(5) t by auto
    have off: "off3 (col_to_linear (extent g) p) (extent g) k j i
        = col_inc (extent g) 0 (col_inc (extent g) 1 (col_inc (extent g) 2 (col_to_linear (extent g) p) (word_of_int k)) (word_of_int j)) (word_of_int i)"
      using inc_z_col[of "extent g"] good_extent_xy[OF G(2)] e by (simp add: off3_def inc_x_col inc_y_col)
    let ?p0 = "?p1[0 := ?p1 ! 0 + word_of_int i]"
    have v: "sint (?p0 ! 0) = sint (p ! 0) + i" "sint (?p0 ! 1) = sint (p ! 1) + j" "sint (?p0 ! 2) = sint (p ! 2) + k"
      using m0(2) m1(2) m2(2) len t by simp_all
    have "(?p0 = r) = (sint (?p0 ! 0) = sint (r ! 0) \<and> sint (?p0 ! 1) = sint (r ! 1) \<and> sint (?p0 ! 2) = sint (r ! 2))"
      by (subst index_eq_iff[of _ 3]) (use len t in \<open>simp_all add: all_less_3\<close>)
    then show ?thesis
      unfolding off m2(3) m1(3) m0(3) colg.lin_eq_iff[OF G(2) m0(1) r] v by linarith
  qed
qed

subsection \<open>The charge a deposit adds\<close>

lemma sum_hit:
  assumes "finite A" "k \<notin> A \<Longrightarrow> F k = (0 :: real)"
  shows "(\<Sum>i\<in>A. if i = k then F i else 0) = F k"
  using assms by (simp add: sum.delta)

lemma sum_if_pair:
  assumes "\<And>i. i \<in> A \<Longrightarrow> Q i = (c \<and> R i)"
  shows "(\<Sum>i\<in>A. if Q i then F i else 0) = (if c then \<Sum>i\<in>A. if R i then F i else (0 :: real) else 0)"
  using assms by (cases c) (auto intro: sum.cong sum.neutral)

lemma sum_if_triple:
  assumes "\<And>i j. i \<in> A \<Longrightarrow> j \<in> B \<Longrightarrow> Q j i = (c \<and> D j \<and> R i)"
  shows "(\<Sum>j\<in>B. \<Sum>i\<in>A. if Q j i then F j i else 0)
    = (if c then \<Sum>j\<in>B. if D j then \<Sum>i\<in>A. if R i then F j i else (0 :: real) else 0 else 0)"
proof -
  have "(\<Sum>i\<in>A. if Q j i then F j i else 0) = (if c \<and> D j then \<Sum>i\<in>A. if R i then F j i else 0 else 0)"
    if "j \<in> B" for j by (rule sum_if_pair) (use assms that in blast)
  then show ?thesis by (cases c) (simp_all cong: sum.cong)
qed

lemma shape1_outside:
  assumes "good_order n" "in_cell D c" "d < D" "i \<notin> {i_first n (pc_dc c ! d)..i_last n (pc_dc c ! d)}"
  shows "shape1 n c d i = 0"
proof -
  note x = in_cellD[OF assms(2,3)]
  have "i - pc_dc c ! d \<notin> {1 - bs_radius n..bs_radius n}"
    using assms(4) x(5) by (auto simp: i_first_def i_last_def)
  from bspline_outside[OF assms(1) far_away[OF this x(3,4)]]
  show ?thesis by (simp add: shape1_def algebra_simps)
qed

definition node_shape :: "nat \<Rightarrow> ptc_context \<Rightarrow> nat \<Rightarrow> index_t \<Rightarrow> index_t \<Rightarrow> scalar" where
  "node_shape n c D p r = (\<Prod>d < D. shape1 n c d (sint (r ! d) - sint (p ! d)))"

lemma prod_dims:
  "(\<Prod>d < 1. f d) = (f (0 :: nat) :: real)" "(\<Prod>d < 2. f d) = f (0 :: nat) * (f 1 :: real)"
  "(\<Prod>d < 3. f d) = f (0 :: nat) * f 1 * (f 2 :: real)"
  by (simp_all add: numeral_2_eq_2 numeral_3_eq_3)

lemma deposit_at_rho:
  assumes g: "roomy n g" "good_order n" and p: "in_extent (extent g) p" "is_in_bound g p"
    and r: "in_extent (extent g) r" and c: "in_cell (g_dim g) c"
  shows "cur_rho_total (deposit_at n dbl c (col_to_linear (extent g) p) (extent g) dt True S) (col_to_linear (extent g) r)
    = cur_rho_total S (col_to_linear (extent g) r) + pc_weight c * node_shape n c (g_dim g) p r"
proof -
  note G = roomyD[OF g(1)]
  let ?k = "\<lambda>d. sint (r ! d) - sint (p ! d)" and ?w = "pc_weight c"
  note out = shape1_outside[OF g(2) c]
  note hit = stencil_hits[OF g(1) p r]
  consider "g_dim g = 1" | "g_dim g = 2" | "g_dim g = 3" using G(3) by auto
  then show ?thesis
  proof cases
    case 1
    have "(\<Sum>i\<in>{fx c n..lx c n}. if idx_plus (col_to_linear (extent g) p) (word_of_int i) = col_to_linear (extent g) r
          then ?w * shape1 n c 0 i else 0)
        = (\<Sum>i\<in>{fx c n..lx c n}. if i = ?k 0 then ?w * shape1 n c 0 i else 0)"
      by (rule sum.cong) (simp_all add: hit(1)[OF _ 1])
    also have "\<dots> = ?w * shape1 n c 0 (?k 0)"
      by (rule sum_hit) (use out[of 0] 1 in auto)
    finally show ?thesis
      using 1 G(5) by (simp add: deposit_at_def deposit1_adds node_shape_def prod_dims(1))
  next
    case 2
    have "(\<Sum>j\<in>{fy c n..ly c n}. \<Sum>i\<in>{fx c n..lx c n}. if off2 (col_to_linear (extent g) p) (extent g) j i = col_to_linear (extent g) r
          then ?w * shape1 n c 0 i * shape1 n c 1 j else 0)
        = (\<Sum>j\<in>{fy c n..ly c n}. if j = ?k 1 then \<Sum>i\<in>{fx c n..lx c n}. if i = ?k 0 then ?w * shape1 n c 0 i * shape1 n c 1 j else 0 else 0)"
      by (rule sum.cong[OF refl], rule sum_if_pair) (rule hit(2)[OF _ _ 2])
    also have "\<dots> = (\<Sum>i\<in>{fx c n..lx c n}. if i = ?k 0 then ?w * shape1 n c 0 i * shape1 n c 1 (?k 1) else 0)"
      by (rule sum_hit) (use out[of 1] 2 in \<open>auto intro!: sum.neutral\<close>)
    also have "\<dots> = ?w * shape1 n c 0 (?k 0) * shape1 n c 1 (?k 1)"
      by (rule sum_hit) (use out[of 0] 2 in auto)
    finally show ?thesis
      using 2 G(5) by (simp add: deposit_at_def deposit2_adds node_shape_def prod_dims(2) del: One_nat_def)
  next
    case 3
    have "(\<Sum>k\<in>{fz c n..lz c n}. \<Sum>j\<in>{fy c n..ly c n}. \<Sum>i\<in>{fx c n..lx c n}.
          if off3 (col_to_linear (extent g) p) (extent g) k j i = col_to_linear (extent g) r
          then ?w * shape1 n c 0 i * shape1 n c 1 j * shape1 n c 2 k else 0)
        = (\<Sum>k\<in>{fz c n..lz c n}. if k = ?k 2 then \<Sum>j\<in>{fy c n..ly c n}. if j = ?k 1 then
            \<Sum>i\<in>{fx c n..lx c n}. if i = ?k 0 then ?w * shape1 n c 0 i * shape1 n c 1 j * shape1 n c 2 k else 0 else 0 else 0)"
      by (rule sum.cong[OF refl], rule sum_if_triple) (rule hit(3)[OF _ _ _ 3])
    also have "\<dots> = (\<Sum>j\<in>{fy c n..ly c n}. if j = ?k 1 then
            \<Sum>i\<in>{fx c n..lx c n}. if i = ?k 0 then ?w * shape1 n c 0 i * shape1 n c 1 j * shape1 n c 2 (?k 2) else 0 else 0)"
      by (rule sum_hit) (use out[of 2] 3 in \<open>auto intro!: sum.neutral\<close>)
    also have "\<dots> = (\<Sum>i\<in>{fx c n..lx c n}. if i = ?k 0 then ?w * shape1 n c 0 i * shape1 n c 1 (?k 1) * shape1 n c 2 (?k 2) else 0)"
      by (rule sum_hit) (use out[of 1] 3 in \<open>auto intro!: sum.neutral\<close>)
    also have "\<dots> = ?w * shape1 n c 0 (?k 0) * shape1 n c 1 (?k 1) * shape1 n c 2 (?k 2)"
      by (rule sum_hit) (use out[of 0] 3 in auto)
    finally show ?thesis
      using 3 G(5) by (simp add: deposit_at_def deposit3_adds node_shape_def prod_dims(3) del: One_nat_def)
  qed
qed

text \<open>The continuity equation of one deposit, with the charge in this form.\<close>

lemma deposit_at_keeps_rho: "cur_rho_total (deposit_at n dbl c idx ext dt False S) x = cur_rho_total S x"
  by (simp add: deposit_at_def deposit_keeps_rho)

definition div_J :: "extent_t \<Rightarrow> currents \<Rightarrow> i64 \<Rightarrow> scalar" where
  "div_J ext S r = (\<Sum>d < length ext. cur_J S d r - cur_J S d (col_dec ext d r 1))"

lemma in_cell_at_rest: "in_cell D c \<Longrightarrow> D \<le> 3 \<Longrightarrow> in_cell D (at_rest c)"
  by (auto simp: in_cell_def list_all_iff) (auto simp: at_rest_def less_Suc_eq numeral_3_eq_3)

lemma div_J_flag:
  assumes "length ext = 1 \<or> length ext = 2"
  shows "div_J ext (deposit_at n dbl c idx ext dt rho S) x = div_J ext (deposit_at n dbl c idx ext dt True S) x"
proof -
  have one: "div_J ext S x = cur_J S 0 x - cur_J S 0 (col_dec ext 0 x 1)" if "length ext = 1" for S
    unfolding div_J_def that by simp
  have two: "div_J ext S x = (cur_J S 0 x - cur_J S 0 (col_dec ext 0 x 1)) + (cur_J S 1 x - cur_J S 1 (col_dec ext 1 x 1))"
    if "length ext = 2" for S
    unfolding div_J_def that by (simp add: numeral_2_eq_2)
  show ?thesis
    using assms
  proof
    assume l: "length ext = 1"
    have "cur_J (deposit1 n c idx dt rho S) 0 y = cur_J (deposit1 n c idx dt True S) 0 y" for y
      unfolding deposit1_adds(1) ..
    then show ?thesis unfolding one[OF l] deposit_at_def if_P[OF l] by simp
  next
    assume l: "length ext = 2"
    then have nl: "length ext \<noteq> 1" by simp
    have "cur_J (deposit2 n c idx ext dt rho S) 0 y = cur_J (deposit2 n c idx ext dt True S) 0 y"
      "cur_J (deposit2 n c idx ext dt rho S) 1 y = cur_J (deposit2 n c idx ext dt True S) 1 y" for y
      unfolding deposit2_adds(1) deposit2_adds(2) by (rule refl)+
    then show ?thesis unfolding two[OF l] deposit_at_def if_not_P[OF nl] if_P[OF l] by simp
  qed
qed

lemma deposit_at_continuity:
  assumes g: "roomy n g" "good_order n" "g_dim g < 3" and p: "in_extent (extent g) p" "is_in_bound g p"
    and r: "in_extent (extent g) r" and c: "in_cell (g_dim g) c" and dt: "dt \<noteq> 0"
  shows "dt * (div_J (extent g) (deposit_at n dbl c (col_to_linear (extent g) p) (extent g) dt rho S) (col_to_linear (extent g) r)
      - div_J (extent g) S (col_to_linear (extent g) r))
    + pc_weight c * (node_shape n c (g_dim g) p r - node_shape n (at_rest c) (g_dim g) p r) = 0"
proof -
  note G = roomyD[OF g(1)]
  note c' = in_cell_at_rest[OF c]
  note dens = deposit_at_rho[OF g(1,2) p r, where dbl = dbl and dt = dt and S = S]
  let ?p = "col_to_linear (extent g) p" and ?r = "col_to_linear (extent g) r"
  consider "g_dim g = 1" | "g_dim g = 2" using G(3) g(3) by auto
  then have "dt * (div_J (extent g) (deposit_at n dbl c ?p (extent g) dt True S) ?r - div_J (extent g) S ?r)
    + pc_weight c * (node_shape n c (g_dim g) p r - node_shape n (at_rest c) (g_dim g) p r) = 0"
  proof cases
    case 1
    have dec: "col_dec (extent g) 0 ?r 1 = ?r - 1"
      using G(5) 1 by (simp add: col_dec_def strides_nth)
    show ?thesis
      using deposit1_conserves[OF g(2) c[unfolded 1] dt, of ?p S ?r] dens[OF c] dens[OF c'] 1 G(5)
      by (simp add: deposit_at_def div_J_def dec right_diff_distrib)
  next
    case 2
    then show ?thesis
      using deposit2_conserves[OF g(2) c[unfolded 2] dt, of ?p "extent g" S ?r] dens[OF c] dens[OF c'] 2 G(5)
      by (simp add: deposit_at_def div_J_def numeral_2_eq_2 algebra_simps)
  qed
  moreover have "length (extent g) = 1 \<or> length (extent g) = 2" using G(3,5) g(3) by auto
  ultimately show ?thesis using div_J_flag[where rho = rho] by simp
qed

subsection \<open>One particle of the loop\<close>

lemma cell_of_pos:
  assumes "good_extent ext" "in_extent ext p" "ucast (col_to_linear ext p) = (c :: u32)"
  shows "ucast c = col_to_linear ext p" "c \<noteq> empty_cell"
proof -
  have b: "0 \<le> sint (col_to_linear ext p)" "sint (col_to_linear ext p) < 2 ^ 31"
    using colg.lin_bounds[OF assms(1,2)] assms(1) unfolding good_extent_def by linarith+
  then have "sint (col_to_linear ext p) < 2 ^ 32" by (elim less_trans) simp
  then show u: "ucast c = col_to_linear ext p" using ucast_cell[OF b(1)] assms(3) by simp
  show "c \<noteq> empty_cell"
  proof
    assume "c = empty_cell"
    moreover have "(ucast (- 1 :: u32) :: i64) = word_of_int (2 ^ 32 - 1)" by (simp add: word_uint_eq_iff unsigned_ucast_eq unsigned_minus_1_eq_mask mask_eq_exp_minus_1)
    ultimately have "col_to_linear ext p = word_of_int (2 ^ 32 - 1)" using u by (simp only: empty_cell_def)
    moreover have "sint (word_of_int (2 ^ 32 - 1) :: i64) = 2 ^ 32 - 1" by (rule sint_of_int64) simp_all
    ultimately show False using b(2) by simp
  qed
qed

definition moved :: "pusher \<Rightarrow> nat \<Rightarrow> Grid \<Rightarrow> scalar \<Rightarrow> updater \<Rightarrow> single_ptc_t \<Rightarrow> single_ptc_t" where
  "moved push n g dt s q =
     (if cell q = empty_cell then q
      else let (c, pos) = push_context push ptc_physics_policy_empty n g dt s q in store_context g c pos q)"

text \<open>The conditions of a step on one rank.\<close>

definition step_ok :: "pusher \<Rightarrow> nat \<Rightarrow> Grid \<Rightarrow> scalar \<Rightarrow> bool" where
  "step_ok push n g dt = (code_pusher push \<and> roomy n g \<and> good_order n \<and> 0 < dt \<and> (\<forall>d < g_dim g. dt \<le> g_delta g ! d))"

lemma step_okD:
  assumes "step_ok push n g dt"
  shows "code_pusher push" "roomy n g" "good_order n" "0 < dt" "\<forall>d < g_dim g. dt \<le> g_delta g ! d"
    "grid_ok g" "good_extent (extent g)" "g_dim g \<in> {1, 2, 3}" "length (extent g) = g_dim g" "0 \<le> dt" "dt \<noteq> 0"
  using assms roomyD[of n g] by (simp_all add: step_ok_def)

lemma prod_eqI: "(\<And>d. d < n \<Longrightarrow> f d = g d) \<Longrightarrow> prod f {..<n} = prod g {..<(n :: nat)}"
  by (rule prod.cong) simp_all

lemma moved_facts:
  assumes ok: "step_ok push n g dt" and q: "ptc_ready g q"
    and e: "push_context push ptc_physics_policy_empty n g dt s q = (c, pos)"
  shows "ptc_placed g (store_context g c pos q)" "live (store_context g c pos q)" "in_cell (g_dim g) c"
    "ucast (cell q) = col_to_linear (extent g) (ptc_pos g q)" "live q"
    "in_extent (extent g) (ptc_pos g q)" "is_in_bound g (ptc_pos g q)"
    "pc_weight c * node_shape n c (g_dim g) (ptc_pos g q) r
      = ptc_charge (pu_charges s) q * ptc_shape n g (store_context g c pos q) r"
    "pc_weight c * node_shape n (at_rest c) (g_dim g) (ptc_pos g q) r = ptc_charge (pu_charges s) q * ptc_shape n g q r"
    "pc_flag c = flag q" "pc_sp c = unat (get_ptc_type (flag q))"
proof -
  note o = step_okD[OF ok] and G = roomyD[OF step_okD(2)[OF ok]]
  have pl: "ptc_placed g q" and bd: "is_in_bound g (ptc_pos g q)" using q by (simp_all add: ptc_ready_def)
  note f = push_context_facts[OF pl o(6,8,1,10,5) e]
  show "in_cell (g_dim g) c" "pc_flag c = flag q" "pc_sp c = unat (get_ptc_type (flag q))" by (rule f)+
  have P: "in_extent (extent g) (ptc_pos g q)" "ucast (col_to_linear (extent g) (ptc_pos g q)) = cell q"
    using pl by (simp_all add: ptc_placed_def)
  show "in_extent (extent g) (ptc_pos g q)" "is_in_bound g (ptc_pos g q)" by (rule P bd)+
  show "ucast (cell q) = col_to_linear (extent g) (ptc_pos g q)" "live q"
    using cell_of_pos[OF o(7) P] by (simp_all add: live_def)
  have D3: "g_dim g \<le> 3" using o(8) by auto
  have sp: "sint (pos ! d) = sint (ptc_pos g q ! d) + pc_dc c ! d" if t: "d < g_dim g" for d
  proof -
    have b1: "1 \<le> sint (g_guard g ! d)" using G(4)[OF t] by (simp add: bs_radius_def split: if_splits)
    have "\<bar>pc_dc c ! d\<bar> \<le> 1" using f(10)[OF t] by linarith
    then have b: "\<bar>pc_dc c ! d\<bar> \<le> sint (g_guard g ! d)" "\<bar>pc_dc c ! d\<bar> \<le> 8" using b1 by linarith+
    show ?thesis
      unfolding f(8)[OF t] by (rule stencil_move(2)[OF o(6,7) t P(1) in_bound_nth[OF o(6) bd t] b])
  qed
  have pos: "in_extent (extent g) pos"
  proof -
    have "0 \<le> sint (pos ! d) \<and> sint (pos ! d) < uint (extent g ! d)" if t: "d < g_dim g" for d
      using sp[OF t] f(10)[OF t] in_bound_nth[OF o(6) bd t] grid_dims(1)[OF o(6) t] G(4)[OF t]
      by (simp add: extent_def bs_radius_def split: if_splits)
    then show ?thesis using f(6) o(9) by (simp add: in_extent_iff)
  qed
  have q': "ptc_pos g (store_context g c pos q) = pos"
    using cell_roundtrip[OF o(7) pos] by (simp add: ptc_pos_def store_context_def)
  have x': "ptc_x (store_context g c pos q) ! d = pc_new_x c ! d" if "d < g_dim g" for d
  proof -
    have "d = 0 \<or> d = 1 \<or> d = 2" using that D3 by linarith
    then show ?thesis by (auto simp: ptc_x_def store_context_def)
  qed
  show "ptc_placed g (store_context g c pos q)"
    using pos f(7,9) x' unfolding ptc_placed_def q' by (simp add: store_context_def)
  show "live (store_context g c pos q)"
    using cell_of_pos(2)[OF o(7) pos refl] by (simp add: live_def store_context_def)
  show "pc_weight c * node_shape n c (g_dim g) (ptc_pos g q) r
      = ptc_charge (pu_charges s) q * ptc_shape n g (store_context g c pos q) r"
    unfolding node_shape_def ptc_shape_def q' f(2)
    by (intro arg_cong2[where f = "(*)"] refl prod_eqI) (simp add: shape1_def x' sp algebra_simps)
  show "pc_weight c * node_shape n (at_rest c) (g_dim g) (ptc_pos g q) r = ptc_charge (pu_charges s) q * ptc_shape n g q r"
    unfolding node_shape_def ptc_shape_def f(2)
    by (intro arg_cong2[where f = "(*)"] refl prod_eqI)
       (use D3 in \<open>simp add: shape1_at_rest shape0_def f(4) algebra_simps\<close>)
qed

definition ptc_ok :: "Grid \<Rightarrow> updater \<Rightarrow> single_ptc_t \<Rightarrow> bool" where
  "ptc_ok g s q = (live q \<longrightarrow> ptc_ready g q
     \<and> (deposits (flag q) \<longrightarrow> unat (get_ptc_type (flag q)) < unat (pu_num_species s)))"

lemma store_context_simps [simp]:
  "flag (store_context g c pos q) = flag q" "weight (store_context g c pos q) = weight q"
  by (simp_all add: store_context_def)

lemma update_one_effect:
  assumes ok: "step_ok push n g dt" "ptc_ok g s q"
  shows "\<exists>S'. update_one push ptc_physics_policy_empty n dbl g dt rho s q S = Some (moved push n g dt s q, S')
    \<and> (\<forall>r. in_extent (extent g) r \<longrightarrow>
        cur_rho_total S' (col_to_linear (extent g) r)
          = cur_rho_total S (col_to_linear (extent g) r)
            + (if rho then ptc_density n g (pu_charges s) (moved push n g dt s q) r else 0)
        \<and> (g_dim g < 3 \<longrightarrow>
            dt * (div_J (extent g) S' (col_to_linear (extent g) r) - div_J (extent g) S (col_to_linear (extent g) r))
            + (ptc_density n g (pu_charges s) (moved push n g dt s q) r - ptc_density n g (pu_charges s) q r) = 0))"
proof (cases "live q")
  case False
  then show ?thesis
    by (intro exI[of _ S]) (simp add: update_one_def moved_def live_def ptc_density_def)
next
  case True
  obtain c pos where e: "push_context push ptc_physics_policy_empty n g dt s q = (c, pos)"
    by (cases "push_context push ptc_physics_policy_empty n g dt s q")
  have rdy: "ptc_ready g q" using ok(2) True by (simp add: ptc_ok_def)
  note f = moved_facts[OF ok(1) rdy e] and o = step_okD[OF ok(1)]
  let ?q = "store_context g c pos q"
  have m: "moved push n g dt s q = ?q" using True e by (simp add: moved_def live_def)
  show ?thesis
  proof (cases "deposits (flag q)")
    case False
    have "update_one push ptc_physics_policy_empty n dbl g dt rho s q S = Some (?q, S)"
      using False True e f(10) by (simp add: update_one_def live_def)
    then show ?thesis using False by (intro exI[of _ S]) (simp add: m ptc_density_def)
  next
    case dep: True
    let ?S = "deposit_at n dbl c (col_to_linear (extent g) (ptc_pos g q)) (extent g) dt rho S"
    have u: "update_one push ptc_physics_policy_empty n dbl g dt rho s q S = Some (?q, ?S)"
      using dep True e f(4,10,11) ok(2) by (simp add: update_one_def live_def ptc_ok_def)
    have d: "ptc_density n g (pu_charges s) ?q r = pc_weight c * node_shape n c (g_dim g) (ptc_pos g q) r"
      "ptc_density n g (pu_charges s) q r = pc_weight c * node_shape n (at_rest c) (g_dim g) (ptc_pos g q) r" for r
      using f(2,5,8,9) dep by (simp_all add: ptc_density_def ptc_charge_def)
    show ?thesis
      unfolding u m d
      using deposit_at_rho[OF o(2,3) f(6,7) _ f(3)] deposit_at_keeps_rho deposit_at_continuity[OF o(2,3) _ f(6,7) _ f(3) o(11)]
      by (intro exI[of _ ?S]) (cases rho; simp add: right_diff_distrib)
  qed
qed

subsection \<open>The loop over the particles\<close>

lemma update_loop_effect:
  assumes ok: "step_ok push n g dt" and "distinct ks" "\<forall>k \<in> set ks. k < length d \<and> ptc_ok g s (d ! k)"
  shows "\<exists>d' S'. update_loop push ptc_physics_policy_empty n dbl g dt rho s ks (d, S) = Some (d', S') \<and> length d' = length d
    \<and> (\<forall>k. d' ! k = (if k \<in> set ks then moved push n g dt s (d ! k) else d ! k))
    \<and> (\<forall>r. in_extent (extent g) r \<longrightarrow>
        cur_rho_total S' (col_to_linear (extent g) r)
          = cur_rho_total S (col_to_linear (extent g) r)
            + (if rho then \<Sum>k\<leftarrow>ks. ptc_density n g (pu_charges s) (moved push n g dt s (d ! k)) r else 0)
        \<and> (g_dim g < 3 \<longrightarrow>
            dt * (div_J (extent g) S' (col_to_linear (extent g) r) - div_J (extent g) S (col_to_linear (extent g) r))
            + ((\<Sum>k\<leftarrow>ks. ptc_density n g (pu_charges s) (moved push n g dt s (d ! k)) r)
               - (\<Sum>k\<leftarrow>ks. ptc_density n g (pu_charges s) (d ! k) r)) = 0))"
  using assms(2,3)
proof (induction ks arbitrary: d S)
  case (Cons k ks)
  let ?q = "moved push n g dt s (d ! k)"
  obtain S1 where one: "update_one push ptc_physics_policy_empty n dbl g dt rho s (d ! k) S = Some (?q, S1)"
    and r1: "\<forall>r. in_extent (extent g) r \<longrightarrow>
        cur_rho_total S1 (col_to_linear (extent g) r) = cur_rho_total S (col_to_linear (extent g) r)
          + (if rho then ptc_density n g (pu_charges s) ?q r else 0)
        \<and> (g_dim g < 3 \<longrightarrow>
            dt * (div_J (extent g) S1 (col_to_linear (extent g) r) - div_J (extent g) S (col_to_linear (extent g) r))
            + (ptc_density n g (pu_charges s) ?q r - ptc_density n g (pu_charges s) (d ! k) r) = 0)"
    using update_one_effect[OF ok, of s "d ! k" dbl rho S] Cons.prems(2) by auto
  have k: "k < length d" "k \<notin> set ks" "distinct ks" using Cons.prems by simp_all
  have "\<forall>l \<in> set ks. l < length (d[k := ?q]) \<and> ptc_ok g s (d[k := ?q] ! l)"
    using Cons.prems by (auto simp: nth_list_update)
  from Cons.IH[OF k(3) this, of S1] obtain d' S' where
    rec: "update_loop push ptc_physics_policy_empty n dbl g dt rho s ks (d[k := ?q], S1) = Some (d', S')" "length d' = length d"
    and d': "\<forall>l. d' ! l = (if l \<in> set ks then moved push n g dt s (d[k := ?q] ! l) else d[k := ?q] ! l)"
    and r2: "\<forall>r. in_extent (extent g) r \<longrightarrow>
        cur_rho_total S' (col_to_linear (extent g) r) = cur_rho_total S1 (col_to_linear (extent g) r)
          + (if rho then \<Sum>l\<leftarrow>ks. ptc_density n g (pu_charges s) (moved push n g dt s (d[k := ?q] ! l)) r else 0)
        \<and> (g_dim g < 3 \<longrightarrow>
            dt * (div_J (extent g) S' (col_to_linear (extent g) r) - div_J (extent g) S1 (col_to_linear (extent g) r))
            + ((\<Sum>l\<leftarrow>ks. ptc_density n g (pu_charges s) (moved push n g dt s (d[k := ?q] ! l)) r)
               - (\<Sum>l\<leftarrow>ks. ptc_density n g (pu_charges s) (d[k := ?q] ! l) r)) = 0)"
    by auto
  have same: "map (\<lambda>l. F (d[k := ?q] ! l)) ks = map (\<lambda>l. F (d ! l)) ks" for F :: "single_ptc_t \<Rightarrow> real"
    using k(2) by (intro map_cong[OF refl]) (metis nth_list_update_neq)
  have one': "update_loop push ptc_physics_policy_empty n dbl g dt rho s (k # ks) (d, S) = Some (d', S')"
    using k(1) one rec(1) by simp
  have "d' ! l = (if l \<in> set (k # ks) then moved push n g dt s (d ! l) else d ! l)" for l
    using d' k by (auto simp: nth_list_update)
  then show ?case
    using one' rec(2) r1 r2
    unfolding same[of "\<lambda>q. ptc_density n g (pu_charges s) (moved push n g dt s q) r" for r]
      same[of "\<lambda>q. ptc_density n g (pu_charges s) q r" for r]
    by (intro exI[of _ d'] exI[of _ S']) (cases rho; auto simp: algebra_simps)
qed simp

subsection \<open>The whole update\<close>

lemma process_J_Rho_point:
  "cur_J (process_J_Rho g S) d r
    = (if uint r < uint (extent_size (extent g)) \<and> d < g_dim g then cur_J S d r * g_delta g ! d else cur_J S d r)"
  "cur_rho_total (process_J_Rho g S) = cur_rho_total S"
proof -
  let ?step = "\<lambda>idx S i. S\<lparr>cur_J := (cur_J S)(i := (cur_J S i)(idx := cur_J S i idx * g_delta g ! i))\<rparr>"
  have J: "cur_J (foldl (?step idx) S [0..<m]) = (\<lambda>c x. if c < m \<and> x = idx then cur_J S c x * g_delta g ! c else cur_J S c x)"
    for idx S m
  proof (induction m)
    case (Suc m)
    then show ?case by (auto simp: fun_eq_iff less_Suc_eq)
  qed simp
  have R: "cur_rho_total (foldl (?step idx) S is) = cur_rho_total S" for idx S "is"
    by (induction "is" arbitrary: S) auto
  let ?h = "\<lambda>idx J c x. if c < g_dim g \<and> x = idx then J c x * g_delta g ! c else J c x"
  have h: "cur_J (process_J_Rho g S) = host_loop (extent g) ?h (cur_J S)"
    unfolding process_J_Rho_def by (rule host_loop_proj) (rule J)
  have "host_loop (extent g) ?h (cur_J S) d r
      = (if uint r < uint (extent_size (extent g)) then if d < g_dim g then cur_J S d r * g_delta g ! d else cur_J S d r else cur_J S d r)"
    by (rule host_loop_pointwise[where G = "\<lambda>idx v c. if c < g_dim g then v c * g_delta g ! c else v c"]) auto
  then show "cur_J (process_J_Rho g S) d r
    = (if uint r < uint (extent_size (extent g)) \<and> d < g_dim g then cur_J S d r * g_delta g ! d else cur_J S d r)"
    unfolding h by simp
  have "cur_rho_total (process_J_Rho g S) = host_loop (extent g) (\<lambda>idx f. f) (cur_rho_total S)"
    unfolding process_J_Rho_def by (rule host_loop_proj) (rule R)
  moreover have "host_loop ext (\<lambda>idx f. f) f = f" for ext and f :: field
  proof -
    have "foldl (\<lambda>S i. S) f is = f" for "is" :: "nat list" by (induction "is") simp_all
    then show ?thesis by (simp add: host_loop_def)
  qed
  ultimately show "cur_rho_total (process_J_Rho g S) = cur_rho_total S" by simp
qed

text \<open>The state before a step: every live particle is inside the grid, on its mass shell and in its cell.\<close>

definition updater_ok :: "pusher \<Rightarrow> nat \<Rightarrow> Grid \<Rightarrow> scalar \<Rightarrow> updater \<Rightarrow> bool" where
  "updater_ok push n g dt s = (step_ok push n g dt \<and> m_number (pu_ptc s) \<le> length (data (pu_ptc s))
     \<and> m_number (pu_ptc s) < 2 ^ 31 \<and> list_all (ptc_ok g s) (take (m_number (pu_ptc s)) (data (pu_ptc s))))"

text \<open>The charge density of the particles of the updater.\<close>

definition updater_density :: "nat \<Rightarrow> Grid \<Rightarrow> updater \<Rightarrow> index_t \<Rightarrow> scalar" where
  "updater_density n g s = charge_density n g (pu_charges s) (take (m_number (pu_ptc s)) (data (pu_ptc s)))"

text \<open>The divergence of the current as the fields store it, on the cell spacing of the grid.\<close>

definition current_div :: "Grid \<Rightarrow> vfield \<Rightarrow> index_t \<Rightarrow> scalar" where
  "current_div g J r = (\<Sum>d < g_dim g. (J d (col_to_linear (extent g) r)
      - J d (col_to_linear (extent g) (r[d := r ! d - 1]))) / g_delta g ! d)"

lemma charge_density_nth:
  "m \<le> length d \<Longrightarrow> charge_density n g charges (take m d) r = (\<Sum>k\<leftarrow>[0..<m]. ptc_density n g charges (d ! k) r)"
proof -
  assume "m \<le> length d"
  then have "take m d = map ((!) d) [0..<m]" by (intro nth_equalityI) simp_all
  then show ?thesis by (simp add: charge_density_def comp_def)
qed

lemma update_one_cur: "update_one push phys n dbl g dt rho (s\<lparr>pu_cur := C\<rparr>) q S = update_one push phys n dbl g dt rho s q S"
  by (simp add: update_one_def push_context_def split: prod.split)

lemma foldl_fixed: "(\<And>i. h S i = S) \<Longrightarrow> foldl h S is = S"
  by (induction "is") simp_all

lemma update_loop_cur:
  "update_loop push phys n dbl g dt rho (s\<lparr>pu_cur := C\<rparr>) ks st = update_loop push phys n dbl g dt rho s ks st"
proof (induction ks arbitrary: st)
  case (Cons k ks)
  then show ?case by (cases st) (simp add: update_one_cur)
qed simp

lemma process_zero: "process_J_Rho g zero_currents = zero_currents"
  unfolding process_J_Rho_def host_loop_def
  by (intro foldl_fixed) (simp add: zero_currents_def fun_eq_iff)

lemma update_particles_effect:
  assumes ok: "updater_ok push n g dt s" and iv: "pu_rho_interval s \<noteq> 0"
  shows "\<exists>d' S'. update_particles push ptc_physics_policy_empty n dbl g dt step s
      = Some (s\<lparr>pu_ptc := (pu_ptc s)\<lparr>data := d'\<rparr>, pu_cur := process_J_Rho g S'\<rparr>) \<and> length d' = length (data (pu_ptc s))
    \<and> (\<forall>k. d' ! k = (if k < m_number (pu_ptc s) then moved push n g dt s (data (pu_ptc s) ! k) else data (pu_ptc s) ! k))
    \<and> (\<forall>r. in_extent (extent g) r \<longrightarrow>
        cur_rho_total S' (col_to_linear (extent g) r) = (if step mod pu_rho_interval s = 0
          then charge_density n g (pu_charges s) (take (m_number (pu_ptc s)) d') r else 0)
        \<and> (g_dim g < 3 \<longrightarrow> dt * div_J (extent g) S' (col_to_linear (extent g) r)
            = updater_density n g s r - charge_density n g (pu_charges s) (take (m_number (pu_ptc s)) d') r))"
proof -
  let ?m = "m_number (pu_ptc s)" and ?d = "data (pu_ptc s)" and ?s = "s\<lparr>pu_cur := zero_currents\<rparr>"
    and ?rho = "step mod pu_rho_interval s = 0"
  have st: "step_ok push n g dt" and m: "?m \<le> length ?d" "?m < 2 ^ 31"
    and q: "\<forall>k \<in> set [0..<?m]. k < length ?d \<and> ptc_ok g s (?d ! k)"
    using ok by (auto simp: updater_ok_def list_all_length)
  obtain d' S' where u: "update_loop push ptc_physics_policy_empty n dbl g dt ?rho s [0..<?m] (?d, zero_currents) = Some (d', S')"
    and d': "length d' = length ?d" "\<forall>k. d' ! k = (if k \<in> set [0..<?m] then moved push n g dt s (?d ! k) else ?d ! k)"
    and r: "\<forall>r. in_extent (extent g) r \<longrightarrow>
        cur_rho_total S' (col_to_linear (extent g) r) = cur_rho_total zero_currents (col_to_linear (extent g) r)
          + (if ?rho then \<Sum>k\<leftarrow>[0..<?m]. ptc_density n g (pu_charges s) (moved push n g dt s (?d ! k)) r else 0)
        \<and> (g_dim g < 3 \<longrightarrow>
            dt * (div_J (extent g) S' (col_to_linear (extent g) r) - div_J (extent g) zero_currents (col_to_linear (extent g) r))
            + ((\<Sum>k\<leftarrow>[0..<?m]. ptc_density n g (pu_charges s) (moved push n g dt s (?d ! k)) r)
               - (\<Sum>k\<leftarrow>[0..<?m]. ptc_density n g (pu_charges s) (?d ! k) r)) = 0)"
    using update_loop_effect[OF st distinct_upt q, of dbl ?rho zero_currents] by blast
  have new: "(\<Sum>k\<leftarrow>[0..<?m]. ptc_density n g (pu_charges s) (moved push n g dt s (?d ! k)) r)
      = charge_density n g (pu_charges s) (take ?m d') r" for r
    using m d' unfolding charge_density_nth[of ?m d', unfolded d'(1), OF m(1)]
    by (intro arg_cong[where f = sum_list] map_cong refl) simp
  have old: "(\<Sum>k\<leftarrow>[0..<?m]. ptc_density n g (pu_charges s) (?d ! k) r) = updater_density n g s r" for r
    using m by (simp add: updater_density_def charge_density_nth)
  have z: "div_J (extent g) zero_currents x = 0" "cur_rho_total zero_currents x = 0" for x
    by (simp_all add: div_J_def zero_currents_def)
  have "update_particles push ptc_physics_policy_empty n dbl g dt step s
      = Some (s\<lparr>pu_ptc := (pu_ptc s)\<lparr>data := d'\<rparr>, pu_cur := process_J_Rho g S'\<rparr>)"
  proof (cases "?m = 0")
    case True
    then have "d' = ?d" "S' = zero_currents" using u by simp_all
    then show ?thesis
      using True by (simp add: update_particles_def update_particles_range_def size_sub_def process_zero)
  next
    case False
    have "?m < 2 ^ 64" using m(2) by simp
    then have "size_sub ?m 0 \<noteq> 0" using False by (simp add: size_sub_def)
    then show ?thesis
      using iv u by (simp add: update_particles_def update_particles_range_def update_loop_cur Let_def)
  qed
  then show ?thesis
    using d' r unfolding new old z diff_0_right add_0 set_upt
    by (intro exI[of _ d'] exI[of _ S'] conjI allI impI) (auto simp del: One_nat_def)
qed

text \<open>Clearing the guard cells.\<close>

lemma foldl_update_each:
  "m \<le> length d \<Longrightarrow> length (foldl (\<lambda>d k. d[k := F (d ! k)]) d [0..<m]) = length d
    \<and> (\<forall>k. foldl (\<lambda>d k. d[k := F (d ! k)]) d [0..<m] ! k = (if k < m then F (d ! k) else d ! k))"
  by (induction m) (auto simp: nth_list_update less_Suc_eq)

lemma clear_guard_effect:
  assumes "m_number p \<le> length (data p)" "m_number p < 2 ^ 31"
  shows "\<exists>d. clear_guard_ptc g p = Some (p\<lparr>data := d\<rparr>) \<and> length d = length (data p)
    \<and> (\<forall>k < m_number p. d ! k = clear_one g (data p ! k))"
proof -
  have "size_to_int (m_number p) = int (m_number p)"
    using assms(2) sint_of_int32[of "int (m_number p)"] by (simp add: size_to_int_def)
  then show ?thesis
    using assms foldl_update_each[OF assms(1), of "clear_one g"]
    by (intro exI[of _ "foldl (\<lambda>d k. d[k := clear_one g (d ! k)]) (data p) [0..<m_number p]"])
       (simp add: clear_guard_ptc_def)
qed

lemma clear_moved_ok:
  assumes st: "step_ok push n g dt" and q: "ptc_ok g s q"
  shows "ptc_ok g s (clear_one g (moved push n g dt s q))"
proof (cases "live q")
  case False
  then show ?thesis by (simp add: clear_one_def moved_def live_def ptc_ok_def)
next
  case True
  obtain c pos where e: "push_context push ptc_physics_policy_empty n g dt s q = (c, pos)"
    by (cases "push_context push ptc_physics_policy_empty n g dt s q")
  have "ptc_ready g q" using q True by (simp add: ptc_ok_def)
  note f = moved_facts[OF st this e]
  have m: "moved push n g dt s q = store_context g c pos q" using True e by (simp add: moved_def live_def)
  show ?thesis
    using f(1,2) q True unfolding m
    by (auto simp: clear_one_def ptc_ok_def live_def ptc_ready_def ptc_pos_def[symmetric])
qed

lemma current_div_eq:
  assumes ok: "step_ok push n g dt" and r: "in_extent (extent g) r" "\<forall>d < g_dim g. 1 \<le> sint (r ! d)"
  shows "current_div g (cur_J (process_J_Rho g S)) r = div_J (extent g) S (col_to_linear (extent g) r)"
proof -
  note o = step_okD[OF ok]
  have "(cur_J (process_J_Rho g S) d (col_to_linear (extent g) r)
        - cur_J (process_J_Rho g S) d (col_to_linear (extent g) (r[d := r ! d - 1]))) / g_delta g ! d
      = cur_J S d (col_to_linear (extent g) r) - cur_J S d (col_dec (extent g) d (col_to_linear (extent g) r) 1)"
    if d: "d < g_dim g" for d
  proof -
    have l: "length r = g_dim g" using in_extent_length[OF r(1)] o(9) by simp
    have "sint (r ! d + word_of_int (- 1)) = sint (r ! d) + - 1"
    proof -
      have "sint (word_of_int (sint (r ! d) + - 1) :: i32) = sint (r ! d) + - 1"
        using r(2) d sint32_lt[of "r ! d"] by (intro sint_of_int32) (force, linarith)
      then show ?thesis by simp
    qed
    then have m: "sint (r ! d - 1) = sint (r ! d) - 1" by simp
    have q: "in_extent (extent g) (r[d := r ! d - 1])"
      using in_extent_nth[OF r(1)] m r(2) d l o(9)
      by (subst in_extent_iff) (auto simp: nth_list_update less_trans[OF _ conjunct2[OF in_extent_nth[OF r(1)]]])
    have dec: "col_dec (extent g) d (col_to_linear (extent g) r) 1 = col_to_linear (extent g) (r[d := r ! d - 1])"
      using d o(9) q by (intro col_dec_moves[OF o(7) _ r(1)]) simp_all
    show ?thesis
      using d grid_okD(1)[OF o(6) d] lin_less[OF o(7) r(1)] lin_less[OF o(7) q]
      by (simp add: process_J_Rho_point dec left_diff_distrib[symmetric])
  qed
  then show ?thesis using o(9) by (simp add: current_div_def div_J_def)
qed

text \<open>A step of the particles followed by the clearing of the guard cells.\<close>

lemma update_and_clear:
  assumes "updater_ok push n g dt s" "pu_rho_interval s \<noteq> 0"
  shows "\<exists>s' d' e. update_particles push ptc_physics_policy_empty n dbl g dt step s = Some s'
    \<and> s' = s\<lparr>pu_ptc := (pu_ptc s)\<lparr>data := d'\<rparr>, pu_cur := pu_cur s'\<rparr> \<and> length d' = length (data (pu_ptc s))
    \<and> (\<forall>k < m_number (pu_ptc s). d' ! k = moved push n g dt s (data (pu_ptc s) ! k))
    \<and> clear_guard_ptc g (pu_ptc s') = Some ((pu_ptc s)\<lparr>data := e\<rparr>) \<and> length e = length (data (pu_ptc s))
    \<and> (\<forall>k < m_number (pu_ptc s). e ! k = clear_one g (d' ! k))
    \<and> updater_ok push n g dt (s'\<lparr>pu_ptc := (pu_ptc s)\<lparr>data := e\<rparr>\<rparr>)
    \<and> (\<forall>r. in_extent (extent g) r \<longrightarrow>
        cur_rho_total (pu_cur s') (col_to_linear (extent g) r)
          = (if step mod pu_rho_interval s = 0 then updater_density n g s' r else 0)
        \<and> (g_dim g < 3 \<and> (\<forall>d < g_dim g. 1 \<le> sint (r ! d)) \<longrightarrow>
            updater_density n g s' r - updater_density n g s r = - dt * current_div g (cur_J (pu_cur s')) r))"
proof -
  let ?m = "m_number (pu_ptc s)"
  obtain d' S' where u: "update_particles push ptc_physics_policy_empty n dbl g dt step s
      = Some (s\<lparr>pu_ptc := (pu_ptc s)\<lparr>data := d'\<rparr>, pu_cur := process_J_Rho g S'\<rparr>)"
    and len: "length d' = length (data (pu_ptc s))"
    and d': "\<forall>k. d' ! k = (if k < ?m then moved push n g dt s (data (pu_ptc s) ! k) else data (pu_ptc s) ! k)"
    and r: "\<forall>r. in_extent (extent g) r \<longrightarrow>
        cur_rho_total S' (col_to_linear (extent g) r)
          = (if step mod pu_rho_interval s = 0 then charge_density n g (pu_charges s) (take ?m d') r else 0)
        \<and> (g_dim g < 3 \<longrightarrow> dt * div_J (extent g) S' (col_to_linear (extent g) r)
            = updater_density n g s r - charge_density n g (pu_charges s) (take ?m d') r)"
    using update_particles_effect[OF assms, of dbl] by blast
  let ?s = "s\<lparr>pu_ptc := (pu_ptc s)\<lparr>data := d'\<rparr>, pu_cur := process_J_Rho g S'\<rparr>"
  have st: "step_ok push n g dt" and m: "?m \<le> length d'" "?m < 2 ^ 31"
    and q: "\<And>k. k < ?m \<Longrightarrow> ptc_ok g s (data (pu_ptc s) ! k)"
    using assms(1) len by (auto simp: updater_ok_def list_all_length)
  obtain e where e: "clear_guard_ptc g (pu_ptc ?s) = Some ((pu_ptc ?s)\<lparr>data := e\<rparr>)" "length e = length d'"
    "\<forall>k < ?m. e ! k = clear_one g (d' ! k)"
    using clear_guard_effect[of "pu_ptc ?s" g] m by auto
  have "ptc_ok g s (e ! k)" if "k < ?m" for k
    using e(3) d' that clear_moved_ok[OF st q[OF that]] by simp
  then have up: "updater_ok push n g dt (?s\<lparr>pu_ptc := (pu_ptc s)\<lparr>data := e\<rparr>\<rparr>)"
    using st m e(2) by (simp add: updater_ok_def list_all_length ptc_ok_def)
  have cl: "clear_guard_ptc g (pu_ptc ?s) = Some ((pu_ptc s)\<lparr>data := e\<rparr>)" "length e = length (data (pu_ptc s))"
    using e(1,2) len by simp_all
  have "\<forall>r. in_extent (extent g) r \<longrightarrow> cur_rho_total (pu_cur ?s) (col_to_linear (extent g) r)
          = (if step mod pu_rho_interval s = 0 then updater_density n g ?s r else 0)
        \<and> (g_dim g < 3 \<and> (\<forall>d < g_dim g. 1 \<le> sint (r ! d)) \<longrightarrow>
            updater_density n g ?s r - updater_density n g s r = - dt * current_div g (cur_J (pu_cur ?s)) r)"
    using r current_div_eq[OF st] by (simp add: updater_density_def process_J_Rho_point)
  then show ?thesis
    using u len d' cl e(3) up by (intro exI[of _ ?s] exI[of _ d'] exI[of _ e]) simp
qed

subsection \<open>Properties\<close>

text \<open>
  C2.  A step of the particles conserves charge.  Started with every live particle inside
  its cell and on its mass shell, and with \<open>rho_interval\<close> not zero, \<open>update_particles\<close>
  returns.  When the step is a multiple of \<open>rho_interval\<close>, which is \<open>fld_output_interval\<close> unless
  set, \<open>Rho_total\<close> is the density of the moved particles, a sum of splines over their
  positions, at every node of the grid; in other steps no charge is deposited and \<open>Rho_total\<close>
  is left zero.  In every step, in one and two dimensions and at the nodes that have a node
  below them in each direction, the density of the particles changes by exactly minus the
  time step times the divergence of the current left in \<open>J\<close>.  After \<open>clear_guard_cells\<close> the
  particles satisfy the conditions of the next step.
\<close>

theorem update_conserves_charge:
  assumes "updater_ok push n g dt s" "pu_rho_interval s \<noteq> 0"
  shows "\<exists>s'. update_particles push ptc_physics_policy_empty n dbl g dt step s = Some s'
    \<and> (\<forall>r. in_extent (extent g) r \<longrightarrow>
        cur_rho_total (pu_cur s') (col_to_linear (extent g) r)
          = (if step mod pu_rho_interval s = 0 then updater_density n g s' r else 0)
        \<and> (g_dim g < 3 \<and> (\<forall>d < g_dim g. 1 \<le> sint (r ! d)) \<longrightarrow>
            updater_density n g s' r - updater_density n g s r = - dt * current_div g (cur_J (pu_cur s')) r))
    \<and> (\<exists>p. clear_guard_ptc g (pu_ptc s') = Some p \<and> updater_ok push n g dt (s'\<lparr>pu_ptc := p\<rparr>))"
  using update_and_clear[OF assms, of dbl] by blast

definition line_grid :: Grid where
  "line_grid = \<lparr>g_dims = [8], g_N = [4], g_guard = [2], g_delta = [1 / 2], g_inv_delta = [2],
     g_lower = [0], g_sizes = [2], g_offset = [0]\<rparr>"

text \<open>An electron with momentum 0 in cell 3, at a quarter of the cell.\<close>

definition line_electron :: single_ptc_t where
  "line_electron = \<lparr>x1 = 1 / 4, x2 = 0, x3 = 0, p1 = 0, p2 = 0, p3 = 0, E = 1, weight = 2, cell = 3,
     pid = 1, flag = 0, aux1 = 0\<rparr>"

definition line_updater :: updater where
  "line_updater = \<lparr>pu_ptc = \<lparr>data = [line_electron],
       m_size = 1, m_number = 1, m_sort_segment_size = 1, m_ptc_id = 1, m_segment_nums = [], m_index = [], m_partition = []\<rparr>,
     pu_ph = None, pu_E = (\<lambda>_ _. 1), pu_B = (\<lambda>_ _. 0), pu_cur = zero_currents, pu_rho_ph = None, pu_tmpj = (\<lambda>_. 0),
     pu_rng = rand_state_zero, pu_ptc_number = [0], pu_num_species = 2, pu_data_interval = 1, pu_rho_interval = 1,
     pu_sort_interval = 20, pu_filter_times = 0, pu_charges = (replicate 16 1)[0 := - 1], pu_masses = replicate 16 1\<rparr>"

lemma line_updater_ok: "updater_ok boris_pusher 1 line_grid (1 / 4) line_updater"
proof -
  have e: "extent line_grid = [8]" "g_dim line_grid = 1" by (simp_all add: line_grid_def extent_def g_dim_def)
  have g: "grid_ok line_grid" "good_extent (extent line_grid)"
    by (simp_all add: grid_ok_def line_grid_def g_dim_def Let_def good_extent_def extent_def)
  have st: "step_ok boris_pusher 1 line_grid (1 / 4)"
    using g e by (simp add: step_ok_def code_pusher_def roomy_def good_order_def)
      (simp add: line_grid_def bs_radius_def)
  have p: "ptc_pos line_grid line_electron = [3]"
    by (simp add: ptc_pos_def e get_pos_def col_get_pos1_def line_electron_def)
  have c: "ucast (col_to_linear [8] [3]) = (3 :: u32)" "in_extent [8] [3]"
    by (simp_all add: col_to_linear_def index_dot_def strides_def)
  have b: "is_in_bound line_grid [3]"
    by (simp add: is_in_bound_def e(2) upt_rec del: One_nat_def) (simp add: line_grid_def)
  have q: "ptc_ready line_grid line_electron"
    unfolding ptc_ready_def ptc_placed_def p e using c b
    by (simp add: line_electron_def on_shell_def ptc_x_def)
  have d: "unat (get_ptc_type (flag line_electron)) < 2"
    by (simp add: line_electron_def get_ptc_type_def)
  show ?thesis
    using st q d by (simp add: updater_ok_def ptc_ok_def line_updater_def)
qed

theorem update_conserves_charge_witness:
  "\<exists>s'. update_particles boris_pusher ptc_physics_policy_empty 1 False line_grid (1 / 4) 5 line_updater = Some s'
    \<and> updater_density 1 line_grid s' [4] - updater_density 1 line_grid line_updater [4]
      = - (1 / 4) * current_div line_grid (cur_J (pu_cur s')) [4]"
proof -
  have i: "pu_rho_interval line_updater \<noteq> 0"
    by (simp add: line_updater_def)
  have r: "in_extent (extent line_grid) [4]" "g_dim line_grid < 3 \<and> (\<forall>d < g_dim line_grid. 1 \<le> sint (([4] :: index_t) ! d))"
    by (simp_all add: line_grid_def extent_def g_dim_def)
  show ?thesis
    using update_conserves_charge[OF line_updater_ok i, where step = 5 and dbl = False] r by blast
qed

end
