(* ===== verification/RadConserve.thy ===== *)
theory RadConserve
  imports RadTransfer PtcCharge
begin

text \<open>
  What the radiative transfer keeps.  The laws of a radiation policy are the assumptions of
  a locale; under them emission and pair creation keep the energy of particles and photons
  together, the charge density, and the good state of the arrays.  The default scheme is
  an interpretation, for parameters that leave a radiating particle above its rest energy.
\<close>

subsection \<open>Energy and charge of a list\<close>

definition energy_of :: "('a ptc_common_scheme) \<Rightarrow> scalar" where
  "energy_of q = (if live q then weight q * E q else 0)"

definition energy_upto :: "nat \<Rightarrow> ('a ptc_common_scheme) list \<Rightarrow> scalar" where
  "energy_upto m d = (\<Sum>k<m. energy_of (d ! k))"

definition density_upto :: "nat \<Rightarrow> Grid \<Rightarrow> scalar list \<Rightarrow> nat \<Rightarrow> single_ptc_t list \<Rightarrow> index_t \<Rightarrow> scalar" where
  "density_upto n g charges m d P = (\<Sum>k<m. ptc_density n g charges (d ! k) P)"

lemma sum_upd:
  fixes F :: "'p \<Rightarrow> real"
  assumes "i < m" "i < length d"
  shows "(\<Sum>k<m. F (d[i := q] ! k)) = (\<Sum>k<m. F (d ! k)) - F (d ! i) + F q"
proof -
  have "(\<Sum>k<m. F (d[i := q] ! k)) = F q + (\<Sum>k\<in>{..<m} - {i}. F (d ! k))"
    using assms by (subst sum.remove[of _ i]) (auto intro!: sum.cong)
  moreover have "(\<Sum>k<m. F (d ! k)) = F (d ! i) + (\<Sum>k\<in>{..<m} - {i}. F (d ! k))"
    using assms by (subst sum.remove[of _ i]) auto
  ultimately show ?thesis by simp
qed

lemma sum_upd_beyond:
  fixes F :: "'p \<Rightarrow> real"
  assumes "m \<le> i"
  shows "(\<Sum>k<m. F (d[i := q] ! k)) = (\<Sum>k<m. F (d ! k))"
  using assms by (intro sum.cong) auto

lemma sum_more:
  fixes F :: "nat \<Rightarrow> real"
  shows "(\<Sum>k<m + j. F k) = (\<Sum>k<m. F k) + (\<Sum>i<j. F (m + i))"
  by (induction j) (simp_all add: add.assoc)

text \<open>Entries \<open>b, \<dots>, b + j - 1\<close> are written, the others kept.\<close>

definition wrote :: "nat \<Rightarrow> nat \<Rightarrow> 'p list \<Rightarrow> 'p list \<Rightarrow> bool" where
  "wrote b j d d' = (length d' = length d \<and> b + j \<le> length d \<and> (\<forall>k. k < b \<or> b + j \<le> k \<longrightarrow> d' ! k = d ! k))"

lemma energy_wrote:
  assumes "wrote b j d d'"
  shows "energy_upto (b + j) d' = energy_upto b d + (\<Sum>i<j. energy_of (d' ! (b + i)))"
proof -
  have "(\<Sum>k<b. energy_of (d' ! k)) = (\<Sum>k<b. energy_of (d ! k))"
    using assms by (intro sum.cong) (auto simp: wrote_def)
  then show ?thesis by (simp add: energy_upto_def sum_more)
qed

subsection \<open>The contract of a radiation policy\<close>

definition same_place :: "single_ptc_t \<Rightarrow> single_ptc_t \<Rightarrow> bool" where
  "same_place q q' = (cell q' = cell q \<and> flag q' = flag q \<and> weight q' = weight q \<and> ptc_x q' = ptc_x q)"

definition emitted ::
  "(single_ptc_t \<Rightarrow> bool) \<Rightarrow> (single_ph_t \<Rightarrow> bool) \<Rightarrow> nat \<Rightarrow> nat \<Rightarrow> nat \<Rightarrow> rad_arrays \<Rightarrow> nat \<Rightarrow> rad_arrays \<Rightarrow> bool" where
  "emitted good ph_good most ph_num n a off a' =
     (\<exists>q' j. ra_ptc a' = (ra_ptc a)[n := q'] \<and> good q' \<and> same_place (ra_ptc a ! n) q'
        \<and> j \<le> most \<and> ra_pos a' = ra_pos a + j \<and> (off = 0 \<or> off + most \<le> length (ra_ph a))
        \<and> wrote (ph_num + ra_pos a) j (ra_ph a) (ra_ph a')
        \<and> (\<forall>i<j. live (ra_ph a' ! (ph_num + ra_pos a + i)) \<and> ph_good (ra_ph a' ! (ph_num + ra_pos a + i)))
        \<and> energy_of (ra_ptc a ! n) = energy_of q' + (\<Sum>i<j. energy_of (ra_ph a' ! (ph_num + ra_pos a + i))))"

definition pair_of :: "(single_ptc_t \<Rightarrow> bool) \<Rightarrow> single_ph_t \<Rightarrow> single_ptc_t \<Rightarrow> single_ptc_t \<Rightarrow> bool" where
  "pair_of good h e p = (good e \<and> good p \<and> cell e = cell h \<and> cell p = cell h \<and> weight e = weight h \<and> weight p = weight h
     \<and> ptc_x e = ptc_x p \<and> get_ptc_type (flag e) = PtcType_code electron \<and> get_ptc_type (flag p) = PtcType_code positron
     \<and> deposits (flag e) \<and> deposits (flag p) \<and> E e + E p = E h)"

definition pair_made ::
  "(single_ptc_t \<Rightarrow> bool) \<Rightarrow> nat \<Rightarrow> nat \<Rightarrow> rad_arrays \<Rightarrow> nat \<Rightarrow> rad_arrays \<Rightarrow> bool" where
  "pair_made good ptc_num n a off a' =
     (ra_ph a' = ra_ph a
      \<and> (off = 0 \<and> ra_ptc a' = ra_ptc a \<and> ra_pos a' = ra_pos a
         \<or> off = ptc_num + ra_pos a \<and> ra_pos a' = ra_pos a + 2
            \<and> (\<exists>e p. ra_ptc a' = (ra_ptc a)[off := e, off + 1 := p] \<and> pair_of good (ra_ph a ! n) e p)))"

locale radiation_policy =
  fixes emit :: "'s \<Rightarrow> rad_step" and produce :: "'s \<Rightarrow> rad_step" and valid :: "'s \<Rightarrow> bool"
    and good :: "single_ptc_t \<Rightarrow> bool" and ph_good :: "single_ph_t \<Rightarrow> bool" and most :: "'s \<Rightarrow> nat"
  assumes emit_law: "valid sc \<Longrightarrow> n < length (ra_ptc a) \<Longrightarrow> live (ra_ptc a ! n) \<Longrightarrow> good (ra_ptc a ! n)
      \<Longrightarrow> ph_num + ra_pos a + most sc \<le> length (ra_ph a) \<Longrightarrow> length (ra_ph a) < 2 ^ 63
      \<Longrightarrow> \<exists>off a'. emit sc g dt n ph_num a = Some (off, a') \<and> emitted good ph_good (most sc) ph_num n a off a'"
    and produce_law: "valid sc \<Longrightarrow> n < length (ra_ph a) \<Longrightarrow> live (ra_ph a ! n) \<Longrightarrow> ph_good (ra_ph a ! n)
      \<Longrightarrow> ptc_num + ra_pos a + 2 \<le> length (ra_ptc a) \<Longrightarrow> length (ra_ptc a) < 2 ^ 63
      \<Longrightarrow> \<exists>off a'. produce sc g dt n ptc_num a = Some (off, a') \<and> pair_made good ptc_num n a off a'"
    and good_flag: "good (q\<lparr>flag := f, pid := i\<rparr>) = good q"
    and ph_good_flag: "ph_good (h\<lparr>flag := f, pid := i\<rparr>) = ph_good h"
    and ph_good_cell: "ph_good (h\<lparr>cell := c\<rparr>) = ph_good h"

subsection \<open>Tracking\<close>

lemma track_photons_effect:
  assumes "\<forall>i \<in> set is. off + i < length h" "length h < 2 ^ 63"
  shows "\<exists>h' nid' r'. track_photons fr rank off is (h, nid, r) = Some (h', nid', r') \<and> length h' = length h
    \<and> (\<forall>k. \<exists>f i. h' ! k = (h ! k)\<lparr>flag := f, pid := i\<rparr>)"
  using assms
proof (induction "is" arbitrary: h nid r)
  case Nil
  have "\<exists>f i. h ! k = (h ! k)\<lparr>flag := f, pid := i\<rparr>" for k
    by (intro exI[of _ "flag (h ! k)"] exI[of _ "pid (h ! k)"]) simp
  then show ?case by simp
next
  case (Cons j js)
  obtain u r' where u: "rng_uniform r = (u, r')" by (cases "rng_uniform r")
  let ?h = "h[off + j := (h ! (off + j))\<lparr>flag := flag_or [PhFlag_code ph_tracked], pid := rank + ucast nid\<rparr>]"
  have j: "off + j < length h" "size_add off j = off + j"
    using Cons.prems by (auto simp: size_add_def)
  have hk: "\<exists>f i. ?h ! k = (h ! k)\<lparr>flag := f, pid := i\<rparr>" for k
  proof (cases "k = off + j")
    case False
    then show ?thesis by (intro exI[of _ "flag (h ! k)"] exI[of _ "pid (h ! k)"]) simp
  qed (use j(1) in auto)
  show ?case
  proof (cases "u < fr")
    case True
    obtain h' n' s' where t: "track_photons fr rank off js (?h, nid + 1, r') = Some (h', n', s')" "length h' = length ?h"
      "\<forall>k. \<exists>f i. h' ! k = (?h ! k)\<lparr>flag := f, pid := i\<rparr>"
      using Cons.IH[of ?h "nid + 1" r'] Cons.prems by auto
    have "\<exists>f i. h' ! k = (h ! k)\<lparr>flag := f, pid := i\<rparr>" for k
    proof -
      obtain f i f2 i2 where "h' ! k = (?h ! k)\<lparr>flag := f, pid := i\<rparr>" "?h ! k = (h ! k)\<lparr>flag := f2, pid := i2\<rparr>"
        using t(3) hk by metis
      then have "h' ! k = (h ! k)\<lparr>flag := f, pid := i\<rparr>" by simp
      then show ?thesis by blast
    qed
    with t(1,2) True u j show ?thesis by (simp add: Let_def)
  qed (use Cons u in \<open>simp add: Let_def\<close>)
qed

lemma live_update [simp]: "live (q\<lparr>flag := f, pid := i\<rparr>) = live q"
  by (simp add: live_def)

lemma energy_of_flag [simp]: "energy_of (q\<lparr>flag := f, pid := i\<rparr>) = energy_of q"
  by (simp add: energy_of_def)

lemma same_place_density: "same_place q q' \<Longrightarrow> ptc_density n g charges q' P = ptc_density n g charges q P"
  by (simp add: same_place_def ptc_density_def live_def ptc_charge_def ptc_shape_def ptc_pos_def)

lemma same_place_live: "same_place q q' \<Longrightarrow> live q' = live q"
  by (simp add: same_place_def live_def)

text \<open>Marking a particle as tracked changes neither its species nor its deposit.\<close>

lemma tracked_flag:
  "get_ptc_type (set_flag f [Suc 0]) = get_ptc_type f"
  "deposits (set_flag f [Suc 0]) = deposits f"
  by (simp_all add: get_ptc_type_flags deposits_def check_set_flag)

lemma tracked_density [simp]:
  "ptc_density n g charges (q\<lparr>flag := set_flag (flag q) [Suc 0], pid := i\<rparr>) P = ptc_density n g charges q P"
  by (simp add: ptc_density_def ptc_charge_def ptc_shape_def ptc_pos_def ptc_x_def tracked_flag)

lemma pair_density:
  assumes "pair_of good h e p" "charges ! 0 = - charges ! (1 :: nat)"
  shows "ptc_density n g charges e P + ptc_density n g charges p P = 0"
proof -
  have "ptc_shape n g e P = ptc_shape n g p P" "live e = live p" "ptc_charge charges e = - ptc_charge charges p"
    using assms by (simp_all add: pair_of_def ptc_shape_def ptc_pos_def live_def ptc_charge_def)
  then show ?thesis using assms(1) by (simp add: ptc_density_def pair_of_def)
qed

subsection \<open>One emission, one pair\<close>

text \<open>The first \<open>m\<close> particles and \<open>h\<close> photons are good and have energy \<open>C\<close> and charge \<open>R\<close>.\<close>

definition kept ::
  "(single_ptc_t \<Rightarrow> bool) \<Rightarrow> (single_ph_t \<Rightarrow> bool) \<Rightarrow> nat \<Rightarrow> Grid \<Rightarrow> scalar list \<Rightarrow> scalar \<Rightarrow> (index_t \<Rightarrow> scalar)
   \<Rightarrow> nat \<Rightarrow> nat \<Rightarrow> rad_arrays \<Rightarrow> bool" where
  "kept good ph_good n g charges C R m h a =
     (m \<le> length (ra_ptc a) \<and> h \<le> length (ra_ph a)
      \<and> (\<forall>i<m. live (ra_ptc a ! i) \<longrightarrow> good (ra_ptc a ! i)) \<and> (\<forall>i<h. live (ra_ph a ! i) \<longrightarrow> ph_good (ra_ph a ! i))
      \<and> energy_upto m (ra_ptc a) + energy_upto h (ra_ph a) = C
      \<and> (\<forall>P. density_upto n g charges m (ra_ptc a) P = R P))"

definition marked :: "single_ptc_t \<Rightarrow> single_ptc_t \<Rightarrow> bool" where
  "marked q q' = (q' = q \<or> (\<exists>i. q' = q\<lparr>flag := set_flag (flag q) [Suc 0], pid := i\<rparr>))"

lemma track_pair_effect:
  assumes "off + 1 < length d" "length d < 2 ^ 63"
  shows "\<exists>e p nid' r'. track_pair fr rank off (d, nid, r) = Some (d[off := e, off + 1 := p], nid', r')
    \<and> marked (d ! off) e \<and> marked (d ! (off + 1)) p"
proof -
  obtain u r' where u: "rng_uniform r = (u, r')" by (cases "rng_uniform r")
  have k: "size_add off 1 = off + 1" using assms by (simp add: size_add_def)
  show ?thesis
  proof (cases "u < fr")
    case True
    let ?m = "\<lambda>i q. q\<lparr>flag := set_flag (flag q) [Suc 0], pid := rank + ucast i\<rparr> :: single_ptc_t"
    have "track_pair fr rank off (d, nid, r)
        = Some (d[off := ?m nid (d ! off), off + 1 := ?m (nid + 1) (d ! (off + 1))], nid + 2, r')"
      using True u k assms by (simp add: track_pair_def Let_def)
    then show ?thesis unfolding marked_def by blast
  next
    case False
    then have "track_pair fr rank off (d, nid, r) = Some (d[off := d ! off, off + 1 := d ! (off + 1)], nid, r')"
      using u by (simp add: track_pair_def Let_def)
    then show ?thesis unfolding marked_def by blast
  qed
qed

lemma kept_cong:
  "ra_ptc b = ra_ptc a \<Longrightarrow> ra_ph b = ra_ph a \<Longrightarrow>
    kept good ph_good n g charges C R m h b = kept good ph_good n g charges C R m h a"
  by (simp add: kept_def)

lemma pair_energy: "pair_of good h e p \<Longrightarrow> live h \<Longrightarrow> energy_of e + energy_of p = energy_of h"
  by (simp add: pair_of_def energy_of_def live_def flip: distrib_left)

text \<open>The system between its steps.\<close>

definition rad_sound :: "(single_ptc_t \<Rightarrow> bool) \<Rightarrow> (single_ph_t \<Rightarrow> bool) \<Rightarrow> radiative_transfer \<Rightarrow> bool" where
  "rad_sound good ph_good s =
     (m_size (rt_ptc s) = length (data (rt_ptc s)) \<and> m_size (rt_ph s) = length (data (rt_ph s))
      \<and> m_number (rt_ptc s) \<le> m_size (rt_ptc s) \<and> m_number (rt_ph s) \<le> m_size (rt_ph s)
      \<and> m_size (rt_ptc s) < 2 ^ 31 \<and> m_size (rt_ph s) < 2 ^ 31
      \<and> (\<forall>i<m_number (rt_ptc s). live (data (rt_ptc s) ! i) \<longrightarrow> good (data (rt_ptc s) ! i))
      \<and> (\<forall>i<m_number (rt_ph s). live (data (rt_ph s) ! i) \<longrightarrow> ph_good (data (rt_ph s) ! i)))"

definition rad_energy :: "radiative_transfer \<Rightarrow> scalar" where
  "rad_energy s = energy_upto (m_number (rt_ptc s)) (data (rt_ptc s)) + energy_upto (m_number (rt_ph s)) (data (rt_ph s))"

definition rad_density :: "nat \<Rightarrow> Grid \<Rightarrow> scalar list \<Rightarrow> radiative_transfer \<Rightarrow> index_t \<Rightarrow> scalar" where
  "rad_density n g charges s = density_upto n g charges (m_number (rt_ptc s)) (data (rt_ptc s))"

text \<open>A step that keeps energy, charge and soundness, with bounds on the new numbers.\<close>

definition conserves ::
  "(single_ptc_t \<Rightarrow> bool) \<Rightarrow> (single_ph_t \<Rightarrow> bool) \<Rightarrow> nat \<Rightarrow> Grid \<Rightarrow> scalar list \<Rightarrow> radiative_transfer \<Rightarrow> radiative_transfer \<Rightarrow> bool" where
  "conserves good ph_good n g charges s s' =
     (rad_sound good ph_good s' \<and> rad_energy s' = rad_energy s \<and> rad_density n g charges s' = rad_density n g charges s
      \<and> m_number (rt_ptc s) \<le> m_number (rt_ptc s') \<and> m_number (rt_ph s) \<le> m_number (rt_ph s')
      \<and> m_size (rt_ptc s') = m_size (rt_ptc s) \<and> m_size (rt_ph s') = m_size (rt_ph s)
      \<and> rt_produce_pairs s' = rt_produce_pairs s)"

lemma conserves_refl: "rad_sound good ph_good s \<Longrightarrow> conserves good ph_good n g charges s s"
  by (simp add: conserves_def)

lemma conserves_trans:
  "conserves good ph_good n g charges s t \<Longrightarrow> conserves good ph_good n g charges t u \<Longrightarrow> conserves good ph_good n g charges s u"
  by (auto simp: conserves_def)

lemma size_to_int_small: "m < 2 ^ 31 \<Longrightarrow> size_to_int m = int m"
  using sint_of_int32[of "int m"] by (simp add: size_to_int_def)

lemma add_num_small: "m_number p + k \<le> m_size p \<Longrightarrow> m_size p < 2 ^ 31 \<Longrightarrow> m_number (add_num k p) = m_number p + k"
  by (simp add: add_num_def set_num_def size_add_def)

lemma add_num_simps [simp]: "data (add_num k p) = data p" "m_size (add_num k p) = m_size p"
  by (simp_all add: add_num_def set_num_def)

abbreviation loaded :: "radiative_transfer \<Rightarrow> rad_arrays" where
  "loaded s \<equiv> \<lparr>ra_ptc = data (rt_ptc s), ra_ph = data (rt_ph s), ra_pos = 0, ra_rng = rt_rng s\<rparr>"

lemma loaded_kept:
  "rad_sound good ph_good s \<Longrightarrow>
    kept good ph_good n g charges (rad_energy s) (rad_density n g charges s) (m_number (rt_ptc s)) (m_number (rt_ph s)) (loaded s)"
  by (simp add: rad_sound_def kept_def rad_energy_def rad_density_def)

context radiation_policy begin

lemma emitted_kept:
  assumes k: "kept good ph_good n g charges C R N (ph_num + ra_pos a) a" and i: "i < N"
    and em: "emitted good ph_good mst ph_num i a off a'"
  shows "kept good ph_good n g charges C R N (ph_num + ra_pos a') a'" "ra_pos a' \<le> ra_pos a + mst"
    "length (ra_ptc a') = length (ra_ptc a)" "length (ra_ph a') = length (ra_ph a)"
proof -
  let ?b = "ph_num + ra_pos a"
  obtain q' j where e: "ra_ptc a' = (ra_ptc a)[i := q']" "good q'" "same_place (ra_ptc a ! i) q'" "j \<le> mst"
    "ra_pos a' = ra_pos a + j" "wrote ?b j (ra_ph a) (ra_ph a')"
    "\<forall>l<j. live (ra_ph a' ! (?b + l)) \<and> ph_good (ra_ph a' ! (?b + l))"
    "energy_of (ra_ptc a ! i) = energy_of q' + (\<Sum>l<j. energy_of (ra_ph a' ! (?b + l)))"
    using em unfolding emitted_def by blast
  have il: "i < length (ra_ptc a)" using k i by (simp add: kept_def)
  have good': "live (ra_ptc a' ! l) \<longrightarrow> good (ra_ptc a' ! l)" if "l < N" for l
    using k e(1,2) il that by (cases "l = i") (simp_all add: kept_def)
  have ph': "live (ra_ph a' ! l) \<longrightarrow> ph_good (ra_ph a' ! l)" if "l < ?b + j" for l
  proof (cases "l < ?b")
    case True
    then show ?thesis using k e(6) by (simp add: kept_def wrote_def)
  next
    case False
    then have "l = ?b + (l - ?b)" "l - ?b < j" using that by auto
    then show ?thesis using e(7) by metis
  qed
  have en: "energy_upto N (ra_ptc a') = energy_upto N (ra_ptc a) - energy_of (ra_ptc a ! i) + energy_of q'"
    unfolding energy_upto_def e(1) by (rule sum_upd[OF i il])
  have den: "density_upto n g charges N (ra_ptc a') P = density_upto n g charges N (ra_ptc a) P" for P
    unfolding density_upto_def e(1) using sum_upd[OF i il, of "\<lambda>q. ptc_density n g charges q P" q']
      same_place_density[OF e(3)] by simp
  have l: "N \<le> length (ra_ptc a')" "?b + j \<le> length (ra_ph a')"
    using k e(1,6) by (simp_all add: kept_def wrote_def)
  have "energy_upto N (ra_ptc a) + energy_upto ?b (ra_ph a) = C" using k by (simp add: kept_def)
  then have C: "energy_upto N (ra_ptc a') + energy_upto (?b + j) (ra_ph a') = C"
    using en energy_wrote[OF e(6)] e(8) by linarith
  have R: "\<forall>P. density_upto n g charges N (ra_ptc a') P = R P" using k by (simp add: kept_def den)
  have pos: "ph_num + ra_pos a' = ?b + j" by (simp add: e(5))
  show "kept good ph_good n g charges C R N (ph_num + ra_pos a') a'"
    unfolding kept_def pos using l good' ph' C R by blast
  show "ra_pos a' \<le> ra_pos a + mst" "length (ra_ptc a') = length (ra_ptc a)" "length (ra_ph a') = length (ra_ph a)"
    using e by (simp_all add: wrote_def)
qed

lemma kept_tracked:
  assumes "kept good ph_good n g charges C R m h a" "length H = length (ra_ph a)"
    "\<forall>k. \<exists>f i. H ! k = (ra_ph a ! k)\<lparr>flag := f, pid := i\<rparr>"
  shows "kept good ph_good n g charges C R m h (a\<lparr>ra_ph := H, ra_rng := r\<rparr>)"
proof -
  have v: "live (H ! k) = live (ra_ph a ! k)" "ph_good (H ! k) = ph_good (ra_ph a ! k)" "energy_of (H ! k) = energy_of (ra_ph a ! k)" for k
    using assms(3)[rule_format, of k] ph_good_flag by auto
  then show ?thesis
    using assms(1,2) by (simp add: kept_def energy_upto_def)
qed

lemma emit_step:
  assumes sc: "valid sc" and k: "kept good ph_good n g charges C R N (ph_num + ra_pos a) a" and i: "i < N"
    and room: "ph_num + ra_pos a + most sc \<le> length (ra_ph a)" "length (ra_ph a) < 2 ^ 63" "nat (sint pps) \<le> most sc"
  shows "\<exists>a' nid' pr'. emit_one (emit sc) pps fr rank g dt ph_num i (a, nid, pr) = Some (a', nid', pr')
    \<and> kept good ph_good n g charges C R N (ph_num + ra_pos a') a' \<and> ra_pos a' \<le> ra_pos a + most sc
    \<and> length (ra_ptc a') = length (ra_ptc a) \<and> length (ra_ph a') = length (ra_ph a)"
proof -
  let ?q = "ra_ptc a ! i"
  have il: "i < length (ra_ptc a)" and gd: "live ?q \<longrightarrow> good ?q" using k i by (auto simp: kept_def)
  show ?thesis
  proof (cases "cell ?q = empty_cell \<or> \<not> is_in_bound g (get_pos (extent g) (ucast (cell ?q))) \<or> get_ptc_type (flag ?q) = PtcType_code ion")
    case True
    then have "emit_one (emit sc) pps fr rank g dt ph_num i (a, nid, pr) = Some (a, nid, pr)"
      using il by (simp add: emit_one_def Let_def)
    then show ?thesis using k by auto
  next
    case False
    then have lv: "live ?q" by (simp add: live_def)
    obtain off b where e: "emit sc g dt i ph_num a = Some (off, b)" "emitted good ph_good (most sc) ph_num i a off b"
      using emit_law[OF sc il lv _ room(1,2)] gd lv by blast
    note kb = emitted_kept[OF k i e(2)]
    show ?thesis
    proof (cases "off = 0")
      case True
      then have "emit_one (emit sc) pps fr rank g dt ph_num i (a, nid, pr) = Some (b, nid, pr)"
        using il False e(1) by (simp add: emit_one_def Let_def)
      then show ?thesis using kb by auto
    next
      case nz: False
      then have "off + most sc \<le> length (ra_ph b)" using e(2) kb(4) by (auto simp: emitted_def)
      then have "\<forall>j \<in> set [0..<nat (sint pps)]. off + j < length (ra_ph b)" using room(3) by auto
      from track_photons_effect[OF this, of fr rank nid "ra_rng b"] kb(4) room(2)
      obtain H nid' r' where t: "track_photons fr rank off [0..<nat (sint pps)] (ra_ph b, nid, ra_rng b) = Some (H, nid', r')"
        "length H = length (ra_ph b)" "\<forall>k. \<exists>f i. H ! k = (ra_ph b ! k)\<lparr>flag := f, pid := i\<rparr>"
        by auto
      let ?c = "b\<lparr>ra_ph := H, ra_rng := r'\<rparr>"
      have "\<exists>pr'. emit_one (emit sc) pps fr rank g dt ph_num i (a, nid, pr) = Some (?c, nid', pr')"
        using il False e(1) nz t(1) by (simp add: emit_one_def Let_def)
      moreover have "kept good ph_good n g charges C R N (ph_num + ra_pos ?c) ?c"
        using kept_tracked[OF kb(1) t(2,3), of r'] by simp
      ultimately show ?thesis using kb t(2) by auto
    qed
  qed
qed

lemma pair_of_marked:
  "pair_of good h e p \<Longrightarrow> marked e e' \<Longrightarrow> marked p p' \<Longrightarrow> pair_of good h e' p'"
  unfolding pair_of_def marked_def by (auto simp: good_flag tracked_flag ptc_x_def)

lemma pair_kept:
  assumes k: "kept good ph_good n g charges C R m h a" and i: "i < h" and lv: "live (ra_ph a ! i)"
    and pr: "pair_of good (ra_ph a ! i) e p" and room: "m + 2 \<le> length (ra_ptc a)"
    and ch: "charges ! 0 = - charges ! (1 :: nat)"
    and b: "ra_ptc b = (ra_ptc a)[m := e, m + 1 := p]" "ra_ph b = (ra_ph a)[i := (ra_ph a ! i)\<lparr>cell := empty_cell\<rparr>]"
  shows "kept good ph_good n g charges C R (m + 2) h b"
proof -
  have il: "i < length (ra_ph a)" using k i by (simp add: kept_def)
  have v: "ra_ptc b ! m = e" "ra_ptc b ! (m + 1) = p" "\<And>l. l < m \<Longrightarrow> ra_ptc b ! l = ra_ptc a ! l"
    using room by (simp_all add: b(1))
  have sm: "(\<Sum>l<m + 2. F (ra_ptc b ! l)) = (\<Sum>l<m. F (ra_ptc a ! l)) + F e + F p" for F :: "single_ptc_t \<Rightarrow> real"
    using v by (simp add: numeral_2_eq_2)
  have good': "live (ra_ptc b ! l) \<longrightarrow> good (ra_ptc b ! l)" if "l < m + 2" for l
  proof -
    from that consider "l < m" | "l = m" | "l = m + 1" by linarith
    then show ?thesis using k v pr by cases (auto simp: kept_def pair_of_def)
  qed
  have ph': "live (ra_ph b ! l) \<longrightarrow> ph_good (ra_ph b ! l)" if "l < h" for l
    using k that il by (cases "l = i") (simp_all add: b(2) live_def kept_def)
  have "energy_upto h (ra_ph b) = energy_upto h (ra_ph a) - energy_of (ra_ph a ! i)"
    unfolding energy_upto_def b(2) by (subst sum_upd[OF i il]) (simp add: energy_of_def live_def)
  moreover have "energy_upto (m + 2) (ra_ptc b) = energy_upto m (ra_ptc a) + energy_of e + energy_of p"
    unfolding energy_upto_def by (rule sm)
  moreover have "energy_upto m (ra_ptc a) + energy_upto h (ra_ph a) = C" using k by (simp add: kept_def)
  ultimately have C: "energy_upto (m + 2) (ra_ptc b) + energy_upto h (ra_ph b) = C"
    using pair_energy[OF pr lv] by linarith
  have "density_upto n g charges (m + 2) (ra_ptc b) P = density_upto n g charges m (ra_ptc a) P" for P
    unfolding density_upto_def using pair_density[OF pr ch, of n g P] sm[of "\<lambda>q. ptc_density n g charges q P"] by linarith
  then have R: "\<forall>P. density_upto n g charges (m + 2) (ra_ptc b) P = R P" using k by (simp add: kept_def)
  have l: "m + 2 \<le> length (ra_ptc b)" "h \<le> length (ra_ph b)" using room k by (simp_all add: b kept_def)
  show ?thesis unfolding kept_def using l good' ph' C R by blast
qed

lemma create_step:
  assumes sc: "valid sc" and k: "kept good ph_good n g charges C R (ptc_num + ra_pos a) H a" and i: "i < H"
    and ne: "0 < ptc_num" and room: "ptc_num + ra_pos a + 2 \<le> length (ra_ptc a)" "length (ra_ptc a) < 2 ^ 63"
    and ch: "charges ! 0 = - charges ! (1 :: nat)"
  shows "\<exists>a' nid' pr'. create_one (produce sc) fr rank g dt ptc_num i (a, nid, pr) = Some (a', nid', pr')
    \<and> kept good ph_good n g charges C R (ptc_num + ra_pos a') H a' \<and> ra_pos a' \<le> ra_pos a + 2
    \<and> length (ra_ptc a') = length (ra_ptc a) \<and> length (ra_ph a') = length (ra_ph a)"
proof -
  let ?h = "ra_ph a ! i"
  have il: "i < length (ra_ph a)" and gd: "live ?h \<longrightarrow> ph_good ?h" using k i by (auto simp: kept_def)
  show ?thesis
  proof (cases "cell ?h = empty_cell \<or> \<not> is_in_bound g (get_pos (extent g) (ucast (cell ?h)))")
    case True
    then have "create_one (produce sc) fr rank g dt ptc_num i (a, nid, pr) = Some (a, nid, pr)"
      using il by (simp add: create_one_def Let_def)
    then show ?thesis using k by auto
  next
    case False
    then have lv: "live ?h" by (simp add: live_def)
    obtain off b where e: "produce sc g dt i ptc_num a = Some (off, b)" and pm: "pair_made good ptc_num i a off b"
      using produce_law[OF sc il lv _ room] gd lv by blast
    have ph: "ra_ph b = ra_ph a" using pm by (simp add: pair_made_def)
    show ?thesis
    proof (cases "off = 0")
      case True
      then have s: "ra_ptc b = ra_ptc a" "ra_pos b = ra_pos a" using pm ne by (auto simp: pair_made_def)
      have "create_one (produce sc) fr rank g dt ptc_num i (a, nid, pr) = Some (b, nid, pr)"
        using il False e True by (simp add: create_one_def Let_def)
      then show ?thesis using k kept_cong[OF s(1) ph] s ph by auto
    next
      case nz: False
      then obtain q p where m: "off = ptc_num + ra_pos a" "ra_pos b = ra_pos a + 2"
        "ra_ptc b = (ra_ptc a)[off := q, off + 1 := p]" "pair_of good ?h q p"
        using pm by (auto simp: pair_made_def)
      have o: "off + 1 < length (ra_ptc b)" "length (ra_ptc b) < 2 ^ 63" using room by (simp_all add: m)
      have v: "ra_ptc b ! off = q" "ra_ptc b ! (off + 1) = p" using room by (simp_all add: m)
      obtain q' p' nid' r' where t: "track_pair fr rank off (ra_ptc b, nid, ra_rng b)
          = Some ((ra_ptc b)[off := q', off + 1 := p'], nid', r')" "marked q q'" "marked p p'"
        using track_pair_effect[OF o, of fr rank nid "ra_rng b"] unfolding v by blast
      let ?H = "(ra_ph a)[i := ?h\<lparr>cell := empty_cell\<rparr>]"
      let ?c = "b\<lparr>ra_ptc := (ra_ptc b)[off := q', off + 1 := p'], ra_ph := ?H, ra_rng := r'\<rparr>"
      have run: "\<exists>pr'. create_one (produce sc) fr rank g dt ptc_num i (a, nid, pr) = Some (?c, nid', pr')"
        using il False e nz t(1) by (simp add: create_one_def Let_def ph)
      have D: "ra_ptc ?c = (ra_ptc a)[off := q', off + 1 := p']"
        using o by (intro nth_equalityI) (auto simp: m(3) nth_list_update)
      have "kept good ph_good n g charges C R (off + 2) H ?c"
        by (rule pair_kept[OF k i lv pair_of_marked[OF m(4) t(2,3)] room(1) ch, unfolded m(1)[symmetric]])
          (use D in simp_all)
      then have "kept good ph_good n g charges C R (ptc_num + ra_pos ?c) H ?c" by (simp add: m add.assoc)
      then show ?thesis using run m(2,3) by auto
    qed
  qed
qed

lemma emit_photons_keeps:
  assumes sc: "valid sc" and s: "rad_sound good ph_good s"
    and room: "m_number (rt_ph s) + most sc * m_number (rt_ptc s) \<le> m_size (rt_ph s)" "nat (sint (rt_ph_per_scatter s)) \<le> most sc"
  shows "\<exists>s'. emit_photons (emit sc) g dt s = Some s' \<and> conserves good ph_good n g charges s s'
    \<and> m_number (rt_ptc s') = m_number (rt_ptc s)
    \<and> m_number (rt_ph s') \<le> m_number (rt_ph s) + most sc * m_number (rt_ptc s)"
proof (cases "m_number (rt_ptc s) = 0")
  case True
  then show ?thesis using conserves_refl[OF s] by (simp add: emit_photons_def)
next
  case False
  let ?N = "m_number (rt_ptc s)" and ?h = "m_number (rt_ph s)" and ?C = "rad_energy s" and ?R = "rad_density n g charges s"
  let ?I = "\<lambda>k (a, nid :: u32, pr :: field). kept good ph_good n g charges ?C ?R ?N (?h + ra_pos a) a \<and> ra_pos a \<le> most sc * k
      \<and> length (ra_ptc a) = length (data (rt_ptc s)) \<and> length (ra_ph a) = length (data (rt_ph s))"
  let ?f = "emit_one (emit sc) (rt_ph_per_scatter s) (rt_tracked_fraction s) (rt_track_rank s) g dt ?h"
  have L: "m_size (rt_ph s) = length (data (rt_ph s))" "length (data (rt_ph s)) < 2 ^ 31" "?N < 2 ^ 31"
    using s by (auto simp: rad_sound_def)
  have step: "\<exists>st'. ?f k st = Some st' \<and> ?I (Suc k) st'" if k: "k < ?N" and I: "?I k st" for k st
  proof -
    obtain a nid pr where st: "st = (a, nid, pr)" by (cases st)
    have "ra_pos a + most sc \<le> most sc * Suc k" "most sc * Suc k \<le> most sc * ?N"
      using I k mult_le_mono2[of "Suc k" ?N "most sc"] by (simp_all add: st)
    then have r: "?h + ra_pos a + most sc \<le> length (ra_ph a)" "length (ra_ph a) < 2 ^ 63"
      using I room(1) L by (simp_all add: st)
    obtain a' nid' pr' where e: "?f k (a, nid, pr) = Some (a', nid', pr')"
      "kept good ph_good n g charges ?C ?R ?N (?h + ra_pos a') a'" "ra_pos a' \<le> ra_pos a + most sc"
      "length (ra_ptc a') = length (ra_ptc a)" "length (ra_ph a') = length (ra_ph a)"
      using emit_step[OF sc _ k r room(2)] I st by blast
    then show ?thesis using I by (auto simp: st)
  qed
  have "?I 0 (loaded s, m_ptc_id (rt_ph s), rt_photon_produced s)" using loaded_kept[OF s] by simp
  from fold_opt_invariant[of ?N ?I ?f, OF step this] obtain a nid pr
    where run: "fold_opt ?f [0..<?N] (loaded s, m_ptc_id (rt_ph s), rt_photon_produced s) = Some (a, nid, pr)"
      and I: "?I ?N (a, nid, pr)"
    by blast
  let ?ph = "(rt_ph s)\<lparr>data := ra_ph a, m_ptc_id := nid\<rparr>"
  let ?s = "s\<lparr>rt_ptc := (rt_ptc s)\<lparr>data := ra_ptc a\<rparr>, rt_ph := add_num (ra_pos a) ?ph, rt_photon_produced := pr, rt_rng := ra_rng a\<rparr>"
  have "emit_photons (emit sc) g dt s = Some ?s"
    using False run L by (simp add: emit_photons_def size_to_int_small Let_def)
  moreover have num: "m_number (add_num (ra_pos a) ?ph) = ?h + ra_pos a" "ra_pos a \<le> most sc * ?N"
    using I room(1) L add_num_small[of ?ph "ra_pos a"] by simp_all
  moreover have "conserves good ph_good n g charges s ?s"
    using I s num by (simp add: conserves_def rad_sound_def kept_def rad_energy_def rad_density_def fun_eq_iff)
  ultimately show ?thesis by auto
qed

lemma create_pairs_keeps:
  assumes sc: "valid sc" and s: "rad_sound good ph_good s" and ne: "0 < m_number (rt_ptc s)"
    and room: "m_number (rt_ptc s) + 2 * m_number (rt_ph s) \<le> m_size (rt_ptc s)"
    and ch: "charges ! 0 = - charges ! (1 :: nat)"
  shows "\<exists>s'. create_pairs (produce sc) g dt s = Some s' \<and> conserves good ph_good n g charges s s'"
proof (cases "m_number (rt_ph s) = 0")
  case True
  then show ?thesis using conserves_refl[OF s] by (simp add: create_pairs_def)
next
  case False
  let ?m = "m_number (rt_ptc s)" and ?H = "m_number (rt_ph s)" and ?C = "rad_energy s" and ?R = "rad_density n g charges s"
  let ?I = "\<lambda>k (a, nid :: u32, pr :: field). kept good ph_good n g charges ?C ?R (?m + ra_pos a) ?H a \<and> ra_pos a \<le> 2 * k
      \<and> length (ra_ptc a) = length (data (rt_ptc s)) \<and> length (ra_ph a) = length (data (rt_ph s))"
  let ?f = "create_one (produce sc) (rt_tracked_fraction s) (rt_track_rank s) g dt ?m"
  have L: "m_size (rt_ptc s) = length (data (rt_ptc s))" "length (data (rt_ptc s)) < 2 ^ 31" "?H < 2 ^ 31"
    using s by (auto simp: rad_sound_def)
  have step: "\<exists>st'. ?f k st = Some st' \<and> ?I (Suc k) st'" if k: "k < ?H" and I: "?I k st" for k st
  proof -
    obtain a nid pr where st: "st = (a, nid, pr)" by (cases st)
    have r: "?m + ra_pos a + 2 \<le> length (ra_ptc a)" "length (ra_ptc a) < 2 ^ 63"
      using I room L k by (auto simp: st)
    obtain a' nid' pr' where e: "?f k (a, nid, pr) = Some (a', nid', pr')"
      "kept good ph_good n g charges ?C ?R (?m + ra_pos a') ?H a'" "ra_pos a' \<le> ra_pos a + 2"
      "length (ra_ptc a') = length (ra_ptc a)" "length (ra_ph a') = length (ra_ph a)"
      using create_step[OF sc _ k ne r ch] I st by blast
    then show ?thesis using I by (auto simp: st)
  qed
  have "?I 0 (loaded s, m_ptc_id (rt_ptc s), rt_pair_produced s)" using loaded_kept[OF s] by simp
  from fold_opt_invariant[of ?H ?I ?f, OF step this] obtain a nid pr
    where run: "fold_opt ?f [0..<?H] (loaded s, m_ptc_id (rt_ptc s), rt_pair_produced s) = Some (a, nid, pr)"
      and I: "?I ?H (a, nid, pr)"
    by blast
  let ?p = "(rt_ptc s)\<lparr>data := ra_ptc a, m_ptc_id := nid\<rparr>"
  let ?s = "s\<lparr>rt_ph := (rt_ph s)\<lparr>data := ra_ph a\<rparr>, rt_ptc := add_num (ra_pos a) ?p, rt_pair_produced := pr, rt_rng := ra_rng a\<rparr>"
  have "create_pairs (produce sc) g dt s = Some ?s"
    using False run L by (simp add: create_pairs_def size_to_int_small Let_def)
  moreover have "m_number (add_num (ra_pos a) ?p) = ?m + ra_pos a"
    using I room L add_num_small[of ?p "ra_pos a"] by simp
  then have "conserves good ph_good n g charges s ?s"
    using I s by (simp add: conserves_def rad_sound_def kept_def rad_energy_def rad_density_def fun_eq_iff)
  ultimately show ?thesis by blast
qed

lemma rad_update_keeps:
  assumes sc: "valid sc" and s: "rad_sound good ph_good s" and ne: "0 < m_number (rt_ptc s)"
    and room: "m_number (rt_ph s) + most sc * m_number (rt_ptc s) \<le> m_size (rt_ph s)"
      "m_number (rt_ptc s) + 2 * (m_number (rt_ph s) + most sc * m_number (rt_ptc s)) \<le> m_size (rt_ptc s)"
      "nat (sint (rt_ph_per_scatter s)) \<le> most sc"
    and ch: "charges ! 0 = - charges ! (1 :: nat)"
  shows "\<exists>s'. rad_update (emit sc) (produce sc) g cm dt s = Some s' \<and> conserves good ph_good n g charges s s'"
proof -
  obtain t where t: "(if rt_emit_photons s then emit_photons (emit sc) g dt s else Some s) = Some t"
    "conserves good ph_good n g charges s t" "m_number (rt_ptc t) = m_number (rt_ptc s)"
    "m_number (rt_ph t) \<le> m_number (rt_ph s) + most sc * m_number (rt_ptc s)"
    using emit_photons_keeps[OF sc s room(1,3), of g dt n charges] conserves_refl[OF s] by (cases "rt_emit_photons s") auto
  have ts: "rad_sound good ph_good t" "m_number (rt_ptc t) + 2 * m_number (rt_ph t) \<le> m_size (rt_ptc t)" "0 < m_number (rt_ptc t)"
    using t room(2) ne by (auto simp: conserves_def)
  obtain u where u: "(if rt_produce_pairs t then create_pairs (produce sc) g dt t else Some t) = Some u"
    "conserves good ph_good n g charges t u"
    using create_pairs_keeps[OF sc ts(1,3,2) ch, of g dt n] conserves_refl[OF ts(1)] by (cases "rt_produce_pairs t") auto
  let ?u = "u\<lparr>rt_ph_number := fst (tally_ptc_number cm (m_number (rt_ph u)) (rt_ph_number u))\<rparr>"
  have "rad_update (emit sc) (produce sc) g cm dt s = Some ?u"
    by (simp add: rad_update_def t(1) u(1))
  moreover have "conserves good ph_good n g charges s ?u"
    using conserves_trans[OF t(2) u(2)] by (simp add: conserves_def rad_sound_def rad_energy_def rad_density_def)
  ultimately show ?thesis by blast
qed

end

subsection \<open>The default scheme\<close>

definition scheme_ok :: "rad_scheme \<Rightarrow> bool" where
  "scheme_ok sc = (0 < sint (sc_ph_per_scatter sc) \<and> 0 < sc_E_s sc \<and> 401 / 100 \<le> (2 * sc_E_s sc)\<^sup>2
     \<and> 2 * sc_E_s sc * of_int (sint (sc_ph_per_scatter sc)) + 1 \<le> sc_gamma_thr sc)"

definition ptc_shell :: "single_ptc_t \<Rightarrow> bool" where
  "ptc_shell q = on_shell (p1 q, p2 q, p3 q, E q)"

text \<open>A photon that can make a pair: its energy squared is not below the 4.01 of the code.\<close>

definition ph_massless :: "single_ph_t \<Rightarrow> bool" where
  "ph_massless h = (0 \<le> E h \<and> E h * E h = p1 h * p1 h + p2 h * p2 h + p3 h * p3 h \<and> 401 / 100 \<le> E h * E h)"

definition photon_from :: "single_ptc_t \<Rightarrow> scalar \<Rightarrow> scalar \<Rightarrow> single_ph_t \<Rightarrow> bool" where
  "photon_from q Eph pin h = (cell h = cell q \<and> weight h = weight q \<and> E h = Eph
     \<and> p1 h = Eph * p1 q / pin \<and> p2 h = Eph * p2 q / pin \<and> p3 h = Eph * p3 q / pin)"

lemma write_photons_effect:
  assumes "\<forall>i \<in> set is. off + i < length d" "distinct is" "length d < 2 ^ 63"
  shows "\<exists>d' r'. write_photons lph Eph pin q off is (d, r) = Some (d', r') \<and> length d' = length d
    \<and> (\<forall>k. k \<notin> (+) off ` set is \<longrightarrow> d' ! k = d ! k) \<and> (\<forall>i \<in> set is. photon_from q Eph pin (d' ! (off + i)))"
  using assms
proof (induction "is" arbitrary: d r)
  case (Cons j js)
  obtain u r' where u: "rng_uniform r = (u, r')" by (cases "rng_uniform r")
  let ?k = "off + j"
  let ?h = "(d ! ?k)\<lparr>x1 := x1 q, x2 := x2 q, x3 := x3 q, p1 := Eph * p1 q / pin, p2 := Eph * p2 q / pin,
      p3 := Eph * p3 q / pin, E := Eph, weight := weight q, path_left := lph * (9 / 10 + 2 / 10 * u), cell := cell q\<rparr>"
  have k: "?k < length d" "size_add off j = ?k" using Cons.prems by (auto simp: size_add_def)
  obtain d' s where t: "write_photons lph Eph pin q off js (d[?k := ?h], r') = Some (d', s)" "length d' = length d"
    "\<forall>k. k \<notin> (+) off ` set js \<longrightarrow> d' ! k = d[?k := ?h] ! k" "\<forall>i \<in> set js. photon_from q Eph pin (d' ! (off + i))"
    using Cons.IH[of "d[?k := ?h]" r'] Cons.prems by auto
  have "?k \<notin> (+) off ` set js" using Cons.prems(2) by auto
  then have "d' ! ?k = ?h" using t(3) k(1) by simp
  then have "photon_from q Eph pin (d' ! ?k)" by (simp add: photon_from_def)
  moreover have "write_photons lph Eph pin q off (j # js) (d, r) = Some (d', s)"
    using u k t(1) by (simp add: Let_def)
  ultimately show ?case using t by auto
qed simp

lemma radiated_shell:
  assumes "on_shell (a, b, c, G)" "1 < G" "1 \<le> e"
  shows "on_shell (a * sqrt (e * e - 1) / sqrt (G * G - 1), b * sqrt (e * e - 1) / sqrt (G * G - 1),
    c * sqrt (e * e - 1) / sqrt (G * G - 1), e)"
    and "(x * a / sqrt (G * G - 1)) * (x * a / sqrt (G * G - 1)) + (x * b / sqrt (G * G - 1)) * (x * b / sqrt (G * G - 1))
      + (x * c / sqrt (G * G - 1)) * (x * c / sqrt (G * G - 1)) = x * x"
proof -
  let ?i = "sqrt (G * G - 1)" and ?f = "sqrt (e * e - 1)"
  have pos: "0 \<le> 1 + (a * a + b * b + c * c)" by simp
  then have G2: "G * G = 1 + (a * a + b * b + c * c)" using assms(1) by (simp add: on_shell_def)
  have "1 < G * G" using assms(2) by (metis less_1_mult)
  then have i: "?i * ?i = a * a + b * b + c * c" "?i \<noteq> 0" using G2 by simp_all
  have "1 \<le> e * e" using mult_mono[of 1 e 1 e] assms(3) by simp
  then have f: "?f * ?f = e * e - 1" by simp
  have sq: "(y * a / ?i) * (y * a / ?i) + (y * b / ?i) * (y * b / ?i) + (y * c / ?i) * (y * c / ?i) = y * y" for y
  proof -
    have "(y * a / ?i) * (y * a / ?i) + (y * b / ?i) * (y * b / ?i) + (y * c / ?i) * (y * c / ?i)
        = y * y * (a * a + b * b + c * c) / (?i * ?i)"
      using i(2) by (simp add: divide_simps) algebra
    then show ?thesis using i by simp
  qed
  then show "(x * a / ?i) * (x * a / ?i) + (x * b / ?i) * (x * b / ?i) + (x * c / ?i) * (x * c / ?i) = x * x" .
  have "e = sqrt (1 + ?f * ?f)" using f assms(3) by simp
  then show "on_shell (a * ?f / ?i, b * ?f / ?i, c * ?f / ?i, e)"
    unfolding on_shell_def prod.case using sq[of ?f] by (simp add: mult.commute)
qed

lemma emit_law_default:
  assumes sc: "scheme_ok sc" and n: "n < length (ra_ptc a)" "live (ra_ptc a ! n)" "ptc_shell (ra_ptc a ! n)"
    and room: "ph_num + ra_pos a + nat (sint (sc_ph_per_scatter sc)) \<le> length (ra_ph a)" "length (ra_ph a) < 2 ^ 63"
  shows "\<exists>off a'. emit_photon sc g dt n ph_num a = Some (off, a')
    \<and> emitted ptc_shell ph_massless (nat (sint (sc_ph_per_scatter sc))) ph_num n a off a'"
proof (cases "E (ra_ptc a ! n) < sc_gamma_thr sc")
  case True
  then show ?thesis
    using n room unfolding emit_photon_def emitted_def
    by (intro exI[of _ 0] exI[of _ a] conjI exI[of _ "ra_ptc a ! n"]) (simp_all add: same_place_def wrote_def)
next
  case False
  let ?q = "ra_ptc a ! n" and ?k = "sint (sc_ph_per_scatter sc)" and ?K = "nat (sint (sc_ph_per_scatter sc))"
  let ?G = "E ?q" and ?Eph = "sc_E_s sc * 2" and ?b = "ph_num + ra_pos a"
  let ?e = "?G - ?Eph * of_int ?k" and ?pin = "sqrt (?G * ?G - 1)"
  have k: "0 < ?k" "of_int ?k = real ?K" "0 < ?Eph" "401 / 100 \<le> ?Eph * ?Eph" "?Eph * of_int ?k + 1 \<le> sc_gamma_thr sc"
    using sc by (simp_all add: scheme_ok_def power2_eq_square algebra_simps)
  have "0 < real ?K" using k(1) by (simp only: of_nat_0_less_iff zero_less_nat_eq)
  with k(3) have "0 < ?Eph * real ?K" by (rule mult_pos_pos)
  then have "0 < ?Eph * of_int ?k" by (simp only: k(2))
  then have G: "1 < ?G" "1 \<le> ?e" using False k(5) by linarith+
  have ad: "size_add ph_num (ra_pos a) = ?b" "size_add (ra_pos a) (to_size ?k) = ra_pos a + ?K"
    using room k(1) by (simp_all add: size_add_def to_size_def nat_less_iff)
  let ?pf = "sqrt (?e * ?e - 1)"
  let ?q' = "?q\<lparr>p1 := p1 ?q * ?pf / ?pin, p2 := p2 ?q * ?pf / ?pin, p3 := p3 ?q * ?pf / ?pin, E := ?e\<rparr>"
  have pre: "\<forall>i \<in> set [0..<?K]. ?b + i < length (ra_ph a)" using room by auto
  obtain d r where w: "write_photons (sc_photon_path sc) ?Eph ?pin ?q ?b [0..<?K] (ra_ph a, ra_rng a) = Some (d, r)"
    "length d = length (ra_ph a)" "\<forall>k. k \<notin> (+) ?b ` set [0..<?K] \<longrightarrow> d ! k = ra_ph a ! k"
    "\<forall>i \<in> set [0..<?K]. photon_from ?q ?Eph ?pin (d ! (?b + i))"
    using write_photons_effect[OF pre distinct_upt room(2), of "sc_photon_path sc" ?Eph ?pin ?q "ra_rng a"] by blast
  let ?a = "a\<lparr>ra_ptc := (ra_ptc a)[n := ?q'], ra_ph := d, ra_pos := ra_pos a + ?K, ra_rng := r\<rparr>"
  have run: "emit_photon sc g dt n ph_num a = Some (?b, ?a)"
    using False w(1) by (simp add: emit_photon_def ad Let_def)
  have sh: "on_shell (p1 ?q, p2 ?q, p3 ?q, ?G)" using n(3) by (simp add: ptc_shell_def)
  have good: "ptc_shell ?q'" using radiated_shell(1)[OF sh G] by (simp add: ptc_shell_def)
  have ph: "photon_from ?q ?Eph ?pin (d ! (?b + i))" if "i < ?K" for i using w(4) that by simp
  then have lv: "live (d ! (?b + i)) \<and> ph_massless (d ! (?b + i))" and en: "energy_of (d ! (?b + i)) = weight ?q * ?Eph" if "i < ?K" for i
    using n(2) k(3,4) radiated_shell(2)[OF sh G, of ?Eph] that
    by (auto simp: photon_from_def live_def ph_massless_def energy_of_def)
  have wr: "wrote ?b ?K (ra_ph a) d"
    using w(2,3) room(1) by (auto simp: wrote_def)
  have "energy_of ?q' = weight ?q * ?e" using n(2) by (simp add: energy_of_def live_def)
  moreover have "energy_of ?q = weight ?q * ?G" using n(2) by (simp add: energy_of_def)
  moreover have "(\<Sum>i<?K. energy_of (d ! (?b + i))) = real ?K * (weight ?q * ?Eph)" by (simp add: en)
  moreover have "weight ?q * ?e = weight ?q * ?G - real ?K * (weight ?q * ?Eph)"
    by (simp only: k(2) algebra_simps)
  ultimately have bal: "energy_of ?q = energy_of ?q' + (\<Sum>i<?K. energy_of (d ! (?b + i)))"
    by linarith
  have sp: "same_place ?q ?q'" by (simp add: same_place_def ptc_x_def)
  have "emitted ptc_shell ph_massless ?K ph_num n a ?b ?a"
    unfolding emitted_def using good sp wr lv bal room(1)
    by (intro exI[of _ ?q'] exI[of _ ?K] conjI) simp_all
  then show ?thesis using run by blast
qed

lemma secondary_deposits: "deposits (set_ptc_type_flag (flag_or [9]) ty)"
  unfolding deposits_def
  by (simp add: check_set_ptc_type del: flag_or.simps) (simp add: check_flag_bit bit_flag_or del: flag_or.simps)

lemma produce_law_default:
  assumes n: "n < length (ra_ph a)" "live (ra_ph a ! n)" "ph_massless (ra_ph a ! n)"
    and room: "ptc_num + ra_pos a + 2 \<le> length (ra_ptc a)" "length (ra_ptc a) < 2 ^ 63"
  shows "\<exists>off a'. produce_pair g dt n ptc_num a = Some (off, a') \<and> pair_made ptc_shell ptc_num n a off a'"
proof (cases "path_left (ra_ph a ! n) > 0")
  case True
  then show ?thesis by (auto simp: produce_pair_def pair_made_def)
next
  case False
  let ?h = "ra_ph a ! n" and ?b = "ptc_num + ra_pos a"
  let ?S = "p1 ?h * p1 ?h + p2 ?h * p2 ?h + p3 ?h * p3 ?h"
  have S: "401 / 100 \<le> ?S" "E ?h * E ?h = ?S" "0 \<le> E ?h" using n(3) by (simp_all add: ph_massless_def)
  have "1 / ?S \<le> 1 / 4" using S(1) by (simp add: divide_simps)
  then have r: "pair_ratio ?S * pair_ratio ?S = 1 / 4 - 1 / ?S" by (simp add: pair_ratio_def)
  then have rS: "1 + pair_ratio ?S * pair_ratio ?S * ?S = (E ?h / 2) * (E ?h / 2)" using S by (simp add: field_simps)
  then have g: "sqrt (1 + pair_ratio ?S * pair_ratio ?S * ?S) = E ?h / 2" unfolding rS real_sqrt_abs2 using S(3) by simp
  have sh: "ptc_shell (pair_member ?h ty q)" for ty q
    using S(1) by (simp add: ptc_shell_def on_shell_def pair_member_def Let_def algebra_simps)
  have E2: "E (pair_member ?h ty q) = E ?h / 2" for ty q
    using S(1) g by (simp add: pair_member_def Let_def)
  have fl: "get_ptc_type (flag (pair_member ?h ty q)) = PtcType_code ty" "deposits (flag (pair_member ?h ty q))" for ty q
    by (simp_all add: pair_member_def Let_def get_set_ptc_type secondary_deposits del: flag_or.simps)
  have pr: "pair_of ptc_shell ?h (pair_member ?h electron q) (pair_member ?h positron q')" for q q'
    using sh E2 fl unfolding pair_of_def by (simp add: pair_member_def Let_def ptc_x_def)
  have ad: "size_add ptc_num (ra_pos a) = ?b" "size_add ?b 1 = ?b + 1" "size_add (ra_pos a) 2 = ra_pos a + 2"
    using room by (simp_all add: size_add_def)
  have "\<exists>a'. produce_pair g dt n ptc_num a = Some (?b, a') \<and> pair_made ptc_shell ptc_num n a ?b a'"
    using False room pr by (auto simp: produce_pair_def pair_made_def write_pair_def ad Let_def simp del: One_nat_def)
  then show ?thesis by blast
qed

interpretation radiation: radiation_policy emit_photon "\<lambda>_. produce_pair" scheme_ok ptc_shell ph_massless
  "\<lambda>sc. nat (sint (sc_ph_per_scatter sc))"
  by unfold_locales
    (use emit_law_default produce_law_default in \<open>simp_all add: ptc_shell_def ph_massless_def\<close>)

subsection \<open>Properties\<close>

lemma density_upto_take:
  "m \<le> length d \<Longrightarrow> density_upto n g charges m d P = charge_density n g charges (take m d) P"
  by (simp add: density_upto_def charge_density_nth interv_sum_list_conv_sum_set_nat atLeast0LessThan)

lemma rad_sound_density:
  "rad_sound good ph_good s \<Longrightarrow>
    rad_density n g charges s P = charge_density n g charges (take (m_number (rt_ptc s)) (data (rt_ptc s))) P"
  by (simp add: rad_density_def rad_sound_def density_upto_take)

text \<open>
  C3.  The radiative transfer with the default scheme neither makes nor loses energy or
  charge.  When the parameters leave a radiating particle above its rest energy, live
  particles are on their mass shell, live photons are massless and above the threshold of
  the code, there are particles, and the arrays have room for all that can be made, then an
  update returns; particles and photons together have the same energy, the charge density of
  the particles is the same at every node, and the arrays are as good as before.
\<close>

theorem rad_update_conserves:
  assumes "scheme_ok sc" "rad_sound ptc_shell ph_massless s" "0 < m_number (rt_ptc s)"
    "rt_ph_per_scatter s = sc_ph_per_scatter sc"
    "m_number (rt_ph s) + nat (sint (sc_ph_per_scatter sc)) * m_number (rt_ptc s) \<le> m_size (rt_ph s)"
    "m_number (rt_ptc s) + 2 * (m_number (rt_ph s) + nat (sint (sc_ph_per_scatter sc)) * m_number (rt_ptc s))
       \<le> m_size (rt_ptc s)"
    "charges ! 0 = - charges ! (1 :: nat)"
  shows "\<exists>s'. rad_update (emit_photon sc) produce_pair g cm dt s = Some s'
    \<and> rad_sound ptc_shell ph_massless s' \<and> rad_energy s' = rad_energy s
    \<and> (\<forall>P. charge_density n g charges (take (m_number (rt_ptc s')) (data (rt_ptc s'))) P
          = charge_density n g charges (take (m_number (rt_ptc s)) (data (rt_ptc s))) P)"
proof -
  obtain s' where u: "rad_update (emit_photon sc) produce_pair g cm dt s = Some s'"
    "conserves ptc_shell ph_massless n g charges s s'"
    using radiation.rad_update_keeps[OF assms(1,2,3,5,6) _ assms(7), of g cm dt n] assms(4) by auto
  then have "rad_sound ptc_shell ph_massless s'" "rad_energy s' = rad_energy s"
    "rad_density n g charges s' = rad_density n g charges s" by (simp_all add: conserves_def)
  then show ?thesis
    using u(1) rad_sound_density[of ptc_shell ph_massless] assms(2) by metis
qed

text \<open>An electron of Lorentz factor 100 in cell 3, and room for what it radiates.\<close>

definition hot_electron :: single_ptc_t where
  "hot_electron = line_electron\<lparr>p1 := sqrt 9999, E := 100\<rparr>"

definition rad_example :: radiative_transfer where
  "rad_example = \<lparr>rt_ptc = \<lparr>data = hot_electron # replicate 3 line_electron, m_size = 4, m_number = 1,
       m_sort_segment_size = 4, m_ptc_id = 1, m_segment_nums = [], m_index = [], m_partition = []\<rparr>,
     rt_ph = \<lparr>data = replicate 2 single_ph_default, m_size = 2, m_number = 0,
       m_sort_segment_size = 2, m_ptc_id = 0, m_segment_nums = [], m_index = [], m_partition = []\<rparr>,
     rt_photon_produced = (\<lambda>_. 0), rt_pair_produced = (\<lambda>_. 0), rt_rng = rand_init 1, rt_ph_number = [0],
     rt_emit_photons = True, rt_produce_pairs = True, rt_data_interval = 1, rt_sort_interval = 20,
     rt_ph_per_scatter = 1, rt_tracked_fraction = 1 / 100, rt_track_rank = 0\<rparr>"

theorem rad_update_conserves_witness:
  "\<exists>s'. rad_update (emit_photon default_scheme) produce_pair line_grid None (1 / 4) rad_example = Some s'
    \<and> rad_energy s' = 200"
proof -
  have sc: "scheme_ok default_scheme" by (simp add: scheme_ok_def default_scheme_def)
  have sh: "ptc_shell hot_electron"
    by (simp add: ptc_shell_def on_shell_def hot_electron_def line_electron_def)
  have s: "rad_sound ptc_shell ph_massless rad_example"
    using sh by (simp add: rad_sound_def rad_example_def)
  have e: "rad_energy rad_example = 200"
    by (simp add: rad_energy_def energy_upto_def energy_of_def rad_example_def hot_electron_def line_electron_def live_def empty_cell_def)
  show ?thesis
    using rad_update_conserves[OF sc s, of "[- 1, 1]" line_grid None "1 / 4" 1] e
    by (auto simp: rad_example_def default_scheme_def)
qed

text \<open>
  C39.  The first pair in an empty particle array.  The policy returns its offset 0, which the
  caller takes for no pair: both particles are made, the photon stays where it is, ready to
  make another pair in the next step, and the energy has grown by that of the photon.
\<close>

theorem pair_in_empty_array:
  assumes "rad_sound ptc_shell ph_massless s" "m_number (rt_ptc s) = 0" "m_number (rt_ph s) = 1" "2 \<le> m_size (rt_ptc s)"
    "live (data (rt_ph s) ! 0)" "is_in_bound g (get_pos (extent g) (ucast (cell (data (rt_ph s) ! 0))))"
    "path_left (data (rt_ph s) ! 0) \<le> 0"
  shows "\<exists>s'. create_pairs produce_pair g dt s = Some s' \<and> m_number (rt_ptc s') = 2
    \<and> data (rt_ph s') = data (rt_ph s) \<and> m_number (rt_ph s') = 1
    \<and> rad_energy s' = rad_energy s + energy_of (data (rt_ph s) ! 0)"
proof -
  let ?h = "data (rt_ph s) ! 0" and ?a = "loaded s"
  have L: "0 < length (ra_ph ?a)" "0 + ra_pos ?a + 2 \<le> length (ra_ptc ?a)" "length (ra_ptc ?a) < 2 ^ 63"
    using assms(1,3,4) by (auto simp: rad_sound_def)
  have gd: "ph_massless ?h" using assms(1,3,5) by (simp add: rad_sound_def)
  obtain off b where p: "produce_pair g dt 0 0 ?a = Some (off, b)" "pair_made ptc_shell 0 0 ?a off b"
    using produce_law_default[OF L(1) _ _ L(2,3)] assms(5) gd by fastforce
  have off: "off = 0" "ra_pos b = 2"
    using p(1) assms(7) by (auto simp: produce_pair_def size_add_def Let_def)
  obtain e q where d: "ra_ptc b = (data (rt_ptc s))[0 := e, 1 := q]" "pair_of ptc_shell ?h e q" "ra_ph b = data (rt_ph s)"
    using p(2) off by (auto simp: pair_made_def)
  let ?p = "(rt_ptc s)\<lparr>data := ra_ptc b\<rparr>"
  let ?s = "s\<lparr>rt_ptc := add_num 2 ?p, rt_rng := ra_rng b\<rparr>"
  have one: "create_one produce_pair fr rank g dt 0 0 (?a, nid, pr) = Some (b, nid, pr)" for fr rank nid pr
    using p(1) off L(1) assms(5,6) by (simp add: create_one_def Let_def live_def)
  have "create_pairs produce_pair g dt s = Some ?s"
    using assms(2,3) one size_to_int_small[of 1] off d(3) by (simp add: create_pairs_def Let_def)
  moreover have n: "m_number (add_num 2 ?p) = 2"
    using assms(1,2,4) add_num_small[of ?p 2] by (simp add: rad_sound_def)
  moreover have l: "0 < length (data (rt_ptc s))" "1 < length (data (rt_ptc s))" using L(2) by auto
  then have "ra_ptc b ! 0 = e" "ra_ptc b ! 1 = q" by (simp_all add: d(1))
  then have "energy_upto 2 (ra_ptc b) = energy_of ?h"
    using pair_energy[OF d(2) assms(5)] by (simp add: energy_upto_def numeral_2_eq_2)
  then have "rad_energy ?s = rad_energy s + energy_of ?h"
    using assms(2) by (simp add: rad_energy_def n) (simp add: energy_upto_def)
  ultimately show ?thesis using assms(3) d(3) by (intro exI[of _ ?s]) simp
qed

definition ready_photon :: single_ph_t where
  "ready_photon = single_ph_default\<lparr>p1 := 4, E := 4, weight := 1, cell := 3\<rparr>"

theorem pair_in_empty_array_witness:
  "\<exists>s'. create_pairs produce_pair line_grid (1 / 4)
      (rad_example\<lparr>rt_ptc := (rt_ptc rad_example)\<lparr>m_number := 0\<rparr>,
         rt_ph := (rt_ph rad_example)\<lparr>data := [ready_photon], m_size := 1, m_number := 1\<rparr>\<rparr>) = Some s'
    \<and> m_number (rt_ptc s') = 2 \<and> data (rt_ph s') = [ready_photon]"
proof -
  let ?s = "rad_example\<lparr>rt_ptc := (rt_ptc rad_example)\<lparr>m_number := 0\<rparr>,
         rt_ph := (rt_ph rad_example)\<lparr>data := [ready_photon], m_size := 1, m_number := 1\<rparr>\<rparr>"
  have h: "ph_massless ready_photon" "live ready_photon" "path_left ready_photon = 0" "cell ready_photon = 3"
    by (simp_all add: ph_massless_def live_def empty_cell_def ready_photon_def single_ph_default_def ptc_default_def
        ptc_common.defs single_ph_t.defs)
  have b: "is_in_bound line_grid (get_pos (extent line_grid) 3)"
    by (simp add: is_in_bound_def g_dim_def line_grid_def get_pos_def extent_def col_get_pos1_def)
  have "rad_sound ptc_shell ph_massless ?s" using h by (simp add: rad_sound_def rad_example_def)
  from pair_in_empty_array[OF this, of line_grid "1 / 4"] h b
  show ?thesis by (auto simp: rad_example_def)
qed

end
