(* ===== verification/Injector.thy ===== *)
theory Injector
  imports RadConserve
begin

text \<open>
  The particle injector of the host, \<open>src/systems/ptc_injector_host.hpp\<close>.  The functions
  of a call (where to inject, how many particles, their momenta and weights) are arguments,
  as they are template parameters in the code.  The three random coordinates are drawn from
  left to right, an order the code leaves to the compiler.
\<close>

subsection \<open>Injection\<close>

type_synonym f_dist = "scalar list \<Rightarrow> rand_state \<Rightarrow> PtcType \<Rightarrow> scalar list \<times> rand_state"
type_synonym f_weight = "scalar list \<Rightarrow> PtcType \<Rightarrow> scalar"

record ptc_injector =
  inj_ptc :: "single_ptc_t particles"
  inj_rng :: rand_state
  inj_tracked_fraction :: real
  inj_rank :: u64

definition injector_new ::
  "single_ptc_t particles \<Rightarrow> rand_state \<Rightarrow> u64 \<Rightarrow> params \<Rightarrow> ptc_injector \<times> params" where
  "injector_new parts rng rank m =
     (let (tf, m) = get_value_float ''tracked_fraction'' 0 m
      in (\<lparr>inj_ptc = parts, inj_rng = rng, inj_tracked_fraction = tf, inj_rank = rank\<rparr>, m))"

type_synonym inject_state = "single_ptc_t list \<times> rand_state \<times> u64"

definition inject_member ::
  "i64 \<Rightarrow> scalar list \<Rightarrow> scalar list \<Rightarrow> scalar \<Rightarrow> u32 \<Rightarrow> PtcType \<Rightarrow> u64 \<Rightarrow> single_ptc_t \<Rightarrow> single_ptc_t" where
  "inject_member idx x p w fl ty k q =
     q\<lparr>cell := ucast idx, x1 := x ! 0, x2 := x ! 1, x3 := x ! 2, p1 := p ! 0, p2 := p ! 1, p3 := p ! 2,
       E := sqrt (1 + vec_dot p p), weight := w, flag := set_ptc_type_flag fl ty, pid := k\<rparr>"

definition inject_pair ::
  "f_dist \<Rightarrow> f_weight \<Rightarrow> u32 \<Rightarrow> real \<Rightarrow> u64 \<Rightarrow> Grid \<Rightarrow> i64 \<Rightarrow> nat \<Rightarrow> nat \<Rightarrow> inject_state \<Rightarrow> inject_state option" where
  "inject_pair fd fw fl fr rank g idx off_e off_p = (\<lambda>(d, r, base).
     (let pos = get_pos (extent g) idx;
          (a, r) = rng_uniform r; (b, r) = rng_uniform r; (c, r) = rng_uniform r;
          x = [a, b, c]; xg = coord_global g pos x;
          (pe, r) = fd xg r electron; (pp, r) = fd xg r positron;
          (u, r) = rng_uniform r;
          lf = (if \<not> check_flag fl (PtcFlag_code ignore_tracking) \<and> u < fr then set_flag fl [PtcFlag_code tracked] else fl)
      in if off_e < length d \<and> off_p < length d then
           let d = d[off_e := inject_member idx x pe (fw xg electron) lf electron (rank + base) (d ! off_e)];
               d = d[off_p := inject_member idx x pp (fw xg positron) lf positron (rank + (base + 1)) (d ! off_p)]
           in Some (d, r, base + 2)
         else None))"

text \<open>The pairs of one cell; the offsets are computed in 32 bits, a full array ends the loop.\<close>

fun inject_loop ::
  "f_dist \<Rightarrow> f_weight \<Rightarrow> u32 \<Rightarrow> real \<Rightarrow> u64 \<Rightarrow> Grid \<Rightarrow> nat \<Rightarrow> i64 \<Rightarrow> nat \<Rightarrow> nat list \<Rightarrow> inject_state \<Rightarrow> inject_state option" where
  "inject_loop fd fw fl fr rank g max_num idx start [] st = Some st"
| "inject_loop fd fw fl fr rank g max_num idx start (n # ns) st =
     (let off_e = word_of_nat (start + n) :: u32; off_p = off_e + 1
      in if unat off_e \<ge> max_num \<or> unat off_p \<ge> max_num then Some st
         else Option.bind (inject_pair fd fw fl fr rank g idx (unat off_e) (unat off_p) st)
                (inject_loop fd fw fl fr rank g max_num idx start ns))"

definition inject_cell ::
  "(index_t \<Rightarrow> bool) \<Rightarrow> (index_t \<Rightarrow> i32) \<Rightarrow> f_dist \<Rightarrow> f_weight \<Rightarrow> u32 \<Rightarrow> real \<Rightarrow> u64 \<Rightarrow> Grid \<Rightarrow> nat \<Rightarrow> nat \<Rightarrow> nat
   \<Rightarrow> inject_state \<times> nat \<Rightarrow> (inject_state \<times> nat) option" where
  "inject_cell crit f_num fd fw fl fr rank g num max_num k = (\<lambda>(st, cum_num).
     (let idx = word_of_nat k; pos = get_pos (extent g) idx
      in if is_in_bound g pos then
           let num_inject = (if crit pos then sint (f_num pos) else 0)
           in if num_inject > 0 then
                map_option (\<lambda>st. (st, size_add cum_num (to_size num_inject)))
                  (inject_loop fd fw fl fr rank g max_num idx (size_add num cum_num)
                     (map ((*) 2) [0..<(nat num_inject + 1) div 2]) st)
              else Some (st, cum_num)
         else Some (st, cum_num)))"

text \<open>The counter of the identifiers is a copy; the one of the particles stays as it was.\<close>

definition inject_pairs ::
  "(index_t \<Rightarrow> bool) \<Rightarrow> (index_t \<Rightarrow> i32) \<Rightarrow> f_dist \<Rightarrow> f_weight \<Rightarrow> u32 \<Rightarrow> Grid \<Rightarrow> ptc_injector \<Rightarrow> ptc_injector option" where
  "inject_pairs crit f_num fd fw fl g s =
     (let num = m_number (inj_ptc s); max_num = m_size (inj_ptc s);
          rank = push_bit 32 (inj_rank s)
      in map_option (\<lambda>((d, r, base), cum_num).
             s\<lparr>inj_ptc := add_num cum_num ((inj_ptc s)\<lparr>data := d\<rparr>), inj_rng := r\<rparr>)
           (fold_opt (inject_cell crit f_num fd fw fl (inj_tracked_fraction s) rank g num max_num)
              [0..<unat (extent_size (extent g))]
              ((data (inj_ptc s), inj_rng s, ucast (m_ptc_id (inj_ptc s))), 0)))"

subsection \<open>What a cell gets\<close>

definition inj_count :: "(index_t \<Rightarrow> bool) \<Rightarrow> (index_t \<Rightarrow> i32) \<Rightarrow> Grid \<Rightarrow> nat \<Rightarrow> nat" where
  "inj_count crit f_num g i =
     (let pos = get_pos (extent g) (word_of_nat i)
      in if is_in_bound g pos \<and> crit pos then nat (sint (f_num pos)) else 0)"

definition inj_before :: "(index_t \<Rightarrow> bool) \<Rightarrow> (index_t \<Rightarrow> i32) \<Rightarrow> Grid \<Rightarrow> nat \<Rightarrow> nat" where
  "inj_before crit f_num g k = (\<Sum>i<k. inj_count crit f_num g i)"

text \<open>A pair in cell \<open>i\<close>: one place, opposite species, the identifiers \<open>b\<close> and \<open>b + 1\<close>.\<close>

definition injected_pair ::
  "f_weight \<Rightarrow> Grid \<Rightarrow> nat \<Rightarrow> u64 \<Rightarrow> single_ptc_t \<Rightarrow> single_ptc_t \<Rightarrow> bool" where
  "injected_pair fw g i b e p =
     (cell e = of_nat i \<and> cell p = of_nat i \<and> ptc_x p = ptc_x e \<and> (\<forall>c<3. 0 \<le> ptc_x e ! c \<and> ptc_x e ! c \<le> 1)
      \<and> get_ptc_type (flag e) = PtcType_code electron \<and> get_ptc_type (flag p) = PtcType_code positron
      \<and> (\<forall>f<28. check_flag (flag e) f = check_flag (flag p) f)
      \<and> (let xg = coord_global g (get_pos (extent g) (word_of_nat i)) (ptc_x e)
         in weight e = fw xg electron \<and> weight p = fw xg positron)
      \<and> ptc_shell e \<and> ptc_shell p \<and> pid e = b \<and> pid p = b + 1)"

lemma rng_uniform_range: "rng_uniform r = (u, r') \<Longrightarrow> 0 \<le> u \<and> u \<le> 1"
proof -
  assume "rng_uniform r = (u, r')"
  then have u: "u = real_of_int (uint (fst (rng_next r))) / 2 ^ 64" by (simp add: rng_uniform_def case_prod_beta)
  have "uint (fst (rng_next r)) \<le> 2 ^ 64" using uint_lt2p[of "fst (rng_next r)"] by simp
  then have "real_of_int (uint (fst (rng_next r))) \<le> real_of_int (2 ^ 64)" by (simp only: of_int_le_iff)
  moreover have "0 \<le> real_of_int (uint (fst (rng_next r)))" by (simp only: of_int_0_le_iff uint_ge_0)
  ultimately show ?thesis unfolding u by (simp only: of_int_power of_int_numeral) (simp add: divide_le_eq)
qed

lemma ucast_nat_cell: "ucast (word_of_nat i :: i64) = (word_of_nat i :: u32)"
  by (rule bit_word_eqI) (simp add: bit_simps)

lemma inject_member_simps [simp]:
  "cell (inject_member idx x p w fl ty k q) = ucast idx" "ptc_x (inject_member idx [a, b, c] p w fl ty k q) = [a, b, c]"
  "flag (inject_member idx x p w fl ty k q) = set_ptc_type_flag fl ty" "weight (inject_member idx x p w fl ty k q) = w"
  "pid (inject_member idx x p w fl ty k q) = k"
  by (simp_all add: inject_member_def ptc_x_def)

lemma inject_member_shell: "length p = 3 \<Longrightarrow> ptc_shell (inject_member idx x p w fl ty k q)"
  by (auto simp: numeral_3_eq_3 length_Suc_conv ptc_shell_def on_shell_def inject_member_def vec_dot_def add.assoc)

text \<open>The distributions of momenta return vectors of three components.\<close>

definition momenta_3d :: "f_dist \<Rightarrow> bool" where
  "momenta_3d fd = (\<forall>xg r ty. length (fst (fd xg r ty)) = 3)"

lemma inject_pair_effect:
  assumes fd: "momenta_3d fd" and o: "k + 1 < length d"
  shows "\<exists>e p r'. inject_pair fd fw fl fr rank g (word_of_nat i) k (k + 1) (d, r, base) = Some (d[k := e, k + 1 := p], r', base + 2)
    \<and> injected_pair fw g i (rank + base) e p"
proof -
  let ?idx = "word_of_nat i :: i64"
  obtain a ra where a: "rng_uniform r = (a, ra)" by (cases "rng_uniform r")
  obtain b rb where b: "rng_uniform ra = (b, rb)" by (cases "rng_uniform ra")
  obtain c rc where c: "rng_uniform rb = (c, rc)" by (cases "rng_uniform rb")
  let ?xg = "coord_global g (get_pos (extent g) ?idx) [a, b, c]"
  obtain pe re where e: "fd ?xg rc electron = (pe, re)" by (cases "fd ?xg rc electron")
  obtain pp rp where p: "fd ?xg re positron = (pp, rp)" by (cases "fd ?xg re positron")
  obtain u ru where u: "rng_uniform rp = (u, ru)" by (cases "rng_uniform rp")
  let ?lf = "if \<not> check_flag fl (PtcFlag_code ignore_tracking) \<and> u < fr then set_flag fl [PtcFlag_code tracked] else fl"
  let ?e = "inject_member ?idx [a, b, c] pe (fw ?xg electron) ?lf electron (rank + base) (d ! k)"
  let ?p = "inject_member ?idx [a, b, c] pp (fw ?xg positron) ?lf positron (rank + (base + 1)) (d ! (k + 1))"
  have run: "inject_pair fd fw fl fr rank g ?idx k (k + 1) (d, r, base) = Some (d[k := ?e, k + 1 := ?p], ru, base + 2)"
    using o by (simp add: inject_pair_def a b c e p u Let_def)
  have l: "length pe = 3" "length pp = 3" using fd e p unfolding momenta_3d_def by (metis fst_conv)+
  have x: "0 \<le> a \<and> a \<le> 1" "0 \<le> b \<and> b \<le> 1" "0 \<le> c \<and> c \<le> 1"
    using a b c rng_uniform_range by blast+
  have "\<forall>i<3. 0 \<le> [a, b, c] ! i \<and> [a, b, c] ! i \<le> 1" using x by (simp add: less_Suc_eq numeral_3_eq_3)
  then have "injected_pair fw g i (rank + base) ?e ?p"
    using inject_member_shell[OF l(1)] inject_member_shell[OF l(2)] unfolding injected_pair_def
    by (simp add: ucast_nat_cell get_set_ptc_type check_set_ptc_type Let_def add.assoc)
  then show ?thesis using run by blast
qed

lemma injected_pair_density:
  assumes "injected_pair fw g i b e p" "charges ! 0 = - charges ! (1 :: nat)" "\<And>x. fw x positron = fw x electron"
  shows "ptc_density n g charges e P + ptc_density n g charges p P = 0"
proof -
  have "ptc_shape n g e P = ptc_shape n g p P" "live e = live p" "ptc_charge charges e = - ptc_charge charges p"
    "deposits (flag e) = deposits (flag p)"
    using assms by (simp_all add: injected_pair_def ptc_shape_def ptc_pos_def live_def ptc_charge_def Let_def deposits_def)
  then show ?thesis by (simp add: ptc_density_def)
qed

subsection \<open>The loops\<close>

text \<open>After \<open>m\<close> pairs of cell \<open>i\<close>, of which the first goes to place \<open>b\<close>.\<close>

definition cell_filled ::
  "f_weight \<Rightarrow> Grid \<Rightarrow> u64 \<Rightarrow> nat \<Rightarrow> nat \<Rightarrow> nat \<Rightarrow> single_ptc_t list \<Rightarrow> single_ptc_t list \<Rightarrow> bool" where
  "cell_filled fw g b0 i b m D d =
     (length d = length D \<and> (\<forall>j<b. d ! j = D ! j)
      \<and> (\<forall>j<m. injected_pair fw g i (b0 + of_nat (2 * j)) (d ! (b + 2 * j)) (d ! (b + 2 * j + 1))))"

lemma inject_loop_effect:
  assumes fd: "momenta_3d fd"
    and room: "b + 2 * K \<le> M" "M = length D" "M < 2 ^ 31"
  shows "m \<le> K \<Longrightarrow> cell_filled fw g (rank + b0) i b m D d \<Longrightarrow>
    \<exists>d' r'. inject_loop fd fw fl fr rank g M (word_of_nat i) b (map ((*) 2) [m..<K]) (d, r, b0 + of_nat (2 * m))
        = Some (d', r', b0 + of_nat (2 * K)) \<and> cell_filled fw g (rank + b0) i b K D d'"
proof (induction "K - m" arbitrary: m d r)
  case 0
  then show ?case by simp
next
  case (Suc t)
  then have m: "m < K" by simp
  let ?k = "b + 2 * m"
  have k: "?k + 1 < length d" "?k + 1 < M" using room m Suc.prems(2) by (auto simp: cell_filled_def)
  have w: "unat (word_of_nat ?k :: u32) = ?k" "unat (word_of_nat ?k + 1 :: u32) = ?k + 1"
  proof -
    have wd: "unat (word_of_nat x :: u32) = x" if "x < 2 ^ 32" for x
      using that by (simp add: unsigned_of_nat take_bit_nat_eq_self)
    have lt: "?k < 2 ^ 32" "?k + 1 < 2 ^ 32" using k(2) room(3) by simp_all
    show "unat (word_of_nat ?k :: u32) = ?k" by (rule wd[OF lt(1)])
    have "word_of_nat ?k + 1 = (word_of_nat (?k + 1) :: u32)" by (simp only: of_nat_add of_nat_1)
    then show "unat (word_of_nat ?k + 1 :: u32) = ?k + 1" by (simp only: wd[OF lt(2)])
  qed
  obtain e p r' where ip: "inject_pair fd fw fl fr rank g (word_of_nat i) ?k (?k + 1) (d, r, b0 + of_nat (2 * m))
      = Some (d[?k := e, ?k + 1 := p], r', b0 + of_nat (2 * m) + 2)" "injected_pair fw g i (rank + (b0 + of_nat (2 * m))) e p"
    using inject_pair_effect[OF fd k(1)] by blast
  let ?d = "d[?k := e, ?k + 1 := p]"
  have pr: "injected_pair fw g i (rank + b0 + of_nat (2 * j)) (?d ! (b + 2 * j)) (?d ! (b + 2 * j + 1))" if "j < Suc m" for j
  proof (cases "j = m")
    case True
    then show ?thesis using ip(2) k(1) by (simp add: add.assoc)
  next
    case False
    with that have "j < m" by simp
    then have "?d ! (b + 2 * j) = d ! (b + 2 * j)" "?d ! (b + 2 * j + 1) = d ! (b + 2 * j + 1)" by simp_all
    then show ?thesis using Suc.prems(2) \<open>j < m\<close> by (simp add: cell_filled_def)
  qed
  have "cell_filled fw g (rank + b0) i b (Suc m) D ?d"
    using Suc.prems(2) pr by (simp add: cell_filled_def)
  moreover have "t = K - Suc m" "Suc m \<le> K" using Suc.hyps(2) m by simp_all
  ultimately have ih: "\<exists>d' s. inject_loop fd fw fl fr rank g M (word_of_nat i) b (map ((*) 2) [Suc m..<K]) (?d, r', b0 + of_nat (2 * Suc m))
      = Some (d', s, b0 + of_nat (2 * K)) \<and> cell_filled fw g (rank + b0) i b K D d'"
    using Suc.hyps(1) by blast
  have up: "map ((*) 2) [m..<K] = 2 * m # map ((*) 2) [Suc m..<K]" using m by (simp add: upt_conv_Cons)
  have id: "b0 + of_nat (2 * m) + 2 = b0 + of_nat (2 * Suc m)" by simp
  have one: "inject_loop fd fw fl fr rank g M (word_of_nat i) b (2 * m # ns) (d, r, b0 + of_nat (2 * m))
      = inject_loop fd fw fl fr rank g M (word_of_nat i) b ns (?d, r', b0 + of_nat (2 * m) + 2)" for ns
    using ip(1) w k(2) by (simp add: Let_def)
  show ?case unfolding up one id by (rule ih)
qed

text \<open>What the cells below \<open>k\<close> got, behind the \<open>num\<close> particles that were there.\<close>

definition injected ::
  "(index_t \<Rightarrow> bool) \<Rightarrow> (index_t \<Rightarrow> i32) \<Rightarrow> f_weight \<Rightarrow> Grid \<Rightarrow> u64 \<Rightarrow> nat \<Rightarrow> nat \<Rightarrow> single_ptc_t list \<Rightarrow> single_ptc_t list \<Rightarrow> bool" where
  "injected crit f_num fw g b0 num k D d =
     (length d = length D \<and> (\<forall>j<num. d ! j = D ! j)
      \<and> (\<forall>i<k. \<forall>j. 2 * j < inj_count crit f_num g i \<longrightarrow>
           (let m = inj_before crit f_num g i + 2 * j
            in injected_pair fw g i (b0 + of_nat m) (d ! (num + m)) (d ! (num + m + 1)))))"

lemma inj_before_Suc: "inj_before crit f_num g (Suc k) = inj_before crit f_num g k + inj_count crit f_num g k"
  by (simp add: inj_before_def)

lemma inj_before_mono: "k \<le> l \<Longrightarrow> inj_before crit f_num g k \<le> inj_before crit f_num g l"
  unfolding inj_before_def by (rule sum_mono2) auto

lemma inject_cell_none:
  "inj_count crit f_num g k = 0 \<Longrightarrow>
    inject_cell crit f_num fd fw fl fr rank g num M k (st, cum) = Some (st, cum)"
  by (auto simp: inject_cell_def inj_count_def Let_def split: if_splits)

lemma inject_cell_some:
  assumes "inj_count crit f_num g k = 2 * K" "0 < K" "num + cum + 2 * K < 2 ^ 31"
  shows "inject_cell crit f_num fd fw fl fr rank g num M k (st, cum)
    = map_option (\<lambda>st. (st, cum + 2 * K)) (inject_loop fd fw fl fr rank g M (word_of_nat k) (num + cum) (map ((*) 2) [0..<K]) st)"
proof -
  let ?p = "get_pos (extent g) (word_of_nat k)"
  have b: "is_in_bound g ?p" "crit ?p" "nat (sint (f_num ?p)) = 2 * K"
    using assms(1,2) by (auto simp: inj_count_def Let_def split: if_splits)
  then have n: "sint (f_num ?p) = int (2 * K)" using assms(2) by (metis int_nat_eq of_nat_0_less_iff mult_pos_pos zero_less_numeral less_irrefl)
  have "(nat (int (2 * K)) + 1) div 2 = K" by simp
  moreover have "size_add num cum = num + cum" "size_add cum (to_size (int (2 * K))) = cum + 2 * K"
    using assms(3) by (simp_all add: size_add_def to_size_def nat_int_add)
  ultimately show ?thesis using b(1,2) assms(2) by (simp only: inject_cell_def n Let_def) simp
qed

lemma inject_cells_effect:
  assumes fd: "momenta_3d fd"
    and ev: "\<forall>i<N. even (inj_count crit f_num g i)"
    and room: "num + inj_before crit f_num g N \<le> length D" "length D < 2 ^ 31"
  shows "\<exists>d r base. fold_opt (inject_cell crit f_num fd fw fl fr rank g num (length D)) [0..<N] ((D, r0, b0), 0)
      = Some ((d, r, base), inj_before crit f_num g N) \<and> injected crit f_num fw g (rank + b0) num N D d"
proof -
  let ?B = "inj_before crit f_num g" and ?c = "inj_count crit f_num g"
  let ?I = "\<lambda>k ((d, r :: rand_state, base), cum). cum = ?B k \<and> base = b0 + of_nat (?B k) \<and> injected crit f_num fw g (rank + b0) num k D d"
  let ?f = "inject_cell crit f_num fd fw fl fr rank g num (length D)"
  have step: "\<exists>st'. ?f k st = Some st' \<and> ?I (Suc k) st'" if k: "k < N" and I: "?I k st" for k st
  proof -
    obtain d r base cum where st: "st = ((d, r, base), cum)" using prod.exhaust by metis
    have i: "cum = ?B k" "base = b0 + of_nat (?B k)" "injected crit f_num fw g (rank + b0) num k D d" using I by (simp_all add: st)
    have "even (?c k)" using ev k by simp
    then obtain K where K: "?c k = 2 * K" by (rule evenE)
    show ?thesis
    proof (cases "K = 0")
      case True
      then have "?f k st = Some st" using inject_cell_none[of crit f_num g k] K by (simp add: st)
      moreover have "?I (Suc k) st"
        using i K True by (simp add: st inj_before_Suc injected_def less_Suc_eq)
      ultimately show ?thesis by blast
    next
      case False
      have B: "?B k + 2 * K \<le> ?B N" using inj_before_mono[of "Suc k" N crit f_num g] k K by (simp add: inj_before_Suc)
      then have bd: "num + ?B k + 2 * K \<le> length D" "num + ?B k + 2 * K < 2 ^ 31" using room by linarith+
      have len: "length D = length d" "length D < 2 ^ 31" using i(3) room(2) by (simp_all add: injected_def)
      have "cell_filled fw g (rank + base) k (num + ?B k) 0 d d" by (simp add: cell_filled_def)
      from inject_loop_effect[OF fd bd(1) len _ this, of fl fr r]
      obtain d' r' where l: "inject_loop fd fw fl fr rank g (length D) (word_of_nat k) (num + ?B k) (map ((*) 2) [0..<K]) (d, r, base)
          = Some (d', r', base + of_nat (2 * K))" and cf: "cell_filled fw g (rank + base) k (num + ?B k) K d d'"
        by auto
      have run: "?f k st = Some ((d', r', base + of_nat (2 * K)), ?B (Suc k))"
        using inject_cell_some[OF K _ bd(2), of fd fw fl fr rank "length D"] False l by (simp add: st i(1) inj_before_Suc K)
      have pr: "injected_pair fw g j (rank + b0 + of_nat (?B j + 2 * t)) (d' ! (num + (?B j + 2 * t))) (d' ! (num + (?B j + 2 * t) + 1))"
        if "j < Suc k" "2 * t < ?c j" for j t
      proof (cases "j = k")
        case True
        then have "t < K" using that K by simp
        then show ?thesis using cf True by (simp add: cell_filled_def i(2) ac_simps)
      next
        case False
        then have jk: "j < k" using that by simp
        have "even (?c j)" using ev k jk by simp
        then obtain L where L: "?c j = 2 * L" by (rule evenE)
        have "?B j + ?c j \<le> ?B k" using inj_before_mono[of "Suc j" k crit f_num g] jk by (simp add: inj_before_Suc)
        then have "num + (?B j + 2 * t) + 1 < num + ?B k" using that(2) L by simp
        then have "d' ! (num + (?B j + 2 * t)) = d ! (num + (?B j + 2 * t))"
          "d' ! (num + (?B j + 2 * t) + 1) = d ! (num + (?B j + 2 * t) + 1)"
          using cf by (simp_all add: cell_filled_def)
        then show ?thesis using i(3) jk that(2) by (simp add: injected_def Let_def)
      qed
      have "length d' = length D" "\<forall>j<num. d' ! j = D ! j" using cf i(3) by (simp_all add: cell_filled_def injected_def)
      then have "injected crit f_num fw g (rank + b0) num (Suc k) D d'"
        using pr by (simp add: injected_def Let_def)
      then have "?I (Suc k) ((d', r', base + of_nat (2 * K)), ?B (Suc k))"
        by (simp add: i(2) inj_before_Suc K add.assoc)
      then show ?thesis using run by blast
    qed
  qed
  have "?I 0 ((D, r0, b0), 0)" by (simp add: inj_before_def injected_def)
  from fold_opt_invariant[of N ?I ?f, OF step this] show ?thesis by fastforce
qed

lemma sum_pairs:
  fixes F :: "nat \<Rightarrow> real"
  assumes "\<forall>j<K. F (2 * j) + F (2 * j + 1) = 0"
  shows "(\<Sum>j<2 * K. F j) = 0"
  using assms by (induction K) auto

lemma injected_density:
  assumes inj: "injected crit f_num fw g b0 num N D d" and ev: "\<forall>i<N. even (inj_count crit f_num g i)"
    and ch: "charges ! 0 = - charges ! (1 :: nat)" "\<And>x. fw x positron = fw x electron"
  shows "k \<le> N \<Longrightarrow> density_upto n g charges (num + inj_before crit f_num g k) d P = density_upto n g charges num D P"
proof (induction k)
  case 0
  then show ?case using inj by (simp add: density_upto_def inj_before_def injected_def)
next
  case (Suc k)
  let ?b = "num + inj_before crit f_num g k"
  have "even (inj_count crit f_num g k)" using ev Suc.prems by simp
  then obtain K where K: "inj_count crit f_num g k = 2 * K" by (rule evenE)
  let ?F = "\<lambda>j. ptc_density n g charges (d ! (?b + j)) P"
  have "?F (2 * j) + ?F (2 * j + 1) = 0" if "j < K" for j
  proof -
    have "injected_pair fw g k (b0 + of_nat (inj_before crit f_num g k + 2 * j)) (d ! (?b + 2 * j)) (d ! (?b + (2 * j + 1)))"
      using inj Suc.prems that K by (auto simp: injected_def Let_def add.assoc)
    then show ?thesis by (rule injected_pair_density) (rule ch)+
  qed
  then have "(\<Sum>j<2 * K. ?F j) = 0" using sum_pairs[of K ?F] by blast
  then show ?case
    using Suc by (simp add: density_upto_def inj_before_Suc K add.assoc[symmetric] sum_more)
qed

subsection \<open>Properties\<close>

text \<open>The conditions of a call: even numbers, and room for all of them.\<close>

definition inj_total :: "(index_t \<Rightarrow> bool) \<Rightarrow> (index_t \<Rightarrow> i32) \<Rightarrow> Grid \<Rightarrow> nat" where
  "inj_total crit f_num g = inj_before crit f_num g (unat (extent_size (extent g)))"

definition inj_ready :: "(index_t \<Rightarrow> bool) \<Rightarrow> (index_t \<Rightarrow> i32) \<Rightarrow> f_dist \<Rightarrow> Grid \<Rightarrow> ptc_injector \<Rightarrow> bool" where
  "inj_ready crit f_num fd g s =
     (momenta_3d fd \<and> (\<forall>i<unat (extent_size (extent g)). even (inj_count crit f_num g i))
      \<and> m_size (inj_ptc s) = length (data (inj_ptc s)) \<and> m_size (inj_ptc s) < 2 ^ 31
      \<and> m_number (inj_ptc s) + inj_total crit f_num g \<le> m_size (inj_ptc s))"

lemma inject_pairs_run:
  assumes "inj_ready crit f_num fd g s"
  shows "\<exists>s' d r. inject_pairs crit f_num fd fw fl g s = Some s'
    \<and> inj_ptc s' = (inj_ptc s)\<lparr>data := d, m_number := m_number (inj_ptc s) + inj_total crit f_num g\<rparr>
    \<and> s' = s\<lparr>inj_ptc := inj_ptc s', inj_rng := r\<rparr>
    \<and> injected crit f_num fw g (push_bit 32 (inj_rank s) + ucast (m_ptc_id (inj_ptc s))) (m_number (inj_ptc s))
        (unat (extent_size (extent g))) (data (inj_ptc s)) d"
proof -
  let ?N = "unat (extent_size (extent g))" and ?b = "ucast (m_ptc_id (inj_ptc s)) :: u64"
  have a: "momenta_3d fd" "\<forall>i<?N. even (inj_count crit f_num g i)"
    "m_number (inj_ptc s) + inj_before crit f_num g ?N \<le> length (data (inj_ptc s))" "length (data (inj_ptc s)) < 2 ^ 31"
    "m_size (inj_ptc s) = length (data (inj_ptc s))"
    using assms by (auto simp: inj_ready_def inj_total_def)
  obtain d r base where e: "fold_opt (inject_cell crit f_num fd fw fl (inj_tracked_fraction s) (push_bit 32 (inj_rank s)) g
        (m_number (inj_ptc s)) (length (data (inj_ptc s)))) [0..<?N] ((data (inj_ptc s), inj_rng s, ?b), 0)
      = Some ((d, r, base), inj_before crit f_num g ?N)"
    "injected crit f_num fw g (push_bit 32 (inj_rank s) + ?b) (m_number (inj_ptc s)) ?N (data (inj_ptc s)) d"
    using inject_cells_effect[OF a(1-4)] by blast
  have n: "size_add (m_number (inj_ptc s)) (inj_total crit f_num g) = m_number (inj_ptc s) + inj_total crit f_num g"
    "m_number (inj_ptc s) + inj_total crit f_num g \<le> m_size (inj_ptc s)"
    using a by (simp_all add: size_add_def inj_total_def)
  let ?s = "s\<lparr>inj_ptc := add_num (inj_total crit f_num g) ((inj_ptc s)\<lparr>data := d\<rparr>), inj_rng := r\<rparr>"
  have run: "inject_pairs crit f_num fd fw fl g s = Some ?s"
    using e(1) a(5) by (simp add: inject_pairs_def inj_total_def Let_def)
  have p: "inj_ptc ?s = (inj_ptc s)\<lparr>data := d, m_number := m_number (inj_ptc s) + inj_total crit f_num g\<rparr>"
    using n by (simp add: add_num_def set_num_def)
  show ?thesis by (intro exI[of _ ?s] exI[of _ d] exI[of _ r] conjI run p e(2)) simp
qed

text \<open>
  C14.  With an even number of particles for every cell and room for all, an injection returns:
  the particles that were there stay, and behind them, cell by cell in the order of the
  linear index, come as many as the call asks for, in pairs of an electron and a positron
  at one place of the cell, on their mass shells, with the weights of the call and
  consecutive identifiers.  When the weights of the two agree, the charge density is the
  one before the call.
\<close>

theorem inject_pairs_neutral:
  assumes "inj_ready crit f_num fd g s"
  shows "\<exists>s'. inject_pairs crit f_num fd fw fl g s = Some s'
    \<and> m_number (inj_ptc s') = m_number (inj_ptc s) + inj_total crit f_num g
    \<and> injected crit f_num fw g (push_bit 32 (inj_rank s) + ucast (m_ptc_id (inj_ptc s))) (m_number (inj_ptc s))
        (unat (extent_size (extent g))) (data (inj_ptc s)) (data (inj_ptc s'))
    \<and> (charges ! 0 = - charges ! (1 :: nat) \<and> (\<forall>x. fw x positron = fw x electron) \<longrightarrow>
        charge_density n g charges (take (m_number (inj_ptc s')) (data (inj_ptc s'))) P
        = charge_density n g charges (take (m_number (inj_ptc s)) (data (inj_ptc s))) P)"
proof -
  let ?N = "unat (extent_size (extent g))" and ?m = "m_number (inj_ptc s)"
  obtain s' d where r: "inject_pairs crit f_num fd fw fl g s = Some s'"
    "inj_ptc s' = (inj_ptc s)\<lparr>data := d, m_number := ?m + inj_total crit f_num g\<rparr>"
    and i: "injected crit f_num fw g (push_bit 32 (inj_rank s) + ucast (m_ptc_id (inj_ptc s))) ?m ?N (data (inj_ptc s)) d"
    using inject_pairs_run[OF assms, of fw fl] by blast
  have ev: "\<forall>i<?N. even (inj_count crit f_num g i)" and l: "?m + inj_total crit f_num g \<le> length (data (inj_ptc s))"
    using assms by (simp_all add: inj_ready_def)
  have "charge_density n g charges (take (?m + inj_total crit f_num g) d) P = charge_density n g charges (take ?m (data (inj_ptc s))) P"
    if "charges ! 0 = - charges ! (1 :: nat)" "\<forall>x. fw x positron = fw x electron"
    using injected_density[OF i ev that(1) that(2)[rule_format] le_refl, of n P] i l
    by (simp add: inj_total_def injected_def flip: density_upto_take)
  then show ?thesis using r i by simp
qed

lemma injected_first:
  assumes "injected crit f_num fw g b num N D d" "k < N" "0 < inj_count crit f_num g k" "inj_before crit f_num g k = 0"
  shows "injected_pair fw g k b (d ! num) (d ! (num + 1))"
proof -
  have "\<forall>j. 2 * j < inj_count crit f_num g k \<longrightarrow> (let m = inj_before crit f_num g k + 2 * j
      in injected_pair fw g k (b + of_nat m) (d ! (num + m)) (d ! (num + m + 1)))"
    using assms(1,2) by (simp add: injected_def)
  from spec[OF this, of 0] show ?thesis using assms(3,4) by simp
qed

text \<open>
  Identifiers repeat.  A call numbers its particles from the counter of the array but
  leaves the counter unchanged, so the first particles of two calls in a row have the same
  identifier.
\<close>

theorem inject_ids_repeat:
  assumes "inj_ready crit f_num fd g s" "0 < inj_total crit f_num g"
    "m_number (inj_ptc s) + 2 * inj_total crit f_num g \<le> m_size (inj_ptc s)"
  shows "\<exists>s' s''. inject_pairs crit f_num fd fw fl g s = Some s' \<and> inject_pairs crit f_num fd fw fl g s' = Some s''
    \<and> m_number (inj_ptc s) < m_number (inj_ptc s') \<and> m_number (inj_ptc s') < m_number (inj_ptc s'')
    \<and> pid (data (inj_ptc s'') ! m_number (inj_ptc s')) = pid (data (inj_ptc s'') ! m_number (inj_ptc s))"
proof -
  let ?N = "unat (extent_size (extent g))" and ?T = "inj_total crit f_num g" and ?m = "m_number (inj_ptc s)"
  let ?b = "push_bit 32 (inj_rank s) + ucast (m_ptc_id (inj_ptc s)) :: u64"
  obtain s' d r where r: "inject_pairs crit f_num fd fw fl g s = Some s'"
    "inj_ptc s' = (inj_ptc s)\<lparr>data := d, m_number := ?m + ?T\<rparr>" "s' = s\<lparr>inj_ptc := inj_ptc s', inj_rng := r\<rparr>"
    and i: "injected crit f_num fw g ?b ?m ?N (data (inj_ptc s)) d"
    using inject_pairs_run[OF assms(1), of fw fl] by blast
  have "inj_rank s' = inj_rank s" by (subst r(3)) simp
  moreover have rd: "inj_ready crit f_num fd g s'"
    using assms i by (simp add: inj_ready_def r(2) injected_def)
  ultimately obtain s'' e where t: "inject_pairs crit f_num fd fw fl g s' = Some s''"
    "inj_ptc s'' = (inj_ptc s')\<lparr>data := e, m_number := ?m + ?T + ?T\<rparr>"
    and j: "injected crit f_num fw g ?b (?m + ?T) ?N d e"
    using inject_pairs_run[OF rd, of fw fl] r(2) by auto
  obtain k where k: "k < ?N" "0 < inj_count crit f_num g k" "\<forall>l<k. inj_count crit f_num g l = 0"
  proof -
    have "\<exists>k. k < ?N \<and> 0 < inj_count crit f_num g k"
      using assms(2) by (auto simp: inj_total_def inj_before_def intro: ccontr)
    then obtain k where "k < ?N \<and> 0 < inj_count crit f_num g k" "\<forall>l<k. \<not> (l < ?N \<and> 0 < inj_count crit f_num g l)"
      unfolding exists_least_iff[of "\<lambda>k. k < ?N \<and> 0 < inj_count crit f_num g k"] by blast
    then show ?thesis using that[of k] by auto
  qed
  have B: "inj_before crit f_num g k = 0" using k(3) by (simp add: inj_before_def)
  have "pid (e ! (?m + ?T)) = ?b" "pid (d ! ?m) = ?b"
    using injected_first[OF j k(1,2) B] injected_first[OF i k(1,2) B] by (simp_all add: injected_pair_def)
  moreover have "e ! ?m = d ! ?m" using j assms(2) by (simp add: injected_def)
  ultimately have "pid (e ! (?m + ?T)) = pid (e ! ?m)" by simp
  then show ?thesis using r t assms(2) by simp
qed

text \<open>
  C40.  One particle for a cell.  The code writes a pair but counts one particle, so only the
  electron belongs to the array afterwards, and the charge density is no longer the one
  before the call.
\<close>

theorem inject_one_is_charged:
  assumes "momenta_3d fd" "m_size (inj_ptc s) = length (data (inj_ptc s))" "m_size (inj_ptc s) < 2 ^ 31"
    "m_number (inj_ptc s) + 2 \<le> m_size (inj_ptc s)" "k < unat (extent_size (extent g))" "inj_count crit f_num g k = 1"
    "\<forall>i<unat (extent_size (extent g)). i \<noteq> k \<longrightarrow> inj_count crit f_num g i = 0"
  shows "\<exists>s'. inject_pairs crit f_num fd fw fl g s = Some s' \<and> m_number (inj_ptc s') = m_number (inj_ptc s) + 1
    \<and> get_ptc_type (flag (data (inj_ptc s') ! m_number (inj_ptc s))) = PtcType_code electron
    \<and> charge_density n g charges (take (m_number (inj_ptc s')) (data (inj_ptc s'))) P
      = charge_density n g charges (take (m_number (inj_ptc s)) (data (inj_ptc s))) P
        + ptc_density n g charges (data (inj_ptc s') ! m_number (inj_ptc s)) P"
proof -
  let ?N = "unat (extent_size (extent g))" and ?m = "m_number (inj_ptc s)" and ?D = "data (inj_ptc s)"
  let ?b = "ucast (m_ptc_id (inj_ptc s)) :: u64" and ?rk = "push_bit 32 (inj_rank s)" and ?fr = "inj_tracked_fraction s"
  let ?f = "inject_cell crit f_num fd fw fl ?fr ?rk g ?m (length ?D)"
  have rm: "?m + 2 * 1 \<le> length ?D" "length ?D < 2 ^ 31" using assms(2-4) by simp_all
  have "cell_filled fw g (?rk + ?b) k ?m 0 ?D ?D" by (simp add: cell_filled_def)
  from inject_loop_effect[OF assms(1) rm(1) refl rm(2) _ this, of fl ?fr "inj_rng s"]
  obtain d r where l: "inject_loop fd fw fl ?fr ?rk g (length ?D) (word_of_nat k) ?m [0] (?D, inj_rng s, ?b) = Some (d, r, ?b + 2)"
    and c: "cell_filled fw g (?rk + ?b) k ?m 1 ?D d"
    by auto
  have hit: "is_in_bound g (get_pos (extent g) (word_of_nat k))" "crit (get_pos (extent g) (word_of_nat k))"
    "sint (f_num (get_pos (extent g) (word_of_nat k))) = 1"
    using assms(6) by (auto simp: inj_count_def Let_def split: if_splits)
  have one: "?f k ((?D, inj_rng s, ?b), 0) = Some ((d, r, ?b + 2), 1)"
    using l rm by (simp add: inject_cell_def hit Let_def size_add_def to_size_def del: inject_loop.simps)
  let ?I = "\<lambda>j st. st = (if j \<le> k then ((?D, inj_rng s, ?b), 0) else ((d, r, ?b + 2), 1))"
  have step: "\<exists>st'. ?f j st = Some st' \<and> ?I (Suc j) st'" if "j < ?N" "?I j st" for j st
  proof (cases "j = k")
    case True
    then show ?thesis using that one by simp
  next
    case False
    then show ?thesis using that inject_cell_none[of crit f_num g j] assms(7) by auto
  qed
  from fold_opt_invariant[of ?N ?I ?f, OF step] assms(5)
  have "fold_opt ?f [0..<?N] ((?D, inj_rng s, ?b), 0) = Some ((d, r, ?b + 2), 1)" by auto
  then have run: "inject_pairs crit f_num fd fw fl g s = Some (s\<lparr>inj_ptc := add_num 1 ((inj_ptc s)\<lparr>data := d\<rparr>), inj_rng := r\<rparr>)"
    using assms(2) by (simp add: inject_pairs_def Let_def)
  have num: "m_number (add_num 1 ((inj_ptc s)\<lparr>data := d\<rparr>)) = ?m + 1"
    using rm assms(2) by (simp add: add_num_def set_num_def size_add_def)
  have ld: "?m + 1 \<le> length d" "?m \<le> length ?D" "\<forall>j<?m. d ! j = ?D ! j" using c rm by (simp_all add: cell_filled_def)
  have e: "get_ptc_type (flag (d ! ?m)) = PtcType_code electron"
    using c by (simp add: cell_filled_def injected_pair_def)
  have "density_upto n g charges (?m + 1) d P = density_upto n g charges ?m ?D P + ptc_density n g charges (d ! ?m) P"
    using ld(3) by (simp add: density_upto_def)
  then show ?thesis using run num e density_upto_take[OF ld(1)] density_upto_take[OF ld(2)] by simp
qed

text \<open>Two particles at rest for the cells 3 and 4 of the line.\<close>

definition line_injector :: ptc_injector where
  "line_injector = \<lparr>inj_ptc = \<lparr>data = replicate 8 single_ptc_default, m_size = 8, m_number = 0,
       m_sort_segment_size = 8, m_ptc_id = 5, m_segment_nums = [], m_index = [], m_partition = []\<rparr>,
     inj_rng = rand_init 1, inj_tracked_fraction = 0, inj_rank = 2\<rparr>"

definition at_rest_dist :: f_dist where
  "at_rest_dist xg r ty = ([0, 0, 0], r)"

lemma line_cells: "unat (extent_size (extent line_grid)) = 8"
  by (simp add: line_grid_def extent_def extent_size_def)

lemma line_pos: "i < 8 \<Longrightarrow> get_pos (extent line_grid) (word_of_nat i) = [word_of_nat i]
    \<and> is_in_bound line_grid [word_of_nat i] = (i \<in> {2, 3, 4, 5})"
proof -
  assume i: "i < 8"
  have e: "extent line_grid = [8]" "g_dim line_grid = 1" by (simp_all add: line_grid_def extent_def g_dim_def)
  have "i \<in> {0, 1, 2, 3, 4, 5, 6, 7}" using i by auto
  then show ?thesis
    unfolding is_in_bound_def e get_pos_def col_get_pos1_def by (auto simp: line_grid_def)
qed

lemma line_count:
  "i < 8 \<Longrightarrow> inj_count (\<lambda>p. p = [3] \<or> p = [4]) (\<lambda>_. 2) line_grid i = (if i = 3 \<or> i = 4 then 2 else 0)"
  "i < 8 \<Longrightarrow> inj_count (\<lambda>p. p = [3]) (\<lambda>_. 1) line_grid i = (if i = 3 then 1 else 0)"
proof -
  assume i: "i < 8"
  then have "i \<in> {0, 1, 2, 3, 4, 5, 6, 7}" by auto
  then show "inj_count (\<lambda>p. p = [3] \<or> p = [4]) (\<lambda>_. 2) line_grid i = (if i = 3 \<or> i = 4 then 2 else 0)"
    "inj_count (\<lambda>p. p = [3]) (\<lambda>_. 1) line_grid i = (if i = 3 then 1 else 0)"
    using line_pos[OF i] by (auto simp: inj_count_def Let_def)
qed

lemma line_ready:
  "inj_ready (\<lambda>p. p = [3] \<or> p = [4]) (\<lambda>_. 2) at_rest_dist line_grid line_injector"
  "inj_total (\<lambda>p. p = [3] \<or> p = [4]) (\<lambda>_. 2) line_grid = 4"
proof -
  have "(\<Sum>i<8. inj_count (\<lambda>p. p = [3] \<or> p = [4]) (\<lambda>_. 2) line_grid i) = (\<Sum>i<8 :: nat. if i = 3 \<or> i = 4 then 2 else 0)"
    by (rule sum.cong) (simp_all add: line_count)
  then show t: "inj_total (\<lambda>p. p = [3] \<or> p = [4]) (\<lambda>_. 2) line_grid = 4"
    by (simp add: inj_total_def inj_before_def line_cells lessThan_nat_numeral lessThan_Suc)
  have "momenta_3d at_rest_dist" by (simp add: momenta_3d_def at_rest_dist_def)
  then show "inj_ready (\<lambda>p. p = [3] \<or> p = [4]) (\<lambda>_. 2) at_rest_dist line_grid line_injector"
    by (simp add: inj_ready_def line_cells line_count t) (simp add: line_injector_def)
qed

theorem inject_pairs_neutral_witness:
  "\<exists>s'. inject_pairs (\<lambda>p. p = [3] \<or> p = [4]) (\<lambda>_. 2) at_rest_dist (\<lambda>_ _. 1) 0 line_grid line_injector = Some s'
    \<and> m_number (inj_ptc s') = 4"
  using inject_pairs_neutral[OF line_ready(1), of "\<lambda>_ _. 1" 0 "[- 1, 1]" 1 "[3]"]
  by (auto simp: line_ready(2)) (simp add: line_injector_def)

theorem inject_ids_repeat_witness:
  "\<exists>s' s''. inject_pairs (\<lambda>p. p = [3] \<or> p = [4]) (\<lambda>_. 2) at_rest_dist (\<lambda>_ _. 1) 0 line_grid line_injector = Some s'
    \<and> inject_pairs (\<lambda>p. p = [3] \<or> p = [4]) (\<lambda>_. 2) at_rest_dist (\<lambda>_ _. 1) 0 line_grid s' = Some s''
    \<and> pid (data (inj_ptc s'') ! m_number (inj_ptc s')) = pid (data (inj_ptc s'') ! m_number (inj_ptc line_injector))"
proof -
  have "m_number (inj_ptc line_injector) + 2 * 4 \<le> m_size (inj_ptc line_injector)" by (simp add: line_injector_def)
  then show ?thesis
    using inject_ids_repeat[OF line_ready(1), of "\<lambda>_ _. 1" 0] unfolding line_ready(2) by auto
qed

theorem inject_one_is_charged_witness:
  "\<exists>s'. inject_pairs (\<lambda>p. p = [3]) (\<lambda>_. 1) at_rest_dist (\<lambda>_ _. 1) 0 line_grid line_injector = Some s'
    \<and> m_number (inj_ptc s') = 1"
proof -
  have m: "momenta_3d at_rest_dist" by (simp add: momenta_3d_def at_rest_dist_def)
  have l: "m_size (inj_ptc line_injector) = length (data (inj_ptc line_injector))" "m_size (inj_ptc line_injector) < 2 ^ 31"
    "m_number (inj_ptc line_injector) + 2 \<le> m_size (inj_ptc line_injector)" "m_number (inj_ptc line_injector) = 0"
    by (simp_all add: line_injector_def)
  show ?thesis
    using inject_one_is_charged[OF m l(1-3), of 3 line_grid "\<lambda>p. p = [3]" "\<lambda>_. 1" "\<lambda>_ _. 1" 0 1 "[- 1, 1]" "[3]"]
    by (auto simp: line_cells line_count l(4))
qed

end
