(* ===== verification/GaussLaw.thy ===== *)
theory GaussLaw
  imports PtcCharge
begin

text \<open>
  A time step of the environment on one rank without \<open>domain_comm\<close>: \<open>sim_environment_impl::update\<close>
  calls the particle updater and then the Cartesian field solver, in the order the set-ups register
  them, and advances \<open>step\<close> and \<open>time\<close>.  Gauss's law is not solved for: it holds because the
  updater deposits a current that continues the charge and the solver takes the divergence the
  same way.
\<close>

subsection \<open>The step\<close>

text \<open>
  Data components of one name are one object.  \<open>ptc_updater::register_data_components\<close> takes the
  fields \<open>E\<close>, \<open>B\<close> and \<open>J\<close>, and \<open>register_data_components_impl\<close> of the solver takes \<open>E\<close> and \<open>B\<close>
  as its totals and \<open>J\<close> as its current, while the fields it advances are \<open>Edelta\<close> and \<open>Bdelta\<close>.
  So the updater reads the totals, and the solver the current of the updater.
\<close>

definition share_fields :: "solver \<Rightarrow> updater \<Rightarrow> updater" where
  "share_fields f u = u\<lparr>pu_E := fs_Etotal f, pu_B := fs_Btotal f\<rparr>"

definition share_current :: "updater \<Rightarrow> solver \<Rightarrow> solver" where
  "share_current u f = f\<lparr>fs_J := cur_J (pu_cur u)\<rparr>"

definition pic_step ::
  "pusher \<Rightarrow> nat \<Rightarrow> bool \<Rightarrow> (nat \<Rightarrow> nat) \<Rightarrow> Grid \<Rightarrow> scalar \<Rightarrow> updater \<times> solver \<times> u32 \<times> real
     \<Rightarrow> (updater \<times> solver \<times> u32 \<times> real) option" where
  "pic_step push n dbl junk g dt = (\<lambda>(u, f, step, time).
     Option.bind (ptc_update push ptc_physics_policy_empty n dbl junk g None dt step (share_fields f u)) (\<lambda>u.
       map_option (\<lambda>f. (share_fields f u, f, step + 1, time + dt))
         (solver_update g id dt step time (share_current u f))))"

text \<open>A number of steps of the main loop.\<close>

primrec pic_run ::
  "pusher \<Rightarrow> nat \<Rightarrow> bool \<Rightarrow> (nat \<Rightarrow> nat) \<Rightarrow> Grid \<Rightarrow> scalar \<Rightarrow> nat \<Rightarrow> updater \<times> solver \<times> u32 \<times> real
     \<Rightarrow> (updater \<times> solver \<times> u32 \<times> real) option" where
  "pic_run push n dbl junk g dt 0 st = Some st"
| "pic_run push n dbl junk g dt (Suc k) st =
     Option.bind (pic_step push n dbl junk g dt st) (pic_run push n dbl junk g dt k)"

text \<open>Nodes that no particle outside the interior reaches.\<close>

definition deep :: "nat \<Rightarrow> Grid \<Rightarrow> index_t \<Rightarrow> bool" where
  "deep n g r = (in_extent (extent g) r \<and> (\<forall>d < g_dim g. sint (g_guard g ! d) + bs_radius n \<le> sint (r ! d)
     \<and> sint (r ! d) + bs_radius n \<le> uint (g_N g ! d) + sint (g_guard g ! d)))"

text \<open>
  Photons, smoothing and the absorbing layer are switched off, a background current is free of
  divergence where Gauss's law is stated, and the \<open>int\<close> counters of the sort hold.
\<close>

definition pic_ok :: "pusher \<Rightarrow> nat \<Rightarrow> Grid \<Rightarrow> scalar \<Rightarrow> updater \<times> solver \<Rightarrow> bool" where
  "pic_ok push n g dt = (\<lambda>(u, f).
     updater_ok push n g dt u \<and> ParticleSort.ptc_ok (pu_ptc u) \<and> m_number (pu_ptc u) + 1 < 2 ^ 31 \<and> g_dim g < 3
     \<and> pu_ph u = None \<and> pu_filter_times u = 0 \<and> pu_rho_interval u \<noteq> 0
     \<and> fs_update_e f \<and> \<not> fs_use_pml f \<and> fs_data_interval f \<noteq> 0
     \<and> (\<forall>r. deep n g r \<longrightarrow> fd_div 2 g (fs_J0 f) (col_to_linear (extent g) r) st_E = 0))"

text \<open>By how much Gauss's law fails.\<close>

definition gauss_error :: "nat \<Rightarrow> Grid \<Rightarrow> updater \<times> solver \<Rightarrow> index_t \<Rightarrow> scalar" where
  "gauss_error n g = (\<lambda>(u, f) r. fd_div 2 g (fs_E f) (col_to_linear (extent g) r) st_E - updater_density n g u r)"

subsection \<open>The density of cleared and sorted particles\<close>

lemma ptc_shape_zero:
  assumes "good_order n" "d < g_dim g"
    "of_int (bs_radius n) \<le> \<bar>of_int (sint (P ! d) - sint (ptc_pos g q ! d)) - ptc_x q ! d\<bar>"
  shows "ptc_shape n g q P = 0"
  using assms bspline_outside[OF assms(1,3)] unfolding ptc_shape_def by (intro prod_zero) auto

lemma bs_radius_pos: "1 \<le> bs_radius n" by (simp add: bs_radius_def)

lemma clear_one_density:
  assumes st: "step_ok push n g dt" and q: "ptc_placed g q" and r: "deep n g r"
  shows "ptc_density n g charges (clear_one g q) r = ptc_density n g charges q r"
proof (cases "live q \<and> \<not> is_in_bound g (ptc_pos g q)")
  case False
  then show ?thesis by (auto simp: clear_one_def live_def ptc_pos_def)
next
  case True
  note o = step_okD[OF st]
  obtain d where d: "d < g_dim g" "\<not> (sint (g_guard g ! d) \<le> sint (ptc_pos g q ! d)
      \<and> sint (ptc_pos g q ! d) < uint (g_N g ! d) + sint (g_guard g ! d))"
    using True is_in_bound_iff[OF o(6)] by blast
  have x: "0 \<le> ptc_x q ! d" "ptc_x q ! d < 1" using q d(1) by (simp_all add: ptc_placed_def)
  have rr: "sint (g_guard g ! d) + bs_radius n \<le> sint (r ! d)" "sint (r ! d) + bs_radius n \<le> uint (g_N g ! d) + sint (g_guard g ! d)"
    using r d(1) by (simp_all add: deep_def)
  have "sint (r ! d) - sint (ptc_pos g q ! d) \<ge> bs_radius n + 1 \<or> sint (r ! d) - sint (ptc_pos g q ! d) \<le> - bs_radius n"
    using d(2) rr by auto
  then have "(of_int (bs_radius n) :: real) + 1 \<le> of_int (sint (r ! d) - sint (ptc_pos g q ! d))
      \<or> of_int (sint (r ! d) - sint (ptc_pos g q ! d)) \<le> - (of_int (bs_radius n) :: real)"
    by (metis of_int_le_iff of_int_minus of_int_add of_int_1)
  then have "of_int (bs_radius n) \<le> \<bar>of_int (sint (r ! d) - sint (ptc_pos g q ! d)) - ptc_x q ! d\<bar>"
    using x by linarith
  then have "ptc_shape n g q r = 0" by (rule ptc_shape_zero[OF o(3) d(1)])
  moreover have "\<not> live (clear_one g q)"
    using True by (simp add: clear_one_def live_def ptc_pos_def)
  ultimately show ?thesis by (simp add: ptc_density_def)
qed

lemma charge_density_live:
  "charge_density n g charges d P = (\<Sum>q \<in># mset (filter live d). ptc_density n g charges q P)"
proof -
  have "(\<Sum>q\<leftarrow>d. ptc_density n g charges q P) = (\<Sum>q\<leftarrow>filter live d. ptc_density n g charges q P)"
    by (induction d) (auto simp: ptc_density_def)
  then show ?thesis by (simp add: charge_density_def flip: sum_mset_sum_list)
qed

lemma compacted_density:
  assumes "compacted p p'"
  shows "charge_density n g charges (take (m_number p') (data p')) P = charge_density n g charges (take (m_number p) (data p)) P"
proof -
  have m: "mset (take (m_number p') (data p')) = mset (filter live (take (m_number p) (data p)))"
    using assms unfolding compacted_def Let_def by blast
  then have "mset (filter live (take (m_number p') (data p'))) = mset (filter live (take (m_number p) (data p)))"
    using arg_cong[OF m, of "filter_mset live"] by (simp add: filter_filter_mset)
  then show ?thesis by (simp only: charge_density_live)
qed

subsection \<open>The updater\<close>

lemma ptc_ready_cells:
  assumes "good_extent (extent g)" "ptc_ready g q"
  shows "unat (cell q) < unat (extent_size (extent g))"
proof -
  have p: "in_extent (extent g) (ptc_pos g q)" "ucast (col_to_linear (extent g) (ptc_pos g q)) = cell q"
    using assms(2) by (simp_all add: ptc_ready_def ptc_placed_def)
  have "uint (ucast (cell q) :: i64) < uint (extent_size (extent g))"
    using lin_less[OF assms(1) p(1)] cell_of_pos(1)[OF assms(1) p] by simp
  then have "uint (cell q) < uint (extent_size (extent g))" by (simp add: uint_up_ucast is_up)
  then show ?thesis by (simp only: unat_eq_nat_uint nat_less_eq_zless uint_ge_0)
qed

lemma moved_placed:
  assumes "step_ok push n g dt" "PtcCharge.ptc_ok g s q" "live q"
  shows "ptc_placed g (moved push n g dt s q)"
proof -
  obtain c pos where e: "push_context push ptc_physics_policy_empty n g dt s q = (c, pos)"
    by (cases "push_context push ptc_physics_policy_empty n g dt s q")
  have "ptc_ready g q" using assms(2,3) by (simp add: PtcCharge.ptc_ok_def)
  from moved_facts(1)[OF assms(1) this e] show ?thesis using assms(3) e by (simp add: moved_def live_def)
qed

lemma deep_ge_1:
  assumes "step_ok push n g dt" "deep n g r"
  shows "\<forall>d < g_dim g. 1 \<le> sint (r ! d)"
  using assms roomyD(4)[of n g] bs_radius_pos[of n] by (fastforce simp: step_ok_def deep_def)

lemma cleared_density:
  assumes st: "step_ok push n g dt" and ok: "list_all (PtcCharge.ptc_ok g s) (take m (data (pu_ptc s)))"
    and len: "length d' = length (data (pu_ptc s))" "length e = length (data (pu_ptc s))" "m \<le> length (data (pu_ptc s))"
    and d: "\<forall>k < m. d' ! k = moved push n g dt s (data (pu_ptc s) ! k)" and e: "\<forall>k < m. e ! k = clear_one g (d' ! k)"
    and r: "deep n g r"
  shows "charge_density n g charges (take m e) r = charge_density n g charges (take m d') r"
proof -
  have "ptc_density n g charges (e ! k) r = ptc_density n g charges (d' ! k) r" if k: "k < m" for k
  proof (cases "live (data (pu_ptc s) ! k)")
    case True
    have "PtcCharge.ptc_ok g s (data (pu_ptc s) ! k)" using ok k len by (simp add: list_all_length)
    from clear_one_density[OF st moved_placed[OF st this True] r] show ?thesis using d e k by simp
  next
    case False
    then show ?thesis using d e k by (simp add: moved_def clear_one_def live_def)
  qed
  then have "map (\<lambda>k. ptc_density n g charges (e ! k) r) [0..<m] = map (\<lambda>k. ptc_density n g charges (d' ! k) r) [0..<m]"
    by simp
  moreover have "m \<le> length e" "m \<le> length d'" using len by simp_all
  ultimately show ?thesis by (simp only: charge_density_nth)
qed

text \<open>What a step of the updater does to the density, and what it leaves alone.\<close>

definition same_setup :: "updater \<Rightarrow> updater \<Rightarrow> bool" where
  "same_setup u u' = (pu_E u' = pu_E u \<and> pu_B u' = pu_B u \<and> pu_charges u' = pu_charges u \<and> pu_ph u' = pu_ph u
     \<and> pu_filter_times u' = pu_filter_times u \<and> pu_rho_interval u' = pu_rho_interval u \<and> pu_num_species u' = pu_num_species u)"

lemma ptc_ok_cong: "pu_num_species u' = pu_num_species u \<Longrightarrow> PtcCharge.ptc_ok g u' = PtcCharge.ptc_ok g u"
  by (simp add: fun_eq_iff PtcCharge.ptc_ok_def)

lemma sorted_updater:
  assumes ok: "updater_ok push n g dt u" "ParticleSort.ptc_ok (pu_ptc u)" "pu_ph u = None" "m_number (pu_ptc u) + 1 < 2 ^ 31"
  shows "\<exists>p. sort_particles junk g u = Some (u\<lparr>pu_ptc := p\<rparr>) \<and> compacted (pu_ptc u) p \<and> ParticleSort.ptc_ok p
    \<and> m_number p \<le> m_number (pu_ptc u) \<and> updater_ok push n g dt (u\<lparr>pu_ptc := p\<rparr>)"
proof -
  let ?m = "m_number (pu_ptc u)" and ?N = "unat (extent_size (extent g))"
  have st: "step_ok push n g dt" and m: "?m \<le> length (data (pu_ptc u))" "?m < 2 ^ 31"
    and q: "list_all (PtcCharge.ptc_ok g u) (take ?m (data (pu_ptc u)))"
    using ok(1) by (simp_all add: updater_ok_def)
  note o = step_okD[OF st]
  have cells: "cells_ok ?N (pu_ptc u)"
    using q m ptc_ready_cells[OF o(7)] by (auto simp: cells_ok_def list_all_length PtcCharge.ptc_ok_def)
  have fits: "sort_fits ?N (pu_ptc u)"
  proof -
    have v: "volume (extent g) \<le> 2 ^ 31" using o(7) by (simp add: good_extent_def)
    then have "uint (extent_size (extent g)) \<le> 2 ^ 31" using uint_extent_size[of "extent g"] by simp
    then have "?N \<le> 2 ^ 31" by (simp only: unat_eq_nat_uint nat_le_iff of_nat_power of_nat_numeral)
    then have "?N + 2 < 2 ^ 32" by simp
    moreover have "?m div m_sort_segment_size (pu_ptc u) + 1 < 2 ^ 31"
      using ok(4) div_le_dividend[of ?m "m_sort_segment_size (pu_ptc u)"] by linarith
    moreover have "min (m_sort_segment_size (pu_ptc u)) ?m < 2 ^ 31" using ok(4) by linarith
    ultimately show ?thesis unfolding sort_fits_def by blast
  qed
  from sort_by_cell_all[OF ok(2) cells fits, of junk] obtain p where p: "ptc_sort_by_cell junk ?N (pu_ptc u) = Some p"
    "ParticleSort.ptc_ok p" "compacted (pu_ptc u) p" by blast
  have c: "m_number p \<le> ?m" "mset (take (m_number p) (data p)) = mset (filter live (take ?m (data (pu_ptc u))))"
    using p(3) length_filter_le[of live "take ?m (data (pu_ptc u))"] m unfolding compacted_def Let_def by auto
  have "set (take (m_number p) (data p)) \<subseteq> set (take ?m (data (pu_ptc u)))"
    using arg_cong[OF c(2), of set_mset] by auto
  then have "list_all (PtcCharge.ptc_ok g (u\<lparr>pu_ptc := p\<rparr>)) (take (m_number p) (data p))"
    using q ptc_ok_cong[of "u\<lparr>pu_ptc := p\<rparr>" u g] by (auto simp: list_all_iff)
  then have "updater_ok push n g dt (u\<lparr>pu_ptc := p\<rparr>)"
    using st p(2) c(1) m(2) by (simp add: updater_ok_def ParticleSort.ptc_ok_def)
  then show ?thesis using p c(1) ok(3) by (intro exI[of _ p]) (simp add: sort_particles_def)
qed

lemma updater_step:
  assumes ok: "pic_ok push n g dt (u, f)"
  shows "\<exists>u'. ptc_update push ptc_physics_policy_empty n dbl junk g None dt step u = Some u'
    \<and> updater_ok push n g dt u' \<and> ParticleSort.ptc_ok (pu_ptc u') \<and> m_number (pu_ptc u') \<le> m_number (pu_ptc u) \<and> same_setup u u'
    \<and> (\<forall>r. deep n g r \<longrightarrow> updater_density n g u' r - updater_density n g u r = - dt * current_div g (cur_J (pu_cur u')) r)"
proof -
  let ?m = "m_number (pu_ptc u)"
  have o: "updater_ok push n g dt u" "ParticleSort.ptc_ok (pu_ptc u)" "g_dim g < 3" "pu_ph u = None" "pu_filter_times u = 0"
    "pu_rho_interval u \<noteq> 0" "?m + 1 < 2 ^ 31"
    using ok by (simp_all add: pic_ok_def)
  have st: "step_ok push n g dt" "?m \<le> length (data (pu_ptc u))"
    "list_all (PtcCharge.ptc_ok g u) (take ?m (data (pu_ptc u)))"
    using o(1) by (simp_all add: updater_ok_def)
  obtain s' d' e where a: "update_particles push ptc_physics_policy_empty n dbl g dt step u = Some s'"
    "s' = u\<lparr>pu_ptc := (pu_ptc u)\<lparr>data := d'\<rparr>, pu_cur := pu_cur s'\<rparr>" "length d' = length (data (pu_ptc u))"
    "\<forall>k < ?m. d' ! k = moved push n g dt u (data (pu_ptc u) ! k)"
    "clear_guard_ptc g (pu_ptc s') = Some ((pu_ptc u)\<lparr>data := e\<rparr>)" "length e = length (data (pu_ptc u))"
    "\<forall>k < ?m. e ! k = clear_one g (d' ! k)" "updater_ok push n g dt (s'\<lparr>pu_ptc := (pu_ptc u)\<lparr>data := e\<rparr>\<rparr>)"
    and den: "\<forall>r. in_extent (extent g) r \<longrightarrow>
        (g_dim g < 3 \<and> (\<forall>d < g_dim g. 1 \<le> sint (r ! d)) \<longrightarrow>
            updater_density n g s' r - updater_density n g u r = - dt * current_div g (cur_J (pu_cur s')) r)"
    using update_and_clear[OF o(1,6), of dbl step] by blast
  have fs: "pu_ph s' = None" "pu_filter_times s' = 0" "same_setup u s'"
    using o by (subst a(2), simp add: same_setup_def)+
  let ?s = "s'\<lparr>pu_ptc := (pu_ptc u)\<lparr>data := e\<rparr>\<rparr>"
  have cl: "clear_guard_cells g s' = Some ?s" using a(5) fs(1) by (simp add: clear_guard_cells_def)
  have up: "ptc_update push ptc_physics_policy_empty n dbl junk g None dt step u
      = (if pu_sort_interval ?s > 0 \<and> step mod pu_sort_interval ?s = 0
         then Option.bind (sort_particles junk g ?s) (\<lambda>s.
           let s = s\<lparr>pu_ptc_number := fst (tally_ptc_number None (m_number (pu_ptc s)) (pu_ptc_number s))\<rparr>
           in Some (case pu_ph s of None \<Rightarrow> s
              | Some ph \<Rightarrow> s\<lparr>pu_ptc_number := fst (tally_ptc_number None (m_number ph) (pu_ptc_number s))\<rparr>))
         else Some ?s)"
    using a(1) fs cl by (simp add: ptc_update_def send_currents_def filter_current_def send_photons_def)
  have ps: "ParticleSort.ptc_ok (pu_ptc ?s)" using o(2) a(6) by (simp add: ParticleSort.ptc_ok_def)
  have dens: "updater_density n g ?s r - updater_density n g u r = - dt * current_div g (cur_J (pu_cur ?s)) r" if r: "deep n g r" for r
  proof -
    have "updater_density n g ?s r = updater_density n g s' r"
      using cleared_density[OF st(1,3) a(3,6) st(2) a(4,7) r] by (subst (2) a(2), subst a(2)) (simp add: updater_density_def)
    moreover have "in_extent (extent g) r" using r by (simp add: deep_def)
    ultimately show ?thesis using den o(3) deep_ge_1[OF st(1) r] by simp
  qed
  have sm: "same_setup u ?s" using fs(3) by (simp add: same_setup_def)
  show ?thesis
  proof (cases "pu_sort_interval ?s > 0 \<and> step mod pu_sort_interval ?s = 0")
    case False
    then show ?thesis using up a(8) ps dens sm by auto
  next
    case True
    obtain p where p: "sort_particles junk g ?s = Some (?s\<lparr>pu_ptc := p\<rparr>)" "compacted (pu_ptc ?s) p" "ParticleSort.ptc_ok p"
      "m_number p \<le> ?m" "updater_ok push n g dt (?s\<lparr>pu_ptc := p\<rparr>)"
      using sorted_updater[OF a(8) ps, of junk] fs(1) o(7) by auto
    let ?u = "?s\<lparr>pu_ptc := p, pu_ptc_number := fst (tally_ptc_number None (m_number p) (pu_ptc_number s'))\<rparr>"
    have "ptc_update push ptc_physics_policy_empty n dbl junk g None dt step u = Some ?u"
      using up True p(1) fs(1) by (simp add: Let_def)
    moreover have "updater_ok push n g dt ?u"
      using p(5) ptc_ok_cong[of ?u "?s\<lparr>pu_ptc := p\<rparr>" g] by (simp add: updater_ok_def)
    moreover have "updater_density n g ?u r = updater_density n g ?s r" for r
      using compacted_density[OF p(2)] by (simp add: updater_density_def)
    ultimately show ?thesis using p(3,4) dens sm by (intro exI[of _ ?u]) (simp add: same_setup_def)
  qed
qed

subsection \<open>The solver\<close>

definition same_solver :: "solver \<Rightarrow> solver \<Rightarrow> bool" where
  "same_solver f f' = (fs_J0 f' = fs_J0 f \<and> fs_update_e f' = fs_update_e f \<and> fs_use_pml f' = fs_use_pml f
     \<and> fs_data_interval f' = fs_data_interval f)"

lemma solver_step:
  assumes "fs_update_e f" "\<not> fs_use_pml f" "fs_data_interval f \<noteq> 0"
  shows "\<exists>f' b. solver_update g id dt step time f = Some f'
    \<and> fs_E f' = compute_e_update g dt b (fs_J f) (fs_J0 f) (fs_E f) \<and> same_solver f f'"
proof -
  define f0 where "f0 = (if step = 0 then f\<lparr>fs_E_init := fs_E f, fs_B_init := fs_B f\<rparr> else f)"
  have z: "fs_E f0 = fs_E f" "fs_J f0 = fs_J f" "same_solver f f0" by (simp_all add: f0_def same_solver_def)
  define f1 where "f1 = update_b_field g id dt time f0"
  have b: "fs_E f1 = fs_E f" "fs_J f1 = fs_J f" "same_solver f f1"
    using z assms(2) by (simp_all add: f1_def update_b_field_def Let_def same_solver_def)
  define f2 where "f2 = update_e_field g id dt f1"
  have e: "fs_E f2 = compute_e_update g dt (fs_B f1) (fs_J f) (fs_J0 f) (fs_E f)" "same_solver f f2"
    using b assms unfolding same_solver_def by (simp_all add: f2_def update_e_field_def Let_def)
  define f3 where "f3 = f2\<lparr>fs_B_mid := (\<lambda>c i. (fs_B_prev f2 c i + fs_B f2 c i) * (1 / 2))\<rparr>"
  define f4 where "f4 = total_fields f3 (fs_B_mid f3)"
  have t: "fs_E f4 = fs_E f2" "same_solver f f4" "fs_data_interval f4 \<noteq> 0"
    using e(2) assms(3) by (simp_all add: f4_def f3_def total_fields_def same_solver_def)
  have run: "solver_update g id dt step time f = (if fs_data_interval f4 = 0 then None
         else if step mod fs_data_interval f4 = 0 then
           (let s = f4\<lparr>fs_flux := compute_flux g (fs_Btotal f4) (fs_flux f4)\<rparr>
            in Some (if fs_compute_energies s
                     then (let (e, b) = compute_EB_sqr g (fs_Etotal s) (fs_Btotal s) in s\<lparr>fs_E_sqr := e, fs_B_sqr := b\<rparr>)
                     else s))
         else Some f4)"
    unfolding solver_update_def f4_def f3_def f2_def f1_def f0_def Let_def ..
  have "\<exists>f'. solver_update g id dt step time f = Some f' \<and> fs_E f' = fs_E f4 \<and> same_solver f f'"
    unfolding run using t(2,3) by (auto simp: same_solver_def Let_def split: prod.split)
  then show ?thesis using e(1) t(1) by metis
qed

lemma updated_node:
  assumes "grid_ok g" "good_extent (extent g)" "in_extent (extent g) r" "is_in_bound g r"
  shows "updated g (col_to_linear (extent g) r)"
  using lin_less[OF assms(2,3)] colg.pos_lin[OF assms(2,3)] assms(4) by (simp add: updated_def)

text \<open>The node before a deep node, and the two divergences of the code.\<close>

lemma deep_before:
  assumes st: "step_ok push n g dt" and r: "deep n g r" and d: "d < g_dim g"
  shows "in_extent (extent g) (r[d := r ! d - 1])"
    "col_dec (g_dims g) d (col_to_linear (extent g) r) 1 = col_to_linear (extent g) (r[d := r ! d - 1])"
    "sint (r ! d - 1) = sint (r ! d) - 1"
proof -
  note o = step_okD[OF st]
  have ri: "in_extent (extent g) r" and r1: "1 \<le> sint (r ! d)" using r deep_ge_1[OF st r] d by (simp_all add: deep_def)
  have l: "length r = g_dim g" using in_extent_length[OF ri] o(9) by simp
  have "sint (word_of_int (sint (r ! d) + - 1) :: i32) = sint (r ! d) + - 1"
    using r1 sint32_lt[of "r ! d"] by (intro sint_of_int32) (force, linarith)
  then show m: "sint (r ! d - 1) = sint (r ! d) - 1" by simp
  show q: "in_extent (extent g) (r[d := r ! d - 1])"
    using in_extent_nth[OF ri] m r1 d l o(9)
    by (subst in_extent_iff) (auto simp: nth_list_update less_trans[OF _ conjunct2[OF in_extent_nth[OF ri]]])
  show "col_dec (g_dims g) d (col_to_linear (extent g) r) 1 = col_to_linear (extent g) (r[d := r ! d - 1])"
    unfolding extent_def[symmetric] using d o(9) q by (intro col_dec_moves[OF o(7) _ ri]) simp_all
qed

lemma deep_in_bound:
  assumes st: "step_ok push n g dt" and r: "deep n g r"
  shows "is_in_bound g r" "d < g_dim g \<Longrightarrow> is_in_bound g (r[d := r ! d - 1])"
proof -
  note o = step_okD[OF st]
  have b: "sint (g_guard g ! i) + 1 \<le> sint (r ! i)" "sint (r ! i) + 1 \<le> uint (g_N g ! i) + sint (g_guard g ! i)"
    if "i < g_dim g" for i
    using r that bs_radius_pos[of n] by (auto simp: deep_def intro: order_trans[rotated])
  have b': "sint (g_guard g ! i) \<le> sint (r ! i)" "sint (r ! i) < uint (g_N g ! i) + sint (g_guard g ! i)"
    if "i < g_dim g" for i
    using b[OF that] by linarith+
  then show "is_in_bound g r" by (simp add: is_in_bound_iff[OF o(6)])
  assume d: "d < g_dim g"
  have l: "length r = g_dim g" using r in_extent_length o(9) by (metis deep_def)
  have "sint (g_guard g ! i) \<le> sint (r[d := r ! d - 1] ! i) \<and> sint (r[d := r ! d - 1] ! i) < uint (g_N g ! i) + sint (g_guard g ! i)"
    if i: "i < g_dim g" for i
  proof (cases "i = d")
    case True
    then show ?thesis using deep_before(3)[OF st r d] b[OF d] l d by simp
  next
    case False
    then show ?thesis using b'[OF i] by simp
  qed
  then show "is_in_bound g (r[d := r ! d - 1])" by (simp add: is_in_bound_iff[OF o(6)])
qed

lemma div_same:
  assumes st: "step_ok push n g dt" and r: "deep n g r"
  shows "fd_div 2 g J (col_to_linear (extent g) r) st_E = current_div g J r"
proof -
  note o = step_okD[OF st]
  let ?i = "col_to_linear (extent g) r"
  have c: "diff 2 d (g_dims g) (J d) ?i (st_E d) * g_inv_delta g ! d
      = (J d ?i - J d (col_to_linear (extent g) (r[d := r ! d - 1]))) / g_delta g ! d" if "d < g_dim g" "d < 3" for d
    using that deep_before(2)[OF st r that(1)] grid_okD(2)[OF o(6) that(1)]
    by (simp add: diff_def col_inc_def)
  consider "g_dim g = 1" | "g_dim g = 2" | "g_dim g = 3" using o(8) by auto
  then show ?thesis
    using c[of 0] c[of 1] c[of 2]
    by cases (simp_all add: fd_div_def fd1_div_def fd2_div_def fd3_div_def current_div_def numeral_2_eq_2 numeral_3_eq_3)
qed

lemma pic_step_keeps:
  assumes ok: "pic_ok push n g dt (u, f)"
  shows "\<exists>u' f'. pic_step push n dbl junk g dt (u, f, step, time) = Some (u', f', step + 1, time + dt) \<and> pic_ok push n g dt (u', f')
    \<and> (\<forall>r. deep n g r \<longrightarrow> gauss_error n g (u', f') r = gauss_error n g (u, f) r)"
proof -
  let ?v = "share_fields f u"
  have v: "pic_ok push n g dt (?v, f)" "updater_density n g ?v = updater_density n g u"
    using ok ptc_ok_cong[of ?v u g] by (simp_all add: pic_ok_def updater_ok_def share_fields_def updater_density_def ext)
  have o: "updater_ok push n g dt ?v" "fs_update_e f" "\<not> fs_use_pml f" "fs_data_interval f \<noteq> 0"
    and J0: "\<forall>r. deep n g r \<longrightarrow> fd_div 2 g (fs_J0 f) (col_to_linear (extent g) r) st_E = 0"
    using v(1) by (simp_all add: pic_ok_def)
  have st: "step_ok push n g dt" using o(1) by (simp add: updater_ok_def)
  note so = step_okD[OF st]
  obtain u1 where u: "ptc_update push ptc_physics_policy_empty n dbl junk g None dt step ?v = Some u1"
    "updater_ok push n g dt u1" "ParticleSort.ptc_ok (pu_ptc u1)" "m_number (pu_ptc u1) \<le> m_number (pu_ptc ?v)" "same_setup ?v u1"
    and den: "\<forall>r. deep n g r \<longrightarrow> updater_density n g u1 r - updater_density n g ?v r = - dt * current_div g (cur_J (pu_cur u1)) r"
    using updater_step[OF v(1)] by blast
  let ?f = "share_current u1 f"
  have fo: "fs_update_e ?f" "\<not> fs_use_pml ?f" "fs_data_interval ?f \<noteq> 0" using o by (simp_all add: share_current_def)
  obtain f' b where f: "solver_update g id dt step time ?f = Some f'"
    "fs_E f' = compute_e_update g dt b (fs_J ?f) (fs_J0 ?f) (fs_E ?f)" "same_solver ?f f'"
    using solver_step[OF fo, of g dt step time] by blast
  let ?u = "share_fields f' u1"
  have run: "pic_step push n dbl junk g dt (u, f, step, time) = Some (?u, f', step + 1, time + dt)"
    using u(1) f(1) by (simp add: pic_step_def)
  have okn: "updater_ok push n g dt ?u"
    using u(2) ptc_ok_cong[of ?u u1 g] by (simp add: updater_ok_def share_fields_def)
  have pk: "pic_ok push n g dt (?u, f')"
    using v(1) okn u(3-5) f(3) by (simp add: pic_ok_def same_setup_def same_solver_def share_fields_def share_current_def)
  have "gauss_error n g (?u, f') r = gauss_error n g (u, f) r" if r: "deep n g r" for r
  proof -
    let ?i = "col_to_linear (extent g) r" and ?J = "cur_J (pu_cur u1)"
    have ri: "in_extent (extent g) r" using r by (simp add: deep_def)
    have up: "updated g ?i" by (rule updated_node[OF so(6,7) ri deep_in_bound(1)[OF st r]])
    have before: "updated g (col_dec (g_dims g) d ?i 1)" if "d < g_dim g" for d
      using updated_node[OF so(6,7) deep_before(1)[OF st r that] deep_in_bound(2)[OF st r that]]
      by (simp add: deep_before(2)[OF st r that])
    have "vf_add ?J (fs_J0 f) = (\<lambda>c i. ?J c i - (- 1) * fs_J0 f c i)" by (simp add: vf_add_def fun_eq_iff)
    then have "fd_div 2 g (vf_add ?J (fs_J0 f)) ?i st_E = fd_div 2 g ?J ?i st_E - (- 1) * fd_div 2 g (fs_J0 f) ?i st_E"
      by (simp only: fd_div_lin)
    then have J: "fd_div 2 g (vf_add ?J (fs_J0 f)) ?i st_E = current_div g ?J r"
      using J0 r by (simp add: div_same[OF st r, of ?J])
    have "fd_div 2 g (fs_E f') ?i st_E = fd_div 2 g (fs_E f) ?i st_E - dt * current_div g ?J r"
      using div_e_change[OF so(8) up before, of dt b ?J "fs_J0 f" "fs_E f"] f(2) J by (simp add: share_current_def)
    moreover have "updater_density n g ?u r = updater_density n g u1 r" by (simp add: updater_density_def share_fields_def)
    moreover have "updater_density n g u1 r - updater_density n g u r = - dt * current_div g ?J r" using den r v(2) by simp
    ultimately show ?thesis unfolding gauss_error_def by simp
  qed
  then show ?thesis using run pk by blast
qed

lemma pic_run_keeps:
  "pic_ok push n g dt (u, f) \<Longrightarrow>
    \<exists>u' f' step' time'. pic_run push n dbl junk g dt k (u, f, step, time) = Some (u', f', step', time') \<and> pic_ok push n g dt (u', f')
      \<and> (\<forall>r. deep n g r \<longrightarrow> gauss_error n g (u', f') r = gauss_error n g (u, f) r)"
proof (induction k arbitrary: u f step time)
  case (Suc k)
  obtain v h where s: "pic_step push n dbl junk g dt (u, f, step, time) = Some (v, h, step + 1, time + dt)" "pic_ok push n g dt (v, h)"
    "\<forall>r. deep n g r \<longrightarrow> gauss_error n g (v, h) r = gauss_error n g (u, f) r"
    using pic_step_keeps[OF Suc.prems] by blast
  then show ?case using Suc.IH[OF s(2), of "step + 1" "time + dt"] by auto
qed simp

subsection \<open>Property\<close>

text \<open>
  C1.  Gauss's law is kept for any number of time steps.  In one and two dimensions, on one rank
  without photons, smoothing and absorbing layer, with any charge and sort intervals, any external
  fields and a background current free of divergence, steps of particle updater (with its
  clearing of the guard cells and its sorts) and field solver never fail, and at every node that
  is out of reach of the guard cells the difference between the divergence of the solver's \<open>E\<close>
  and the charge density of the particles is what it was at the start.
\<close>

theorem gauss_law_kept:
  assumes "pic_ok push n g dt (u, f)"
  shows "\<exists>u' f' step' time'. pic_run push n dbl junk g dt k (u, f, step, time) = Some (u', f', step', time')
    \<and> (\<forall>r. deep n g r \<longrightarrow>
        fd_div 2 g (fs_E f') (col_to_linear (extent g) r) (field_stagger edge_centered) - updater_density n g u' r
        = fd_div 2 g (fs_E f) (col_to_linear (extent g) r) (field_stagger edge_centered) - updater_density n g u r)"
  using pic_run_keeps[OF assms, of dbl junk k step time] unfolding gauss_error_def prod.case by blast

text \<open>
  The electron of the line with a solver with an external field and a constant background
  current, for two steps; node 4 is deep.
\<close>

definition line_solver :: solver where
  "line_solver = (let z = (\<lambda>_ _. 0) :: vfield; s = (\<lambda>_. 0) :: field in
     \<lparr>fs_E = z, fs_B = z, fs_E0 = (\<lambda>_ _. 1), fs_B0 = z, fs_J = z, fs_J0 = (\<lambda>_ _. 1), fs_Etotal = (\<lambda>_ _. 1), fs_Btotal = z,
      fs_divE = s, fs_divB = s,
      fs_flux = s, fs_E_sqr = s, fs_B_sqr = s, fs_use_implicit = False, fs_alpha = 1, fs_beta = 0, fs_data_interval = 1,
      fs_update_e = True, fs_update_b = True, fs_compute_divs = False, fs_compute_energies = False,
      fs_B_prev = z, fs_B_mid = z, fs_E_init = z, fs_B_init = z, fs_tmp_e1 = z, fs_tmp_e2 = z, fs_tmp_b1 = z, fs_tmp_b2 = z,
      fs_use_pml = False, fs_damping = [], fs_pml_length = 1\<rparr>)"

theorem gauss_law_kept_witness:
  "\<exists>u' f' step' time'. pic_run boris_pusher 1 False (\<lambda>_. 0) line_grid (1 / 4) 2 (line_updater, line_solver, 5, 0) = Some (u', f', step', time')
    \<and> fd_div 2 line_grid (fs_E f') (col_to_linear (extent line_grid) [4]) (field_stagger edge_centered)
        - updater_density 1 line_grid u' [4]
      = fd_div 2 line_grid (fs_E line_solver) (col_to_linear (extent line_grid) [4]) (field_stagger edge_centered)
        - updater_density 1 line_grid line_updater [4]"
proof -
  have "fd_div 2 line_grid (\<lambda>_ _. 1) i st_E = 0" for i
    by (simp add: fd_div_def fd1_div_def diff_def line_grid_def g_dim_def)
  then have "pic_ok boris_pusher 1 line_grid (1 / 4) (line_updater, line_solver)"
    using line_updater_ok
    by (simp add: pic_ok_def line_solver_def Let_def)
      (simp add: line_updater_def ParticleSort.ptc_ok_def line_grid_def g_dim_def)
  moreover have "deep 1 line_grid [4]" by (simp add: deep_def line_grid_def extent_def g_dim_def bs_radius_def)
  ultimately show ?thesis using gauss_law_kept by blast
qed

end
