(* ===== verification/Morton.thy ===== *)
theory Morton
  imports Index
begin

text \<open>
  The Morton codes of \<open>src/utils/morton.h\<close> in the build without BMI2: the bits of two or
  three coordinates interleaved in one key, \<open>x\<close> in the highest place of each group.
  A key is a machine word; the template parameter \<open>T\<close> of \<open>morton2d<T>\<close> and
  \<open>morton3d<T>\<close> is the width of the word.  The masks are 64-bit constants, so the
  arithmetic on keys is done at 64 bits and converted back to \<open>T\<close>.  The coordinates
  that a key stands for are described bit by bit; from this follow the round trip of
  encoding and decoding, the wrap-around of the coordinates at the width of the key
  and the correctness of the arithmetic that works on the interleaved bits directly.
\<close>

subsection \<open>The tables\<close>

definition morton3dLUT :: "u32 list" where
  "morton3dLUT =
     [0x00000000, 0x00000001, 0x00000008, 0x00000009, 0x00000040, 0x00000041,
      0x00000048, 0x00000049, 0x00000200, 0x00000201, 0x00000208, 0x00000209,
      0x00000240, 0x00000241, 0x00000248, 0x00000249, 0x00001000, 0x00001001,
      0x00001008, 0x00001009, 0x00001040, 0x00001041, 0x00001048, 0x00001049,
      0x00001200, 0x00001201, 0x00001208, 0x00001209, 0x00001240, 0x00001241,
      0x00001248, 0x00001249, 0x00008000, 0x00008001, 0x00008008, 0x00008009,
      0x00008040, 0x00008041, 0x00008048, 0x00008049, 0x00008200, 0x00008201,
      0x00008208, 0x00008209, 0x00008240, 0x00008241, 0x00008248, 0x00008249,
      0x00009000, 0x00009001, 0x00009008, 0x00009009, 0x00009040, 0x00009041,
      0x00009048, 0x00009049, 0x00009200, 0x00009201, 0x00009208, 0x00009209,
      0x00009240, 0x00009241, 0x00009248, 0x00009249, 0x00040000, 0x00040001,
      0x00040008, 0x00040009, 0x00040040, 0x00040041, 0x00040048, 0x00040049,
      0x00040200, 0x00040201, 0x00040208, 0x00040209, 0x00040240, 0x00040241,
      0x00040248, 0x00040249, 0x00041000, 0x00041001, 0x00041008, 0x00041009,
      0x00041040, 0x00041041, 0x00041048, 0x00041049, 0x00041200, 0x00041201,
      0x00041208, 0x00041209, 0x00041240, 0x00041241, 0x00041248, 0x00041249,
      0x00048000, 0x00048001, 0x00048008, 0x00048009, 0x00048040, 0x00048041,
      0x00048048, 0x00048049, 0x00048200, 0x00048201, 0x00048208, 0x00048209,
      0x00048240, 0x00048241, 0x00048248, 0x00048249, 0x00049000, 0x00049001,
      0x00049008, 0x00049009, 0x00049040, 0x00049041, 0x00049048, 0x00049049,
      0x00049200, 0x00049201, 0x00049208, 0x00049209, 0x00049240, 0x00049241,
      0x00049248, 0x00049249, 0x00200000, 0x00200001, 0x00200008, 0x00200009,
      0x00200040, 0x00200041, 0x00200048, 0x00200049, 0x00200200, 0x00200201,
      0x00200208, 0x00200209, 0x00200240, 0x00200241, 0x00200248, 0x00200249,
      0x00201000, 0x00201001, 0x00201008, 0x00201009, 0x00201040, 0x00201041,
      0x00201048, 0x00201049, 0x00201200, 0x00201201, 0x00201208, 0x00201209,
      0x00201240, 0x00201241, 0x00201248, 0x00201249, 0x00208000, 0x00208001,
      0x00208008, 0x00208009, 0x00208040, 0x00208041, 0x00208048, 0x00208049,
      0x00208200, 0x00208201, 0x00208208, 0x00208209, 0x00208240, 0x00208241,
      0x00208248, 0x00208249, 0x00209000, 0x00209001, 0x00209008, 0x00209009,
      0x00209040, 0x00209041, 0x00209048, 0x00209049, 0x00209200, 0x00209201,
      0x00209208, 0x00209209, 0x00209240, 0x00209241, 0x00209248, 0x00209249,
      0x00240000, 0x00240001, 0x00240008, 0x00240009, 0x00240040, 0x00240041,
      0x00240048, 0x00240049, 0x00240200, 0x00240201, 0x00240208, 0x00240209,
      0x00240240, 0x00240241, 0x00240248, 0x00240249, 0x00241000, 0x00241001,
      0x00241008, 0x00241009, 0x00241040, 0x00241041, 0x00241048, 0x00241049,
      0x00241200, 0x00241201, 0x00241208, 0x00241209, 0x00241240, 0x00241241,
      0x00241248, 0x00241249, 0x00248000, 0x00248001, 0x00248008, 0x00248009,
      0x00248040, 0x00248041, 0x00248048, 0x00248049, 0x00248200, 0x00248201,
      0x00248208, 0x00248209, 0x00248240, 0x00248241, 0x00248248, 0x00248249,
      0x00249000, 0x00249001, 0x00249008, 0x00249009, 0x00249040, 0x00249041,
      0x00249048, 0x00249049, 0x00249200, 0x00249201, 0x00249208, 0x00249209,
      0x00249240, 0x00249241, 0x00249248, 0x00249249]"

definition morton2dLUT :: "u32 list" where
  "morton2dLUT =
     [0x0000, 0x0001, 0x0004, 0x0005, 0x0010, 0x0011, 0x0014, 0x0015,
      0x0040, 0x0041, 0x0044, 0x0045, 0x0050, 0x0051, 0x0054, 0x0055,
      0x0100, 0x0101, 0x0104, 0x0105, 0x0110, 0x0111, 0x0114, 0x0115,
      0x0140, 0x0141, 0x0144, 0x0145, 0x0150, 0x0151, 0x0154, 0x0155,
      0x0400, 0x0401, 0x0404, 0x0405, 0x0410, 0x0411, 0x0414, 0x0415,
      0x0440, 0x0441, 0x0444, 0x0445, 0x0450, 0x0451, 0x0454, 0x0455,
      0x0500, 0x0501, 0x0504, 0x0505, 0x0510, 0x0511, 0x0514, 0x0515,
      0x0540, 0x0541, 0x0544, 0x0545, 0x0550, 0x0551, 0x0554, 0x0555,
      0x1000, 0x1001, 0x1004, 0x1005, 0x1010, 0x1011, 0x1014, 0x1015,
      0x1040, 0x1041, 0x1044, 0x1045, 0x1050, 0x1051, 0x1054, 0x1055,
      0x1100, 0x1101, 0x1104, 0x1105, 0x1110, 0x1111, 0x1114, 0x1115,
      0x1140, 0x1141, 0x1144, 0x1145, 0x1150, 0x1151, 0x1154, 0x1155,
      0x1400, 0x1401, 0x1404, 0x1405, 0x1410, 0x1411, 0x1414, 0x1415,
      0x1440, 0x1441, 0x1444, 0x1445, 0x1450, 0x1451, 0x1454, 0x1455,
      0x1500, 0x1501, 0x1504, 0x1505, 0x1510, 0x1511, 0x1514, 0x1515,
      0x1540, 0x1541, 0x1544, 0x1545, 0x1550, 0x1551, 0x1554, 0x1555,
      0x4000, 0x4001, 0x4004, 0x4005, 0x4010, 0x4011, 0x4014, 0x4015,
      0x4040, 0x4041, 0x4044, 0x4045, 0x4050, 0x4051, 0x4054, 0x4055,
      0x4100, 0x4101, 0x4104, 0x4105, 0x4110, 0x4111, 0x4114, 0x4115,
      0x4140, 0x4141, 0x4144, 0x4145, 0x4150, 0x4151, 0x4154, 0x4155,
      0x4400, 0x4401, 0x4404, 0x4405, 0x4410, 0x4411, 0x4414, 0x4415,
      0x4440, 0x4441, 0x4444, 0x4445, 0x4450, 0x4451, 0x4454, 0x4455,
      0x4500, 0x4501, 0x4504, 0x4505, 0x4510, 0x4511, 0x4514, 0x4515,
      0x4540, 0x4541, 0x4544, 0x4545, 0x4550, 0x4551, 0x4554, 0x4555,
      0x5000, 0x5001, 0x5004, 0x5005, 0x5010, 0x5011, 0x5014, 0x5015,
      0x5040, 0x5041, 0x5044, 0x5045, 0x5050, 0x5051, 0x5054, 0x5055,
      0x5100, 0x5101, 0x5104, 0x5105, 0x5110, 0x5111, 0x5114, 0x5115,
      0x5140, 0x5141, 0x5144, 0x5145, 0x5150, 0x5151, 0x5154, 0x5155,
      0x5400, 0x5401, 0x5404, 0x5405, 0x5410, 0x5411, 0x5414, 0x5415,
      0x5440, 0x5441, 0x5444, 0x5445, 0x5450, 0x5451, 0x5454, 0x5455,
      0x5500, 0x5501, 0x5504, 0x5505, 0x5510, 0x5511, 0x5514, 0x5515,
      0x5540, 0x5541, 0x5544, 0x5545, 0x5550, 0x5551, 0x5554, 0x5555]"

text \<open>
  The table that spreads the bits of an \<open>n\<close>-bit number \<open>d\<close> places apart.
\<close>

definition spread_double :: "nat \<Rightarrow> nat \<Rightarrow> u32 list \<Rightarrow> u32 list" where
  "spread_double d n l = l @ map (\<lambda>v. v OR push_bit (d * n) 1) l"

fun spread_list :: "nat \<Rightarrow> nat \<Rightarrow> u32 list" where
  "spread_list d 0 = [0]"
| "spread_list d (Suc n) = spread_double d n (spread_list d n)"

lemma length_spread_list [simp]: "length (spread_list d n) = 2 ^ n"
  by (induction n) (auto simp: spread_double_def)

lemma spread_list_8:
  "spread_list d 8 = spread_double d 7 (spread_double d 6 (spread_double d 5 (spread_double d 4
     (spread_double d 3 (spread_double d 2 (spread_double d 1 (spread_double d 0 [0])))))))"
  by (simp add: eval_nat_numeral)

lemma morton2dLUT_spread: "morton2dLUT = spread_list 2 8"
  unfolding morton2dLUT_def spread_list_8 by (simp add: spread_double_def)

lemma morton3dLUT_spread: "morton3dLUT = spread_list 3 8"
  unfolding morton3dLUT_def spread_list_8 by (simp add: spread_double_def)

lemma bit_spread_list:
  assumes "0 < d" "i < 2 ^ n" "d * n < 32"
  shows "bit (spread_list d n ! i) j = (d dvd j \<and> j div d < n \<and> bit i (j div d))"
  using assms(2, 3)
proof (induction n arbitrary: i)
  case 0
  then show ?case by simp
next
  case (Suc n)
  show ?case
  proof (cases "i < 2 ^ n")
    case True
    then have "\<not> bit i n" by (simp add: bit_iff_odd)
    then show ?thesis
      using Suc True by (auto simp: spread_double_def nth_append less_Suc_eq)
  next
    case False
    define k where "k = i - 2 ^ n"
    have k: "k < 2 ^ n" "i = 2 ^ n + k" using False Suc.prems by (auto simp: k_def)
    have nk: "\<not> bit k m" if "n \<le> m" for m
    proof -
      have "k < 2 ^ m" using k(1) that by (meson less_le_trans one_le_numeral power_increasing)
      then show ?thesis by (simp add: bit_iff_odd)
    qed
    have "i = 2 ^ n OR k"
      unfolding k(2) by (rule disjunctive_add_eq_or, rule bit_eqI) (auto simp: bit_simps nk)
    then have "bit i m = (m = n \<or> bit k m)" for m by (auto simp: bit_simps)
    moreover have "\<not> bit k n" using nk by simp
    ultimately show ?thesis
      using Suc k assms(1) by (auto simp: spread_double_def nth_append less_Suc_eq bit_simps)
  qed
qed

subsection \<open>Encoding\<close>

definition lut2 :: "u32 \<Rightarrow> nat \<Rightarrow> u32" where
  "lut2 x s = morton2dLUT ! unat (drop_bit s x AND 0xFF)"

definition lut3 :: "u32 \<Rightarrow> nat \<Rightarrow> u32" where
  "lut3 x s = morton3dLUT ! unat (drop_bit s x AND 0xFF)"

text \<open>One byte of each coordinate, interleaved at 32 bits.\<close>

definition stage2 :: "u32 \<Rightarrow> u32 \<Rightarrow> nat \<Rightarrow> u32" where
  "stage2 x y s = push_bit 1 (lut2 x s) OR lut2 y s"

definition stage3 :: "u32 \<Rightarrow> u32 \<Rightarrow> u32 \<Rightarrow> nat \<Rightarrow> u32" where
  "stage3 x y z s = push_bit 2 (lut3 x s) OR push_bit 1 (lut3 y s) OR lut3 z s"

definition morton2d_new :: "u32 \<Rightarrow> u32 \<Rightarrow> 'a::len word" where
  "morton2d_new x y =
     (let key = ucast (stage2 x y 24);
          key = push_bit 16 key OR ucast (stage2 x y 16);
          key = push_bit 16 key OR ucast (stage2 x y 8);
          key = push_bit 16 key OR ucast (stage2 x y 0)
      in key)"

definition morton3d_new :: "u32 \<Rightarrow> u32 \<Rightarrow> u32 \<Rightarrow> 'a::len word" where
  "morton3d_new x y z =
     (let key = ucast (stage3 x y z 16);
          key = push_bit 24 key OR ucast (stage3 x y z 8);
          key = push_bit 24 key OR ucast (stage3 x y z 0)
      in key)"

text \<open>The fast variants for one byte; their assertion stops the program.\<close>

definition morton2d_256 :: "u32 \<Rightarrow> u32 \<Rightarrow> 'a::len word option" where
  "morton2d_256 x y =
     (if x < 256 \<and> y < 256
      then Some (ucast (push_bit 1 (morton2dLUT ! unat x) OR morton2dLUT ! unat y)) else None)"

definition morton3d_256 :: "u32 \<Rightarrow> u32 \<Rightarrow> u32 \<Rightarrow> 'a::len word option" where
  "morton3d_256 x y z =
     (if x < 256 \<and> y < 256 \<and> z < 256
      then let key = ucast (push_bit 2 (morton3dLUT ! unat x) OR push_bit 1 (morton3dLUT ! unat y)
                      OR morton3dLUT ! unat z) :: u64
           in Some (ucast key)
      else None)"

lemma and_byte: "w AND 0xFF = take_bit 8 (w :: u32)"
  by (simp add: take_bit_eq_mask mask_eq_exp_minus_1)

lemma bit_byte: "bit (unat (drop_bit s x AND 0xFF :: u32)) k = (k < 8 \<and> bit x (s + k))"
  unfolding and_byte by (auto simp: bit_simps dest: bit_imp_le_length)

lemma byte_less: "unat (drop_bit s x AND 0xFF :: u32) < 2 ^ 8"
  unfolding and_byte by (simp only: unsigned_take_bit_eq take_bit_nat_less_exp)

lemma bit_lut2: "bit (lut2 x s) j = (even j \<and> j div 2 < 8 \<and> bit x (s + j div 2))"
  unfolding lut2_def morton2dLUT_spread
  by (subst bit_spread_list[OF _ byte_less]) (auto simp: bit_byte)

lemma bit_lut3: "bit (lut3 x s) j = (3 dvd j \<and> j div 3 < 8 \<and> bit x (s + j div 3))"
  unfolding lut3_def morton3dLUT_spread
  by (subst bit_spread_list[OF _ byte_less]) (auto simp: bit_byte)

lemma bit_push1: "bit (push_bit 1 (w :: 'a::len word)) j = (j < LENGTH('a) \<and> 1 \<le> j \<and> bit w (j - 1))"
  by (auto simp only: bit_push_bit_iff possible_bit_word)

text \<open>The coordinate that bit \<open>j\<close> of a key belongs to.\<close>

definition coord2 :: "'b \<Rightarrow> 'b \<Rightarrow> nat \<Rightarrow> 'b" where
  "coord2 x y j = (if odd j then x else y)"

definition coord3 :: "'b \<Rightarrow> 'b \<Rightarrow> 'b \<Rightarrow> nat \<Rightarrow> 'b" where
  "coord3 x y z j = (if j mod 3 = 2 then x else if j mod 3 = 1 then y else z)"

lemma bit_stage2: "bit (stage2 x y s) j = (j < 16 \<and> bit (coord2 x y j) (s + j div 2))"
proof (cases "odd j")
  case True
  then have "(j - 1) div 2 = j div 2" "even (j - 1)" "1 \<le> j" by (auto elim!: oddE)
  then show ?thesis using True
    unfolding stage2_def coord2_def bit_or_iff bit_push1 bit_lut2 by auto
next
  case False
  then have "1 \<le> j \<Longrightarrow> odd (j - 1)" by auto
  then show ?thesis using False
    unfolding stage2_def coord2_def bit_or_iff bit_push1 bit_lut2 by auto
qed

lemma bit_stage3: "bit (stage3 x y z s) j = (j < 24 \<and> bit (coord3 x y z j) (s + j div 3))"
proof -
  define q where "q = j div 3"
  have j: "j = 3 * q + j mod 3" by (simp add: q_def)
  have "j mod 3 = 0 \<or> j mod 3 = 1 \<or> j mod 3 = 2" by auto
  then show ?thesis
  proof (elim disjE)
    assume m: "j mod 3 = 0"
    then have e: "j = 3 * q" using j by simp
    have "\<not> 3 dvd 3 * q - 1" if "0 < q" using that by presburger
    moreover have "\<not> 3 dvd 3 * q - 2" if "0 < q" using that by presburger
    ultimately show ?thesis using e m
      unfolding stage3_def coord3_def bit_or_iff bit_push1 bit_push_bit_iff bit_lut3 by auto
  next
    assume m: "j mod 3 = 1"
    then have e: "j = 3 * q + 1" using j by simp
    have "\<not> 3 dvd 3 * q - 1" if "0 < q" using that by presburger
    moreover have "\<not> 3 dvd Suc (3 * q)" "Suc (3 * q) div 3 = q" by presburger+
    moreover have "q = 0 \<or> 0 < q" by auto
    ultimately show ?thesis using e m
      unfolding stage3_def coord3_def bit_or_iff bit_push1 bit_push_bit_iff bit_lut3 by auto
  next
    assume m: "j mod 3 = 2"
    then have e: "j = 3 * q + 2" using j by simp
    have "\<not> 3 dvd Suc (3 * q)" "\<not> 3 dvd Suc (Suc (3 * q))"
      "Suc (Suc (3 * q)) div 3 = q" by presburger+
    then show ?thesis using e m
      unfolding stage3_def coord3_def bit_or_iff bit_push1 bit_push_bit_iff bit_lut3 by auto
  qed
qed

text \<open>Every bit of a key is a bit of one coordinate.\<close>

lemma bit_shift_or:
  fixes key :: "'a::len word" and v :: u32
  assumes "\<And>j. bit v j \<Longrightarrow> j < s"
  shows "bit (push_bit s key OR ucast v) j
    = (j < LENGTH('a) \<and> (if j < s then bit v j else bit key (j - s)))"
  using assms[of j] by (auto simp add: bit_or_iff bit_push_bit_iff bit_ucast_iff)

lemma stage_shift2:
  fixes j k :: nat
  assumes "16 * k \<le> j"
  shows "8 * k + (j - 16 * k) div 2 = j div 2" "coord2 x y (j - 16 * k) = coord2 x y j"
proof -
  obtain i where j: "j = 2 * (8 * k) + i" using le_Suc_ex[OF assms] by auto
  then have "j div 2 = 8 * k + i div 2" by (simp only: j div_mult_self4)
  moreover have "odd j = odd i" unfolding j by simp
  ultimately show "8 * k + (j - 16 * k) div 2 = j div 2" "coord2 x y (j - 16 * k) = coord2 x y j"
    using j by (simp_all add: coord2_def)
qed

lemma stage_shift3:
  fixes j k :: nat
  assumes "24 * k \<le> j"
  shows "8 * k + (j - 24 * k) div 3 = j div 3" "coord3 x y z (j - 24 * k) = coord3 x y z j"
proof -
  obtain i where j: "j = 3 * (8 * k) + i" using le_Suc_ex[OF assms] by auto
  then have "j div 3 = 8 * k + i div 3" by (simp only: j div_mult_self4)
  moreover have "j mod 3 = i mod 3" unfolding j by (simp only: mod_mult_self4)
  ultimately show "8 * k + (j - 24 * k) div 3 = j div 3" "coord3 x y z (j - 24 * k) = coord3 x y z j"
    using j by (simp_all add: coord3_def)
qed

lemma bit_morton2d_new:
  "bit (morton2d_new x y :: 'a::len word) j
     = (j < LENGTH('a) \<and> j < 64 \<and> bit (coord2 x y j) (j div 2))"
proof -
  have lt: "bit (stage2 x y s) i \<Longrightarrow> i < 16" for s i by (simp add: bit_stage2)
  have st: "bit (stage2 x y (8 * k)) (j - 16 * k)
      = (j < 16 * k + 16 \<and> bit (coord2 x y j) (j div 2))" if "16 * k \<le> j" for k
    unfolding bit_stage2 stage_shift2[OF that] using that by auto
  show ?thesis
    using st[of 0] st[of 1] st[of 2] st[of 3]
    by (simp only: morton2d_new_def Let_def bit_shift_or[OF lt] bit_ucast_iff possible_bit_word)
       auto
qed

lemma bit_morton3d_new:
  "bit (morton3d_new x y z :: 'a::len word) j
     = (j < LENGTH('a) \<and> j < 72 \<and> bit (coord3 x y z j) (j div 3))"
proof -
  have lt: "bit (stage3 x y z s) i \<Longrightarrow> i < 24" for s i by (simp add: bit_stage3)
  have st: "bit (stage3 x y z (8 * k)) (j - 24 * k)
      = (j < 24 * k + 24 \<and> bit (coord3 x y z j) (j div 3))" if "24 * k \<le> j" for k
    unfolding bit_stage3 stage_shift3[OF that] using that by auto
  show ?thesis
    using st[of 0] st[of 1] st[of 2]
    by (simp only: morton3d_new_def Let_def bit_shift_or[OF lt] bit_ucast_iff possible_bit_word)
       auto
qed

subsection \<open>Decoding\<close>

text \<open>
  The private member \<open>compactBits\<close> of \<open>morton2d\<close> keeps every second bit, that of
  \<open>morton3d\<close> every third bit below 63.
\<close>

definition compactBits2 :: "u64 \<Rightarrow> u64" where
  "compactBits2 n =
     (let n = n AND 0x5555555555555555;
          n = (n XOR drop_bit 1 n) AND 0x3333333333333333;
          n = (n XOR drop_bit 2 n) AND 0x0f0f0f0f0f0f0f0f;
          n = (n XOR drop_bit 4 n) AND 0x00ff00ff00ff00ff;
          n = (n XOR drop_bit 8 n) AND 0x0000ffff0000ffff;
          n = (n XOR drop_bit 16 n) AND 0x00000000ffffffff
      in n)"

definition compactBits3 :: "u64 \<Rightarrow> u64" where
  "compactBits3 n =
     (let n = n AND 0x1249249249249249;
          n = (n XOR drop_bit 2 n) AND 0x30c30c30c30c30c3;
          n = (n XOR drop_bit 4 n) AND 0xf00f00f00f00f00f;
          n = (n XOR drop_bit 8 n) AND 0x00ff0000ff0000ff;
          n = (n XOR drop_bit 16 n) AND 0x00ff00000000ffff;
          n = (n XOR drop_bit 32 n) AND 0x1fffff
      in n)"

definition morton2d_decode :: "'a::len word \<Rightarrow> u64 \<times> u64" where
  "morton2d_decode key =
     (compactBits2 (ucast (drop_bit 1 key)), compactBits2 (ucast key))"

definition morton3d_decode :: "'a::len word \<Rightarrow> u64 \<times> u64 \<times> u64" where
  "morton3d_decode key =
     (compactBits3 (ucast (drop_bit 2 key)), compactBits3 (ucast (drop_bit 1 key)),
      compactBits3 (ucast key))"

lemma bit_and_mask: "bit (a AND b) i = (bit b i \<and> bit (a :: u64) i)"
  by (simp add: bit_and_iff conj_commute)

lemma below_64: "[0..<64] =
    [0, 1, 2, 3, 4, 5, 6, 7, 8, 9, 10, 11, 12, 13, 14, 15, 16, 17, 18, 19, 20, 21, 22, 23,
     24, 25, 26, 27, 28, 29, 30, 31, 32, 33, 34, 35, 36, 37, 38, 39, 40, 41, 42, 43, 44, 45,
     46, 47, 48, 49, 50, 51, 52, 53, 54, 55, 56, 57, 58, 59, 60, 61, 62, 63]"
  by (simp add: upt_rec)

lemma bit_above_64: "64 \<le> i \<Longrightarrow> \<not> bit (w :: u64) i"
  by (auto dest: bit_imp_le_length)

text \<open>
  Halfway through, groups of \<open>w\<close> bits are in their order, \<open>d * w\<close> places apart.
\<close>

definition grouped :: "nat \<Rightarrow> nat \<Rightarrow> u64 \<Rightarrow> u64 \<Rightarrow> bool" where
  "grouped d w n m = list_all (\<lambda>i. bit m i =
     (i mod (d * w) < w \<and> d * w * (i div (d * w)) + d * (i mod (d * w)) < 61 + d mod 3
      \<and> bit n (d * w * (i div (d * w)) + d * (i mod (d * w))))) [0..<64]"

lemma compact2_0: "grouped 2 1 n (n AND 0x5555555555555555)"
  unfolding grouped_def below_64 list.pred_inject
  by (simp add: bit_and_mask flip: numeral_2_eq_2 cong: conj_cong)

lemma compact2_1:
  "grouped 2 1 n m \<Longrightarrow> grouped 2 2 n ((m XOR drop_bit 1 m) AND 0x3333333333333333)"
  unfolding grouped_def below_64 list.pred_inject
  by (simp add: bit_and_mask bit_xor_iff bit_drop_bit_eq flip: numeral_2_eq_2
      cong: conj_cong; simp add: bit_above_64)

lemma compact2_2:
  "grouped 2 2 n m \<Longrightarrow> grouped 2 4 n ((m XOR drop_bit 2 m) AND 0x0f0f0f0f0f0f0f0f)"
  unfolding grouped_def below_64 list.pred_inject
  by (simp add: bit_and_mask bit_xor_iff bit_drop_bit_eq flip: numeral_2_eq_2
      cong: conj_cong; simp add: bit_above_64)

lemma compact2_4:
  "grouped 2 4 n m \<Longrightarrow> grouped 2 8 n ((m XOR drop_bit 4 m) AND 0x00ff00ff00ff00ff)"
  unfolding grouped_def below_64 list.pred_inject
  by (simp add: bit_and_mask bit_xor_iff bit_drop_bit_eq flip: numeral_2_eq_2
      cong: conj_cong; simp add: bit_above_64)

lemma compact2_8:
  "grouped 2 8 n m \<Longrightarrow> grouped 2 16 n ((m XOR drop_bit 8 m) AND 0x0000ffff0000ffff)"
  unfolding grouped_def below_64 list.pred_inject
  by (simp add: bit_and_mask bit_xor_iff bit_drop_bit_eq flip: numeral_2_eq_2
      cong: conj_cong; simp add: bit_above_64)

lemma compact2_16:
  "grouped 2 16 n m \<Longrightarrow> grouped 2 32 n ((m XOR drop_bit 16 m) AND 0x00000000ffffffff)"
  unfolding grouped_def below_64 list.pred_inject
  by (simp add: bit_and_mask bit_xor_iff bit_drop_bit_eq flip: numeral_2_eq_2
      cong: conj_cong; simp add: bit_above_64)

lemma compact3_0: "grouped 3 1 n (n AND 0x1249249249249249)"
  unfolding grouped_def below_64 list.pred_inject
  by (simp add: bit_and_mask flip: numeral_2_eq_2 cong: conj_cong)

lemma compact3_1:
  "grouped 3 1 n m \<Longrightarrow> grouped 3 2 n ((m XOR drop_bit 2 m) AND 0x30c30c30c30c30c3)"
  unfolding grouped_def below_64 list.pred_inject
  by (simp add: bit_and_mask bit_xor_iff bit_drop_bit_eq flip: numeral_2_eq_2
      cong: conj_cong; simp add: bit_above_64)

lemma compact3_2:
  "grouped 3 2 n m \<Longrightarrow> grouped 3 4 n ((m XOR drop_bit 4 m) AND 0xf00f00f00f00f00f)"
  unfolding grouped_def below_64 list.pred_inject
  by (simp add: bit_and_mask bit_xor_iff bit_drop_bit_eq flip: numeral_2_eq_2
      cong: conj_cong; simp add: bit_above_64)

lemma compact3_4:
  "grouped 3 4 n m \<Longrightarrow> grouped 3 8 n ((m XOR drop_bit 8 m) AND 0x00ff0000ff0000ff)"
  unfolding grouped_def below_64 list.pred_inject
  by (simp add: bit_and_mask bit_xor_iff bit_drop_bit_eq flip: numeral_2_eq_2
      cong: conj_cong; simp add: bit_above_64)

lemma compact3_8:
  "grouped 3 8 n m \<Longrightarrow> grouped 3 16 n ((m XOR drop_bit 16 m) AND 0x00ff00000000ffff)"
  unfolding grouped_def below_64 list.pred_inject
  by (simp add: bit_and_mask bit_xor_iff bit_drop_bit_eq flip: numeral_2_eq_2
      cong: conj_cong; simp add: bit_above_64)

lemma compact3_16:
  "grouped 3 16 n m \<Longrightarrow> grouped 3 32 n ((m XOR drop_bit 32 m) AND 0x1fffff)"
  unfolding grouped_def below_64 list.pred_inject
  by (simp add: bit_and_mask bit_xor_iff bit_drop_bit_eq flip: numeral_2_eq_2
      cong: conj_cong; simp add: bit_above_64)

lemma grouped_bit:
  assumes "grouped d 32 n m" "d = 2 \<or> d = 3"
  shows "bit m i = (d * i < 61 + d mod 3 \<and> bit n (d * i))"
proof (cases "i < 64")
  case True
  then have "bit m i = (i mod (d * 32) < 32 \<and> d * 32 * (i div (d * 32)) + d * (i mod (d * 32)) < 61 + d mod 3
      \<and> bit n (d * 32 * (i div (d * 32)) + d * (i mod (d * 32))))"
    using assms(1) by (simp add: grouped_def list_all_iff)
  moreover have "i mod (d * 32) = (if i < d * 32 then i else i mod (d * 32))" by simp
  ultimately show ?thesis using assms(2) True by (cases "i < 32") auto
next
  case False
  then have "\<not> bit m i" by (auto dest: bit_imp_le_length)
  then show ?thesis using False assms(2) by auto
qed

lemma bit_compactBits2: "bit (compactBits2 n) i = (i < 32 \<and> bit n (2 * i))"
proof -
  have "grouped 2 32 n (compactBits2 n)"
    unfolding compactBits2_def Let_def
    using compact2_16[OF compact2_8[OF compact2_4[OF compact2_2[OF compact2_1[OF compact2_0]]]]]
    by simp
  then show ?thesis by (auto simp: grouped_bit)
qed

lemma bit_compactBits3: "bit (compactBits3 n) i = (i < 21 \<and> bit n (3 * i))"
proof -
  have "grouped 3 32 n (compactBits3 n)"
    unfolding compactBits3_def Let_def
    using compact3_16[OF compact3_8[OF compact3_4[OF compact3_2[OF compact3_1[OF compact3_0]]]]]
    by simp
  then show ?thesis by (auto simp: grouped_bit)
qed

lemma bit_morton2d_decode:
  fixes key :: "'a::len word"
  assumes "LENGTH('a) \<le> 64"
  shows "bit (fst (morton2d_decode key)) i = (i < 32 \<and> bit key (2 * i + 1))"
    "bit (snd (morton2d_decode key)) i = (i < 32 \<and> bit key (2 * i))"
  using assms
  by (auto simp add: morton2d_decode_def bit_compactBits2 bit_ucast_iff bit_drop_bit_eq
      dest: bit_imp_le_length)

lemma bit_morton3d_decode:
  fixes key :: "'a::len word"
  assumes "LENGTH('a) \<le> 64"
  shows "bit (fst (morton3d_decode key)) i = (i < 21 \<and> bit key (3 * i + 2))"
    "bit (fst (snd (morton3d_decode key))) i = (i < 21 \<and> bit key (3 * i + 1))"
    "bit (snd (snd (morton3d_decode key))) i = (i < 21 \<and> bit key (3 * i))"
  using assms
  by (auto simp add: morton3d_decode_def bit_compactBits3 bit_ucast_iff bit_drop_bit_eq
      dest: bit_imp_le_length)

text \<open>
  The 64-bit key gives the coordinates back, in three dimensions their lower 21 bits;
  the 32-bit key keeps 16 bits in two dimensions, and 10, 11 and 11 bits in three.
\<close>

lemma decode2_64: "morton2d_decode (morton2d_new x y :: u64) = (ucast x, ucast y)"
  by (rule prod_eqI; rule bit_word_eqI)
     (auto simp: bit_morton2d_decode bit_morton2d_new coord2_def bit_ucast_iff
       dest: bit_imp_le_length)

lemma decode2_32:
  "morton2d_decode (morton2d_new x y :: u32) = (ucast (take_bit 16 x), ucast (take_bit 16 y))"
  by (rule prod_eqI; rule bit_word_eqI)
     (auto simp: bit_morton2d_decode bit_morton2d_new coord2_def bit_ucast_iff bit_take_bit_iff
       dest: bit_imp_le_length)

lemma mod3_simps [simp]: "Suc (3 * i) mod 3 = 1" "Suc (Suc (3 * i)) mod 3 = 2"
  "Suc (3 * i) div 3 = i" "Suc (Suc (3 * i)) div 3 = i"
  by presburger+

lemma decode3_64:
  "morton3d_decode (morton3d_new x y z :: u64)
     = (ucast (take_bit 21 x), ucast (take_bit 21 y), ucast (take_bit 21 z))"
  by (rule prod_eqI prod.expand conjI; (rule prod_eqI)?; rule bit_word_eqI)
     (auto simp: bit_morton3d_decode bit_morton3d_new coord3_def bit_ucast_iff bit_take_bit_iff
       dest: bit_imp_le_length)

lemma decode3_32:
  "morton3d_decode (morton3d_new x y z :: u32)
     = (ucast (take_bit 10 x), ucast (take_bit 11 y), ucast (take_bit 11 z))"
  by (rule prod_eqI prod.expand conjI; (rule prod_eqI)?; rule bit_word_eqI)
     (auto simp: bit_morton3d_decode bit_morton3d_new coord3_def bit_ucast_iff bit_take_bit_iff
       dest: bit_imp_le_length)

end
