(* ===== verification/MortonArith.thy ===== *)
theory MortonArith
  imports Morton
begin

text \<open>
  Arithmetic on Morton keys without decoding them (\<open>src/utils/morton.h\<close>).  An addition
  first sets every bit between the bits of the coordinate, so that a carry runs through
  them to the next bit of the same coordinate; a subtraction clears them.  The lemmas
  on integers \<open>field_add\<close> and \<open>field_diff\<close> show this once for a field in any place
  of groups of any size; the operations on keys are instances.
\<close>

subsection \<open>Adding and subtracting one field of an interleaved number\<close>

lemma field_add_step:
  fixes u w :: int
  assumes p: "p < d"
    and u: "\<And>j. j < d \<Longrightarrow> j \<noteq> p \<Longrightarrow> bit u j"
    and w: "\<And>j. j < d \<Longrightarrow> j \<noteq> p \<Longrightarrow> \<not> bit w j"
    and c: "c = 0 \<or> c = 1"
  shows "bit (u + w + c) p = odd (of_bool (bit u p) + of_bool (bit w p) + c)"
    and "(u + w + c) div 2 ^ d
      = u div 2 ^ d + w div 2 ^ d + (of_bool (bit u p) + of_bool (bit w p) + c) div 2"
proof -
  define a b :: int where "a = of_bool (bit u p)" and "b = of_bool (bit w p)"
  have P: "(2 :: int) ^ d = 2 * 2 ^ (d - 1)" "p \<le> d - 1" 
    using p by (cases d; simp)+
  have mu: "u mod 2 ^ d = 2 ^ d - 1 - 2 ^ p + a * 2 ^ p"
  proof -
    have "take_bit d u = (if bit u p then mask d else mask d - 2 ^ p)"
    proof (cases "bit u p")
      case True
      then have "take_bit d u = mask d"
        using u by (intro bit_eqI) (auto simp: bit_simps)
      then show ?thesis using True by simp
    next
      case False
      have "unset_bit p (mask d :: int) = mask d - 2 ^ p"
        using p by (simp add: unset_bit_eq bit_mask_iff)
      moreover have "take_bit d u = unset_bit p (mask d)"
        using u False by (intro bit_eqI) (auto simp: bit_simps)
      ultimately show ?thesis using False by simp
    qed
    then show ?thesis by (simp add: take_bit_eq_mod mask_eq_exp_minus_1 a_def)
  qed
  have mw: "w mod 2 ^ d = b * 2 ^ p"
  proof -
    have "take_bit d w = (if bit w p then 2 ^ p else 0)"
      using w p by (intro bit_eqI) (auto simp: bit_simps)
    then show ?thesis by (simp add: take_bit_eq_mod b_def)
  qed
  define Q :: int where "Q = 2 ^ (d - 1 - p)"
  define P :: int where "P = 2 ^ p"
  define s where "s = a + b"
  define R where "R = u div 2 ^ d + w div 2 ^ d"
  have D: "2 ^ d = P * (2 * Q)" and pos: "0 < P" "0 < Q"
    using p by (simp_all add: P_def Q_def flip: power_add power_Suc)
  have s: "s = 0 \<or> s = 1 \<or> s = 2" by (auto simp: s_def a_def b_def)
  have "u + w + c = 2 ^ d * R + (u mod 2 ^ d + w mod 2 ^ d + c)"
    by (simp add: R_def ring_distribs)
  also have "\<dots> = 2 ^ d * R + (2 ^ d - 1 - P + a * P + b * P + c)"
    unfolding mu mw P_def by simp
  also have "\<dots> = P * (2 * Q * R + 2 * Q - 1 + s) + (c - 1)"
    unfolding D by (simp add: s_def algebra_simps)
  finally have x: "u + w + c = P * (2 * Q * R + 2 * Q - 1 + s) + (c - 1)" .
  have pdiv: "(P * m + (c - 1)) div P = m + (c - 1)" for m
  proof (cases "c = 1")
    case False
    then have "(P * m + (c - 1)) div P = (P * (m - 1) + (P - 1)) div P"
      using c by (simp add: algebra_simps)
    also have "\<dots> = m - 1" using pos(1) by simp
    finally show ?thesis using False c by simp
  qed (use pos in simp)
  have "bit (u + w + c) p = odd (2 * Q * R + 2 * Q - 1 + s + (c - 1))"
    by (simp only: bit_iff_odd x P_def[symmetric] pdiv)
  then show "bit (u + w + c) p = odd (of_bool (bit u p) + of_bool (bit w p) + c)"
    using c by (auto simp: s_def a_def b_def)
  have "(u + w + c) div 2 ^ d = (2 * Q * R + 2 * Q - 1 + s + (c - 1)) div (2 * Q)"
    unfolding x D using pos pdiv by (simp add: zdiv_zmult2_eq)
  also have "\<dots> = R + (2 * Q + (s + c - 2)) div (2 * Q)"
    using pos div_mult_self4[of "2 * Q" R "2 * Q + (s + c - 2)"] by (simp add: algebra_simps)
  also have "(2 * Q + (s + c - 2)) div (2 * Q) = (s + c) div 2"
  proof (cases "s + c < 2")
    case True
    then have "0 \<le> s + c" "s + c < 2" using s c by auto
    then have "(2 * Q + (s + c - 2)) div (2 * Q) = 0"
      using pos by (intro div_pos_pos_trivial) auto
    then show ?thesis using \<open>0 \<le> s + c\<close> True by simp
  next
    case False
    then have "s + c = 2 \<or> s + c = 3" using s c by auto
    moreover have "(2 * Q + 1) div (2 * Q) = 1" using pos by (simp add: div_add1_eq)
    ultimately show ?thesis using pos by auto
  qed
  finally show "(u + w + c) div 2 ^ d
      = u div 2 ^ d + w div 2 ^ d + (of_bool (bit u p) + of_bool (bit w p) + c) div 2"
    by (simp add: R_def s_def a_def b_def)
qed

text \<open>
  \<open>u\<close> has every bit outside the field set, \<open>w\<close> has none of them.  Bit \<open>i\<close> of the
  field of \<open>u + w\<close> is then bit \<open>i\<close> of the sum of the fields \<open>a\<close> and \<open>b\<close>.
\<close>

lemma bit_div_exp: "bit ((x :: int) div 2 ^ d) j = bit x (d + j)"
  by (simp add: bit_drop_bit_eq flip: drop_bit_eq_div)

lemma bit_div_2: "bit ((x :: int) div 2) j = bit x (Suc j)"
  by (simp add: bit_Suc)

lemma field_add_carry:
  fixes u w a b c :: int
  assumes p: "p < d"
    and u: "\<And>j. j < d * Suc i \<Longrightarrow> j mod d \<noteq> p \<Longrightarrow> bit u j"
    and w: "\<And>j. j < d * Suc i \<Longrightarrow> j mod d \<noteq> p \<Longrightarrow> \<not> bit w j"
    and a: "\<And>k. k \<le> i \<Longrightarrow> bit a k = bit u (d * k + p)"
    and b: "\<And>k. k \<le> i \<Longrightarrow> bit b k = bit w (d * k + p)"
    and c: "c = 0 \<or> c = 1"
  shows "bit (u + w + c) (d * i + p) = bit (a + b + c) i"
  using u w a b c
proof (induction i arbitrary: u w a b c)
  case 0
  have "bit (u + w + c) p = odd (of_bool (bit u p) + of_bool (bit w p) + c)"
    using 0 p by (intro field_add_step(1)) auto
  then show ?case using "0.prems"(3)[of 0] "0.prems"(4)[of 0] by (auto simp: bit_0)
next
  case (Suc i)
  define c' where "c' = (of_bool (bit u p) + of_bool (bit w p) + c) div 2"
  have c': "c' = 0 \<or> c' = 1" using Suc.prems(5) by (auto simp: c'_def)
  have ab: "odd a = bit u p" "odd b = bit w p"
    using Suc.prems(3)[of 0] Suc.prems(4)[of 0] by (auto simp: bit_0)
  have "(u + w + c) div 2 ^ d = u div 2 ^ d + w div 2 ^ d + c'"
    unfolding c'_def using Suc.prems p by (intro field_add_step(2)) auto
  moreover have "(a + b + c) div 2 = a div 2 + b div 2 + c'"
    unfolding c'_def using ab Suc.prems(5) by (cases "odd a"; cases "odd b") (auto elim!: oddE evenE)
  moreover have "bit (u div 2 ^ d + w div 2 ^ d + c') (d * i + p) = bit (a div 2 + b div 2 + c') i"
  proof (rule Suc.IH[OF _ _ _ _ c'])
    fix j assume "j < d * Suc i" "j mod d \<noteq> p"
    then show "bit (u div 2 ^ d) j" "\<not> bit (w div 2 ^ d) j"
      using Suc.prems(1,2)[of "d + j"] by (auto simp: bit_div_exp)
  next
    fix k assume "k \<le> i"
    then show "bit (a div 2) k = bit (u div 2 ^ d) (d * k + p)"
      "bit (b div 2) k = bit (w div 2 ^ d) (d * k + p)"
      using Suc.prems(3,4)[of "Suc k"] by (auto simp: bit_div_exp bit_div_2 ac_simps)
  qed
  ultimately show ?case
    using bit_div_exp[of "u + w + c" d "d * i + p"] bit_div_2[of "a + b + c" i]
    by (simp add: ac_simps)
qed

text \<open>A difference is the complement of a sum with the complement.\<close>

lemma field_add:
  fixes u w a b :: int
  assumes "p < d"
    and "\<And>j. j < d * Suc i \<Longrightarrow> j mod d \<noteq> p \<Longrightarrow> bit u j \<and> \<not> bit w j"
    and "\<And>k. k \<le> i \<Longrightarrow> bit a k = bit u (d * k + p) \<and> bit b k = bit w (d * k + p)"
  shows "bit (u + w) (d * i + p) = bit (a + b) i"
  using field_add_carry[of p d i u w a b 0] assms by simp

lemma not_diff: "u - w = NOT (NOT u + w)" for u w :: int
  by (simp add: not_int_def)

lemma field_diff:
  fixes u w a b :: int
  assumes "p < d"
    and "\<And>j. j < d * Suc i \<Longrightarrow> j mod d \<noteq> p \<Longrightarrow> \<not> bit u j \<and> \<not> bit w j"
    and "\<And>k. k \<le> i \<Longrightarrow> bit a k = bit u (d * k + p) \<and> bit b k = bit w (d * k + p)"
  shows "bit (u - w) (d * i + p) = bit (a - b) i"
  using field_add[of p d i "NOT u" w "NOT a" b] assms
  by (simp add: not_diff bit_not_iff)

subsection \<open>Masks and operations\<close>

definition x3_mask :: u64 where "x3_mask = 0x4924924924924924"
definition y3_mask :: u64 where "y3_mask = 0x2492492492492492"
definition z3_mask :: u64 where "z3_mask = 0x9249249249249249"
definition xy3_mask :: u64 where "xy3_mask = x3_mask OR y3_mask"
definition xz3_mask :: u64 where "xz3_mask = x3_mask OR z3_mask"
definition yz3_mask :: u64 where "yz3_mask = y3_mask OR z3_mask"
definition x2_mask :: u64 where "x2_mask = 0xAAAAAAAAAAAAAAAA"
definition y2_mask :: u64 where "y2_mask = 0x5555555555555555"

text \<open>
  The three expressions that the operators are made of: \<open>key & mask\<close> at 64 bits, the
  sum \<open>(key | others) + w\<close> and the difference \<open>(key & mask) - w\<close> converted to \<open>T\<close>.
\<close>

definition key_and :: "'a::len word \<Rightarrow> u64 \<Rightarrow> u64" where
  "key_and key m = ucast key AND m"

definition key_sum :: "'a::len word \<Rightarrow> u64 \<Rightarrow> u64 \<Rightarrow> 'a word" where
  "key_sum key others w = ucast ((ucast key OR others) + w)"

definition key_diff :: "'a::len word \<Rightarrow> u64 \<Rightarrow> u64 \<Rightarrow> 'a word" where
  "key_diff key m w = ucast (key_and key m - w)"

text \<open>The table at an \<open>int\<close>; an index outside it is undefined behaviour.\<close>

definition lut_at :: "u32 list \<Rightarrow> i32 \<Rightarrow> u32 option" where
  "lut_at lut n = (if 0 \<le> sint n \<and> sint n < 256 then Some (lut ! nat (sint n)) else None)"

subsubsection \<open>\<open>morton2d\<close>\<close>

definition m2_add_assign :: "'a::len word \<Rightarrow> 'a word \<Rightarrow> 'a word" where
  "m2_add_assign key rhs =
     (let x_sum = key_sum key y2_mask (key_and rhs x2_mask);
          y_sum = key_sum key x2_mask (key_and rhs y2_mask)
      in ucast (key_and x_sum x2_mask OR key_and y_sum y2_mask))"

definition m2_sub_assign :: "'a::len word \<Rightarrow> 'a word \<Rightarrow> 'a word" where
  "m2_sub_assign key rhs =
     (let x_diff = key_diff key x2_mask (key_and rhs x2_mask);
          y_diff = key_diff key y2_mask (key_and rhs y2_mask)
      in ucast (key_and x_diff x2_mask OR key_and y_diff y2_mask))"

definition m2_plus :: "'a::len word \<Rightarrow> 'a word \<Rightarrow> 'a word" where
  "m2_plus lhs rhs =
     (let x_sum = key_sum lhs y2_mask (key_and rhs x2_mask);
          y_sum = key_sum lhs x2_mask (key_and rhs y2_mask)
      in ucast (key_and x_sum x2_mask OR key_and y_sum y2_mask))"

definition m2_minus :: "'a::len word \<Rightarrow> 'a word \<Rightarrow> 'a word" where
  "m2_minus lhs rhs =
     (let x_diff = key_diff lhs x2_mask (key_and rhs x2_mask);
          y_diff = key_diff lhs y2_mask (key_and rhs y2_mask)
      in ucast (key_and x_diff x2_mask OR key_and y_diff y2_mask))"

definition m2_incX :: "'a::len word \<Rightarrow> i32 \<Rightarrow> 'a word option" where
  "m2_incX key n = map_option
     (\<lambda>l. let x_sum = key_sum key y2_mask (ucast (push_bit 1 l))
          in ucast (key_and x_sum x2_mask OR key_and key y2_mask)) (lut_at morton2dLUT n)"

definition m2_incY :: "'a::len word \<Rightarrow> i32 \<Rightarrow> 'a word option" where
  "m2_incY key n = map_option
     (\<lambda>l. let y_sum = key_sum key x2_mask (ucast l)
          in ucast (key_and y_sum y2_mask OR key_and key x2_mask)) (lut_at morton2dLUT n)"

definition m2_decX :: "'a::len word \<Rightarrow> i32 \<Rightarrow> 'a word option" where
  "m2_decX key n = map_option
     (\<lambda>l. let x_diff = key_diff key x2_mask (ucast (push_bit 1 l))
          in ucast (key_and x_diff x2_mask OR key_and key y2_mask)) (lut_at morton2dLUT n)"

definition m2_decY :: "'a::len word \<Rightarrow> i32 \<Rightarrow> 'a word option" where
  "m2_decY key n = map_option
     (\<lambda>l. let y_diff = key_diff key y2_mask (ucast l)
          in ucast (key_and y_diff y2_mask OR key_and key x2_mask)) (lut_at morton2dLUT n)"

definition m2_min :: "'a::len word \<Rightarrow> 'a word \<Rightarrow> 'a word" where
  "m2_min lhs rhs =
     (let lhsX = ucast (key_and lhs x2_mask); rhsX = ucast (key_and rhs x2_mask);
          lhsY = ucast (key_and lhs y2_mask); rhsY = ucast (key_and rhs y2_mask)
      in min lhsX rhsX + min lhsY rhsY)"

definition m2_max :: "'a::len word \<Rightarrow> 'a word \<Rightarrow> 'a word" where
  "m2_max lhs rhs =
     (let lhsX = ucast (key_and lhs x2_mask); rhsX = ucast (key_and rhs x2_mask);
          lhsY = ucast (key_and lhs y2_mask); rhsY = ucast (key_and rhs y2_mask)
      in max lhsX rhsX + max lhsY rhsY)"

subsubsection \<open>\<open>morton3d\<close>\<close>

definition m3_add_assign :: "'a::len word \<Rightarrow> 'a word \<Rightarrow> 'a word" where
  "m3_add_assign key m1 =
     (let x_sum = key_sum key yz3_mask (key_and m1 x3_mask);
          y_sum = key_sum key xz3_mask (key_and m1 y3_mask);
          z_sum = key_sum key xy3_mask (key_and m1 z3_mask)
      in ucast (key_and x_sum x3_mask OR key_and y_sum y3_mask OR key_and z_sum z3_mask))"

definition m3_sub_assign :: "'a::len word \<Rightarrow> 'a word \<Rightarrow> 'a word" where
  "m3_sub_assign key m1 =
     (let x_diff = key_diff key x3_mask (key_and m1 x3_mask);
          y_diff = key_diff key y3_mask (key_and m1 y3_mask);
          z_diff = key_diff key z3_mask (key_and m1 z3_mask)
      in ucast (key_and x_diff x3_mask OR key_and y_diff y3_mask OR key_and z_diff z3_mask))"

definition m3_plus :: "'a::len word \<Rightarrow> 'a word \<Rightarrow> 'a word" where
  "m3_plus m1 m2 =
     (let x_sum = key_sum m1 yz3_mask (key_and m2 x3_mask);
          y_sum = key_sum m1 xz3_mask (key_and m2 y3_mask);
          z_sum = key_sum m1 xy3_mask (key_and m2 z3_mask)
      in ucast (key_and x_sum x3_mask OR key_and y_sum y3_mask OR key_and z_sum z3_mask))"

definition m3_minus :: "'a::len word \<Rightarrow> 'a word \<Rightarrow> 'a word" where
  "m3_minus m1 m2 =
     (let x_diff = key_diff m1 x3_mask (key_and m2 x3_mask);
          y_diff = key_diff m1 y3_mask (key_and m2 y3_mask);
          z_diff = key_diff m1 z3_mask (key_and m2 z3_mask)
      in ucast (key_and x_diff x3_mask OR key_and y_diff y3_mask OR key_and z_diff z3_mask))"

definition m3_incX :: "'a::len word \<Rightarrow> i32 \<Rightarrow> 'a word option" where
  "m3_incX key n = map_option
     (\<lambda>l. let x_sum = key_sum key yz3_mask (ucast (push_bit 2 l))
          in ucast (key_and x_sum x3_mask OR key_and key yz3_mask)) (lut_at morton3dLUT n)"

definition m3_incY :: "'a::len word \<Rightarrow> i32 \<Rightarrow> 'a word option" where
  "m3_incY key n = map_option
     (\<lambda>l. let y_sum = key_sum key xz3_mask (ucast (push_bit 1 l))
          in ucast (key_and y_sum y3_mask OR key_and key xz3_mask)) (lut_at morton3dLUT n)"

definition m3_incZ :: "'a::len word \<Rightarrow> i32 \<Rightarrow> 'a word option" where
  "m3_incZ key n = map_option
     (\<lambda>l. let z_sum = key_sum key xy3_mask (ucast l)
          in ucast (key_and z_sum z3_mask OR key_and key xy3_mask)) (lut_at morton3dLUT n)"

definition m3_decX :: "'a::len word \<Rightarrow> i32 \<Rightarrow> 'a word option" where
  "m3_decX key n = map_option
     (\<lambda>l. let x_diff = key_diff key x3_mask (ucast (push_bit 2 l))
          in ucast (key_and x_diff x3_mask OR key_and key yz3_mask)) (lut_at morton3dLUT n)"

definition m3_decY :: "'a::len word \<Rightarrow> i32 \<Rightarrow> 'a word option" where
  "m3_decY key n = map_option
     (\<lambda>l. let y_diff = key_diff key y3_mask (ucast (push_bit 1 l))
          in ucast (key_and y_diff y3_mask OR key_and key xz3_mask)) (lut_at morton3dLUT n)"

definition m3_decZ :: "'a::len word \<Rightarrow> i32 \<Rightarrow> 'a word option" where
  "m3_decZ key n = map_option
     (\<lambda>l. let z_diff = key_diff key z3_mask (ucast l)
          in ucast (key_and z_diff z3_mask OR key_and key xy3_mask)) (lut_at morton3dLUT n)"

definition m3_min :: "'a::len word \<Rightarrow> 'a word \<Rightarrow> 'a word" where
  "m3_min lhs rhs =
     (let lhsX = ucast (key_and lhs x3_mask); rhsX = ucast (key_and rhs x3_mask);
          lhsY = ucast (key_and lhs y3_mask); rhsY = ucast (key_and rhs y3_mask);
          lhsZ = ucast (key_and lhs z3_mask); rhsZ = ucast (key_and rhs z3_mask)
      in min lhsX rhsX + min lhsY rhsY + min lhsZ rhsZ)"

definition m3_max :: "'a::len word \<Rightarrow> 'a word \<Rightarrow> 'a word" where
  "m3_max lhs rhs =
     (let lhsX = ucast (key_and lhs x3_mask); rhsX = ucast (key_and rhs x3_mask);
          lhsY = ucast (key_and lhs y3_mask); rhsY = ucast (key_and rhs y3_mask);
          lhsZ = ucast (key_and lhs z3_mask); rhsZ = ucast (key_and rhs z3_mask)
      in max lhsX rhsX + max lhsY rhsY + max lhsZ rhsZ)"

subsubsection \<open>Shifts by whole groups\<close>

text \<open>
  In two dimensions the shift amount \<open>2 * d\<close> is taken at 64 bits and must be below the
  width of the key; in three dimensions an assertion asks for \<open>d < 22\<close> before.
\<close>

definition m2_shiftr :: "'a::len word \<Rightarrow> u64 \<Rightarrow> 'a word option" where
  "m2_shiftr key d =
     (if unat (2 * d) < LENGTH('a) then Some (drop_bit (unat (2 * d)) key) else None)"

definition m2_shiftl :: "'a::len word \<Rightarrow> u64 \<Rightarrow> 'a word option" where
  "m2_shiftl key d =
     (if unat (2 * d) < LENGTH('a) then Some (push_bit (unat (2 * d)) key) else None)"

definition m3_shiftr :: "'a::len word \<Rightarrow> u64 \<Rightarrow> 'a word option" where
  "m3_shiftr key d =
     (if d < 22 \<and> unat (3 * d) < LENGTH('a) then Some (drop_bit (unat (3 * d)) key) else None)"

definition m3_shiftl :: "'a::len word \<Rightarrow> u64 \<Rightarrow> 'a word option" where
  "m3_shiftl key d =
     (if d < 22 \<and> unat (3 * d) < LENGTH('a) then Some (push_bit (unat (3 * d)) key) else None)"

subsection \<open>The fields of a key\<close>

lemma bit_word_add:
  "bit (x + y :: 'a::len word) n = (n < LENGTH('a) \<and> bit (uint x + uint y) n)"
proof -
  have "x + y = word_of_int (uint x + uint y)" by simp
  then show ?thesis by (simp only: bit_word_of_int_iff)
qed

lemma bit_word_diff:
  "bit (x - y :: 'a::len word) n = (n < LENGTH('a) \<and> bit (uint x - uint y) n)"
proof -
  have "x - y = word_of_int (uint x - uint y)" by simp
  then show ?thesis by (simp only: bit_word_of_int_iff)
qed

text \<open>
  A field of a 64-bit key: its bits are \<open>d\<close> places apart from place \<open>p\<close> on, \<open>own\<close>
  is its mask, \<open>others\<close> the mask of the rest, and \<open>coord\<close> the coordinate it holds.
  What the operators rely on, with the effect of each of their expressions on the
  coordinate.
\<close>

locale key_field =
  fixes d p :: nat and own others :: u64 and coord :: "u64 \<Rightarrow> u64"
  assumes place: "p < d"
    and own_bit: "bit own j = (j < 64 \<and> j mod d = p)"
    and others_bit: "bit others j = (j < 64 \<and> j mod d \<noteq> p)"
    and coord_bit: "bit (coord key) i = (d * Suc i \<le> 64 \<and> bit key (d * i + p))"
begin

definition clean :: "u64 \<Rightarrow> bool" where
  "clean w = (\<forall>j<64. j mod d \<noteq> p \<longrightarrow> \<not> bit w j)"

lemma clean_and: "clean (key_and (w :: u64) own)"
  by (auto simp: clean_def key_and_def bit_and_iff own_bit)

lemma place_lt: "d * Suc i \<le> 64 \<Longrightarrow> k \<le> i \<Longrightarrow> d * k + p < 64"
proof -
  assume "d * Suc i \<le> 64" "k \<le> i"
  then have "d * k \<le> d * i" "d + d * i \<le> 64" by auto
  then show ?thesis using place by linarith
qed

lemma i_lt: "d * Suc i \<le> 64 \<Longrightarrow> i < 64"
  using place mult_le_mono1[of 1 d "Suc i"] by simp

lemma coord_le: "d * Suc i \<le> 64 \<Longrightarrow> k \<le> i \<Longrightarrow> bit (coord key) k = bit key (d * k + p)"
  unfolding coord_bit by (meson Suc_le_mono mult_le_mono2 order_trans)

lemma coord_or: "coord (s OR t) = coord s OR coord t"
  by (rule bit_word_eqI) (auto simp: coord_bit bit_or_iff)

lemma coord_and_superset:
  assumes "\<And>j. j < 64 \<Longrightarrow> j mod d = p \<Longrightarrow> bit m j"
  shows "coord (key_and (w :: u64) m) = coord w"
  using place place_lt[OF _ order.refl] assms
  by (intro bit_word_eqI) (auto simp: coord_bit key_and_def bit_and_iff)

lemma coord_and_disjoint:
  assumes "\<And>j. j mod d = p \<Longrightarrow> \<not> bit m j"
  shows "coord (key_and (w :: u64) m) = 0"
  using place assms by (intro bit_word_eqI) (auto simp: coord_bit key_and_def bit_and_iff)

lemma coord_lt: "d * Suc i \<le> 64 = (i < 64 div d)"
  using place by (simp add: less_eq_div_iff_mult_less_eq Suc_le_eq[symmetric] mult.commute
      del: mult_Suc_right)

lemma coord_sum:
  assumes w: "clean w"
  shows "coord (key_sum key others w) = take_bit (64 div d) (coord key + coord w)"
proof (rule bit_word_eqI)
  fix i
  have "bit (key_sum key others w) (d * i + p) = bit (coord key + coord w) i"
    if i: "d * Suc i \<le> 64"
  proof -
    have n: "d * i + p < 64" "i < 64" using place_lt[OF i order.refl] i_lt[OF i] by auto
    have "bit (uint (key OR others) + uint w) (d * i + p) = bit (uint (coord key) + uint (coord w)) i"
    proof (rule field_add[OF place])
      fix j assume "j < d * Suc i" "j mod d \<noteq> p"
      then show "bit (uint (key OR others)) j \<and> \<not> bit (uint w) j"
        using i w by (auto simp: bit_uint_iff bit_or_iff others_bit clean_def)
    next
      fix k assume k: "k \<le> i"
      then show "bit (uint (coord key)) k = bit (uint (key OR others)) (d * k + p)
          \<and> bit (uint (coord w)) k = bit (uint w) (d * k + p)"
        using place place_lt[OF i k] n coord_le[OF i k]
        by (auto simp: bit_uint_iff bit_or_iff others_bit)
    qed
    then show ?thesis using n by (simp add: key_sum_def bit_word_add)
  qed
  then show "bit (coord (key_sum key others w)) i
      = bit (take_bit (64 div d) (coord key + coord w)) i"
    by (auto simp: coord_bit bit_take_bit_iff coord_lt[symmetric] simp del: mult_Suc_right)
qed

lemma coord_diff:
  assumes w: "clean w"
  shows "coord (key_diff key own w) = take_bit (64 div d) (coord key - coord w)"
proof (rule bit_word_eqI)
  fix i
  have "bit (key_diff key own w) (d * i + p) = bit (coord key - coord w) i"
    if i: "d * Suc i \<le> 64"
  proof -
    have n: "d * i + p < 64" "i < 64" using place_lt[OF i order.refl] i_lt[OF i] by auto
    have "bit (uint (key_and key own) - uint w) (d * i + p) = bit (uint (coord key) - uint (coord w)) i"
    proof (rule field_diff[OF place])
      fix j assume "j < d * Suc i" "j mod d \<noteq> p"
      then show "\<not> bit (uint (key_and key own)) j \<and> \<not> bit (uint w) j"
        using i w by (auto simp: bit_uint_iff key_and_def bit_and_iff own_bit clean_def)
    next
      fix k assume k: "k \<le> i"
      then show "bit (uint (coord key)) k = bit (uint (key_and key own)) (d * k + p)
          \<and> bit (uint (coord w)) k = bit (uint w) (d * k + p)"
        using place place_lt[OF i k] n coord_le[OF i k]
        by (auto simp: bit_uint_iff key_and_def bit_and_iff own_bit)
    qed
    then show ?thesis using n by (simp add: key_diff_def bit_word_diff)
  qed
  then show "bit (coord (key_diff key own w)) i
      = bit (take_bit (64 div d) (coord key - coord w)) i"
    by (auto simp: coord_bit bit_take_bit_iff coord_lt[symmetric] simp del: mult_Suc_right)
qed

text \<open>A table entry as the number to be added.\<close>

lemma lut_field:
  fixes l :: u32 and n :: i32
  assumes l: "\<And>j. bit l j = (d dvd j \<and> bit n (j div d))" and d: "d \<le> 3"
    and high: "\<And>k. 8 \<le> k \<Longrightarrow> \<not> bit n k"
  shows "clean (ucast (push_bit p l))" "coord (ucast (push_bit p l)) = ucast n"
proof -
  have lt: "bit n k \<Longrightarrow> k < 8" for k using high[of k] by (cases "k < 8") auto
  have m: "p \<le> j \<Longrightarrow> d dvd j - p \<Longrightarrow> j mod d = p" for j
    using place by (metis add_diff_inverse_nat dvdE leD mod_less mod_mult_self2)
  have b: "bit (ucast (push_bit p l) :: u64) j = (p \<le> j \<and> j < 32 \<and> d dvd j - p \<and> bit n ((j - p) div d))" for j
    unfolding bit_ucast_iff bit_push_bit_iff l possible_bit_word by auto
  show "clean (ucast (push_bit p l))" unfolding clean_def b using m by auto
  show "coord (ucast (push_bit p l)) = ucast n"
  proof (rule bit_word_eqI)
    fix i
    have "d * i + p < 32 \<and> d * Suc i \<le> 64" if "i < 8"
    proof -
      have "d * i \<le> 3 * 7" using d that by (intro mult_le_mono) auto
      then show ?thesis using place d by auto
    qed
    then show "bit (coord (ucast (push_bit p l))) i = bit (ucast n :: u64) i"
      unfolding coord_bit b using place lt[of i]
      by (auto simp: bit_ucast_iff dest: bit_imp_le_length)
  qed
qed

end

lemma mask_bits:
  "bit x2_mask j = (j < 64 \<and> j mod 2 = 1)" "bit y2_mask j = (j < 64 \<and> j mod 2 = 0)"
  "bit x3_mask j = (j < 64 \<and> j mod 3 = 2)" "bit y3_mask j = (j < 64 \<and> j mod 3 = 1)"
  "bit z3_mask j = (j < 64 \<and> j mod 3 = 0)"
proof -
  have "bit x2_mask j = (j < 64 \<and> j mod 2 = 1) \<and> bit y2_mask j = (j < 64 \<and> j mod 2 = 0)
    \<and> bit x3_mask j = (j < 64 \<and> j mod 3 = 2) \<and> bit y3_mask j = (j < 64 \<and> j mod 3 = 1)
    \<and> bit z3_mask j = (j < 64 \<and> j mod 3 = 0)"
  proof (cases "j < 64")
    case True
    have "list_all (\<lambda>j. bit x2_mask j = (j mod 2 = 1) \<and> bit y2_mask j = (j mod 2 = 0)
      \<and> bit x3_mask j = (j mod 3 = 2) \<and> bit y3_mask j = (j mod 3 = 1)
      \<and> bit z3_mask j = (j mod 3 = 0)) [0..<64]"
      unfolding below_64 list.pred_inject x2_mask_def y2_mask_def x3_mask_def y3_mask_def z3_mask_def
      by simp
    then show ?thesis using True by (simp add: list_all_iff)
  qed (auto dest: bit_imp_le_length)
  then show "bit x2_mask j = (j < 64 \<and> j mod 2 = 1)" "bit y2_mask j = (j < 64 \<and> j mod 2 = 0)"
    "bit x3_mask j = (j < 64 \<and> j mod 3 = 2)" "bit y3_mask j = (j < 64 \<and> j mod 3 = 1)"
    "bit z3_mask j = (j < 64 \<and> j mod 3 = 0)" by simp_all
qed

lemma mod_3_cases: "(n :: nat) mod 3 = 0 \<or> n mod 3 = 1 \<or> n mod 3 = 2"
  by presburger

interpretation x2: key_field 2 1 x2_mask y2_mask "\<lambda>key. fst (morton2d_decode key)"
  by unfold_locales (auto simp: mask_bits bit_morton2d_decode)

interpretation y2: key_field 2 0 y2_mask x2_mask "\<lambda>key. snd (morton2d_decode key)"
  by unfold_locales (auto simp: mask_bits bit_morton2d_decode)

interpretation x3: key_field 3 2 x3_mask yz3_mask "\<lambda>key. fst (morton3d_decode key)"
  by unfold_locales
     (use mod_3_cases in \<open>auto simp: mask_bits yz3_mask_def bit_or_iff bit_morton3d_decode\<close>)

interpretation y3: key_field 3 1 y3_mask xz3_mask "\<lambda>key. fst (snd (morton3d_decode key))"
  by unfold_locales
     (use mod_3_cases in \<open>auto simp: mask_bits xz3_mask_def bit_or_iff bit_morton3d_decode\<close>)

interpretation z3: key_field 3 0 z3_mask xy3_mask "\<lambda>key. snd (snd (morton3d_decode key))"
  by unfold_locales
     (use mod_3_cases in \<open>auto simp: mask_bits xy3_mask_def bit_or_iff bit_morton3d_decode\<close>)

lemma lut_bits:
  fixes n :: i32
  assumes "0 \<le> sint n" "sint n < 256" "0 < d" "d * 8 < 32"
  shows "bit (spread_list d 8 ! nat (sint n)) j = (d dvd j \<and> bit n (j div d))"
    "8 \<le> k \<Longrightarrow> \<not> bit n k"
proof -
  have lt: "nat (sint n) < 2 ^ 8" using assms(1,2) by simp
  have n: "bit (nat (sint n)) k = bit n k" for k
  proof -
    have "nat (sint n) = unat n"
      using uint_eq_sint32[OF assms(1)] by (simp only: unat_eq_nat_uint)
    then show ?thesis by (auto simp only: bit_unsigned_iff possible_bit_nat dest: bit_imp_le_length)
  qed
  have high: "\<not> bit n k" if "8 \<le> k" for k
  proof -
    have "nat (sint n) < 2 ^ k"
      using lt that by (meson less_le_trans one_le_numeral power_increasing)
    then show ?thesis unfolding n[symmetric] by (simp add: bit_iff_odd)
  qed
  then show "8 \<le> k \<Longrightarrow> \<not> bit n k" .
  show "bit (spread_list d 8 ! nat (sint n)) j = (d dvd j \<and> bit n (j div d))"
    using bit_spread_list[OF assms(3) lt assms(4)] n high by (metis not_le)
qed

lemma lut_at_some:
  fixes n :: i32
  assumes "0 \<le> sint n" "sint n < 256"
  obtains l2 l3 where "lut_at morton2dLUT n = Some l2" "lut_at morton3dLUT n = Some l3"
    "\<And>j. bit l2 j = (even j \<and> bit n (j div 2))" "\<And>j. bit l3 j = (3 dvd j \<and> bit n (j div 3))"
    "\<And>k. 8 \<le> k \<Longrightarrow> \<not> bit n k"
  using assms lut_bits[OF assms, of 2] lut_bits[OF assms, of 3]
  by (auto simp: lut_at_def morton2dLUT_spread morton3dLUT_spread)

subsection \<open>What the operations do to the coordinates\<close>

definition trim :: "nat \<Rightarrow> u64 \<times> u64 \<Rightarrow> u64 \<times> u64" where
  "trim n = map_prod (take_bit n) (take_bit n)"

definition trim3 :: "nat \<Rightarrow> u64 \<times> u64 \<times> u64 \<Rightarrow> u64 \<times> u64 \<times> u64" where
  "trim3 n = map_prod (take_bit n) (trim n)"

lemma masks_apart:
  "j mod 2 = 1 \<Longrightarrow> \<not> bit y2_mask j" "j mod 2 = 0 \<Longrightarrow> \<not> bit x2_mask j"
  "j mod 3 = 2 \<Longrightarrow> \<not> bit y3_mask j" "j mod 3 = 2 \<Longrightarrow> \<not> bit z3_mask j" "j mod 3 = 2 \<Longrightarrow> \<not> bit yz3_mask j"
  "j mod 3 = 1 \<Longrightarrow> \<not> bit x3_mask j" "j mod 3 = 1 \<Longrightarrow> \<not> bit z3_mask j" "j mod 3 = 1 \<Longrightarrow> \<not> bit xz3_mask j"
  "j mod 3 = 0 \<Longrightarrow> \<not> bit x3_mask j" "j mod 3 = 0 \<Longrightarrow> \<not> bit y3_mask j" "j mod 3 = 0 \<Longrightarrow> \<not> bit xy3_mask j"
  by (auto simp: mask_bits xy3_mask_def xz3_mask_def yz3_mask_def bit_or_iff)

lemma masks_cover:
  "j < 64 \<Longrightarrow> j mod 2 = 1 \<Longrightarrow> bit x2_mask j" "j < 64 \<Longrightarrow> j mod 2 = 0 \<Longrightarrow> bit y2_mask j"
  "j < 64 \<Longrightarrow> j mod 3 = 2 \<Longrightarrow> bit x3_mask j" "j < 64 \<Longrightarrow> j mod 3 = 2 \<Longrightarrow> bit xy3_mask j" "j < 64 \<Longrightarrow> j mod 3 = 2 \<Longrightarrow> bit xz3_mask j"
  "j < 64 \<Longrightarrow> j mod 3 = 1 \<Longrightarrow> bit y3_mask j" "j < 64 \<Longrightarrow> j mod 3 = 1 \<Longrightarrow> bit xy3_mask j" "j < 64 \<Longrightarrow> j mod 3 = 1 \<Longrightarrow> bit yz3_mask j"
  "j < 64 \<Longrightarrow> j mod 3 = 0 \<Longrightarrow> bit z3_mask j" "j < 64 \<Longrightarrow> j mod 3 = 0 \<Longrightarrow> bit xz3_mask j" "j < 64 \<Longrightarrow> j mod 3 = 0 \<Longrightarrow> bit yz3_mask j"
  by (auto simp: mask_bits xy3_mask_def xz3_mask_def yz3_mask_def bit_or_iff)

text \<open>What a mask leaves of a coordinate, and the coordinates of sums and differences.\<close>

lemmas coord2_simps =
  x2.coord_or y2.coord_or
  x2.coord_and_superset[OF masks_cover(1)] y2.coord_and_superset[OF masks_cover(2)]
  x2.coord_and_disjoint[OF masks_apart(1)] y2.coord_and_disjoint[OF masks_apart(2)]
  x2.coord_sum[OF x2.clean_and] y2.coord_sum[OF y2.clean_and]
  x2.coord_diff[OF x2.clean_and] y2.coord_diff[OF y2.clean_and]

lemmas coord3_simps =
  x3.coord_or y3.coord_or z3.coord_or
  masks_cover(3-5)[THEN x3.coord_and_superset] masks_cover(6-8)[THEN y3.coord_and_superset]
  masks_cover(9-11)[THEN z3.coord_and_superset]
  masks_apart(3-5)[THEN x3.coord_and_disjoint] masks_apart(6-8)[THEN y3.coord_and_disjoint]
  masks_apart(9-11)[THEN z3.coord_and_disjoint]
  x3.coord_sum[OF x3.clean_and] y3.coord_sum[OF y3.clean_and] z3.coord_sum[OF z3.clean_and]
  x3.coord_diff[OF x3.clean_and] y3.coord_diff[OF y3.clean_and] z3.coord_diff[OF z3.clean_and]

text \<open>The increments and decrements read a table entry for their argument.\<close>

lemma lut2_cases:
  assumes "0 \<le> sint n" "sint n < 256"
  obtains l where "lut_at morton2dLUT n = Some l"
    "x2.clean (ucast (push_bit 1 l))" "fst (morton2d_decode (ucast (push_bit 1 l) :: u64)) = ucast n"
    "y2.clean (ucast l)" "snd (morton2d_decode (ucast l :: u64)) = ucast n"
proof -
  obtain l where l: "lut_at morton2dLUT n = Some l" "\<And>j. bit l j = (even j \<and> bit n (j div 2))"
    and high: "\<And>k. 8 \<le> k \<Longrightarrow> \<not> bit n k"
    using lut_at_some[OF assms] by metis
  show ?thesis
    using that[OF l(1)] x2.lut_field[OF l(2) _ high] y2.lut_field[OF l(2) _ high] by simp
qed

lemma lut3_cases:
  assumes "0 \<le> sint n" "sint n < 256"
  obtains l where "lut_at morton3dLUT n = Some l"
    "x3.clean (ucast (push_bit 2 l))" "fst (morton3d_decode (ucast (push_bit 2 l) :: u64)) = ucast n"
    "y3.clean (ucast (push_bit 1 l))"
    "fst (snd (morton3d_decode (ucast (push_bit 1 l) :: u64))) = ucast n"
    "z3.clean (ucast l)" "snd (snd (morton3d_decode (ucast l :: u64))) = ucast n"
proof -
  obtain l where l: "lut_at morton3dLUT n = Some l" "\<And>j. bit l j = (3 dvd j \<and> bit n (j div 3))"
    and high: "\<And>k. 8 \<le> k \<Longrightarrow> \<not> bit n k"
    using lut_at_some[OF assms] by metis
  show ?thesis
    using that[OF l(1)] x3.lut_field[OF l(2) _ high] y3.lut_field[OF l(2) _ high]
      z3.lut_field[OF l(2) _ high] by simp
qed

lemmas coord_inc = x2.coord_sum y2.coord_sum x3.coord_sum y3.coord_sum z3.coord_sum
  x2.coord_diff y2.coord_diff x3.coord_diff y3.coord_diff z3.coord_diff

lemma decode2_plus:
  fixes k1 k2 :: u64
  shows "morton2d_decode (m2_plus k1 k2) = trim 32 (fst (morton2d_decode k1) + fst (morton2d_decode k2),
    snd (morton2d_decode k1) + snd (morton2d_decode k2))"
  by (simp add: prod_eq_iff m2_plus_def Let_def trim_def coord2_simps)

lemma decode2_minus:
  fixes k1 k2 :: u64
  shows "morton2d_decode (m2_minus k1 k2) = trim 32 (fst (morton2d_decode k1) - fst (morton2d_decode k2),
    snd (morton2d_decode k1) - snd (morton2d_decode k2))"
  by (simp add: prod_eq_iff m2_minus_def Let_def trim_def coord2_simps)

lemma decode3_plus:
  fixes k1 k2 :: u64
  shows "morton3d_decode (m3_plus k1 k2) = trim3 21 (fst (morton3d_decode k1) + fst (morton3d_decode k2),
    fst (snd (morton3d_decode k1)) + fst (snd (morton3d_decode k2)),
    snd (snd (morton3d_decode k1)) + snd (snd (morton3d_decode k2)))"
  by (simp add: prod_eq_iff m3_plus_def Let_def trim_def trim3_def coord3_simps)

lemma decode3_minus:
  fixes k1 k2 :: u64
  shows "morton3d_decode (m3_minus k1 k2) = trim3 21 (fst (morton3d_decode k1) - fst (morton3d_decode k2),
    fst (snd (morton3d_decode k1)) - fst (snd (morton3d_decode k2)),
    snd (snd (morton3d_decode k1)) - snd (snd (morton3d_decode k2)))"
  by (simp add: prod_eq_iff m3_minus_def Let_def trim_def trim3_def coord3_simps)

lemma assign_ops:
  "m2_add_assign = m2_plus" "m2_sub_assign = m2_minus" "m3_add_assign = m3_plus" "m3_sub_assign = m3_minus"
  by (intro ext; simp add: m2_add_assign_def m2_plus_def m2_sub_assign_def m2_minus_def
    m3_add_assign_def m3_plus_def m3_sub_assign_def m3_minus_def)+

lemma decode2_incX:
  fixes key :: u64
  assumes "0 \<le> sint n" "sint n < 256"
  shows "map_option morton2d_decode (m2_incX key n)
    = Some (take_bit 32 (fst (morton2d_decode key) + ucast n),
            snd (morton2d_decode key))"
  by (rule lut2_cases[OF assms])
     (simp add: m2_incX_def Let_def prod_eq_iff coord2_simps coord_inc)

lemma decode2_incY:
  fixes key :: u64
  assumes "0 \<le> sint n" "sint n < 256"
  shows "map_option morton2d_decode (m2_incY key n)
    = Some (fst (morton2d_decode key),
            take_bit 32 (snd (morton2d_decode key) + ucast n))"
  by (rule lut2_cases[OF assms])
     (simp add: m2_incY_def Let_def prod_eq_iff coord2_simps coord_inc)

lemma decode3_incX:
  fixes key :: u64
  assumes "0 \<le> sint n" "sint n < 256"
  shows "map_option morton3d_decode (m3_incX key n)
    = Some (take_bit 21 (fst (morton3d_decode key) + ucast n),
            fst (snd (morton3d_decode key)),
            snd (snd (morton3d_decode key)))"
  by (rule lut3_cases[OF assms])
     (simp add: m3_incX_def Let_def prod_eq_iff coord3_simps coord_inc)

lemma decode3_incY:
  fixes key :: u64
  assumes "0 \<le> sint n" "sint n < 256"
  shows "map_option morton3d_decode (m3_incY key n)
    = Some (fst (morton3d_decode key),
            take_bit 21 (fst (snd (morton3d_decode key)) + ucast n),
            snd (snd (morton3d_decode key)))"
  by (rule lut3_cases[OF assms])
     (simp add: m3_incY_def Let_def prod_eq_iff coord3_simps coord_inc)

lemma decode3_incZ:
  fixes key :: u64
  assumes "0 \<le> sint n" "sint n < 256"
  shows "map_option morton3d_decode (m3_incZ key n)
    = Some (fst (morton3d_decode key),
            fst (snd (morton3d_decode key)),
            take_bit 21 (snd (snd (morton3d_decode key)) + ucast n))"
  by (rule lut3_cases[OF assms])
     (simp add: m3_incZ_def Let_def prod_eq_iff coord3_simps coord_inc)

lemma decode2_decX:
  fixes key :: u64
  assumes "0 \<le> sint n" "sint n < 256"
  shows "map_option morton2d_decode (m2_decX key n)
    = Some (take_bit 32 (fst (morton2d_decode key) - ucast n),
            snd (morton2d_decode key))"
  by (rule lut2_cases[OF assms])
     (simp add: m2_decX_def Let_def prod_eq_iff coord2_simps coord_inc)

lemma decode2_decY:
  fixes key :: u64
  assumes "0 \<le> sint n" "sint n < 256"
  shows "map_option morton2d_decode (m2_decY key n)
    = Some (fst (morton2d_decode key),
            take_bit 32 (snd (morton2d_decode key) - ucast n))"
  by (rule lut2_cases[OF assms])
     (simp add: m2_decY_def Let_def prod_eq_iff coord2_simps coord_inc)

lemma decode3_decX:
  fixes key :: u64
  assumes "0 \<le> sint n" "sint n < 256"
  shows "map_option morton3d_decode (m3_decX key n)
    = Some (take_bit 21 (fst (morton3d_decode key) - ucast n),
            fst (snd (morton3d_decode key)),
            snd (snd (morton3d_decode key)))"
  by (rule lut3_cases[OF assms])
     (simp add: m3_decX_def Let_def prod_eq_iff coord3_simps coord_inc)

lemma decode3_decY:
  fixes key :: u64
  assumes "0 \<le> sint n" "sint n < 256"
  shows "map_option morton3d_decode (m3_decY key n)
    = Some (fst (morton3d_decode key),
            take_bit 21 (fst (snd (morton3d_decode key)) - ucast n),
            snd (snd (morton3d_decode key)))"
  by (rule lut3_cases[OF assms])
     (simp add: m3_decY_def Let_def prod_eq_iff coord3_simps coord_inc)

lemma decode3_decZ:
  fixes key :: u64
  assumes "0 \<le> sint n" "sint n < 256"
  shows "map_option morton3d_decode (m3_decZ key n)
    = Some (fst (morton3d_decode key),
            fst (snd (morton3d_decode key)),
            take_bit 21 (snd (snd (morton3d_decode key)) - ucast n))"
  by (rule lut3_cases[OF assms])
     (simp add: m3_decZ_def Let_def prod_eq_iff coord3_simps coord_inc)

end
