(* ===== verification/ZOrder.thy ===== *)
theory ZOrder
  imports MortonArith
begin

text \<open>
  The z-order indices \<open>idx_zorder_t<2>\<close> and \<open>idx_zorder_t<3>\<close> of
  \<open>src/utils/index.hpp\<close>.  The extent is not used: the index of a position is the 32-bit
  Morton key of its components, the arithmetic on an index is that of 64-bit keys.  On
  extents whose sides are powers of two that agree, or differ by one factor of two in
  the right direction, the scheme meets the contract \<open>index_scheme\<close>; on the other
  extents that the arrays accept it leaves the array.
\<close>

subsection \<open>The class\<close>

definition zorder2_to_linear :: "index_t \<Rightarrow> u64" where
  "zorder2_to_linear pos = ucast (morton2d_new (pos ! 0) (pos ! 1) :: u32)"

definition zorder3_to_linear :: "index_t \<Rightarrow> u64" where
  "zorder3_to_linear pos = ucast (morton3d_new (pos ! 0) (pos ! 1) (pos ! 2) :: u32)"

definition zorder2_pos :: "u64 \<Rightarrow> index_t" where
  "zorder2_pos lin = (case morton2d_decode lin of (x, y) \<Rightarrow> [ucast x, ucast y])"

definition zorder3_pos :: "u64 \<Rightarrow> index_t" where
  "zorder3_pos lin = (case morton3d_decode lin of (x, y, z) \<Rightarrow> [ucast x, ucast y, ucast z])"

text \<open>\<open>inc<Dir>\<close> and \<open>dec<Dir>\<close>, specialised to the members \<open>inc_x\<close> to \<open>dec_z\<close>.\<close>

definition zorder2_inc :: "nat \<Rightarrow> i64 \<Rightarrow> i32 \<Rightarrow> i64 option" where
  "zorder2_inc dir lin n = (if dir = 0 then m2_incX lin n else m2_incY lin n)"

definition zorder2_dec :: "nat \<Rightarrow> i64 \<Rightarrow> i32 \<Rightarrow> i64 option" where
  "zorder2_dec dir lin n = (if dir = 0 then m2_decX lin n else m2_decY lin n)"

definition zorder3_inc :: "nat \<Rightarrow> i64 \<Rightarrow> i32 \<Rightarrow> i64 option" where
  "zorder3_inc dir lin n =
     (if dir = 0 then m3_incX lin n else if dir = 1 then m3_incY lin n else m3_incZ lin n)"

definition zorder3_dec :: "nat \<Rightarrow> i64 \<Rightarrow> i32 \<Rightarrow> i64 option" where
  "zorder3_dec dir lin n =
     (if dir = 0 then m3_decX lin n else if dir = 1 then m3_decY lin n else m3_decZ lin n)"

text \<open>Construction from a position and \<open>get_pos\<close>, by the rank of the extent.\<close>

definition zorder_to_linear :: "extent_t \<Rightarrow> index_t \<Rightarrow> i64" where
  "zorder_to_linear ext pos =
     (if length ext = 2 then zorder2_to_linear pos else zorder3_to_linear pos)"

definition zorder_get_pos :: "extent_t \<Rightarrow> i64 \<Rightarrow> index_t" where
  "zorder_get_pos ext lin = (if length ext = 2 then zorder2_pos lin else zorder3_pos lin)"

text \<open>The free functions of the kernels call the members.\<close>

definition zorder_inc :: "nat \<Rightarrow> extent_t \<Rightarrow> i64 \<Rightarrow> i32 \<Rightarrow> i64 option" where
  "zorder_inc dir ext lin n =
     (if length ext = 2 then zorder2_inc dir lin n else zorder3_inc dir lin n)"

definition zorder_dec :: "nat \<Rightarrow> extent_t \<Rightarrow> i64 \<Rightarrow> i32 \<Rightarrow> i64 option" where
  "zorder_dec dir ext lin n =
     (if length ext = 2 then zorder2_dec dir lin n else zorder3_dec dir lin n)"

subsection \<open>The contract of an index scheme\<close>

definition zorder_good :: "extent_t \<Rightarrow> bool" where
  "zorder_good ext =
     ((\<exists>a\<le>16. \<exists>b\<le>16. (b = a \<or> b = Suc a) \<and> map uint ext = [2 ^ a, 2 ^ b])
      \<or> (\<exists>a\<le>10. \<exists>b\<le>11. \<exists>c\<le>11. a \<le> b \<and> b \<le> c \<and> c \<le> Suc a
           \<and> map uint ext = [2 ^ a, 2 ^ b, 2 ^ c]))"

lemma uint_less_exp: "uint (w :: 'a::len word) < 2 ^ n \<longleftrightarrow> (\<forall>j\<ge>n. \<not> bit w j)"
proof
  assume "uint w < 2 ^ n"
  then have "take_bit n (uint w) = uint w" by (simp add: take_bit_int_eq_self)
  then have "bit (uint w) j \<Longrightarrow> j < n" for j by (metis bit_take_bit_iff)
  then show "\<forall>j\<ge>n. \<not> bit w j" by (metis bit_imp_le_length bit_uint_iff not_le)
next
  assume "\<forall>j\<ge>n. \<not> bit w j"
  then have "take_bit n (uint w) = uint w"
    by (intro bit_eqI) (auto simp: bit_take_bit_iff bit_uint_iff not_le)
  then show "uint w < 2 ^ n" by (metis take_bit_int_less_exp)
qed

text \<open>A component of a position, below a power of two.\<close>

lemma component_bits:
  fixes p e :: "32 word"
  assumes "uint e = 2 ^ a" "a < 32"
  shows "(0 \<le> sint p \<and> sint p < uint e) = (\<forall>j\<ge>a. \<not> bit p j)"
proof
  assume "0 \<le> sint p \<and> sint p < uint e"
  then have "uint p < 2 ^ a" using uint_eq_sint32[of p] assms(1) by simp
  then show "\<forall>j\<ge>a. \<not> bit p j" by (simp add: uint_less_exp)
next
  assume p: "\<forall>j\<ge>a. \<not> bit p j"
  have "uint p < 2 ^ 31" using p assms(2) by (subst uint_less_exp) auto
  then have "sint p = uint p" by (rule sint_eq_uint32)
  moreover have "uint p < 2 ^ a" using p by (subst uint_less_exp)
  ultimately show "0 \<le> sint p \<and> sint p < uint e" using assms(1) by simp
qed

lemma in_extent_Nil: "in_extent [] p = (p = [])"
  by (cases p) simp_all

lemma in_extent_Cons:
  "in_extent (e # es) p
     = (\<exists>x ps. p = x # ps \<and> (0 \<le> sint x \<and> sint x < uint e) \<and> in_extent es ps)"
  by (cases p) simp_all

lemma in_extent_two:
  assumes "uint e = 2 ^ a" "uint f = 2 ^ b" "a < 32" "b < 32"
  shows "in_extent [e, f] p
    = (\<exists>x y. p = [x, y] \<and> (\<forall>j\<ge>a. \<not> bit x j) \<and> (\<forall>j\<ge>b. \<not> bit y j))"
  unfolding in_extent_Cons in_extent_Nil component_bits[OF assms(1,3)] component_bits[OF assms(2,4)]
  by blast

lemma in_extent_three:
  assumes "uint e = 2 ^ a" "uint f = 2 ^ b" "uint g = 2 ^ c" "a < 32" "b < 32" "c < 32"
  shows "in_extent [e, f, g] p = (\<exists>x y z. p = [x, y, z] \<and> (\<forall>j\<ge>a. \<not> bit x j)
    \<and> (\<forall>j\<ge>b. \<not> bit y j) \<and> (\<forall>j\<ge>c. \<not> bit z j))"
  unfolding in_extent_Cons in_extent_Nil component_bits[OF assms(1,4)]
    component_bits[OF assms(2,5)] component_bits[OF assms(3,6)]
  by blast

lemma zorder_good_cases:
  assumes "zorder_good ext"
  obtains (two) e f a b where "ext = [e, f]" "uint e = 2 ^ a" "uint f = 2 ^ b" "a \<le> 16" "b \<le> 16"
      "a \<le> b" "b \<le> Suc a"
  | (three) e f g a b c where "ext = [e, f, g]" "uint e = 2 ^ a" "uint f = 2 ^ b" "uint g = 2 ^ c"
      "a \<le> 10" "b \<le> 11" "c \<le> 11" "a \<le> b" "b \<le> c" "c \<le> Suc a"
  using assms unfolding zorder_good_def map_eq_Cons_conv by fastforce

text \<open>The bits of an index and of its position.\<close>

lemma bit_zorder2: "bit (zorder2_to_linear [x, y]) j = (j < 32 \<and> bit (coord2 x y j) (j div 2))"
  by (auto simp: zorder2_to_linear_def bit_ucast_iff bit_morton2d_new)

lemma bit_zorder3: "bit (zorder3_to_linear [x, y, z]) j = (j < 32 \<and> bit (coord3 x y z j) (j div 3))"
  by (auto simp: zorder3_to_linear_def bit_ucast_iff bit_morton3d_new)

lemma word_eq_bits: "(v :: 'a::len word) = w \<longleftrightarrow> (\<forall>i. bit w i = bit v i)"
  by (auto intro: bit_eqI)

lemma zorder2_pos_bits:
  "zorder2_pos lin = [x, y] \<longleftrightarrow>
     (\<forall>i. bit x i = (i < 32 \<and> bit lin (2 * i + 1))) \<and> (\<forall>i. bit y i = (i < 32 \<and> bit lin (2 * i)))"
  by (simp add: zorder2_pos_def split_beta word_eq_bits bit_ucast_iff bit_morton2d_decode)

lemma below_21: "(i < 32 \<and> i < 21 \<and> P) = (i < (21 :: nat) \<and> P)"
  by auto

lemma zorder3_pos_bits:
  "zorder3_pos lin = [x, y, z] \<longleftrightarrow>
     (\<forall>i. bit x i = (i < 21 \<and> bit lin (3 * i + 2))) \<and> (\<forall>i. bit y i = (i < 21 \<and> bit lin (3 * i + 1)))
     \<and> (\<forall>i. bit z i = (i < 21 \<and> bit lin (3 * i)))"
  by (simp add: zorder3_pos_def split_beta word_eq_bits bit_ucast_iff bit_morton3d_decode below_21)

text \<open>Positions below the width of the key come back, indices inside the array too.\<close>

lemma zorder2_pos_lin:
  assumes "\<forall>j\<ge>16. \<not> bit x j" "\<forall>j\<ge>16. \<not> bit y j"
  shows "zorder2_pos (zorder2_to_linear [x, y]) = [x, y]"
proof -
  have "bit x i \<Longrightarrow> i < 16" "bit y i \<Longrightarrow> i < 16" for i using assms not_le by blast+
  then show ?thesis unfolding zorder2_pos_bits bit_zorder2 by (fastforce simp: coord2_def)
qed

lemma zorder3_pos_lin:
  assumes "\<forall>j\<ge>10. \<not> bit x j" "\<forall>j\<ge>11. \<not> bit y j" "\<forall>j\<ge>11. \<not> bit z j"
  shows "zorder3_pos (zorder3_to_linear [x, y, z]) = [x, y, z]"
proof -
  have "bit x i \<Longrightarrow> i < 10" "bit y i \<Longrightarrow> i < 11" "bit z i \<Longrightarrow> i < 11" for i
    using assms not_le by blast+
  then show ?thesis unfolding zorder3_pos_bits bit_zorder3 by (fastforce simp: coord3_def)
qed

lemma zorder2_lin_pos:
  assumes "zorder2_pos lin = [x, y]" "\<forall>j\<ge>32. \<not> bit lin j"
  shows "zorder2_to_linear [x, y] = lin"
proof (rule bit_word_eqI)
  fix j
  have "bit (coord2 x y j) (j div 2) = (j div 2 < 32 \<and> bit lin j)"
    using assms(1) unfolding zorder2_pos_bits by (cases "odd j") (auto simp: coord2_def elim: oddE)
  then show "bit (zorder2_to_linear [x, y]) j = bit lin j"
    unfolding bit_zorder2 using assms(2) not_le by auto
qed

lemma mod_3_split:
  "j = 3 * (j div 3) \<and> j mod 3 = 0 \<or> j = 3 * (j div 3) + 1 \<and> j mod 3 = 1
     \<or> j = 3 * (j div 3) + 2 \<and> j mod 3 = (2 :: nat)"
  using mult_div_mod_eq[of 3 j] mod_3_cases[of j] by linarith

lemma zorder3_lin_pos:
  assumes "zorder3_pos lin = [x, y, z]" "\<forall>j\<ge>32. \<not> bit lin j"
  shows "zorder3_to_linear [x, y, z] = lin"
proof (rule bit_word_eqI)
  fix j :: nat
  define q where "q = j div 3"
  have "j = 3 * q \<and> j mod 3 = 0 \<or> j = 3 * q + 1 \<and> j mod 3 = 1 \<or> j = 3 * q + 2 \<and> j mod 3 = 2"
    unfolding q_def by (rule mod_3_split)
  moreover have b: "bit x q = (q < 21 \<and> bit lin (3 * q + 2))"
    "bit y q = (q < 21 \<and> bit lin (3 * q + 1))" "bit z q = (q < 21 \<and> bit lin (3 * q))"
    using assms(1) unfolding zorder3_pos_bits by blast+
  ultimately have e: "bit (coord3 x y z j) q = (q < 21 \<and> bit lin j)"
    by (elim disjE conjE) (simp_all add: coord3_def b)
  show "bit (zorder3_to_linear [x, y, z]) j = bit lin j"
  proof (cases "j < 32")
    case True
    then have "q < 21" by (simp add: q_def)
    then show ?thesis using True e by (simp add: bit_zorder3 q_def)
  qed (use assms(2) in \<open>simp add: bit_zorder3\<close>)
qed

lemma sint_of_bits:
  fixes lin :: i64
  assumes "\<forall>j\<ge>n. \<not> bit lin j" "n \<le> 63"
  shows "0 \<le> sint lin \<and> sint lin < 2 ^ n"
proof -
  have lt: "uint lin < 2 ^ n" using assms(1) by (subst uint_less_exp)
  also have "(2 :: int) ^ n \<le> 2 ^ 63" using assms(2) by (rule power_increasing) simp
  finally have "sint lin = uint lin" by (rule sint_eq_uint64)
  then show ?thesis using lt by simp
qed

lemma bits_of_sint:
  fixes lin :: i64
  assumes "0 \<le> sint lin" "sint lin < 2 ^ n"
  shows "\<forall>j\<ge>n. \<not> bit lin j"
  using assms uint_eq_sint64[of lin] by (simp add: uint_less_exp[symmetric])

lemma volume_two: "uint e = 2 ^ a \<Longrightarrow> uint f = 2 ^ b \<Longrightarrow> volume [e, f] = 2 ^ (a + b)"
  by (simp add: power_add)

lemma volume_three:
  "uint e = 2 ^ a \<Longrightarrow> uint f = 2 ^ b \<Longrightarrow> uint g = 2 ^ c \<Longrightarrow> volume [e, f, g] = 2 ^ (a + b + c)"
  by (simp add: power_add)

lemma zorder2_bounds:
  assumes "\<forall>j\<ge>a. \<not> bit x j" "\<forall>j\<ge>b. \<not> bit y j" "a \<le> b" "b \<le> Suc a"
  shows "\<forall>j\<ge>a + b. \<not> bit (zorder2_to_linear [x, y]) j"
proof (intro allI impI)
  fix j assume "a + b \<le> j"
  then have "(if odd j then a else b) \<le> j div 2" using assms(3,4) by presburger
  then show "\<not> bit (zorder2_to_linear [x, y]) j"
    using assms(1,2) by (auto simp: bit_zorder2 coord2_def split: if_splits)
qed

lemma zorder3_bounds:
  assumes "\<forall>j\<ge>a. \<not> bit x j" "\<forall>j\<ge>b. \<not> bit y j" "\<forall>j\<ge>c. \<not> bit z j"
    and "a \<le> b" "b \<le> c" "c \<le> Suc a"
  shows "\<forall>j\<ge>a + b + c. \<not> bit (zorder3_to_linear [x, y, z]) j"
proof (intro allI impI)
  fix j assume "a + b + c \<le> j"
  then have "(if j mod 3 = 2 then a else if j mod 3 = 1 then b else c) \<le> j div 3"
    using assms(4-6) mod_3_split[of j] by (auto split: if_splits)
  then show "\<not> bit (zorder3_to_linear [x, y, z]) j"
    using assms(1-3) by (auto simp: bit_zorder3 coord3_def split: if_splits)
qed

lemma zorder2_pos_bounds:
  assumes "zorder2_pos lin = [x, y]" "\<forall>j\<ge>a + b. \<not> bit lin j" "a \<le> b" "b \<le> Suc a"
  shows "(\<forall>j\<ge>a. \<not> bit x j) \<and> (\<forall>j\<ge>b. \<not> bit y j)"
  using assms unfolding zorder2_pos_bits by simp

lemma zorder3_pos_bounds:
  assumes "zorder3_pos lin = [x, y, z]" "\<forall>j\<ge>a + b + c. \<not> bit lin j"
    and "a \<le> b" "b \<le> c" "c \<le> Suc a"
  shows "(\<forall>j\<ge>a. \<not> bit x j) \<and> (\<forall>j\<ge>b. \<not> bit y j) \<and> (\<forall>j\<ge>c. \<not> bit z j)"
  using assms unfolding zorder3_pos_bits by simp

lemma zorder2_pos_two: "\<exists>x y. zorder2_pos lin = [x, y]"
  by (simp add: zorder2_pos_def split_beta)

lemma zorder3_pos_three: "\<exists>x y z. zorder3_pos lin = [x, y, z]"
  by (simp add: zorder3_pos_def split_beta)

interpretation zord: index_scheme zorder_to_linear zorder_get_pos zorder_good
proof
  fix ext p assume good: "zorder_good ext" and p: "in_extent ext p"
  show "0 \<le> sint (zorder_to_linear ext p) \<and> sint (zorder_to_linear ext p) < volume ext"
    using good
  proof (cases rule: zorder_good_cases)
    case (two e f a b)
    then obtain x y where xy: "p = [x, y]" "\<forall>j\<ge>a. \<not> bit x j" "\<forall>j\<ge>b. \<not> bit y j"
      using p by (auto simp: in_extent_two)
    show ?thesis
      using sint_of_bits[OF zorder2_bounds[OF xy(2,3) two(6,7)]] two xy
      by (simp add: zorder_to_linear_def volume_two del: volume_simps)
  next
    case (three e f g a b c)
    then obtain x y z where xy: "p = [x, y, z]" "\<forall>j\<ge>a. \<not> bit x j" "\<forall>j\<ge>b. \<not> bit y j"
      "\<forall>j\<ge>c. \<not> bit z j"
      using p by (auto simp: in_extent_three)
    show ?thesis
      using sint_of_bits[OF zorder3_bounds[OF xy(2-4) three(8-10)]] three xy
      by (simp add: zorder_to_linear_def volume_three del: volume_simps)
  qed
next
  fix ext p assume good: "zorder_good ext" and p: "in_extent ext p"
  show "zorder_get_pos ext (zorder_to_linear ext p) = p"
    using good
  proof (cases rule: zorder_good_cases)
    case (two e f a b)
    then obtain x y where xy: "p = [x, y]" "\<forall>j\<ge>a. \<not> bit x j" "\<forall>j\<ge>b. \<not> bit y j"
      using p by (auto simp: in_extent_two)
    show ?thesis
      using zorder2_pos_lin[of x y] two xy by (simp add: zorder_to_linear_def zorder_get_pos_def)
  next
    case (three e f g a b c)
    then obtain x y z where xy: "p = [x, y, z]" "\<forall>j\<ge>a. \<not> bit x j" "\<forall>j\<ge>b. \<not> bit y j"
      "\<forall>j\<ge>c. \<not> bit z j"
      using p by (auto simp: in_extent_three)
    show ?thesis
      using zorder3_pos_lin[of x y z] three xy by (simp add: zorder_to_linear_def zorder_get_pos_def)
  qed
next
  fix ext and n :: i64 assume good: "zorder_good ext" and n: "0 \<le> sint n" "sint n < volume ext"
  show "in_extent ext (zorder_get_pos ext n) \<and> zorder_to_linear ext (zorder_get_pos ext n) = n"
    using good
  proof (cases rule: zorder_good_cases)
    case (two e f a b)
    obtain x y where xy: "zorder2_pos n = [x, y]" using zorder2_pos_two by blast
    have b: "\<forall>j\<ge>a + b. \<not> bit n j"
      using bits_of_sint n two by (simp add: volume_two del: volume_simps)
    show ?thesis
      using zorder2_pos_bounds[OF xy b two(6,7)] zorder2_lin_pos[OF xy] b two xy
      by (simp add: zorder_to_linear_def zorder_get_pos_def in_extent_two del: in_extent.simps)
  next
    case (three e f g a b c)
    obtain x y z where xy: "zorder3_pos n = [x, y, z]" using zorder3_pos_three by blast
    have b: "\<forall>j\<ge>a + b + c. \<not> bit n j"
      using bits_of_sint n three by (simp add: volume_three del: volume_simps)
    show ?thesis
      using zorder3_pos_bounds[OF xy b three(8-10)] zorder3_lin_pos[OF xy] b three xy
      by (simp add: zorder_to_linear_def zorder_get_pos_def in_extent_three del: in_extent.simps)
  qed
qed


subsection \<open>Moving an index\<close>

lemma zorder_pos_components:
  "zorder2_pos lin = [ucast (fst (morton2d_decode lin)), ucast (snd (morton2d_decode lin))]"
  "zorder3_pos lin = [ucast (fst (morton3d_decode lin)), ucast (fst (snd (morton3d_decode lin))),
     ucast (snd (snd (morton3d_decode lin)))]"
  by (simp_all add: zorder2_pos_def zorder3_pos_def split_beta)

lemma ucast_take_bit: "ucast (take_bit n (w :: u64)) = (take_bit n (ucast w) :: u32)"
  by (rule bit_word_eqI) (auto simp: bit_ucast_iff bit_take_bit_iff)

lemma ucast_add_i32: "ucast (w + ucast (n :: i32) :: u64) = (ucast w + n :: u32)"
  by (simp add: ucast_down_add)

lemma ucast_down_diff: "ucast (a - b :: 64 word) = (ucast a - ucast b :: 32 word)"
  using ucast_down_add[of "a - b" b] by (simp add: algebra_simps)

lemma ucast_diff_i32: "ucast (w - ucast (n :: i32) :: u64) = (ucast w - n :: u32)"
  by (simp add: ucast_down_diff)

lemma take_bit_32 [simp]: "take_bit 32 (w :: u32) = w"
  by (rule bit_word_eqI) (auto simp: bit_take_bit_iff)

lemma zorder2_moves:
  assumes n: "0 \<le> sint n" "sint n < 256" and d: "d < 2"
  shows "map_option zorder2_pos (zorder2_inc d lin n) = Some (index_inc d (zorder2_pos lin) n)"
    "map_option zorder2_pos (zorder2_dec d lin n) = Some (index_dec d (zorder2_pos lin) n)"
proof -
  have d: "d = 0 \<or> d = 1" using d by auto
  have e: "map_option zorder2_pos r = map_option (\<lambda>(x, y). [ucast x, ucast y]) (map_option morton2d_decode r)" for r
    by (cases r) (simp_all add: zorder2_pos_def)
  show "map_option zorder2_pos (zorder2_inc d lin n) = Some (index_inc d (zorder2_pos lin) n)"
    using d unfolding e
    by (auto simp: zorder2_inc_def decode2_incX[OF n] decode2_incY[OF n] zorder_pos_components
        index_inc_def ucast_take_bit ucast_add_i32 simp del: map_option_eq_Some)
  show "map_option zorder2_pos (zorder2_dec d lin n) = Some (index_dec d (zorder2_pos lin) n)"
    using d unfolding e
    by (auto simp: zorder2_dec_def decode2_decX[OF n] decode2_decY[OF n] zorder_pos_components
        index_dec_def ucast_take_bit ucast_diff_i32 simp del: map_option_eq_Some)
qed

text \<open>In three dimensions the components wrap around at 21 bits.\<close>

lemma zorder3_moves:
  assumes n: "0 \<le> sint n" "sint n < 256" and d: "d < 3"
  shows "map_option zorder3_pos (zorder3_inc d lin n)
      = Some ((zorder3_pos lin)[d := take_bit 21 (zorder3_pos lin ! d + n)])"
    "map_option zorder3_pos (zorder3_dec d lin n)
      = Some ((zorder3_pos lin)[d := take_bit 21 (zorder3_pos lin ! d - n)])"
proof -
  have d: "d = 0 \<or> d = 1 \<or> d = 2" using d by auto
  have e: "map_option zorder3_pos r
      = map_option (\<lambda>(x, y, z). [ucast x, ucast y, ucast z]) (map_option morton3d_decode r)" for r
    by (cases r) (simp_all add: zorder3_pos_def)
  show "map_option zorder3_pos (zorder3_inc d lin n)
      = Some ((zorder3_pos lin)[d := take_bit 21 (zorder3_pos lin ! d + n)])"
    using d unfolding e
    by (auto simp: zorder3_inc_def decode3_incX[OF n] decode3_incY[OF n] decode3_incZ[OF n]
        zorder_pos_components ucast_take_bit ucast_add_i32 numeral_2_eq_2 split_beta
        simp del: map_option_eq_Some)
  show "map_option zorder3_pos (zorder3_dec d lin n)
      = Some ((zorder3_pos lin)[d := take_bit 21 (zorder3_pos lin ! d - n)])"
    using d unfolding e
    by (auto simp: zorder3_dec_def decode3_decX[OF n] decode3_decY[OF n] decode3_decZ[OF n]
        zorder_pos_components ucast_take_bit ucast_diff_i32 numeral_2_eq_2 split_beta
        simp del: map_option_eq_Some)
qed

text \<open>
  The highest bit of a three-dimensional key belongs to no decoded coordinate.  It stays
  clear: the sum cannot carry past bit 60, which is clear before, and a difference that
  borrows from it sets bit 60 too.
\<close>

lemma top_bits:
  fixes key :: u64
  assumes "\<forall>j\<ge>32. \<not> bit key j"
  shows "uint (key OR xy3_mask) < 2 ^ 63 - 2 ^ 60" "uint (key_and key z3_mask) < 2 ^ 32"
proof -
  have "\<forall>j\<ge>63. \<not> bit ((key OR xy3_mask) OR push_bit 60 1) j"
  proof (intro allI impI)
    fix j :: nat assume j: "63 \<le> j"
    show "\<not> bit ((key OR xy3_mask) OR push_bit 60 1) j"
    proof (cases "j < 64")
      case True
      then have "j = 63" using j by simp
      then show ?thesis
        using assms by (auto simp: bit_or_iff xy3_mask_def mask_bits bit_push_bit_iff)
    qed (auto dest: bit_imp_le_length)
  qed
  then have "uint ((key OR xy3_mask) OR push_bit 60 1) < 2 ^ 63" by (subst uint_less_exp)
  moreover have "uint (key OR xy3_mask) + 2 ^ 60 = uint (key OR xy3_mask) OR 2 ^ 60"
  proof (rule disjunctive_add_eq_or, rule bit_eqI)
    fix j
    have "bit (2 ^ 60 :: int) j = (j = 60)" by (simp only: bit_exp_iff possible_bit_int) auto
    then show "bit (uint (key OR xy3_mask) AND 2 ^ 60) j = bit 0 j"
      unfolding bit_and_iff using assms
      by (cases "j = 60") (simp_all add: bit_uint_iff bit_or_iff xy3_mask_def mask_bits)
  qed
  moreover have "uint ((key OR xy3_mask) OR push_bit 60 1) = uint (key OR xy3_mask) OR 2 ^ 60"
    by (simp add: unsigned_or_eq)
  ultimately show "uint (key OR xy3_mask) < 2 ^ 63 - 2 ^ 60" by simp
  show "uint (key_and key z3_mask) < 2 ^ 32"
    using assms by (subst uint_less_exp) (auto simp: key_and_def bit_and_iff)
qed

lemma top_bit_sum:
  fixes key :: u64
  assumes "\<forall>j\<ge>32. \<not> bit key j"
  shows "\<not> bit (key_sum key xy3_mask (ucast (l :: u32))) 63"
proof -
  have "uint (key OR xy3_mask) + uint l < 2 ^ 63"
    using top_bits(1)[OF assms] uint32_lt[of l] by simp
  moreover have "0 \<le> uint (key OR xy3_mask) + uint l" by simp
  ultimately have "\<not> bit (uint (key OR xy3_mask) + uint (ucast l :: u64)) 63"
    by (simp add: bit_iff_odd)
  then show ?thesis by (simp add: key_sum_def bit_word_add)
qed

lemma top_bit_diff:
  fixes key :: u64
  assumes "\<forall>j\<ge>32. \<not> bit key j" "bit (key_diff key z3_mask (ucast (l :: u32))) 63"
  shows "bit (key_diff key z3_mask (ucast l)) 60"
proof -
  define t where "t = uint (key_and key z3_mask) - uint l"
  have b: "bit (key_diff key z3_mask (ucast l)) j = (j < 64 \<and> bit t j)" for j
    by (simp add: key_diff_def bit_word_diff t_def)
  have t: "t < 2 ^ 32" "- (2 ^ 32) < t"
    using top_bits(2)[OF assms(1)] uint32_lt[of l] uint_ge_0[of l] uint_ge_0[of "key_and key z3_mask"]
    unfolding t_def by linarith+
  have "t < 0"
  proof (rule ccontr)
    assume "\<not> t < 0"
    then have "\<not> bit t 63" using t by (simp add: bit_iff_odd)
    then show False using assms(2) b by simp
  qed
  then have "t div 2 ^ 60 = - 1"
    using t(2) by (intro int_div_pos_eq[where r = "t + 2 ^ 60"]) auto
  then show ?thesis unfolding b by (simp add: bit_iff_odd)
qed

text \<open>The bits of a moved key from its position.\<close>

lemma zorder2_lin_eq:
  assumes "zorder2_pos k = [x, y]" "\<forall>j\<ge>16. \<not> bit x j" "\<forall>j\<ge>16. \<not> bit y j"
  shows "k = zorder2_to_linear [x, y]"
proof -
  have "\<not> bit k j" if "32 \<le> j" for j
  proof (cases "j < 64")
    case True
    define q where "q = j div 2"
    have q: "q < 32" "16 \<le> q" using True that by (simp_all add: q_def)
    have "bit x q = bit k (2 * q + 1)" "bit y q = bit k (2 * q)"
      using assms(1) q unfolding zorder2_pos_bits by blast+
    moreover have "j = 2 * q \<or> j = 2 * q + 1" unfolding q_def by presburger
    ultimately show ?thesis using assms(2,3) q(2) by (elim disjE) simp_all
  qed (auto dest: bit_imp_le_length)
  then show ?thesis using zorder2_lin_pos[OF assms(1)] by simp
qed

lemma zorder3_lin_eq:
  assumes "zorder3_pos k = [x, y, z]" "\<forall>j\<ge>10. \<not> bit x j" "\<forall>j\<ge>11. \<not> bit y j"
    "\<forall>j\<ge>11. \<not> bit z j" "\<not> bit k 63"
  shows "k = zorder3_to_linear [x, y, z]"
proof -
  have "\<not> bit k j" if j: "32 \<le> j" for j
  proof (cases "j < 63")
    case True
    define q where "q = j div 3"
    have q: "q < 21" using True by (simp add: q_def)
    have b: "bit x q = bit k (3 * q + 2)" "bit y q = bit k (3 * q + 1)" "bit z q = bit k (3 * q)"
      using assms(1) q unfolding zorder3_pos_bits by blast+
    have "j = 3 * q \<or> j = 3 * q + 1 \<or> j = 3 * q + 2" using mod_3_split[of j] q_def by auto
    then show ?thesis
    proof (elim disjE)
      assume e: "j = 3 * q"
      then have "11 \<le> q" using j by simp
      then show ?thesis using b(3) e assms(4) by simp
    next
      assume e: "j = 3 * q + 1"
      then have "11 \<le> q" using j by simp
      then show ?thesis using b(2) e assms(3) by simp
    next
      assume e: "j = 3 * q + 2"
      then have "10 \<le> q" using j by simp
      then show ?thesis using b(1) e assms(2) by simp
    qed
  next
    case False
    then show ?thesis using assms(5) bit_imp_le_length[of k j] by (cases "j = 63") auto
  qed
  then show ?thesis using zorder3_lin_pos[OF assms(1)] by simp
qed

lemma zorder3_top:
  assumes key: "\<forall>j\<ge>32. \<not> bit key j"
  shows "zorder3_inc d key n = Some k \<Longrightarrow> \<not> bit k 63"
    "zorder3_dec d key n = Some k \<Longrightarrow> bit k 63 \<Longrightarrow> bit k 60"
  using key top_bit_sum[OF key] top_bit_diff[OF key]
  by (auto simp: zorder3_inc_def zorder3_dec_def m3_incX_def m3_incY_def m3_incZ_def m3_decX_def
      m3_decY_def m3_decZ_def Let_def bit_or_iff key_and_def bit_and_iff mask_bits
      xy3_mask_def xz3_mask_def yz3_mask_def split: if_splits)

lemma zorder_two_move:
  assumes k: "map_option zorder2_pos r = Some [x, y]" and "\<forall>j\<ge>a. \<not> bit x j" "\<forall>j\<ge>b. \<not> bit y j"
    and "a \<le> 16" "b \<le> 16"
  shows "r = Some (zorder2_to_linear [x, y])"
proof -
  obtain k where "r = Some k" "zorder2_pos k = [x, y]" using k by auto
  then show ?thesis using zorder2_lin_eq[of k x y] assms(2-5) by simp
qed

lemma zorder_three_move:
  assumes k: "map_option zorder3_pos r = Some [x, y, z]"
    and "\<forall>j\<ge>a. \<not> bit x j" "\<forall>j\<ge>b. \<not> bit y j" "\<forall>j\<ge>c. \<not> bit z j" "a \<le> 10" "b \<le> 11" "c \<le> 11"
    and top: "\<And>k. r = Some k \<Longrightarrow> bit k 63 \<Longrightarrow> bit k 60"
  shows "r = Some (zorder3_to_linear [x, y, z])"
proof -
  obtain k where k: "r = Some k" "zorder3_pos k = [x, y, z]" using k by auto
  have "bit z 20 = bit k 60" using k(2) unfolding zorder3_pos_bits by simp
  then have "\<not> bit k 63" using top[OF k(1)] assms(4,7) by auto
  then show ?thesis using zorder3_lin_eq[OF k(2)] k(1) assms(2-7) by simp
qed

lemma take_bit_component:
  fixes x :: u32
  assumes "\<forall>j\<ge>a. \<not> bit x j" "a \<le> n"
  shows "take_bit n x = x"
  using assms by (intro bit_word_eqI) (auto simp: bit_take_bit_iff intro: ccontr)

lemma zorder_lands:
  assumes good: "zorder_good ext" and q: "in_extent ext q"
    and two: "length ext = 2 \<Longrightarrow> map_option zorder2_pos r = Some q"
    and three: "length ext = 3 \<Longrightarrow> map_option zorder3_pos r = Some (q[d := take_bit 21 (q ! d)])"
    and top: "\<And>k. length ext = 3 \<Longrightarrow> r = Some k \<Longrightarrow> bit k 63 \<Longrightarrow> bit k 60"
  shows "r = Some (zorder_to_linear ext q)"
  using good
proof (cases rule: zorder_good_cases)
  case (two e f a b)
  then obtain x y where xy: "q = [x, y]" "\<forall>j\<ge>a. \<not> bit x j" "\<forall>j\<ge>b. \<not> bit y j"
    using q by (auto simp: in_extent_two)
  then show ?thesis
    using zorder_two_move[OF _ xy(2,3) two(4,5)] assms(3) two(1) by (simp add: zorder_to_linear_def)
next
  case (three e f g a b c)
  then obtain x y z where xy: "q = [x, y, z]" "\<forall>j\<ge>a. \<not> bit x j" "\<forall>j\<ge>b. \<not> bit y j"
    "\<forall>j\<ge>c. \<not> bit z j"
    using q by (auto simp: in_extent_three)
  have l: "a \<le> 21" "b \<le> 21" "c \<le> 21" using three by auto
  note tb = take_bit_component[OF xy(2) l(1)] take_bit_component[OF xy(3) l(2)]
    take_bit_component[OF xy(4) l(3)]
  have "q[d := take_bit 21 (q ! d)] = q"
  proof (cases "d < 3")
    case True
    then have "d = 0 \<or> d = 1 \<or> d = 2" by linarith
    then show ?thesis unfolding xy(1) by (elim disjE) (simp_all add: tb numeral_2_eq_2)
  qed (simp add: xy(1) list_update_beyond del: list_update.simps)
  then have "map_option zorder3_pos r = Some [x, y, z]" using assms(4) three(1) xy(1) by simp
  then show ?thesis
    using zorder_three_move[OF _ xy(2-4) three(5-7) top] three(1) xy(1)
    by (simp add: zorder_to_linear_def)
qed

lemma zorder_lin_low: "\<forall>j\<ge>32. \<not> bit (zorder_to_linear ext p) j"
  by (auto simp: zorder_to_linear_def zorder2_to_linear_def zorder3_to_linear_def bit_ucast_iff
      dest: bit_imp_le_length)

lemma zorder_lin_moves:
  assumes good: "zorder_good ext" and p: "in_extent ext p" and d: "d < length ext"
    and n: "0 \<le> sint n" "sint n < 256"
  shows "in_extent ext (index_inc d p n) \<Longrightarrow>
      zorder_inc d ext (zorder_to_linear ext p) n = Some (zorder_to_linear ext (index_inc d p n))"
    and "in_extent ext (index_dec d p n) \<Longrightarrow>
      zorder_dec d ext (zorder_to_linear ext p) n = Some (zorder_to_linear ext (index_dec d p n))"
proof -
  define lin where "lin = zorder_to_linear ext p"
  have pos: "zorder_get_pos ext lin = p" unfolding lin_def by (rule zord.pos_lin[OF good p])
  have low: "\<forall>j\<ge>32. \<not> bit lin j" unfolding lin_def by (rule zorder_lin_low)
  have dp: "d < length p" using d in_extent_length[OF p] by simp
  show "in_extent ext (index_inc d p n) \<Longrightarrow>
      zorder_inc d ext (zorder_to_linear ext p) n = Some (zorder_to_linear ext (index_inc d p n))"
    unfolding lin_def[symmetric]
    using zorder2_moves(1)[OF n, of d lin] zorder3_moves(1)[OF n, of d lin] zorder3_top(1)[OF low]
      pos d dp
    by (intro zorder_lands[OF good, where d = d])
       (auto simp: zorder_inc_def zorder_get_pos_def index_inc_def)
  show "in_extent ext (index_dec d p n) \<Longrightarrow>
      zorder_dec d ext (zorder_to_linear ext p) n = Some (zorder_to_linear ext (index_dec d p n))"
    unfolding lin_def[symmetric]
    using zorder2_moves(2)[OF n, of d lin] zorder3_moves(2)[OF n, of d lin] zorder3_top(2)[OF low]
      pos d dp
    by (intro zorder_lands[OF good, where d = d])
       (auto simp: zorder_dec_def zorder_get_pos_def index_dec_def)
qed

subsection \<open>Extents that the scheme does not fit\<close>

lemma bit_exp_word: "bit (push_bit k 1 :: 'a::len word) j = (j = k \<and> k < LENGTH('a))"
  unfolding bit_push_bit_iff bit_1_iff possible_bit_word by auto

lemma zorder_leaves:
  assumes "uint e = 2 ^ a" "uint f = 2 ^ b" "a \<le> 16" "b \<le> 16" "\<not> (a \<le> b \<and> b \<le> Suc a)"
  shows "\<exists>p. in_extent [e, f] p \<and> volume [e, f] \<le> sint (zorder_to_linear [e, f] p)"
proof -
  define k where "k = (if b < a then a - 1 else b - 1)"
  define x y :: i32 where "x = (if b < a then push_bit k 1 else 0)"
    and "y = (if b < a then 0 else push_bit k 1)"
  define j where "j = (if b < a then 2 * k + 1 else 2 * k)"
  have k: "k < 16" "a + b \<le> j" "j < 32" "b < a \<Longrightarrow> k < a" "\<not> b < a \<Longrightarrow> k < b"
    using assms(3-5) by (auto simp: k_def j_def)
  have "(\<forall>j\<ge>a. \<not> bit x j) \<and> (\<forall>j\<ge>b. \<not> bit y j)"
    using k by (auto simp: x_def y_def bit_exp_word simp del: push_bit_of_1)
  then have "in_extent [e, f] [x, y]"
    using in_extent_two[OF assms(1,2), of "[x, y]"] assms(3,4) by (simp del: in_extent.simps)
  moreover have "bit (zorder2_to_linear [x, y]) j"
    using k by (auto simp: bit_zorder2 coord2_def x_def y_def j_def bit_exp_word simp del: push_bit_of_1)
  moreover have "0 \<le> sint (zorder_to_linear [e, f] [x, y])"
    using sint_of_bits[OF zorder_lin_low] by simp
  ultimately have "\<not> sint (zorder_to_linear [e, f] [x, y]) < 2 ^ (a + b)"
    using bits_of_sint[of "zorder_to_linear [e, f] [x, y]" "a + b"] k(2)
    by (auto simp: zorder_to_linear_def)
  then have "volume [e, f] \<le> sint (zorder_to_linear [e, f] [x, y])"
    by (simp add: volume_two[OF assms(1,2)] not_less del: volume_simps)
  then show ?thesis using \<open>in_extent [e, f] [x, y]\<close> by blast
qed

lemma exp_is_power_of_two:
  assumes "uint e = 2 ^ a"
  shows "\<not> not_power_of_two e"
proof -
  have "e = word_of_int (2 ^ a)" by (simp flip: assms)
  then have e: "e = push_bit a 1" by (simp add: push_bit_eq_mult)
  then have "e - 1 = mask a" by (simp add: mask_eq_exp_minus_1)
  then have "e AND (e - 1) = 0"
    unfolding e by (intro bit_word_eqI) (simp add: bit_and_iff bit_exp_word bit_mask_iff del: push_bit_of_1)
  then show ?thesis by (simp add: not_power_of_two_def)
qed

lemma zorder_good_two:
  "uint e = 2 ^ a \<Longrightarrow> uint f = 2 ^ b \<Longrightarrow> a \<le> 16 \<Longrightarrow> b \<le> 16 \<Longrightarrow> a \<le> b \<Longrightarrow> b \<le> Suc a
    \<Longrightarrow> zorder_good [e, f]"
  unfolding zorder_good_def by (auto intro!: exI[of _ a] exI[of _ b])

text \<open>
  C21.  On an extent that the z-order scheme fits, \<open>get_pos\<close> gives the position of an
  index back and the arithmetic on the key moves the index: an increment or decrement by
  \<open>n < 256\<close> along an axis is the index of the moved position.
\<close>

theorem zorder_moves:
  assumes "zorder_good ext" "in_extent ext p" "d < length ext" "0 \<le> sint n" "sint n < 256"
  shows "zorder_get_pos ext (zorder_to_linear ext p) = p
    \<and> (in_extent ext (index_inc d p n) \<longrightarrow>
        zorder_inc d ext (zorder_to_linear ext p) n = Some (zorder_to_linear ext (index_inc d p n)))
    \<and> (in_extent ext (index_dec d p n) \<longrightarrow>
        zorder_dec d ext (zorder_to_linear ext p) n = Some (zorder_to_linear ext (index_dec d p n)))"
  using zord.pos_lin[OF assms(1,2)] zorder_lin_moves[OF assms] by blast

theorem zorder_moves_witness:
  "zorder_inc 1 [4, 8] (zorder_to_linear [4, 8] [3, 5]) 2 = Some (zorder_to_linear [4, 8] [3, 7])
   \<and> zorder_dec 0 [4, 8] (zorder_to_linear [4, 8] [3, 5]) 3 = Some (zorder_to_linear [4, 8] [0, 5])"
proof -
  have "zorder_good [4, 8]" using zorder_good_two[of 4 2 8 3] by simp
  then show ?thesis
    using zorder_moves[of "[4, 8]" "[3, 5]" 1 2] zorder_moves[of "[4, 8]" "[3, 5]" 0 3]
    by (simp add: index_inc_def index_dec_def)
qed

text \<open>
  A two-dimensional array with sides \<open>2\<^sup>a\<close> and \<open>2\<^sup>b\<close> passes the check of its
  dimensions, but its z-order indices stay inside the array exactly when \<open>b\<close> is \<open>a\<close> or
  \<open>a + 1\<close>.  Then they number the cells without gaps.
\<close>

theorem zorder_fits:
  assumes "uint e = 2 ^ a" "uint f = 2 ^ b" "a \<le> 16" "b \<le> 16"
  shows "\<not> not_power_of_two_ext [e, f]"
    and "(\<forall>p. in_extent [e, f] p \<longrightarrow> sint (zorder_to_linear [e, f] p) < volume [e, f])
      \<longleftrightarrow> a \<le> b \<and> b \<le> Suc a"
    and "a \<le> b \<and> b \<le> Suc a \<longrightarrow>
      bij_betw (\<lambda>p. nat (sint (zorder_to_linear [e, f] p))) {p. in_extent [e, f] p} {..<2 ^ (a + b)}"
proof -
  note good = zorder_good_two[OF assms]
  show "\<not> not_power_of_two_ext [e, f]"
    using exp_is_power_of_two[OF assms(1)] exp_is_power_of_two[OF assms(2)] by simp
  show "(\<forall>p. in_extent [e, f] p \<longrightarrow> sint (zorder_to_linear [e, f] p) < volume [e, f])
      \<longleftrightarrow> a \<le> b \<and> b \<le> Suc a"
    using zord.lin_bounds[OF good] zorder_leaves[OF assms] by (meson not_le)
  have "volume [e, f] = 2 ^ (a + b)" by (rule volume_two[OF assms(1,2)])
  moreover have "(2 :: int) ^ (a + b) \<le> 2 ^ 63" using assms(3,4) by (intro power_increasing) auto
  ultimately show "a \<le> b \<and> b \<le> Suc a \<longrightarrow>
      bij_betw (\<lambda>p. nat (sint (zorder_to_linear [e, f] p))) {p. in_extent [e, f] p} {..<2 ^ (a + b)}"
    using zord.bij_cells[OF good] by (simp add: nat_power_eq del: volume_simps in_extent.simps)
qed

theorem zorder_fits_witness:
  "\<not> not_power_of_two_ext [32, 16]
   \<and> \<not> (\<forall>p. in_extent [32, 16] p \<longrightarrow> sint (zorder_to_linear [32, 16] p) < volume [32, 16])
   \<and> bij_betw (\<lambda>p. nat (sint (zorder_to_linear [16, 32] p))) {p. in_extent [16, 32] p} {..<512}"
proof -
  have "uint (32 :: u32) = 2 ^ 5" "uint (16 :: u32) = 2 ^ 4" by simp_all
  from zorder_fits[OF this] zorder_fits(3)[OF this(2,1)] show ?thesis by simp
qed

end
