(* ===== verification/NdArray.thy ===== *)
theory NdArray
  imports Buffer ZOrder
begin

text \<open>
  The class \<open>multi_array\<close> of \<open>src/core/multi_array.hpp\<close> and the pointer wrappers of
  \<open>src/core/ndptr.hpp\<close>: a buffer with an extent and an index scheme, in the host build.
  The template parameter \<open>Idx_t\<close> is the argument \<open>sch\<close>.  An access whose linear index is
  negative or past the end of the memory is undefined behaviour and the value \<open>None\<close>.
  The locale \<open>nd_store\<close> joins the contract of an index scheme with that of an indexed
  store; its three interpretations are the arrays of the three schemes.
\<close>

subsection \<open>The class\<close>

datatype idx_scheme = idx_col_major | idx_row_major | idx_zorder

fun idx_linear :: "idx_scheme \<Rightarrow> extent_t \<Rightarrow> index_t \<Rightarrow> i64" where
  "idx_linear idx_col_major ext pos = col_to_linear ext pos"
| "idx_linear idx_row_major ext pos = row_to_linear ext pos"
| "idx_linear idx_zorder ext pos = zorder_to_linear ext pos"

record multi_array =
  ma_buf :: buffer
  m_ext :: extent_t

datatype ma_error = range_error string

definition check_dimension :: "idx_scheme \<Rightarrow> extent_t \<Rightarrow> bool" where
  "check_dimension sch ext = (sch = idx_zorder \<longrightarrow> \<not> not_power_of_two_ext ext)"

definition ma_default :: "nat \<Rightarrow> MemType \<Rightarrow> multi_array" where
  "ma_default rank type = \<lparr>ma_buf = buffer_default type, m_ext = replicate rank 0\<rparr>"

text \<open>
  When \<open>check_dimension\<close> throws, the destructor of the base class releases the memory.
\<close>

definition ma_new ::
  "(nat \<Rightarrow> 'a) \<Rightarrow> idx_scheme \<Rightarrow> extent_t \<Rightarrow> MemType \<Rightarrow> 'a heap \<Rightarrow> ((ma_error + multi_array) \<times> 'a heap) option" where
  "ma_new junk sch ext type h =
     (let (h', b) = buffer_new junk (unat (extent_size ext)) type h
      in if check_dimension sch ext then Some (Inr \<lparr>ma_buf = b, m_ext = ext\<rparr>, h')
         else map_option (\<lambda>(h'', b'). (Inl (range_error
                ''One of the dimensions is not a power of 2, can't use zorder indexing!''), h''))
                (free_mem h' b))"

text \<open>The move constructor and the move assignment: the new target and the source.\<close>

definition ma_move_new :: "multi_array \<Rightarrow> multi_array \<times> multi_array" where
  "ma_move_new other =
     (let (b, b') = buffer_move (buffer_default default_mem_type) (ma_buf other)
      in (\<lparr>ma_buf = b, m_ext = m_ext other\<rparr>,
          \<lparr>ma_buf = b', m_ext = replicate (length (m_ext other)) 0\<rparr>))"

definition ma_move :: "multi_array \<Rightarrow> multi_array \<Rightarrow> multi_array \<times> multi_array" where
  "ma_move this other =
     (let (b, b') = buffer_move (ma_buf this) (ma_buf other)
      in (\<lparr>ma_buf = b, m_ext = m_ext other\<rparr>,
          \<lparr>ma_buf = b', m_ext = replicate (length (m_ext other)) 0\<rparr>))"

definition ma_copy_from :: "'a heap \<Rightarrow> multi_array \<Rightarrow> multi_array \<Rightarrow> 'a heap option" where
  "ma_copy_from h this other = copy_from_all h (ma_buf this) (ma_buf other)"

definition ma_resize ::
  "(nat \<Rightarrow> 'a) \<Rightarrow> extent_t \<Rightarrow> 'a heap \<Rightarrow> multi_array \<Rightarrow> ('a heap \<times> multi_array) option" where
  "ma_resize junk ext h this =
     map_option (\<lambda>(h', b). (h', this\<lparr>ma_buf := b, m_ext := ext\<rparr>))
       (resize junk (unat (extent_size ext)) h (ma_buf this))"

subsection \<open>Access\<close>

definition cell_get :: "'a heap \<Rightarrow> nat option \<Rightarrow> i64 \<Rightarrow> 'a option" where
  "cell_get h p lin =
     Option.bind (heap_get h p)
       (\<lambda>l. if 0 \<le> sint lin \<and> nat (sint lin) < length l then Some (l ! nat (sint lin)) else None)"

definition cell_put :: "'a heap \<Rightarrow> nat option \<Rightarrow> i64 \<Rightarrow> 'a \<Rightarrow> 'a heap option" where
  "cell_put h p lin v =
     Option.bind (heap_get h p)
       (\<lambda>l. if 0 \<le> sint lin \<and> nat (sint lin) < length l
            then Some (heap_put h p (l[nat (sint lin) := v])) else None)"

definition ma_index :: "'a heap \<Rightarrow> multi_array \<Rightarrow> i64 \<Rightarrow> 'a option" where
  "ma_index h this idx = cell_get h (m_data_h (ma_buf this)) idx"

definition ma_index_put :: "'a heap \<Rightarrow> multi_array \<Rightarrow> i64 \<Rightarrow> 'a \<Rightarrow> 'a heap option" where
  "ma_index_put h this idx v = cell_put h (m_data_h (ma_buf this)) idx v"

definition ma_get_idx :: "idx_scheme \<Rightarrow> multi_array \<Rightarrow> index_t \<Rightarrow> i64" where
  "ma_get_idx sch this pos = idx_linear sch (m_ext this) pos"

definition ma_at :: "idx_scheme \<Rightarrow> 'a heap \<Rightarrow> multi_array \<Rightarrow> index_t \<Rightarrow> 'a option" where
  "ma_at sch h this pos = cell_get h (m_data_h (ma_buf this)) (idx_linear sch (m_ext this) pos)"

definition ma_at_put :: "idx_scheme \<Rightarrow> 'a heap \<Rightarrow> multi_array \<Rightarrow> index_t \<Rightarrow> 'a \<Rightarrow> 'a heap option" where
  "ma_at_put sch h this pos v =
     cell_put h (m_data_h (ma_buf this)) (idx_linear sch (m_ext this) pos) v"

definition ma_idx_at :: "multi_array \<Rightarrow> u64 \<Rightarrow> i64" where
  "ma_idx_at this n = n"

text \<open>The indices from \<open>begin()\<close> on, until the iterator equals \<open>end()\<close>.\<close>

definition ma_indices :: "multi_array \<Rightarrow> i64 list" where
  "ma_indices this = map (\<lambda>n. ma_idx_at this (word_of_nat n)) [0..<m_size (ma_buf this)]"

subsection \<open>References and pointers\<close>

text \<open>
  \<open>ref_t\<close> and \<open>cref_t\<close> copy the host pointer and the extent; \<open>ndptr\<close> and \<open>ndptr_const\<close>
  are the pointer alone.
\<close>

record array_ref =
  r_ptr :: "nat option"
  r_ext :: extent_t

definition ma_cref :: "multi_array \<Rightarrow> array_ref" where
  "ma_cref this = \<lparr>r_ptr = m_data_h (ma_buf this), r_ext = m_ext this\<rparr>"

definition ma_ref :: "multi_array \<Rightarrow> array_ref" where
  "ma_ref this = \<lparr>r_ptr = m_data_h (ma_buf this), r_ext = m_ext this\<rparr>"

definition cref_index :: "'a heap \<Rightarrow> array_ref \<Rightarrow> i64 \<Rightarrow> 'a option" where
  "cref_index h r idx = cell_get h (r_ptr r) idx"

definition cref_at :: "idx_scheme \<Rightarrow> 'a heap \<Rightarrow> array_ref \<Rightarrow> index_t \<Rightarrow> 'a option" where
  "cref_at sch h r pos = cell_get h (r_ptr r) (idx_linear sch (r_ext r) pos)"

definition ref_index_put :: "'a heap \<Rightarrow> array_ref \<Rightarrow> i64 \<Rightarrow> 'a \<Rightarrow> 'a heap option" where
  "ref_index_put h r idx v = cell_put h (r_ptr r) idx v"

definition ref_at_put :: "idx_scheme \<Rightarrow> 'a heap \<Rightarrow> array_ref \<Rightarrow> index_t \<Rightarrow> 'a \<Rightarrow> 'a heap option" where
  "ref_at_put sch h r pos v = cell_put h (r_ptr r) (idx_linear sch (r_ext r) pos) v"

definition ndptr_index :: "'a heap \<Rightarrow> nat option \<Rightarrow> i64 \<Rightarrow> 'a option" where
  "ndptr_index h p idx = cell_get h p idx"

definition ndptr_index_put :: "'a heap \<Rightarrow> nat option \<Rightarrow> i64 \<Rightarrow> 'a \<Rightarrow> 'a heap option" where
  "ndptr_index_put h p idx v = cell_put h p idx v"

text \<open>\<open>idx_at\<close> of a pointer takes a \<open>uint32_t\<close>; \<open>indices\<close> counts to \<open>ext.size()\<close>.\<close>

definition ndptr_idx_at :: "u32 \<Rightarrow> extent_t \<Rightarrow> i64" where
  "ndptr_idx_at lin ext = ucast lin"

definition ndptr_get_idx :: "idx_scheme \<Rightarrow> index_t \<Rightarrow> extent_t \<Rightarrow> i64" where
  "ndptr_get_idx sch pos ext = idx_linear sch ext pos"

definition ndptr_indices :: "extent_t \<Rightarrow> i64 list" where
  "ndptr_indices ext = map word_of_nat [0..<unat (extent_size ext)]"

subsection \<open>Positions of a store\<close>

text \<open>
  An indexed store whose cells are numbered by an index scheme: a write at a position
  changes that position and no other, and every cell of the store has a position.
\<close>

locale nd_store = index_scheme to_lin pos_of good + array_store inv get put n
  for to_lin :: "extent_t \<Rightarrow> index_t \<Rightarrow> i64" and pos_of :: "extent_t \<Rightarrow> i64 \<Rightarrow> index_t"
    and good :: "extent_t \<Rightarrow> bool" and inv :: "'s \<Rightarrow> bool" and get :: "'s \<Rightarrow> nat \<Rightarrow> 'a option"
    and put :: "'s \<Rightarrow> nat \<Rightarrow> 'a \<Rightarrow> 's option" and n :: nat +
  fixes ext :: extent_t
  assumes fits: "inv s \<Longrightarrow> good ext \<and> int n = volume ext \<and> volume ext \<le> 2 ^ 63"
begin

definition cell_of :: "index_t \<Rightarrow> nat" where
  "cell_of p = nat (sint (to_lin ext p))"

lemma cell_of_less: "inv s \<Longrightarrow> in_extent ext p \<Longrightarrow> 0 \<le> sint (to_lin ext p) \<and> cell_of p < n"
  using fits[of s] lin_bounds[of ext p] unfolding cell_of_def by linarith

lemma position_get: "inv s \<Longrightarrow> in_extent ext p \<Longrightarrow> get s (cell_of p) \<noteq> None"
  using cell_of_less get_defined by blast

lemma position_put:
  assumes "inv s" "in_extent ext p"
  shows "\<exists>s'. put s (cell_of p) v = Some s' \<and> inv s' \<and>
    (\<forall>q. in_extent ext q \<longrightarrow> get s' (cell_of q) = (if q = p then Some v else get s (cell_of q)))"
proof -
  obtain s' where s': "put s (cell_of p) v = Some s'" "inv s'"
    "\<And>j. get s' j = (if j = cell_of p then Some v else get s j)"
    using put_defined[OF assms(1), of "cell_of p" v] cell_of_less[OF assms] by blast
  have "cell_of q = cell_of p \<longleftrightarrow> q = p" if "in_extent ext q" for q
    unfolding cell_of_def using cell_eq_iff[OF _ that assms(2)] fits[OF assms(1)] by blast
  then show ?thesis using s' by auto
qed

lemma every_cell:
  assumes "inv s" "i < n"
  shows "\<exists>p. in_extent ext p \<and> cell_of p = i"
  using lin_surj[of ext i] fits[OF assms(1)] assms(2) unfolding cell_of_def by force

end

text \<open>When the scheme numbers the cells of the extent.\<close>

fun idx_good :: "idx_scheme \<Rightarrow> extent_t \<Rightarrow> bool" where
  "idx_good idx_col_major ext = good_extent ext"
| "idx_good idx_row_major ext = row_extent ext"
| "idx_good idx_zorder ext = zorder_good ext"

text \<open>A live array: valid host memory of the size of its extent.\<close>

definition ma_ok :: "idx_scheme \<Rightarrow> 'a heap \<Rightarrow> multi_array \<Rightarrow> bool" where
  "ma_ok sch h this = (buf_ok h (ma_buf this) \<and> m_host_allocated (ma_buf this)
     \<and> idx_good sch (m_ext this) \<and> int (m_size (ma_buf this)) = volume (m_ext this)
     \<and> volume (m_ext this) < 2 ^ 32)"

lemma ma_store:
  "array_store (\<lambda>h :: 'a heap. ma_ok sch h A) (\<lambda>h. buffer_get h (ma_buf A)) (buffer_put (ma_buf A))
     (m_size (ma_buf A))"
proof
  fix s :: "'a heap" and i v assume ok: "ma_ok sch s A"
  then have b: "buf_ok s (ma_buf A) \<and> m_host_allocated (ma_buf A)" by (simp add: ma_ok_def)
  show "(buffer_get s (ma_buf A) i \<noteq> None) = (i < m_size (ma_buf A))" by (rule buf.get_defined[OF b])
  show "m_size (ma_buf A) \<le> i \<Longrightarrow> buffer_put (ma_buf A) s i v = None" by (rule buf.put_undefined[OF b])
  show "\<exists>s'. buffer_put (ma_buf A) s i v = Some s' \<and> ma_ok sch s' A \<and>
      (\<forall>j. buffer_get s' (ma_buf A) j = (if j = i then Some v else buffer_get s (ma_buf A) j))"
    if "i < m_size (ma_buf A)"
    using buf.put_defined[OF b that, of v] ok by (auto simp: ma_ok_def)
qed

lemma ma_fits:
  "ma_ok sch h A \<Longrightarrow> idx_good sch (m_ext A) \<and> int (m_size (ma_buf A)) = volume (m_ext A)
     \<and> volume (m_ext A) \<le> 2 ^ 63"
  by (auto simp: ma_ok_def intro: order.trans[OF less_imp_le])

interpretation nd_col: nd_store col_to_linear get_pos good_extent "\<lambda>h :: 'a heap. ma_ok idx_col_major h A"
    "\<lambda>h. buffer_get h (ma_buf A)" "buffer_put (ma_buf A)" "m_size (ma_buf A)" "m_ext A" for A
  by (intro nd_store.intro colg.index_scheme_axioms ma_store nd_store_axioms.intro)
     (drule ma_fits, simp)

interpretation nd_row: nd_store row_to_linear row_pos row_extent "\<lambda>h :: 'a heap. ma_ok idx_row_major h A"
    "\<lambda>h. buffer_get h (ma_buf A)" "buffer_put (ma_buf A)" "m_size (ma_buf A)" "m_ext A" for A
  by (intro nd_store.intro row.index_scheme_axioms ma_store nd_store_axioms.intro)
     (drule ma_fits, simp)

interpretation nd_zorder: nd_store zorder_to_linear zorder_get_pos zorder_good "\<lambda>h :: 'a heap. ma_ok idx_zorder h A"
    "\<lambda>h. buffer_get h (ma_buf A)" "buffer_put (ma_buf A)" "m_size (ma_buf A)" "m_ext A" for A
  by (intro nd_store.intro zord.index_scheme_axioms ma_store nd_store_axioms.intro)
     (drule ma_fits, simp)

text \<open>The members in terms of the store.\<close>

lemma cell_get_buffer:
  "cell_get h (m_data_h b) lin = (if 0 \<le> sint lin then buffer_get h b (nat (sint lin)) else None)"
  by (auto simp: cell_get_def buffer_get_def split: bind_splits)

lemma cell_put_buffer:
  "cell_put h (m_data_h b) lin v = (if 0 \<le> sint lin then buffer_put b h (nat (sint lin)) v else None)"
  by (auto simp: cell_put_def buffer_put_def split: bind_splits)

lemma ma_put_get:
  assumes "ma_ok sch h A" "in_extent (m_ext A) p"
  shows "ma_at sch h A p \<noteq> None" "\<exists>h'. ma_at_put sch h A p v = Some h' \<and> ma_ok sch h' A \<and>
    (\<forall>q. in_extent (m_ext A) q \<longrightarrow>
      ma_at sch h' A q = (if q = p then Some v else ma_at sch h A q))"
proof -
  have nn: "0 \<le> sint (idx_linear sch (m_ext A) q)" if "in_extent (m_ext A) q" for q
    using nd_col.cell_of_less[of h A q] nd_row.cell_of_less[of h A q]
      nd_zorder.cell_of_less[of h A q] assms(1) that by (cases sch) auto
  have e: "ma_at sch g A q = buffer_get g (ma_buf A) (nat (sint (idx_linear sch (m_ext A) q)))"
    "ma_at_put sch g A q v = buffer_put (ma_buf A) g (nat (sint (idx_linear sch (m_ext A) q))) v"
    if "in_extent (m_ext A) q" for q and g :: "'a heap"
    using nn[OF that] by (simp_all add: ma_at_def ma_at_put_def cell_get_buffer cell_put_buffer)
  show "ma_at sch h A p \<noteq> None"
    unfolding e(1)[OF assms(2)]
    using nd_col.position_get[of h A p] nd_row.position_get[of h A p]
      nd_zorder.position_get[of h A p] assms
    by (cases sch) (auto simp: nd_col.cell_of_def nd_row.cell_of_def nd_zorder.cell_of_def)
  have "\<exists>h'. buffer_put (ma_buf A) h (nat (sint (idx_linear sch (m_ext A) p))) v = Some h' \<and> ma_ok sch h' A
    \<and> (\<forall>q. in_extent (m_ext A) q \<longrightarrow> buffer_get h' (ma_buf A) (nat (sint (idx_linear sch (m_ext A) q)))
        = (if q = p then Some v else buffer_get h (ma_buf A) (nat (sint (idx_linear sch (m_ext A) q)))))"
    using nd_col.position_put[of h A p v] nd_row.position_put[of h A p v]
      nd_zorder.position_put[of h A p v] assms
    by (cases sch) (simp_all add: nd_col.cell_of_def nd_row.cell_of_def nd_zorder.cell_of_def
        cong: if_cong)
  then show "\<exists>h'. ma_at_put sch h A p v = Some h' \<and> ma_ok sch h' A \<and>
    (\<forall>q. in_extent (m_ext A) q \<longrightarrow>
      ma_at sch h' A q = (if q = p then Some v else ma_at sch h A q))"
    using e assms(2) by auto
qed

subsection \<open>Construction and resizing\<close>

lemma size_of_extent: "volume ext < 2 ^ 32 \<Longrightarrow> int (unat (extent_size ext)) = volume ext"
  by (simp add: uint_extent_size)

lemma zorder_good_checked: "zorder_good ext \<Longrightarrow> \<not> not_power_of_two_ext ext"
  by (erule zorder_good_cases) (auto simp: exp_is_power_of_two)

lemma idx_good_checked: "idx_good sch ext \<Longrightarrow> check_dimension sch ext"
  using zorder_good_checked by (cases sch) (simp_all add: check_dimension_def)

lemma buffer_default_ok: "buf_ok h (buffer_default type)" "\<not> m_host_allocated (buffer_default type)"
  by (simp_all add: buf_ok_def buffer_default_def)

lemma buffer_new_ok:
  assumes "heap_ok h" "type = host_only \<or> type = host_device" "buffer_new junk n type h = (h', b)"
  shows "heap_ok h'" "buf_ok h' b" "m_size b = n" "m_host_allocated b"
    "\<And>p. blocks h p \<noteq> None \<Longrightarrow> blocks h' p = blocks h p \<and> m_data_h b \<noteq> Some p"
  using alloc_mem_ok[OF assms(1) buffer_default_ok assms(3)[unfolded buffer_new_def]] assms(2)
  by (auto simp: buffer_default_def)

lemma ma_new_ok:
  assumes "heap_ok h" "type = host_only \<or> type = host_device" "check_dimension sch ext"
  shows "\<exists>h' b. ma_new junk sch ext type h = Some (Inr \<lparr>ma_buf = b, m_ext = ext\<rparr>, h')
    \<and> heap_ok h' \<and> buf_ok h' b \<and> m_host_allocated b \<and> m_size b = unat (extent_size ext)
    \<and> (\<forall>p. blocks h p \<noteq> None \<longrightarrow> blocks h' p = blocks h p)"
proof -
  obtain h' b where n: "buffer_new junk (unat (extent_size ext)) type h = (h', b)" by fastforce
  show ?thesis using buffer_new_ok[OF assms(1,2) n] assms(3) n by (auto simp: ma_new_def)
qed

lemma ma_new_error:
  assumes "heap_ok h" "type = host_only \<or> type = host_device" "\<not> check_dimension sch ext"
  shows "\<exists>h' e. ma_new junk sch ext type h = Some (Inl e, h') \<and> heap_ok h' \<and> blocks h' = blocks h"
proof -
  obtain h1 b where n: "buffer_new junk (unat (extent_size ext)) type h = (h1, b)" by fastforce
  note ok = buffer_new_ok[OF assms(1,2) n]
  obtain h' b' where f: "free_mem h1 b = Some (h', b')" "heap_ok h'"
    "\<And>p. blocks h' p = (if m_data_h b = Some p then None else blocks h1 p)"
    using free_mem_ok[OF ok(1,2)] by blast
  have "blocks h' p = blocks h p" for p
  proof (cases "blocks h p")
    case None
    then show ?thesis
      using f(3)[of p] n assms(2)
      by (auto simp: buffer_new_def alloc_mem_def heap_new_def buffer_default_def split: if_splits)
  qed (use ok(5)[of p] f(3)[of p] in auto)
  then show ?thesis using assms(3) n f by (auto simp: ma_new_def)
qed

text \<open>
  After a resize the array has the new extent, whatever the scheme, and every reference
  taken before is dangling.
\<close>

lemma ma_resize_ok:
  assumes "heap_ok h" "ma_ok sch h A"
    and "m_type (ma_buf A) = host_only \<or> m_type (ma_buf A) = host_device"
  shows "\<exists>h' A'. ma_resize junk ext h A = Some (h', A') \<and> heap_ok h' \<and> m_ext A' = ext
    \<and> (idx_good sch ext \<and> 0 < volume ext \<and> volume ext < 2 ^ 32 \<longrightarrow> ma_ok sch h' A')
    \<and> (\<forall>p. cref_at sch h' (ma_cref A) p = None)"
proof -
  have b: "buf_ok h (ma_buf A)" "m_host_allocated (ma_buf A)" using assms(2) by (simp_all add: ma_ok_def)
  define n where "n = unat (extent_size ext)"
  obtain h' b' where r: "resize junk n h (ma_buf A) = Some (h', b')" "heap_ok h'" "buf_ok h' b'"
    "m_size b' = (if n = 0 then m_size (ma_buf A) else n)" "m_host_allocated b' = (n > 0)"
    "\<And>p. m_data_h (ma_buf A) = Some p \<Longrightarrow> blocks h' p = None"
    using resize_ok[OF assms(1) b(1), of junk n] assms(3) by blast
  have "heap_get h' (m_data_h (ma_buf A)) = None"
    using r(6) by (cases "m_data_h (ma_buf A)") (simp_all add: heap_get_def)
  then have "cref_at sch h' (ma_cref A) p = None" for p
    by (simp add: cref_at_def ma_cref_def cell_get_def)
  moreover have "ma_ok sch h' (A\<lparr>ma_buf := b', m_ext := ext\<rparr>)"
    if "idx_good sch ext" "0 < volume ext" "volume ext < 2 ^ 32"
    using that r(3-5) size_of_extent[OF that(3)] unfolding ma_ok_def n_def by auto
  ultimately show ?thesis using r(1,2) by (auto simp: ma_resize_def n_def)
qed

subsection \<open>Properties\<close>

text \<open>
  C23.  In a live array of any of the three schemes every position of the extent can be
  read, and a write at one position changes the value there and at no other position.
\<close>

theorem array_positions:
  assumes "ma_ok sch h A" "in_extent (m_ext A) p"
  shows "ma_at sch h A p \<noteq> None \<and>
    (\<exists>h'. ma_at_put sch h A p v = Some h' \<and> ma_ok sch h' A \<and>
      (\<forall>q. in_extent (m_ext A) q \<longrightarrow>
        ma_at sch h' A q = (if q = p then Some v else ma_at sch h A q)))"
  using ma_put_get[OF assms] by blast

text \<open>
  C25.  For fewer than \<open>2\<^sup>3\<^sup>2\<close> elements: constructing an array on an extent all of whose
  positions have an index in it (\<open>idx_good\<close>) gives a live array of the extent; a z-order array
  with a side that is not a power of two is an error, after which the memory is as before.
  Between the two, an extent that passes \<open>check_dimension\<close> is built in any case and is live
  exactly when it is \<open>idx_good\<close>, which C24 decides for two dimensions.  Resizing checks
  nothing: a z-order array can be resized to any sides, and every reference taken before the
  resize is dangling.
\<close>

theorem array_lifecycle:
  assumes "heap_ok h" "volume ext < 2 ^ 32"
  shows "(idx_good sch ext \<longrightarrow> (\<exists>h' A. ma_new junk sch ext host_only h = Some (Inr A, h') \<and>
        m_ext A = ext \<and> ma_ok sch h' A \<and> heap_ok h'))
    \<and> (check_dimension sch ext \<longrightarrow> (\<exists>h' A. ma_new junk sch ext host_only h = Some (Inr A, h') \<and>
        m_ext A = ext \<and> heap_ok h' \<and> (ma_ok sch h' A = idx_good sch ext)))
    \<and> (not_power_of_two_ext ext \<longrightarrow>
      (\<exists>h' e. ma_new junk idx_zorder ext host_only h = Some (Inl e, h') \<and> blocks h' = blocks h))
    \<and> (ma_ok sch h A \<and> m_type (ma_buf A) = host_only \<longrightarrow>
      (\<exists>h' A'. ma_resize junk ext h A = Some (h', A') \<and> m_ext A' = ext
        \<and> (idx_good sch ext \<and> 0 < volume ext \<longrightarrow> ma_ok sch h' A')
        \<and> (\<forall>p. cref_at sch h' (ma_cref A) p = None)))"
proof (intro conjI impI)
  show "\<exists>h' A. ma_new junk sch ext host_only h = Some (Inr A, h') \<and>
      m_ext A = ext \<and> ma_ok sch h' A \<and> heap_ok h'" if "idx_good sch ext"
    using ma_new_ok[OF assms(1) _ idx_good_checked[OF that], of host_only junk] that assms(2)
    by (auto simp: ma_ok_def size_of_extent simp del: of_nat_unat)
  show "\<exists>h' A. ma_new junk sch ext host_only h = Some (Inr A, h') \<and>
      m_ext A = ext \<and> heap_ok h' \<and> (ma_ok sch h' A = idx_good sch ext)" if "check_dimension sch ext"
    using ma_new_ok[OF assms(1) _ that, of host_only junk] assms(2)
    by (auto simp: ma_ok_def size_of_extent simp del: of_nat_unat)
  show "\<exists>h' e. ma_new junk idx_zorder ext host_only h = Some (Inl e, h') \<and> blocks h' = blocks h"
    if "not_power_of_two_ext ext"
    using ma_new_error[OF assms(1), of host_only idx_zorder ext junk] that
    by (auto simp: check_dimension_def)
  show "\<exists>h' A'. ma_resize junk ext h A = Some (h', A') \<and> m_ext A' = ext
      \<and> (idx_good sch ext \<and> 0 < volume ext \<longrightarrow> ma_ok sch h' A')
      \<and> (\<forall>p. cref_at sch h' (ma_cref A) p = None)"
    if "ma_ok sch h A \<and> m_type (ma_buf A) = host_only"
    using ma_resize_ok[OF assms(1) conjunct1[OF that], of junk ext] that assms(2) by blast
qed

definition example_array :: multi_array where
  "example_array = \<lparr>ma_buf = example_buffer 1 4, m_ext = [2, 2]\<rparr>"

lemma example_array_ok: "ma_ok idx_zorder example_heap example_array" "heap_ok example_heap"
  using zorder_good_two[of 2 1 2 1] by (simp_all add: ma_ok_def example_array_def example_simps)

theorem array_positions_witness:
  "\<exists>h'. ma_at_put idx_zorder example_heap example_array [0, 1] 5 = Some h'
    \<and> ma_at idx_zorder h' example_array [0, 1] = Some 5
    \<and> ma_at idx_zorder h' example_array [1, 0] = ma_at idx_zorder example_heap example_array [1, 0]"
  using array_positions[OF example_array_ok(1), of "[0, 1]" 5]
  by (auto simp: example_array_def)

theorem array_lifecycle_witness:
  "(\<exists>h' e. ma_new (\<lambda>_. 0) idx_zorder [10, 16] host_only example_heap = Some (Inl e, h')
      \<and> blocks h' = blocks example_heap)
   \<and> (\<exists>h' A. ma_new (\<lambda>_. 0) idx_zorder [2, 4] host_only example_heap = Some (Inr A, h')
      \<and> ma_ok idx_zorder h' A)
   \<and> (\<exists>h' A'. ma_resize (\<lambda>_. 0) [10, 16] example_heap example_array = Some (h', A')
      \<and> m_ext A' = [10, 16])"
proof -
  have "not_power_of_two_ext [10, 16]" by (simp add: not_power_of_two_def)
  moreover have "idx_good idx_zorder [2, 4]" using zorder_good_two[of 2 1 4 2] by simp
  moreover have "m_type (ma_buf example_array) = host_only"
    by (simp add: example_array_def example_buffer_def)
  ultimately show ?thesis
    using array_lifecycle[OF example_array_ok(2), of "[2, 4]" idx_zorder "\<lambda>_. 0"]
      array_lifecycle[OF example_array_ok(2), of "[10, 16]" idx_zorder "\<lambda>_. 0" example_array]
      example_array_ok(1)
    by fastforce
qed

text \<open>
  C24.  A two-dimensional z-order array with sides \<open>2\<^sup>a\<close> and \<open>2\<^sup>b\<close> passes the check of its
  dimensions and is built, but all its positions lie in its memory only when \<open>b\<close> is \<open>a\<close>
  or \<open>a + 1\<close>; otherwise some position inside the extent is an access out of bounds.
\<close>

theorem zorder_array_access:
  assumes "heap_ok h" "uint e = 2 ^ a" "uint f = 2 ^ b" "a \<le> 16" "b \<le> 16" "a + b < 32"
  shows "\<exists>h' A. ma_new junk idx_zorder [e, f] host_only h = Some (Inr A, h')
    \<and> ((\<forall>p. in_extent [e, f] p \<longrightarrow> ma_at idx_zorder h' A p \<noteq> None) \<longleftrightarrow> a \<le> b \<and> b \<le> Suc a)"
proof -
  have vol: "volume [e, f] = 2 ^ (a + b)" by (rule volume_two[OF assms(2,3)])
  then have lt: "volume [e, f] < 2 ^ 32" using assms(6) power_strict_increasing[of "a + b" 32 "2 :: int"] by simp
  have "check_dimension idx_zorder [e, f]"
    using exp_is_power_of_two[OF assms(2)] exp_is_power_of_two[OF assms(3)] by (simp add: check_dimension_def)
  then obtain h' c where n: "ma_new junk idx_zorder [e, f] host_only h = Some (Inr \<lparr>ma_buf = c, m_ext = [e, f]\<rparr>, h')"
    and b: "buf_ok h' c" "m_host_allocated c" "m_size c = unat (extent_size [e, f])"
    using ma_new_ok[OF assms(1), of host_only idx_zorder "[e, f]" junk] by blast
  define A where "A = \<lparr>ma_buf = c, m_ext = [e, f]\<rparr>"
  have size: "int (m_size c) = volume [e, f]" unfolding b(3) by (rule size_of_extent[OF lt])
  have "ma_at idx_zorder h' A p \<noteq> None" if "a \<le> b \<and> b \<le> Suc a" "in_extent [e, f] p" for p
  proof (rule ma_put_get(1))
    show "ma_ok idx_zorder h' A"
      using zorder_good_two[OF assms(2-5)] that(1) b(1,2) size lt
      by (simp add: ma_ok_def A_def del: volume_simps)
  qed (use that(2) in \<open>simp add: A_def del: in_extent.simps\<close>)
  moreover have "\<exists>p. in_extent [e, f] p \<and> ma_at idx_zorder h' A p = None" if nf: "\<not> (a \<le> b \<and> b \<le> Suc a)"
  proof -
    obtain p where p: "in_extent [e, f] p" "volume [e, f] \<le> sint (zorder_to_linear [e, f] p)"
      using zorder_leaves[OF assms(2-5) nf] by blast
    then have "\<not> nat (sint (zorder_to_linear [e, f] p)) < m_size c" using size by linarith
    then have "buffer_get h' c (nat (sint (zorder_to_linear [e, f] p))) = None"
      using buf.get_defined[of h' c] b(1,2) by blast
    then show ?thesis using p(1) by (auto simp: ma_at_def A_def cell_get_buffer simp del: in_extent.simps)
  qed
  ultimately show ?thesis using n unfolding A_def[symmetric] by blast
qed

theorem zorder_array_access_witness:
  "\<exists>h' A. ma_new (\<lambda>_. 0) idx_zorder [32, 16] host_only example_heap = Some (Inr A, h')
    \<and> \<not> (\<forall>p. in_extent [32, 16] p \<longrightarrow> ma_at idx_zorder h' A p \<noteq> None)"
  using zorder_array_access[OF example_array_ok(2), of 32 5 16 4 "\<lambda>_. 0"] by simp

end
