(* ===== verification/SphGrid.thy ===== *)
theory SphGrid
  imports FieldSolver GuardCells
begin

text \<open>
  The spherical grid: \<open>src/systems/grid_sph.hpp\<close> over \<open>src/systems/grid_curv.h\<close>.
  The first coordinate is the logarithm of the radius, the second the polar angle.  The
  grid tabulates the lengths and areas the field solver divides by.  \<open>exp\<close>, \<open>sin\<close> and the
  others are the real functions; \<open>M_PI\<close> is \<open>pi\<close>.
\<close>

subsection \<open>Coordinates\<close>

text \<open>The value of the single precision build, the \<open>float\<close> nearest to \<open>1e-8\<close>.\<close>

definition TINY_f :: scalar where "TINY_f = 11258999 / 1125899906842624"

definition radius :: "scalar \<Rightarrow> scalar" where "radius x = exp x"
definition theta :: "scalar \<Rightarrow> scalar" where "theta x = x"
definition from_radius :: "scalar \<Rightarrow> scalar" where "from_radius r = ln r"
definition from_theta :: "scalar \<Rightarrow> scalar" where "from_theta th = th"

text \<open>\<open>atan2\<close> of the standard library, with values in \<open>(- pi, pi]\<close>.\<close>

definition atan2 :: "real \<Rightarrow> real \<Rightarrow> real" where
  "atan2 y x =
     (if 0 < x then arctan (y / x)
      else if x < 0 then (if 0 \<le> y then arctan (y / x) + pi else arctan (y / x) - pi)
      else if 0 < y then pi / 2 else if y < 0 then - pi / 2 else 0)"

definition coord_to_cart :: "scalar list \<Rightarrow> scalar list" where
  "coord_to_cart x =
     (let r = radius (x ! 0); th = theta (x ! 1); sth = sin th
      in [r * sth * cos (x ! 2), r * sth * sin (x ! 2), r * cos th])"

definition coord_from_cart :: "scalar list \<Rightarrow> scalar list" where
  "coord_from_cart x =
     (let r = sqrt (x ! 0 * x ! 0 + x ! 1 * x ! 1 + x ! 2 * x ! 2)
      in [from_radius r, from_theta (arccos (x ! 2 / r)), atan2 (x ! 1) (x ! 0)])"

definition vec_from_cart :: "scalar list \<Rightarrow> scalar list \<Rightarrow> scalar list" where
  "vec_from_cart v x =
     (let c2 = cos (theta (x ! 1)); s2 = sin (theta (x ! 1)); c3 = cos (x ! 2); s3 = sin (x ! 2)
      in [v ! 0 * s2 * c3 + v ! 1 * s2 * s3 + v ! 2 * c2,
          v ! 0 * c2 * c3 + v ! 1 * c2 * s3 - v ! 2 * s2,
          - v ! 0 * s3 + v ! 1 * c3])"

definition vec_to_cart :: "scalar list \<Rightarrow> scalar list \<Rightarrow> scalar list" where
  "vec_to_cart v x =
     (let c2 = cos (theta (x ! 1)); s2 = sin (theta (x ! 1)); c3 = cos (x ! 2); s3 = sin (x ! 2)
      in [v ! 0 * s2 * c3 + v ! 1 * c2 * c3 - v ! 2 * s3,
          v ! 0 * s2 * s3 + v ! 1 * c2 * s3 + v ! 2 * c3,
          v ! 0 * c2 - v ! 1 * s2])"

definition cart_coord2 :: "Grid \<Rightarrow> index_t \<Rightarrow> scalar list" where
  "cart_coord2 g pos =
     (let r = radius (coord_stagger g 0 (pos ! 0) 0); th = theta (coord_stagger g 1 (pos ! 1) 0)
      in [r * sin th, r * cos th])"

definition cart_coord3 :: "Grid \<Rightarrow> index_t \<Rightarrow> scalar list" where
  "cart_coord3 g pos =
     (let r = radius (coord_stagger g 0 (pos ! 0) 0); th = theta (coord_stagger g 1 (pos ! 1) 0);
          ph = coord_stagger g 2 (pos ! 2) 0
      in [r * cos ph * sin th, r * sin ph * sin th, r * cos th])"

text \<open>The free functions of the same file.\<close>

definition cart2sph :: "scalar list \<Rightarrow> scalar list \<Rightarrow> scalar list" where
  "cart2sph v x =
     (let c2 = cos (x ! 1); s2 = sin (x ! 1); c3 = cos (x ! 2); s3 = sin (x ! 2)
      in [v ! 0 * s2 * c3 + v ! 1 * s2 * s3 + v ! 2 * c2,
          v ! 0 * c2 * c3 + v ! 1 * c2 * s3 - v ! 2 * s2,
          - v ! 0 * s3 + v ! 1 * c3])"

definition sph2cart :: "scalar list \<Rightarrow> scalar list \<Rightarrow> scalar list" where
  "sph2cart v x =
     (let c2 = cos (x ! 1); s2 = sin (x ! 1); c3 = cos (x ! 2); s3 = sin (x ! 2)
      in [v ! 0 * s2 * c3 + v ! 1 * c2 * c3 - v ! 2 * s3,
          v ! 0 * s2 * s3 + v ! 1 * c2 * s3 + v ! 2 * c3,
          v ! 0 * c2 - v ! 1 * s2])"

definition beta_phi :: "scalar \<Rightarrow> scalar \<Rightarrow> scalar \<Rightarrow> scalar \<Rightarrow> scalar" where
  "beta_phi r th compactness omega = - (4 / 10) * compactness * omega * sin th / (r * r)"

definition alpha_gr :: "scalar \<Rightarrow> scalar \<Rightarrow> scalar" where
  "alpha_gr r compactness = sqrt (1 - compactness / r)"

subsection \<open>Lengths, areas and volumes\<close>

record grid_ptrs =
  gp_le :: vfield
  gp_lb :: vfield
  gp_Ae :: vfield
  gp_Ab :: vfield
  gp_dV :: field

text \<open>The two ends of the polar axis, within a tenth of a cell.\<close>

definition at_north :: "Grid \<Rightarrow> scalar \<Rightarrow> bool" where
  "at_north g th = (\<bar>th\<bar> < 0.1 * g_delta g ! 1)"

definition at_south :: "Grid \<Rightarrow> scalar \<Rightarrow> bool" where
  "at_south g th = (\<bar>th - pi\<bar> < 0.1 * g_delta g ! 1)"

definition by_phi :: "Grid \<Rightarrow> scalar \<Rightarrow> scalar" where
  "by_phi g x = (if g_dim g = 3 then x * g_delta g ! 2 else x)"

text \<open>The body of the loop of \<open>compute_coef\<close>, for grids of two and three dimensions.\<close>

definition coef_cell :: "Grid \<Rightarrow> i64 \<Rightarrow> grid_ptrs \<Rightarrow> grid_ptrs" where
  "coef_cell g idx P =
     (let pos = get_pos (extent g) idx;
          r = radius (coord_stagger g 0 (pos ! 0) 0); r_minus = radius (coord_stagger g 0 (pos ! 0 - 1) 0);
          rs = radius (coord_stagger g 0 (pos ! 0) 1); rs_plus = radius (coord_stagger g 0 (pos ! 0 + 1) 1);
          th = theta (coord_stagger g 1 (pos ! 1) 0); th_minus = theta (coord_stagger g 1 (pos ! 1 - 1) 0);
          ths = theta (coord_stagger g 1 (pos ! 1) 1); ths_plus = theta (coord_stagger g 1 (pos ! 1 + 1) 1);
          d0 = g_delta g ! 0; d1 = g_delta g ! 1;
          P = P\<lparr>gp_le := set_at (set_at (set_at (gp_le P) 0 idx (rs_plus - rs)) 1 idx (rs * (ths_plus - ths)))
                  2 idx (by_phi g (rs * sin ths))\<rparr>;
          P = P\<lparr>gp_lb := set_at (set_at (set_at (gp_lb P) 0 idx (r - r_minus)) 1 idx (r * (th - th_minus)))
                  2 idx (by_phi g (r * sin th))\<rparr>;
          A = (if at_north g ths \<or> at_south g ths then r * r * (1 - cos (theta (0.5 * d1)))
               else r * r * (cos th_minus - cos th));
          P = P\<lparr>gp_Ae := set_at (set_at (set_at (gp_Ae P) 0 idx (by_phi g A))
                  1 idx (by_phi g (0.5 * (r\<^sup>2 - r_minus\<^sup>2) * sin th)))
                  2 idx (0.5 * (r\<^sup>2 - r_minus\<^sup>2) * (th - th_minus))\<rparr>;
          A = (if at_north g ths \<or> at_south g ths then TINY_f else 0.5 * (rs_plus\<^sup>2 - rs\<^sup>2) * sin ths);
          P = P\<lparr>gp_Ab := set_at (set_at (set_at (gp_Ab P) 0 idx (by_phi g (rs * rs * (cos ths - cos ths_plus))))
                  1 idx (by_phi g A))
                  2 idx (0.5 * (rs_plus\<^sup>2 - rs\<^sup>2) * d1)\<rparr>;
          V = (if at_north g ths \<or> at_south g ths
               then (r ^ 3 - r_minus ^ 3) * 2 * (1 - cos (0.5 * d1)) / (d0 * d1 * 3)
               else (r ^ 3 - r_minus ^ 3) * (cos th_minus - cos th) / (d0 * d1 * 3))
      in P\<lparr>gp_dV := (gp_dV P)(idx := if g_dim g = 3 then V / g_delta g ! 2 else V)\<rparr>)"

definition compute_coef :: "Grid \<Rightarrow> grid_ptrs \<Rightarrow> grid_ptrs" where
  "compute_coef g P = host_loop (extent g) (coef_cell g) P"


subsection \<open>Round trips\<close>

lemma atan2_polar:
  assumes "(x, y) \<noteq> (0, 0)"
  shows "sqrt (x\<^sup>2 + y\<^sup>2) * cos (atan2 y x) = x" and "sqrt (x\<^sup>2 + y\<^sup>2) * sin (atan2 y x) = y"
proof -
  have s: "sqrt (1 + (y / x)\<^sup>2) = sqrt (x\<^sup>2 + y\<^sup>2) / \<bar>x\<bar>" if "x \<noteq> 0"
    using that by (simp add: field_simps flip: real_sqrt_divide real_sqrt_abs)
  have p: "0 < sqrt (x\<^sup>2 + y\<^sup>2)" using assms by (auto simp: sum_power2_gt_zero_iff)
  show "sqrt (x\<^sup>2 + y\<^sup>2) * cos (atan2 y x) = x" "sqrt (x\<^sup>2 + y\<^sup>2) * sin (atan2 y x) = y"
    using p by (auto simp: atan2_def cos_arctan sin_arctan s cos_add cos_diff sin_add sin_diff)
qed

lemma atan2_range: "- pi < atan2 y x" "atan2 y x \<le> pi"
  using arctan_bounded[of "y / x"] by (auto simp: atan2_def divide_nonpos_pos divide_nonneg_neg divide_neg_neg)


lemma atan2_unique:
  assumes "0 < k" "- pi < t" "t \<le> pi"
  shows "atan2 (k * sin t) (k * cos t) = t"
proof -
  let ?a = "atan2 (k * sin t) (k * cos t)"
  have "(k * cos t, k * sin t) \<noteq> (0, 0)" using assms(1) sin_cos_squared_add[of t] by (auto simp del: sin_cos_squared_add)
  note a = atan2_polar[OF this]
  have "sqrt ((k * cos t)\<^sup>2 + (k * sin t)\<^sup>2) = sqrt (k\<^sup>2 * ((sin t)\<^sup>2 + (cos t)\<^sup>2))"
    by (simp add: algebra_simps del: sin_cos_squared_add sin_cos_squared_add2)
  then have "sqrt ((k * cos t)\<^sup>2 + (k * sin t)\<^sup>2) = k" using assms(1) by simp
  then have "cos ?a = cos t" "sin ?a = sin t" using a assms(1) by simp_all
  then obtain n :: int where n: "?a = t + 2 * of_int n * pi" using sin_cos_eq_iff[of ?a t] by auto
  have "\<bar>?a - t\<bar> < 2 * pi" using atan2_range[of "k * sin t" "k * cos t"] assms(2,3) by linarith
  then have "\<bar>2 * real_of_int n\<bar> * pi < 2 * pi" using n by (simp add: abs_mult)
  then have "n = 0" by (simp add: abs_mult)
  then show ?thesis using n by simp
qed

lemma cart_round:
  assumes "length x = 3" "x \<noteq> [0, 0, 0]"
  shows "coord_to_cart (coord_from_cart x) = x"
proof -
  obtain a b c where x: "x = [a, b, c]" using assms(1) by (auto simp: length_Suc_conv numeral_3_eq_3)
  let ?r = "sqrt (a * a + b * b + c * c)"
  have sq: "?r\<^sup>2 = a\<^sup>2 + b\<^sup>2 + c\<^sup>2" by (simp add: power2_eq_square)
  have "a * a + b * b + c * c \<noteq> 0"
    using assms(2) x sum_squares_eq_zero_iff[of a b] sum_squares_ge_zero[of a b] zero_le_square[of c]
    by (auto simp: add_nonneg_eq_0_iff)
  then have r: "0 < ?r" using sum_squares_ge_zero[of a b] zero_le_square[of c] by (simp add: order_less_le)
  have "\<bar>c\<bar> \<le> ?r" by (rule real_le_rsqrt) (simp add: power2_eq_square)
  then have u: "- 1 \<le> c / ?r" "c / ?r \<le> 1" using r by (simp_all add: field_simps)
  have "sin (arccos (c / ?r)) = sqrt (1 - (c / ?r)\<^sup>2)" by (rule sin_arccos) (use u in simp_all)
  also have "\<dots> = sqrt ((a\<^sup>2 + b\<^sup>2) / ?r\<^sup>2)" using r sq by (simp add: field_simps)
  finally have s: "?r * sin (arccos (c / ?r)) = sqrt (a\<^sup>2 + b\<^sup>2)" using r by (simp add: real_sqrt_divide)
  have ab: "sqrt (a\<^sup>2 + b\<^sup>2) * cos (atan2 b a) = a" "sqrt (a\<^sup>2 + b\<^sup>2) * sin (atan2 b a) = b"
    by (cases "a = 0 \<and> b = 0"; auto simp: atan2_polar)+
  show ?thesis
    using r u ab s by (simp add: x coord_to_cart_def coord_from_cart_def Let_def radius_def from_radius_def theta_def
        from_theta_def)
qed

lemma sph_round:
  assumes "length x = 3" "0 < x ! 1" "x ! 1 < pi" "- pi < x ! 2" "x ! 2 \<le> pi"
  shows "coord_from_cart (coord_to_cart x) = x"
proof -
  obtain a t f where x: "x = [a, t, f]" using assms(1) by (auto simp: length_Suc_conv numeral_3_eq_3)
  let ?r = "exp a"
  have st: "0 < sin t" using assms(2,3) x by (simp add: sin_gt_zero)
  have "(?r * sin t * cos f) * (?r * sin t * cos f) + (?r * sin t * sin f) * (?r * sin t * sin f) + (?r * cos t) * (?r * cos t)
      = ?r\<^sup>2 * ((sin t)\<^sup>2 * ((sin f)\<^sup>2 + (cos f)\<^sup>2) + (cos t)\<^sup>2)"
    by (simp only: power2_eq_square distrib_left distrib_right ac_simps)
  then have n: "sqrt ((?r * sin t * cos f) * (?r * sin t * cos f) + (?r * sin t * sin f) * (?r * sin t * sin f)
      + (?r * cos t) * (?r * cos t)) = ?r" by simp
  show ?thesis
    using assms(2-5) st atan2_unique[of "?r * sin t" f]
    by (simp add: x coord_to_cart_def coord_from_cart_def Let_def radius_def theta_def n
        from_radius_def from_theta_def arccos_cos)
qed

lemma vec_round:
  assumes "length v = 3"
  shows "vec_from_cart (vec_to_cart v x) x = v" and "vec_to_cart (vec_from_cart v x) x = v"
proof -
  obtain a b c where v: "v = [a, b, c]" using assms(1) by (auto simp: length_Suc_conv numeral_3_eq_3)
  obtain c2 s2 c3 s3 where d: "c2 = cos (x ! 1)" "s2 = sin (x ! 1)" "c3 = cos (x ! 2)" "s3 = sin (x ! 2)" by simp
  have t: "s2 * s2 = 1 - c2 * c2" "s3 * s3 = 1 - c3 * c3"
    by (simp_all add: d sin_squared_eq flip: power2_eq_square)
  have k: "s2 * (s2 * z) = (1 - c2 * c2) * z" "s3 * (s3 * z) = (1 - c3 * c3) * z" for z
    by (simp_all only: mult.assoc[symmetric] t)
  show "vec_from_cart (vec_to_cart v x) x = v" "vec_to_cart (vec_from_cart v x) x = v"
    unfolding v vec_from_cart_def vec_to_cart_def Let_def theta_def d[symmetric]
    by (simp_all add: algebra_simps t k)
qed


subsection \<open>Nodes of a two-dimensional grid\<close>

text \<open>Positions and coordinates by integers.\<close>

definition plane_ok :: "Grid \<Rightarrow> bool" where
  "plane_ok g = (grid_ok g \<and> g_dim g = 2 \<and> good_extent (extent g)
     \<and> 0 < sint (g_guard g ! 0) \<and> 0 < sint (g_guard g ! 1))"

abbreviation gd :: "Grid \<Rightarrow> nat \<Rightarrow> int" where "gd g d \<equiv> sint (g_guard g ! d)"
abbreviation nn :: "Grid \<Rightarrow> nat \<Rightarrow> int" where "nn g d \<equiv> uint (g_N g ! d)"

definition node :: "Grid \<Rightarrow> int \<Rightarrow> int \<Rightarrow> i64" where
  "node g i j = col_to_linear (extent g) [word_of_int i, word_of_int j]"

definition on_plane :: "Grid \<Rightarrow> int \<Rightarrow> int \<Rightarrow> bool" where
  "on_plane g i j = (0 \<le> i \<and> i < nn g 0 + 2 * gd g 0 \<and> 0 \<le> j \<and> j < nn g 1 + 2 * gd g 1)"

text \<open>The coordinates of the left edge and of the centre of cell \<open>i\<close> in direction \<open>d\<close>.\<close>

definition x_edge :: "Grid \<Rightarrow> nat \<Rightarrow> int \<Rightarrow> scalar" where
  "x_edge g d i = g_lower g ! d + g_delta g ! d * of_int (i - gd g d)"

definition x_mid :: "Grid \<Rightarrow> nat \<Rightarrow> int \<Rightarrow> scalar" where
  "x_mid g d i = g_lower g ! d + g_delta g ! d * (of_int (i - gd g d) + 1 / 2)"

lemma plane_okD:
  assumes "plane_ok g"
  shows "grid_ok g" "g_dim g = 2" "good_extent (extent g)" "0 < gd g 0" "0 < gd g 1"
    and "0 < nn g 0" "0 < nn g 1" "nn g 0 + 2 * gd g 0 < 2 ^ 31" "nn g 1 + 2 * gd g 1 < 2 ^ 31"
    and "0 < g_delta g ! 0" "0 < g_delta g ! 1"
    and "uint (extent g ! 0) = nn g 0 + 2 * gd g 0" "uint (extent g ! 1) = nn g 1 + 2 * gd g 1" "length (extent g) = 2"
  using assms grid_okD[of g 0] grid_okD[of g 1] grid_dims(1)[of g 0] grid_dims(1)[of g 1] grid_ok_lengths(1)[of g]
  by (simp_all add: plane_ok_def extent_def)

lemma on_plane_words:
  assumes "plane_ok g" "on_plane g i j"
  shows "sint (word_of_int i :: i32) = i" "sint (word_of_int j :: i32) = j"
    and "in_extent (extent g) [word_of_int i, word_of_int j]"
proof -
  note o = plane_okD[OF assms(1)]
  show w: "sint (word_of_int i :: i32) = i" "sint (word_of_int j :: i32) = j"
    using assms(2) o(8,9) by (auto simp: on_plane_def intro!: sint_of_int32)
  obtain a b where e: "extent g = [a, b]" using o(14) by (auto simp: length_Suc_conv numeral_2_eq_2)
  show "in_extent (extent g) [word_of_int i, word_of_int j]"
    using assms(2) o(12,13) unfolding e by (simp add: on_plane_def w)
qed

lemma node_pos: "plane_ok g \<Longrightarrow> on_plane g i j \<Longrightarrow> get_pos (extent g) (node g i j) = [word_of_int i, word_of_int j]"
  by (simp add: node_def colg.pos_lin on_plane_words plane_okD)

lemma node_eq:
  assumes "plane_ok g" "on_plane g i j" "on_plane g i' j'"
  shows "node g i j = node g i' j' \<longleftrightarrow> i = i' \<and> j = j'"
proof -
  have "node g i j = node g i' j' \<longleftrightarrow> [word_of_int i, word_of_int j :: i32] = [word_of_int i', word_of_int j']"
    unfolding node_def by (rule colg.lin_eq_iff) (use assms on_plane_words plane_okD in blast)+
  then show ?thesis
    using on_plane_words(1,2)[OF assms(1,2)] on_plane_words(1,2)[OF assms(1,3)] by (metis list.inject)
qed


lemma node_less: "plane_ok g \<Longrightarrow> on_plane g i j \<Longrightarrow> uint (node g i j) < uint (extent_size (extent g))"
  unfolding node_def by (rule lin_less) (simp_all add: on_plane_words plane_okD)

lemma node_step:
  assumes "plane_ok g" "on_plane g i j"
  shows "on_plane g (i + 1) j \<Longrightarrow> col_inc (extent g) 0 (node g i j) 1 = node g (i + 1) j"
    and "on_plane g i (j + 1) \<Longrightarrow> col_inc (extent g) 1 (node g i j) 1 = node g i (j + 1)"
    and "on_plane g (i - 1) j \<Longrightarrow> col_dec (extent g) 0 (node g i j) 1 = node g (i - 1) j"
    and "on_plane g i (j - 1) \<Longrightarrow> col_dec (extent g) 1 (node g i j) 1 = node g i (j - 1)"
proof -
  note o = plane_okD[OF assms(1)] and w = on_plane_words[OF assms]
  show "on_plane g (i + 1) j \<Longrightarrow> col_inc (extent g) 0 (node g i j) 1 = node g (i + 1) j"
    using col_inc_moves[OF o(3) _ w(3), of 0 1] on_plane_words(3)[OF assms(1), of "i + 1" j] o(14)
    by (simp add: node_def index_inc_def)
  show "on_plane g i (j + 1) \<Longrightarrow> col_inc (extent g) 1 (node g i j) 1 = node g i (j + 1)"
    using col_inc_moves[OF o(3) _ w(3), of 1 1] on_plane_words(3)[OF assms(1), of i "j + 1"] o(14)
    by (simp add: node_def index_inc_def)
  show "on_plane g (i - 1) j \<Longrightarrow> col_dec (extent g) 0 (node g i j) 1 = node g (i - 1) j"
    using col_dec_moves[OF o(3) _ w(3), of 0 1] on_plane_words(3)[OF assms(1), of "i - 1" j] o(14)
    by (simp add: node_def)
  show "on_plane g i (j - 1) \<Longrightarrow> col_dec (extent g) 1 (node g i j) 1 = node g i (j - 1)"
    using col_dec_moves[OF o(3) _ w(3), of 1 1] on_plane_words(3)[OF assms(1), of i "j - 1"] o(14)
    by (simp add: node_def)
qed

lemma node_in_bound:
  assumes "plane_ok g" "on_plane g i j"
  shows "is_in_bound g [word_of_int i, word_of_int j]
    = (gd g 0 \<le> i \<and> i < nn g 0 + gd g 0 \<and> gd g 1 \<le> j \<and> j < nn g 1 + gd g 1)"
  using is_in_bound_iff[OF plane_okD(1)[OF assms(1)], of "[word_of_int i, word_of_int j]"] plane_okD(2)[OF assms(1)]
    on_plane_words(1,2)[OF assms]
  by (auto simp: less_2_cases_iff)

lemma node_surj:
  assumes "plane_ok g" "uint r < uint (extent_size (extent g))"
  shows "\<exists>i j. on_plane g i j \<and> r = node g i j"
proof -
  note o = plane_okD[OF assms(1)]
  have v: "uint (extent_size (extent g)) = volume (extent g)"
    using o(3) by (intro uint_extent_size) (simp add: good_extent_def)
  have "uint r < 2 ^ 63" using assms(2) v o(3) by (simp add: good_extent_def)
  then have "sint r = uint r" using sint_eq_uint64 by simp
  then have p: "in_extent (extent g) (get_pos (extent g) r)" "col_to_linear (extent g) (get_pos (extent g) r) = r"
    using colg.lin_pos[OF o(3), of r] assms(2) v by simp_all
  then obtain a b where ab: "get_pos (extent g) r = [a, b]"
    using in_extent_length[OF p(1)] o(14) by (auto simp: length_Suc_conv numeral_2_eq_2)
  have "on_plane g (sint a) (sint b)"
    using p(1) in_extent_nth[OF p(1), of 0] in_extent_nth[OF p(1), of 1] o(12-14) unfolding ab by (simp add: on_plane_def)
  then show ?thesis using p(2) unfolding ab by (intro exI[of _ "sint a"] exI[of _ "sint b"]) (simp add: node_def)
qed

text \<open>The nodes the kernels update.\<close>

definition inside :: "Grid \<Rightarrow> int \<Rightarrow> int \<Rightarrow> bool" where
  "inside g i j = (gd g 0 \<le> i \<and> i < nn g 0 + gd g 0 \<and> gd g 1 \<le> j \<and> j < nn g 1 + gd g 1)"

lemma inside_on_plane: "plane_ok g \<Longrightarrow> inside g i j \<Longrightarrow> on_plane g i j"
  using plane_okD(4-7)[of g] by (auto simp: inside_def on_plane_def)

subsection \<open>The coordinates of a node\<close>

lemma coord_word:
  assumes "d < g_dim g" "- (2 ^ 31) \<le> i" "i < 2 ^ 31"
  shows "coord_stagger g d (word_of_int i) 1 = x_edge g d i" "coord_stagger g d (word_of_int i) 0 = x_mid g d i"
  using sint_of_int32[OF assms(2,3)] assms(1) by (simp_all add: coord_stagger_def coord_def x_edge_def x_mid_def)

lemma x_edge_step: "x_edge g d (i + 1) = x_edge g d i + g_delta g ! d" "x_edge g d (i - 1) = x_edge g d i - g_delta g ! d"
  by (simp_all add: x_edge_def algebra_simps)

lemma x_mid_step: "x_mid g d (i + 1) = x_mid g d i + g_delta g ! d" "x_mid g d (i - 1) = x_mid g d i - g_delta g ! d"
  by (simp_all add: x_mid_def algebra_simps)

lemma x_mid_edge: "x_mid g d i = x_edge g d i + g_delta g ! d / 2"
  by (simp add: x_edge_def x_mid_def algebra_simps)

subsection \<open>The tables\<close>

text \<open>A loop that stores, at each index, a value that does not depend on the state.\<close>

lemma host_loop_put:
  assumes "\<And>idx S r. pr (f idx S) r = (if r = idx then v r else pr S r)"
  shows "pr (host_loop ext f S) r = (if uint r < uint (extent_size ext) then v r else pr S r)"
proof -
  have "pr (foldl (\<lambda>S i. f (word_of_int (int i)) S) S [0..<n]) r = (if unat r < n then v r else pr S r)"
    if "n \<le> 2 ^ 64" for n
    using that
  proof (induction n)
    case (Suc n)
    have "unat (word_of_int (int n) :: i64) = n" using Suc.prems by (simp add: unat_of_nat)
    then have "(r = word_of_int (int n)) = (unat r = n)" by (auto simp: word_unat_eq_iff)
    then show ?case using Suc assms by (auto simp: less_Suc_eq)
  qed simp
  moreover have "unat (extent_size ext) \<le> 2 ^ 64"
    using unsigned_less[where 'a = nat, of "extent_size ext"] by simp
  moreover have "(unat r < unat (extent_size ext)) = (uint r < uint (extent_size ext))"
    by (simp only: unat_eq_nat_uint nat_less_eq_zless uint_ge_0)
  ultimately show ?thesis by (simp add: host_loop_def)
qed

definition on_axis :: "Grid \<Rightarrow> int \<Rightarrow> bool" where
  "on_axis g j = (at_north g (x_edge g 1 j) \<or> at_south g (x_edge g 1 j))"

lemma coef_node:
  fixes i j :: int and P0 :: grid_ptrs
  assumes "plane_ok g" "on_plane g i j"
  defines "r \<equiv> exp (x_mid g 0 i)" and "r_m \<equiv> exp (x_mid g 0 (i - 1))" and "rs \<equiv> exp (x_edge g 0 i)" and "rs_p \<equiv> exp (x_edge g 0 (i + 1))"
    and "th \<equiv> x_mid g 1 j" and "th_m \<equiv> x_mid g 1 (j - 1)" and "ths \<equiv> x_edge g 1 j" and "ths_p \<equiv> x_edge g 1 (j + 1)" and "P \<equiv> compute_coef g P0"
  shows "gp_le P 0 (node g i j) = rs_p - rs" "gp_le P 1 (node g i j) = rs * (ths_p - ths)" "gp_le P 2 (node g i j) = rs * sin ths"
    and "gp_lb P 0 (node g i j) = r - r_m" "gp_lb P 1 (node g i j) = r * (th - th_m)" "gp_lb P 2 (node g i j) = r * sin th"
    and "gp_Ae P 0 (node g i j) = (if on_axis g j then r * r * (1 - cos (g_delta g ! 1 / 2)) else r * r * (cos th_m - cos th))"
    and "gp_Ae P 1 (node g i j) = (r\<^sup>2 - r_m\<^sup>2) / 2 * sin th" "gp_Ae P 2 (node g i j) = (r\<^sup>2 - r_m\<^sup>2) / 2 * (th - th_m)"
    and "gp_Ab P 0 (node g i j) = rs * rs * (cos ths - cos ths_p)"
    and "gp_Ab P 1 (node g i j) = (if on_axis g j then TINY_f else (rs_p\<^sup>2 - rs\<^sup>2) / 2 * sin ths)"
    and "gp_Ab P 2 (node g i j) = (rs_p\<^sup>2 - rs\<^sup>2) / 2 * g_delta g ! 1"
    and "gp_dV P (node g i j) * (g_delta g ! 0 * g_delta g ! 1) = (if on_axis g j
      then (r ^ 3 - r_m ^ 3) / 3 * (2 * (1 - cos (g_delta g ! 1 / 2))) else (r ^ 3 - r_m ^ 3) / 3 * (cos th_m - cos th))"
proof -
  note o = plane_okD[OF assms(1)] and p = node_pos[OF assms(1,2)] and l = node_less[OF assms(1,2)]
  have b: "- (2 ^ 31) \<le> i - 1" "i + 1 < 2 ^ 31" "- (2 ^ 31) \<le> j - 1" "j + 1 < 2 ^ 31"
    using assms(2) o(4,5,8,9) by (auto simp: on_plane_def)
  have ws: "(word_of_int k - 1 :: i32) = word_of_int (k - 1)" "(word_of_int k + 1 :: i32) = word_of_int (k + 1)" for k by simp_all
  have c: "coord_stagger g 0 (word_of_int i) 0 = x_mid g 0 i" "coord_stagger g 0 (word_of_int i - 1) 0 = x_mid g 0 (i - 1)"
    "coord_stagger g 0 (word_of_int i) 1 = x_edge g 0 i" "coord_stagger g 0 (word_of_int i + 1) 1 = x_edge g 0 (i + 1)"
    "coord_stagger g 1 (word_of_int j) 0 = x_mid g 1 j" "coord_stagger g 1 (word_of_int j - 1) 0 = x_mid g 1 (j - 1)"
    "coord_stagger g 1 (word_of_int j) 1 = x_edge g 1 j" "coord_stagger g 1 (word_of_int j + 1) 1 = x_edge g 1 (j + 1)"
    unfolding ws by (rule coord_word; use b o(2) in linarith)+
  let ?n = "node g i j"
  have at: "pr (compute_coef g P0) ?n = pr (coef_cell g ?n P0) ?n"
    if "\<And>idx S r. pr (coef_cell g idx S) r = (if r = idx then pr (coef_cell g r P0) r else pr S r)" for pr :: "grid_ptrs \<Rightarrow> field"
    using host_loop_put[where f = "coef_cell g" and pr = pr and v = "\<lambda>r. pr (coef_cell g r P0) r", OF that] l
    by (simp add: compute_coef_def)
  have e: "gp_le P 0 ?n = gp_le (coef_cell g ?n P0) 0 ?n" "gp_le P 1 ?n = gp_le (coef_cell g ?n P0) 1 ?n"
    "gp_le P 2 ?n = gp_le (coef_cell g ?n P0) 2 ?n" "gp_lb P 0 ?n = gp_lb (coef_cell g ?n P0) 0 ?n"
    "gp_lb P 1 ?n = gp_lb (coef_cell g ?n P0) 1 ?n" "gp_lb P 2 ?n = gp_lb (coef_cell g ?n P0) 2 ?n"
    "gp_Ae P 0 ?n = gp_Ae (coef_cell g ?n P0) 0 ?n" "gp_Ae P 1 ?n = gp_Ae (coef_cell g ?n P0) 1 ?n"
    "gp_Ae P 2 ?n = gp_Ae (coef_cell g ?n P0) 2 ?n" "gp_Ab P 0 ?n = gp_Ab (coef_cell g ?n P0) 0 ?n"
    "gp_Ab P 1 ?n = gp_Ab (coef_cell g ?n P0) 1 ?n" "gp_Ab P 2 ?n = gp_Ab (coef_cell g ?n P0) 2 ?n"
    "gp_dV P ?n = gp_dV (coef_cell g ?n P0) ?n"
    unfolding P_def
    by (rule at[of "\<lambda>P. gp_le P 0"] at[of "\<lambda>P. gp_le P 1"] at[of "\<lambda>P. gp_le P 2"] at[of "\<lambda>P. gp_lb P 0"] at[of "\<lambda>P. gp_lb P 1"]
        at[of "\<lambda>P. gp_lb P 2"] at[of "\<lambda>P. gp_Ae P 0"] at[of "\<lambda>P. gp_Ae P 1"] at[of "\<lambda>P. gp_Ae P 2"] at[of "\<lambda>P. gp_Ab P 0"]
        at[of "\<lambda>P. gp_Ab P 1"] at[of "\<lambda>P. gp_Ab P 2"] at[of gp_dV];
        simp add: coef_cell_def Let_def set_at_def)+
  note d = coef_cell_def Let_def set_at_def p c radius_def theta_def by_phi_def o(2) on_axis_def
    r_def r_m_def rs_def rs_p_def th_def th_m_def ths_def ths_p_def
  show "gp_le P 0 ?n = rs_p - rs" "gp_le P 1 ?n = rs * (ths_p - ths)" "gp_le P 2 ?n = rs * sin ths"
    "gp_lb P 0 ?n = r - r_m" "gp_lb P 1 ?n = r * (th - th_m)" "gp_lb P 2 ?n = r * sin th"
    "gp_Ae P 0 ?n = (if on_axis g j then r * r * (1 - cos (g_delta g ! 1 / 2)) else r * r * (cos th_m - cos th))"
    "gp_Ae P 1 ?n = (r\<^sup>2 - r_m\<^sup>2) / 2 * sin th" "gp_Ae P 2 ?n = (r\<^sup>2 - r_m\<^sup>2) / 2 * (th - th_m)"
    "gp_Ab P 0 ?n = rs * rs * (cos ths - cos ths_p)"
    "gp_Ab P 1 ?n = (if on_axis g j then TINY_f else (rs_p\<^sup>2 - rs\<^sup>2) / 2 * sin ths)"
    "gp_Ab P 2 ?n = (rs_p\<^sup>2 - rs\<^sup>2) / 2 * g_delta g ! 1"
    unfolding e by (simp_all add: d del: One_nat_def)
  have dd: "g_delta g ! 0 * g_delta g ! 1 \<noteq> 0" using o(10,11) by simp
  show "gp_dV P ?n * (g_delta g ! 0 * g_delta g ! 1) = (if on_axis g j
      then (r ^ 3 - r_m ^ 3) / 3 * (2 * (1 - cos (g_delta g ! 1 / 2))) else (r ^ 3 - r_m ^ 3) / 3 * (cos th_m - cos th))"
    unfolding e using dd by (simp add: d del: One_nat_def) (auto simp: algebra_simps)
qed


subsection \<open>The areas of a sphere\<close>

text \<open>A grid from pole to pole.\<close>

definition pole_to_pole :: "Grid \<Rightarrow> bool" where
  "pole_to_pole g = (plane_ok g \<and> g_lower g ! 1 = 0 \<and> g_delta g ! 1 * of_int (nn g 1) = pi)"

lemma pole_to_poleD:
  assumes "pole_to_pole g"
  shows "plane_ok g" "x_edge g 1 (gd g 1 + k) = g_delta g ! 1 * of_int k" "x_edge g 1 (gd g 1 + nn g 1) = pi"
    and "0 \<le> k \<Longrightarrow> k \<le> nn g 1 \<Longrightarrow> on_axis g (gd g 1 + k) = (k = 0 \<or> k = nn g 1)"
proof -
  let ?d = "g_delta g ! 1"
  have p: "plane_ok g" "g_lower g ! 1 = 0" "?d * of_int (nn g 1) = pi" using assms by (simp_all add: pole_to_pole_def)
  show "plane_ok g" by (rule p(1))
  have d: "0 < ?d" using plane_okD[OF p(1)] by simp
  have x: "x_edge g 1 (gd g 1 + k) = ?d * of_int k" for k by (simp add: x_edge_def p(2) del: One_nat_def)
  show "x_edge g 1 (gd g 1 + k) = ?d * of_int k" "x_edge g 1 (gd g 1 + nn g 1) = pi" using x p(3) by simp_all
  show "on_axis g (gd g 1 + k) = (k = 0 \<or> k = nn g 1)" if "0 \<le> k" "k \<le> nn g 1"
  proof -
    have z: "(\<bar>?d * of_int z\<bar> < 0.1 * ?d) = (z = 0)" for z :: int
      using d by (auto simp: abs_mult)
    have n: "at_north g (x_edge g 1 (gd g 1 + k)) = (k = 0)"
      unfolding at_north_def x by (rule z)
    have e: "x_edge g 1 (gd g 1 + k) - pi = ?d * of_int (k - nn g 1)"
      unfolding x by (simp add: p(3)[symmetric] algebra_simps del: One_nat_def)
    have "at_south g (x_edge g 1 (gd g 1 + k)) = (k = nn g 1)"
      unfolding at_south_def e z by simp
    then show ?thesis using n by (simp add: on_axis_def)
  qed
qed

lemma sum_caps:
  fixes f :: "nat \<Rightarrow> real"
  assumes "0 < n" "f 0 = c" "f n = c" "\<And>k. 0 < k \<Longrightarrow> k < n \<Longrightarrow> f k = h (k - 1) - h k"
  shows "(\<Sum>k \<le> n. f k) = 2 * c + h 0 - h (n - 1)"
proof -
  obtain m where m: "n = Suc m" using assms(1) by (cases n) auto
  have "(\<Sum>k \<le> n. f k) = f 0 + ((\<Sum>k < m. f (Suc k)) + f n)"
    unfolding m sum.atMost_shift by simp
  also have "(\<Sum>k < m. f (Suc k)) = (\<Sum>k < m. h k - h (Suc k))"
    by (intro sum.cong) (simp_all add: assms(4) m)
  also have "\<dots> = h 0 - h m" by (rule sum_lessThan_telescope')
  finally show ?thesis using assms(2,3) m by simp
qed

lemma sphere_areas:
  fixes i :: int and P0 :: grid_ptrs
  assumes "pole_to_pole g" "0 \<le> i" "i < nn g 0 + 2 * gd g 0"
  defines "P \<equiv> compute_coef g P0" and "N \<equiv> nat (nn g 1)" and "r \<equiv> exp (x_mid g 0 i)" and "r_m \<equiv> exp (x_mid g 0 (i - 1))"
  shows "(\<Sum>k < N. gp_Ab P 0 (node g i (gd g 1 + int k))) = 2 * (exp (x_edge g 0 i))\<^sup>2"
    and "(\<Sum>k \<le> N. gp_Ae P 0 (node g i (gd g 1 + int k))) = 2 * r\<^sup>2"
    and "(\<Sum>k \<le> N. gp_dV P (node g i (gd g 1 + int k)) * (g_delta g ! 0 * g_delta g ! 1))
      = (r ^ 3 - r_m ^ 3) / 3 * (4 - 2 * cos (g_delta g ! 1 / 2))"
proof -
  let ?G = "gd g 1" and ?d = "g_delta g ! 1"
  note p = pole_to_poleD[OF assms(1)]
  note o = plane_okD[OF p(1)]
  have N: "int N = nn g 1" using o(7) by (simp add: N_def)
  then have N: "int N = nn g 1" "0 < N" using o(7) by linarith+
  have on: "on_plane g i (?G + int k)" if "k \<le> N" for k
    using assms(2,3) that N(1) o(5) by (simp add: on_plane_def del: of_nat_nat)
  note c = coef_node[OF p(1) on, where ?P0.0 = P0, folded P_def]
  have "(\<Sum>k < N. gp_Ab P 0 (node g i (?G + int k)))
      = (\<Sum>k < N. (exp (x_edge g 0 i))\<^sup>2 * (cos (x_edge g 1 (?G + int k)) - cos (x_edge g 1 (?G + int (Suc k)))))"
    by (intro sum.cong) ((simp add: c(10) power2_eq_square add.assoc del: One_nat_def)+, simp add: ac_simps)
  also have "\<dots> = (exp (x_edge g 0 i))\<^sup>2 * (\<Sum>k < N. cos (x_edge g 1 (?G + int k)) - cos (x_edge g 1 (?G + int (Suc k))))"
    by (simp only: sum_distrib_left)
  also have "(\<Sum>k < N. cos (x_edge g 1 (?G + int k)) - cos (x_edge g 1 (?G + int (Suc k))))
      = cos (x_edge g 1 (?G + int 0)) - cos (x_edge g 1 (?G + int N))"
    by (rule sum_lessThan_telescope'[where f = "\<lambda>k. cos (x_edge g 1 (?G + int k))"])
  also have "\<dots> = 2" using p(2)[of 0] p(3) N(1) by (simp del: One_nat_def)
  finally show "(\<Sum>k < N. gp_Ab P 0 (node g i (?G + int k))) = 2 * (exp (x_edge g 0 i))\<^sup>2" by simp
  have ax: "on_axis g (?G + int k) = (k = 0 \<or> k = N)" if "k \<le> N" for k
    using p(4)[of "int k"] that N(1) by auto
  have half: "cos (x_mid g 1 ?G) = cos (?d / 2)" "cos (x_mid g 1 (?G + int (N - 1))) = - cos (?d / 2)"
  proof -
    show "cos (x_mid g 1 ?G) = cos (?d / 2)" using p(2)[of 0] by (simp add: x_mid_edge del: One_nat_def)
    have "x_mid g 1 (?G + int (N - 1)) = pi - ?d / 2"
      using p(2)[of "int (N - 1)"] p(3) p(2)[of "nn g 1"] N
      by (simp add: x_mid_edge algebra_simps del: One_nat_def)
    then show "cos (x_mid g 1 (?G + int (N - 1))) = - cos (?d / 2)" by simp
  qed
  have pred: "?G + int k - 1 = ?G + int (k - 1)" if "0 < k" for k using that by simp
  let ?v = "(r ^ 3 - r_m ^ 3) / 3" and ?x = "\<lambda>k. cos (x_mid g 1 (?G + int k - 1)) - cos (x_mid g 1 (?G + int k))"
  have A: "gp_Ae P 0 (node g i (?G + int k)) = (if k = 0 \<or> k = N then r\<^sup>2 * (1 - cos (?d / 2)) else r\<^sup>2 * ?x k)"
    and V: "gp_dV P (node g i (?G + int k)) * (g_delta g ! 0 * g_delta g ! 1)
      = (if k = 0 \<or> k = N then ?v * (2 * (1 - cos (?d / 2))) else ?v * ?x k)" if "k \<le> N" for k
    using c(7)[OF that] c(13)[OF that] ax[OF that] by (simp_all add: r_def r_m_def power2_eq_square del: One_nat_def)
  have "(\<Sum>k \<le> N. gp_Ae P 0 (node g i (?G + int k))) = 2 * (r\<^sup>2 * (1 - cos (?d / 2)))
      + r\<^sup>2 * cos (x_mid g 1 (?G + int 0)) - r\<^sup>2 * cos (x_mid g 1 (?G + int (N - 1)))"
    by (rule sum_caps[OF N(2), where h = "\<lambda>k. r\<^sup>2 * cos (x_mid g 1 (?G + int k))"])
       (use A[of 0] in \<open>simp_all add: A pred right_diff_distrib N(2) del: One_nat_def\<close>)
  then show "(\<Sum>k \<le> N. gp_Ae P 0 (node g i (?G + int k))) = 2 * r\<^sup>2"
    by (simp add: half right_diff_distrib del: One_nat_def)
  have "(\<Sum>k \<le> N. gp_dV P (node g i (?G + int k)) * (g_delta g ! 0 * g_delta g ! 1)) = 2 * (?v * (2 * (1 - cos (?d / 2))))
      + ?v * cos (x_mid g 1 (?G + int 0)) - ?v * cos (x_mid g 1 (?G + int (N - 1)))"
    by (rule sum_caps[OF N(2), where h = "\<lambda>k. ?v * cos (x_mid g 1 (?G + int k))"])
       (use V[of 0] in \<open>simp_all add: V pred right_diff_distrib N(2) del: One_nat_def\<close>)
  then show "(\<Sum>k \<le> N. gp_dV P (node g i (?G + int k)) * (g_delta g ! 0 * g_delta g ! 1)) = ?v * (4 - 2 * cos (?d / 2))"
    by (simp add: half right_diff_distrib del: One_nat_def) (simp add: field_simps)
qed


subsection \<open>Properties\<close>

text \<open>
  C19.  Spherical and Cartesian coordinates are inverse to each other away from the origin and
  the polar axis, and turning a vector into the local basis and back, at any point, gives the
  vector.
\<close>

theorem sph_coordinates:
  assumes "length x = 3" "length v = 3"
  shows "(x \<noteq> [0, 0, 0] \<longrightarrow> coord_to_cart (coord_from_cart x) = x)
    \<and> (0 < x ! 1 \<and> x ! 1 < pi \<and> - pi < x ! 2 \<and> x ! 2 \<le> pi \<longrightarrow> coord_from_cart (coord_to_cart x) = x)
    \<and> vec_from_cart (vec_to_cart v x) x = v \<and> vec_to_cart (vec_from_cart v x) x = v"
  using cart_round[OF assms(1)] sph_round[OF assms(1)] vec_round[OF assms(2)] by blast

theorem sph_coordinates_witness:
  "coord_to_cart (coord_from_cart [3, 0, 4]) = [3, 0, 4] \<and> coord_from_cart (coord_to_cart [2, 1, 1]) = [2, 1, 1]
    \<and> vec_from_cart (vec_to_cart [1, 2, 3] [2, 1, 1]) [2, 1, 1] = [1, 2, 3]"
  using sph_coordinates[of "[3, 0, 4]" "[1, 2, 3]"] sph_coordinates[of "[2, 1, 1]" "[1, 2, 3]"] pi_ge_two by simp

text \<open>
  C20.  On a grid from pole to pole, the tabulated areas of a column of cells tile the sphere:
  those of the magnetic faces and those of the electric faces add up to twice the square of
  the radius.  The volumes do not: the two cells at the poles count double, and a shell adds up to
  more than its volume.
\<close>

theorem sphere_tiled:
  assumes "pole_to_pole g" "0 \<le> i" "i < nn g 0 + 2 * gd g 0" "P = compute_coef g P0" "N = nat (nn g 1)"
    and "r = exp (x_mid g 0 i)" "r_m = exp (x_mid g 0 (i - 1))"
  shows "(\<Sum>k < N. gp_Ab P 0 (node g i (gd g 1 + int k))) = 2 * (exp (x_edge g 0 i))\<^sup>2
    \<and> (\<Sum>k \<le> N. gp_Ae P 0 (node g i (gd g 1 + int k))) = 2 * r\<^sup>2
    \<and> (\<Sum>k \<le> N. gp_dV P (node g i (gd g 1 + int k)) * (g_delta g ! 0 * g_delta g ! 1))
      = 2 * (r ^ 3 - r_m ^ 3) / 3 + 2 * (r ^ 3 - r_m ^ 3) / 3 * (1 - cos (g_delta g ! 1 / 2))"
proof -
  have "(r ^ 3 - r_m ^ 3) / 3 * (4 - 2 * cos (g_delta g ! 1 / 2))
      = 2 * (r ^ 3 - r_m ^ 3) / 3 + 2 * (r ^ 3 - r_m ^ 3) / 3 * (1 - cos (g_delta g ! 1 / 2))"
    by (simp add: field_simps)
  then show ?thesis
    using sphere_areas[OF assms(1-3), of P0] unfolding assms(4-7) by (simp only:)
qed

definition zero_tables :: grid_ptrs where
  "zero_tables = \<lparr>gp_le = \<lambda>_ _. 0, gp_lb = \<lambda>_ _. 0, gp_Ae = \<lambda>_ _. 0, gp_Ab = \<lambda>_ _. 0, gp_dV = \<lambda>_. 0\<rparr>"

definition ball_grid :: Grid where
  "ball_grid = make_grid [4, 4] [1, 1] [1, pi] [0, 0]"

lemma ball_grid_simps [simp]:
  "g_dims ball_grid = [6, 6]" "g_N ball_grid = [4, 4]" "g_guard ball_grid = [1, 1]" "g_dim ball_grid = 2"
  "g_lower ball_grid = [0, 0]" "g_delta ball_grid = [1 / 4, pi / 4]"
  by (simp_all add: ball_grid_def make_grid_def g_dim_def)

lemma ball_grid_plane: "plane_ok ball_grid"
proof -
  have "grid_ok ball_grid"
    by (auto simp: grid_ok_def ball_grid_def make_grid_def g_dim_def less_Suc_eq)
  then show ?thesis by (simp add: plane_ok_def good_extent_def extent_def)
qed

theorem sphere_tiled_witness:
  "(\<Sum>k < 4. gp_Ab (compute_coef ball_grid zero_tables) 0 (node ball_grid 2 (1 + int k))) = 2 * (exp (x_edge ball_grid 0 2))\<^sup>2"
proof -
  have p: "pole_to_pole ball_grid" using ball_grid_plane by (simp add: pole_to_pole_def)
  have i: "(0 :: int) \<le> 2" "2 < nn ball_grid 0 + 2 * gd ball_grid 0" by simp_all
  have "4 = nat (nn ball_grid 1)" "gd ball_grid 1 = 1" by simp_all
  then show ?thesis using sphere_tiled[OF p i refl _ refl refl, of 4 zero_tables] by (simp only:)
qed

end
