(* ===== verification/SphSolver.thy ===== *)
theory SphSolver
  imports SphGrid
begin

text \<open>
  The field solver on a spherical grid of two dimensions:
  \<open>src/systems/field_solver_sph_impl.hpp\<close> with the base class of
  \<open>src/systems/field_solver_base_impl.hpp\<close>.  The kernels are the integral form of Maxwell's
  equations: circulations along the edges over the areas of \<open>SphGrid\<close>.  \<open>send_guard\<close> is
  \<open>domain_comm::send_guard_cells\<close>, or the identity without a \<open>domain_comm\<close>.
\<close>

subsection \<open>The kernels\<close>

definition compute_double_circ :: "Grid \<Rightarrow> grid_ptrs \<Rightarrow> scalar \<Rightarrow> vfield \<Rightarrow> vfield \<Rightarrow> vfield" where
  "compute_double_circ g gp coef b result =
     (if g_dim g \<noteq> 2 then result
      else host_loop (extent g) (\<lambda>idx result.
        let ext = extent g; pos = get_pos ext idx
        in if is_in_bound g pos then
          (let idx_mx = col_dec ext 0 idx 1; idx_my = col_dec ext 1 idx 1;
               idx_px = col_inc ext 0 idx 1; idx_py = col_inc ext 1 idx 1;
               idx_pymx = col_dec ext 0 (col_inc ext 1 idx 1) 1; idx_pxmy = col_dec ext 1 (col_inc ext 0 idx 1) 1;
               result = set_at result 0 idx (coef *
                 (gp_le gp 2 idx_py * circ2 b (gp_lb gp) idx_pymx idx idx_py idx_py / gp_Ae gp 2 idx_py
                  - gp_le gp 2 idx * circ2 b (gp_lb gp) idx_mx idx_my idx idx / gp_Ae gp 2 idx) / gp_Ab gp 0 idx);
               result = set_at result 1 idx (coef *
                 (gp_le gp 2 idx * circ2 b (gp_lb gp) idx_mx idx_my idx idx / gp_Ae gp 2 idx
                  - gp_le gp 2 idx_px * circ2 b (gp_lb gp) idx idx_pxmy idx_px idx_px / gp_Ae gp 2 idx_px) / gp_Ab gp 1 idx);
               result = (if at_north g (coord_stagger g 1 (pos ! 1) 1) then set_at result 1 idx 0 else result)
           in set_at result 2 idx (coef *
                (gp_le gp 0 idx * circ0 b (gp_lb gp) idx_my idx / gp_Ae gp 0 idx_py
                 - gp_le gp 0 idx_py * circ0 b (gp_lb gp) idx idx_py / gp_Ae gp 0 idx
                 + gp_le gp 1 idx_px * circ1 b (gp_lb gp) idx idx_px / gp_Ae gp 1 idx_px
                 - gp_le gp 1 idx * circ1 b (gp_lb gp) idx_mx idx / gp_Ae gp 1 idx) / gp_Ab gp 2 idx))
          else result) result)"

definition compute_implicit_rhs :: "Grid \<Rightarrow> grid_ptrs \<Rightarrow> scalar \<Rightarrow> scalar \<Rightarrow> vfield \<Rightarrow> vfield \<Rightarrow> vfield \<Rightarrow> vfield" where
  "compute_implicit_rhs g gp beta dt e j result =
     (if g_dim g \<noteq> 2 then result
      else host_loop (extent g) (\<lambda>idx result.
        let ext = extent g; pos = get_pos ext idx
        in if is_in_bound g pos then
          (let idx_py = col_inc ext 1 idx 1; idx_px = col_inc ext 0 idx 1; le = gp_le gp;
               result = add_at result 0 idx (- dt * (circ0 e le idx idx_py - dt * beta * circ0 j le idx idx_py) / gp_Ab gp 0 idx);
               result = add_at result 1 idx (- dt * (circ1 e le idx idx_px - dt * beta * circ1 j le idx idx_px) / gp_Ab gp 1 idx);
               result = (if at_north g (coord_stagger g 1 (pos ! 1) 1) then set_at result 1 idx 0 else result)
           in add_at result 2 idx (- dt * (circ2 e le idx idx idx_px idx_py
                - dt * beta * circ2 j le idx idx idx_px idx_py) / gp_Ab gp 2 idx))
          else result) result)"

text \<open>The boundary conditions on the axis, one column of constant radius after the other.\<close>

definition axis_e_north :: "Grid \<Rightarrow> i32 \<Rightarrow> vfield \<Rightarrow> vfield" where
  "axis_e_north g n0 e =
     (let ext = extent g; n1_0 = g_guard g ! 1
      in if at_north g (coord_stagger g 1 n1_0 1)
         then (let idx = col_to_linear ext [n0, n1_0]; e = set_at e 2 idx 0
               in set_at e 1 (col_dec ext 1 idx 1) (e 1 idx))
         else e)"

definition axis_e_south :: "Grid \<Rightarrow> i32 \<Rightarrow> vfield \<Rightarrow> vfield" where
  "axis_e_south g n0 e =
     (let ext = extent g; n1_pi = g_dims g ! 1 - g_guard g ! 1
      in if at_south g (coord_stagger g 1 n1_pi 1)
         then (let idx = col_to_linear ext [n0, n1_pi]; e = set_at e 2 idx 0
               in set_at e 1 idx (e 1 (col_dec ext 1 idx 1)))
         else e)"

definition axis_e_col :: "Grid \<Rightarrow> i32 \<Rightarrow> vfield \<Rightarrow> vfield" where
  "axis_e_col g n0 e = axis_e_south g n0 (axis_e_north g n0 e)"

definition axis_boundary_e :: "Grid \<Rightarrow> vfield \<Rightarrow> vfield" where
  "axis_boundary_e g e = foldl (\<lambda>e n0. axis_e_col g (word_of_int n0) e) e [0..uint (g_dims g ! 0) - 1]"

definition axis_b_north :: "Grid \<Rightarrow> i32 \<Rightarrow> vfield \<Rightarrow> vfield" where
  "axis_b_north g n0 b =
     (let ext = extent g; n1_0 = g_guard g ! 1
      in if at_north g (coord_stagger g 1 n1_0 1)
         then (let idx = col_to_linear ext [n0, n1_0]; b = set_at b 1 idx 0;
                   b = set_at b 2 (col_dec ext 1 idx 1) (b 2 idx)
               in set_at b 0 (col_dec ext 1 idx 1) (b 0 idx))
         else b)"

definition axis_b_south :: "Grid \<Rightarrow> i32 \<Rightarrow> vfield \<Rightarrow> vfield" where
  "axis_b_south g n0 b =
     (let ext = extent g; n1_pi = g_dims g ! 1 - g_guard g ! 1
      in if at_south g (coord_stagger g 1 n1_pi 1)
         then (let idx = col_to_linear ext [n0, n1_pi]; b = set_at b 1 idx 0;
                   b = set_at b 2 idx (b 2 (col_dec ext 1 idx 1))
               in set_at b 0 idx (b 0 (col_dec ext 1 idx 1)))
         else b)"

definition axis_b_col :: "Grid \<Rightarrow> i32 \<Rightarrow> vfield \<Rightarrow> vfield" where
  "axis_b_col g n0 b = axis_b_south g n0 (axis_b_north g n0 b)"

definition axis_boundary_b :: "Grid \<Rightarrow> vfield \<Rightarrow> vfield" where
  "axis_boundary_b g b = foldl (\<lambda>b n0. axis_b_col g (word_of_int n0) b) b [0..uint (g_dims g ! 0) - 1]"

text \<open>The damping layer at large radius; the radial component of \<open>B\<close> is not damped.\<close>

definition mul_at :: "vfield \<Rightarrow> nat \<Rightarrow> i64 \<Rightarrow> scalar \<Rightarrow> vfield" where
  "mul_at f c idx k = f(c := (f c)(idx := f c idx * k))"

definition damp_cell :: "Grid \<Rightarrow> i32 \<Rightarrow> scalar \<Rightarrow> i32 \<Rightarrow> vfield \<times> vfield \<Rightarrow> int \<Rightarrow> vfield \<times> vfield" where
  "damp_cell g damping_length damping_coef n1 = (\<lambda>(e, b) i.
     let n0 = g_dims g ! 0 - damping_length + word_of_int i; idx = col_to_linear (extent g) [n0, n1];
         lambda = 1 - damping_coef * (of_int i / of_int (sint (damping_length - 1))) ^ 3
     in (mul_at (mul_at (mul_at e 0 idx lambda) 1 idx lambda) 2 idx lambda,
         mul_at (mul_at b 1 idx lambda) 2 idx lambda))"

definition damping_boundary :: "Grid \<Rightarrow> i32 \<Rightarrow> scalar \<Rightarrow> vfield \<times> vfield \<Rightarrow> vfield \<times> vfield" where
  "damping_boundary g damping_length damping_coef eb =
     foldl (\<lambda>eb n1. foldl (damp_cell g damping_length damping_coef (word_of_int n1)) eb
         [0..sint (damping_length - 1) - 1])
       eb [0..uint (g_dims g ! 1) - 1]"

definition compute_b_update_explicit :: "Grid \<Rightarrow> grid_ptrs \<Rightarrow> scalar \<Rightarrow> vfield \<Rightarrow> vfield \<Rightarrow> vfield" where
  "compute_b_update_explicit g gp dt e B =
     (if g_dim g \<noteq> 2 then B
      else host_loop (extent g) (\<lambda>idx B.
        let ext = extent g; pos = get_pos ext idx
        in if is_in_bound g pos then
          (let idx_py = col_inc ext 1 idx 1; idx_px = col_inc ext 0 idx 1;
               B = add_at B 0 idx (- dt * circ0 e (gp_le gp) idx idx_py / gp_Ab gp 0 idx);
               B = add_at B 1 idx (- dt * circ1 e (gp_le gp) idx idx_px / gp_Ab gp 1 idx);
               B = (if at_north g (coord_stagger g 1 (pos ! 1) 1) then set_at B 1 idx 0 else B)
           in add_at B 2 idx (- dt * circ2 e (gp_le gp) idx idx idx_px idx_py / gp_Ab gp 2 idx))
          else B) B)"

definition compute_e_update_explicit :: "Grid \<Rightarrow> grid_ptrs \<Rightarrow> scalar \<Rightarrow> vfield \<Rightarrow> vfield \<Rightarrow> vfield \<Rightarrow> vfield" where
  "compute_e_update_explicit g gp dt b j X =
     (if g_dim g \<noteq> 2 then X
      else host_loop (extent g) (\<lambda>idx X.
        let ext = extent g; pos = get_pos ext idx; th = coord_stagger g 1 (pos ! 1) 1;
            X = (if is_in_bound g pos then
              (let idx_my = col_dec ext 1 idx 1; idx_mx = col_dec ext 0 idx 1;
                   X = add_at X 0 idx (dt * (circ0 b (gp_lb gp) idx_my idx / gp_Ae gp 0 idx - j 0 idx));
                   X = add_at X 1 idx (dt * (circ1 b (gp_lb gp) idx_mx idx / gp_Ae gp 1 idx - j 1 idx));
                   X = add_at X 2 idx (dt * (circ2 b (gp_lb gp) idx_mx idx_my idx idx / gp_Ae gp 2 idx - j 2 idx))
               in if at_north g th then set_at X 2 idx 0 else X)
              else X)
        in if at_south g th
           then add_at X 0 idx (dt * (circ0 b (gp_lb gp) (col_dec ext 1 idx 1) idx / gp_Ae gp 0 idx - j 0 idx))
           else X) X)"

subsection \<open>Derived fields\<close>

text \<open>The fluxes out of a cell: the numerators of the two divergences.\<close>

definition net_flux_e :: "Grid \<Rightarrow> grid_ptrs \<Rightarrow> vfield \<Rightarrow> i64 \<Rightarrow> scalar" where
  "net_flux_e g gp e idx =
     (let idx_mx = col_dec (extent g) 0 idx 1; idx_my = col_dec (extent g) 1 idx 1
      in e 0 idx * gp_Ae gp 0 idx - e 0 idx_mx * gp_Ae gp 0 idx_mx
         + e 1 idx * gp_Ae gp 1 idx - e 1 idx_my * gp_Ae gp 1 idx_my)"

definition net_flux_b :: "Grid \<Rightarrow> grid_ptrs \<Rightarrow> vfield \<Rightarrow> i64 \<Rightarrow> scalar" where
  "net_flux_b g gp b idx =
     (let idx_px = col_inc (extent g) 0 idx 1; idx_py = col_inc (extent g) 1 idx 1
      in b 0 idx_px * gp_Ab gp 0 idx_px - b 0 idx * gp_Ab gp 0 idx
         + b 1 idx_py * gp_Ab gp 1 idx_py - b 1 idx * gp_Ab gp 1 idx)"

definition at_boundary :: "Grid \<Rightarrow> bool list \<Rightarrow> index_t \<Rightarrow> bool" where
  "at_boundary g is_bd pos =
     (is_bd ! 0 \<and> pos ! 0 = g_guard g ! 0 \<or> is_bd ! 1 \<and> pos ! 0 = g_dims g ! 0 - g_guard g ! 0 - 1
      \<or> is_bd ! 2 \<and> pos ! 1 = g_guard g ! 1 \<or> is_bd ! 3 \<and> pos ! 1 = g_dims g ! 1 - g_guard g ! 1 - 1)"

definition compute_divs_e_b :: "Grid \<Rightarrow> grid_ptrs \<Rightarrow> domain_info option \<Rightarrow> vfield \<Rightarrow> vfield \<Rightarrow> field \<times> field \<Rightarrow> field \<times> field" where
  "compute_divs_e_b g gp comm e b =
     (let is_bd = (case comm of None \<Rightarrow> replicate (2 * g_dim g) True | Some info \<Rightarrow> is_boundary info)
      in host_loop (extent g) (\<lambda>idx (divE, divB).
        let pos = get_pos (extent g) idx; V = gp_dV gp idx * g_delta g ! 0 * g_delta g ! 1
        in if is_in_bound g pos then
             (if at_boundary g is_bd pos then (divE(idx := 0), divB(idx := 0))
              else (divE(idx := net_flux_e g gp e idx / V), divB(idx := net_flux_b g gp b idx / V)))
           else (divE, divB)))"

definition sph_flux_column :: "Grid \<Rightarrow> grid_ptrs \<Rightarrow> vfield \<Rightarrow> field \<Rightarrow> i32 \<Rightarrow> field" where
  "sph_flux_column g gp b fl n0 =
     foldl (\<lambda>fl n1. let idx = col_to_linear (extent g) [n0, word_of_int n1]
         in fl(idx := fl (col_dec (extent g) 1 idx 1) + b 0 idx * gp_Ab gp 0 idx))
       fl [sint (g_guard g ! 1)..uint (g_dims g ! 1 - g_guard g ! 1) - 1]"

definition sph_compute_flux :: "Grid \<Rightarrow> grid_ptrs \<Rightarrow> vfield \<Rightarrow> field \<Rightarrow> field" where
  "sph_compute_flux g gp b fl =
     (if g_dim g = 2
      then foldl (\<lambda>fl n0. sph_flux_column g gp b fl (word_of_int n0)) (\<lambda>_. 0) [0..uint (g_dims g ! 0) - 1]
      else fl)"

subsection \<open>The time step\<close>

record sph_solver = solver_base +
  ss_damping_length :: i32
  ss_damping_coef :: scalar
  ss_tmp_b1 :: vfield
  ss_tmp_b2 :: vfield
  ss_bnew :: vfield

definition sph_solver_init :: "params \<Rightarrow> sph_solver \<Rightarrow> sph_solver \<times> params" where
  "sph_solver_init m s =
     (let (s, m) = solver_base_init m s;
          (dl, m) = get_value_int ''damping_length'' (ss_damping_length s) m;
          (dc, m) = get_value_double ''damping_coef'' (ss_damping_coef s) m
      in (s\<lparr>ss_damping_length := dl, ss_damping_coef := dc\<rparr>, m))"

definition apply_damping :: "Grid \<Rightarrow> domain_info option \<Rightarrow> sph_solver \<Rightarrow> sph_solver" where
  "apply_damping g comm s =
     (if (case comm of None \<Rightarrow> True | Some info \<Rightarrow> is_boundary info ! 1)
      then (let (e, b) = damping_boundary g (ss_damping_length s) (ss_damping_coef s) (fs_E s, fs_B s)
            in s\<lparr>fs_E := e, fs_B := b\<rparr>)
      else s)"

definition update_explicit :: "Grid \<Rightarrow> grid_ptrs \<Rightarrow> (vfield \<Rightarrow> vfield) \<Rightarrow> domain_info option \<Rightarrow> real \<Rightarrow> real \<Rightarrow> sph_solver \<Rightarrow> sph_solver" where
  "update_explicit g gp send_guard comm dt time s =
     (let s = s\<lparr>fs_B := compute_b_update_explicit g gp (if time < TINY_f then 0.5 * dt else dt) (fs_E s) (fs_B s)\<rparr>;
          s = s\<lparr>fs_B := send_guard (fs_B s)\<rparr>;
          s = s\<lparr>fs_B := axis_boundary_b g (fs_B s)\<rparr>;
          s = s\<lparr>fs_E := compute_e_update_explicit g gp dt (fs_B s) (fs_J s) (fs_E s)\<rparr>;
          s = s\<lparr>fs_E := axis_boundary_e g (fs_E s)\<rparr>;
          s = s\<lparr>fs_E := send_guard (fs_E s)\<rparr>
      in apply_damping g comm s)"

text \<open>One round of the iteration: \<open>main\<close> and \<open>alt\<close> are the two buffers, exchanged at the end.\<close>

definition implicit_round ::
  "Grid \<Rightarrow> grid_ptrs \<Rightarrow> (vfield \<Rightarrow> vfield) \<Rightarrow> scalar \<Rightarrow> vfield \<times> vfield \<times> vfield \<Rightarrow> vfield \<times> vfield \<times> vfield" where
  "implicit_round g gp send_guard coef = (\<lambda>(main, alt, bnew).
     let alt = compute_double_circ g gp coef main alt;
         alt = send_guard alt;
         alt = axis_boundary_b g alt
     in (alt, main, vf_add bnew alt))"

definition update_semi_implicit ::
  "Grid \<Rightarrow> grid_ptrs \<Rightarrow> (vfield \<Rightarrow> vfield) \<Rightarrow> domain_info option \<Rightarrow> real \<Rightarrow> real \<Rightarrow> real \<Rightarrow> sph_solver \<Rightarrow> sph_solver" where
  "update_semi_implicit g gp send_guard comm dt alpha beta s =
     (let s = s\<lparr>ss_tmp_b1 := fs_B s\<rparr>;
          s = s\<lparr>ss_tmp_b2 := compute_double_circ g gp (- alpha * beta * dt * dt) (ss_tmp_b1 s) (ss_tmp_b2 s)\<rparr>;
          s = s\<lparr>ss_tmp_b1 := vf_add (ss_tmp_b1 s) (ss_tmp_b2 s)\<rparr>;
          s = s\<lparr>ss_tmp_b1 := send_guard (ss_tmp_b1 s)\<rparr>;
          s = s\<lparr>ss_tmp_b1 := compute_implicit_rhs g gp beta dt (fs_E s) (fs_J s) (ss_tmp_b1 s)\<rparr>;
          s = s\<lparr>ss_tmp_b1 := axis_boundary_b g (ss_tmp_b1 s)\<rparr>;
          s = s\<lparr>ss_bnew := ss_tmp_b1 s\<rparr>;
          (main, alt, bnew) = (implicit_round g gp send_guard (- beta * beta * dt * dt) ^^ 5)
            (ss_tmp_b1 s, ss_tmp_b2 s, ss_bnew s);
          s = s\<lparr>ss_bnew := send_guard bnew\<rparr>;
          main = (\<lambda>c i. alpha * fs_B s c i + beta * ss_bnew s c i);
          s = s\<lparr>ss_tmp_b1 := alt, ss_tmp_b2 := main\<rparr>;
          s = s\<lparr>fs_E := compute_e_update_explicit g gp dt main (fs_J s) (fs_E s)\<rparr>;
          s = s\<lparr>fs_E := axis_boundary_e g (fs_E s)\<rparr>;
          s = s\<lparr>fs_E := send_guard (fs_E s)\<rparr>;
          s = s\<lparr>fs_B := main\<rparr>
      in apply_damping g comm s)"

text \<open>\<open>update\<close> of the base class; \<open>compute_EB_sqr\<close> does nothing on a spherical grid.\<close>

definition sph_update ::
  "Grid \<Rightarrow> grid_ptrs \<Rightarrow> (vfield \<Rightarrow> vfield) \<Rightarrow> domain_info option \<Rightarrow> real \<Rightarrow> u32 \<Rightarrow> real \<Rightarrow> sph_solver \<Rightarrow> sph_solver option" where
  "sph_update g gp send_guard comm dt step time s =
     (let s = (if fs_use_implicit s then update_semi_implicit g gp send_guard comm dt (fs_alpha s) (fs_beta s) s
               else update_explicit g gp send_guard comm dt time s);
          s = total_fields s (fs_B s)
      in if fs_data_interval s = 0 then None
         else if step mod fs_data_interval s = 0 then
           (let s = s\<lparr>fs_flux := sph_compute_flux g gp (fs_B s) (fs_flux s)\<rparr>
            in Some (if fs_compute_divs s
                     then (let (dE, dB) = compute_divs_e_b g gp comm (fs_E s) (fs_B s) (fs_divE s, fs_divB s)
                           in s\<lparr>fs_divE := dE, fs_divB := dB\<rparr>)
                     else s))
         else Some s)"


subsection \<open>The kernels at a node\<close>

text \<open>The grids of the spherical solver: the polar angle is in \<open>[0, pi]\<close>, and starts on the axis or away from it.\<close>

definition sph_ok :: "Grid \<Rightarrow> bool" where
  "sph_ok g = (plane_ok g \<and> (g_lower g ! 1 = 0 \<or> g_delta g ! 1 / 10 \<le> g_lower g ! 1)
     \<and> g_lower g ! 1 + g_delta g ! 1 * of_int (nn g 1) \<le> pi)"

lemma inside_steps:
  assumes "plane_ok g" "inside g i j"
  shows "col_inc (extent g) 0 (node g i j) 1 = node g (i + 1) j" "col_inc (extent g) 1 (node g i j) 1 = node g i (j + 1)"
    "col_dec (extent g) 0 (node g i j) 1 = node g (i - 1) j" "col_dec (extent g) 1 (node g i j) 1 = node g i (j - 1)"
    and "on_plane g i j" "on_plane g (i + 1) j" "on_plane g i (j + 1)" "on_plane g (i - 1) j" "on_plane g i (j - 1)"
proof -
  note o = plane_okD[OF assms(1)]
  show p: "on_plane g i j" "on_plane g (i + 1) j" "on_plane g i (j + 1)" "on_plane g (i - 1) j" "on_plane g i (j - 1)"
    using assms(2) o(4,5) by (auto simp: inside_def on_plane_def)
  show "col_inc (extent g) 0 (node g i j) 1 = node g (i + 1) j" "col_inc (extent g) 1 (node g i j) 1 = node g i (j + 1)"
    "col_dec (extent g) 0 (node g i j) 1 = node g (i - 1) j" "col_dec (extent g) 1 (node g i j) 1 = node g i (j - 1)"
    using node_step[OF assms(1) p(1)] p by simp_all
qed

lemma node_coord:
  assumes "plane_ok g" "on_plane g i j"
  shows "coord_stagger g 1 (get_pos (extent g) (node g i j) ! 1) 1 = x_edge g 1 j"
proof -
  have "- (2 ^ 31) \<le> j" "j < 2 ^ 31" using assms(2) plane_okD(9)[OF assms(1)] by (auto simp: on_plane_def)
  then show ?thesis using node_pos[OF assms] coord_word(1)[of 1 g j] plane_okD(2)[OF assms(1)] by simp
qed

lemma b_update_node:
  fixes g :: Grid and gp :: grid_ptrs and dt :: scalar and e B :: vfield and i j :: int
  assumes "plane_ok g" "on_plane g i j"
  defines "B' \<equiv> compute_b_update_explicit g gp dt e B" and "n \<equiv> node g i j"
  shows "\<not> inside g i j \<Longrightarrow> B' c n = B c n"
    and "inside g i j \<Longrightarrow> B' 0 n = B 0 n - dt * circ0 e (gp_le gp) n (node g i (j + 1)) / gp_Ab gp 0 n"
    and "inside g i j \<Longrightarrow> B' 1 n = (if at_north g (x_edge g 1 j) then 0
      else B 1 n - dt * circ1 e (gp_le gp) n (node g (i + 1) j) / gp_Ab gp 1 n)"
proof -
  let ?G = "\<lambda>idx v c. if is_in_bound g (get_pos (extent g) idx)
    then (if c = 0 then v 0 + - dt * circ0 e (gp_le gp) idx (col_inc (extent g) 1 idx 1) / gp_Ab gp 0 idx
      else if c = 1 then (if at_north g (coord_stagger g 1 (get_pos (extent g) idx ! 1) 1) then 0
          else v 1 + - dt * circ1 e (gp_le gp) idx (col_inc (extent g) 0 idx 1) / gp_Ab gp 1 idx)
      else if c = 2 then v 2 + - dt * circ2 e (gp_le gp) idx idx (col_inc (extent g) 0 idx 1) (col_inc (extent g) 1 idx 1) / gp_Ab gp 2 idx
      else v c) else v c"
  have e: "B' c n = ?G n (\<lambda>c. B c n) c" for c
    unfolding B'_def compute_b_update_explicit_def plane_okD(2)[OF assms(1)] simp_thms if_False
    using node_less[OF assms(1,2), folded n_def]
    by (subst host_loop_pointwise[where G = ?G]) (auto simp: add_at_def set_at_def Let_def)
  note i = node_in_bound[OF assms(1,2), folded inside_def, folded node_pos[OF assms(1,2), folded n_def]]
  show "\<not> inside g i j \<Longrightarrow> B' c n = B c n" unfolding e i by simp
  show "B' 0 n = B 0 n - dt * circ0 e (gp_le gp) n (node g i (j + 1)) / gp_Ab gp 0 n"
    "B' 1 n = (if at_north g (x_edge g 1 j) then 0 else B 1 n - dt * circ1 e (gp_le gp) n (node g (i + 1) j) / gp_Ab gp 1 n)"
    if "inside g i j"
    unfolding e i using that inside_steps[OF assms(1) that, folded n_def] node_coord[OF assms(1,2), folded n_def] by simp_all
qed

lemma e_update_node:
  fixes g :: Grid and gp :: grid_ptrs and dt :: scalar and b J X :: vfield and i j :: int
  assumes "plane_ok g" "inside g i j" "\<not> at_south g (x_edge g 1 j)"
  defines "X' \<equiv> compute_e_update_explicit g gp dt b J X" and "n \<equiv> node g i j"
  shows "X' 0 n = X 0 n + dt * (circ0 b (gp_lb gp) (node g i (j - 1)) n / gp_Ae gp 0 n - J 0 n)"
    and "X' 1 n = X 1 n + dt * (circ1 b (gp_lb gp) (node g (i - 1) j) n / gp_Ae gp 1 n - J 1 n)"
proof -
  let ?th = "\<lambda>idx. coord_stagger g 1 (get_pos (extent g) idx ! 1) 1"
  let ?H = "\<lambda>idx v c. if is_in_bound g (get_pos (extent g) idx)
    then (if c = 0 then v 0 + dt * (circ0 b (gp_lb gp) (col_dec (extent g) 1 idx 1) idx / gp_Ae gp 0 idx - J 0 idx)
      else if c = 1 then v 1 + dt * (circ1 b (gp_lb gp) (col_dec (extent g) 0 idx 1) idx / gp_Ae gp 1 idx - J 1 idx)
      else if c = 2 then (if at_north g (?th idx) then 0 else v 2 + dt * (circ2 b (gp_lb gp) (col_dec (extent g) 0 idx 1)
          (col_dec (extent g) 1 idx 1) idx idx / gp_Ae gp 2 idx - J 2 idx))
      else v c) else v c"
  let ?G = "\<lambda>idx v c. if at_south g (?th idx) \<and> c = 0
    then ?H idx v 0 + dt * (circ0 b (gp_lb gp) (col_dec (extent g) 1 idx 1) idx / gp_Ae gp 0 idx - J 0 idx) else ?H idx v c"
  note st = inside_steps[OF assms(1,2), folded n_def]
  have e: "X' c n = ?G n (\<lambda>c. X c n) c" for c
    unfolding X'_def compute_e_update_explicit_def plane_okD(2)[OF assms(1)] simp_thms if_False
    using node_less[OF assms(1) st(5), folded n_def]
    by (subst host_loop_pointwise[where G = ?G]) (auto simp: add_at_def set_at_def Let_def)
  have i: "is_in_bound g (get_pos (extent g) n)"
    unfolding n_def node_pos[OF assms(1) st(5)] node_in_bound[OF assms(1) st(5)] using assms(2) by (simp add: inside_def)
  show "X' 0 n = X 0 n + dt * (circ0 b (gp_lb gp) (node g i (j - 1)) n / gp_Ae gp 0 n - J 0 n)"
    "X' 1 n = X 1 n + dt * (circ1 b (gp_lb gp) (node g (i - 1) j) n / gp_Ae gp 1 n - J 1 n)"
    unfolding e using i assms(3) st node_coord[OF assms(1) st(5), folded n_def] by simp_all
qed


subsection \<open>The boundary conditions at the inner nodes\<close>

lemma guard_node:
  assumes "plane_ok g"
  shows "col_to_linear (extent g) [word_of_int i, g_guard g ! 1] = node g i (gd g 1)"
    and "col_to_linear (extent g) [word_of_int i, g_dims g ! 1 - g_guard g ! 1] = node g i (nn g 1 + gd g 1)"
proof -
  note o = plane_okD[OF assms]
  have "uint (g_dims g ! 1 - g_guard g ! 1) = nn g 1 + gd g 1" using grid_dims(4)[OF o(1), of 1] o(2) by simp
  then have "word_of_int (nn g 1 + gd g 1) = g_dims g ! 1 - g_guard g ! 1" by (metis word_of_int_uint)
  then show "col_to_linear (extent g) [word_of_int i, g_guard g ! 1] = node g i (gd g 1)"
    "col_to_linear (extent g) [word_of_int i, g_dims g ! 1 - g_guard g ! 1] = node g i (nn g 1 + gd g 1)"
    by (simp_all only: node_def word_of_sint)
qed

lemma set_at_apply: "set_at f c idx v c' n = (if c' = c \<and> n = idx then v else f c' n)"
  by (simp add: set_at_def)

lemma mul_at_apply: "mul_at f c idx k c' n = (if c' = c \<and> n = idx then f c' n * k else f c' n)"
  by (simp add: mul_at_def)

lemma axis_cols:
  assumes "plane_ok g" "inside g i j" "on_plane g k (gd g 1)"
  shows "axis_b_col g (word_of_int k) b c (node g i j)
      = (if c = 1 \<and> i = k \<and> j = gd g 1 \<and> at_north g (x_edge g 1 (gd g 1)) then 0 else b c (node g i j))"
    and "c \<noteq> 2 \<Longrightarrow> axis_e_col g (word_of_int k) e c (node g i j) = e c (node g i j)"
proof -
  note o = plane_okD[OF assms(1)] and gn = guard_node[OF assms(1), of k]
  have p: "on_plane g i j" "on_plane g k (gd g 1 - 1)" "on_plane g k (nn g 1 + gd g 1)" "on_plane g k (nn g 1 + gd g 1 - 1)"
    using inside_on_plane[OF assms(1,2)] assms(3) o(4-7) by (simp_all add: on_plane_def)
  note eq = node_eq[OF assms(1) p(1)]
  have dec: "col_dec (extent g) 1 (node g k (gd g 1)) 1 = node g k (gd g 1 - 1)"
    "col_dec (extent g) 1 (node g k (nn g 1 + gd g 1)) 1 = node g k (nn g 1 + gd g 1 - 1)"
    using node_step(4)[OF assms(1)] assms(3) p by simp_all
  have ne: "node g i j \<noteq> node g k (gd g 1 - 1)" "node g i j \<noteq> node g k (nn g 1 + gd g 1)"
    using assms(2) eq[OF p(2)] eq[OF p(3)] by (auto simp: inside_def)
  have c: "coord_stagger g 1 (g_guard g ! 1) 1 = x_edge g 1 (gd g 1)"
    using coord_word(1)[of 1 g "gd g 1"] o(2,5,7,9) by simp
  have s: "axis_b_south g (word_of_int k) b c (node g i j) = b c (node g i j)"
    "axis_e_south g (word_of_int k) e c (node g i j) = e c (node g i j)" for b e c
    using ne(2) by (simp_all add: axis_b_south_def axis_e_south_def Let_def gn set_at_apply del: One_nat_def)
  show "axis_b_col g (word_of_int k) b c (node g i j)
      = (if c = 1 \<and> i = k \<and> j = gd g 1 \<and> at_north g (x_edge g 1 (gd g 1)) then 0 else b c (node g i j))"
    using eq[OF assms(3)] ne(1) by (simp add: axis_b_col_def s axis_b_north_def Let_def gn dec set_at_apply c del: One_nat_def)
  show "c \<noteq> 2 \<Longrightarrow> axis_e_col g (word_of_int k) e c (node g i j) = e c (node g i j)"
    using ne(1) by (simp add: axis_e_col_def s axis_e_north_def Let_def gn dec set_at_apply c del: One_nat_def)
qed

lemma dims0: "plane_ok g \<Longrightarrow> uint (g_dims g ! 0) = nn g 0 + 2 * gd g 0" "plane_ok g \<Longrightarrow> uint (g_dims g ! 1) = nn g 1 + 2 * gd g 1"
  using plane_okD(12,13)[of g] by (simp_all add: extent_def)

lemma axis_inside:
  assumes "plane_ok g" "inside g i j"
  shows "axis_boundary_b g b c (node g i j) = (if c = 1 \<and> j = gd g 1 \<and> at_north g (x_edge g 1 j) then 0 else b c (node g i j))"
    and "c \<noteq> 2 \<Longrightarrow> axis_boundary_e g e c (node g i j) = e c (node g i j)"
proof -
  note o = plane_okD[OF assms(1)]
  have p: "on_plane g k (gd g 1)" if "k \<in> {0..uint (g_dims g ! 0) - 1}" for k
    using that o(5,7) dims0(1)[OF assms(1)] by (auto simp: on_plane_def)
  have b: "foldl (\<lambda>b n0. axis_b_col g (word_of_int n0) b) b ks c (node g i j)
      = (if c = 1 \<and> i \<in> set ks \<and> j = gd g 1 \<and> at_north g (x_edge g 1 j) then 0 else b c (node g i j))"
    if "set ks \<subseteq> {0..uint (g_dims g ! 0) - 1}" for ks
    using that p by (induction ks rule: rev_induct) (auto simp: axis_cols(1)[OF assms])
  have e: "foldl (\<lambda>e n0. axis_e_col g (word_of_int n0) e) e ks c (node g i j) = e c (node g i j)"
    if "set ks \<subseteq> {0..uint (g_dims g ! 0) - 1}" "c \<noteq> 2" for ks
    using that p by (induction ks rule: rev_induct) (auto simp: axis_cols(2)[OF assms])
  have "i \<in> {0..uint (g_dims g ! 0) - 1}" using assms(2) o(4) dims0(1)[OF assms(1)] by (auto simp: inside_def)
  then show "axis_boundary_b g b c (node g i j) = (if c = 1 \<and> j = gd g 1 \<and> at_north g (x_edge g 1 j) then 0 else b c (node g i j))"
    unfolding axis_boundary_b_def by (subst b) simp_all
  show "c \<noteq> 2 \<Longrightarrow> axis_boundary_e g e c (node g i j) = e c (node g i j)"
    unfolding axis_boundary_e_def by (subst e) simp_all
qed

text \<open>The damping layer leaves the nodes below it and the zeros of \<open>B\<close>.\<close>

lemma foldl_keeps: "(\<And>x s. x \<in> set xs \<Longrightarrow> P s \<Longrightarrow> P (f s x)) \<Longrightarrow> P s \<Longrightarrow> P (foldl f s xs)"
  by (induction xs arbitrary: s) auto

lemma damp_cell_node:
  assumes "plane_ok g" "1 \<le> sint L" "sint L \<le> nn g 0 + 2 * gd g 0" "0 \<le> k" "k < sint L - 1" "on_plane g 0 j'"
    and "on_plane g i j" "i < nn g 0 + 2 * gd g 0 - sint L"
  shows "fst (damp_cell g L coef (word_of_int j') (e, b) k) c (node g i j) = e c (node g i j)"
    and "snd (damp_cell g L coef (word_of_int j') (e, b) k) c (node g i j) = b c (node g i j)"
proof -
  note o = plane_okD[OF assms(1)]
  let ?n0 = "nn g 0 + 2 * gd g 0 - sint L + k"
  have "g_dims g ! 0 = word_of_int (nn g 0 + 2 * gd g 0)" by (metis dims0(1)[OF assms(1)] word_of_int_uint)
  then have "g_dims g ! 0 - L + word_of_int k = word_of_int ?n0" by simp
  then have idx: "col_to_linear (extent g) [g_dims g ! 0 - L + word_of_int k, word_of_int j'] = node g ?n0 j'"
    by (simp only: node_def)
  have "on_plane g ?n0 j'" using assms(3-6) by (auto simp: on_plane_def)
  then have "node g i j \<noteq> node g ?n0 j'" using node_eq[OF assms(1,7)] assms(4,8) by auto
  then show "fst (damp_cell g L coef (word_of_int j') (e, b) k) c (node g i j) = e c (node g i j)"
    "snd (damp_cell g L coef (word_of_int j') (e, b) k) c (node g i j) = b c (node g i j)"
    by (simp_all add: damp_cell_def Let_def idx mul_at_apply del: of_int_add of_int_diff)
qed

lemma damping_below:
  assumes "plane_ok g" "1 \<le> sint L" "sint L \<le> nn g 0 + 2 * gd g 0" "on_plane g i j" "i < nn g 0 + 2 * gd g 0 - sint L"
    and "damping_boundary g L coef (e, b) = (e', b')"
  shows "e' c (node g i j) = e c (node g i j)" "b' c (node g i j) = b c (node g i j)"
proof -
  let ?P = "\<lambda>eb. fst eb c (node g i j) = e c (node g i j) \<and> snd eb c (node g i j) = b c (node g i j)"
  have L: "sint (L - 1) = sint L - 1"
    using assms(2,3) plane_okD(8)[OF assms(1)] sint_of_int32[of "sint L - 1"] by simp
  have "?P (damp_cell g L coef (word_of_int j') eb k)"
    if "j' \<in> set [0..uint (g_dims g ! 1) - 1]" "k \<in> set [0..sint (L - 1) - 1]" "?P eb" for j' k eb
  proof -
    obtain x y where "eb = (x, y)" by (cases eb)
    moreover have "on_plane g 0 j'" using that(1) dims0[OF assms(1)] plane_okD(4,6)[OF assms(1)] by (auto simp: on_plane_def)
    ultimately show ?thesis
      using damp_cell_node[OF assms(1-3) _ _ _ assms(4,5), of k j' coef x y c] L that(2,3) by auto
  qed
  then have "?P (foldl (damp_cell g L coef (word_of_int j')) eb [0..sint (L - 1) - 1])"
    if "j' \<in> set [0..uint (g_dims g ! 1) - 1]" "?P eb" for j' eb
    using that by (intro foldl_keeps[where P = ?P]) blast+
  then have "?P (damping_boundary g L coef (e, b))"
    unfolding damping_boundary_def by (rule foldl_keeps[where P = ?P]) auto
  then show "e' c (node g i j) = e c (node g i j)" "b' c (node g i j) = b c (node g i j)" by (simp_all add: assms(6))
qed

lemma damping_zero:
  assumes "damping_boundary g L coef (e, b) = (e', b')" "b c n = 0"
  shows "b' c n = 0"
proof -
  have "snd (damping_boundary g L coef (e, b)) c n = 0"
    unfolding damping_boundary_def
    by (rule foldl_keeps[where P = "\<lambda>eb. snd eb c n = 0"], rule foldl_keeps[where P = "\<lambda>eb. snd eb c n = 0"])
       (auto simp: damp_cell_def Let_def mul_at_apply assms(2))
  then show ?thesis by (simp add: assms(1))
qed


subsection \<open>The areas do not vanish\<close>

lemma sph_okD:
  assumes "sph_ok g" "inside g i j"
  shows "0 \<le> x_edge g 1 j" "x_edge g 1 (j + 1) \<le> pi" "x_edge g 1 j < pi" "\<not> at_south g (x_edge g 1 j)"
    and "at_north g (x_edge g 1 j) = (x_edge g 1 j = 0)" "at_north g (x_edge g 1 j) \<Longrightarrow> j = gd g 1"
    and "inside g i (j - 1) \<Longrightarrow> g_delta g ! 1 \<le> x_edge g 1 j"
proof -
  let ?d = "g_delta g ! 1" and ?l = "g_lower g ! 1" and ?G = "gd g 1" and ?N = "nn g 1"
  have a: "plane_ok g" "?l = 0 \<or> ?d / 10 \<le> ?l" "?l + ?d * of_int ?N \<le> pi" using assms(1) by (simp_all add: sph_ok_def)
  have d: "0 < ?d" using plane_okD[OF a(1)] by simp
  have l: "0 \<le> ?l" using a(2) d by auto
  obtain k where k: "j = ?G + k" "0 \<le> k" "k + 1 \<le> ?N"
    using assms(2) by (intro that[of "j - ?G"]) (auto simp: inside_def)
  have x: "x_edge g 1 j = ?l + ?d * of_int k" by (simp add: x_edge_def k(1) del: One_nat_def)
  have "of_int (k + 1) \<le> (of_int ?N :: real)" using k(3) by (simp only: of_int_le_iff)
  then have m: "0 \<le> ?d * of_int k" "?d * of_int (k + 1) \<le> ?d * of_int ?N"
    using d k(2) by (simp_all only: mult_le_cancel_left_pos) simp
  show "0 \<le> x_edge g 1 j" using x l m(1) by simp
  have u: "x_edge g 1 j + ?d \<le> pi" using x m(2) a(3) by (simp add: algebra_simps)
  then show "x_edge g 1 (j + 1) \<le> pi" "x_edge g 1 j < pi" using d by (simp_all only: x_edge_step)
  show "\<not> at_south g (x_edge g 1 j)" using u d by (simp add: at_south_def del: One_nat_def)
  obtain y where y: "y = ?d * of_int k" by simp
  have r: "k = 0 \<and> y = 0 \<or> 0 < k \<and> ?d \<le> y" using k(2) d y by auto
  have xy: "x_edge g 1 j = ?l + y" using x y by simp
  show n: "at_north g (x_edge g 1 j) = (x_edge g 1 j = 0)"
    using a(2) r d l unfolding at_north_def xy by auto
  show "at_north g (x_edge g 1 j) \<Longrightarrow> j = gd g 1"
    using n r xy l d k(1) by auto
  show "inside g i (j - 1) \<Longrightarrow> ?d \<le> x_edge g 1 j"
    using r xy l k(1) by (auto simp: inside_def)
qed

lemma areas_b:
  fixes P0 :: grid_ptrs
  assumes "sph_ok g" "inside g i j"
  defines "gp \<equiv> compute_coef g P0"
  shows "gp_Ab gp 0 (node g i j) \<noteq> 0" "gp_Ab gp 1 (node g i j) \<noteq> 0"
    and "gp_le gp 2 (node g i j) = exp (x_edge g 0 i) * sin (x_edge g 1 j)"
proof -
  have p: "plane_ok g" using assms(1) by (simp add: sph_ok_def)
  note o = plane_okD[OF p] and t = sph_okD[OF assms(1,2)]
  note c = coef_node[OF p inside_on_plane[OF p assms(2)], where ?P0.0 = P0, folded gp_def]
  have lt: "x_edge g 1 j < x_edge g 1 (j + 1)" "x_edge g 0 i < x_edge g 0 (i + 1)" using o(10,11) by (simp_all only: x_edge_step)
  have "cos (x_edge g 1 (j + 1)) < cos (x_edge g 1 j)"
    by (rule cos_monotone_0_pi) (use t lt in simp_all)
  then show "gp_Ab gp 0 (node g i j) \<noteq> 0" by (simp add: c(10))
  have "sin (x_edge g 1 j) \<noteq> 0" if "\<not> on_axis g j"
    using that t(1,3,5) sin_gt_zero[of "x_edge g 1 j"] by (auto simp: on_axis_def order_less_le)
  then show "gp_Ab gp 1 (node g i j) \<noteq> 0" using lt(2) by (simp add: c(11) TINY_f_def del: One_nat_def)
  show "gp_le gp 2 (node g i j) = exp (x_edge g 0 i) * sin (x_edge g 1 j)" by (simp add: c(3))
qed

lemma areas_e:
  fixes P0 :: grid_ptrs
  assumes "sph_ok g" "inside g i j"
  defines "gp \<equiv> compute_coef g P0"
  shows "inside g i (j - 1) \<Longrightarrow> gp_Ae gp 0 (node g i j) \<noteq> 0" and "gp_Ae gp 1 (node g i j) \<noteq> 0"
proof -
  have p: "plane_ok g" using assms(1) by (simp add: sph_ok_def)
  note o = plane_okD[OF p] and t = sph_okD[OF assms(1,2)]
  note c = coef_node[OF p inside_on_plane[OF p assms(2)], where ?P0.0 = P0, folded gp_def]
  let ?d = "g_delta g ! 1"
  have u: "x_edge g 1 j + ?d \<le> pi" using t(2) by (simp only: x_edge_step)
  have m: "x_mid g 1 j = x_edge g 1 j + ?d / 2" "x_mid g 1 (j - 1) = x_edge g 1 j - ?d / 2"
    by (simp_all add: x_mid_edge x_edge_step(2) del: One_nat_def)
  have r: "x_mid g 0 (i - 1) < x_mid g 0 i" using o(10) by (simp only: x_mid_step)
  have "0 < sin (x_mid g 1 j)" by (rule sin_gt_zero) (use m u t(1) o(11) in simp_all)
  then show "gp_Ae gp 1 (node g i j) \<noteq> 0" using r by (simp add: c(8) del: One_nat_def)
  show "gp_Ae gp 0 (node g i j) \<noteq> 0" if "inside g i (j - 1)"
  proof -
    have "?d \<le> x_edge g 1 j" by (rule t(7)[OF that])
    then have "cos (x_mid g 1 j) < cos (x_mid g 1 (j - 1))" "\<not> on_axis g j"
      using m u o(11) t(4,5) by (auto intro!: cos_monotone_0_pi simp: on_axis_def)
    then show ?thesis by (simp add: c(7))
  qed
qed

subsection \<open>Circulations have no flux\<close>

text \<open>No field through the axis.\<close>

definition axis_clean :: "Grid \<Rightarrow> vfield \<Rightarrow> bool" where
  "axis_clean g b = (\<forall>i j. inside g i j \<longrightarrow> at_north g (x_edge g 1 j) \<longrightarrow> b 1 (node g i j) = 0)"

lemma net_flux_b_node:
  assumes "plane_ok g" "inside g i j"
  shows "net_flux_b g gp b (node g i j) = b 0 (node g (i + 1) j) * gp_Ab gp 0 (node g (i + 1) j)
    - b 0 (node g i j) * gp_Ab gp 0 (node g i j) + b 1 (node g i (j + 1)) * gp_Ab gp 1 (node g i (j + 1))
    - b 1 (node g i j) * gp_Ab gp 1 (node g i j)"
  by (simp add: net_flux_b_def inside_steps[OF assms] Let_def del: One_nat_def)

lemma net_flux_e_node:
  assumes "plane_ok g" "inside g i j"
  shows "net_flux_e g gp e (node g i j) = e 0 (node g i j) * gp_Ae gp 0 (node g i j)
    - e 0 (node g (i - 1) j) * gp_Ae gp 0 (node g (i - 1) j) + e 1 (node g i j) * gp_Ae gp 1 (node g i j)
    - e 1 (node g i (j - 1)) * gp_Ae gp 1 (node g i (j - 1))"
  by (simp add: net_flux_e_def inside_steps[OF assms] Let_def del: One_nat_def)

lemma b_update_flux:
  fixes P0 :: grid_ptrs and i j :: int and e B :: vfield and dt :: scalar and g :: Grid
  assumes "sph_ok g" "inside g i j" "axis_clean g B"
  defines "gp \<equiv> compute_coef g P0" and "w \<equiv> \<lambda>i j. e 2 (node g i j) * gp_le (compute_coef g P0) 2 (node g i j)"
    and "B' \<equiv> compute_b_update_explicit g (compute_coef g P0) dt e B" and "n \<equiv> node g i j"
  shows "B' 0 n * gp_Ab gp 0 n = B 0 n * gp_Ab gp 0 n - dt * (w i (j + 1) - w i j)"
    and "B' 1 n * gp_Ab gp 1 n = B 1 n * gp_Ab gp 1 n - dt * (w i j - w (i + 1) j)"
proof -
  have p: "plane_ok g" using assms(1) by (simp add: sph_ok_def)
  note b = b_update_node[OF p inside_on_plane[OF p assms(2)], of gp dt e B, folded n_def]
  note a = areas_b[OF assms(1,2), of P0, folded gp_def n_def]
  have on: "on_plane g (i + 1) j" using inside_steps(6)[OF p assms(2)] .
  show "B' 0 n * gp_Ab gp 0 n = B 0 n * gp_Ab gp 0 n - dt * (w i (j + 1) - w i j)"
    using b(2)[OF assms(2)] a(1)
    by (simp add: B'_def gp_def[symmetric] circ0_def w_def n_def[symmetric] field_simps del: One_nat_def)
  show "B' 1 n * gp_Ab gp 1 n = B 1 n * gp_Ab gp 1 n - dt * (w i j - w (i + 1) j)"
  proof (cases "at_north g (x_edge g 1 j)")
    case True
    then have "x_edge g 1 j = 0" "B 1 n = 0" using sph_okD(5)[OF assms(1,2)] assms(2,3) by (auto simp: axis_clean_def n_def)
    then have "w i j = 0" "w (i + 1) j = 0"
      using coef_node(3)[OF p inside_on_plane[OF p assms(2)], of P0] coef_node(3)[OF p on, of P0] by (simp_all add: w_def)
    then show ?thesis
      using True b(3)[OF assms(2)] \<open>B 1 n = 0\<close> by (simp add: B'_def gp_def[symmetric] del: One_nat_def)
  next
    case False
    then show ?thesis
      using b(3)[OF assms(2)] a(2)
      by (simp add: B'_def gp_def[symmetric] circ1_def w_def n_def[symmetric] field_simps del: One_nat_def)
  qed
qed

lemma flux_b_kept:
  fixes P0 :: grid_ptrs
  assumes "sph_ok g" "axis_clean g B" "inside g i j" "inside g (i + 1) j" "inside g i (j + 1)"
  shows "net_flux_b g (compute_coef g P0) (compute_b_update_explicit g (compute_coef g P0) dt e B) (node g i j)
    = net_flux_b g (compute_coef g P0) B (node g i j)"
proof -
  have p: "plane_ok g" using assms(1) by (simp add: sph_ok_def)
  show ?thesis
    unfolding net_flux_b_node[OF p assms(3)] b_update_flux[OF assms(1,3,2)] b_update_flux[OF assms(1,4,2)]
      b_update_flux[OF assms(1,5,2)]
    by (simp add: algebra_simps)
qed

lemma flux_e_change:
  fixes P0 :: grid_ptrs
  assumes "sph_ok g" "inside g i j" "inside g (i - 1) j" "inside g i (j - 1)"
  shows "net_flux_e g (compute_coef g P0) (compute_e_update_explicit g (compute_coef g P0) dt b J X) (node g i j)
    = net_flux_e g (compute_coef g P0) X (node g i j) - dt * net_flux_e g (compute_coef g P0) J (node g i j)"
proof -
  have p: "plane_ok g" using assms(1) by (simp add: sph_ok_def)
  define gp where "gp = compute_coef g P0"
  define w where "w = (\<lambda>i j. b 2 (node g i j) * gp_lb gp 2 (node g i j))"
  define X' where "X' = compute_e_update_explicit g gp dt b J X"
  have e0: "X' 0 (node g i' j) * gp_Ae gp 0 (node g i' j)
      = X 0 (node g i' j) * gp_Ae gp 0 (node g i' j) + dt * (w i' j - w i' (j - 1) - J 0 (node g i' j) * gp_Ae gp 0 (node g i' j))"
    if "inside g i' j" "inside g i' (j - 1)" for i'
    using areas_e(1)[OF assms(1) that, of P0, folded gp_def] e_update_node(1)[OF p that(1) sph_okD(4)[OF assms(1) that(1)], of gp dt b J X]
    by (simp add: X'_def circ0_def w_def field_simps)
  have e1: "X' 1 (node g i j') * gp_Ae gp 1 (node g i j')
      = X 1 (node g i j') * gp_Ae gp 1 (node g i j') + dt * (w (i - 1) j' - w i j' - J 1 (node g i j') * gp_Ae gp 1 (node g i j'))"
    if "inside g i j'" for j'
    using areas_e(2)[OF assms(1) that, of P0, folded gp_def] e_update_node(2)[OF p that sph_okD(4)[OF assms(1) that], of gp dt b J X]
    by (simp add: X'_def circ1_def w_def field_simps del: One_nat_def)
  have i': "inside g (i - 1) (j - 1)" using assms(3,4) by (simp add: inside_def)
  show ?thesis
    unfolding gp_def[symmetric] X'_def[symmetric] net_flux_e_node[OF p assms(2)] e0[OF assms(2,4)] e0[OF assms(3) i']
      e1[OF assms(2)] e1[OF assms(4)]
    by (simp add: algebra_simps)
qed


subsection \<open>The whole step\<close>

text \<open>An exchange of guard cells writes guard cells only.\<close>

definition keeps_inner :: "Grid \<Rightarrow> (vfield \<Rightarrow> vfield) \<Rightarrow> bool" where
  "keeps_inner g send_guard = (\<forall>f c i j. inside g i j \<longrightarrow> send_guard f c (node g i j) = f c (node g i j))"

text \<open>The nodes of the damping layer, and those below it.\<close>

definition layer_ok :: "Grid \<Rightarrow> sph_solver \<Rightarrow> bool" where
  "layer_ok g s = (1 \<le> sint (ss_damping_length s) \<and> sint (ss_damping_length s) \<le> nn g 0 + 2 * gd g 0)"

definition below_layer :: "Grid \<Rightarrow> sph_solver \<Rightarrow> int \<Rightarrow> bool" where
  "below_layer g s i = (i < nn g 0 + 2 * gd g 0 - sint (ss_damping_length s))"

lemma apply_damping_node:
  assumes "plane_ok g" "layer_ok g s" "on_plane g i j" "below_layer g s i"
  shows "fs_E (apply_damping g comm s) c (node g i j) = fs_E s c (node g i j)"
    and "fs_B (apply_damping g comm s) c (node g i j) = fs_B s c (node g i j)"
  using damping_below[OF assms(1) _ _ assms(3), of "ss_damping_length s" "ss_damping_coef s" "fs_E s" "fs_B s"] assms(2,4)
  by (auto simp: apply_damping_def layer_ok_def below_layer_def split: prod.splits option.splits)

lemma apply_damping_zero: "fs_B s c n = 0 \<Longrightarrow> fs_B (apply_damping g comm s) c n = 0"
  using damping_zero[of g "ss_damping_length s" "ss_damping_coef s" "fs_E s" "fs_B s"]
  by (auto simp: apply_damping_def split: prod.splits option.splits)

lemma explicit_step:
  fixes g :: Grid and comm :: "domain_info option" and dt time :: real and gp :: grid_ptrs and s :: sph_solver
    and send_guard :: "vfield \<Rightarrow> vfield"
  assumes "sph_ok g" "keeps_inner g send_guard" "layer_ok g s" "axis_clean g (fs_B s)" "gp = compute_coef g P0"
  defines "s' \<equiv> update_explicit g gp send_guard comm dt time s"
  obtains dtb b where "\<And>i j c. inside g i j \<Longrightarrow> below_layer g s i \<Longrightarrow>
        fs_B s' c (node g i j) = compute_b_update_explicit g gp dtb (fs_E s) (fs_B s) c (node g i j)"
    and "\<And>i j c. inside g i j \<Longrightarrow> below_layer g s i \<Longrightarrow> c \<noteq> 2 \<Longrightarrow>
        fs_E s' c (node g i j) = compute_e_update_explicit g gp dt b (fs_J s) (fs_E s) c (node g i j)"
    and "axis_clean g (fs_B s')"
proof -
  have p: "plane_ok g" using assms(1) by (simp add: sph_ok_def)
  define dtb where "dtb = (if time < TINY_f then 0.5 * dt else dt)"
  define B where "B = compute_b_update_explicit g gp dtb (fs_E s) (fs_B s)"
  define b where "b = axis_boundary_b g (send_guard B)"
  define X where "X = compute_e_update_explicit g gp dt b (fs_J s) (fs_E s)"
  define s1 where "s1 = s\<lparr>fs_B := b, fs_E := send_guard (axis_boundary_e g X)\<rparr>"
  have s': "s' = apply_damping g comm s1"
    by (simp add: s'_def update_explicit_def Let_def dtb_def B_def b_def X_def s1_def)
  have sb: "send_guard f c (node g i j) = f c (node g i j)" if "inside g i j" for f c i j
    using assms(2) that by (simp add: keeps_inner_def)
  have l: "layer_ok g s1" "below_layer g s1 i = below_layer g s i" for i
    using assms(3) by (simp_all add: layer_ok_def below_layer_def s1_def)
  have zero: "B 1 (node g i j) = 0" if "inside g i j" "at_north g (x_edge g 1 j)" for i j
    using b_update_node(3)[OF p inside_on_plane[OF p that(1)] that(1)] that(2) by (simp add: B_def del: One_nat_def)
  have bB: "b c (node g i j) = B c (node g i j)" if "inside g i j" for c i j
    using axis_inside(1)[OF p that] sb[OF that] zero[OF that] by (auto simp: b_def simp del: One_nat_def)
  show thesis
  proof (rule that[of dtb b])
    show "fs_B s' c (node g i j) = compute_b_update_explicit g gp dtb (fs_E s) (fs_B s) c (node g i j)"
      if "inside g i j" "below_layer g s i" for i j c
      using apply_damping_node(2)[OF p l(1) inside_on_plane[OF p that(1)]] that l(2) bB[OF that(1)]
      by (simp add: s') (simp add: s1_def B_def)
    show "fs_E s' c (node g i j) = compute_e_update_explicit g gp dt b (fs_J s) (fs_E s) c (node g i j)"
      if "inside g i j" "below_layer g s i" "c \<noteq> 2" for i j c
      using apply_damping_node(1)[OF p l(1) inside_on_plane[OF p that(1)]] that l(2) axis_inside(2)[OF p that(1,3)] sb[OF that(1)]
      by (simp add: s') (simp add: s1_def X_def)
    show "axis_clean g (fs_B s')"
      unfolding axis_clean_def s'
      by (intro allI impI apply_damping_zero) (simp add: s1_def bB zero del: One_nat_def)
  qed
qed

lemma explicit_fluxes:
  assumes "sph_ok g" "keeps_inner g send_guard" "layer_ok g s" "axis_clean g (fs_B s)" "gp = compute_coef g P0"
    and "s' = update_explicit g gp send_guard comm dt time s"
  shows "(inside g i j \<and> inside g (i + 1) j \<and> inside g i (j + 1) \<and> below_layer g s (i + 1) \<longrightarrow>
      net_flux_b g gp (fs_B s') (node g i j) = net_flux_b g gp (fs_B s) (node g i j))
    \<and> (inside g i j \<and> inside g (i - 1) j \<and> inside g i (j - 1) \<and> below_layer g s i \<longrightarrow>
      net_flux_e g gp (fs_E s') (node g i j)
        = net_flux_e g gp (fs_E s) (node g i j) - dt * net_flux_e g gp (fs_J s) (node g i j))
    \<and> axis_clean g (fs_B s')"
proof -
  have p: "plane_ok g" using assms(1) by (simp add: sph_ok_def)
  obtain dtb b where b: "\<And>i j c. inside g i j \<Longrightarrow> below_layer g s i \<Longrightarrow>
        fs_B s' c (node g i j) = compute_b_update_explicit g gp dtb (fs_E s) (fs_B s) c (node g i j)"
    and e: "\<And>i j c. inside g i j \<Longrightarrow> below_layer g s i \<Longrightarrow> c \<noteq> 2 \<Longrightarrow>
        fs_E s' c (node g i j) = compute_e_update_explicit g gp dt b (fs_J s) (fs_E s) c (node g i j)"
    and clean: "axis_clean g (fs_B s')"
    using explicit_step[OF assms(1-5), of comm dt time] unfolding assms(6)[symmetric] by blast
  have "net_flux_b g gp (fs_B s') (node g i j) = net_flux_b g gp (fs_B s) (node g i j)"
    if a: "inside g i j" "inside g (i + 1) j" "inside g i (j + 1)" "below_layer g s (i + 1)"
  proof -
    have "below_layer g s i" using a(4) by (simp add: below_layer_def)
    then show ?thesis
      using flux_b_kept[OF assms(1,4) a(1-3), of P0 dtb "fs_E s"] b a
      unfolding assms(5)[symmetric] net_flux_b_node[OF p a(1)] by simp
  qed
  moreover have "net_flux_e g gp (fs_E s') (node g i j)
        = net_flux_e g gp (fs_E s) (node g i j) - dt * net_flux_e g gp (fs_J s) (node g i j)"
    if a: "inside g i j" "inside g (i - 1) j" "inside g i (j - 1)" "below_layer g s i"
  proof -
    have "below_layer g s (i - 1)" using a(4) by (simp add: below_layer_def)
    then show ?thesis
      using flux_e_change[OF assms(1) a(1-3), of P0 dt b "fs_J s" "fs_E s"] e a
      unfolding assms(5)[symmetric] net_flux_e_node[OF p a(1)] by simp
  qed
  ultimately show ?thesis using clean by blast
qed


subsection \<open>The curl of the curl\<close>

text \<open>The two curls of the scheme: of \<open>B\<close> at the edges, of \<open>E\<close> at the faces.\<close>

definition curl_b :: "Grid \<Rightarrow> grid_ptrs \<Rightarrow> vfield \<Rightarrow> vfield" where
  "curl_b g gp b = (\<lambda>c n. let mx = col_dec (extent g) 0 n 1; my = col_dec (extent g) 1 n 1
     in [circ0 b (gp_lb gp) my n, circ1 b (gp_lb gp) mx n, circ2 b (gp_lb gp) mx my n n] ! c / gp_Ae gp c n)"

definition curl_e :: "Grid \<Rightarrow> grid_ptrs \<Rightarrow> vfield \<Rightarrow> vfield" where
  "curl_e g gp e = (\<lambda>c n. let px = col_inc (extent g) 0 n 1; py = col_inc (extent g) 1 n 1
     in [circ0 e (gp_le gp) n py, circ1 e (gp_le gp) n px, circ2 e (gp_le gp) n n px py] ! c / gp_Ab gp c n)"

lemma dec_inc_cancel: "col_dec ext d (col_inc ext d n k) k = n"
  by (simp add: col_dec_def col_inc_def)

lemma double_circ_node:
  fixes g :: Grid and gp :: grid_ptrs and coef :: scalar and b r0 :: vfield and n :: i64
  assumes "g_dim g = 2" "updated g n"
  defines "py \<equiv> col_inc (extent g) 1 n 1" and "my \<equiv> col_dec (extent g) 1 n 1"
    and "R \<equiv> compute_double_circ g gp coef b r0"
  shows "R 0 n = coef * curl_e g gp (curl_b g gp b) 0 n"
    and "R 1 n = (if at_north g (coord_stagger g 1 (get_pos (extent g) n ! 1) 1) then 0
      else coef * curl_e g gp (curl_b g gp b) 1 n)"
    and "R 2 n = coef * (curl_e g gp (curl_b g gp b) 2 n + (1 / gp_Ae gp 0 py - 1 / gp_Ae gp 0 n)
      * (gp_le gp 0 n * circ0 b (gp_lb gp) my n + gp_le gp 0 py * circ0 b (gp_lb gp) n py) / gp_Ab gp 2 n)"
proof -
  let ?ext = "extent g"
  let ?G = "\<lambda>idx v c. if is_in_bound g (get_pos ?ext idx)
    then (if c = 0 then coef *
                 (gp_le gp 2 (col_inc ?ext 1 idx 1) * circ2 b (gp_lb gp) (col_dec ?ext 0 (col_inc ?ext 1 idx 1) 1) idx
                    (col_inc ?ext 1 idx 1) (col_inc ?ext 1 idx 1) / gp_Ae gp 2 (col_inc ?ext 1 idx 1)
                  - gp_le gp 2 idx * circ2 b (gp_lb gp) (col_dec ?ext 0 idx 1) (col_dec ?ext 1 idx 1) idx idx / gp_Ae gp 2 idx)
                / gp_Ab gp 0 idx
      else if c = 1 then (if at_north g (coord_stagger g 1 (get_pos ?ext idx ! 1) 1) then 0 else coef *
                 (gp_le gp 2 idx * circ2 b (gp_lb gp) (col_dec ?ext 0 idx 1) (col_dec ?ext 1 idx 1) idx idx / gp_Ae gp 2 idx
                  - gp_le gp 2 (col_inc ?ext 0 idx 1) * circ2 b (gp_lb gp) idx (col_dec ?ext 1 (col_inc ?ext 0 idx 1) 1)
                    (col_inc ?ext 0 idx 1) (col_inc ?ext 0 idx 1) / gp_Ae gp 2 (col_inc ?ext 0 idx 1)) / gp_Ab gp 1 idx)
      else if c = 2 then coef *
                (gp_le gp 0 idx * circ0 b (gp_lb gp) (col_dec ?ext 1 idx 1) idx / gp_Ae gp 0 (col_inc ?ext 1 idx 1)
                 - gp_le gp 0 (col_inc ?ext 1 idx 1) * circ0 b (gp_lb gp) idx (col_inc ?ext 1 idx 1) / gp_Ae gp 0 idx
                 + gp_le gp 1 (col_inc ?ext 0 idx 1) * circ1 b (gp_lb gp) idx (col_inc ?ext 0 idx 1) / gp_Ae gp 1 (col_inc ?ext 0 idx 1)
                 - gp_le gp 1 idx * circ1 b (gp_lb gp) (col_dec ?ext 0 idx 1) idx / gp_Ae gp 1 idx) / gp_Ab gp 2 idx
      else v c) else v c"
  have e: "R c n = ?G n (\<lambda>c. r0 c n) c" for c
    unfolding R_def compute_double_circ_def assms(1) simp_thms if_False
    using assms(2)
    by (subst host_loop_pointwise[where G = ?G]) (auto simp: set_at_apply Let_def updated_def)
  have i: "is_in_bound g (get_pos ?ext n)" using assms(2) by (simp add: updated_def)
  show "R 0 n = coef * curl_e g gp (curl_b g gp b) 0 n"
    unfolding e using i by (simp add: curl_e_def curl_b_def Let_def circ0_def dec_inc_cancel field_simps del: One_nat_def)
  show "R 1 n = (if at_north g (coord_stagger g 1 (get_pos ?ext n ! 1) 1) then 0 else coef * curl_e g gp (curl_b g gp b) 1 n)"
    unfolding e using i by (simp add: curl_e_def curl_b_def Let_def circ1_def dec_inc_cancel field_simps)
  show "R 2 n = coef * (curl_e g gp (curl_b g gp b) 2 n + (1 / gp_Ae gp 0 py - 1 / gp_Ae gp 0 n)
      * (gp_le gp 0 n * circ0 b (gp_lb gp) my n + gp_le gp 0 py * circ0 b (gp_lb gp) n py) / gp_Ab gp 2 n)"
    unfolding e py_def my_def using i
    by (simp add: curl_e_def curl_b_def Let_def circ2_def[of "curl_b g gp b"] circ2_def[of "\<lambda>c n. _ c n"] dec_inc_cancel
        add_divide_distrib diff_divide_distrib algebra_simps del: One_nat_def)
qed

subsection \<open>Properties\<close>

text \<open>
  C7.  On a spherical grid whose damping layer lies in the grid, with a guard exchange that
  leaves inner nodes alone and an axis free of field, one explicit step keeps the constraints of
  Maxwell's equations at the cells it updates below the layer.  The magnetic flux out of a cell
  inside the grid whose upper neighbours are inside, and below the layer, does not change;
  the electric flux out of a cell inside whose lower neighbours are inside, itself below the
  layer, changes by minus \<open>dt\<close> times the flux of the current; and no field crosses the polar
  axis, so the next step can start from it.  Nothing is stated in the layer, where the
  damping scales the components differently.
\<close>

theorem sph_step_conserves:
  assumes "sph_ok g" "keeps_inner g send_guard" "layer_ok g s" "axis_clean g (fs_B s)" "gp = compute_coef g P0"
    and "s' = update_explicit g gp send_guard comm dt time s"
  shows "(inside g i j \<and> inside g (i + 1) j \<and> inside g i (j + 1) \<and> below_layer g s (i + 1) \<longrightarrow>
      net_flux_b g gp (fs_B s') (node g i j) = net_flux_b g gp (fs_B s) (node g i j))
    \<and> (inside g i j \<and> inside g (i - 1) j \<and> inside g i (j - 1) \<and> below_layer g s i \<longrightarrow>
      net_flux_e g gp (fs_E s') (node g i j)
        = net_flux_e g gp (fs_E s) (node g i j) - dt * net_flux_e g gp (fs_J s) (node g i j))
    \<and> axis_clean g (fs_B s')"
  by (rule explicit_fluxes[OF assms])

lemma Ae_sin:
  assumes "plane_ok g" "on_plane g i j" "\<not> on_axis g j"
  shows "gp_Ae (compute_coef g P0) 0 (node g i j)
    = 2 * (exp (x_mid g 0 i))\<^sup>2 * sin (x_edge g 1 j) * sin (g_delta g ! 1 / 2)"
proof -
  have "x_mid g 1 j = x_edge g 1 j + g_delta g ! 1 / 2" "x_mid g 1 (j - 1) = x_edge g 1 j - g_delta g ! 1 / 2"
    by (simp_all add: x_mid_edge x_edge_step(2) del: One_nat_def)
  then show ?thesis
    using coef_node(7)[OF assms(1,2), of P0] assms(3) by (simp add: cos_diff_cos power2_eq_square del: One_nat_def)
qed

text \<open>
  C22.  The kernel of the semi-implicit step applies the curl of the curl to \<open>B\<close>, with the two
  curls of the explicit step, in the components along the radius and the polar angle, and
  clears the latter on the axis.  In the third component the two areas of the radial edges
  are exchanged: the result differs from the curl of the curl by the term given here,
  which vanishes only where the two areas agree.
\<close>

theorem double_circ_curl_curl:
  assumes "g_dim g = 2" "updated g n" "py = col_inc (extent g) 1 n 1" "my = col_dec (extent g) 1 n 1"
    and "R = compute_double_circ g gp coef b r0" and "th = coord_stagger g 1 (get_pos (extent g) n ! 1) 1"
  shows "R 0 n = coef * curl_e g gp (curl_b g gp b) 0 n
    \<and> R 1 n = (if at_north g th then 0 else coef * curl_e g gp (curl_b g gp b) 1 n)
    \<and> R 2 n = coef * (curl_e g gp (curl_b g gp b) 2 n + (1 / gp_Ae gp 0 py - 1 / gp_Ae gp 0 n)
      * (gp_le gp 0 n * circ0 b (gp_lb gp) my n + gp_le gp 0 py * circ0 b (gp_lb gp) n py) / gp_Ab gp 2 n)"
  using double_circ_node[OF assms(1,2), of gp coef b r0] unfolding assms(3-6) by blast

lemma ball_grid_ok: "plane_ok ball_grid" "sph_ok ball_grid"
  using ball_grid_plane by (simp_all add: sph_ok_def)

definition ball_solver :: sph_solver where
  "ball_solver = (let z = (\<lambda>_ _. 0) :: vfield; s = (\<lambda>_. 0) :: field in
     \<lparr>fs_E = (\<lambda>_ n. of_int (uint n)), fs_B = (\<lambda>c n. if c = 0 then of_int (uint n) else 0), fs_E0 = z, fs_B0 = z,
      fs_J = (\<lambda>_ n. of_int (uint n)), fs_J0 = z, fs_Etotal = z, fs_Btotal = z, fs_divE = s, fs_divB = s,
      fs_flux = s, fs_E_sqr = s, fs_B_sqr = s, fs_use_implicit = False, fs_alpha = 1, fs_beta = 0, fs_data_interval = 1,
      fs_update_e = True, fs_update_b = True, fs_compute_divs = True, fs_compute_energies = False,
      ss_damping_length = 2, ss_damping_coef = 1 / 10, ss_tmp_b1 = z, ss_tmp_b2 = z, ss_bnew = z\<rparr>)"

theorem sph_step_conserves_witness:
  "\<exists>s'. s' = update_explicit ball_grid (compute_coef ball_grid zero_tables) (\<lambda>f. f) None 1 1 ball_solver
    \<and> net_flux_b ball_grid (compute_coef ball_grid zero_tables) (fs_B s') (node ball_grid 2 2)
      = net_flux_b ball_grid (compute_coef ball_grid zero_tables) (fs_B ball_solver) (node ball_grid 2 2)
    \<and> axis_clean ball_grid (fs_B s')"
proof -
  have "keeps_inner ball_grid (\<lambda>f. f)" by (simp add: keeps_inner_def)
  moreover have "layer_ok ball_grid ball_solver" "below_layer ball_grid ball_solver 3"
    by (simp_all add: layer_ok_def below_layer_def ball_solver_def Let_def)
  moreover have "axis_clean ball_grid (fs_B ball_solver)" by (simp add: axis_clean_def ball_solver_def Let_def)
  moreover have "inside ball_grid 2 2" "inside ball_grid 3 2" "inside ball_grid 2 3" by (simp_all add: inside_def)
  ultimately show ?thesis
    using sph_step_conserves[OF ball_grid_ok(2), of "\<lambda>f. f" ball_solver _ zero_tables _ None 1 1 2 2] by simp
qed

theorem double_circ_curl_curl_witness:
  "compute_double_circ ball_grid (compute_coef ball_grid zero_tables) 1 (fs_B ball_solver) (fs_B0 ball_solver) 0 (node ball_grid 2 2)
      = curl_e ball_grid (compute_coef ball_grid zero_tables) (curl_b ball_grid (compute_coef ball_grid zero_tables) (fs_B ball_solver)) 0 (node ball_grid 2 2)
    \<and> gp_Ae (compute_coef ball_grid zero_tables) 0 (node ball_grid 2 2) \<noteq> gp_Ae (compute_coef ball_grid zero_tables) 0 (node ball_grid 2 3)"
proof -
  have i: "inside ball_grid 2 2" "inside ball_grid 2 3" "inside ball_grid 2 1" by (simp_all add: inside_def)
  note on = inside_on_plane[OF ball_grid_ok(1) i(1)]
  have "updated ball_grid (node ball_grid 2 2)"
    using node_less[OF ball_grid_ok(1) on] node_pos[OF ball_grid_ok(1) on] node_in_bound[OF ball_grid_ok(1) on]
    by (simp add: updated_def)
  moreover have "gp_Ae (compute_coef ball_grid zero_tables) 0 (node ball_grid 2 2) \<noteq> gp_Ae (compute_coef ball_grid zero_tables) 0 (node ball_grid 2 3)"
  proof -
    have ax: "\<not> on_axis ball_grid 2" "\<not> on_axis ball_grid 3"
      by (simp_all add: on_axis_def at_north_def at_south_def x_edge_def field_simps abs_if)
    have x: "x_edge ball_grid 1 2 = pi / 4" "x_edge ball_grid 1 3 = pi / 2" by (simp_all add: x_edge_def)
    have "sqrt 2 < (2 :: real)" using real_sqrt_less_mono[of 2 4] by simp
    then have "sin (x_edge ball_grid 1 2) \<noteq> sin (x_edge ball_grid 1 3)" unfolding x by (simp add: sin_45)
    moreover have "sin (pi / 8) \<noteq> 0" using sin_gt_zero[of "pi / 8"] by simp
    ultimately show ?thesis
      using Ae_sin[OF ball_grid_ok(1) on ax(1), of zero_tables]
        Ae_sin[OF ball_grid_ok(1) inside_on_plane[OF ball_grid_ok(1) i(2)] ax(2), of zero_tables]
      by (simp del: One_nat_def)
  qed
  ultimately show ?thesis
    using double_circ_curl_curl[of ball_grid "node ball_grid 2 2" _ _ _ "compute_coef ball_grid zero_tables" 1 "fs_B ball_solver" "fs_B0 ball_solver"] by simp
qed

end
