(* ===== verification/ChartMove.thy ===== *)
theory ChartMove
  imports CoordPolicy
begin

text \<open>
  Motion in curvilinear coordinates, as the spherical and the polar policy have it
  (\<open>src/systems/policies/coord_policy_spherical.hpp\<close>,
  \<open>src/systems/policies/coord_policy_polar.hpp\<close>): a particle is taken to Cartesian space, moved,
  and taken back.  The two policies differ in the four maps between the spaces, which are the
  arguments of \<open>move_core_curv\<close>; what they have to satisfy is the locale \<open>chart\<close>.
\<close>

subsection \<open>Moving a particle\<close>

text \<open>The loop body for one direction of the grid.\<close>

definition curv_move_dir :: "Grid \<Rightarrow> scalar list \<Rightarrow> scalar list \<Rightarrow> scalar list \<Rightarrow> placing \<Rightarrow> nat \<Rightarrow> placing" where
  "curv_move_dir g x x_old x_new = (\<lambda>(new_x, dc, pos) i.
     let y = x ! i + (x_new ! i - x_old ! i) * g_inv_delta g ! i; d = \<lfloor>y\<rfloor>
     in (new_x[i := y - of_int d], dc[i := d], pos[i := pos ! i + word_of_int d]))"

text \<open>
  \<open>move_ptc\<close> on the members it reads and writes.  In directions the grid does not have,
  \<open>coord\<close> ignores the position.
\<close>

definition global_x :: "Grid \<Rightarrow> scalar list \<Rightarrow> index_t \<Rightarrow> scalar list" where
  "global_x g x pos = [coord g 0 (pos ! 0) (x ! 0), coord g 1 (pos ! 1) (x ! 1), coord g 2 (pos ! 2) (x ! 2)]"

definition move_core_curv ::
  "(scalar list \<Rightarrow> scalar list) \<Rightarrow> (scalar list \<Rightarrow> scalar list) \<Rightarrow>
   (scalar list \<Rightarrow> scalar list \<Rightarrow> scalar list) \<Rightarrow> (scalar list \<Rightarrow> scalar list \<Rightarrow> scalar list) \<Rightarrow>
   Grid \<Rightarrow> scalar list \<Rightarrow> scalar list \<Rightarrow> scalar \<Rightarrow> scalar \<Rightarrow> placing \<Rightarrow> placing \<times> scalar list" where
  "move_core_curv to_cart from_cart v_to_cart v_from_cart g x p gamma dt st =
     (let x_old = global_x g x (snd (snd st));
          x_cart = to_cart x_old;
          p = v_to_cart p x_old;
          x_cart = map2 (\<lambda>a b. a + b * (dt / gamma)) x_cart p;
          x_new = from_cart x_cart;
          p = v_from_cart p x_new;
          st = foldl (curv_move_dir g x x_old x_new) st [0..<g_dim g]
      in (foldl (\<lambda>(new_x, dc, pos) i. (new_x[i := x_new ! i], dc, pos)) st [g_dim g..<3], p))"

definition curv_move_ptc ::
  "(Grid \<Rightarrow> scalar list \<Rightarrow> scalar list \<Rightarrow> scalar \<Rightarrow> scalar \<Rightarrow> placing \<Rightarrow> placing \<times> scalar list) \<Rightarrow>
   Grid \<Rightarrow> ptc_context \<Rightarrow> index_t \<Rightarrow> scalar \<Rightarrow> ptc_context \<times> index_t" where
  "curv_move_ptc core g c pos dt =
     (let ((nx, dc, pos'), p) = core g (pc_x c) (pc_p c) (pc_gamma c) dt (pc_new_x c, pc_dc c, pos)
      in (c\<lparr>pc_new_x := nx, pc_dc := dc, pc_p := p\<rparr>, pos'))"

definition curv_move_ph ::
  "(Grid \<Rightarrow> scalar list \<Rightarrow> scalar list \<Rightarrow> scalar \<Rightarrow> scalar \<Rightarrow> placing \<Rightarrow> placing \<times> scalar list) \<Rightarrow>
   Grid \<Rightarrow> ph_context \<Rightarrow> index_t \<Rightarrow> scalar \<Rightarrow> ph_context \<times> index_t" where
  "curv_move_ph core g c pos dt =
     (let ((nx, dc, pos'), p) = core g (ph_x c) (ph_p c) (ph_gamma c) dt (ph_new_x c, ph_dc c, pos)
      in (c\<lparr>ph_new_x := nx, ph_dc := dc, ph_p := p\<rparr>, pos'))"

subsection \<open>Where a particle arrives\<close>

lemma coord_step:
  assumes "grid_ok g" "i < g_dim g" "sint p' = sint p + d" "nx = x + (b - coord g i p x) * g_inv_delta g ! i - of_int d"
  shows "coord g i p' nx = b"
proof -
  have d: "g_delta g ! i \<noteq> 0" "g_inv_delta g ! i = 1 / g_delta g ! i" using grid_okD(1,2)[OF assms(1,2)] by simp_all
  let ?u = "of_int (sint p - sint (g_guard g ! i)) + x"
  have "of_int (sint p' - sint (g_guard g ! i)) + nx = ?u + (b - coord g i p x) / g_delta g ! i"
    using assms(3,4) d(2) by simp
  moreover have "coord g i p x = g_lower g ! i + g_delta g ! i * ?u"
    "coord g i p' nx = g_lower g ! i + g_delta g ! i * (of_int (sint p' - sint (g_guard g ! i)) + nx)"
    using assms(2) by (simp_all only: coord_def if_True)
  ultimately show ?thesis using d(1) by (simp only:) (simp add: distrib_left del: of_int_diff)
qed

text \<open>
  The interface of a coordinate system: points of \<open>good\<close> and vectors go back to where they
  came from.
\<close>

locale chart =
  fixes to_cart from_cart :: "scalar list \<Rightarrow> scalar list"
    and v_to_cart v_from_cart :: "scalar list \<Rightarrow> scalar list \<Rightarrow> scalar list"
    and good :: "scalar list \<Rightarrow> bool"
  assumes from_length: "length (from_cart y) = 3" and to_length: "length (to_cart x) = 3"
    and v_length: "length (v_to_cart v x) = 3"
    and to_from: "length y = 3 \<Longrightarrow> good y \<Longrightarrow> to_cart (from_cart y) = y"
    and v_to_from: "length v = 3 \<Longrightarrow> v_to_cart (v_from_cart v x) x = v"
begin

text \<open>A step from one global position to another: the same loop as in Cartesian coordinates.\<close>

lemma core_eq:
  fixes g :: Grid and x p :: "scalar list" and gamma dt :: scalar and pos :: index_t
  assumes "g_dim g \<le> 3"
  defines "xo \<equiv> global_x g x pos" and "v \<equiv> v_to_cart p (global_x g x pos)"
  defines "xn \<equiv> from_cart (map2 (\<lambda>a b. a + b * (dt / gamma)) (to_cart xo) v)"
  shows "move_core_curv to_cart from_cart v_to_cart v_from_cart g x p gamma dt (nx, dc, pos)
    = (foldl (\<lambda>(new_x, dc, pos) i. (new_x[i := xn ! i], dc, pos))
         (foldl (move_dir g x (map2 (-) xn xo) 1 1) (nx, dc, pos) [0..<g_dim g]) [g_dim g..<3], v_from_cart v xn)"
proof -
  have l: "length xn = 3" "length xo = 3" by (simp_all add: xn_def xo_def from_length global_x_def)
  have "foldl (curv_move_dir g x xo xn) st [0..<g_dim g] = foldl (move_dir g x (map2 (-) xn xo) 1 1) st [0..<g_dim g]" for st
    using l assms(1) by (intro foldl_cong) (auto simp: curv_move_dir_def move_dir_def)
  then show ?thesis by (simp add: move_core_curv_def Let_def xo_def v_def xn_def)
qed

lemma place:
  fixes g :: Grid and x p nx :: "scalar list" and gamma dt :: scalar and pos pos' :: index_t and dc dc' :: "int list"
  assumes "grid_ok g" "g_dim g = 2 \<or> g_dim g = 3" "length nx = 3" "g_dim g \<le> length dc" "g_dim g \<le> length pos"
    and "move_core_curv to_cart from_cart v_to_cart v_from_cart g x p gamma dt (nx, dc, pos) = ((nx', dc', pos'), p')"
    and "\<forall>i < g_dim g. sint (pos' ! i) = sint (pos ! i) + dc' ! i"
  defines "xo \<equiv> global_x g x pos" and "v \<equiv> v_to_cart p (global_x g x pos)"
  defines "xn \<equiv> from_cart (map2 (\<lambda>a b. a + b * (dt / gamma)) (to_cart xo) v)"
  shows "global_x g nx' pos' = xn" "p' = v_from_cart v xn"
    and "i < g_dim g \<Longrightarrow> 0 \<le> nx' ! i \<and> nx' ! i < 1"
proof -
  have d3: "g_dim g \<le> 3" using assms(2) by auto
  note e = core_eq[OF d3, where x = x and p = p and gamma = gamma and dt = dt and pos = pos and nx = nx and dc = dc, folded xo_def v_def, folded xn_def]
  define w where "w = map2 (-) xn xo"
  have lw: "length xn = 3" "length xo = 3" "length w = 3"
    by (simp_all add: w_def xn_def xo_def from_length global_x_def)
  obtain a b q where st: "foldl (move_dir g x w 1 1) (nx, dc, pos) [0..<g_dim g] = (a, b, q)"
    by (cases "foldl (move_dir g x w 1 1) (nx, dc, pos) [0..<g_dim g]")
  note m = move_dirs[of "g_dim g" "(nx, dc, pos)" g x w 1 1, unfolded st]
  have r: "nx' = foldl (\<lambda>a i. a[i := xn ! i]) a [g_dim g..<3]" "dc' = b" "pos' = q" "p' = v_from_cart v xn"
    using assms(6) unfolding e st[unfolded w_def] move_rest by simp_all
  show "p' = v_from_cart v xn" by (rule r(4))
  have la: "length a = 3" using m assms(3-5) d3 by simp
  have nx: "nx' ! i = (if i < g_dim g then x ! i + w ! i * g_inv_delta g ! i - of_int (dc' ! i) else xn ! i)"
    and dc: "i < g_dim g \<Longrightarrow> dc' ! i = \<lfloor>x ! i + w ! i * g_inv_delta g ! i\<rfloor>" if "i < 3" for i
    using m assms(3-5) d3 la that unfolding r by (simp_all add: foldl_update_list(1))
  have wi: "w ! i = xn ! i - coord g i (pos ! i) (x ! i)" if "i < 3" for i
    using that lw by (auto simp: w_def xo_def global_x_def less_Suc_eq numeral_3_eq_3 numeral_2_eq_2)
  show "i < g_dim g \<Longrightarrow> 0 \<le> nx' ! i \<and> nx' ! i < 1"
    using nx[of i] dc[of i] d3 by simp linarith
  have c: "coord g i (pos' ! i) (nx' ! i) = xn ! i" if "i < 3" for i
  proof (cases "i < g_dim g")
    case True
    then show ?thesis
      using coord_step[OF assms(1) True, of "pos' ! i" "pos ! i" "dc' ! i" "nx' ! i" "x ! i" "xn ! i"] assms(7) nx[OF that] wi[OF that]
      by simp
  next
    case False
    then show ?thesis using nx[OF that] by (simp add: coord_def)
  qed
  have "xn = [xn ! 0, xn ! 1, xn ! 2]" using lw(1) by (auto simp: length_Suc_conv numeral_3_eq_3 numeral_2_eq_2)
  then show "global_x g nx' pos' = xn" using c[of 0] c[of 1] c[of 2] by (simp add: global_x_def)
qed

lemma straight:
  fixes g :: Grid and c :: ptc_context and dt :: scalar and pos pos' :: index_t
  assumes "grid_ok g" "g_dim g = 2 \<or> g_dim g = 3" "length (pc_new_x c) = 3" "g_dim g \<le> length (pc_dc c)" "g_dim g \<le> length pos"
    and "curv_move_ptc (move_core_curv to_cart from_cart v_to_cart v_from_cart) g c pos dt = (c', pos')" "\<forall>i < g_dim g. sint (pos' ! i) = sint (pos ! i) + pc_dc c' ! i"
  defines "old \<equiv> global_x g (pc_x c) pos" and "new \<equiv> global_x g (pc_new_x c') pos'"
  defines "there \<equiv> map2 (\<lambda>a b. a + b * (dt / pc_gamma c)) (to_cart old) (v_to_cart (pc_p c) old)"
  shows "good there \<Longrightarrow> to_cart new = there" "v_to_cart (pc_p c') new = v_to_cart (pc_p c) old"
    and "i < g_dim g \<Longrightarrow> 0 \<le> pc_new_x c' ! i \<and> pc_new_x c' ! i < 1"
proof -
  obtain nx dc q p where e: "move_core_curv to_cart from_cart v_to_cart v_from_cart g (pc_x c) (pc_p c) (pc_gamma c) dt (pc_new_x c, pc_dc c, pos) = ((nx, dc, q), p)"
    by (metis prod.exhaust)
  then have c': "pc_new_x c' = nx" "pc_dc c' = dc" "pc_p c' = p" "pos' = q"
    using assms(6) by (auto simp: curv_move_ptc_def)
  note m = place[OF assms(1-5) e, folded old_def, folded there_def] 
  have nw: "new = from_cart there" "p = v_from_cart (v_to_cart (pc_p c) old) (from_cart there)"
    using m(1,2) assms(7) by (simp_all add: new_def c')
  have "length there = 3" by (simp add: there_def to_length v_length)
  then show "good there \<Longrightarrow> to_cart new = there" using to_from nw(1) by simp
  show "v_to_cart (pc_p c') new = v_to_cart (pc_p c) old"
    using v_to_from[of "v_to_cart (pc_p c) old" new] nw by (simp add: c' v_length)
  show "i < g_dim g \<Longrightarrow> 0 \<le> pc_new_x c' ! i \<and> pc_new_x c' ! i < 1"
    using m(3) assms(7) by (simp add: c')
qed


end

end
