(* ===== verification/SphPolicy.thy ===== *)
theory SphPolicy
  imports SphSolver ChartMove
begin

text \<open>
  The spherical coordinate policy: \<open>src/systems/policies/coord_policy_spherical.hpp\<close>.
  Particles move in Cartesian space; the deposited currents and charges are divided by the
  areas and volumes of the grid.
\<close>

subsection \<open>Moving a particle\<close>

definition weight_func :: "scalar \<Rightarrow> scalar \<Rightarrow> scalar \<Rightarrow> scalar" where
  "weight_func a b c = sin (theta b)"

definition pol_x1 :: "scalar \<Rightarrow> scalar" where "pol_x1 x = radius x"
definition pol_x2 :: "scalar \<Rightarrow> scalar" where "pol_x2 x = theta x"
definition pol_x3 :: "scalar \<Rightarrow> scalar" where "pol_x3 x = x"

definition sph_move_ptc :: "Grid \<Rightarrow> ptc_context \<Rightarrow> index_t \<Rightarrow> scalar \<Rightarrow> ptc_context \<times> index_t" where
  "sph_move_ptc = curv_move_ptc (move_core_curv coord_to_cart coord_from_cart vec_to_cart vec_from_cart)"

definition sph_update_ptc :: "pusher \<Rightarrow> Grid \<Rightarrow> ptc_context \<Rightarrow> index_t \<Rightarrow> scalar \<Rightarrow> ptc_context \<times> index_t" where
  "sph_update_ptc push g c pos dt =
     sph_move_ptc g (if \<not> check_flag (pc_flag c) (PtcFlag_code ignore_EM) then pusher_simple push c dt else c) pos dt"

definition sph_update_ph :: "Grid \<Rightarrow> ph_context \<Rightarrow> index_t \<Rightarrow> scalar \<Rightarrow> ph_context \<times> index_t" where
  "sph_update_ph = curv_move_ph (move_core_curv coord_to_cart coord_from_cart vec_to_cart vec_from_cart)"

subsection \<open>Currents and charges\<close>

definition sph_process_cell :: "Grid \<Rightarrow> grid_ptrs \<Rightarrow> nat \<Rightarrow> i64 \<Rightarrow> currents \<Rightarrow> currents" where
  "sph_process_cell g gp num_species idx S =
     (let w = cell_size g; th = coord_stagger g 1 (get_pos (extent g) idx ! 1) 1;
          J = mul_at (cur_J S) 0 idx (w / gp_Ae gp 0 idx);
          J = mul_at J 1 idx (w / gp_Ae gp 1 idx);
          J = mul_at J 2 idx (w / gp_Ae gp 2 idx);
          S = S\<lparr>cur_rho_total := (cur_rho_total S)(idx := cur_rho_total S idx / gp_dV gp idx)\<rparr>;
          S = foldl (\<lambda>S n. S\<lparr>cur_Rho := (cur_Rho S)(n := (cur_Rho S n)(idx := cur_Rho S n idx / gp_dV gp idx))\<rparr>) S [0..<num_species];
          J = (if at_north g th \<or> at_south g th then set_at J 2 idx 0 else J)
      in S\<lparr>cur_J := J\<rparr>)"

definition sph_process_J_Rho :: "Grid \<Rightarrow> grid_ptrs \<Rightarrow> nat \<Rightarrow> currents \<Rightarrow> currents" where
  "sph_process_J_Rho g gp num_species S = host_loop (extent g) (sph_process_cell g gp num_species) S"

definition sph_filter_field :: "Grid \<Rightarrow> grid_ptrs \<Rightarrow> bool list \<Rightarrow> stagger_t list \<Rightarrow> vfield \<times> field \<Rightarrow> vfield \<times> field" where
  "sph_filter_field g gp is_bd sts st =
     foldl (\<lambda>(f, tmp) i. let (fi, tmp) = filter_field_component_factor g is_bd (gp_Ae gp i) (sts ! i) (f i, tmp)
       in (f(i := fi), tmp)) st [0, 1, 2]"

definition sph_filter_scalar :: "Grid \<Rightarrow> grid_ptrs \<Rightarrow> bool list \<Rightarrow> stagger_t \<Rightarrow> field \<times> field \<Rightarrow> field \<times> field" where
  "sph_filter_scalar g gp is_bd st = filter_field_component_factor g is_bd (gp_dV gp) st"

subsection \<open>The spherical chart\<close>

lemma sph_lengths [simp]:
  "length (coord_to_cart x) = 3" "length (coord_from_cart x) = 3" "length (vec_to_cart v x) = 3"
  by (simp_all add: coord_to_cart_def coord_from_cart_def vec_to_cart_def Let_def)

interpretation sph: chart coord_to_cart coord_from_cart vec_to_cart vec_from_cart "\<lambda>x. x \<noteq> [0, 0, 0]"
  by unfold_locales (simp_all add: cart_round vec_round)

subsection \<open>Gauss's law\<close>

lemma rho_loop: "cur_J (foldl (\<lambda>S n. S\<lparr>cur_Rho := F S n\<rparr>) S ns) = cur_J S"
  "cur_rho_total (foldl (\<lambda>S n. S\<lparr>cur_Rho := F S n\<rparr>) S ns) = cur_rho_total S"
  by (induction ns arbitrary: S) simp_all

lemma process_at:
  fixes S :: currents
  assumes "uint r < uint (extent_size (extent g))"
  shows "c = 0 \<or> c = 1 \<Longrightarrow> cur_J (sph_process_J_Rho g gp k S) c r = cur_J S c r * (cell_size g / gp_Ae gp c r)"
    and "cur_rho_total (sph_process_J_Rho g gp k S) r = cur_rho_total S r / gp_dV gp r"
proof -
  let ?G = "\<lambda>idx v c. if c = 0 then v 0 * (cell_size g / gp_Ae gp 0 idx) else if c = 1 then v 1 * (cell_size g / gp_Ae gp 1 idx)
    else if c = 2 then (let th = coord_stagger g 1 (get_pos (extent g) idx ! 1) 1 in
      if at_north g th \<or> at_south g th then 0 else v 2 * (cell_size g / gp_Ae gp 2 idx)) else v c"
  have "cur_J (sph_process_J_Rho g gp k S) = host_loop (extent g) (\<lambda>idx J c r. if r = idx then ?G idx (\<lambda>c. J c idx) c else J c r) (cur_J S)"
    unfolding sph_process_J_Rho_def
    by (rule host_loop_proj) (auto simp: sph_process_cell_def Let_def mul_at_apply set_at_apply fun_eq_iff)
  then have "cur_J (sph_process_J_Rho g gp k S) c r = ?G r (\<lambda>c. cur_J S c r) c"
    using host_loop_pointwise[of "\<lambda>idx J c r. if r = idx then ?G idx (\<lambda>c. J c idx) c else J c r" ?G "extent g" "cur_J S" c r] assms
    by simp
  then show "c = 0 \<or> c = 1 \<Longrightarrow> cur_J (sph_process_J_Rho g gp k S) c r = cur_J S c r * (cell_size g / gp_Ae gp c r)" by auto
  let ?f = "\<lambda>idx (rho :: nat \<Rightarrow> field) c r. if r = idx then rho c idx / gp_dV gp idx else rho c r"
  have "(\<lambda>_ :: nat. cur_rho_total (sph_process_J_Rho g gp k S)) = host_loop (extent g) ?f (\<lambda>_. cur_rho_total S)"
    unfolding sph_process_J_Rho_def
    by (rule host_loop_proj[where pr = "\<lambda>S (_ :: nat). cur_rho_total S"]) (auto simp: sph_process_cell_def Let_def rho_loop fun_eq_iff)
  then have "cur_rho_total (sph_process_J_Rho g gp k S) r = host_loop (extent g) ?f (\<lambda>_. cur_rho_total S) 0 r"
    by (metis (mono_tags))
  then show "cur_rho_total (sph_process_J_Rho g gp k S) r = cur_rho_total S r / gp_dV gp r"
    using host_loop_pointwise[of ?f "\<lambda>idx v c. v c / gp_dV gp idx" "extent g" "\<lambda>_. cur_rho_total S" 0 r] assms by simp
qed

text \<open>The areas the policy divides by are those the solver multiplies with.\<close>

lemma process_flux:
  fixes P0 :: grid_ptrs and i j :: int
  assumes "sph_ok g" "inside g i j" "inside g (i - 1) j" "inside g i (j - 1)" "gp = compute_coef g P0"
  shows "net_flux_e g gp (cur_J (sph_process_J_Rho g gp k S)) (node g i j)
    = cell_size g * (cur_J S 0 (node g i j) - cur_J S 0 (node g (i - 1) j)
        + cur_J S 1 (node g i j) - cur_J S 1 (node g i (j - 1)))"
proof -
  have p: "plane_ok g" using assms(1) by (simp add: sph_ok_def)
  have i': "inside g (i - 1) (j - 1)" using assms(3,4) by (simp add: inside_def)
  note l = node_less[OF p inside_on_plane[OF p assms(2)]] node_less[OF p inside_on_plane[OF p assms(3)]]
    node_less[OF p inside_on_plane[OF p assms(4)]]
  show ?thesis
    using areas_e[OF assms(1,2), of P0] areas_e(1)[OF assms(1,3) i', of P0] areas_e(2)[OF assms(1,4), of P0] assms(4)
    unfolding net_flux_e_node[OF p assms(2)] process_at(1)[OF l(1)] assms(5)[symmetric]
    by (simp add: process_at(1) l algebra_simps del: One_nat_def)
qed


lemma volume_pos:
  fixes P0 :: grid_ptrs
  assumes "sph_ok g" "inside g i j" "inside g i (j - 1)"
  shows "gp_dV (compute_coef g P0) (node g i j) * (g_delta g ! 0 * g_delta g ! 1) \<noteq> 0"
proof -
  have p: "plane_ok g" using assms(1) by (simp add: sph_ok_def)
  note o = plane_okD[OF p] and t = sph_okD[OF assms(1,2)]
  let ?d = "g_delta g ! 1"
  have u: "x_edge g 1 j + ?d \<le> pi" using t(2) by (simp only: x_edge_step)
  have m: "x_mid g 1 j = x_edge g 1 j + ?d / 2" "x_mid g 1 (j - 1) = x_edge g 1 j - ?d / 2"
    by (simp_all add: x_mid_edge x_edge_step(2) del: One_nat_def)
  have "?d \<le> x_edge g 1 j" by (rule t(7)[OF assms(3)])
  then have "cos (x_mid g 1 j) < cos (x_mid g 1 (j - 1))" "\<not> on_axis g j"
    using m u o(11) t(4,5) by (auto intro!: cos_monotone_0_pi simp: on_axis_def)
  moreover have "x_mid g 0 (i - 1) < x_mid g 0 i" using o(10) by (simp only: x_mid_step)
  then have "exp (x_mid g 0 (i - 1)) ^ 3 < exp (x_mid g 0 i) ^ 3" by (intro power_strict_mono) simp_all
  ultimately show ?thesis
    unfolding coef_node(13)[OF p inside_on_plane[OF p assms(2)], of P0] by (simp del: One_nat_def)
qed

text \<open>One step of the solver, for any processed currents and charges in raw balance.\<close>

lemma flux_balance:
  assumes "sph_ok g" "keeps_inner g send_guard" "layer_ok g s" "axis_clean g (fs_B s)" "gp = compute_coef g P0"
    and "inside g i j" "inside g (i - 1) j" "inside g i (j - 1)" "below_layer g s i" "n = node g i j"
    and "fs_J s = cur_J (sph_process_J_Rho g gp k S)"
    and "dt * (cur_J S 0 n - cur_J S 0 (col_dec (extent g) 0 n 1) + (cur_J S 1 n - cur_J S 1 (col_dec (extent g) 1 n 1)))
      + (cur_rho_total S n - cur_rho_total S0 n) = 0"
  shows "net_flux_e g gp (fs_E (update_explicit g gp send_guard comm dt time s)) n - net_flux_e g gp (fs_E s) n
    = (cur_rho_total (sph_process_J_Rho g gp k S) n - cur_rho_total (sph_process_J_Rho g gp k S0) n)
      * (gp_dV gp n * g_delta g ! 0 * g_delta g ! 1)"
proof -
  have p: "plane_ok g" using assms(1) by (simp add: sph_ok_def)
  note st = inside_steps[OF p assms(6)]
  have "net_flux_e g gp (fs_E (update_explicit g gp send_guard comm dt time s)) n
      = net_flux_e g gp (fs_E s) n - dt * net_flux_e g gp (fs_J s) n"
    using explicit_fluxes[OF assms(1-5) refl, where comm = comm and dt = dt and time = time and i = i and j = j] assms(6-10) by simp
  also have "dt * net_flux_e g gp (fs_J s) n = cell_size g * (dt * (cur_J S 0 n - cur_J S 0 (node g (i - 1) j)
      + cur_J S 1 n - cur_J S 1 (node g i (j - 1))))"
    unfolding assms(10,11) process_flux[OF assms(1,6-8,5)] by simp
  also have "\<dots> = cell_size g * (cur_rho_total S0 n - cur_rho_total S n)"
  proof -
    have "dt * (cur_J S 0 n - cur_J S 0 (node g (i - 1) j) + (cur_J S 1 n - cur_J S 1 (node g i (j - 1))))
        = cur_rho_total S0 n - cur_rho_total S n"
      using assms(12) unfolding assms(10) st by linarith
    then show ?thesis by (simp add: add_diff_eq)
  qed
  also have "cell_size g = g_delta g ! 0 * g_delta g ! 1"
    using plane_okD(2)[OF p] by (simp add: cell_size_def upt_rec)
  finally have f: "net_flux_e g gp (fs_E (update_explicit g gp send_guard comm dt time s)) n
      = net_flux_e g gp (fs_E s) n - g_delta g ! 0 * g_delta g ! 1 * (cur_rho_total S0 n - cur_rho_total S n)" .
  have "gp_dV gp n \<noteq> 0" using volume_pos[OF assms(1,6,8), of P0] by (simp add: assms(5,10))
  moreover have "cur_rho_total (sph_process_J_Rho g gp k S) n = cur_rho_total S n / gp_dV gp n" for S
    unfolding assms(10) by (rule process_at(2)[OF node_less[OF p inside_on_plane[OF p assms(6)]]])
  ultimately have "(cur_rho_total (sph_process_J_Rho g gp k S) n - cur_rho_total (sph_process_J_Rho g gp k S0) n)
      * (gp_dV gp n * g_delta g ! 0 * g_delta g ! 1)
      = (cur_rho_total S n - cur_rho_total S0 n) * (g_delta g ! 0 * g_delta g ! 1)"
    by (simp add: diff_divide_distrib[symmetric])
  then show ?thesis unfolding f by (simp add: algebra_simps)
qed

text \<open>
  The deposit of a list of pushed particles, each with the index of its old cell, on cleared
  currents: what the loop of the particle updater does on a grid of two dimensions.
\<close>

definition deposit_contexts :: "nat \<Rightarrow> extent_t \<Rightarrow> scalar \<Rightarrow> (ptc_context \<times> i64) list \<Rightarrow> currents" where
  "deposit_contexts m ext dt cs = foldl (\<lambda>S (c, idx). deposit2 m c idx ext dt True S) no_currents cs"

text \<open>The same particles before the push.\<close>

definition before_push :: "(ptc_context \<times> i64) list \<Rightarrow> (ptc_context \<times> i64) list" where
  "before_push cs = map (\<lambda>(c, idx). (at_rest c, idx)) cs"

lemma deposit_contexts_snoc:
  "deposit_contexts m ext dt (cs @ [(c, idx)]) = deposit2 m c idx ext dt True (deposit_contexts m ext dt cs)"
  by (simp add: deposit_contexts_def)

lemma before_push_snoc: "before_push (cs @ [(c, idx)]) = before_push cs @ [(at_rest c, idx)]"
  by (simp add: before_push_def)

lemma contexts_conserve:
  fixes r :: i64
  assumes "good_order m" "dt \<noteq> 0" "\<forall>(c, idx) \<in> set cs. in_cell 2 c"
  shows "dt * (cur_J (deposit_contexts m ext dt cs) 0 r - cur_J (deposit_contexts m ext dt cs) 0 (col_dec ext 0 r 1)
        + (cur_J (deposit_contexts m ext dt cs) 1 r - cur_J (deposit_contexts m ext dt cs) 1 (col_dec ext 1 r 1)))
    + (cur_rho_total (deposit_contexts m ext dt cs) r - cur_rho_total (deposit_contexts m ext dt (before_push cs)) r) = 0"
  using assms(3)
proof (induction cs rule: rev_induct)
  case Nil
  show ?case by (simp add: deposit_contexts_def before_push_def no_currents_def)
next
  case (snoc x cs)
  obtain c idx where x: "x = (c, idx)" by (cases x)
  let ?S = "deposit_contexts m ext dt cs" and ?R = "deposit_contexts m ext dt (before_push cs)"
  let ?T = "deposit2 m c idx ext dt True ?S"
  have "cur_rho_total (deposit2 m (at_rest c) idx ext dt True ?R) r - cur_rho_total ?R r
      = cur_rho_total (deposit2 m (at_rest c) idx ext dt True ?S) r - cur_rho_total ?S r"
    unfolding deposit2_rho[where c = "at_rest c"] by simp
  moreover have "dt * ((cur_J ?T 0 r - cur_J ?S 0 r) - (cur_J ?T 0 (col_dec ext 0 r 1) - cur_J ?S 0 (col_dec ext 0 r 1))
        + ((cur_J ?T 1 r - cur_J ?S 1 r) - (cur_J ?T 1 (col_dec ext 1 r 1) - cur_J ?S 1 (col_dec ext 1 r 1))))
      + (cur_rho_total ?T r - cur_rho_total (deposit2 m (at_rest c) idx ext dt True ?S) r) = 0"
    using snoc.prems x by (intro deposit2_conserves[OF assms(1) _ assms(2)]) auto
  moreover have "dt * (cur_J ?S 0 r - cur_J ?S 0 (col_dec ext 0 r 1) + (cur_J ?S 1 r - cur_J ?S 1 (col_dec ext 1 r 1)))
      + (cur_rho_total ?S r - cur_rho_total ?R r) = 0"
    using snoc.prems by (intro snoc.IH) auto
  ultimately show ?case
    unfolding x before_push_snoc deposit_contexts_snoc by (simp add: algebra_simps del: One_nat_def)
qed

subsection \<open>Properties\<close>

text \<open>
  C8.  Gauss's law on a spherical grid.  Push any particles by at most a cell, deposit them on
  cleared currents, let the policy process the result, and make an explicit step of the solver
  with the processed current.  Then the electric flux out of a cell changes by exactly the
  change of the processed charge density, from the particles before the push to the particles
  after it, times the volume of the cell, with the areas and volumes the grid tabulates.
  The cell is one inside the grid with its lower neighbours inside and below the damping layer;
  the guard exchange leaves inner nodes alone, the damping layer lies in the grid, and
  \<open>B\<close> starts clean on the axis.
\<close>

theorem sph_gauss_law:
  assumes "sph_ok g" "keeps_inner g send_guard" "layer_ok g s" "axis_clean g (fs_B s)" "gp = compute_coef g P0"
    and "inside g i j" "inside g (i - 1) j" "inside g i (j - 1)" "below_layer g s i" "n = node g i j"
    and "good_order m" "dt \<noteq> 0" "\<forall>(c, idx) \<in> set cs. in_cell 2 c"
    and "now = sph_process_J_Rho g gp k (deposit_contexts m (extent g) dt cs)"
    and "old = sph_process_J_Rho g gp k (deposit_contexts m (extent g) dt (before_push cs))"
    and "fs_J s = cur_J now"
  shows "net_flux_e g gp (fs_E (update_explicit g gp send_guard comm dt time s)) n - net_flux_e g gp (fs_E s) n
    = (cur_rho_total now n - cur_rho_total old n) * (gp_dV gp n * g_delta g ! 0 * g_delta g ! 1)"
  using flux_balance[OF assms(1-10) assms(16)[unfolded assms(14)] contexts_conserve[OF assms(11-13)]]
  unfolding assms(14,15) .

definition ball_particles :: "(ptc_context \<times> i64) list" where
  "ball_particles = [(example_context, node ball_grid 2 2), (example_context, node ball_grid 1 2)]"

theorem sph_gauss_law_witness:
  "\<exists>s n gp now old. n = node ball_grid 2 2 \<and> gp = compute_coef ball_grid zero_tables
    \<and> now = sph_process_J_Rho ball_grid gp 1 (deposit_contexts 1 [6, 6] 1 ball_particles)
    \<and> old = sph_process_J_Rho ball_grid gp 1 (deposit_contexts 1 [6, 6] 1 (before_push ball_particles))
    \<and> fs_J s = cur_J now
    \<and> net_flux_e ball_grid gp (fs_E (update_explicit ball_grid gp (\<lambda>f. f) None 1 1 s)) n - net_flux_e ball_grid gp (fs_E s) n
      = (cur_rho_total now n - cur_rho_total old n) * (gp_dV gp n * (1 / 4) * (pi / 4))"
proof -
  define gp where "gp = compute_coef ball_grid zero_tables"
  define now where "now = sph_process_J_Rho ball_grid gp 1 (deposit_contexts 1 [6, 6] 1 ball_particles)"
  define old where "old = sph_process_J_Rho ball_grid gp 1 (deposit_contexts 1 [6, 6] 1 (before_push ball_particles))"
  define s where "s = ball_solver\<lparr>fs_J := cur_J now\<rparr>"
  have k: "keeps_inner ball_grid (\<lambda>f. f)" by (simp add: keeps_inner_def)
  have l: "layer_ok ball_grid s" "below_layer ball_grid s 2" "axis_clean ball_grid (fs_B s)"
    by (simp_all add: layer_ok_def below_layer_def axis_clean_def s_def ball_solver_def Let_def)
  have i: "inside ball_grid 2 2" "inside ball_grid (2 - 1) 2" "inside ball_grid 2 (2 - 1)" by (simp_all add: inside_def)
  have c: "good_order 1" "(1 :: scalar) \<noteq> 0" "\<forall>(c, idx) \<in> set ball_particles. in_cell 2 c"
    by (simp_all add: good_order_def ball_particles_def example_in_cell)
  have e: "extent ball_grid = [6, 6]" by (simp add: extent_def)
  have J: "fs_J s = cur_J now" by (simp add: s_def)
  show ?thesis
    using sph_gauss_law[OF ball_grid_ok(2) k l(1,3) gp_def i l(2) refl c now_def[folded e] old_def[folded e] J, of None 1] gp_def now_def old_def J
    by (intro exI[of _ s] exI[of _ "node ball_grid 2 2"] exI[of _ gp] exI[of _ now] exI[of _ old]) simp
qed

end
