(* ===== verification/PolarPolicy.thy ===== *)
theory PolarPolicy
  imports SphPolicy
begin

text \<open>
  Polar coordinates in the plane: the grid of \<open>src/systems/grid_polar.hpp\<close> and the policy
  \<open>src/systems/policies/coord_policy_polar.hpp\<close>.  The tables are those of a spherical grid
  without the polar angle; the policy is the second instance of \<open>ChartMove\<close>.
\<close>

subsection \<open>The grid\<close>

definition pol_radius :: "scalar \<Rightarrow> scalar" where "pol_radius x = x"
definition pol_theta :: "scalar \<Rightarrow> scalar" where "pol_theta x = x"
definition pol_from_radius :: "scalar \<Rightarrow> scalar" where "pol_from_radius r = r"
definition pol_from_theta :: "scalar \<Rightarrow> scalar" where "pol_from_theta th = th"

definition pol_cart_coord :: "Grid \<Rightarrow> index_t \<Rightarrow> scalar list" where
  "pol_cart_coord g pos =
     (let r = pol_radius (coord_stagger g 0 (pos ! 0) 0); th = pol_theta (coord_stagger g 1 (pos ! 1) 0)
      in [r * cos th, r * sin th])"

definition cart2polar :: "scalar list \<Rightarrow> scalar list \<Rightarrow> scalar list" where
  "cart2polar v x =
     (let c2 = cos (x ! 1); s2 = sin (x ! 1)
      in [v ! 0 * c2 + v ! 1 * s2, - v ! 0 * s2 + v ! 1 * c2, v ! 2])"

definition polar2cart :: "scalar list \<Rightarrow> scalar list \<Rightarrow> scalar list" where
  "polar2cart v x =
     (let c2 = cos (x ! 1); s2 = sin (x ! 1)
      in [v ! 0 * c2 - v ! 1 * s2, v ! 0 * s2 + v ! 1 * c2, v ! 2])"

definition pol_coef_cell :: "Grid \<Rightarrow> i64 \<Rightarrow> grid_ptrs \<Rightarrow> grid_ptrs" where
  "pol_coef_cell g idx P =
     (let pos = get_pos (extent g) idx;
          r = pol_radius (coord_stagger g 0 (pos ! 0) 0); r_minus = pol_radius (coord_stagger g 0 (pos ! 0 - 1) 0);
          rs = pol_radius (coord_stagger g 0 (pos ! 0) 1); rs_plus = pol_radius (coord_stagger g 0 (pos ! 0 + 1) 1);
          th = pol_theta (coord_stagger g 1 (pos ! 1) 0); th_minus = pol_theta (coord_stagger g 1 (pos ! 1 - 1) 0);
          ths = pol_theta (coord_stagger g 1 (pos ! 1) 1); ths_plus = pol_theta (coord_stagger g 1 (pos ! 1 + 1) 1);
          P = P\<lparr>gp_le := set_at (set_at (set_at (gp_le P) 0 idx (rs_plus - rs)) 1 idx (rs * (ths_plus - ths))) 2 idx 1\<rparr>;
          P = P\<lparr>gp_lb := set_at (set_at (set_at (gp_lb P) 0 idx (r - r_minus)) 1 idx (r * (th - th_minus))) 2 idx 1\<rparr>;
          P = P\<lparr>gp_Ae := set_at (set_at (set_at (gp_Ae P) 0 idx (r * (th - th_minus))) 1 idx (r - r_minus))
                  2 idx (0.5 * (r\<^sup>2 - r_minus\<^sup>2) * (th - th_minus))\<rparr>;
          P = P\<lparr>gp_Ab := set_at (set_at (set_at (gp_Ab P) 0 idx (rs * (ths_plus - ths))) 1 idx (rs_plus - rs))
                  2 idx (0.5 * (rs_plus\<^sup>2 - rs\<^sup>2) * (ths_plus - ths))\<rparr>
      in P\<lparr>gp_dV := (gp_dV P)(idx := (th - th_minus) * (r\<^sup>2 - r_minus\<^sup>2) * 0.5 / (g_delta g ! 0 * g_delta g ! 1))\<rparr>)"

definition pol_compute_coef :: "Grid \<Rightarrow> grid_ptrs \<Rightarrow> grid_ptrs" where
  "pol_compute_coef g P = host_loop (extent g) (pol_coef_cell g) P"

subsection \<open>The policy\<close>

definition pol_weight_func :: "scalar \<Rightarrow> scalar \<Rightarrow> scalar \<Rightarrow> scalar" where
  "pol_weight_func a b c = 1"

text \<open>The maps the body of \<open>move_ptc\<close> writes out.\<close>

definition polar_to_cart :: "scalar list \<Rightarrow> scalar list" where
  "polar_to_cart x =
     (let r = pol_radius (x ! 0); th = pol_theta (x ! 1) in [r * cos th, r * sin th, x ! 2])"

definition polar_from_cart :: "scalar list \<Rightarrow> scalar list" where
  "polar_from_cart x =
     [pol_from_radius (sqrt ((x ! 0)\<^sup>2 + (x ! 1)\<^sup>2)), pol_from_theta (atan2 (x ! 1) (x ! 0)), x ! 2]"

text \<open>The vectors are turned at the polar angle, before \<open>from_theta\<close>; both are the identity.\<close>

definition pol_move_ptc :: "Grid \<Rightarrow> ptc_context \<Rightarrow> index_t \<Rightarrow> scalar \<Rightarrow> ptc_context \<times> index_t" where
  "pol_move_ptc = curv_move_ptc (move_core_curv polar_to_cart polar_from_cart polar2cart cart2polar)"

definition pol_update_ptc :: "pusher \<Rightarrow> Grid \<Rightarrow> ptc_context \<Rightarrow> index_t \<Rightarrow> scalar \<Rightarrow> ptc_context \<times> index_t" where
  "pol_update_ptc push g c pos dt =
     pol_move_ptc g (if \<not> check_flag (pc_flag c) (PtcFlag_code ignore_EM) then pusher_simple push c dt else c) pos dt"

definition pol_update_ph :: "Grid \<Rightarrow> ph_context \<Rightarrow> index_t \<Rightarrow> scalar \<Rightarrow> ph_context \<times> index_t" where
  "pol_update_ph = curv_move_ph (move_core_curv polar_to_cart polar_from_cart polar2cart cart2polar)"

definition pol_process_cell :: "Grid \<Rightarrow> grid_ptrs \<Rightarrow> nat \<Rightarrow> i64 \<Rightarrow> currents \<Rightarrow> currents" where
  "pol_process_cell g gp num_species idx S =
     (let w = cell_size g;
          J = mul_at (cur_J S) 0 idx (w / gp_Ae gp 0 idx);
          J = mul_at J 1 idx (w / gp_Ae gp 1 idx);
          J = mul_at J 2 idx (w / gp_Ae gp 2 idx);
          S = S\<lparr>cur_J := J, cur_rho_total := (cur_rho_total S)(idx := cur_rho_total S idx / gp_dV gp idx)\<rparr>
      in foldl (\<lambda>S n. S\<lparr>cur_Rho := (cur_Rho S)(n := (cur_Rho S n)(idx := cur_Rho S n idx / gp_dV gp idx))\<rparr>) S [0..<num_species])"

definition pol_process_J_Rho :: "Grid \<Rightarrow> grid_ptrs \<Rightarrow> nat \<Rightarrow> currents \<Rightarrow> currents" where
  "pol_process_J_Rho g gp num_species S = host_loop (extent g) (pol_process_cell g gp num_species) S"

definition pol_filter_field :: "Grid \<Rightarrow> grid_ptrs \<Rightarrow> bool list \<Rightarrow> stagger_t list \<Rightarrow> vfield \<times> field \<Rightarrow> vfield \<times> field" where
  "pol_filter_field g gp is_bd sts st =
     foldl (\<lambda>(f, tmp) i. let (fi, tmp) = filter_field_component_factor g is_bd (gp_Ae gp i) (sts ! i) (f i, tmp)
       in (f(i := fi), tmp)) st [0, 1, 2]"

definition pol_filter_scalar :: "Grid \<Rightarrow> grid_ptrs \<Rightarrow> bool list \<Rightarrow> stagger_t \<Rightarrow> field \<times> field \<Rightarrow> field \<times> field" where
  "pol_filter_scalar g gp is_bd st = filter_field_component_factor g is_bd (gp_dV gp) st"

subsection \<open>The polar chart\<close>

lemma polar_lengths [simp]:
  "length (polar_to_cart x) = 3" "length (polar_from_cart x) = 3" "length (polar2cart v x) = 3"
  by (simp_all add: polar_to_cart_def polar_from_cart_def polar2cart_def Let_def)

lemma polar_point_round:
  assumes "length x = 3"
  shows "polar_to_cart (polar_from_cart x) = x"
proof -
  obtain a b c where x: "x = [a, b, c]" using assms by (auto simp: length_Suc_conv numeral_3_eq_3)
  show ?thesis
    by (cases "a = 0 \<and> b = 0")
       (auto simp: x polar_to_cart_def polar_from_cart_def Let_def pol_radius_def pol_theta_def pol_from_radius_def
         pol_from_theta_def atan2_polar)
qed

lemma polar_vec_round:
  assumes "length v = 3"
  shows "polar2cart (cart2polar v x) x = v" "cart2polar (polar2cart v x) x = v"
proof -
  obtain a b c where v: "v = [a, b, c]" using assms by (auto simp: length_Suc_conv numeral_3_eq_3)
  obtain c2 s2 where d: "c2 = cos (x ! 1)" "s2 = sin (x ! 1)" by simp
  have t: "s2 * s2 = 1 - c2 * c2" by (simp add: d sin_squared_eq flip: power2_eq_square)
  have k: "s2 * (s2 * z) = (1 - c2 * c2) * z" for z by (simp only: mult.assoc[symmetric] t)
  show "polar2cart (cart2polar v x) x = v" "cart2polar (polar2cart v x) x = v"
    unfolding v polar2cart_def cart2polar_def Let_def d[symmetric] by (simp_all add: algebra_simps t k)
qed

interpretation pol: chart polar_to_cart polar_from_cart polar2cart cart2polar "\<lambda>x. True"
  by unfold_locales (simp_all add: polar_point_round polar_vec_round)

subsection \<open>Properties\<close>

definition free_flight ::
  "(scalar list \<Rightarrow> scalar list) \<Rightarrow> (scalar list \<Rightarrow> scalar list \<Rightarrow> scalar list) \<Rightarrow> Grid \<Rightarrow> scalar \<Rightarrow>
   ptc_context \<Rightarrow> index_t \<Rightarrow> ptc_context \<Rightarrow> index_t \<Rightarrow> bool" where
  "free_flight to_cart v_to_cart g dt c pos c' pos' =
     (let old = global_x g (pc_x c) pos; new = global_x g (pc_new_x c') pos'
      in to_cart new = map2 (\<lambda>a b. a + b * (dt / pc_gamma c)) (to_cart old) (v_to_cart (pc_p c) old)
         \<and> v_to_cart (pc_p c') new = v_to_cart (pc_p c) old
         \<and> (\<forall>i < g_dim g. 0 \<le> pc_new_x c' ! i \<and> pc_new_x c' ! i < 1))"

text \<open>
  C13.  Under the spherical and the polar policy, in two and three dimensions, a particle moves on
  a straight line through Cartesian space whatever cells it crosses: the Cartesian point of its
  new position is the old one plus \<open>p dt / gamma\<close>, its Cartesian momentum does not change,
  and the new relative coordinates lie in \<open>[0, 1)\<close>, as long as the cell numbers do not
  overflow and, for the spherical policy, the particle does not arrive at the origin.
\<close>

theorem curvilinear_motion_straight:
  assumes "grid_ok g" "g_dim g = 2 \<or> g_dim g = 3" "length (pc_new_x c) = 3" "g_dim g \<le> length (pc_dc c)" "g_dim g \<le> length pos"
    and "\<forall>i < g_dim g. sint (pos' ! i) = sint (pos ! i) + pc_dc c' ! i" "old = global_x g (pc_x c) pos"
  shows "(sph_move_ptc g c pos dt = (c', pos')
      \<and> map2 (\<lambda>a b. a + b * (dt / pc_gamma c)) (coord_to_cart old) (vec_to_cart (pc_p c) old) \<noteq> [0, 0, 0]
      \<longrightarrow> free_flight coord_to_cart vec_to_cart g dt c pos c' pos')
    \<and> (pol_move_ptc g c pos dt = (c', pos') \<longrightarrow> free_flight polar_to_cart polar2cart g dt c pos c' pos')"
  using sph.straight[OF assms(1-5) _ assms(6)] pol.straight[OF assms(1-5) _ assms(6)]
  unfolding sph_move_ptc_def pol_move_ptc_def free_flight_def Let_def assms(7) by blast

text \<open>A particle at radius 1 on the equator moves along the radius.\<close>

definition ball_context :: ptc_context where
  "ball_context = example_context\<lparr>pc_x := [0, 0, 0], pc_new_x := [0, 0, 0], pc_dc := [0, 0, 0],
     pc_p := [exp (1 / 2) - 1, 0, 0], pc_gamma := 1\<rparr>"

theorem curvilinear_motion_straight_witness:
  "\<exists>c' pos'. sph_move_ptc ball_grid ball_context [1, 3] 1 = (c', pos') \<and> pos' = [3, 3]
    \<and> coord_to_cart (global_x ball_grid (pc_new_x c') pos') = [exp (1 / 2), 0, 0]"
proof -
  have c: "pc_x ball_context = [0, 0, 0]" "pc_new_x ball_context = [0, 0, 0]" "pc_dc ball_context = [0, 0, 0]"
    "pc_p ball_context = [exp (1 / 2) - 1, 0, 0]" "pc_gamma ball_context = 1"
    by (simp_all add: ball_context_def)
  have inv: "g_inv_delta ball_grid = [4, 4 / pi]" by (simp add: ball_grid_def make_grid_def)
  have old: "global_x ball_grid [0, 0, 0] [1, 3] = [0, pi / 2, 0]" by (simp add: global_x_def coord_def)
  have there: "map2 (\<lambda>a b. a + b * (1 / 1)) (coord_to_cart [0, pi / 2, 0]) (vec_to_cart [exp (1 / 2) - 1, 0, 0] [0, pi / 2, 0])
      = [exp (1 / 2), 0, 0]"
    and there': "map2 (+) (coord_to_cart [0, pi / 2, 0]) (vec_to_cart [exp (1 / 2) - 1, 0, 0] [0, pi / 2, 0]) = [exp (1 / 2), 0, 0]"
    by (simp_all add: coord_to_cart_def vec_to_cart_def radius_def theta_def Let_def)
  have new: "coord_from_cart [exp (1 / 2), 0, 0] = [1 / 2, pi / 2, 0]"
    by (simp add: coord_from_cart_def from_radius_def from_theta_def atan2_def Let_def)
  have r: "[0..<2] = [0, 1 :: nat]" "[2..<3] = [2 :: nat]" by (simp_all add: upt_rec)
  define c' where "c' = ball_context\<lparr>pc_new_x := [0, 0, 0], pc_dc := [2, 0, 0], pc_p := vec_from_cart (vec_to_cart [exp (1 / 2) - 1, 0, 0] [0, pi / 2, 0]) [1 / 2, pi / 2, 0]\<rparr>"
  have m: "sph_move_ptc ball_grid ball_context [1, 3] 1 = (c', [3, 3])"
    by (simp add: sph_move_ptc_def curv_move_ptc_def move_core_curv_def c old there' new Let_def r curv_move_dir_def inv c'_def)
  have d: "g_dim ball_grid = 2 \<or> g_dim ball_grid = 3" "length (pc_new_x ball_context) = 3" "g_dim ball_grid \<le> length (pc_dc ball_context)"
    "g_dim ball_grid \<le> length [1, 3 :: i32]" by (simp_all add: c)
  have "\<forall>i < g_dim ball_grid. sint ([3, 3 :: i32] ! i) = sint ([1, 3 :: i32] ! i) + pc_dc c' ! i"
    by (simp add: c'_def all_less_2 less_Suc_eq)
  note f = curvilinear_motion_straight[OF plane_okD(1)[OF ball_grid_plane] d this refl, of 1, unfolded c old there]
  have "free_flight coord_to_cart vec_to_cart ball_grid 1 ball_context [1, 3] c' [3, 3]"
    by (rule f[THEN conjunct1, rule_format]) (simp add: m)
  then have "coord_to_cart (global_x ball_grid (pc_new_x c') [3, 3]) = [exp (1 / 2), 0, 0]"
    unfolding free_flight_def Let_def c old there by blast
  then show ?thesis using m by blast
qed

end
