(* ===== verification/Spec2Isabelle.thy ===== *)
theory Spec2Isabelle
  imports Env Rng FieldSolver CoordPolicy GuardExchange DomainComm ParamTypes Injector GaussLaw NdArray PolarPolicy
begin

text \<open>
  Aperture4 is a particle-in-cell code for plasma physics: charged particles move in electromagnetic
  fields on a grid, deposit their currents back onto the grid, and the fields evolve under Maxwell's
  equations; the domain is divided among MPI ranks that exchange guard cells and particles. This
  library models the host build of the code (no CUDA or HIP), in one to three Cartesian dimensions
  and on spherical and polar grids.

  \<^bold>\<open>How the parts interact.\<close>  A simulation is an environment
  (\<open>Env\<close>) that holds systems and data components by name, reads its parameters from a
  typed store (\<open>Params\<close>) and calls \<open>update\<close> of every system in each round
  of the main loop. The systems share the data components. The particle updater
  (\<open>PtcUpdater\<close>) takes the particles (\<open>Particles\<close>) cell by cell through
  interpolation of the fields (\<open>Interp\<close>), a momentum pusher (\<open>Pusher\<close>),
  the motion of the coordinate policy (\<open>CoordPolicy\<close>, \<open>SphPolicy\<close>,
  \<open>PolarPolicy\<close>) and the deposit of the current (\<open>Deposit\<close>). The field
  solver (\<open>FieldSolver\<close>, \<open>SphSolver\<close>) advances \<open>E\<close> and
  \<open>B\<close> with that current through finite differences (\<open>FiniteDiff\<close>) on the
  grid (\<open>GridModel\<close>, \<open>SphGrid\<close>). Both call \<open>domain_comm\<close>
  (\<open>GuardCells\<close>, \<open>DomainComm\<close>) to exchange the guard cells and the
  particles that leave a rank; the particles are kept in order by the sort of
  \<open>ParticleSort\<close>. The injector (\<open>Injector\<close>) and the radiative transfer
  (\<open>RadTransfer\<close>) append particles and photons. All fields live in arrays
  (\<open>NdArray\<close>, \<open>MultiArray\<close>) over buffers (\<open>Buffer\<close>), read
  through linear indices (\<open>Index\<close>, \<open>ZOrder\<close>).

  \<^bold>\<open>Theories and sources\<close>  (paths below \<open>src/src\<close>).

  \<^item> \<open>Prelude\<close>: collections of theorems, and lemmas on lists, words, maps and
    folds that the components share.
  \<^item> \<open>Vec\<close>, \<open>Index\<close>: \<open>utils/vec.hpp\<close> and
    \<open>utils/index.hpp\<close>. Vectors are lists of machine words, a linear index is a 64-bit
    word. The lemmas show that positions and indices correspond one to one inside good extents, for
    the column-major and the row-major scheme.
  \<^item> \<open>Morton\<close>, \<open>MortonArith\<close>, \<open>ZOrder\<close>:
    \<open>utils/morton.h\<close> and the z-order indices of \<open>utils/index.hpp\<close>:
    interleaved keys as loops over tables and shifts, arithmetic on keys as addition under a mask,
    and the index scheme built on them.
  \<^item> \<open>Util\<close>: \<open>utils/stagger.h\<close>,
    \<open>utils/util_functions.h\<close>, \<open>utils/binary_search.h\<close>,
    \<open>utils/range.hpp\<close>, \<open>core/enum_types.h\<close>,
    \<open>core/particle_structs.h\<close>: bit fields, powers of two, binary search and grid-stride
    loops.
  \<^item> \<open>Store\<close>, \<open>Buffer\<close>, \<open>MultiArray\<close>,
    \<open>NdArray\<close>: \<open>core/buffer.hpp\<close> over an explicit heap of blocks,
    \<open>core/multi_array.hpp\<close> with \<open>core/ndptr.hpp\<close> on top of it, and the
    copies of \<open>core/detail/multi_array_helpers.cpp\<close>. A freed block stays freed, so a
    stale reference or a stale size is visible.
  \<^item> \<open>Particles\<close>, \<open>ParticleSort\<close>: \<open>core/particles.h\<close>,
    \<open>core/particles.cpp\<close>, \<open>core/particles_functions.cpp\<close>: the particle
    arrays, append, receive, the in-place rearrangement and the sort by cell.
  \<^item> \<open>GridModel\<close>, \<open>GridLemmas\<close>: \<open>core/grid.hpp\<close>,
    \<open>core/domain_info.h\<close>, \<open>systems/grid_impl.hpp\<close>: coordinates, zones and
    the grid of a rank.
  \<^item> \<open>Interp\<close>, \<open>Deposit\<close>, \<open>Pusher\<close>,
    \<open>CoordPolicy\<close>, \<open>PtcUpdater\<close>, \<open>PtcCharge\<close>:
    \<open>utils/interpolation.hpp\<close>, the kernels of
    \<open>systems/helpers/ptc_update_helper.hpp\<close>,
    \<open>systems/physics/pushers.hpp\<close>,
    \<open>systems/policies/coord_policy_cartesian.hpp\<close>,
    \<open>systems/helpers/filter_field.hpp\<close> and \<open>systems/ptc_updater_impl.hpp\<close>.
    The lemmas lead from the continuity equation of one deposit to that of a whole update.
  \<^item> \<open>FiniteDiff\<close>, \<open>FieldSolver\<close>:
    \<open>systems/helpers/finite_diff_helper.hpp\<close>,
    \<open>systems/field_solver_base_impl.hpp\<close> and
    \<open>systems/field_solver_cartesian_impl.hpp\<close>: plain, PML and semi-implicit steps.
  \<^item> \<open>GaussLaw\<close>: the round of the main loop
    (\<open>framework/environment.cpp\<close>) with updater and Cartesian solver, which share data
    components by name: the updater reads the totals of the solver, the solver the current of the
    updater. The charge conservation of the one and the divergence of the other give the law of
    Gauss.
  \<^item> \<open>SphGrid\<close>, \<open>SphSolver\<close>: \<open>systems/grid_sph.hpp\<close>,
    \<open>systems/grid_curv.h\<close> and \<open>systems/field_solver_sph_impl.hpp\<close>: the
    tables of lengths, areas and volumes, the solver in integral form, its axis and damping
    boundaries. A node is a pair of integers; the lemmas give every table and kernel at a node in
    closed form.
  \<^item> \<open>ChartMove\<close>, \<open>SphPolicy\<close>, \<open>PolarPolicy\<close>:
    \<open>systems/policies/coord_policy_spherical.hpp\<close>,
    \<open>systems/policies/coord_policy_polar.hpp\<close> and
    \<open>systems/grid_polar.hpp\<close>. Both policies move a particle through Cartesian space;
    \<open>ChartMove\<close> has the common body with the four maps as arguments.
  \<^item> \<open>GuardCells\<close>, \<open>GuardExchange\<close>, \<open>DomainComm\<close>:
    \<open>systems/domain_comm_impl.hpp\<close>: the exchange of guard cells, its refinement of a
    global field, the set-up of the decomposition and the exchange of particles. The state of all
    ranks is one value; a call made by every rank is one step.
  \<^item> \<open>Rng\<close>: \<open>core/random.h\<close>, \<open>data/rng_states.cpp\<close>: the
    generator, its jumps and the distributions.
  \<^item> \<open>Params\<close>, \<open>ParamTypes\<close>, \<open>Env\<close>:
    \<open>framework/params_store.*\<close> and \<open>framework/environment.*\<close>: the store,
    its typing, the registries and the main loop.
  \<^item> \<open>Injector\<close>, \<open>RadTransfer\<close>, \<open>RadConserve\<close>:
    \<open>systems/ptc_injector_host.hpp\<close>, \<open>systems/radiative_transfer_impl.hpp\<close>
    and \<open>systems/radiation/default_radiation_scheme.hpp\<close>, with the laws of conservation
    the transfer obeys under any scheme that obeys them.

  \<^bold>\<open>Interfaces.\<close>  \<open>array_store\<close> is what a buffer promises the loops
  that fill and copy it; \<open>index_scheme\<close> what a linear index promises an array;
  \<open>nd_store\<close> combines the two. \<open>slab_exchange\<close> is the exchange along one
  direction, for the array and the components of a vector field; \<open>key_field\<close> the
  arithmetic on one coordinate of a Morton key; \<open>radiation_policy\<close> the conservation
  laws of a scheme; \<open>chart\<close> a coordinate system with an inverse. Every locale is
  interpreted on the definitions of the model, and the properties rest on the facts of the
  interpretations.

  \<^bold>\<open>Conventions.\<close>  Machine integers are words of their width and wrap around;
  array accesses out of range and dereferences of null are \<open>None\<close>, and so is the
  overflow of an \<open>int\<close>, which C++ leaves undefined. Counts kept in a
  \<open>buffer<int>\<close> are 32-bit words, sizes are numbers below \<open>2 ^ 64\<close> with
  the wrapping operations of \<open>size_t\<close> (\<open>size_add\<close>,
  \<open>size_sub\<close>, \<open>size_mul\<close>, \<open>to_size\<close>,
  \<open>size_to_int\<close>), and the byte counts of MPI calls are converted to \<open>int\<close>
  as in the code. Floating point numbers are real numbers, so the theorems on fields, pushers and
  deposits state the algebra of the schemes and not their rounding; the \<open>float\<close> literal
  of the deposit and \<open>TINY\<close> have the exact value the compiler gives them, and the
  Poisson loop, which ends by rounding, takes the roundings as parameters. A field is a function
  from linear indices; where bounds matter (arrays, buffers, exchanges) it is a block of a heap.
  Loops that can run for ever are \<open>partial_function (option)\<close> definitions, and their
  theorems state that they return. Code outside the repository (the TOML parser, MPI, the special
  functions of the random distributions) is a parameter of the definitions that call it.

  \<^bold>\<open>Bounds.\<close>  Extents have sides below \<open>2 ^ 31\<close> and a volume that
  the 64-bit index and the 32-bit cell number hold (\<open>good_extent\<close>,
  \<open>grid_ok\<close>). The sort needs its \<open>int\<close> counters to hold
  (\<open>sort_fits\<close>), the exchange of particles zone buffers of fewer than
  \<open>2 ^ 31\<close> bytes and processes that \<open>m_cart\<close> numbers as
  \<open>m_world\<close>; a lemma of \<open>DomainComm\<close> shows what happens otherwise. Gauss's
  law is stated in one and two dimensions, on one rank and without smoothing; on the spherical grid
  for the cells below the damping layer. Theorems on updates assume room for the particles they
  create, and state what happens when the room is missing. The fields of a step need one guard cell
  more than the stencil reaches, and the statements name the nodes they hold at. The number of pairs
  injected per cell is a natural number below the capacity of the array, so no count wraps.

  \<^bold>\<open>Not modelled.\<close>  The GPU and SIMD variants (the same loop bodies through
  other launchers), the Kerr-Schild grid, solver and policies and the metrics (tabulated integrals
  of transcendental functions), the inverse-Compton, curvature and synchrotron processes (tabulated
  spectra), output through HDF5, logging and timing (pure output), the legacy systems and the Vlasov
  solver, which the build does not compile or which are incomplete, and the vendored libraries. Of
  the polar solver the source has empty bodies only.
\<close>

end
